(* ===== verification/Prelude.thy ===== *)
theory Prelude
  imports Main "HOL-Library.Word"
begin

text \<open>
  Shared vocabulary of the development: machine integers, byte-addressed memory with
  little-endian 32-bit accesses, and the outcome type of kernel code.  A kernel function is
  a function from the kernel state to an outcome: it returns a value, it panics, or it
  leaves the kernel and does not return to its caller.
\<close>

unbundle bit_operations_syntax

named_theorems kdefs \<open>definitions of the primitive steps of kernel code\<close>
named_theorems layout \<open>constants of the memory layout and of the page tables\<close>

type_synonym u8 = "8 word"
type_synonym u16 = "16 word"
type_synonym u32 = "32 word"
type_synonym u64 = "64 word"

subsection \<open>Outcomes of kernel code\<close>

text \<open>How the kernel can be left without returning to the caller.\<close>

datatype kexit =
    To_user nat \<comment> \<open>\<open>env_pop_tf\<close>: resume environment number n in user mode\<close>
  | Cpu_halt \<comment> \<open>\<open>sched_halt\<close>: the CPU waits for the next interrupt\<close>
  | Monitor_loop \<comment> \<open>\<open>while (1) monitor(NULL)\<close> with nothing to run\<close>
  | Spin \<comment> \<open>a loop that only another CPU or a device can end\<close>

datatype ('a, 's) kres =
    Ret 'a 's
  | Panic string 's
  | Leave kexit 's

type_synonym ('a, 's) kfun = "'s \<Rightarrow> ('a, 's) kres"

definition kret :: "'a \<Rightarrow> ('a, 's) kfun" where
  "kret x s = Ret x s"

definition kpanic :: "string \<Rightarrow> ('a, 's) kfun" where
  "kpanic msg s = Panic msg s"

definition kleave :: "kexit \<Rightarrow> ('a, 's) kfun" where
  "kleave e s = Leave e s"

definition kget :: "('s \<Rightarrow> 'a) \<Rightarrow> ('a, 's) kfun" where
  "kget f s = Ret (f s) s"

definition kmod :: "('s \<Rightarrow> 's) \<Rightarrow> (unit, 's) kfun" where
  "kmod f s = Ret () (f s)"

definition kbind :: "('a, 's) kfun \<Rightarrow> ('a \<Rightarrow> ('b, 's) kfun) \<Rightarrow> ('b, 's) kfun" where
  "kbind m f s = (case m s of Ret x t \<Rightarrow> f x t | Panic e t \<Rightarrow> Panic e t | Leave e t \<Rightarrow> Leave e t)"

definition kwhen :: "bool \<Rightarrow> (unit, 's) kfun \<Rightarrow> (unit, 's) kfun" where
  "kwhen b m = (if b then m else kret ())"

text \<open>\<open>assert(b)\<close> of inc/assert.h panics when the condition is false.\<close>

definition kassert :: "bool \<Rightarrow> string \<Rightarrow> (unit, 's) kfun" where
  "kassert b msg = (if b then kret () else kpanic msg)"

lemmas kprim = kret_def kpanic_def kleave_def kget_def kmod_def kwhen_def kassert_def

lemma kbind_Ret: "m s = Ret x t \<Longrightarrow> kbind m f s = f x t"
  by (simp add: kbind_def)

lemma kbind_Panic: "m s = Panic e t \<Longrightarrow> kbind m f s = Panic e t"
  by (simp add: kbind_def)

lemma kbind_Leave: "m s = Leave e t \<Longrightarrow> kbind m f s = Leave e t"
  by (simp add: kbind_def)

lemma kbind_prim [simp]:
  "kbind (kret x) f s = f x s"
  "kbind (kpanic msg) f s = Panic msg s"
  "kbind (kleave e) f s = Leave e s"
  "kbind (kget g) f s = f (g s) s"
  "kbind (kmod h) k s = k () (h s)"
  by (simp_all add: kbind_def kprim)

lemma kbind_if [simp]:
  "kbind (if b then m else m') f s = (if b then kbind m f s else kbind m' f s)"
  by simp

lemma kbind_kwhen [simp]:
  "kbind (kwhen b m) f s = (if b then kbind m f s else f () s)"
  by (simp add: kbind_def kprim)

lemma kbind_kassert [simp]:
  "kbind (kassert b msg) f s = (if b then f () s else Panic msg s)"
  by (simp add: kbind_def kprim)

lemma kbind_assoc [simp]: "kbind (kbind m f) g = kbind m (\<lambda>x. kbind (f x) g)"
  by (rule ext) (simp add: kbind_def split: kres.split)

lemma kbind_eq_Ret:
  "kbind m f s = Ret y u \<longleftrightarrow> (\<exists>x t. m s = Ret x t \<and> f x t = Ret y u)"
  by (simp add: kbind_def split: kres.split)

lemma kbind_eq_Leave:
  "kbind m f s = Leave e u \<longleftrightarrow>
     m s = Leave e u \<or> (\<exists>x t. m s = Ret x t \<and> f x t = Leave e u)"
  by (auto simp add: kbind_def split: kres.split)

lemma kbind_cong [fundef_cong]:
  assumes "m s = m' s'" and "\<And>x t. m' s' = Ret x t \<Longrightarrow> f x t = f' x t" and "s = s'"
  shows "kbind m f s = kbind m' f' s'"
  using assms by (auto simp: kbind_def split: kres.split)

text \<open>A counted loop whose body returns nothing.\<close>

primrec kfor :: "'a list \<Rightarrow> ('a \<Rightarrow> (unit, 's) kfun) \<Rightarrow> (unit, 's) kfun" where
  "kfor [] body = kret ()"
| "kfor (x # xs) body = kbind (body x) (\<lambda>_. kfor xs body)"

lemma kfor_append: "kfor (xs @ ys) body = kbind (kfor xs body) (\<lambda>_. kfor ys body)"
proof (induction xs)
  case Nil
  then show ?case by (rule ext) simp
qed simp

text \<open>A loop whose rounds all return runs through the states its invariant describes.\<close>

lemma kfor_run:
  assumes "I [] s"
    and "\<And>us x vs s. xs = us @ x # vs \<Longrightarrow> I us s \<Longrightarrow> \<exists>t. body x s = Ret () t \<and> I (us @ [x]) t"
  shows "\<exists>t. kfor xs body s = Ret () t \<and> I xs t"
proof -
  have "\<exists>t. kfor vs body s = Ret () t \<and> I (us @ vs) t" if "xs = us @ vs" "I us s" for us vs s
    using that
  proof (induction vs arbitrary: us s)
    case (Cons x vs)
    then obtain t where t: "body x s = Ret () t" "I (us @ [x]) t" using assms(2) by blast
    from Cons.IH [of "us @ [x]" t] Cons.prems(1) t show ?case by (simp add: kbind_Ret)
  qed (simp add: kret_def)
  from this [of "[]" xs s] assms(1) show ?thesis by simp
qed

text \<open>The state in which the outcome leaves the machine, whatever the outcome is.\<close>

fun kstate_of :: "('a, 's) kres \<Rightarrow> 's" where
  "kstate_of (Ret x s) = s"
| "kstate_of (Panic e s) = s"
| "kstate_of (Leave e s) = s"

subsection \<open>Pre- and postconditions\<close>

text \<open>
  \<open>hoare P m Q N\<close>: from a state with \<open>P\<close>, a return of \<open>x\<close> satisfies \<open>Q x\<close> and an exit
  from the kernel satisfies \<open>N\<close>; a panic stops the machine and promises nothing.
\<close>

definition hoare ::
  "('s \<Rightarrow> bool) \<Rightarrow> ('a, 's) kfun \<Rightarrow> ('a \<Rightarrow> 's \<Rightarrow> bool) \<Rightarrow> ('s \<Rightarrow> bool) \<Rightarrow> bool" where
  "hoare P m Q N \<longleftrightarrow>
     (\<forall>s. P s \<longrightarrow> (case m s of Ret x t \<Rightarrow> Q x t | Panic e t \<Rightarrow> True | Leave e t \<Rightarrow> N t))"

lemma hoareD:
  "hoare P m Q N \<Longrightarrow> P s \<Longrightarrow>
     (case m s of Ret x t \<Rightarrow> Q x t | Panic e t \<Rightarrow> True | Leave e t \<Rightarrow> N t)"
  by (simp add: hoare_def)

lemma hoareI:
  assumes "\<And>s x t. P s \<Longrightarrow> m s = Ret x t \<Longrightarrow> Q x t"
    and "\<And>s e t. P s \<Longrightarrow> m s = Leave e t \<Longrightarrow> N t"
  shows "hoare P m Q N"
  unfolding hoare_def
proof (intro allI impI)
  fix s assume "P s"
  with assms show "case m s of Ret x t \<Rightarrow> Q x t | Panic e t \<Rightarrow> True | Leave e t \<Rightarrow> N t"
    by (cases "m s") auto
qed

lemma hoare_Ret: "hoare P m Q N \<Longrightarrow> P s \<Longrightarrow> m s = Ret x t \<Longrightarrow> Q x t"
  by (drule (1) hoareD) simp

lemma hoare_Leave: "hoare P m Q N \<Longrightarrow> P s \<Longrightarrow> m s = Leave e t \<Longrightarrow> N t"
  by (drule (1) hoareD) simp

lemma hoare_bind:
  assumes m: "hoare P m R N" and f: "\<And>x. hoare (R x) (f x) Q N"
  shows "hoare P (kbind m f) Q N"
proof (rule hoareI)
  fix s y u assume "P s" and "kbind m f s = Ret y u"
  then show "Q y u"
    by (auto simp: kbind_eq_Ret intro: hoare_Ret [OF f] hoare_Ret [OF m])
next
  fix s e u assume "P s" and "kbind m f s = Leave e u"
  then consider "m s = Leave e u" | x t where "m s = Ret x t" "f x t = Leave e u"
    by (auto simp: kbind_eq_Leave)
  then show "N u"
    using \<open>P s\<close> by cases (blast dest: hoare_Leave [OF m], blast dest: hoare_Leave [OF f] hoare_Ret [OF m])
qed

text \<open>
  \<open>keeps I m\<close>: the code keeps the invariant on every return and on every exit from the kernel.
\<close>

definition keeps :: "('s \<Rightarrow> bool) \<Rightarrow> ('a, 's) kfun \<Rightarrow> bool" where
  "keeps I m \<longleftrightarrow> hoare I m (\<lambda>_. I) I"

named_theorems keeps_intro \<open>invariant preservation rules\<close>

lemma keepsI:
  assumes "\<And>s x t. I s \<Longrightarrow> m s = Ret x t \<Longrightarrow> I t"
    and "\<And>s e t. I s \<Longrightarrow> m s = Leave e t \<Longrightarrow> I t"
  shows "keeps I m"
  unfolding keeps_def by (rule hoareI; erule (1) assms)

lemma keeps_bind [keeps_intro]:
  "keeps I m \<Longrightarrow> (\<And>x. keeps I (f x)) \<Longrightarrow> keeps I (kbind m f)"
  by (simp add: keeps_def) (rule hoare_bind)

lemma keeps_prim [keeps_intro]:
  "keeps I (kret x)" "keeps I (kpanic msg)" "keeps I (kleave e)" "keeps I (kget f)"
  "keeps I (kassert b msg)"
  by (auto simp: keeps_def hoare_def kprim)

lemma keeps_kmod [keeps_intro]: "(\<And>s. I s \<Longrightarrow> I (f s)) \<Longrightarrow> keeps I (kmod f)"
  by (auto simp: keeps_def hoare_def kprim)

lemma keeps_kwhen [keeps_intro]: "(b \<Longrightarrow> keeps I m) \<Longrightarrow> keeps I (kwhen b m)"
  by (auto simp: keeps_def hoare_def kprim)

lemma keeps_if [keeps_intro]:
  "(b \<Longrightarrow> keeps I m) \<Longrightarrow> (\<not> b \<Longrightarrow> keeps I m') \<Longrightarrow> keeps I (if b then m else m')"
  by simp

lemma keeps_option [keeps_intro]:
  "keeps I m \<Longrightarrow> (\<And>x. keeps I (f x)) \<Longrightarrow> keeps I (case p of None \<Rightarrow> m | Some x \<Rightarrow> f x)"
  by (cases p) auto

lemma keeps_prod [keeps_intro]:
  "(\<And>x y. keeps I (f x y)) \<Longrightarrow> keeps I (case p of (x, y) \<Rightarrow> f x y)"
  by (cases p) auto

lemma keeps_let [keeps_intro]: "(\<And>x. keeps I (f x)) \<Longrightarrow> keeps I (let x = v in f x)"
  by simp

lemma keeps_kfor [keeps_intro]:
  assumes "\<And>x. x \<in> set xs \<Longrightarrow> keeps I (body x)"
  shows "keeps I (kfor xs body)"
  using assms
proof (induction xs)
  case Nil
  show ?case unfolding kfor.simps by (rule keeps_prim)
next
  case (Cons x xs)
  then show ?case unfolding kfor.simps by (intro keeps_bind) auto
qed

lemma keeps_Ret: "keeps I m \<Longrightarrow> I s \<Longrightarrow> m s = Ret x t \<Longrightarrow> I t"
  unfolding keeps_def by (drule (2) hoare_Ret)

lemma keeps_Leave: "keeps I m \<Longrightarrow> I s \<Longrightarrow> m s = Leave e t \<Longrightarrow> I t"
  unfolding keeps_def by (drule (2) hoare_Leave)

subsection \<open>Code that does not return, and how the kernel is left\<close>

text \<open>\<open>noreturn m\<close>: control never comes back from \<open>m\<close>.  \<open>exits Q m\<close>: whenever \<open>m\<close> leaves the
  kernel, \<open>Q\<close> holds of the way it is left and of the state in which it is left.\<close>

definition noreturn :: "('a, 's) kfun \<Rightarrow> bool" where
  "noreturn m \<longleftrightarrow> (\<forall>s x t. m s \<noteq> Ret x t)"

definition exits :: "(kexit \<Rightarrow> 's \<Rightarrow> bool) \<Rightarrow> ('a, 's) kfun \<Rightarrow> bool" where
  "exits Q m \<longleftrightarrow> (\<forall>s e t. m s = Leave e t \<longrightarrow> Q e t)"

named_theorems noreturn_intro \<open>code that does not return\<close>
named_theorems exits_intro \<open>how the kernel is left\<close>

lemma noreturnD: "noreturn m \<Longrightarrow> m s \<noteq> Ret x t"
  by (simp add: noreturn_def)

lemma noreturn_prim [noreturn_intro]: "noreturn (kleave e)" "noreturn (kpanic msg)"
  by (simp_all add: noreturn_def kprim)

lemma noreturn_bind:
  "noreturn m \<Longrightarrow> noreturn (kbind m f)"
  by (simp add: noreturn_def kbind_eq_Ret)

lemma noreturn_bind_tail [noreturn_intro]:
  "(\<And>x. noreturn (f x)) \<Longrightarrow> noreturn (kbind m f)"
  by (simp add: noreturn_def kbind_eq_Ret)

lemma noreturn_if [noreturn_intro]:
  "(b \<Longrightarrow> noreturn m) \<Longrightarrow> (\<not> b \<Longrightarrow> noreturn m') \<Longrightarrow> noreturn (if b then m else m')"
  by simp

lemma noreturn_option [noreturn_intro]:
  "noreturn m \<Longrightarrow> (\<And>x. noreturn (f x)) \<Longrightarrow> noreturn (case p of None \<Rightarrow> m | Some x \<Rightarrow> f x)"
  by (cases p) auto

text \<open>What follows code that does not return is not reached.\<close>

lemma noreturn_kbind:
  fixes m :: "('a, 's) kfun" and f :: "'a \<Rightarrow> ('a, 's) kfun"
  assumes "noreturn m"
  shows "kbind m f s = m s"
  using noreturnD [OF assms] by (cases "m s") (auto simp: kbind_def)

lemma exitsD: "exits Q m \<Longrightarrow> m s = Leave e t \<Longrightarrow> Q e t"
  by (simp add: exits_def)

lemma exitsI: "(\<And>s e t. m s = Leave e t \<Longrightarrow> Q e t) \<Longrightarrow> exits Q m"
  by (simp add: exits_def)

lemma exits_prim [exits_intro]:
  "exits Q (kret x)" "exits Q (kpanic msg)" "exits Q (kget f)" "exits Q (kassert b msg)"
  "exits Q (kmod g)"
  by (simp_all add: exits_def kprim)

lemma exits_leave [exits_intro]: "(\<And>s. Q e s) \<Longrightarrow> exits Q (kleave e)"
  by (auto simp: exits_def kprim)

lemma exits_bind [exits_intro]:
  "exits Q m \<Longrightarrow> (\<And>x. exits Q (f x)) \<Longrightarrow> exits Q (kbind m f)"
  unfolding exits_def by (auto simp: kbind_eq_Leave)

lemma exits_kwhen [exits_intro]: "(b \<Longrightarrow> exits Q m) \<Longrightarrow> exits Q (kwhen b m)"
  by (simp add: exits_def kprim)

lemma exits_if [exits_intro]:
  "(b \<Longrightarrow> exits Q m) \<Longrightarrow> (\<not> b \<Longrightarrow> exits Q m') \<Longrightarrow> exits Q (if b then m else m')"
  by simp

lemma exits_option [exits_intro]:
  "exits Q m \<Longrightarrow> (\<And>x. exits Q (f x)) \<Longrightarrow> exits Q (case p of None \<Rightarrow> m | Some x \<Rightarrow> f x)"
  by (cases p) auto

lemma exits_prod [exits_intro]:
  "(\<And>x y. exits Q (f x y)) \<Longrightarrow> exits Q (case p of (x, y) \<Rightarrow> f x y)"
  by (cases p) auto

lemma exits_let [exits_intro]: "(\<And>x. exits Q (f x)) \<Longrightarrow> exits Q (let x = v in f x)"
  by simp

lemma exits_kfor [exits_intro]:
  assumes "\<And>x. exits Q (body x)"
  shows "exits Q (kfor xs body)"
proof (induction xs)
  case Nil
  show ?case unfolding kfor.simps by (rule exits_prim)
next
  case (Cons x xs)
  then show ?case unfolding kfor.simps by (intro exits_bind assms)
qed

subsection \<open>Byte memory\<close>

type_synonym memory = "u32 \<Rightarrow> u8"

definition load32 :: "memory \<Rightarrow> u32 \<Rightarrow> u32" where
  "load32 m a = ucast (m a) OR push_bit 8 (ucast (m (a + 1)))
     OR push_bit 16 (ucast (m (a + 2))) OR push_bit 24 (ucast (m (a + 3)))"

definition store32 :: "memory \<Rightarrow> u32 \<Rightarrow> u32 \<Rightarrow> memory" where
  "store32 m a v = m(a := ucast v, a + 1 := ucast (drop_bit 8 v),
     a + 2 := ucast (drop_bit 16 v), a + 3 := ucast (drop_bit 24 v))"

text \<open>\<open>memset\<close> and \<open>memmove\<close> of lib/string.c on this memory, for a length below 4 GB.\<close>

definition mem_set :: "memory \<Rightarrow> u32 \<Rightarrow> u8 \<Rightarrow> nat \<Rightarrow> memory" where
  "mem_set m a c n = (\<lambda>x. if unat (x - a) < n then c else m x)"

definition mem_move :: "memory \<Rightarrow> u32 \<Rightarrow> u32 \<Rightarrow> nat \<Rightarrow> memory" where
  "mem_move m d s n = (\<lambda>x. if unat (x - d) < n then m (s + (x - d)) else m x)"

lemma store32_bytes:
  "store32 m a v a = ucast v"
  "store32 m a v (a + 1) = ucast (drop_bit 8 v)"
  "store32 m a v (a + 2) = ucast (drop_bit 16 v)"
  "store32 m a v (a + 3) = ucast (drop_bit 24 v)"
  by (simp_all add: store32_def)

lemma bytes_of_u32:
  fixes v :: u32
  shows "ucast (ucast v :: u8) OR push_bit 8 (ucast (ucast (drop_bit 8 v) :: u8))
     OR push_bit 16 (ucast (ucast (drop_bit 16 v) :: u8))
     OR push_bit 24 (ucast (ucast (drop_bit 24 v) :: u8)) = v"
proof (rule bit_word_eqI)
  fix n assume n: "n < LENGTH(32)"
  then consider "n < 8" | "8 \<le> n \<and> n < 16" | "16 \<le> n \<and> n < 24" | "24 \<le> n \<and> n < 32"
    by fastforce
  then show "bit (ucast (ucast v :: u8) OR push_bit 8 (ucast (ucast (drop_bit 8 v) :: u8))
     OR push_bit 16 (ucast (ucast (drop_bit 16 v) :: u8))
     OR push_bit 24 (ucast (ucast (drop_bit 24 v) :: u8)) :: u32) n = bit v n"
    using n
    by cases (auto simp: bit_simps)
qed

lemma load32_store32 [simp]: "load32 (store32 m a v) a = v"
  by (simp add: load32_def store32_bytes bytes_of_u32)

subsection \<open>Alignment and separation\<close>

definition aligned :: "nat \<Rightarrow> u32 \<Rightarrow> bool" where
  "aligned n a \<longleftrightarrow> n dvd unat a"

lemma unat_lt_u32 [simp]: "unat (a :: u32) < 4294967296"
  using unsigned_less [of a, where ?'a = nat] by simp

lemma unat_of_nat_u32: "n < 4294967296 \<Longrightarrow> unat (of_nat n :: u32) = n"
  by (simp add: unsigned_of_nat take_bit_eq_mod)

lemma unat_add_u32: "unat (a + b :: u32) = (unat a + unat b) mod 4294967296"
  by (simp add: unat_word_ariths)

lemma unat_add_no_wrap:
  "unat (a :: u32) + unat b < 4294967296 \<Longrightarrow> unat (a + b) = unat a + unat b"
  by (simp add: unat_add_u32)

lemma mod_shift_32: 
  fixes k :: int
  assumes "0 \<le> k" "k < 4294967296"
  shows "(k + 2147483648) mod 4294967296 = (if k < 2147483648 then k + 2147483648 else k - 2147483648)"
proof (cases "k < 2147483648")
  case True
  with assms show ?thesis by (simp add: mod_pos_pos_trivial)
next
  case False
  have "(k + 2147483648) mod 4294967296 = (k - 2147483648 + 4294967296) mod 4294967296"
    by (rule arg_cong [of _ _ "\<lambda>z. z mod 4294967296"]) linarith
  also have "\<dots> = (k - 2147483648) mod 4294967296" by (rule mod_add_self2)
  also have "\<dots> = k - 2147483648" using assms False by (intro mod_pos_pos_trivial) auto
  finally show ?thesis using False by simp
qed

text \<open>A 32-bit word as a signed number.\<close>

lemma sint_u32:
  fixes x :: u32
  shows "sint x = (if unat x < 2147483648 then int (unat x) else int (unat x) - 4294967296)"
proof -
  obtain n where n: "unat x = n" "uint x = int n" "n < 4294967296"
    using unat_lt_u32 [of x] by simp
  have "sint x = (int n + 2147483648) mod 4294967296 - 2147483648"
    by (simp add: sint_uint signed_take_bit_eq_take_bit_shift take_bit_eq_mod n)
  with n show ?thesis by (simp add: mod_shift_32)
qed

lemma sint_neg_u32: "sint (x :: u32) < 0 \<longleftrightarrow> 2147483648 \<le> unat x"
proof -
  obtain n where n: "unat x = n" "n < 4294967296" using unat_lt_u32 [of x] by simp
  then show ?thesis unfolding sint_u32 n(1) by simp
qed

lemma sint_nonpos_u32: "sint (x :: u32) \<le> 0 \<longleftrightarrow> 2147483648 \<le> unat x \<or> unat x = 0"
proof -
  obtain n where n: "unat x = n" "n < 4294967296" using unat_lt_u32 [of x] by simp
  then show ?thesis unfolding sint_u32 n(1) by auto
qed

lemma aligned_add:
  assumes "aligned n a" and "n dvd 4294967296" and "unat x < n"
  shows "unat (a + x) = unat a + unat x"
proof -
  obtain k where k: "unat a = n * k" using assms(1) by (auto simp: aligned_def)
  obtain q where q: "4294967296 = n * q" using assms(2) by (rule dvdE)
  have "n * k < n * q" using k q unat_lt_u32 [of a] by simp
  then have "k + 1 \<le> q" by simp
  then have "n * k + n \<le> n * q" by (metis Suc_eq_plus1 mult_Suc_right add.commute mult_le_mono2)
  with k q assms(3) have "unat a + unat x < 4294967296" by simp
  then show ?thesis by (rule unat_add_no_wrap)
qed

lemma aligned_add_div:
  assumes "aligned n a" and "n dvd 4294967296" and "unat x < n"
  shows "unat (a + x) div n = unat a div n"
proof -
  from assms have "unat (a + x) = unat a + unat x" by (rule aligned_add)
  with assms show ?thesis by (auto simp: aligned_def)
qed

lemma aligned_dvd: "aligned n a \<Longrightarrow> m dvd n \<Longrightarrow> aligned m a"
  by (auto simp: aligned_def)

lemma aligned_plus:
  "aligned n a \<Longrightarrow> aligned n b \<Longrightarrow> n dvd 4294967296 \<Longrightarrow> aligned n (a + b)"
  by (simp add: aligned_def unat_add_u32 dvd_mod_iff)

lemma aligned_eq_div:
  "aligned n a \<Longrightarrow> aligned n b \<Longrightarrow> unat a div n = unat b div n \<Longrightarrow> a = b"
  unfolding aligned_def by (metis dvd_mult_div_cancel word_unat_eq_iff)

text \<open>The four bytes of two different aligned words are different.\<close>

lemma aligned_bytes_differ:
  assumes "aligned 4 a" "aligned 4 b" "a \<noteq> b" "unat x < 4" "unat y < 4"
  shows "a + x \<noteq> b + y"
proof
  assume "a + x = b + y"
  then have "unat (a + x) div 4 = unat (b + y) div 4" by simp
  then have "unat a div 4 = unat b div 4"
    using assms by (simp add: aligned_add_div)
  with assms show False using aligned_eq_div [of 4 a b] by simp
qed

lemma load32_cong:
  assumes "\<And>x. unat x < 4 \<Longrightarrow> m (a + x) = m' (a + x)"
  shows "load32 m a = load32 m' a"
  using assms [of 0] assms [of 1] assms [of 2] assms [of 3]
  by (simp add: load32_def)

lemma store32_other:
  assumes "x \<noteq> a" "x \<noteq> a + 1" "x \<noteq> a + 2" "x \<noteq> a + 3"
  shows "store32 m a v x = m x"
  using assms by (simp add: store32_def)

lemma load32_store32_other:
  assumes "aligned 4 a" "aligned 4 b" "a \<noteq> b"
  shows "load32 (store32 m a v) b = load32 m b"
proof (rule load32_cong)
  fix x :: u32 assume x: "unat x < 4"
  have "b + x \<noteq> a + y" if "unat y < 4" for y
    using assms x that by (intro aligned_bytes_differ) auto
  from this [of 0] this [of 1] this [of 2] this [of 3]
  show "store32 m a v (b + x) = m (b + x)" by (intro store32_other) simp_all
qed

lemma load32_mem_set_inside:
  assumes "\<And>x. unat x < 4 \<Longrightarrow> unat (b + x - a) < n"
  shows "load32 (mem_set m a 0 n) b = 0"
  using assms [of 0] assms [of 1] assms [of 2] assms [of 3]
  by (simp add: load32_def mem_set_def)

lemma load32_mem_set_outside:
  assumes "\<And>x. unat x < 4 \<Longrightarrow> \<not> unat (b + x - a) < n"
  shows "load32 (mem_set m a c n) b = load32 m b"
  using assms by (intro load32_cong) (simp add: mem_set_def)

text \<open>An aligned word lies in one page; a page is what \<open>memset(p, 0, PGSIZE)\<close> clears.\<close>

lemma in_page_iff:
  assumes "aligned 4096 a"
  shows "unat (b - a) < 4096 \<longleftrightarrow> unat b div 4096 = unat a div 4096"
proof
  assume "unat (b - a) < 4096"
  then have "unat (a + (b - a)) div 4096 = unat a div 4096"
    using assms by (intro aligned_add_div) simp_all
  then show "unat b div 4096 = unat a div 4096" by simp
next
  assume eq: "unat b div 4096 = unat a div 4096"
  from assms have a: "unat a = 4096 * (unat a div 4096)" by (simp add: aligned_def)
  let ?q = "unat a div 4096"
  have b: "4096 * ?q \<le> unat b" "unat b < 4096 * ?q + 4096"
    using eq by (simp_all add: dividend_less_times_div algebra_simps flip: eq)
  then have "unat (b - a) = unat b - unat a"
    using a by (simp add: unat_sub word_le_nat_alt)
  with a b show "unat (b - a) < 4096" by linarith
qed

lemma load32_page_cleared:
  assumes "aligned 4096 a" "aligned 4 b" "unat b div 4096 = unat a div 4096"
  shows "load32 (mem_set m a 0 4096) b = 0"
proof (rule load32_mem_set_inside)
  fix x :: u32 assume "unat x < 4"
  with assms(2) have "unat (b + x) div 4 = unat b div 4" by (intro aligned_add_div) simp_all
  then have "unat (b + x) div 4096 = unat b div 4096"
    by (metis div_mult2_eq numeral_times_numeral semiring_norm(12) semiring_norm(13))
  with assms show "unat (b + x - a) < 4096" by (simp add: in_page_iff)
qed

lemma load32_other_page_cleared:
  assumes "aligned 4096 a" "aligned 4 b" "unat b div 4096 \<noteq> unat a div 4096"
  shows "load32 (mem_set m a c 4096) b = load32 m b"
proof (rule load32_mem_set_outside)
  fix x :: u32 assume "unat x < 4"
  with assms(2) have "unat (b + x) div 4 = unat b div 4" by (intro aligned_add_div) simp_all
  then have "unat (b + x) div 4096 = unat b div 4096"
    by (metis div_mult2_eq numeral_times_numeral semiring_norm(12) semiring_norm(13))
  with assms show "\<not> unat (b + x - a) < 4096" by (simp add: in_page_iff)
qed

subsection \<open>Linked lists through an index array\<close>

text \<open>
  Following \<open>link\<close> from \<open>p\<close> visits exactly the elements of the list and then reaches
  \<open>NULL\<close>.
\<close>

fun chain :: "(nat \<Rightarrow> nat option) \<Rightarrow> nat option \<Rightarrow> nat list \<Rightarrow> bool" where
  "chain link p [] \<longleftrightarrow> p = None"
| "chain link p (x # xs) \<longleftrightarrow> p = Some x \<and> chain link (link x) xs"

lemma chain_None [simp]: "chain link None xs \<longleftrightarrow> xs = []"
  by (cases xs) auto

lemma chain_upd: "i \<notin> set xs \<Longrightarrow> chain (link(i := q)) p xs \<longleftrightarrow> chain link p xs"
  by (induction xs arbitrary: p) auto

lemma chain_cong: "(\<And>x. x \<in> set xs \<Longrightarrow> link x = link' x) \<Longrightarrow> chain link p xs = chain link' p xs"
  by (induction xs arbitrary: p) auto

lemma chain_unique: "chain link p xs \<Longrightarrow> chain link p ys \<Longrightarrow> xs = ys"
proof (induction xs arbitrary: p ys)
  case Nil
  then show ?case by (cases ys) auto
next
  case (Cons x xs)
  then show ?case by (cases ys) auto
qed

lemma chain_append:
  "chain link p (xs @ ys) \<Longrightarrow> \<exists>q. chain link q ys"
  by (induction xs arbitrary: p) auto

lemma chain_distinct: "chain link p xs \<Longrightarrow> distinct xs"
proof (induction xs arbitrary: p)
  case Nil
  then show ?case by simp
next
  case (Cons x xs)
  have "x \<notin> set xs"
  proof
    assume "x \<in> set xs"
    then obtain us vs where xs: "xs = us @ x # vs" by (auto dest: split_list)
    from Cons.prems have c: "chain link (link x) xs" by simp
    then obtain q where "chain link q (x # vs)" unfolding xs using chain_append by blast
    then have "chain link (link x) vs" by simp
    with c have "xs = vs" by (rule chain_unique)
    moreover have "length xs = length us + Suc (length vs)" using xs by simp
    ultimately show False by simp
  qed
  with Cons show ?case by auto
qed

text \<open>
  The contract of a pool of free structures kept on such a list: what a client may rely on
  when it takes the first structure off the list or puts one back.
\<close>

locale free_pool =
  fixes head :: "'s \<Rightarrow> nat option"
    and link :: "'s \<Rightarrow> nat \<Rightarrow> nat option"
    and put_back :: "nat \<Rightarrow> 's \<Rightarrow> 's"
    and take_off :: "nat \<Rightarrow> 's \<Rightarrow> 's"
  assumes head_put: "head (put_back i s) = Some i"
    and link_put: "link (put_back i s) = (link s)(i := head s)"
    and head_take: "head s = Some i \<Longrightarrow> head (take_off i s) = link s i"
    and link_take: "link (take_off i s) = link s"
begin

lemma put_chain:
  "chain (link s) (head s) xs \<Longrightarrow> i \<notin> set xs \<Longrightarrow>
     chain (link (put_back i s)) (head (put_back i s)) (i # xs)"
  by (simp add: head_put link_put chain_upd)

lemma take_chain:
  "chain (link s) (head s) (i # xs) \<Longrightarrow>
     chain (link (take_off i s)) (head (take_off i s)) xs"
  by (simp add: head_take link_take)

lemma put_take:
  "chain (link s) (head s) xs \<Longrightarrow> i \<notin> set xs \<Longrightarrow>
     chain (link (take_off i (put_back i s))) (head (take_off i (put_back i s))) xs"
  by (rule take_chain) (rule put_chain)

lemma put_all_chain:
  "chain (link s) (head s) xs \<Longrightarrow> distinct is \<Longrightarrow> set is \<inter> set xs = {} \<Longrightarrow>
     chain (link (fold put_back is s)) (head (fold put_back is s)) (rev is @ xs)"
proof (induction "is" arbitrary: s xs)
  case Nil
  then show ?case by simp
next
  case (Cons i "is")
  have "chain (link (put_back i s)) (head (put_back i s)) (i # xs)"
    using Cons.prems by (intro put_chain) auto
  then have "chain (link (fold put_back is (put_back i s)))
      (head (fold put_back is (put_back i s))) (rev is @ (i # xs))"
    using Cons.prems by (intro Cons.IH) auto
  then show ?case by simp
qed

lemma double_put:
  assumes "chain (link s) (head s) xs" and "i \<notin> set xs"
  shows "\<not> (\<exists>ys. chain (link (put_back i (put_back i s))) (head (put_back i (put_back i s))) ys)"
proof
  let ?t = "put_back i (put_back i s)"
  assume "\<exists>ys. chain (link ?t) (head ?t) ys"
  then obtain ys where ys: "chain (link ?t) (Some i) ys" by (auto simp: head_put)
  have "link ?t i = Some i" by (simp add: link_put head_put)
  with ys obtain zs where "ys = i # zs" "chain (link ?t) (Some i) zs"
    by (cases ys) auto
  with ys have "zs = i # zs" using chain_unique by metis
  then show False by simp
qed

end

end
