(* ===== verification/Mmu.thy ===== *)
theory Mmu
  imports Prelude
begin

text \<open>
  The x86 memory-management vocabulary of inc/types.h, inc/mmu.h and inc/memlayout.h:
  rounding, the three-part structure of a linear address, page-table flags, the layout of
  the virtual address space, segment descriptors and interrupt gates.
\<close>

subsection \<open>Executable images (inc/elf.h)\<close>

abbreviation (input) ELF_MAGIC :: u32 where "ELF_MAGIC \<equiv> 0x464C457F"
abbreviation (input) sizeof_Proghdr :: u32 where "sizeof_Proghdr \<equiv> 32"

subsection \<open>Rounding (inc/types.h)\<close>

definition ROUNDDOWN :: "u32 \<Rightarrow> u32 \<Rightarrow> u32" where
  "ROUNDDOWN a n = a - a mod n"

definition ROUNDUP :: "u32 \<Rightarrow> u32 \<Rightarrow> u32" where
  "ROUNDUP a n = ROUNDDOWN (a + n - 1) n"

subsection \<open>Linear addresses (inc/mmu.h)\<close>

abbreviation (input) PGSIZE :: u32 where "PGSIZE \<equiv> 4096"
abbreviation (input) PGSHIFT :: nat where "PGSHIFT \<equiv> 12"
abbreviation (input) PTXSHIFT :: nat where "PTXSHIFT \<equiv> 12"
abbreviation (input) PDXSHIFT :: nat where "PDXSHIFT \<equiv> 22"
abbreviation (input) NPDENTRIES :: nat where "NPDENTRIES \<equiv> 1024"
abbreviation (input) NPTENTRIES :: nat where "NPTENTRIES \<equiv> 1024"
abbreviation (input) PTSIZE :: u32 where "PTSIZE \<equiv> 4194304"

definition PGNUM :: "u32 \<Rightarrow> u32" where
  "PGNUM la = drop_bit PTXSHIFT la"

definition PDX :: "u32 \<Rightarrow> u32" where
  "PDX la = drop_bit PDXSHIFT la AND 0x3FF"

definition PTX :: "u32 \<Rightarrow> u32" where
  "PTX la = drop_bit PTXSHIFT la AND 0x3FF"

definition PGOFF :: "u32 \<Rightarrow> u32" where
  "PGOFF la = la AND 0xFFF"

definition PGADDR :: "u32 \<Rightarrow> u32 \<Rightarrow> u32 \<Rightarrow> u32" where
  "PGADDR d t off = push_bit PDXSHIFT d OR push_bit PTXSHIFT t OR off"

subsection \<open>Page table entries\<close>

definition PTE_P :: u32 where [layout]: "PTE_P = 0x001"
definition PTE_W :: u32 where [layout]: "PTE_W = 0x002"
definition PTE_U :: u32 where [layout]: "PTE_U = 0x004"
definition PTE_PWT :: u32 where [layout]: "PTE_PWT = 0x008"
definition PTE_PCD :: u32 where [layout]: "PTE_PCD = 0x010"
definition PTE_AVAIL :: u32 where [layout]: "PTE_AVAIL = 0xE00"
definition PTE_SYSCALL :: u32 where
  [layout]: "PTE_SYSCALL = (PTE_AVAIL OR PTE_P OR PTE_W OR PTE_U)"

definition PTE_ADDR :: "u32 \<Rightarrow> u32" where
  "PTE_ADDR pte = pte AND NOT 0xFFF"

definition FL_IF :: u32 where [layout]: "FL_IF = 0x200"
definition FEC_PR :: u32 where [layout]: "FEC_PR = 1"
definition FEC_WR :: u32 where [layout]: "FEC_WR = 2"
definition FEC_U :: u32 where [layout]: "FEC_U = 4"

subsection \<open>Memory layout (inc/memlayout.h)\<close>

definition KERNBASE :: u32 where [layout]: "KERNBASE = 0xF0000000"
definition IOPHYSMEM :: u32 where [layout]: "IOPHYSMEM = 0x0A0000"
definition EXTPHYSMEM :: u32 where [layout]: "EXTPHYSMEM = 0x100000"
definition KSTACKTOP :: u32 where [layout]: "KSTACKTOP = KERNBASE"
definition KSTKSIZE :: u32 where [layout]: "KSTKSIZE = 8 * PGSIZE"
definition KSTKGAP :: u32 where [layout]: "KSTKGAP = 8 * PGSIZE"
definition MMIOLIM :: u32 where [layout]: "MMIOLIM = KSTACKTOP - PTSIZE"
definition MMIOBASE :: u32 where [layout]: "MMIOBASE = MMIOLIM - PTSIZE"
definition ULIM :: u32 where [layout]: "ULIM = MMIOBASE"
definition UVPT :: u32 where [layout]: "UVPT = ULIM - PTSIZE"
definition UPAGES :: u32 where [layout]: "UPAGES = UVPT - PTSIZE"
definition UENVS :: u32 where [layout]: "UENVS = UPAGES - PTSIZE"
definition UTOP :: u32 where [layout]: "UTOP = UENVS"
definition UXSTACKTOP :: u32 where [layout]: "UXSTACKTOP = UTOP"
definition USTACKTOP :: u32 where [layout]: "USTACKTOP = UTOP - 2 * PGSIZE"
definition UTEXT :: u32 where [layout]: "UTEXT = 2 * PTSIZE"
definition UTEMP :: u32 where [layout]: "UTEMP = PTSIZE"
definition PFTEMP :: u32 where [layout]: "PFTEMP = UTEMP + PTSIZE - PGSIZE"
definition USTABDATA :: u32 where [layout]: "USTABDATA = PTSIZE div 2"
definition MPENTRY_PADDR :: u32 where [layout]: "MPENTRY_PADDR = 0x7000"

abbreviation (input) GD_KT :: u16 where "GD_KT \<equiv> 0x08"
abbreviation (input) GD_KD :: u16 where "GD_KD \<equiv> 0x10"
abbreviation (input) GD_UT :: u16 where "GD_UT \<equiv> 0x18"
abbreviation (input) GD_UD :: u16 where "GD_UD \<equiv> 0x20"
abbreviation (input) GD_TSS0 :: u16 where "GD_TSS0 \<equiv> 0x28"

subsection \<open>Segment descriptors and gates\<close>

text \<open>The bit-fields of the C structures are words of the fields' widths.\<close>

record Segdesc =
  sd_lim_15_0 :: u16
  sd_base_15_0 :: u16
  sd_base_23_16 :: u8
  sd_type :: "4 word"
  sd_s :: "1 word"
  sd_dpl :: "2 word"
  sd_p :: "1 word"
  sd_lim_19_16 :: "4 word"
  sd_avl :: "1 word"
  sd_rsv1 :: "1 word"
  sd_db :: "1 word"
  sd_g :: "1 word"
  sd_base_31_24 :: u8

definition SEG_NULL :: Segdesc where
  "SEG_NULL = \<lparr>sd_lim_15_0 = 0, sd_base_15_0 = 0, sd_base_23_16 = 0, sd_type = 0, sd_s = 0,
     sd_dpl = 0, sd_p = 0, sd_lim_19_16 = 0, sd_avl = 0, sd_rsv1 = 0, sd_db = 0, sd_g = 0,
     sd_base_31_24 = 0\<rparr>"

definition SEG :: "4 word \<Rightarrow> u32 \<Rightarrow> u32 \<Rightarrow> 2 word \<Rightarrow> Segdesc" where
  "SEG ty base lim dpl = \<lparr>sd_lim_15_0 = ucast (drop_bit 12 lim AND 0xffff),
     sd_base_15_0 = ucast (base AND 0xffff), sd_base_23_16 = ucast (drop_bit 16 base AND 0xff),
     sd_type = ty, sd_s = 1, sd_dpl = dpl, sd_p = 1, sd_lim_19_16 = ucast (drop_bit 28 lim),
     sd_avl = 0, sd_rsv1 = 0, sd_db = 1, sd_g = 1, sd_base_31_24 = ucast (drop_bit 24 base)\<rparr>"

definition SEG16 :: "4 word \<Rightarrow> u32 \<Rightarrow> u32 \<Rightarrow> 2 word \<Rightarrow> Segdesc" where
  "SEG16 ty base lim dpl = \<lparr>sd_lim_15_0 = ucast (lim AND 0xffff),
     sd_base_15_0 = ucast (base AND 0xffff), sd_base_23_16 = ucast (drop_bit 16 base AND 0xff),
     sd_type = ty, sd_s = 1, sd_dpl = dpl, sd_p = 1, sd_lim_19_16 = ucast (drop_bit 16 lim),
     sd_avl = 0, sd_rsv1 = 0, sd_db = 1, sd_g = 0, sd_base_31_24 = ucast (drop_bit 24 base)\<rparr>"

abbreviation (input) STA_X :: "4 word" where "STA_X \<equiv> 0x8"
abbreviation (input) STA_W :: "4 word" where "STA_W \<equiv> 0x2"
abbreviation (input) STA_R :: "4 word" where "STA_R \<equiv> 0x2"
abbreviation (input) STS_T32A :: "4 word" where "STS_T32A \<equiv> 0x9"
abbreviation (input) STS_IG32 :: "4 word" where "STS_IG32 \<equiv> 0xE"
abbreviation (input) STS_TG32 :: "4 word" where "STS_TG32 \<equiv> 0xF"

record Taskstate =
  ts_link :: u32
  ts_esp0 :: u32
  ts_ss0 :: u16
  ts_esp1 :: u32
  ts_ss1 :: u16
  ts_esp2 :: u32
  ts_ss2 :: u16
  ts_cr3 :: u32
  ts_eip :: u32
  ts_eflags :: u32
  ts_eax :: u32
  ts_ecx :: u32
  ts_edx :: u32
  ts_ebx :: u32
  ts_esp :: u32
  ts_ebp :: u32
  ts_esi :: u32
  ts_edi :: u32
  ts_es :: u16
  ts_cs :: u16
  ts_ss :: u16
  ts_ds :: u16
  ts_fs :: u16
  ts_gs :: u16
  ts_ldt :: u16
  ts_t :: u16
  ts_iomb :: u16

record Gatedesc =
  gd_off_15_0 :: u16
  gd_sel :: u16
  gd_args :: "5 word"
  gd_rsv1 :: "3 word"
  gd_type :: "4 word"
  gd_s :: "1 word"
  gd_dpl :: "2 word"
  gd_p :: "1 word"
  gd_off_31_16 :: u16

definition SETGATE :: "bool \<Rightarrow> u16 \<Rightarrow> u32 \<Rightarrow> 2 word \<Rightarrow> Gatedesc" where
  "SETGATE istrap sel off dpl = \<lparr>gd_off_15_0 = ucast (off AND 0xffff), gd_sel = sel,
     gd_args = 0, gd_rsv1 = 0, gd_type = (if istrap then STS_TG32 else STS_IG32), gd_s = 0,
     gd_dpl = dpl, gd_p = 1, gd_off_31_16 = ucast (drop_bit 16 off)\<rparr>"

text \<open>What the processor reads back from a gate and from a descriptor.\<close>

definition gate_offset :: "Gatedesc \<Rightarrow> u32" where
  "gate_offset g = push_bit 16 (ucast (gd_off_31_16 g)) OR ucast (gd_off_15_0 g)"

definition seg_base :: "Segdesc \<Rightarrow> u32" where
  "seg_base d = push_bit 24 (ucast (sd_base_31_24 d)) OR push_bit 16 (ucast (sd_base_23_16 d))
     OR ucast (sd_base_15_0 d)"

subsection \<open>Rounding lemmas\<close>

lemma unat_ROUNDDOWN: "unat (ROUNDDOWN a n) = unat a - unat a mod unat n"
  by (simp add: ROUNDDOWN_def unat_sub word_le_nat_alt unat_mod)

lemma ROUNDDOWN_le: "ROUNDDOWN a n \<le> a"
  by (simp add: word_le_nat_alt unat_ROUNDDOWN)

lemma aligned_ROUNDDOWN: "unat n = k \<Longrightarrow> aligned k (ROUNDDOWN a n)"
  by (simp add: aligned_def unat_ROUNDDOWN minus_mod_eq_mult_div)

lemma ROUNDDOWN_aligned_iff:
  "n \<noteq> 0 \<Longrightarrow> ROUNDDOWN a n = a \<longleftrightarrow> aligned (unat n) a"
  by (simp add: ROUNDDOWN_def aligned_def dvd_eq_mod_eq_0 unat_eq_0 flip: unat_mod)

lemma ROUNDUP_no_wrap:
  assumes "n \<noteq> 0" and "unat a + unat n - 1 < 4294967296"
  shows "unat (ROUNDUP a n) = (unat a + unat n - 1) - (unat a + unat n - 1) mod unat n"
proof -
  have "unat n \<ge> 1" using assms(1) by (simp add: unat_gt_0 Suc_le_eq)
  have "unat (n - 1) = unat n - 1" using assms(1) by (simp add: unat_minus_one)
  with assms(2) \<open>unat n \<ge> 1\<close> have "unat (a + (n - 1)) = unat a + unat n - 1"
    by (subst unat_add_no_wrap) simp_all
  then show ?thesis
    by (simp add: ROUNDUP_def unat_ROUNDDOWN add_diff_eq)
qed

subsection \<open>Address decomposition\<close>

lemma unat_ROUNDUP:
  assumes "unat x + 4096 \<le> 4294967296"
  shows "unat x \<le> unat (ROUNDUP x PGSIZE)" "unat (ROUNDUP x PGSIZE) < unat x + 4096" "aligned 4096 (ROUNDUP x PGSIZE)"
proof -
  have u: "unat (ROUNDUP x PGSIZE) = (unat x + 4096 - 1) - (unat x + 4096 - 1) mod 4096"
    using assms by (subst ROUNDUP_no_wrap) simp_all
  show "unat x \<le> unat (ROUNDUP x PGSIZE)" "unat (ROUNDUP x PGSIZE) < unat x + 4096"
    unfolding u using mod_less_divisor [of 4096 "unat x + 4096 - 1"] by linarith+
  show "aligned 4096 (ROUNDUP x PGSIZE)" by (simp add: ROUNDUP_def aligned_ROUNDDOWN)
qed

lemma word_mask_10: "(0x3FF :: u32) = mask 10"
  by (simp add: mask_eq_exp_minus_1)

lemma word_mask_12: "(0xFFF :: u32) = mask 12"
  by (simp add: mask_eq_exp_minus_1)

lemma word_mask_16: "(0xFFFF :: u32) = mask 16"
  by (simp add: mask_eq_exp_minus_1)

lemma word_mask_8: "(0xFF :: u32) = mask 8"
  by (simp add: mask_eq_exp_minus_1)

lemma unat_PDX: "unat (PDX va) = unat va div 4194304"
proof -
  have "unat (PDX va) = unat va div 4194304 mod 1024"
    by (simp add: PDX_def word_mask_10 flip: take_bit_eq_mask)
       (simp add: take_bit_eq_mod drop_bit_eq_div unat_div unat_mod)
  moreover have "unat va div 4194304 < 1024"
    using unat_lt_u32 [of va] by (simp add: less_mult_imp_div_less)
  ultimately show ?thesis by simp
qed

lemma unat_PTX: "unat (PTX va) = unat va div 4096 mod 1024"
  by (simp add: PTX_def word_mask_10 flip: take_bit_eq_mask)
     (simp add: take_bit_eq_mod drop_bit_eq_div unat_div unat_mod)

lemma unat_PGNUM: "unat (PGNUM va) = unat va div 4096"
  by (simp add: PGNUM_def drop_bit_eq_div unat_div)

lemma unat_PGOFF: "unat (PGOFF va) = unat va mod 4096"
  by (simp add: PGOFF_def word_mask_12 flip: take_bit_eq_mask)
     (simp add: take_bit_eq_mod unat_mod)

lemma and_not_eq_diff: "(a :: u32) AND NOT b = a - (a AND b)"
proof -
  have "a - (a AND b) = a AND NOT (a AND b)"
    by (rule disjunctive_diff_eq_and_not) (simp add: bit_eq_iff bit_simps)
  also have "\<dots> = a AND NOT b"
    by (auto simp: bit_eq_iff bit_simps)
  finally show ?thesis ..
qed

lemma unat_PTE_ADDR: "unat (PTE_ADDR e) = unat e - unat e mod 4096"
proof -
  have "unat (e AND 0xFFF) = unat e mod 4096"
    using unat_PGOFF [of e] by (simp add: PGOFF_def)
  then show ?thesis
    unfolding PTE_ADDR_def and_not_eq_diff by (simp add: unat_sub word_le_nat_alt)
qed

lemma aligned_PTE_ADDR [simp]: "aligned 4096 (PTE_ADDR e)"
  by (simp add: aligned_def unat_PTE_ADDR minus_mod_eq_mult_div)

lemma PTX_less: "unat (PTX va) < 1024"
  by (simp add: unat_PTX)

lemma PDX_less: "unat (PDX va) < 1024"
  using unat_lt_u32 [of va] by (simp add: unat_PDX less_mult_imp_div_less)

text \<open>Two addresses with the same directory and table index lie in the same page.\<close>

lemma PDX_PTX_page:
  assumes "PDX va = PDX va'" and "PTX va = PTX va'"
  shows "PGNUM va = PGNUM va'"
proof -
  have dm: "x div 4096 = (x div 4194304) * 1024 + x div 4096 mod 1024" for x :: nat
    by (simp add: div_mult2_eq [of x 4096 1024, simplified])
  have "unat va div 4194304 = unat va' div 4194304"
    using assms(1) by (simp flip: unat_PDX)
  moreover have "unat va div 4096 mod 1024 = unat va' div 4096 mod 1024"
    using assms(2) by (simp flip: unat_PTX)
  ultimately have "unat (PGNUM va) = unat (PGNUM va')"
    by (subst (1 2) unat_PGNUM, subst (1 2) dm) simp
  then show ?thesis by (simp add: word_unat_eq_iff)
qed

text \<open>\<open>C1\<close>: \<open>PGADDR\<close> puts a linear address together again from the three parts.\<close>

theorem PGADDR_decompose: "PGADDR (PDX va) (PTX va) (PGOFF va) = va"
proof (rule bit_word_eqI)
  fix n assume "n < LENGTH(32)"
  then show "bit (PGADDR (PDX va) (PTX va) (PGOFF va)) n = bit va n"
    unfolding PGADDR_def PDX_def PTX_def PGOFF_def word_mask_10 word_mask_12
    by (cases "n < 12"; cases "n < 22") (auto simp: bit_simps)
qed

theorem gate_offset_SETGATE: "gate_offset (SETGATE istrap sel off dpl) = off"
proof (rule bit_word_eqI)
  fix n assume "n < LENGTH(32)"
  then show "bit (gate_offset (SETGATE istrap sel off dpl)) n = bit off n"
    by (cases "n < 16") (auto simp: gate_offset_def SETGATE_def bit_simps word_mask_16)
qed

theorem seg_base_SEG16: "seg_base (SEG16 ty base lim dpl) = base"
proof (rule bit_word_eqI)
  fix n assume "n < LENGTH(32)"
  then show "bit (seg_base (SEG16 ty base lim dpl)) n = bit base n"
    by (cases "n < 16"; cases "n < 24")
       (auto simp: seg_base_def SEG16_def bit_simps word_mask_16 word_mask_8)
qed

end
