(* ===== verification/Spinlock.thy ===== *)
theory Spinlock
  imports Mmu
begin

text \<open>
  The spin lock of kern/spinlock.c, with its debugging fields, first as the operations one
  CPU performs and then as a step relation on all CPUs in which every access to the shared
  structure is a step of its own.  The lock excludes: no two CPUs are ever between the
  \<open>xchg\<close> of \<open>spin_lock\<close> and the \<open>xchg\<close> of \<open>spin_unlock\<close>, and the checks for double
  locking and foreign unlocking never fire by accident.
\<close>

record spinlock =
  locked :: u32
  lk_name :: string
  lk_cpu :: "nat option"
  lk_pcs :: "u32 list"

text \<open>\<open>get_caller_pcs\<close> follows the chain of frame pointers, through the word reader \<open>ld\<close>.\<close>

primrec pcs_loop :: "nat \<Rightarrow> (u32 \<Rightarrow> u32) \<Rightarrow> u32 \<Rightarrow> u32 list" where
  "pcs_loop 0 ld ebp = []"
| "pcs_loop (Suc n) ld ebp =
     (if ebp = 0 \<or> ebp < ULIM then replicate (Suc n) 0
      else ld (ebp + 4) # pcs_loop n ld (ld ebp))"

definition get_caller_pcs :: "(u32 \<Rightarrow> u32) \<Rightarrow> u32 \<Rightarrow> u32 list" where
  "get_caller_pcs ld ebp = pcs_loop 10 ld ebp"

lemma length_pcs_loop [simp]: "length (pcs_loop n ld ebp) = n"
  by (induction n arbitrary: ebp) simp_all

definition holding :: "nat \<Rightarrow> spinlock \<Rightarrow> bool" where
  "holding cpu lk \<longleftrightarrow> locked lk \<noteq> 0 \<and> lk_cpu lk = Some cpu"

definition spin_initlock :: "string \<Rightarrow> spinlock \<Rightarrow> spinlock" where
  "spin_initlock nm lk = lk\<lparr>locked := 0, lk_name := nm, lk_cpu := None\<rparr>"

text \<open>What one CPU sees: the lock taken, a round of the spin loop, or a panic.\<close>

datatype lock_result =
    Locked spinlock
  | Spin_again
  | Lock_panic string

definition spin_lock :: "u32 list \<Rightarrow> nat \<Rightarrow> spinlock \<Rightarrow> lock_result" where
  "spin_lock pcs cpu lk =
     (if holding cpu lk then Lock_panic ''CPU %d cannot acquire %s: already holding''
      else if locked lk \<noteq> 0 then Spin_again
      else Locked (lk\<lparr>locked := 1, lk_cpu := Some cpu, lk_pcs := pcs\<rparr>))"

definition spin_unlock :: "nat \<Rightarrow> spinlock \<Rightarrow> lock_result" where
  "spin_unlock cpu lk =
     (if \<not> holding cpu lk then Lock_panic ''spin_unlock''
      else Locked (lk\<lparr>locked := 0, lk_cpu := None, lk_pcs := (lk_pcs lk)[0 := 0]\<rparr>))"

lemma spin_unlock_lock:
  assumes "spin_lock pcs cpu lk = Locked lk'"
  shows "spin_unlock cpu lk' = Locked (lk\<lparr>locked := 0, lk_cpu := None, lk_pcs := pcs[0 := 0]\<rparr>)"
  using assms by (auto simp: spin_lock_def spin_unlock_def holding_def split: if_splits)

subsection \<open>All CPUs\<close>

text \<open>Where a CPU is: outside, spinning, past its \<open>xchg\<close> but not yet recorded as the holder,
  inside, and on its way out with the holder erased.\<close>

datatype lock_pc = Outside | Spinning | Taken | Inside | Leaving | Crashed

record lock_system =
  lk :: spinlock
  pc_of :: "nat \<Rightarrow> lock_pc"

definition move :: "nat \<Rightarrow> lock_pc \<Rightarrow> lock_system \<Rightarrow> lock_system" where
  "move cpu l s = s\<lparr>pc_of := (pc_of s)(cpu := l)\<rparr>"

inductive lock_step :: "lock_system \<Rightarrow> lock_system \<Rightarrow> bool" where
  enter: "pc_of s c = Outside \<Longrightarrow> \<not> holding c (lk s) \<Longrightarrow> lock_step s (move c Spinning s)"
| enter_panic: "pc_of s c = Outside \<Longrightarrow> holding c (lk s) \<Longrightarrow> lock_step s (move c Crashed s)"
| spin: "pc_of s c = Spinning \<Longrightarrow> locked (lk s) \<noteq> 0 \<Longrightarrow>
    lock_step s (s\<lparr>lk := (lk s)\<lparr>locked := 1\<rparr>\<rparr>)"
| xchg: "pc_of s c = Spinning \<Longrightarrow> locked (lk s) = 0 \<Longrightarrow>
    lock_step s (move c Taken (s\<lparr>lk := (lk s)\<lparr>locked := 1\<rparr>\<rparr>))"
| record_holder: "pc_of s c = Taken \<Longrightarrow>
    lock_step s (move c Inside (s\<lparr>lk := (lk s)\<lparr>lk_cpu := Some c, lk_pcs := pcs\<rparr>\<rparr>))"
| erase_holder: "pc_of s c = Inside \<Longrightarrow> holding c (lk s) \<Longrightarrow>
    lock_step s (move c Leaving (s\<lparr>lk := (lk s)\<lparr>lk_cpu := None, lk_pcs := pcs\<rparr>\<rparr>))"
| unlock_panic: "pc_of s c = Inside \<Longrightarrow> \<not> holding c (lk s) \<Longrightarrow> lock_step s (move c Crashed s)"
| release: "pc_of s c = Leaving \<Longrightarrow>
    lock_step s (move c Outside (s\<lparr>lk := (lk s)\<lparr>locked := 0\<rparr>\<rparr>))"

inductive_cases lock_stepE: "lock_step s t"

inductive lock_reachable :: "lock_system \<Rightarrow> bool" where
  init: "locked (lk s) = 0 \<Longrightarrow> lk_cpu (lk s) = None \<Longrightarrow> (\<And>c. pc_of s c = Outside) \<Longrightarrow>
    lock_reachable s"
| step: "lock_reachable s \<Longrightarrow> lock_step s t \<Longrightarrow> lock_reachable t"

definition in_section :: "lock_pc \<Rightarrow> bool" where
  "in_section l \<longleftrightarrow> l = Taken \<or> l = Inside \<or> l = Leaving"

text \<open>The invariant: the lock word tells whether some CPU is in the section, at most one is,
  and the recorded holder is the CPU that is inside.\<close>

definition lock_inv :: "lock_system \<Rightarrow> bool" where
  "lock_inv s \<longleftrightarrow>
     (locked (lk s) \<noteq> 0 \<longleftrightarrow> (\<exists>c. in_section (pc_of s c))) \<and>
     (\<forall>c d. in_section (pc_of s c) \<longrightarrow> in_section (pc_of s d) \<longrightarrow> c = d) \<and>
     (\<forall>c. lk_cpu (lk s) = Some c \<longleftrightarrow> pc_of s c = Inside) \<and>
     (\<forall>c. pc_of s c \<noteq> Crashed)"

lemma pc_of_move [simp]: "pc_of (move c l s) d = (if d = c then l else pc_of s d)"
  by (simp add: move_def)

lemma lk_move [simp]: "lk (move c l s) = lk s"
  by (simp add: move_def)

lemma in_section_simps [simp]:
  "in_section Taken" "in_section Inside" "in_section Leaving"
  "\<not> in_section Outside" "\<not> in_section Spinning" "\<not> in_section Crashed"
  by (simp_all add: in_section_def)

lemma lock_inv_step:
  assumes i: "lock_inv s" and st: "lock_step s t"
  shows "lock_inv t"
proof -
  have one: "d = c" if "in_section (pc_of s c)" "in_section (pc_of s d)" for c d
    using i that by (auto simp: lock_inv_def)
  have word: "locked (lk s) \<noteq> 0 \<longleftrightarrow> (\<exists>c. in_section (pc_of s c))"
    and hold: "\<And>c. lk_cpu (lk s) = Some c \<longleftrightarrow> pc_of s c = Inside"
    and alive: "\<And>c. pc_of s c \<noteq> Crashed"
    using i by (auto simp: lock_inv_def)
  from st show ?thesis
  proof (cases rule: lock_step.cases)
    case (enter c)
    then have "in_section (pc_of t d) = in_section (pc_of s d)"
        "(pc_of t d = Inside) = (pc_of s d = Inside)" for d by auto
    with enter i show ?thesis by (simp add: lock_inv_def)
  next
    case (enter_panic c)
    then show ?thesis using hold [of c] by (simp add: holding_def)
  next
    case (spin c)
    then show ?thesis using i by (simp add: lock_inv_def)
  next
    case (xchg c)
    then have none: "\<And>d. \<not> in_section (pc_of s d)" using word by auto
    then have "lk_cpu (lk s) \<noteq> Some d" "pc_of s d \<noteq> Inside" for d
      using hold [of d] by (auto simp: in_section_def)
    with xchg none alive show ?thesis by (auto simp: lock_inv_def)
  next
    case (record_holder c pcs)
    then have "in_section (pc_of s c)" by simp
    with record_holder one word alive show ?thesis
      unfolding lock_inv_def by (auto simp: in_section_def)
  next
    case (erase_holder c pcs)
    then have "in_section (pc_of s c)" by simp
    with erase_holder one word alive show ?thesis
      unfolding lock_inv_def by (auto simp: in_section_def)
  next
    case (unlock_panic c)
    then have "in_section (pc_of s c)" by simp
    then have "locked (lk s) \<noteq> 0" using word by blast
    then have "holding c (lk s)" using unlock_panic hold [of c] by (simp add: holding_def)
    with unlock_panic show ?thesis by simp
  next
    case (release c)
    then have c: "in_section (pc_of s c)" by simp
    then have out: "\<And>d. d \<noteq> c \<Longrightarrow> \<not> in_section (pc_of s d)" using one by blast
    have "lk_cpu (lk s) \<noteq> Some d" for d
      using hold [of d] release out [of d] by (cases "d = c") auto
    with release out alive show ?thesis by (auto simp: lock_inv_def in_section_def)
  qed
qed

lemma lock_inv_reachable: "lock_reachable s \<Longrightarrow> lock_inv s"
proof (induction rule: lock_reachable.induct)
  case (init s)
  then show ?case by (simp add: lock_inv_def)
next
  case (step s t)
  then show ?case by (blast intro: lock_inv_step)
qed

text \<open>C20. Mutual exclusion under every interleaving of the accesses of any number of CPUs: two
  CPUs are never in the section together, a CPU is recorded as the holder exactly while it is
  inside, and no check panics.\<close>

theorem spinlock_mutual_exclusion:
  assumes "lock_reachable s"
  shows "(\<forall>c d. in_section (pc_of s c) \<longrightarrow> in_section (pc_of s d) \<longrightarrow> c = d) \<and>
    (\<forall>c. holding c (lk s) \<longleftrightarrow> pc_of s c = Inside) \<and> (\<forall>c. pc_of s c \<noteq> Crashed)"
  using lock_inv_reachable [OF assms]
  unfolding lock_inv_def holding_def by (metis in_section_simps(2))

lemma spinlock_mutual_exclusion_witness:
  "\<exists>s. lock_reachable s \<and> pc_of s 0 = Taken \<and> pc_of s 1 = Spinning \<and> \<not> holding 1 (lk s)"
proof -
  let ?l = "\<lparr>locked = 0, lk_name = ''kernel_lock'', lk_cpu = None, lk_pcs = []\<rparr>"
  let ?s0 = "\<lparr>lk = ?l, pc_of = (\<lambda>_. Outside)\<rparr>"
  let ?s1 = "move 0 Spinning ?s0"
  let ?s2 = "move 1 Spinning ?s1"
  let ?s3 = "move 0 Taken (?s2\<lparr>lk := (lk ?s2)\<lparr>locked := 1\<rparr>\<rparr>)"
  have "lock_reachable ?s0" by (rule lock_reachable.init) simp_all
  moreover have "lock_step ?s0 ?s1" by (rule lock_step.enter) (simp_all add: holding_def)
  moreover have "lock_step ?s1 ?s2" by (rule lock_step.enter) (simp_all add: holding_def)
  moreover have "lock_step ?s2 ?s3" by (rule lock_step.xchg) simp_all
  ultimately have "lock_reachable ?s3" by (blast intro: lock_reachable.step)
  from this spinlock_mutual_exclusion [OF this] show ?thesis
    by (intro exI [of _ ?s3] conjI) simp_all
qed

end
