(* ===== verification/Cstring.thy ===== *)
theory Cstring
  imports Prelude
begin

text \<open>
  The C string and memory routines of lib/string.c, which the kernel and the user programs
  share.  A pointer is a 32-bit address into a byte memory; a loop that runs to the end of a
  string is a partial function, because memory need not hold a zero byte.  The \<open>rep\<close>
  instructions of the assembly versions are loops over the registers.
\<close>

subsection \<open>Strings\<close>

partial_function (option) strlen_loop :: "memory \<Rightarrow> u32 \<Rightarrow> u32 \<Rightarrow> u32 option" where
  "strlen_loop m s n = (if m s \<noteq> 0 then strlen_loop m (s + 1) (n + 1) else Some n)"

definition strlen :: "memory \<Rightarrow> u32 \<Rightarrow> u32 option" where
  "strlen m s = strlen_loop m s 0"

function strnlen_loop :: "memory \<Rightarrow> u32 \<Rightarrow> u32 \<Rightarrow> u32 \<Rightarrow> u32" where
  "strnlen_loop m s sz n =
     (if sz > 0 \<and> m s \<noteq> 0 then strnlen_loop m (s + 1) (sz - 1) (n + 1) else n)"
  by pat_completeness auto
termination by (relation "measure (\<lambda>(m, s, sz, n). unat sz)") (auto simp: unat_minus_one unat_gt_0)

declare strnlen_loop.simps [simp del]

definition strnlen :: "memory \<Rightarrow> u32 \<Rightarrow> u32 \<Rightarrow> u32" where
  "strnlen m s sz = strnlen_loop m s sz 0"

partial_function (option) strcpy_loop :: "memory \<Rightarrow> u32 \<Rightarrow> u32 \<Rightarrow> memory option" where
  "strcpy_loop m dst src =
     (if m src \<noteq> 0 then strcpy_loop (m(dst := m src)) (dst + 1) (src + 1)
      else Some (m(dst := m src)))"

text \<open>The routines that write return the new memory and the result.\<close>

definition strcpy :: "memory \<Rightarrow> u32 \<Rightarrow> u32 \<Rightarrow> (memory \<times> u32) option" where
  "strcpy m dst src = map_option (\<lambda>m'. (m', dst)) (strcpy_loop m dst src)"

definition strcat :: "memory \<Rightarrow> u32 \<Rightarrow> u32 \<Rightarrow> (memory \<times> u32) option" where
  "strcat m dst src =
     Option.bind (strlen m dst) (\<lambda>len.
     Option.bind (strcpy m (dst + len) src) (\<lambda>(m', _). Some (m', dst)))"

primrec strncpy_loop :: "nat \<Rightarrow> memory \<Rightarrow> u32 \<Rightarrow> u32 \<Rightarrow> memory" where
  "strncpy_loop 0 m dst src = m"
| "strncpy_loop (Suc k) m dst src =
     (let m' = m(dst := m src)
      in strncpy_loop k m' (dst + 1) (if m' src \<noteq> 0 then src + 1 else src))"

definition strncpy :: "memory \<Rightarrow> u32 \<Rightarrow> u32 \<Rightarrow> u32 \<Rightarrow> memory \<times> u32" where
  "strncpy m dst src sz = (strncpy_loop (unat sz) m dst src, dst)"

text \<open>The loop of \<open>strlcpy\<close>, entered with \<open>size\<close> already decremented once.\<close>

function strlcpy_loop :: "memory \<Rightarrow> u32 \<Rightarrow> u32 \<Rightarrow> u32 \<Rightarrow> memory \<times> u32" where
  "strlcpy_loop m dst src sz =
     (if sz > 0 \<and> m src \<noteq> 0 then strlcpy_loop (m(dst := m src)) (dst + 1) (src + 1) (sz - 1)
      else (m(dst := 0), dst))"
  by pat_completeness auto
termination by (relation "measure (\<lambda>(m, dst, src, sz). unat sz)") (auto simp: unat_minus_one unat_gt_0)

declare strlcpy_loop.simps [simp del]

definition strlcpy :: "memory \<Rightarrow> u32 \<Rightarrow> u32 \<Rightarrow> u32 \<Rightarrow> memory \<times> u32" where
  "strlcpy m dst src sz =
     (if sz > 0 then let (m', d) = strlcpy_loop m dst src (sz - 1) in (m', d - dst)
      else (m, dst - dst))"

text \<open>The difference of two \<open>unsigned char\<close>s as an \<open>int\<close>.\<close>

definition byte_diff :: "u8 \<Rightarrow> u8 \<Rightarrow> u32" where
  "byte_diff a b = ucast a - ucast b"

partial_function (option) strcmp :: "memory \<Rightarrow> u32 \<Rightarrow> u32 \<Rightarrow> u32 option" where
  "strcmp m p q =
     (if m p \<noteq> 0 \<and> m p = m q then strcmp m (p + 1) (q + 1) else Some (byte_diff (m p) (m q)))"

function strncmp :: "memory \<Rightarrow> u32 \<Rightarrow> u32 \<Rightarrow> u32 \<Rightarrow> u32" where
  "strncmp m p q n =
     (if n > 0 \<and> m p \<noteq> 0 \<and> m p = m q then strncmp m (p + 1) (q + 1) (n - 1)
      else if n = 0 then 0 else byte_diff (m p) (m q))"
  by pat_completeness auto
termination by (relation "measure (\<lambda>(m, p, q, n). unat n)") (auto simp: unat_minus_one unat_gt_0)

declare strncmp.simps [simp del]

partial_function (option) strchr :: "memory \<Rightarrow> u32 \<Rightarrow> u8 \<Rightarrow> u32 option" where
  "strchr m s c = (if m s = 0 then Some 0 else if m s = c then Some s else strchr m (s + 1) c)"

partial_function (option) strfind :: "memory \<Rightarrow> u32 \<Rightarrow> u8 \<Rightarrow> u32 option" where
  "strfind m s c = (if m s = 0 \<or> m s = c then Some s else strfind m (s + 1) c)"

subsection \<open>Memory\<close>

text \<open>\<open>rep stosb\<close>, \<open>rep stosl\<close>, and \<open>rep movsb\<close>, \<open>rep movsl\<close> with the direction flag
  clear (\<open>dir = 1\<close>) or set (\<open>dir = -1\<close>).\<close>

primrec rep_stosb :: "nat \<Rightarrow> memory \<Rightarrow> u32 \<Rightarrow> u8 \<Rightarrow> memory" where
  "rep_stosb 0 m edi al = m"
| "rep_stosb (Suc ecx) m edi al = rep_stosb ecx (m(edi := al)) (edi + 1) al"

primrec rep_stosl :: "nat \<Rightarrow> memory \<Rightarrow> u32 \<Rightarrow> u32 \<Rightarrow> memory" where
  "rep_stosl 0 m edi eax = m"
| "rep_stosl (Suc ecx) m edi eax = rep_stosl ecx (store32 m edi eax) (edi + 4) eax"

primrec rep_movsb :: "u32 \<Rightarrow> nat \<Rightarrow> memory \<Rightarrow> u32 \<Rightarrow> u32 \<Rightarrow> memory" where
  "rep_movsb dir 0 m edi esi = m"
| "rep_movsb dir (Suc ecx) m edi esi =
     rep_movsb dir ecx (m(edi := m esi)) (edi + dir) (esi + dir)"

primrec rep_movsl :: "u32 \<Rightarrow> nat \<Rightarrow> memory \<Rightarrow> u32 \<Rightarrow> u32 \<Rightarrow> memory" where
  "rep_movsl dir 0 m edi esi = m"
| "rep_movsl dir (Suc ecx) m edi esi =
     rep_movsl dir ecx (store32 m edi (load32 m esi)) (edi + 4 * dir) (esi + 4 * dir)"

definition memset :: "memory \<Rightarrow> u32 \<Rightarrow> u32 \<Rightarrow> u32 \<Rightarrow> memory \<times> u32" where
  "memset m v c n =
     (if n = 0 then (m, v)
      else if v mod 4 = 0 \<and> n mod 4 = 0 then
        (let c1 = c AND 0xFF;
             c4 = push_bit 24 c1 OR push_bit 16 c1 OR push_bit 8 c1 OR c1
         in (rep_stosl (unat (n div 4)) m v c4, v))
      else (rep_stosb (unat n) m v (ucast c), v))"

definition memmove :: "memory \<Rightarrow> u32 \<Rightarrow> u32 \<Rightarrow> u32 \<Rightarrow> memory \<times> u32" where
  "memmove m dst src n =
     (if src < dst \<and> src + n > dst then
        (let s = src + n; d = dst + n
         in if s mod 4 = 0 \<and> d mod 4 = 0 \<and> n mod 4 = 0
            then (rep_movsl (- 1) (unat (n div 4)) m (d - 4) (s - 4), dst)
            else (rep_movsb (- 1) (unat n) m (d - 1) (s - 1), dst))
      else
        (if src mod 4 = 0 \<and> dst mod 4 = 0 \<and> n mod 4 = 0
         then (rep_movsl 1 (unat (n div 4)) m dst src, dst)
         else (rep_movsb 1 (unat n) m dst src, dst)))"

definition memcpy :: "memory \<Rightarrow> u32 \<Rightarrow> u32 \<Rightarrow> u32 \<Rightarrow> memory \<times> u32" where
  "memcpy m dst src n = memmove m dst src n"

text \<open>The versions without assembly.\<close>

primrec memset_c_loop :: "nat \<Rightarrow> memory \<Rightarrow> u32 \<Rightarrow> u8 \<Rightarrow> memory" where
  "memset_c_loop 0 m p c = m"
| "memset_c_loop (Suc k) m p c = memset_c_loop k (m(p := c)) (p + 1) c"

definition memset_c :: "memory \<Rightarrow> u32 \<Rightarrow> u32 \<Rightarrow> u32 \<Rightarrow> memory \<times> u32" where
  "memset_c m v c n =
     (memset_c_loop (if 0 < sint n then unat n else 0) m v (ucast c), v)"

primrec move_down :: "nat \<Rightarrow> memory \<Rightarrow> u32 \<Rightarrow> u32 \<Rightarrow> memory" where
  "move_down 0 m d s = m"
| "move_down (Suc k) m d s = move_down k (m(d - 1 := m (s - 1))) (d - 1) (s - 1)"

primrec move_up :: "nat \<Rightarrow> memory \<Rightarrow> u32 \<Rightarrow> u32 \<Rightarrow> memory" where
  "move_up 0 m d s = m"
| "move_up (Suc k) m d s = move_up k (m(d := m s)) (d + 1) (s + 1)"

definition memmove_c :: "memory \<Rightarrow> u32 \<Rightarrow> u32 \<Rightarrow> u32 \<Rightarrow> memory \<times> u32" where
  "memmove_c m dst src n =
     (if src < dst \<and> src + n > dst then (move_down (unat n) m (dst + n) (src + n), dst)
      else (move_up (unat n) m dst src, dst))"

function memcmp :: "memory \<Rightarrow> u32 \<Rightarrow> u32 \<Rightarrow> u32 \<Rightarrow> u32" where
  "memcmp m s1 s2 n =
     (if n > 0 then
        (if m s1 \<noteq> m s2 then byte_diff (m s1) (m s2) else memcmp m (s1 + 1) (s2 + 1) (n - 1))
      else 0)"
  by pat_completeness auto
termination by (relation "measure (\<lambda>(m, s1, s2, n). unat n)") (auto simp: unat_minus_one unat_gt_0)

declare memcmp.simps [simp del]

function memfind_loop :: "memory \<Rightarrow> u32 \<Rightarrow> u32 \<Rightarrow> u8 \<Rightarrow> u32" where
  "memfind_loop m s ends c =
     (if s < ends then (if m s = c then s else memfind_loop m (s + 1) ends c) else s)"
  by pat_completeness auto
termination
proof (relation "measure (\<lambda>(m, s, ends, c). unat ends - unat s)")
  fix m :: memory and s ends :: u32 and c :: u8
  assume "s < ends" "m s \<noteq> c"
  then have l: "unat s < unat ends" by (simp add: word_less_nat_alt)
  then have "unat s + 1 < 4294967296" using unat_lt_u32 [of ends] by linarith
  then have "unat (s + 1) = unat s + 1" by (subst unat_add_no_wrap) simp_all
  with l show "((m, s + 1, ends, c), m, s, ends, c) \<in> measure (\<lambda>(m, s, ends, c). unat ends - unat s)"
    by simp
qed simp

declare memfind_loop.simps [simp del]

definition memfind :: "memory \<Rightarrow> u32 \<Rightarrow> u32 \<Rightarrow> u32 \<Rightarrow> u32" where
  "memfind m s c n = memfind_loop m s (s + n) (ucast c)"

subsection \<open>Numbers\<close>

partial_function (option) skip_blanks :: "memory \<Rightarrow> u32 \<Rightarrow> u32 option" where
  "skip_blanks m s = (if m s = 0x20 \<or> m s = 0x09 then skip_blanks m (s + 1) else Some s)"

definition digit_value :: "u8 \<Rightarrow> u32 option" where
  "digit_value c =
     (if 0x30 \<le> c \<and> c \<le> 0x39 then Some (ucast c - 0x30)
      else if 0x61 \<le> c \<and> c \<le> 0x7A then Some (ucast c - 0x61 + 10)
      else if 0x41 \<le> c \<and> c \<le> 0x5A then Some (ucast c - 0x41 + 10)
      else None)"

partial_function (option) strtol_loop ::
  "memory \<Rightarrow> u32 \<Rightarrow> u32 \<Rightarrow> u32 \<Rightarrow> (u32 \<times> u32) option" where
  "strtol_loop m s base val =
     (case digit_value (m s) of
        None \<Rightarrow> Some (val, s)
      | Some dig \<Rightarrow>
          if sint base \<le> sint dig then Some (val, s)
          else strtol_loop m (s + 1) base (val * base + dig))"

text \<open>\<open>strtol\<close> returns the value and what it stores through \<open>endptr\<close>.\<close>

definition strtol :: "memory \<Rightarrow> u32 \<Rightarrow> u32 \<Rightarrow> (u32 \<times> u32) option" where
  "strtol m s base =
     Option.bind (skip_blanks m s) (\<lambda>s.
     let (s, neg) = (if m s = 0x2B then (s + 1, False)
                     else if m s = 0x2D then (s + 1, True) else (s, False));
         (s, base) = (if (base = 0 \<or> base = 16) \<and> m s = 0x30 \<and> m (s + 1) = 0x78 then (s + 2, 16)
                      else if base = 0 \<and> m s = 0x30 then (s + 1, 8)
                      else if base = 0 then (s, 10) else (s, base))
     in map_option (\<lambda>(val, e). (if neg then - val else val, e)) (strtol_loop m s base 0))"

subsection \<open>Strings as lists\<close>

text \<open>The bytes at \<open>p\<close> are the string \<open>s\<close>, which holds no zero byte, and a zero byte.\<close>

primrec cstr :: "memory \<Rightarrow> u32 \<Rightarrow> u8 list \<Rightarrow> bool" where
  "cstr m p [] \<longleftrightarrow> m p = 0"
| "cstr m p (c # s) \<longleftrightarrow> m p = c \<and> c \<noteq> 0 \<and> cstr m (p + 1) s"

lemma cstr_unique: "cstr m p s \<Longrightarrow> cstr m p t \<Longrightarrow> s = t"
proof (induction s arbitrary: p t)
  case Nil
  then show ?case by (cases t) auto
next
  case (Cons c s)
  then show ?case by (cases t) auto
qed

lemma strlen_loop_cstr:
  "cstr m p s \<Longrightarrow> strlen_loop m p n = Some (n + of_nat (length s))"
proof (induction s arbitrary: p n)
  case Nil
  then show ?case by (simp add: strlen_loop.simps)
next
  case (Cons c s)
  then show ?case by (simp add: strlen_loop.simps [of m p] add_ac)
qed

text \<open>\<open>strlen\<close> returns the length of the string, and its loop ends.\<close>

theorem strlen_correct: "cstr m p s \<Longrightarrow> strlen m p = Some (of_nat (length s))"
  by (simp add: strlen_def strlen_loop_cstr)

lemma sint_word_of_int:
  "- 2147483648 \<le> k \<Longrightarrow> k < 2147483648 \<Longrightarrow> sint (word_of_int k :: u32) = k"
  by (simp add: signed_of_int signed_take_bit_int_eq_self)

lemma sint_byte_diff: "sint (byte_diff a b) = uint a - uint b"
proof -
  have "ucast c = (word_of_int (uint c) :: u32)" for c :: u8 by transfer simp
  then have bd: "byte_diff a b = word_of_int (uint a - uint b)"
    by (simp add: byte_diff_def)
  have "uint a < 256" "uint b < 256" "0 \<le> uint a" "0 \<le> uint b"
    using unsigned_less [of a, where ?'a = int] unsigned_less [of b, where ?'a = int] by simp_all
  then show ?thesis unfolding bd by (intro sint_word_of_int) linarith+
qed

lemma byte_diff_zero [simp]: "byte_diff a b = 0 \<longleftrightarrow> a = b"
proof
  assume "byte_diff a b = 0"
  then have "sint (byte_diff a b) = 0" by simp
  then show "a = b" by (simp add: sint_byte_diff word_uint_eq_iff)
qed (simp add: byte_diff_def)

lemma byte_diff_neg: "sint (byte_diff a b) < 0 \<longleftrightarrow> a < b"
  by (simp add: sint_byte_diff word_less_def)

text \<open>\<open>strcmp\<close> ends on two strings; its result is zero for equal strings only and negative
  exactly when the first string comes first in the lexicographic order of bytes.\<close>

theorem strcmp_correct:
  assumes "cstr m p s" and "cstr m q t"
  shows "\<exists>r. strcmp m p q = Some r \<and> (r = 0 \<longleftrightarrow> s = t) \<and> (sint r < 0 \<longleftrightarrow> ord_class.lexordp s t)"
  using assms
proof (induction s arbitrary: p q t)
  case Nil
  then show ?case
    by (cases t) (auto simp: strcmp.simps [of m p q] byte_diff_neg word_gt_0)
next
  case (Cons c s)
  show ?case
  proof (cases "t \<noteq> [] \<and> hd t = c")
    case True
    then obtain t' where t: "t = c # t'" by (cases t) auto
    with Cons.prems have "cstr m (p + 1) s" "cstr m (q + 1) t'" by auto
    from Cons.IH [OF this] Cons.prems t show ?thesis
      by (auto simp: strcmp.simps [of m p q])
  next
    case False
    with Cons.prems show ?thesis
      by (cases t) (auto simp: strcmp.simps [of m p q] byte_diff_neg)
  qed
qed

subsection \<open>Copying and filling\<close>

lemma in_range_iff:
  fixes x d :: u32
  assumes "unat d + k \<le> 4294967296"
  shows "unat (x - d) < k \<longleftrightarrow> unat d \<le> unat x \<and> unat x < unat d + k"
proof (cases "unat d \<le> unat x")
  case True
  then have "unat (x - d) = unat x - unat d" by (simp add: unat_sub word_le_nat_alt)
  with True show ?thesis by auto
next
  case False
  then have "unat (x - d) = unat x + 4294967296 - unat d"
    using unat_lt_u32 [of d] by (simp add: unat_sub_if' )
  with False assms show ?thesis by auto
qed

text \<open>A block copied in two parts, the first one first or the last one first, when the part
  copied first does not overwrite what the other part reads.\<close>

lemma unat_of_nat_less: "a + b \<le> 4294967296 \<Longrightarrow> 0 < b \<Longrightarrow> unat (of_nat a :: u32) = a"
  by (intro unat_of_nat_u32) simp

lemma unat_diff_wrap:
  fixes x d :: u32
  shows "unat (x - d) = (if unat d \<le> unat x then unat x - unat d else unat x + 4294967296 - unat d)"
  by (simp add: unat_sub_if')

lemma mem_move_up:
  assumes "a + b \<le> 4294967296" and "d = s \<or> a + b \<le> unat (d - s)"
  shows "mem_move (mem_move m d s a) (d + of_nat a) (s + of_nat a) b = mem_move m d s (a + b)"
proof (cases "b = 0")
  case True
  then show ?thesis by (simp add: mem_move_def)
next
  case b: False
  then have ua: "unat (of_nat a :: u32) = a" using assms(1) by (intro unat_of_nat_less) auto
  show ?thesis
  proof
    fix x
    let ?t = "x - d"
    have r: "unat (x - (d + of_nat a)) < b \<longleftrightarrow> a \<le> unat ?t \<and> unat ?t < a + b"
      using in_range_iff [of "of_nat a" b ?t] assms(1) by (simp add: ua diff_diff_eq)
    have rd: "s + of_nat a + (x - (d + of_nat a)) = s + ?t" by simp
    have keep: "mem_move m d s a (s + ?t) = m (s + ?t)" if "a \<le> unat ?t" "unat ?t < a + b"
    proof (cases "d = s")
      case True
      then show ?thesis by (simp add: mem_move_def)
    next
      case False
      then have D: "a + b \<le> unat (d - s)" using assms(2) by simp
      have e: "s + ?t - d = ?t - (d - s)" by simp
      have "\<not> unat (s + ?t - d) < a"
        unfolding e unat_diff_wrap [of ?t "d - s"] using that D unat_lt_u32 [of "d - s"]
        by (simp only: split: if_split) linarith
      then show ?thesis unfolding mem_move_def by (simp only: if_False)
    qed
    show "mem_move (mem_move m d s a) (d + of_nat a) (s + of_nat a) b x = mem_move m d s (a + b) x"
    proof (cases "unat (x - (d + of_nat a)) < b")
      case True
      then have t: "a \<le> unat ?t" "unat ?t < a + b" using r by auto
      have "mem_move (mem_move m d s a) (d + of_nat a) (s + of_nat a) b x = mem_move m d s a (s + ?t)"
        unfolding mem_move_def [of "mem_move m d s a"] using True rd by simp
      also have "\<dots> = m (s + ?t)" by (rule keep [OF t])
      finally show ?thesis using t by (simp add: mem_move_def)
    next
      case False
      then show ?thesis using r by (auto simp: mem_move_def)
    qed
  qed
qed

lemma mem_move_down:
  assumes "a + b \<le> 4294967296" and "d = s \<or> a + b \<le> unat (s - d)"
  shows "mem_move (mem_move m (d + of_nat b) (s + of_nat b) a) d s b = mem_move m d s (b + a)"
proof (cases "a = 0")
  case True
  then show ?thesis by (simp add: mem_move_def)
next
  case a: False
  then have ub: "unat (of_nat b :: u32) = b"
    using assms(1) by (intro unat_of_nat_less [of b a]) auto
  show ?thesis
  proof
    fix x
    let ?t = "x - d" and ?i = "mem_move m (d + of_nat b) (s + of_nat b) a"
    have r: "unat (x - (d + of_nat b)) < a \<longleftrightarrow> b \<le> unat ?t \<and> unat ?t < b + a"
      using in_range_iff [of "of_nat b" a ?t] assms(1) by (simp add: ub diff_diff_eq)
    have rd: "s + of_nat b + (x - (d + of_nat b)) = s + ?t" by simp
    have keep: "?i (s + ?t) = m (s + ?t)" if "unat ?t < b"
    proof (cases "d = s")
      case True
      then show ?thesis by (simp add: mem_move_def)
    next
      case False
      then have E: "a + b \<le> unat (s - d)" using assms(2) by simp
      have e: "s + ?t - (d + of_nat b) = (s - d) - (of_nat b - ?t)" by simp
      have bt: "unat (of_nat b - ?t) = b - unat ?t"
        using that by (simp add: unat_diff_wrap [of "of_nat b"] ub)
      have "\<not> unat (s + ?t - (d + of_nat b)) < a"
        unfolding e unat_diff_wrap [of "s - d"] bt using that E
        by (simp only: split: if_split) linarith
      then show ?thesis unfolding mem_move_def by (simp only: if_False)
    qed
    show "mem_move ?i d s b x = mem_move m d s (b + a) x"
    proof (cases "unat ?t < b")
      case True
      then have "mem_move ?i d s b x = ?i (s + ?t)" by (simp add: mem_move_def [of ?i])
      with True keep show ?thesis by (simp add: mem_move_def [of m d s])
    next
      case False
      then have "mem_move ?i d s b x = ?i x" by (simp add: mem_move_def [of ?i])
      then show ?thesis
        using False r rd by (auto simp: mem_move_def)
    qed
  qed
qed

lemma mem_move_one: "m(d := m s) = mem_move m d s 1"
proof
  fix x
  have "unat (x - d) < 1 \<longleftrightarrow> x = d" by (simp add: unat_eq_0)
  then show "(m(d := m s)) x = mem_move m d s 1 x" by (simp add: mem_move_def)
qed

lemma u8_bit: "8 \<le> n \<Longrightarrow> \<not> bit (b :: u8) n"
  by (auto dest: bit_imp_le_length)

lemma store32_bytes_of:
  "store32 m a (ucast b0 OR push_bit 8 (ucast b1) OR push_bit 16 (ucast b2) OR push_bit 24 (ucast b3)) =
    m(a := b0, a + 1 := b1, a + 2 := b2, a + 3 := b3)"
proof -
  let ?v = "ucast b0 OR push_bit 8 (ucast b1) OR push_bit 16 (ucast b2) OR push_bit 24 (ucast b3) :: u32"
  have "ucast ?v = b0" "ucast (drop_bit 8 ?v) = b1" "ucast (drop_bit 16 ?v) = b2"
      "ucast (drop_bit 24 ?v) = b3"
    by (auto intro!: bit_word_eqI simp: bit_simps u8_bit)
  then show ?thesis by (simp add: store32_def)
qed

lemma less_4_cases:
  fixes t :: u32
  assumes "unat t < 4" obtains "t = 0" | "t = 1" | "t = 2" | "t = 3"
proof -
  have "unat t = 0 \<or> unat t = 1 \<or> unat t = 2 \<or> unat t = 3" using assms by linarith
  then have "t = 0 \<or> t = 1 \<or> t = 2 \<or> t = 3" by (auto simp: word_unat_eq_iff)
  with that show thesis by blast
qed

lemma four_bytes:
  fixes m :: memory
  shows "m(d := f 0, d + 1 := f 1, d + 2 := f 2, d + 3 := f 3) =
    (\<lambda>x. if unat (x - d) < 4 then f (x - d) else m x)" (is "?l = ?r")
proof
  fix x
  let ?t = "x - d"
  show "?l x = ?r x"
  proof (cases "unat ?t < 4")
    case True
    have x: "x = d + ?t" by simp
    show ?thesis
      by (rule less_4_cases [OF True]; subst (1 2 3) x) (simp_all add: True)
  next
    case False
    have "x \<noteq> d + y" if "unat y < 4" for y using False that by auto
    from this [of 0] this [of 1] this [of 2] this [of 3] False show ?thesis by simp
  qed
qed

lemma mem_move_four: "store32 m d (load32 m s) = mem_move m d s 4"
  by (simp add: load32_def store32_bytes_of mem_move_def
      four_bytes [of m d "\<lambda>t. m (s + t)", simplified])

lemma rep_movsb_up:
  assumes "k \<le> 4294967296" and "d = s \<or> k \<le> unat (d - s)"
  shows "rep_movsb 1 k m d s = mem_move m d s k"
  using assms
proof (induction k arbitrary: m d s)
  case 0
  then show ?case by (simp add: mem_move_def)
next
  case (Suc k)
  have "rep_movsb 1 (Suc k) m d s = mem_move (mem_move m d s 1) (d + of_nat 1) (s + of_nat 1) k"
    using Suc.IH [of "d + 1" "s + 1"] Suc.prems by (auto simp: mem_move_one)
  also have "\<dots> = mem_move m d s (1 + k)"
    by (rule mem_move_up) (use Suc.prems in auto)
  finally show ?case by simp
qed

lemma rep_movsl_up:
  assumes "4 * k \<le> 4294967296" and "d = s \<or> 4 * k \<le> unat (d - s)"
  shows "rep_movsl 1 k m d s = mem_move m d s (4 * k)"
  using assms
proof (induction k arbitrary: m d s)
  case 0
  then show ?case by (simp add: mem_move_def)
next
  case (Suc k)
  have "rep_movsl 1 (Suc k) m d s = mem_move (mem_move m d s 4) (d + of_nat 4) (s + of_nat 4) (4 * k)"
    using Suc.IH [of "d + 4" "s + 4"] Suc.prems by (auto simp: mem_move_four)
  also have "\<dots> = mem_move m d s (4 + 4 * k)"
    by (rule mem_move_up) (use Suc.prems in auto)
  finally show ?case by simp
qed

lemma rep_movsb_down:
  assumes "k \<le> 4294967296" and "d = s \<or> k \<le> unat (s - d)"
  shows "rep_movsb (- 1) k m (d + of_nat k - 1) (s + of_nat k - 1) = mem_move m d s k"
  using assms
proof (induction k arbitrary: m)
  case 0
  then show ?case by (simp add: mem_move_def)
next
  case (Suc k)
  have "rep_movsb (- 1) (Suc k) m (d + of_nat (Suc k) - 1) (s + of_nat (Suc k) - 1) =
      mem_move (mem_move m (d + of_nat k) (s + of_nat k) 1) d s k"
    using Suc.IH Suc.prems by (auto simp: mem_move_one)
  also have "\<dots> = mem_move m d s (k + 1)"
    by (rule mem_move_down) (use Suc.prems in auto)
  finally show ?case by simp
qed

lemma rep_movsl_down:
  assumes "4 * k \<le> 4294967296" and "d = s \<or> 4 * k \<le> unat (s - d)"
  shows "rep_movsl (- 1) k m (d + of_nat (4 * k) - 4) (s + of_nat (4 * k) - 4) = mem_move m d s (4 * k)"
  using assms
proof (induction k arbitrary: m)
  case 0
  then show ?case by (simp add: mem_move_def)
next
  case (Suc k)
  have "rep_movsl (- 1) (Suc k) m (d + of_nat (4 * Suc k) - 4) (s + of_nat (4 * Suc k) - 4) =
      mem_move (mem_move m (d + of_nat (4 * k)) (s + of_nat (4 * k)) 4) d s (4 * k)"
    using Suc.IH Suc.prems by (auto simp: mem_move_four algebra_simps)
  also have "\<dots> = mem_move m d s (4 * k + 4)"
    by (rule mem_move_down) (use Suc.prems in auto)
  finally show ?case by (simp add: add.commute)
qed

lemma unat_div_mod_4: "n mod 4 = 0 \<Longrightarrow> 4 * unat (n div 4 :: u32) = unat n"
proof -
  assume "n mod 4 = 0"
  then have "unat (n mod 4) = 0" by simp
  then have "unat n mod 4 = 0" by (simp only: unat_mod unat_numeral) simp
  then have "4 * (unat n div 4) = unat n" by presburger
  then show ?thesis by (simp add: unat_div)
qed

lemma forward_ok:
  fixes dst src n :: u32
  assumes "unat dst + unat n \<le> 4294967296" and "unat src + unat n \<le> 4294967296"
    and "\<not> (src < dst \<and> src + n > dst)"
  shows "dst = src \<or> unat n \<le> unat (dst - src)"
proof (cases "src < dst")
  case True
  then have "unat src + unat n < 4294967296 \<or> unat n = 0"
    using assms(1) by (auto simp: word_less_nat_alt)
  then have "unat (src + n) = unat src + unat n"
    by (elim disjE) (erule unat_add_no_wrap, simp add: unat_eq_0)
  then show ?thesis using True assms(3) by (auto simp: unat_diff_wrap word_less_nat_alt)
next
  case False
  then show ?thesis
    using assms(2) by (auto simp: unat_diff_wrap word_less_nat_alt word_unat_eq_iff)
qed

lemma memmove_asm:
  assumes "unat dst + unat n \<le> 4294967296" and "unat src + unat n \<le> 4294967296"
  shows "memmove m dst src n = (mem_move m dst src (unat n), dst)"
proof (cases "src < dst \<and> src + n > dst")
  case True
  have c: "dst = src \<or> unat n \<le> unat (src - dst)"
    using True assms by (simp add: unat_diff_wrap word_less_nat_alt) linarith
  have l: "rep_movsl (- 1) (unat (n div 4)) m (dst + n - 4) (src + n - 4) = mem_move m dst src (unat n)"
    if "n mod 4 = 0"
    using rep_movsl_down [of "unat (n div 4)" dst src m, unfolded unat_div_mod_4 [OF that]] c
    by (simp add: less_imp_le)
  show ?thesis
    using True rep_movsb_down [OF _ c] l by (simp add: memmove_def Let_def less_imp_le)
next
  case False
  note c = forward_ok [OF assms False]
  have l: "rep_movsl 1 (unat (n div 4)) m dst src = mem_move m dst src (unat n)"
    if "n mod 4 = 0"
    using rep_movsl_up [of "unat (n div 4)" dst src m, unfolded unat_div_mod_4 [OF that]] c
    by (simp add: less_imp_le)
  show ?thesis
    unfolding memmove_def if_not_P [OF False]
    using rep_movsb_up [OF _ c] l by (simp add: less_imp_le)
qed

lemma move_up_rep: "move_up k m d s = rep_movsb 1 k m d s"
  by (induction k arbitrary: m d s) simp_all

lemma move_down_rep: "move_down k m d s = rep_movsb (- 1) k m (d - 1) (s - 1)"
  by (induction k arbitrary: m d s) (simp_all add: diff_conv_add_uminus del: add_uminus_conv_diff)

lemma memmove_c_bytes:
  assumes "unat dst + unat n \<le> 4294967296" and "unat src + unat n \<le> 4294967296"
  shows "memmove_c m dst src n = (mem_move m dst src (unat n), dst)"
proof (cases "src < dst \<and> src + n > dst")
  case True
  have "dst = src \<or> unat n \<le> unat (src - dst)"
    using True assms by (simp add: unat_diff_wrap word_less_nat_alt) linarith
  from rep_movsb_down [OF _ this, of m] True show ?thesis
    by (simp add: memmove_c_def move_down_rep less_imp_le)
next
  case False
  show ?thesis
    unfolding memmove_c_def if_not_P [OF False]
    using rep_movsb_up [OF _ forward_ok [OF assms False]] by (simp add: move_up_rep less_imp_le)
qed

text \<open>C36. Whatever the overlap and the alignment, \<open>memmove\<close> copies the bytes the source held
  before the call and touches nothing outside the destination, in the assembly version and in
  the C version alike.\<close>

theorem memmove_correct:
  assumes "unat dst + unat n \<le> 4294967296" and "unat src + unat n \<le> 4294967296"
  shows "memmove m dst src n = (mem_move m dst src (unat n), dst) \<and>
    memmove_c m dst src n = memmove m dst src n"
  using memmove_asm [OF assms] memmove_c_bytes [OF assms] by simp

lemma memmove_correct_witness:
  "memmove (\<lambda>a. ucast a) 0x1002 0x1000 8 = (mem_move (\<lambda>a. ucast a) 0x1002 0x1000 8, 0x1002) \<and>
    memmove_c (\<lambda>a. ucast a) 0x1002 0x1000 8 = memmove (\<lambda>a. ucast a) 0x1002 0x1000 8"
  using memmove_correct [of "0x1002" 8 "0x1000" "\<lambda>a. ucast a"] by simp

subsection \<open>Filling\<close>

lemma mem_set_up:
  assumes "a + b \<le> 4294967296"
  shows "mem_set (mem_set m d c a) (d + of_nat a) c b = mem_set m d c (a + b)"
proof (cases "b = 0")
  case True
  then show ?thesis by (simp add: mem_set_def)
next
  case False
  then have ua: "unat (of_nat a :: u32) = a" using assms by (intro unat_of_nat_less) auto
  show ?thesis
  proof
    fix x
    have r: "unat (x - (d + of_nat a)) < b \<longleftrightarrow> a \<le> unat (x - d) \<and> unat (x - d) < a + b"
      using in_range_iff [of "of_nat a" b "x - d"] assms by (simp add: ua diff_diff_eq)
    then show "mem_set (mem_set m d c a) (d + of_nat a) c b x = mem_set m d c (a + b) x"
      by (auto simp: mem_set_def)
  qed
qed

lemma mem_set_one: "m(d := c) = mem_set m d c 1"
proof
  fix x
  have "unat (x - d) < 1 \<longleftrightarrow> x = d" by (simp add: unat_eq_0)
  then show "(m(d := c)) x = mem_set m d c 1 x" by (simp add: mem_set_def)
qed

lemma rep_stosb_set: "k \<le> 4294967296 \<Longrightarrow> rep_stosb k m d c = mem_set m d c k"
proof (induction k arbitrary: m d)
  case 0
  then show ?case by (simp add: mem_set_def)
next
  case (Suc k)
  have "rep_stosb (Suc k) m d c = mem_set (mem_set m d c 1) (d + of_nat 1) c k"
    using Suc.IH [of _ "d + 1"] Suc.prems by (simp add: mem_set_one)
  also have "\<dots> = mem_set m d c (1 + k)" by (rule mem_set_up) (use Suc.prems in auto)
  finally show ?case by simp
qed

lemma mem_set_four:
  "store32 m d (ucast c OR push_bit 8 (ucast c) OR push_bit 16 (ucast c) OR push_bit 24 (ucast c)) =
    mem_set m d c 4"
  by (simp add: store32_bytes_of mem_set_def four_bytes [of m d "\<lambda>_. c", simplified])

lemma rep_stosl_set:
  assumes "4 * k \<le> 4294967296"
    and "v = ucast c OR push_bit 8 (ucast c) OR push_bit 16 (ucast c) OR push_bit 24 (ucast c)"
  shows "rep_stosl k m d v = mem_set m d c (4 * k)"
  using assms
proof (induction k arbitrary: m d)
  case 0
  then show ?case by (simp add: mem_set_def)
next
  case (Suc k)
  have "rep_stosl (Suc k) m d v = mem_set (mem_set m d c 4) (d + of_nat 4) c (4 * k)"
    using Suc.IH [of _ "d + 4"] Suc.prems by (simp add: mem_set_four)
  also have "\<dots> = mem_set m d c (4 + 4 * k)" by (rule mem_set_up) (use Suc.prems in auto)
  finally show ?case by simp
qed

lemma mask_eq_FF: "(0xFF :: u32) = mask 8"
  by (simp add: mask_eq_exp_minus_1)

lemma replicate_byte:
  fixes c :: u32
  shows "push_bit 24 (c AND 0xFF) OR push_bit 16 (c AND 0xFF) OR push_bit 8 (c AND 0xFF) OR (c AND 0xFF) =
    ucast (ucast c :: u8) OR push_bit 8 (ucast (ucast c :: u8)) OR push_bit 16 (ucast (ucast c :: u8))
      OR push_bit 24 (ucast (ucast c :: u8))"
proof -
  have "c AND 0xFF = ucast (ucast c :: u8)"
    unfolding mask_eq_FF by (rule bit_word_eqI) (auto simp: bit_simps)
  then show ?thesis by (simp add: or.assoc or.commute or.left_commute)
qed

text \<open>\<open>memset\<close> stores the low byte of \<open>c\<close> in exactly the \<open>n\<close> bytes from \<open>v\<close>, also when it
  fills four bytes at a time.\<close>

theorem memset_correct: "memset m v c n = (mem_set m v (ucast c) (unat n), v)"
proof -
  have z: "mem_set m v b 0 = m" for b by (simp add: mem_set_def)
  have l: "rep_stosl (unat (n div 4)) m v
      (push_bit 24 (c AND 0xFF) OR push_bit 16 (c AND 0xFF) OR push_bit 8 (c AND 0xFF) OR (c AND 0xFF)) =
      mem_set m v (ucast c) (unat n)" if "n mod 4 = 0"
    using rep_stosl_set [OF _ replicate_byte, of "unat (n div 4)" m v c]
      unat_div_mod_4 [OF that] by (simp add: less_imp_le)
  then show ?thesis
    by (simp add: memset_def Let_def rep_stosb_set less_imp_le z)
qed

subsection \<open>Bounded copying\<close>

lemma unat_minus_succ:
  fixes t :: u32
  shows "0 < unat t \<Longrightarrow> unat (t - 1) = unat t - 1"
  by (rule unat_minus_one) auto

lemma strlcpy_loop_bounds:
  assumes "strlcpy_loop m dst src sz = (m', d)"
  shows "unat (d - dst) \<le> unat sz \<and> m' d = 0 \<and> (\<forall>x. unat sz < unat (x - dst) \<longrightarrow> m' x = m x)"
  using assms
proof (induction m dst src sz rule: strlcpy_loop.induct)
  case (1 m dst src sz)
  show ?case
  proof (cases "sz > 0 \<and> m src \<noteq> 0")
    case False
    with "1.prems" have "m' = m(dst := 0)" "d = dst"
      by (auto simp: strlcpy_loop.simps [of m dst src sz])
    then show ?thesis by auto
  next
    case True
    then have sz: "unat (sz - 1) = unat sz - 1" "0 < unat sz"
      by (auto simp: unat_minus_one unat_gt_0)
    have "strlcpy_loop (m(dst := m src)) (dst + 1) (src + 1) (sz - 1) = (m', d)"
      using True "1.prems" by (simp add: strlcpy_loop.simps [of m dst src sz])
    from "1.IH" [OF True this]
    have le: "unat (d - (dst + 1)) \<le> unat sz - 1" and z: "m' d = 0"
      and rest: "\<And>x. unat sz - 1 < unat (x - (dst + 1)) \<Longrightarrow> m' x = (m(dst := m src)) x"
      unfolding sz by auto
    have dd: "d - dst = (d - (dst + 1)) + 1" by simp
    have "unat (d - (dst + 1)) + unat (1 :: u32) < 4294967296"
      using le sz(2) unat_lt_u32 [of sz] unfolding unat_1 by linarith
    then have "unat (d - dst) = unat (d - (dst + 1)) + 1"
      unfolding dd by (subst unat_add_no_wrap) auto
    moreover have "m' x = m x" if "unat sz < unat (x - dst)" for x
    proof -
      have "unat (x - (dst + 1)) = unat (x - dst) - 1"
        using unat_minus_succ [of "x - dst"] that by (simp add: diff_diff_eq)
      with rest [of x] that sz show ?thesis by (cases "x = dst") auto
    qed
    ultimately show ?thesis using le z sz by auto
  qed
qed

text \<open>For every source, terminated or not, \<open>strlcpy\<close> writes inside the \<open>size\<close> bytes of its
  buffer only, returns a length below \<open>size\<close> and leaves a zero byte at that length.\<close>

theorem strlcpy_bounded:
  assumes "0 < sz"
  shows "snd (strlcpy m dst src sz) < sz \<and>
    fst (strlcpy m dst src sz) (dst + snd (strlcpy m dst src sz)) = 0 \<and>
    (\<forall>x. unat sz \<le> unat (x - dst) \<longrightarrow> fst (strlcpy m dst src sz) x = m x)"
proof -
  obtain m' d where l: "strlcpy_loop m dst src (sz - 1) = (m', d)" by fastforce
  have sz: "unat (sz - 1) = unat sz - 1" "0 < unat sz"
    using assms by (auto simp: unat_minus_one unat_gt_0)
  have "strlcpy m dst src sz = (m', d - dst)"
    using assms l by (simp add: strlcpy_def)
  then show ?thesis
    using strlcpy_loop_bounds [OF l] sz by (auto simp: word_less_nat_alt)
qed

lemma strlcpy_bounded_witness:
  "snd (strlcpy (\<lambda>_. 1) 0x2000 0x1000 4) < 4 \<and>
    fst (strlcpy (\<lambda>_. 1) 0x2000 0x1000 4) (0x2000 + snd (strlcpy (\<lambda>_. 1) 0x2000 0x1000 4)) = 0"
  using strlcpy_bounded [of 4 "\<lambda>_. 1" "0x2000" "0x1000"] by simp

lemma strcmp_correct_witness:
  "\<exists>r. strcmp ((\<lambda>_. 0)(0x1000 := 0x61, 0x2000 := 0x62)) 0x1000 0x2000 = Some r \<and> sint r < 0"
proof -
  let ?m = "(\<lambda>_. 0)(0x1000 := 0x61, 0x2000 := 0x62) :: memory"
  have "cstr ?m 0x1000 [0x61]" "cstr ?m 0x2000 [0x62]" by simp_all
  from strcmp_correct [OF this] show ?thesis by auto
qed

end
