(* ===== verification/Printfmt.thy ===== *)
theory Printfmt
  imports Cstring
begin

text \<open>
  The formatted output of lib/printfmt.c, shared by the kernel and the user programs.  A
  format is a string, without its final zero byte; the arguments of
  the variadic call are a list of typed values, and reading an argument that is missing or
  has another type, which is undefined in C, is \<open>None\<close>.  What \<open>vprintfmt\<close> does is a list of
  events: the calls of \<open>putch\<close> and the assignments to the global colour \<open>csa\<close>.
\<close>

subsection \<open>Arguments and events\<close>

datatype varg =
    Word32 u32
  | Word64 u64
  | Cstr "string option" \<comment> \<open>a \<open>char *\<close>: the string, or \<open>NULL\<close>\<close>

datatype pevent =
    Putch u32
  | Set_csa u32

text \<open>A byte of a format is read as an \<open>unsigned char\<close>.\<close>

definition chr :: "char \<Rightarrow> u32" where
  "chr c = of_char c"

text \<open>A plain \<open>char\<close> is signed on this machine.\<close>

definition schar :: "char \<Rightarrow> u32" where
  "schar c = scast (of_char c :: u8)"

fun error_string :: "u32 \<Rightarrow> string option" where
  "error_string e =
     (if e = 1 then Some ''unspecified error''
      else if e = 2 then Some ''bad environment''
      else if e = 3 then Some ''invalid parameter''
      else if e = 4 then Some ''out of memory''
      else if e = 5 then Some ''out of environments''
      else if e = 6 then Some ''segmentation fault''
      else if e = 7 then Some ''env is not recving''
      else if e = 8 then Some ''unexpected end of file''
      else None)"

declare error_string.simps [simp del]

subsection \<open>Numbers\<close>

definition digit_char :: "u64 \<Rightarrow> u32" where
  "digit_char d = chr (''0123456789abcdef'' ! unat d)"

text \<open>A base below 2 makes the recursion of \<open>printnum\<close> infinite; the callers use 8, 10 and 16.\<close>

partial_function (option) printnum :: "u64 \<Rightarrow> u64 \<Rightarrow> int \<Rightarrow> u32 \<Rightarrow> pevent list option" where
  "printnum num base width padc =
     Option.bind
       (if base \<le> num then printnum (num div base) base (width - 1) padc
        else Some (replicate (nat (width - 1)) (Putch padc))) (\<lambda>evs.
     Some (evs @ [Putch (digit_char (num mod base))]))"

fun getuint :: "varg list \<Rightarrow> nat \<Rightarrow> (u64 \<times> varg list) option" where
  "getuint (Word64 v # ap) lflag = (if lflag \<ge> 2 then Some (v, ap) else None)"
| "getuint (Word32 v # ap) lflag = (if lflag \<ge> 2 then None else Some (ucast v, ap))"
| "getuint ap lflag = None"

fun getint :: "varg list \<Rightarrow> nat \<Rightarrow> (u64 \<times> varg list) option" where
  "getint (Word64 v # ap) lflag = (if lflag \<ge> 2 then Some (v, ap) else None)"
| "getint (Word32 v # ap) lflag = (if lflag \<ge> 2 then None else Some (scast v, ap))"
| "getint ap lflag = None"

subsection \<open>Conversions\<close>

text \<open>The locals of \<open>vprintfmt\<close> that a conversion sets up.\<close>

record conv =
  padc :: u32
  width :: int
  precision :: int
  lflag :: nat
  altflag :: bool

definition conv0 :: conv where
  "conv0 = \<lparr>padc = chr CHR '' '', width = - 1, precision = - 1, lflag = 0, altflag = False\<rparr>"

text \<open>The loop that reads the digits of a width or precision, and \<open>process_precision\<close>.\<close>

fun scan_precision :: "int \<Rightarrow> char \<Rightarrow> string \<Rightarrow> int \<times> string" where
  "scan_precision prec ch [] = (prec * 10 + of_char ch - 48, [])"
| "scan_precision prec ch (c # fmt) =
     (if chr c < 48 \<or> chr c > 57 then (prec * 10 + of_char ch - 48, c # fmt)
      else scan_precision (prec * 10 + of_char ch - 48) c fmt)"

lemma scan_precision_length:
  "scan_precision prec ch fmt = (p, fmt') \<Longrightarrow> length fmt' \<le> length fmt"
  by (induction prec ch fmt rule: scan_precision.induct) (auto split: if_splits)

definition process_precision :: "conv \<Rightarrow> conv" where
  "process_precision st =
     (if width st < 0 then st\<lparr>width := precision st, precision := - 1\<rparr> else st)"

text \<open>The string conversion: padding on the left, the characters, padding on the right.\<close>

definition conv_string :: "conv \<Rightarrow> string \<Rightarrow> pevent list" where
  "conv_string st s =
     (let left = width st > 0 \<and> padc st \<noteq> chr CHR ''-'';
          shown = (if precision st < 0 then s else take (nat (precision st)) s);
          len = min (length s) (if precision st < 0 then 4294967295 else nat (precision st));
          w1 = (if left then width st - int len else width st);
          w2 = (if left then min w1 0 else w1) - int (length shown);
          show_char = (\<lambda>c. if altflag st \<and> (sint (schar c) < 32 \<or> sint (schar c) > 126)
                  then chr CHR ''?'' else schar c)
      in replicate (if left then nat w1 else 0) (Putch (padc st))
         @ map (\<lambda>c. Putch (show_char c)) shown
         @ replicate (nat w2) (Putch (chr CHR '' '')))"

definition conv_number :: "conv \<Rightarrow> u64 \<Rightarrow> u64 \<Rightarrow> pevent list option" where
  "conv_number st num base = printnum num base (width st) (padc st)"

definition conv_signed :: "conv \<Rightarrow> u64 \<Rightarrow> pevent list option" where
  "conv_signed st num =
     (if sint num < 0
      then map_option (Cons (Putch (chr CHR ''-''))) (conv_number st (- num) 10)
      else conv_number st num 10)"

text \<open>The error conversion calls \<open>printfmt\<close>, the parameter \<open>rec\<close>.\<close>

definition conv_error ::
  "(string \<Rightarrow> varg list \<Rightarrow> pevent list option) \<Rightarrow> u32 \<Rightarrow> pevent list option" where
  "conv_error rec e0 =
     (let err = (if sint e0 < 0 then - e0 else e0)
      in if sint err < 0 then None \<comment> \<open>an index below the array\<close>
         else case (if err \<ge> 9 then None else error_string err) of
           None \<Rightarrow> rec (''error %d'') [Word32 err]
         | Some p \<Rightarrow> rec (''%s'') [Cstr (Some p)])"

text \<open>
  The last character of a conversion: the events, the rest of the format and the rest of the
  arguments.  \<open>start\<close> is the place just after the percent sign, where an unrecognized
  conversion resumes.
\<close>

definition convert ::
  "(string \<Rightarrow> varg list \<Rightarrow> pevent list option) \<Rightarrow> string \<Rightarrow> conv \<Rightarrow> char \<Rightarrow> string \<Rightarrow> varg list \<Rightarrow>
     (pevent list \<times> string \<times> varg list) option" where
  "convert rec start st ch fmt ap =
     (if ch = CHR ''c'' then
        (case ap of Word32 v # ap' \<Rightarrow> Some ([Putch v], fmt, ap') | _ \<Rightarrow> None)
      else if ch = CHR ''e'' then
        (case ap of Word32 v # ap' \<Rightarrow> map_option (\<lambda>evs. (evs, fmt, ap')) (conv_error rec v)
         | _ \<Rightarrow> None)
      else if ch = CHR ''s'' then
        (case ap of
           Cstr p # ap' \<Rightarrow>
             Some (conv_string st (case p of None \<Rightarrow> ''(null)'' | Some s \<Rightarrow> s), fmt, ap')
         | _ \<Rightarrow> None)
      else if ch = CHR ''d'' then
        Option.bind (getint ap (lflag st)) (\<lambda>(num, ap').
        map_option (\<lambda>evs. (evs, fmt, ap')) (conv_signed st num))
      else if ch = CHR ''u'' then
        Option.bind (getuint ap (lflag st)) (\<lambda>(num, ap').
        map_option (\<lambda>evs. (evs, fmt, ap')) (conv_number st num 10))
      else if ch = CHR ''o'' then
        Option.bind (getuint ap (lflag st)) (\<lambda>(num, ap').
        map_option (\<lambda>evs. (evs, fmt, ap')) (conv_number st num 8))
      else if ch = CHR ''p'' then
        (case ap of
           Word32 v # ap' \<Rightarrow>
             map_option (\<lambda>evs. (Putch (chr CHR ''0'') # Putch (chr CHR ''x'') # evs, fmt, ap'))
               (conv_number st (ucast v) 16)
         | _ \<Rightarrow> None)
      else if ch = CHR ''x'' then
        Option.bind (getuint ap (lflag st)) (\<lambda>(num, ap').
        map_option (\<lambda>evs. (evs, fmt, ap')) (conv_number st num 16))
      else if ch = CHR ''%'' then Some ([Putch (chr ch)], fmt, ap)
      else if ch = CHR ''m'' then
        Option.bind (getint ap (lflag st)) (\<lambda>(num, ap').
        Some ([Set_csa (ucast num)], fmt, ap'))
      else Some ([Putch (chr CHR ''%'')], start, ap))"

text \<open>The \<open>switch\<close> of \<open>vprintfmt\<close>: flags, width and precision, then the conversion.  At the
  end of the format the character read is the zero byte.\<close>

function reswitch ::
  "(string \<Rightarrow> varg list \<Rightarrow> pevent list option) \<Rightarrow> string \<Rightarrow> conv \<Rightarrow> string \<Rightarrow> varg list \<Rightarrow>
     (pevent list \<times> string \<times> varg list) option" where
  "reswitch rec start st [] ap = convert rec start st (CHR 0x00) [] ap"
| "reswitch rec start st (ch # fmt) ap =
     (if ch = CHR ''-'' then reswitch rec start (st\<lparr>padc := chr CHR ''-''\<rparr>) fmt ap
      else if ch = CHR ''0'' then reswitch rec start (st\<lparr>padc := chr CHR ''0''\<rparr>) fmt ap
      else if 49 \<le> chr ch \<and> chr ch \<le> 57 then
        (case scan_precision 0 ch fmt of (prec, fmt') \<Rightarrow>
         reswitch rec start (process_precision (st\<lparr>precision := prec\<rparr>)) fmt' ap)
      else if ch = CHR ''*'' then
        (case ap of Word32 v # ap' \<Rightarrow> reswitch rec start (process_precision (st\<lparr>precision := sint v\<rparr>)) fmt ap'
         | _ \<Rightarrow> None)
      else if ch = CHR ''.'' then
        reswitch rec start (if width st < 0 then st\<lparr>width := 0\<rparr> else st) fmt ap
      else if ch = CHR ''#'' then reswitch rec start (st\<lparr>altflag := True\<rparr>) fmt ap
      else if ch = CHR ''l'' then reswitch rec start (st\<lparr>lflag := lflag st + 1\<rparr>) fmt ap
      else convert rec start st ch fmt ap)"
  by pat_completeness auto
termination
  by (relation "measure (\<lambda>(rec, start, st, fmt, ap). length fmt)")
    (auto dest: scan_precision_length [OF sym])

declare reswitch.simps [simp del]

lemma convert_length:
  assumes "convert rec start st ch fmt ap = Some (evs, fmt', ap')" and "length fmt \<le> length start"
  shows "length fmt' \<le> length start"
  using assms unfolding convert_def
  by (simp add: bind_eq_Some_conv split: if_splits list.splits varg.splits) fastforce+

lemma reswitch_length:
  assumes "reswitch rec start st fmt ap = Some (evs, fmt', ap')" and "length fmt \<le> length start"
  shows "length fmt' \<le> length start"
  using assms
proof (induction rec start st fmt ap rule: reswitch.induct)
  case (1 rec start st ap)
  then show ?case by (simp add: reswitch.simps convert_length)
next
  case (2 rec start st ch fmt ap)
  obtain prec fmt'' where sc: "scan_precision 0 ch fmt = (prec, fmt'')" by fastforce
  have le: "length fmt'' \<le> length start" "length fmt \<le> length start"
    using scan_precision_length [OF sc] "2.prems"(2) by simp_all
  note ih = "2.IH"
  show ?case
    using "2.prems"(1) ih le sc convert_length [of rec start st ch fmt ap]
    unfolding reswitch.simps(2)
    by (simp split: if_splits list.splits varg.splits)
qed

text \<open>The main loop; it ends at the end of the format, resetting the colour.\<close>

function vprintfmt_loop ::
  "(string \<Rightarrow> varg list \<Rightarrow> pevent list option) \<Rightarrow> string \<Rightarrow> varg list \<Rightarrow> pevent list option" where
  "vprintfmt_loop rec [] ap = Some [Set_csa 0x0700]"
| "vprintfmt_loop rec (ch # fmt) ap =
     (if ch = CHR ''%'' then
        (case reswitch rec fmt conv0 fmt ap of
           None \<Rightarrow> None
         | Some (evs, fmt', ap') \<Rightarrow> map_option ((@) evs) (vprintfmt_loop rec fmt' ap'))
      else map_option (Cons (Putch (chr ch))) (vprintfmt_loop rec fmt ap))"
  by pat_completeness auto
termination
  by (relation "measure (\<lambda>(rec, fmt, ap). length fmt)") (auto dest: reswitch_length)

text \<open>The formats of the nested \<open>printfmt\<close> have no error conversion, so it does not nest again.\<close>

definition printfmt :: "string \<Rightarrow> varg list \<Rightarrow> pevent list option" where
  "printfmt = vprintfmt_loop (\<lambda>_ _. None)"

definition vprintfmt :: "string \<Rightarrow> varg list \<Rightarrow> pevent list option" where
  "vprintfmt fmt ap = vprintfmt_loop printfmt fmt ap"

subsection \<open>Printing to a buffer\<close>

record sprintbuf =
  buf :: u32
  ebuf :: u32
  cnt :: u32

text \<open>The state of a print to a buffer: memory, the buffer and the colour.\<close>

definition sprintputch :: "u32 \<Rightarrow> memory \<times> sprintbuf \<Rightarrow> memory \<times> sprintbuf" where
  "sprintputch ch = (\<lambda>(m, b).
     let b1 = b\<lparr>cnt := cnt b + 1\<rparr>
     in if buf b1 < ebuf b1 then (m(buf b1 := ucast ch), b1\<lparr>buf := buf b1 + 1\<rparr>) else (m, b1))"

primrec sprint_event :: "pevent \<Rightarrow> (memory \<times> sprintbuf) \<times> u32 \<Rightarrow> (memory \<times> sprintbuf) \<times> u32" where
  "sprint_event (Putch ch) st = (sprintputch ch (fst st), snd st)"
| "sprint_event (Set_csa v) st = (fst st, v)"

text \<open>\<open>vsnprintf\<close> returns the memory, the colour and its result.\<close>

definition vsnprintf ::
  "memory \<Rightarrow> u32 \<Rightarrow> u32 \<Rightarrow> u32 \<Rightarrow> string \<Rightarrow> varg list \<Rightarrow> (memory \<times> u32 \<times> u32) option" where
  "vsnprintf m csa p n fmt ap =
     (if p = 0 \<or> sint n < 1 then Some (m, csa, - 3)
      else map_option (\<lambda>evs.
        let ((m', b), csa') = fold sprint_event evs ((m, \<lparr>buf = p, ebuf = p + n - 1, cnt = 0\<rparr>), csa)
        in (m'(buf b := 0), csa', cnt b)) (vprintfmt fmt ap))"

definition snprintf ::
  "memory \<Rightarrow> u32 \<Rightarrow> u32 \<Rightarrow> u32 \<Rightarrow> string \<Rightarrow> varg list \<Rightarrow> (memory \<times> u32 \<times> u32) option" where
  "snprintf m csa p n fmt ap = vsnprintf m csa p n fmt ap"

subsection \<open>Digits\<close>

text \<open>The digits of a number, the most significant first.\<close>

function digits :: "nat \<Rightarrow> nat \<Rightarrow> nat list" where
  "digits b n = (if n < b \<or> b < 2 then [n] else digits b (n div b) @ [n mod b])"
  by pat_completeness auto
termination by (relation "measure snd") auto

declare digits.simps [simp del]

definition hex_char :: "nat \<Rightarrow> char" where
  "hex_char d = ''0123456789abcdef'' ! d"

lemma digits_less: "2 \<le> b \<Longrightarrow> d \<in> set (digits b n) \<Longrightarrow> d < b"
proof (induction b n rule: digits.induct)
  case (1 b n)
  then show ?case by (subst (asm) (2) digits.simps) (auto split: if_splits)
qed

lemma digits_value: "2 \<le> b \<Longrightarrow> foldl (\<lambda>v d. v * b + d) 0 (digits b n) = n"
proof (induction b n rule: digits.induct)
  case (1 b n)
  show ?case
  proof (cases "n < b")
    case True
    then show ?thesis by (simp add: digits.simps [of b n])
  next
    case False
    with 1 show ?thesis by (simp add: digits.simps [of b n])
  qed
qed

lemma length_digits_pos: "0 < length (digits b n)"
  by (subst digits.simps) auto

lemma printnum_digits:
  fixes base num :: u64
  assumes "2 \<le> unat base"
  shows "printnum num base w pc =
    Some (replicate (nat (w - int (length (digits (unat base) (unat num))))) (Putch pc)
      @ map (\<lambda>d. Putch (digit_char (of_nat d))) (digits (unat base) (unat num)))"
proof (induction "unat num" arbitrary: num w rule: less_induct)
  case less
  show ?case
  proof (cases "base \<le> num")
    case False
    then have "unat num < unat base" by (simp add: word_less_nat_alt not_le)
    moreover from this have "num mod base = num"
      by (simp add: word_unat_eq_iff unat_mod)
    ultimately show ?thesis using False
      by (simp add: printnum.simps [of num] digits.simps [of "unat base"])
  next
    case True
    then have le: "unat base \<le> unat num" by (simp add: word_le_nat_alt)
    have dv: "unat (num div base) = unat num div unat base" by (rule unat_div)
    have "unat num div unat base < unat num" using le assms by (intro div_less_dividend) auto
    then have ih: "printnum (num div base) base (w - 1) pc =
        Some (replicate (nat (w - 1 - int (length (digits (unat base) (unat num div unat base))))) (Putch pc)
          @ map (\<lambda>d. Putch (digit_char (of_nat d))) (digits (unat base) (unat num div unat base)))"
      using less [of "num div base" "w - 1"] by (simp add: dv)
    have md: "(of_nat (unat num mod unat base) :: u64) = num mod base"
      by (simp flip: unat_mod)
    show ?thesis
      using True le assms ih md
      by (simp add: printnum.simps [of num] digits.simps [of "unat base" "unat num"] algebra_simps)
  qed
qed

text \<open>The text of a number without padding.\<close>

definition number_text :: "nat \<Rightarrow> nat \<Rightarrow> string" where
  "number_text b n = map hex_char (digits b n)"

lemma digit_char_hex: "d < 16 \<Longrightarrow> digit_char (of_nat d) = chr (hex_char d)"
  by (simp add: digit_char_def hex_char_def unsigned_of_nat take_bit_eq_mod)

lemma nat_less_16:
  fixes d :: nat
  assumes "d < 16"
  obtains "d = 0" | "d = 1" | "d = 2" | "d = 3" | "d = 4" | "d = 5" | "d = 6" | "d = 7"
    | "d = 8" | "d = 9" | "d = 10" | "d = 11" | "d = 12" | "d = 13" | "d = 14" | "d = 15"
  using assms that by (auto simp: numeral_eq_Suc less_Suc_eq)

lemma digit_value_hex: "d < 16 \<Longrightarrow> digit_value (of_char (hex_char d)) = Some (of_nat d)"
  by (erule nat_less_16) (simp_all add: digit_value_def hex_char_def)

lemma strtol_loop_digits:
  assumes "cstr m p (map (\<lambda>d. of_char (hex_char d)) ds)" "\<And>d. d \<in> set ds \<Longrightarrow> d < b" "b \<le> 16"
  shows "strtol_loop m p (of_nat b) v =
    Some (foldl (\<lambda>v d. v * of_nat b + of_nat d) v ds, p + of_nat (length ds))"
  using assms
proof (induction ds arbitrary: p v)
  case Nil
  then show ?case by (simp add: strtol_loop.simps [of m p] digit_value_def)
next
  case (Cons d ds)
  then have "d < b" by auto
  then have d: "d < b" "d < 16" using Cons.prems(3) by auto
  have "sint (of_nat d :: u32) = int d" "sint (of_nat b :: u32) = int b"
    using d Cons.prems(3) sint_word_of_int [of "int d"] sint_word_of_int [of "int b"] by simp_all
  with d have less: "\<not> sint (of_nat b :: u32) \<le> sint (of_nat d :: u32)" by simp
  have "strtol_loop m (p + 1) (of_nat b) (v * of_nat b + of_nat d) =
      Some (foldl (\<lambda>v d. v * of_nat b + of_nat d) (v * of_nat b + of_nat d) ds, p + 1 + of_nat (length ds))"
    using Cons.prems by (intro Cons.IH) auto
  with Cons.prems(1) d(2) less show ?case
    by (simp add: strtol_loop.simps [of m p] digit_value_hex add_ac)
qed

lemma foldl_of_nat:
  "foldl (\<lambda>v d. v * of_nat b + of_nat d) (of_nat v) ds =
    (of_nat (foldl (\<lambda>v d. v * b + d) v ds) :: u32)"
proof (induction ds arbitrary: v)
  case (Cons d ds)
  show ?case using Cons [of "v * b + d"] by simp
qed simp

lemma hex_char_first:
  "d < 16 \<Longrightarrow> of_char (hex_char d) \<noteq> (0x20 :: u8) \<and> of_char (hex_char d) \<noteq> (0x09 :: u8) \<and>
     of_char (hex_char d) \<noteq> (0x2B :: u8) \<and> of_char (hex_char d) \<noteq> (0x2D :: u8) \<and>
     of_char (hex_char d) \<noteq> (0x78 :: u8)"
  by (erule nat_less_16) (simp_all add: hex_char_def)

text \<open>C37. Round trip: \<open>printnum\<close> in a base from 2 to 16, without padding, prints a text that
  \<open>strtol\<close> reads back, up to its last character, as the same number (modulo \<open>2^32\<close>).\<close>

theorem strtol_printnum:
  fixes num :: u64
  assumes "2 \<le> b" and "b \<le> 16" and "w \<le> 0"
  shows "\<exists>s. printnum num (of_nat b) w pc = Some (map (\<lambda>c. Putch (chr c)) s) \<and>
    (\<forall>m p. cstr m p (map of_char s) \<longrightarrow>
       strtol m p (of_nat b) = Some (ucast num, p + of_nat (length s)))"
proof (intro exI conjI allI impI)
  let ?ds = "digits b (unat num)"
  have ub: "unat (of_nat b :: u64) = b" using assms by (simp add: unsigned_of_nat take_bit_eq_mod)
  have small: "d < b" "d < 16" if "d \<in> set ?ds" for d
    using digits_less [OF assms(1) that] assms(2) by auto
  have "printnum num (of_nat b) w pc =
      Some (map (\<lambda>d. Putch (digit_char (of_nat d))) ?ds)"
    using printnum_digits [of "of_nat b" num w pc] assms ub length_digits_pos [of b "unat num"]
    by simp
  also have "map (\<lambda>d. Putch (digit_char (of_nat d))) ?ds =
      map (\<lambda>c. Putch (chr c)) (number_text b (unat num))"
    using small by (simp add: number_text_def digit_char_hex)
  finally show "printnum num (of_nat b) w pc =
      Some (map (\<lambda>c. Putch (chr c)) (number_text b (unat num)))" .
  fix m p assume c: "cstr m p (map of_char (number_text b (unat num)))"
  obtain d ds where ds: "?ds = d # ds" using length_digits_pos [of b "unat num"] by (cases ?ds) auto
  have first: "m p = of_char (hex_char d)" using c ds by (simp add: number_text_def)
  have d: "d < 16" using small(2) [of d] ds by simp
  have skip: "skip_blanks m p = Some p"
    using hex_char_first [OF d] first by (simp add: skip_blanks.simps)
  have second: "m (p + 1) \<noteq> 0x78"
    using c ds small(2) hex_char_first by (cases ds) (auto simp: number_text_def)
  have b0: "(of_nat b :: u32) \<noteq> 0" using assms by (simp add: word_unat_eq_iff unat_of_nat_u32)
  have "strtol_loop m p (of_nat b) 0 =
      Some (foldl (\<lambda>v d. v * of_nat b + of_nat d) 0 ?ds, p + of_nat (length ?ds))"
    using c small(1) assms(2) by (intro strtol_loop_digits) (simp_all add: number_text_def comp_def)
  moreover have "foldl (\<lambda>v d. v * of_nat b + of_nat d) 0 ?ds = (ucast num :: u32)"
    using foldl_of_nat [of b 0 ?ds] digits_value [OF assms(1), of "unat num"] by simp
  ultimately show "strtol m p (of_nat b) =
      Some (ucast num, p + of_nat (length (number_text b (unat num))))"
    using hex_char_first [OF d] first second b0 skip
    by (simp add: strtol_def number_text_def)
qed

lemma strtol_printnum_witness:
  "\<exists>s. printnum 1234 16 0 0x20 = Some (map (\<lambda>c. Putch (chr c)) s) \<and>
    (\<forall>m p. cstr m p (map of_char s) \<longrightarrow> strtol m p 16 = Some (1234, p + of_nat (length s)))"
  using strtol_printnum [of 16 0 1234 "0x20"] by simp

subsection \<open>Formats\<close>

text \<open>A text without a percent sign is printed as it is.\<close>

theorem vprintfmt_literal:
  assumes "CHR ''%'' \<notin> set s"
  shows "vprintfmt s ap = Some (map (\<lambda>c. Putch (chr c)) s @ [Set_csa 0x0700])"
proof -
  have "vprintfmt_loop rec s ap = Some (map (\<lambda>c. Putch (chr c)) s @ [Set_csa 0x0700])" for rec
    using assms by (induction s) auto
  then show ?thesis by (simp add: vprintfmt_def)
qed

text \<open>What a conversion in front of the rest of a format does.\<close>

lemma vprintfmt_loop_convert:
  assumes "reswitch rec fmt conv0 fmt ap = Some (evs, fmt', ap')"
  shows "vprintfmt_loop rec (CHR ''%'' # fmt) ap = map_option ((@) evs) (vprintfmt_loop rec fmt' ap')"
  using assms by simp

lemma sprint_events:
  assumes "fold sprint_event evs ((m, \<lparr>buf = p, ebuf = e, cnt = k\<rparr>), col) = ((m', b), col')" and "p \<le> e"
  shows "p \<le> buf b \<and> buf b \<le> e \<and> ebuf b = e \<and>
    cnt b = k + of_nat (length (filter (\<lambda>ev. \<exists>c. ev = Putch c) evs)) \<and>
    (\<forall>x. x < p \<or> e \<le> x \<longrightarrow> m' x = m x)"
  using assms
proof (induction evs arbitrary: m p k col)
  case Nil
  then show ?case by auto
next
  case (Cons ev evs)
  show ?case
  proof (cases ev)
    case (Putch c)
    show ?thesis
    proof (cases "p < e")
      case True
      then have p1: "p + 1 \<le> e" "p \<le> p + 1" "unat (p + 1) = unat p + 1"
      proof -
        have "unat p < unat e" using True by (simp add: word_less_nat_alt)
        moreover from this have "unat p + unat (1 :: u32) < 4294967296"
          using unat_lt_u32 [of e] unfolding unat_1 by linarith
        then show "unat (p + 1) = unat p + 1" by (subst unat_add_no_wrap) simp_all
        ultimately show "p + 1 \<le> e" "p \<le> p + 1" by (simp_all add: word_le_nat_alt)
      qed
      have "fold sprint_event evs ((m(p := ucast c), \<lparr>buf = p + 1, ebuf = e, cnt = k + 1\<rparr>), col) =
          ((m', b), col')"
        using Cons.prems(1) Putch True by (simp add: sprintputch_def Let_def)
      from Cons.IH [OF this p1(1)] p1 Putch True show ?thesis
        by (auto simp: word_le_nat_alt word_less_nat_alt)
    next
      case False
      then have "fold sprint_event evs ((m, \<lparr>buf = p, ebuf = e, cnt = k + 1\<rparr>), col) = ((m', b), col')"
        using Cons.prems(1) Putch by (simp add: sprintputch_def Let_def)
      from Cons.IH [OF this Cons.prems(2)] Putch show ?thesis by auto
    qed
  next
    case (Set_csa v)
    then have "fold sprint_event evs ((m, \<lparr>buf = p, ebuf = e, cnt = k\<rparr>), v) = ((m', b), col')"
      using Cons.prems(1) by simp
    from Cons.IH [OF this Cons.prems(2)] Set_csa show ?thesis by auto
  qed
qed

text \<open>C38. \<open>vsnprintf\<close> into a buffer of \<open>n\<close> bytes writes inside the buffer only, whatever the format
  and its arguments, puts a zero byte inside the buffer, and returns the number of characters
  the whole text has, not the number it stored.\<close>

theorem vsnprintf_bounded:
  assumes "vprintfmt fmt ap = Some evs" and "p \<noteq> 0" and "0 < sint n"
    and "unat p + unat n \<le> 4294967296"
  shows "\<exists>m' col'. vsnprintf m col p n fmt ap =
      Some (m', col', of_nat (length (filter (\<lambda>ev. \<exists>c. ev = Putch c) evs))) \<and>
    (\<forall>x. x < p \<or> p + (n - 1) < x \<longrightarrow> m' x = m x) \<and>
    (\<exists>x. p \<le> x \<and> x \<le> p + (n - 1) \<and> m' x = 0)"
proof -
  obtain m' b col' where f: "fold sprint_event evs ((m, \<lparr>buf = p, ebuf = p + n - 1, cnt = 0\<rparr>), col) =
      ((m', b), col')" by (metis prod.exhaust)
  have n0: "0 < unat n" using assms(3) by (metis gr0I not_less_iff_gr_or_eq signed_0 unat_eq_0)
  then have n1: "unat (n - 1) = unat n - 1" by (intro unat_minus_one) auto
  then have e: "unat (p + (n - 1)) = unat p + (unat n - 1)"
    using assms(4) n0 by (subst unat_add_no_wrap) auto
  then have pe: "p \<le> p + n - 1" by (simp add: word_le_nat_alt add_diff_eq)
  from sprint_events [OF f pe]
  have b: "p \<le> buf b" "buf b \<le> p + (n - 1)"
      "cnt b = of_nat (length (filter (\<lambda>ev. \<exists>c. ev = Putch c) evs))"
    and out: "\<And>x. x < p \<or> p + (n - 1) \<le> x \<Longrightarrow> m' x = m x"
    by (auto simp: add_diff_eq)
  show ?thesis
  proof (intro exI conjI)
    show "vsnprintf m col p n fmt ap = Some (m'(buf b := 0), col',
        of_nat (length (filter (\<lambda>ev. \<exists>c. ev = Putch c) evs)))"
      using assms(1-3) f b(3) by (simp add: vsnprintf_def)
    show "\<forall>x. x < p \<or> p + (n - 1) < x \<longrightarrow> (m'(buf b := 0)) x = m x"
      using b out less_imp_le by auto
    show "p \<le> buf b" "buf b \<le> p + (n - 1)" "(m'(buf b := 0)) (buf b) = 0"
      using b by simp_all
  qed
qed

lemma vsnprintf_bounded_witness:
  "\<exists>m' col'. vsnprintf (\<lambda>_. 7) 0 0x1000 3 ''hello'' [] = Some (m', col', 5) \<and>
    (\<exists>x. 0x1000 \<le> x \<and> x \<le> 0x1002 \<and> m' x = 0)"
proof -
  have "vprintfmt ''hello'' [] = Some (map (\<lambda>c. Putch (chr c)) ''hello'' @ [Set_csa 0x0700])"
    by (simp add: vprintfmt_def)
  from vsnprintf_bounded [OF this, of "0x1000" 3 "\<lambda>_. 7" 0] show ?thesis by auto
qed

end
