(* ===== verification/Devices.thy ===== *)
theory Devices
  imports Printfmt
begin

text \<open>
  The devices the kernel drives through I/O ports: the clock chip (kern/kclock.c), the output
  half of the console (kern/console.c), the kernel's \<open>cprintf\<close> (kern/printf.c) and the
  interrupt controllers (kern/picirq.c).  What a port answers is outside the program: it is
  the function \<open>ports\<close> of the number of the access and the port.  What is written to the
  ports is kept in \<open>port_log\<close>, the latest first.
\<close>

record console =
  ports :: "nat \<Rightarrow> u16 \<Rightarrow> u8"
  io_time :: nat
  port_log :: "(u16 \<times> u8) list"
  csa :: u32
  serial_exists :: bool
  addr_6845 :: u32
  crt_buf :: u32
  crt_pos :: u16
  video :: "u32 \<Rightarrow> u16"
  irq_mask_8259A :: u16
  didinit :: bool
  kbd_shift :: u32
  cons_buf :: "u32 \<Rightarrow> u8"
  cons_rpos :: u32
  cons_wpos :: u32
  line_buf :: "nat \<Rightarrow> u8"

subsection \<open>Port instructions (inc/x86.h)\<close>

definition inb :: "u16 \<Rightarrow> console \<Rightarrow> u8 \<times> console" where
  "inb port c = (ports c (io_time c) port, c\<lparr>io_time := io_time c + 1\<rparr>)"

definition outb :: "u16 \<Rightarrow> u8 \<Rightarrow> console \<Rightarrow> console" where
  "outb port v c = c\<lparr>port_log := (port, v) # port_log c\<rparr>"

subsection \<open>The clock chip (kern/kclock.c)\<close>

abbreviation (input) IO_RTC :: u16 where "IO_RTC \<equiv> 0x70"

definition mc146818_read :: "u32 \<Rightarrow> console \<Rightarrow> u32 \<times> console" where
  "mc146818_read r c = (let (v, c') = inb (IO_RTC + 1) (outb IO_RTC (ucast r) c) in (ucast v, c'))"

definition mc146818_write :: "u32 \<Rightarrow> u32 \<Rightarrow> console \<Rightarrow> console" where
  "mc146818_write r datum c = outb (IO_RTC + 1) (ucast datum) (outb IO_RTC (ucast r) c)"

subsection \<open>Serial and parallel output (kern/console.c)\<close>

definition delay :: "console \<Rightarrow> console" where
  "delay c = snd (inb 0x84 (snd (inb 0x84 (snd (inb 0x84 (snd (inb 0x84 c)))))))"

abbreviation (input) COM1 :: u16 where "COM1 \<equiv> 0x3F8"
abbreviation (input) COM_RX :: u16 where "COM_RX \<equiv> 0"
abbreviation (input) COM_TX :: u16 where "COM_TX \<equiv> 0"
abbreviation (input) COM_DLL :: u16 where "COM_DLL \<equiv> 0"
abbreviation (input) COM_DLM :: u16 where "COM_DLM \<equiv> 1"
abbreviation (input) COM_IER :: u16 where "COM_IER \<equiv> 1"
abbreviation (input) COM_IER_RDI :: u8 where "COM_IER_RDI \<equiv> 0x01"
abbreviation (input) COM_IIR :: u16 where "COM_IIR \<equiv> 2"
abbreviation (input) COM_FCR :: u16 where "COM_FCR \<equiv> 2"
abbreviation (input) COM_LCR :: u16 where "COM_LCR \<equiv> 3"
abbreviation (input) COM_LCR_DLAB :: u8 where "COM_LCR_DLAB \<equiv> 0x80"
abbreviation (input) COM_LCR_WLEN8 :: u8 where "COM_LCR_WLEN8 \<equiv> 0x03"
abbreviation (input) COM_MCR :: u16 where "COM_MCR \<equiv> 4"
abbreviation (input) COM_LSR :: u16 where "COM_LSR \<equiv> 5"
abbreviation (input) COM_LSR_DATA :: u8 where "COM_LSR_DATA \<equiv> 0x01"
abbreviation (input) COM_LSR_TXRDY :: u8 where "COM_LSR_TXRDY \<equiv> 0x20"

text \<open>The bounded wait of both output routines: until \<open>ready\<close> holds of the status port or
  12800 rounds have passed.  The status is read once more after the last round.\<close>

primrec wait_ready :: "nat \<Rightarrow> u16 \<Rightarrow> u8 \<Rightarrow> console \<Rightarrow> console" where
  "wait_ready 0 port ready c = snd (inb port c)"
| "wait_ready (Suc n) port ready c =
     (let (v, c1) = inb port c
      in if v AND ready \<noteq> 0 then c1 else wait_ready n port ready (delay c1))"

definition serial_putc :: "u32 \<Rightarrow> console \<Rightarrow> console" where
  "serial_putc ch c =
     outb (COM1 + COM_TX) (ucast ch) (wait_ready 12800 (COM1 + COM_LSR) COM_LSR_TXRDY c)"

definition lpt_putc :: "u32 \<Rightarrow> console \<Rightarrow> console" where
  "lpt_putc ch c =
     outb (0x378 + 2) 0x08 (outb (0x378 + 2) (0x08 OR 0x04 OR 0x01)
       (outb (0x378 + 0) (ucast ch) (wait_ready 12800 (0x378 + 1) 0x80 c)))"

definition serial_init :: "console \<Rightarrow> console" where
  "serial_init c =
     (let c = outb (COM1 + COM_FCR) 0 c;
          c = outb (COM1 + COM_LCR) COM_LCR_DLAB c;
          c = outb (COM1 + COM_DLL) (115200 div 9600) c;
          c = outb (COM1 + COM_DLM) 0 c;
          c = outb (COM1 + COM_LCR) (COM_LCR_WLEN8 AND NOT COM_LCR_DLAB) c;
          c = outb (COM1 + COM_MCR) 0 c;
          c = outb (COM1 + COM_IER) COM_IER_RDI c;
          (lsr, c) = inb (COM1 + COM_LSR) c;
          c = c\<lparr>serial_exists := lsr \<noteq> 0xFF\<rparr>;
          c = snd (inb (COM1 + COM_IIR) c)
      in snd (inb (COM1 + COM_RX) c))"

subsection \<open>The text display (kern/console.c)\<close>

abbreviation (input) MONO_BASE :: u32 where "MONO_BASE \<equiv> 0x3B4"
abbreviation (input) MONO_BUF :: u32 where "MONO_BUF \<equiv> 0xB0000"
abbreviation (input) CGA_BASE :: u32 where "CGA_BASE \<equiv> 0x3D4"
abbreviation (input) CGA_BUF :: u32 where "CGA_BUF \<equiv> 0xB8000"
abbreviation (input) CRT_ROWS :: nat where "CRT_ROWS \<equiv> 25"
abbreviation (input) CRT_COLS :: nat where "CRT_COLS \<equiv> 80"
abbreviation (input) CRT_SIZE :: nat where "CRT_SIZE \<equiv> 2000"

text \<open>The cell \<open>crt_buf[i]\<close> of the video memory.\<close>

definition crt_cell :: "console \<Rightarrow> nat \<Rightarrow> u16" where
  "crt_cell c i = video c (crt_buf c + 2 * of_nat i)"

definition set_cell :: "nat \<Rightarrow> u16 \<Rightarrow> console \<Rightarrow> console" where
  "set_cell i v c = c\<lparr>video := (video c)(crt_buf c + 2 * of_nat i := v)\<rparr>"

text \<open>\<open>probe\<close> is what the adapter answers when \<open>0xA55A\<close> written at \<open>CGA_BUF\<close> is read back; the
  physical addresses are mapped at 0xF0000000.\<close>

definition cga_init :: "u16 \<Rightarrow> console \<Rightarrow> console" where
  "cga_init probe c =
     (let cga = 0xF0000000 + CGA_BUF;
          was = video c cga;
          c = c\<lparr>video := (video c)(cga := 0xA55A)\<rparr>;
          (cp, c) = (if probe \<noteq> 0xA55A
             then (0xF0000000 + MONO_BUF, c\<lparr>addr_6845 := MONO_BASE\<rparr>)
             else (cga, c\<lparr>video := (video c)(cga := was), addr_6845 := CGA_BASE\<rparr>));
          port = ucast (addr_6845 c);
          c = outb port 14 c;
          (hi, c) = inb (port + 1) c;
          c = outb port 15 c;
          (lo, c) = inb (port + 1) c
      in c\<lparr>crt_buf := cp, crt_pos := push_bit 8 (ucast hi) OR ucast lo\<rparr>)"

text \<open>\<open>memmove\<close> of the rows 1 to 24 to the rows 0 to 23, and the blanking of row 24.\<close>

definition scroll_up :: "console \<Rightarrow> console" where
  "scroll_up c =
     fold (\<lambda>i. set_cell i (0x0700 OR 0x20)) [CRT_SIZE - CRT_COLS..<CRT_SIZE]
       (fold (\<lambda>i d. set_cell i (crt_cell c (i + CRT_COLS)) d) [0..<CRT_SIZE - CRT_COLS] c)"

text \<open>\<open>cga_putc\<close> calls \<open>cons_putc\<close>, here the parameter \<open>rec\<close>, to print blanks for a tab.\<close>

definition cga_char :: "(u32 \<Rightarrow> console \<Rightarrow> console) \<Rightarrow> u32 \<Rightarrow> console \<Rightarrow> console" where
  "cga_char rec ch c =
     (let key = ch AND 0xff
      in if key = 8 then
           (if crt_pos c > 0 then
              let c = c\<lparr>crt_pos := crt_pos c - 1\<rparr>
              in set_cell (unat (crt_pos c)) (ucast (ch AND NOT 0xff OR 0x20)) c
            else c)
         else if key = 10 then
           (let p = crt_pos c + of_nat CRT_COLS in c\<lparr>crt_pos := p - p mod of_nat CRT_COLS\<rparr>)
         else if key = 13 then c\<lparr>crt_pos := crt_pos c - crt_pos c mod of_nat CRT_COLS\<rparr>
         else if key = 9 then rec 0x20 (rec 0x20 (rec 0x20 (rec 0x20 (rec 0x20 c))))
         else set_cell (unat (crt_pos c)) (ucast ch) (c\<lparr>crt_pos := crt_pos c + 1\<rparr>))"

definition cga_scroll :: "console \<Rightarrow> console" where
  "cga_scroll c =
     (if unat (crt_pos c) \<ge> CRT_SIZE
      then (scroll_up c)\<lparr>crt_pos := crt_pos c - of_nat CRT_COLS\<rparr> else c)"

definition cga_cursor :: "console \<Rightarrow> console" where
  "cga_cursor c =
     (let port = ucast (addr_6845 c);
          c = outb port 14 c;
          c = outb (port + 1) (ucast (drop_bit 8 (crt_pos c))) c;
          c = outb port 15 c
      in outb (port + 1) (ucast (crt_pos c)) c)"

definition cga_putc_with :: "(u32 \<Rightarrow> console \<Rightarrow> console) \<Rightarrow> u32 \<Rightarrow> console \<Rightarrow> console" where
  "cga_putc_with rec ch c =
     (let c = (if csa c = 0 then c\<lparr>csa := 0x0700\<rparr> else c);
          ch = (if ch AND NOT 0xFF = 0 then ch OR csa c else ch)
      in cga_cursor (cga_scroll (cga_char rec ch c)))"

definition cons_putc_with :: "(u32 \<Rightarrow> console \<Rightarrow> console) \<Rightarrow> u32 \<Rightarrow> console \<Rightarrow> console" where
  "cons_putc_with rec ch c = cga_putc_with rec ch (lpt_putc ch (serial_putc ch c))"

text \<open>A blank is not a tab, so the inner call does not nest again.\<close>

definition cga_putc :: "u32 \<Rightarrow> console \<Rightarrow> console" where
  "cga_putc = cga_putc_with (cons_putc_with (\<lambda>_ c. c))"

definition cons_putc :: "u32 \<Rightarrow> console \<Rightarrow> console" where
  "cons_putc ch c = cga_putc ch (lpt_putc ch (serial_putc ch c))"

definition cputchar :: "u32 \<Rightarrow> console \<Rightarrow> console" where
  "cputchar ch c = cons_putc ch c"

subsection \<open>\<open>cprintf\<close> of the kernel (kern/printf.c)\<close>

text \<open>\<open>*cnt++\<close> increments the pointer, not the counter: \<open>putch\<close> leaves the count alone.\<close>

definition putch :: "u32 \<Rightarrow> u32 \<Rightarrow> console \<Rightarrow> u32 \<times> console" where
  "putch ch count c = (count, cputchar ch c)"

primrec print_event :: "pevent \<Rightarrow> u32 \<times> console \<Rightarrow> u32 \<times> console" where
  "print_event (Putch ch) st = putch ch (fst st) (snd st)"
| "print_event (Set_csa v) st = (fst st, (snd st)\<lparr>csa := v\<rparr>)"

text \<open>A call whose arguments do not fit the format is undefined and prints nothing here.\<close>

definition vcprintf :: "string \<Rightarrow> varg list \<Rightarrow> console \<Rightarrow> u32 \<times> console" where
  "vcprintf fmt ap c =
     (case vprintfmt fmt ap of None \<Rightarrow> (0, c) | Some evs \<Rightarrow> fold print_event evs (0, c))"

definition cprintf :: "string \<Rightarrow> varg list \<Rightarrow> console \<Rightarrow> u32 \<times> console" where
  "cprintf fmt ap c = vcprintf fmt ap c"

subsection \<open>The interrupt controllers (kern/picirq.c)\<close>

abbreviation (input) IO_PIC1 :: u16 where "IO_PIC1 \<equiv> 0x20"
abbreviation (input) IO_PIC2 :: u16 where "IO_PIC2 \<equiv> 0xA0"
abbreviation (input) IRQ_SLAVE :: nat where "IRQ_SLAVE \<equiv> 2"
abbreviation (input) IRQ_OFFSET :: u8 where "IRQ_OFFSET \<equiv> 32"
abbreviation (input) MAX_IRQS :: nat where "MAX_IRQS \<equiv> 16"

definition irq_setmask_8259A :: "u16 \<Rightarrow> console \<Rightarrow> console" where
  "irq_setmask_8259A msk c =
     (let c = c\<lparr>irq_mask_8259A := msk\<rparr>
      in if \<not> didinit c then c
         else
           let c = outb (IO_PIC1 + 1) (ucast msk) c;
               c = outb (IO_PIC2 + 1) (ucast (drop_bit 8 msk)) c;
               c = snd (cprintf ''enabled interrupts:'' [] c);
               c = fold (\<lambda>i c. if bit (NOT msk) i then snd (cprintf '' %d'' [Word32 (of_nat i)] c) else c)
                     [0..<MAX_IRQS] c
           in snd (cprintf [CHR 0x0A] [] c))"

definition pic_init :: "console \<Rightarrow> console" where
  "pic_init c =
     (let c = c\<lparr>didinit := True\<rparr>;
          c = outb (IO_PIC1 + 1) 0xFF c;
          c = outb (IO_PIC2 + 1) 0xFF c;
          c = outb IO_PIC1 0x11 c;
          c = outb (IO_PIC1 + 1) IRQ_OFFSET c;
          c = outb (IO_PIC1 + 1) (push_bit IRQ_SLAVE 1) c;
          c = outb (IO_PIC1 + 1) 0x3 c;
          c = outb IO_PIC2 0x11 c;
          c = outb (IO_PIC2 + 1) (IRQ_OFFSET + 8) c;
          c = outb (IO_PIC2 + 1) (of_nat IRQ_SLAVE) c;
          c = outb (IO_PIC2 + 1) 0x01 c;
          c = outb IO_PIC1 0x68 c;
          c = outb IO_PIC1 0x0a c;
          c = outb IO_PIC2 0x68 c;
          c = outb IO_PIC2 0x0a c
      in if irq_mask_8259A c \<noteq> 0xFFFF then irq_setmask_8259A (irq_mask_8259A c) c else c)"

subsection \<open>What output leaves alone\<close>

text \<open>The parts of the console that output never changes: the input side, the interrupt mask
  and the place of the display.\<close>

definition same_input :: "console \<Rightarrow> console \<Rightarrow> bool" where
  "same_input c d \<longleftrightarrow> ports d = ports c \<and> serial_exists d = serial_exists c \<and>
     addr_6845 d = addr_6845 c \<and> crt_buf d = crt_buf c \<and> irq_mask_8259A d = irq_mask_8259A c \<and>
     didinit d = didinit c \<and> kbd_shift d = kbd_shift c \<and> cons_buf d = cons_buf c \<and>
     cons_rpos d = cons_rpos c \<and> cons_wpos d = cons_wpos c \<and> line_buf d = line_buf c"

lemma same_input_refl [simp]: "same_input c c"
  by (simp add: same_input_def)

lemma same_input_trans: "same_input c d \<Longrightarrow> same_input d e \<Longrightarrow> same_input c e"
  by (simp add: same_input_def)

lemma same_input_basic [simp]:
  "same_input c (outb p v d) = same_input c d"
  "same_input c (snd (inb p d)) = same_input c d"
  "same_input c (set_cell i w d) = same_input c d"
  "same_input c (d\<lparr>crt_pos := x\<rparr>) = same_input c d"
  "same_input c (d\<lparr>csa := y\<rparr>) = same_input c d"
  by (simp_all add: same_input_def outb_def inb_def set_cell_def)

lemma same_input_delay [simp]: "same_input c (delay d) = same_input c d"
  by (simp add: delay_def)

lemma wait_ready_input [simp]: "same_input c (wait_ready n p r d) = same_input c d"
proof (induction n arbitrary: d)
  case (Suc n)
  obtain v e where e: "inb p d = (v, e)" by fastforce
  then have "same_input c e = same_input c d" by (metis same_input_basic(2) snd_conv)
  with Suc e show ?case by (simp add: Let_def)
qed simp

lemma fold_set_cell_input [simp]: "same_input c (fold (\<lambda>i. set_cell i (f i)) is d) = same_input c d"
  by (induction "is" arbitrary: d) simp_all

lemma scroll_up_input [simp]: "same_input c (scroll_up d) = same_input c d"
  by (simp add: scroll_up_def)

lemma cga_putc_with_input:
  assumes "\<And>d. same_input c d \<Longrightarrow> same_input c (rec 0x20 d)" and "same_input c d"
  shows "same_input c (cga_putc_with rec ch d)"
  using assms(2) by (simp add: cga_putc_with_def cga_cursor_def cga_scroll_def cga_char_def Let_def assms(1))

lemma cons_putc_input: "same_input c d \<Longrightarrow> same_input c (cons_putc ch d)"
  by (simp add: cons_putc_def cga_putc_def cons_putc_with_def serial_putc_def lpt_putc_def
      cga_putc_with_input)

lemma fold_print_event_input:
  "same_input c (snd st) \<Longrightarrow> same_input c (snd (fold print_event evs st))"
proof (induction evs arbitrary: st)
  case (Cons ev evs)
  then show ?case by (cases ev) (auto simp: putch_def cputchar_def cons_putc_input)
qed simp

lemma cprintf_input: "same_input c (snd (cprintf fmt ap c))"
  by (simp add: cprintf_def vcprintf_def fold_print_event_input split: option.split)

lemma cprintf_result: "fst (cprintf fmt ap c) = 0"
proof -
  have "fst (fold print_event evs st) = fst st" for evs st
  proof (induction evs arbitrary: st)
    case (Cons ev evs)
    then show ?case by (cases ev) (auto simp: putch_def)
  qed simp
  then show ?thesis by (simp add: cprintf_def vcprintf_def split: option.split)
qed

subsection \<open>The cursor stays on the screen\<close>

definition on_screen :: "console \<Rightarrow> bool" where
  "on_screen c \<longleftrightarrow> unat (crt_pos c) < CRT_SIZE"

lemma crt_pos_basic [simp]:
  "crt_pos (outb p v d) = crt_pos d" "crt_pos (snd (inb p d)) = crt_pos d"
  "crt_pos (set_cell i w d) = crt_pos d"
  by (simp_all add: outb_def inb_def set_cell_def)

lemma crt_pos_delay [simp]: "crt_pos (delay d) = crt_pos d"
  by (simp add: delay_def)

lemma crt_pos_wait_ready [simp]: "crt_pos (wait_ready n p r d) = crt_pos d"
proof (induction n arbitrary: d)
  case (Suc n)
  obtain v e where e: "inb p d = (v, e)" by fastforce
  then have "crt_pos e = crt_pos d" by (metis crt_pos_basic(2) snd_conv)
  with Suc e show ?case by (simp add: Let_def)
qed simp

lemma unat_add_u16: "unat (a + b :: u16) = (unat a + unat b) mod 65536"
  by (simp add: unat_word_ariths)

lemma line_start: "unat (p - p mod 80 :: u16) = unat p - unat p mod 80"
  by (simp add: unat_sub word_le_nat_alt unat_mod)

lemma crt_pos_cga_char:
  assumes rec: "\<And>d. on_screen d \<Longrightarrow> on_screen (rec 0x20 d)" and e: "on_screen e"
  shows "unat (crt_pos (cga_char rec ch e)) < 2080"
proof -
  have le: "unat (crt_pos e) < 2000" using e by (simp add: on_screen_def)
  have nl: "unat ((crt_pos e + 80) - (crt_pos e + 80) mod 80) < 2080"
    unfolding line_start unat_add_u16 using le by simp
  have cr: "unat (crt_pos e - crt_pos e mod 80) < 2080"
    unfolding line_start using le by simp
  have "on_screen (rec 0x20 (rec 0x20 (rec 0x20 (rec 0x20 (rec 0x20 e)))))"
    by (intro rec e)
  then have tab: "unat (crt_pos (rec 0x20 (rec 0x20 (rec 0x20 (rec 0x20 (rec 0x20 e)))))) < 2080"
    by (simp add: on_screen_def)
  have "unat (crt_pos e + 1) < 2080"
    using le by (simp add: unat_add_u16)
  moreover have "unat (crt_pos e - 1) < 2080" if "crt_pos e > 0"
    using le that by (simp add: unat_minus_one word_gt_0)
  ultimately show ?thesis
    using nl cr tab le by (simp add: cga_char_def Let_def)
qed

lemma on_screen_scroll: "unat (crt_pos c) < 2080 \<Longrightarrow> on_screen (cga_scroll c)"
  by (simp add: cga_scroll_def on_screen_def unat_sub word_le_nat_alt) linarith

lemma crt_pos_cursor [simp]: "crt_pos (cga_cursor c) = crt_pos c"
  by (simp add: cga_cursor_def Let_def)

lemma on_screen_cga:
  assumes rec: "\<And>d. on_screen d \<Longrightarrow> on_screen (rec 0x20 d)" and d: "on_screen d"
  shows "on_screen (cga_putc_with rec ch d)"
proof -
  have e: "on_screen (if csa d = 0 then d\<lparr>csa := 0x0700\<rparr> else d)"
    using d by (simp add: on_screen_def)
  have "on_screen (cga_cursor x) = on_screen x" for x
    by (simp add: on_screen_def)
  then show ?thesis
    unfolding cga_putc_with_def Let_def
    using on_screen_scroll crt_pos_cga_char [of rec, OF rec] e by simp
qed

lemma on_screen_putc: "on_screen c \<Longrightarrow> on_screen (cons_putc ch c)"
proof -
  assume c: "on_screen c"
  have base: "on_screen (lpt_putc ch (serial_putc ch d)) = on_screen d" for ch d
    by (simp add: on_screen_def lpt_putc_def serial_putc_def)
  have inner: "on_screen (cons_putc_with (\<lambda>_ c. c) ch d)" if "on_screen d" for ch d
    unfolding cons_putc_with_def by (rule on_screen_cga) (simp_all add: base that)
  show ?thesis
    unfolding cons_putc_def cga_putc_def by (rule on_screen_cga) (simp_all add: base inner c)
qed

text \<open>Whatever is printed, the cursor stays inside the 25 rows and 80 columns, so that the
  kernel never writes outside the video memory.\<close>

theorem cprintf_on_screen: "on_screen c \<Longrightarrow> on_screen (snd (cprintf fmt ap c))"
proof -
  assume c: "on_screen c"
  have "on_screen (snd st) \<Longrightarrow> on_screen (snd (fold print_event evs st))" for evs st
  proof (induction evs arbitrary: st)
    case (Cons ev evs)
    then show ?case
      by (cases ev) (auto simp: putch_def cputchar_def on_screen_putc, auto simp: on_screen_def)
  qed simp
  with c show ?thesis by (simp add: cprintf_def vcprintf_def split: option.split)
qed

definition console0 :: console where
  "console0 = \<lparr>ports = (\<lambda>_ _. 0), io_time = 0, port_log = [], csa = 0, serial_exists = True,
     addr_6845 = CGA_BASE, crt_buf = 0xF00B8000, crt_pos = 0, video = (\<lambda>_. 0),
     irq_mask_8259A = 0xFFFB, didinit = False, kbd_shift = 0, cons_buf = (\<lambda>_. 0),
     cons_rpos = 0, cons_wpos = 0, line_buf = (\<lambda>_. 0)\<rparr>"

lemma cprintf_on_screen_witness: "on_screen (snd (cprintf ''hello, world'' [] console0))"
  by (rule cprintf_on_screen) (simp add: on_screen_def console0_def)

end
