(* ===== verification/Console.thy ===== *)
theory Console
  imports Devices
begin

text \<open>
  The input half of the console: the keyboard (kern/console.c), the circular buffer that the
  interrupt routines fill and \<open>cons_getc\<close> empties, and the line editor \<open>readline\<close>
  (lib/readline.c).  The buffer is proved to be a first-in first-out queue of at most 511
  characters; one more character empties it.
\<close>

subsection \<open>A bounded queue\<close>

text \<open>What a client of a bounded first-in first-out queue relies on.\<close>

locale bounded_fifo =
  fixes abs :: "'s \<Rightarrow> 'b list"
    and inv :: "'s \<Rightarrow> bool"
    and put :: "'b \<Rightarrow> 's \<Rightarrow> 's"
    and take_one :: "'s \<Rightarrow> 'b option \<times> 's"
    and capacity :: nat
  assumes put_inv: "inv s \<Longrightarrow> inv (put b s)"
    and put_abs: "inv s \<Longrightarrow> length (abs s) < capacity \<Longrightarrow> abs (put b s) = abs s @ [b]"
    and take_inv: "inv s \<Longrightarrow> inv (snd (take_one s))"
    and take_empty: "inv s \<Longrightarrow> abs s = [] \<Longrightarrow> take_one s = (None, s)"
    and take_first: "inv s \<Longrightarrow> abs s = b # bs \<Longrightarrow> fst (take_one s) = Some b \<and> abs (snd (take_one s)) = bs"
begin

primrec take_many :: "nat \<Rightarrow> 's \<Rightarrow> 'b list" where
  "take_many 0 s = []"
| "take_many (Suc n) s =
     (case take_one s of (None, s') \<Rightarrow> [] | (Some b, s') \<Rightarrow> b # take_many n s')"

lemma put_all:
  "inv s \<Longrightarrow> length (abs s) + length bs \<le> capacity \<Longrightarrow>
     abs (fold put bs s) = abs s @ bs \<and> inv (fold put bs s)"
proof (induction bs arbitrary: s)
  case (Cons b bs)
  then have "inv (put b s)" "abs (put b s) = abs s @ [b]" by (simp_all add: put_inv put_abs)
  with Cons show ?case by simp
qed simp

lemma take_all: "inv s \<Longrightarrow> take_many n s = take n (abs s)"
proof (induction n arbitrary: s)
  case (Suc n)
  show ?case
  proof (cases "abs s")
    case Nil
    with Suc.prems show ?thesis by (simp add: take_empty)
  next
    case (Cons b bs)
    obtain x s' where x: "take_one s = (x, s')" by fastforce
    then have "x = Some b" "abs s' = bs" "inv s'"
      using take_first [OF Suc.prems Cons] take_inv [OF Suc.prems] by auto
    with Suc.IH [of s'] x Cons show ?thesis by simp
  qed
qed simp

lemma put_take_order:
  assumes "inv s" "length (abs s) + length bs \<le> capacity"
  shows "take_many (length (abs s) + length bs) (fold put bs s) = abs s @ bs"
  using put_all [OF assms] take_all by simp

end

subsection \<open>The keyboard\<close>

abbreviation (input) KBSTATP :: u16 where "KBSTATP \<equiv> 0x64"
abbreviation (input) KBDATAP :: u16 where "KBDATAP \<equiv> 0x60"
abbreviation (input) KBS_DIB :: u8 where "KBS_DIB \<equiv> 0x01"
abbreviation (input) KEY_DEL :: u32 where "KEY_DEL \<equiv> 0xE9"

abbreviation (input) SHIFT :: u8 where "SHIFT \<equiv> 0x01"
abbreviation (input) CTL :: u8 where "CTL \<equiv> 0x02"
abbreviation (input) ALT :: u8 where "ALT \<equiv> 0x04"
abbreviation (input) CAPSLOCK :: u8 where "CAPSLOCK \<equiv> 0x08"
abbreviation (input) NUMLOCK :: u8 where "NUMLOCK \<equiv> 0x10"
abbreviation (input) SCROLLLOCK :: u8 where "SCROLLLOCK \<equiv> 0x20"
abbreviation (input) E0ESC :: u8 where "E0ESC \<equiv> 0x40"

definition shiftcode :: "u8 \<Rightarrow> u8" where
  "shiftcode d =
     (if d = 0x1D then CTL else if d = 0x2A then SHIFT else if d = 0x36 then SHIFT
      else if d = 0x38 then ALT else if d = 0x9D then CTL else if d = 0xB8 then ALT else 0)"

definition togglecode :: "u8 \<Rightarrow> u8" where
  "togglecode d =
     (if d = 0x3A then CAPSLOCK else if d = 0x45 then NUMLOCK else if d = 0x46 then SCROLLLOCK else 0)"

definition normalmap_row :: "u8 list" where
  "normalmap_row = [
     0x00, 0x1B, 0x31, 0x32, 0x33, 0x34, 0x35, 0x36,
     0x37, 0x38, 0x39, 0x30, 0x2D, 0x3D, 0x08, 0x09,
     0x71, 0x77, 0x65, 0x72, 0x74, 0x79, 0x75, 0x69,
     0x6F, 0x70, 0x5B, 0x5D, 0x0A, 0x00, 0x61, 0x73,
     0x64, 0x66, 0x67, 0x68, 0x6A, 0x6B, 0x6C, 0x3B,
     0x27, 0x60, 0x00, 0x5C, 0x7A, 0x78, 0x63, 0x76,
     0x62, 0x6E, 0x6D, 0x2C, 0x2E, 0x2F, 0x00, 0x2A,
     0x00, 0x20, 0x00, 0x00, 0x00, 0x00, 0x00, 0x00,
     0x00, 0x00, 0x00, 0x00, 0x00, 0x00, 0x00, 0x37,
     0x38, 0x39, 0x2D, 0x34, 0x35, 0x36, 0x2B, 0x31,
     0x32, 0x33, 0x30, 0x2E, 0x00, 0x00, 0x00, 0x00]"

definition normalmap :: "u8 \<Rightarrow> u8" where
  "normalmap d =
    (if unat d < length normalmap_row then normalmap_row ! unat d
     else if d = 0xC7 then 0xE0
     else if d = 0x9C then 0x0A
     else if d = 0xB5 then 0x2F
     else if d = 0xC8 then 0xE2
     else if d = 0xC9 then 0xE6
     else if d = 0xCB then 0xE4
     else if d = 0xCD then 0xE5
     else if d = 0xCF then 0xE1
     else if d = 0xD0 then 0xE3
     else if d = 0xD1 then 0xE7
     else if d = 0xD2 then 0xE8
     else if d = 0xD3 then 0xE9
     else 0)"

definition shiftmap_row :: "u8 list" where
  "shiftmap_row = [
     0x00, 0x1B, 0x21, 0x40, 0x23, 0x24, 0x25, 0x5E,
     0x26, 0x2A, 0x28, 0x29, 0x5F, 0x2B, 0x08, 0x09,
     0x51, 0x57, 0x45, 0x52, 0x54, 0x59, 0x55, 0x49,
     0x4F, 0x50, 0x7B, 0x7D, 0x0A, 0x00, 0x41, 0x53,
     0x44, 0x46, 0x47, 0x48, 0x4A, 0x4B, 0x4C, 0x3A,
     0x22, 0x7E, 0x00, 0x7C, 0x5A, 0x58, 0x43, 0x56,
     0x42, 0x4E, 0x4D, 0x3C, 0x3E, 0x3F, 0x00, 0x2A,
     0x00, 0x20, 0x00, 0x00, 0x00, 0x00, 0x00, 0x00,
     0x00, 0x00, 0x00, 0x00, 0x00, 0x00, 0x00, 0x37,
     0x38, 0x39, 0x2D, 0x34, 0x35, 0x36, 0x2B, 0x31,
     0x32, 0x33, 0x30, 0x2E, 0x00, 0x00, 0x00, 0x00]"

definition shiftmap :: "u8 \<Rightarrow> u8" where
  "shiftmap d =
    (if unat d < length shiftmap_row then shiftmap_row ! unat d
     else if d = 0xC7 then 0xE0
     else if d = 0x9C then 0x0A
     else if d = 0xB5 then 0x2F
     else if d = 0xC8 then 0xE2
     else if d = 0xC9 then 0xE6
     else if d = 0xCB then 0xE4
     else if d = 0xCD then 0xE5
     else if d = 0xCF then 0xE1
     else if d = 0xD0 then 0xE3
     else if d = 0xD1 then 0xE7
     else if d = 0xD2 then 0xE8
     else if d = 0xD3 then 0xE9
     else 0)"

definition ctlmap_row :: "u8 list" where
  "ctlmap_row = [
     0x00, 0x00, 0x00, 0x00, 0x00, 0x00, 0x00, 0x00,
     0x00, 0x00, 0x00, 0x00, 0x00, 0x00, 0x00, 0x00,
     0x11, 0x17, 0x05, 0x12, 0x14, 0x19, 0x15, 0x09,
     0x0F, 0x10, 0x00, 0x00, 0x0D, 0x00, 0x01, 0x13,
     0x04, 0x06, 0x07, 0x08, 0x0A, 0x0B, 0x0C, 0x00,
     0x00, 0x00, 0x00, 0x1C, 0x1A, 0x18, 0x03, 0x16,
     0x02, 0x0E, 0x0D, 0x00, 0x00, 0xEF, 0x00, 0x00]"

definition ctlmap :: "u8 \<Rightarrow> u8" where
  "ctlmap d =
    (if unat d < length ctlmap_row then ctlmap_row ! unat d
     else if d = 0x97 then 0xE0
     else if d = 0xB5 then 0xEF
     else if d = 0xC8 then 0xE2
     else if d = 0xC9 then 0xE6
     else if d = 0xCB then 0xE4
     else if d = 0xCD then 0xE5
     else if d = 0xCF then 0xE1
     else if d = 0xD0 then 0xE3
     else if d = 0xD1 then 0xE7
     else if d = 0xD2 then 0xE8
     else if d = 0xD3 then 0xE9
     else 0)"

definition charcode :: "u32 \<Rightarrow> u8 \<Rightarrow> u8" where
  "charcode i = (if i = 0 then normalmap else if i = 1 then shiftmap else ctlmap)"

text \<open>\<open>kbd_proc_data\<close> returns a character, 0 for no complete character, -1 for no data.\<close>

definition kbd_key :: "u8 \<Rightarrow> console \<Rightarrow> u32 \<times> console" where
  "kbd_key data c =
     (let (data, shift) =
            (if kbd_shift c AND ucast E0ESC \<noteq> 0
             then (data OR 0x80, kbd_shift c AND NOT (ucast E0ESC)) else (data, kbd_shift c));
          shift = shift OR ucast (shiftcode data);
          shift = shift XOR ucast (togglecode data);
          ch = ucast (charcode (shift AND ucast (CTL OR SHIFT)) data) :: u32;
          ch = (if shift AND ucast CAPSLOCK \<noteq> 0 then
                  (if 0x61 \<le> ch \<and> ch \<le> 0x7A then ch + 0x41 - 0x61
                   else if 0x41 \<le> ch \<and> ch \<le> 0x5A then ch + 0x61 - 0x41 else ch)
                else ch);
          c = c\<lparr>kbd_shift := shift\<rparr>
      in if NOT shift AND ucast (CTL OR ALT) = 0 \<and> ch = KEY_DEL
         then (ch, outb 0x92 0x3 (snd (cprintf (''Rebooting!'' @ [CHR 0x0A]) [] c)))
         else (ch, c))"

definition kbd_proc_data :: "console \<Rightarrow> u32 \<times> console" where
  "kbd_proc_data c =
     (let (stat, c) = inb KBSTATP c
      in if stat AND KBS_DIB = 0 then (- 1, c)
         else
           let (data, c) = inb KBDATAP c
           in if data = 0xE0 then (0, c\<lparr>kbd_shift := kbd_shift c OR ucast E0ESC\<rparr>)
              else if data AND 0x80 \<noteq> 0 then
                (let data = (if kbd_shift c AND ucast E0ESC \<noteq> 0 then data else data AND 0x7F)
                 in (0, c\<lparr>kbd_shift := kbd_shift c AND NOT (ucast (shiftcode data OR E0ESC))\<rparr>))
              else kbd_key data c)"

definition serial_proc_data :: "console \<Rightarrow> u32 \<times> console" where
  "serial_proc_data c =
     (let (lsr, c) = inb (COM1 + COM_LSR) c
      in if lsr AND COM_LSR_DATA = 0 then (- 1, c)
         else let (v, c) = inb (COM1 + COM_RX) c in (ucast v, c))"

subsection \<open>The input buffer\<close>

abbreviation (input) CONSBUFSIZE :: u32 where "CONSBUFSIZE \<equiv> 512"

text \<open>One character of \<open>cons_intr\<close>, and the tail of \<open>cons_getc\<close>.\<close>

definition cons_store :: "u8 \<Rightarrow> console \<Rightarrow> console" where
  "cons_store b c =
     (let c = c\<lparr>cons_buf := (cons_buf c)(cons_wpos c := b), cons_wpos := cons_wpos c + 1\<rparr>
      in if cons_wpos c = CONSBUFSIZE then c\<lparr>cons_wpos := 0\<rparr> else c)"

definition cons_take :: "console \<Rightarrow> u8 option \<times> console" where
  "cons_take c =
     (if cons_rpos c \<noteq> cons_wpos c then
        let b = cons_buf c (cons_rpos c);
            c = c\<lparr>cons_rpos := cons_rpos c + 1\<rparr>
        in (Some b, if cons_rpos c = CONSBUFSIZE then c\<lparr>cons_rpos := 0\<rparr> else c)
      else (None, c))"

text \<open>The loop of \<open>cons_intr\<close> ends when the device has no more data, which is up to the device.\<close>

partial_function (option) cons_intr :: "(console \<Rightarrow> u32 \<times> console) \<Rightarrow> console \<Rightarrow> console option" where
  "cons_intr proc c =
     (case proc c of (d, c1) \<Rightarrow>
        if d = - 1 then Some c1
        else if d = 0 then cons_intr proc c1
        else cons_intr proc (cons_store (ucast d) c1))"

definition serial_intr :: "console \<Rightarrow> console option" where
  "serial_intr c = (if serial_exists c then cons_intr serial_proc_data c else Some c)"

definition kbd_intr :: "console \<Rightarrow> console option" where
  "kbd_intr c = cons_intr kbd_proc_data c"

definition kbd_init :: "console \<Rightarrow> console option" where
  "kbd_init c =
     map_option (\<lambda>c. irq_setmask_8259A (irq_mask_8259A c AND NOT (push_bit 1 1)) c) (kbd_intr c)"

definition cons_getc :: "console \<Rightarrow> (u32 \<times> console) option" where
  "cons_getc c =
     Option.bind (serial_intr c) (\<lambda>c.
     Option.bind (kbd_intr c) (\<lambda>c.
     Some (case cons_take c of (Some b, c') \<Rightarrow> (ucast b, c') | (None, c') \<Rightarrow> (0, c'))))"

definition cons_init :: "u16 \<Rightarrow> console \<Rightarrow> console option" where
  "cons_init probe c =
     map_option (\<lambda>c.
       let c = serial_init c
       in if serial_exists c then c
          else snd (cprintf (''Serial port does not exist!'' @ [CHR 0x0A]) [] c))
       (kbd_init (cga_init probe c))"

partial_function (option) getchar :: "console \<Rightarrow> (u32 \<times> console) option" where
  "getchar c =
     Option.bind (cons_getc c) (\<lambda>r. if fst r = 0 then getchar (snd r) else Some r)"

definition iscons :: "u32 \<Rightarrow> bool" where
  "iscons fdnum = True"

subsection \<open>The line editor (lib/readline.c)\<close>

abbreviation (input) BUFLEN :: nat where "BUFLEN \<equiv> 1024"

text \<open>One key: the new index, or the result (\<open>False\<close> for \<open>NULL\<close>).  The console echoes.\<close>

definition readline_key :: "u32 \<Rightarrow> nat \<Rightarrow> console \<Rightarrow> (nat \<times> console) + (bool \<times> console)" where
  "readline_key ch i c =
     (let echoing = iscons 0
      in if sint ch < 0 then Inr (False, snd (cprintf (''read error: %e'' @ [CHR 0x0A]) [Word32 ch] c))
         else if (ch = 8 \<or> ch = 0x7F) \<and> i > 0 then
           Inl (i - 1, if echoing then cputchar 8 c else c)
         else if 32 \<le> sint ch \<and> i < BUFLEN - 1 then
           (let c = (if echoing then cputchar ch c else c)
            in Inl (i + 1, c\<lparr>line_buf := (line_buf c)(i := ucast ch)\<rparr>))
         else if ch = 10 \<or> ch = 13 then
           (let c = (if echoing then cputchar 10 c else c)
            in Inr (True, c\<lparr>line_buf := (line_buf c)(i := 0)\<rparr>))
         else Inl (i, c))"

partial_function (option) readline_loop :: "nat \<Rightarrow> console \<Rightarrow> (bool \<times> console) option" where
  "readline_loop i c =
     Option.bind (getchar c) (\<lambda>r.
     case readline_key (fst r) i (snd r) of
       Inl st \<Rightarrow> readline_loop (fst st) (snd st)
     | Inr res \<Rightarrow> Some res)"

definition readline :: "string option \<Rightarrow> console \<Rightarrow> (bool \<times> console) option" where
  "readline prompt c =
     (let c = (if prompt \<noteq> None then snd (cprintf ''%s'' [Cstr prompt] c) else c)
      in readline_loop 0 c)"

subsection \<open>The buffer is a queue\<close>

definition ring_ok :: "console \<Rightarrow> bool" where
  "ring_ok c \<longleftrightarrow> unat (cons_rpos c) < 512 \<and> unat (cons_wpos c) < 512"

definition pending_count :: "console \<Rightarrow> nat" where
  "pending_count c =
     (if unat (cons_rpos c) \<le> unat (cons_wpos c) then unat (cons_wpos c) - unat (cons_rpos c)
      else unat (cons_wpos c) + 512 - unat (cons_rpos c))"

definition ring_index :: "nat \<Rightarrow> nat" where
  "ring_index k = (if k < 512 then k else k - 512)"

text \<open>The characters waiting in the buffer, the oldest first.\<close>

definition pending :: "console \<Rightarrow> u8 list" where
  "pending c =
     map (\<lambda>i. cons_buf c (of_nat (ring_index (unat (cons_rpos c) + i)))) [0..<pending_count c]"

lemma unat_ring_succ:
  "unat p < 512 \<Longrightarrow> unat (if p + 1 = CONSBUFSIZE then 0 else p + 1 :: u32) = ring_index (unat p + 1)"
proof -
  assume p: "unat p < 512"
  then have u: "unat (p + 1) = unat p + 1" by (subst unat_add_no_wrap) simp_all
  then have "p + 1 = 512 \<longleftrightarrow> unat p + 1 = 512" by (simp add: word_unat_eq_iff)
  then show ?thesis using u p by (auto simp: ring_index_def)
qed

lemma cons_store_fields:
  "cons_buf (cons_store b c) = (cons_buf c)(cons_wpos c := b)"
  "cons_wpos (cons_store b c) = (if cons_wpos c + 1 = CONSBUFSIZE then 0 else cons_wpos c + 1)"
  "cons_rpos (cons_store b c) = cons_rpos c"
  by (simp_all add: cons_store_def Let_def)

lemma ring_ok_store: "ring_ok c \<Longrightarrow> ring_ok (cons_store b c)"
  unfolding ring_ok_def cons_store_fields
  by (subst unat_ring_succ) (simp_all add: ring_index_def)

lemma ring_slot_eq:
  "k < 512 \<Longrightarrow> (of_nat k :: u32) = w \<longleftrightarrow> k = unat w"
  by (auto simp: unat_of_nat_u32)

lemma pending_store:
  assumes ok: "ring_ok c" and room: "length (pending c) < 511"
  shows "pending (cons_store b c) = pending c @ [b]"
proof -
  let ?r = "unat (cons_rpos c)" and ?w = "unat (cons_wpos c)" and ?n = "pending_count c"
  have b: "?r < 512" "?w < 512" and n: "?n < 511"
    using ok room by (auto simp: ring_ok_def pending_def)
  have w': "unat (cons_wpos (cons_store b c)) = ring_index (?w + 1)"
    unfolding cons_store_fields using b(2) by (rule unat_ring_succ)
  have n': "pending_count (cons_store b c) = Suc ?n"
    using b n unfolding pending_count_def w' by (auto simp: cons_store_fields ring_index_def split: if_splits)
  have last: "ring_index (?r + ?n) = ?w" and lt: "\<And>i. i \<le> ?n \<Longrightarrow> ring_index (?r + i) < 512"
    and other: "\<And>i. i < ?n \<Longrightarrow> ring_index (?r + i) \<noteq> ?w"
    using b n by (auto simp: pending_count_def ring_index_def split: if_splits)
  show ?thesis
    using last lt other
    by (simp add: pending_def n' cons_store_fields ring_slot_eq)
qed

text \<open>The 512th character empties the buffer.\<close>

lemma pending_overflow:
  assumes ok: "ring_ok c" and full: "length (pending c) = 511"
  shows "pending (cons_store b c) = []"
proof -
  let ?r = "unat (cons_rpos c)" and ?w = "unat (cons_wpos c)"
  have b: "?r < 512" "?w < 512" and n: "pending_count c = 511"
    using ok full by (auto simp: ring_ok_def pending_def)
  have w': "unat (cons_wpos (cons_store b c)) = ring_index (?w + 1)"
    unfolding cons_store_fields using b(2) by (rule unat_ring_succ)
  have "pending_count (cons_store b c) = 0"
    using b n unfolding pending_count_def w' by (auto simp: cons_store_fields ring_index_def split: if_splits)
  then show ?thesis by (simp add: pending_def)
qed

lemma cons_take_empty: "ring_ok c \<Longrightarrow> pending c = [] \<Longrightarrow> cons_take c = (None, c)"
  by (auto simp: pending_def pending_count_def ring_ok_def cons_take_def word_unat_eq_iff split: if_splits)

lemma cons_take_fields:
  assumes "pending c \<noteq> []"
  shows "fst (cons_take c) = Some (cons_buf c (cons_rpos c))"
    "cons_buf (snd (cons_take c)) = cons_buf c" "cons_wpos (snd (cons_take c)) = cons_wpos c"
    "cons_rpos (snd (cons_take c)) = (if cons_rpos c + 1 = CONSBUFSIZE then 0 else cons_rpos c + 1)"
proof -
  have "cons_rpos c \<noteq> cons_wpos c" using assms by (auto simp: pending_def pending_count_def)
  then show "fst (cons_take c) = Some (cons_buf c (cons_rpos c))"
    "cons_buf (snd (cons_take c)) = cons_buf c" "cons_wpos (snd (cons_take c)) = cons_wpos c"
    "cons_rpos (snd (cons_take c)) = (if cons_rpos c + 1 = CONSBUFSIZE then 0 else cons_rpos c + 1)"
    by (simp_all add: cons_take_def Let_def)
qed

lemma ring_ok_take: "ring_ok c \<Longrightarrow> ring_ok (snd (cons_take c))"
proof (cases "pending c = []")
  case False
  assume "ring_ok c"
  then show ?thesis
    unfolding ring_ok_def cons_take_fields [OF False]
    by (subst unat_ring_succ) (simp_all add: ring_index_def)
qed (simp add: cons_take_empty)

lemma pending_take:
  assumes ok: "ring_ok c" and p: "pending c = b # bs"
  shows "fst (cons_take c) = Some b \<and> pending (snd (cons_take c)) = bs"
proof -
  let ?r = "unat (cons_rpos c)" and ?w = "unat (cons_wpos c)" and ?n = "pending_count c"
  have ne: "pending c \<noteq> []" using p by simp
  have bd: "?r < 512" "?w < 512" using ok by (auto simp: ring_ok_def)
  have n: "?n > 0" using ne by (simp add: pending_def)
  note f = cons_take_fields [OF ne]
  have r': "unat (cons_rpos (snd (cons_take c))) = ring_index (?r + 1)"
    unfolding f using bd(1) by (rule unat_ring_succ)
  have n': "pending_count (snd (cons_take c)) = ?n - 1"
    using bd n unfolding pending_count_def r' f(3) by (auto simp: ring_index_def split: if_splits)
  have idx: "ring_index (ring_index (?r + 1) + i) = ring_index (?r + Suc i)" if "i < ?n - 1" for i
    using bd that by (auto simp: ring_index_def pending_count_def split: if_splits)
  have split: "[0..<?n] = 0 # map Suc [0..<?n - 1]"
    using n by (simp add: upt_conv_Cons map_Suc_upt)
  have first: "ring_index ?r = ?r" using bd by (simp add: ring_index_def)
  have "pending c = cons_buf c (cons_rpos c) # pending (snd (cons_take c))"
    unfolding pending_def n' r' unfolding split using idx f(2) by (simp add: first)
  with p f(1) show ?thesis by simp
qed

interpretation ring: bounded_fifo pending ring_ok cons_store cons_take 511
  by unfold_locales
    (simp_all add: ring_ok_store pending_store ring_ok_take cons_take_empty pending_take)

text \<open>C40. The console buffer returns what the interrupt routines stored in it in the order they
  stored it, as long as no more than 511 characters wait; the character that would be the
  512th empties the buffer and all of them are lost.\<close>

theorem console_buffer_fifo:
  assumes "ring_ok c"
  shows "(length (pending c) + length bs \<le> 511 \<longrightarrow>
      ring.take_many (length (pending c) + length bs) (fold cons_store bs c) = pending c @ bs) \<and>
    (length (pending c) = 511 \<longrightarrow> pending (cons_store b c) = [])"
  using ring.put_take_order [OF assms] pending_overflow [OF assms] by blast

lemma console_buffer_fifo_witness:
  "ring.take_many 3 (fold cons_store [0x61, 0x62, 0x63] console0) = [0x61, 0x62, 0x63]"
proof -
  have "ring_ok console0" "pending console0 = []"
    by (simp_all add: ring_ok_def pending_def pending_count_def console0_def)
  with console_buffer_fifo [of console0 "[0x61, 0x62, 0x63]"] show ?thesis
    by (simp add: numeral_3_eq_3 del: ring.take_many.simps)
qed

subsection \<open>The line editor\<close>

text \<open>What a key that is not a newline does to the line.\<close>

definition edit :: "u32 \<Rightarrow> u8 list \<Rightarrow> u8 list" where
  "edit ch line =
     (if (ch = 8 \<or> ch = 0x7F) \<and> line \<noteq> [] then butlast line
      else if 32 \<le> sint ch \<and> length line < BUFLEN - 1 then line @ [ucast ch]
      else line)"

definition holds_line :: "console \<Rightarrow> u8 list \<Rightarrow> bool" where
  "holds_line c line \<longleftrightarrow> (\<forall>i < length line. line_buf c i = line ! i)"

primrec type_keys :: "u32 list \<Rightarrow> nat \<Rightarrow> console \<Rightarrow> (nat \<times> console) + (bool \<times> console)" where
  "type_keys [] i c = Inl (i, c)"
| "type_keys (k # ks) i c =
     (case readline_key k i c of Inl st \<Rightarrow> type_keys ks (fst st) (snd st) | Inr r \<Rightarrow> Inr r)"

lemma line_buf_cputchar [simp]: "line_buf (cputchar ch c) = line_buf c"
  using cons_putc_input [of c c ch] by (simp add: cputchar_def same_input_def)

lemma readline_key_edit:
  assumes "0 \<le> sint ch" "ch \<noteq> 10" "ch \<noteq> 13" "holds_line c line" "length line \<le> 1023"
  shows "\<exists>c'. readline_key ch (length line) c = Inl (length (edit ch line), c') \<and>
    holds_line c' (edit ch line) \<and> length (edit ch line) \<le> 1023"
  using assms by (auto simp: readline_key_def edit_def holds_line_def Let_def nth_append nth_butlast)

lemma type_keys_edit:
  assumes "\<And>k. k \<in> set ks \<Longrightarrow> 0 \<le> sint k \<and> k \<noteq> 10 \<and> k \<noteq> 13"
    and "holds_line c line" "length line \<le> 1023"
  shows "\<exists>c'. type_keys ks (length line) c = Inl (length (fold edit ks line), c') \<and>
    holds_line c' (fold edit ks line) \<and> length (fold edit ks line) \<le> 1023"
  using assms
proof (induction ks arbitrary: line c)
  case (Cons k ks)
  then obtain c1 where c1: "readline_key k (length line) c = Inl (length (edit k line), c1)"
      "holds_line c1 (edit k line)" "length (edit k line) \<le> 1023"
    using readline_key_edit [of k c line] by auto
  from Cons.IH [OF _ c1(2,3)] Cons.prems(1) c1(1) show ?case by auto
qed simp

lemma type_keys_append:
  "type_keys (ks @ ls) i c =
    (case type_keys ks i c of Inl st \<Rightarrow> type_keys ls (fst st) (snd st) | Inr r \<Rightarrow> Inr r)"
  by (induction ks arbitrary: i c) (auto split: sum.split)



end
