(* ===== verification/Kstate.thy ===== *)
theory Kstate
  imports Spinlock Console
begin

text \<open>
  The data of the JOS kernel (OSLab7): the structures of inc/memlayout.h, inc/trap.h,
  inc/env.h and kern/cpu.h, the error codes of inc/error.h, and the kernel state with the
  global variables of kern/pmap.c, kern/env.c and kern/cpu.h.

  Physical memory is byte-addressed.  The kernel reads and writes it through kernel virtual
  addresses, which map to physical memory at \<open>KERNBASE\<close>; a kernel pointer below
  \<open>KERNBASE\<close> is a page fault in the kernel.  The arrays \<open>pages\<close>, \<open>envs\<close> and \<open>cpus\<close> are
  functions from indices; a C pointer into one of them is an index, and \<open>NULL\<close> is \<open>None\<close>.
  Privileged instructions leave a trace in \<open>hwlog\<close>, the most recent first.
\<close>

subsection \<open>Error codes (inc/error.h)\<close>

abbreviation (input) E_UNSPECIFIED :: u32 where "E_UNSPECIFIED \<equiv> 1"
abbreviation (input) E_BAD_ENV :: u32 where "E_BAD_ENV \<equiv> 2"
abbreviation (input) E_INVAL :: u32 where "E_INVAL \<equiv> 3"
abbreviation (input) E_NO_MEM :: u32 where "E_NO_MEM \<equiv> 4"
abbreviation (input) E_NO_FREE_ENV :: u32 where "E_NO_FREE_ENV \<equiv> 5"
abbreviation (input) E_FAULT :: u32 where "E_FAULT \<equiv> 6"
abbreviation (input) E_IPC_NOT_RECV :: u32 where "E_IPC_NOT_RECV \<equiv> 7"
abbreviation (input) E_EOF :: u32 where "E_EOF \<equiv> 8"
abbreviation (input) MAXERROR :: u32 where "MAXERROR \<equiv> 9"

subsection \<open>Structures\<close>

record PageInfo =
  pp_link :: "nat option"
  pp_ref :: u16

record PushRegs =
  reg_edi :: u32
  reg_esi :: u32
  reg_ebp :: u32
  reg_oesp :: u32
  reg_ebx :: u32
  reg_edx :: u32
  reg_ecx :: u32
  reg_eax :: u32

record Trapframe =
  tf_regs :: PushRegs
  tf_es :: u16
  tf_padding1 :: u16
  tf_ds :: u16
  tf_padding2 :: u16
  tf_trapno :: u32
  tf_err :: u32
  tf_eip :: u32
  tf_cs :: u16
  tf_padding3 :: u16
  tf_eflags :: u32
  tf_esp :: u32
  tf_ss :: u16
  tf_padding4 :: u16

record UTrapframe =
  utf_fault_va :: u32
  utf_err :: u32
  utf_regs :: PushRegs
  utf_eip :: u32
  utf_eflags :: u32
  utf_esp :: u32

datatype EnvType = ENV_TYPE_USER

abbreviation (input) ENV_FREE :: u32 where "ENV_FREE \<equiv> 0"
abbreviation (input) ENV_DYING :: u32 where "ENV_DYING \<equiv> 1"
abbreviation (input) ENV_RUNNABLE :: u32 where "ENV_RUNNABLE \<equiv> 2"
abbreviation (input) ENV_RUNNING :: u32 where "ENV_RUNNING \<equiv> 3"
abbreviation (input) ENV_NOT_RUNNABLE :: u32 where "ENV_NOT_RUNNABLE \<equiv> 4"

record Env =
  env_tf :: Trapframe
  env_link :: "nat option"
  env_id :: u32
  env_parent_id :: u32
  env_type :: EnvType
  env_status :: u32
  env_runs :: u32
  env_cpunum :: u32
  env_pgdir :: u32
  env_pgfault_upcall :: u32
  env_ipc_recving :: bool
  env_ipc_dstva :: u32
  env_ipc_value :: u32
  env_ipc_from :: u32
  env_ipc_perm :: u32
  pr :: u32

abbreviation (input) LOG2NENV :: nat where "LOG2NENV \<equiv> 10"
abbreviation (input) NENV :: nat where "NENV \<equiv> 1024"

definition ENVX :: "u32 \<Rightarrow> nat" where
  "ENVX envid = unat (envid AND (2 ^ LOG2NENV - 1))"

abbreviation (input) NCPU :: nat where "NCPU \<equiv> 8"
abbreviation (input) CPU_UNUSED :: u32 where "CPU_UNUSED \<equiv> 0"
abbreviation (input) CPU_STARTED :: u32 where "CPU_STARTED \<equiv> 1"
abbreviation (input) CPU_HALTED :: u32 where "CPU_HALTED \<equiv> 2"

record CpuInfo =
  cpu_id :: u8
  cpu_status :: u32
  cpu_env :: "nat option"
  cpu_ts :: Taskstate

text \<open>Privileged instructions whose effect is outside the modelled memory.\<close>

datatype hwop =
    Lcr3 u32
  | Invlpg u32
  | Lapic_write u32 u32 \<comment> \<open>register index and value\<close>
  | Lgdt
  | Lldt u16
  | Ltr u16
  | Lidt
  | Set_segs

text \<open>The symbols the linker defines, and the frame pointer when a backtrace starts.\<close>

record kimage =
  sym_start :: u32
  sym_entry :: u32
  sym_etext :: u32
  sym_edata :: u32
  sym_end :: u32
  stab_begin :: u32
  stab_end :: u32
  stabstr_begin :: u32
  stabstr_end :: u32
  frame_pointer :: u32

record kstate =
  pmem :: memory
  npages :: u32
  npages_basemem :: u32
  kern_pgdir :: u32
  pages_kva :: u32
  pages :: "nat \<Rightarrow> PageInfo"
  page_free_list :: "nat option"
  nextfree :: u32
  mmio_base :: u32
  user_mem_check_addr :: u32
  envs_kva :: u32
  envs :: "nat \<Rightarrow> Env"
  env_free_list :: "nat option"
  gdt :: "nat \<Rightarrow> Segdesc"
  idt :: "nat \<Rightarrow> Gatedesc"
  cpus :: "nat \<Rightarrow> CpuInfo"
  cpus_kva :: u32
  thiscpu :: nat
  cr3 :: "nat \<Rightarrow> u32"
  cr2 :: u32
  cr0 :: u32
  kernel_lock :: spinlock
  caller_pcs :: "nat \<Rightarrow> u32 list" \<comment> \<open>what \<open>get_caller_pcs\<close> finds on each CPU's stack\<close>
  last_tf :: u32 \<comment> \<open>the address of the last real trap frame\<close>
  bootcpu :: nat
  ismp :: bool
  ncpu :: u32
  lapicaddr :: u32
  lapic :: u32
  lapic_in :: "nat \<Rightarrow> u32 \<Rightarrow> u32" \<comment> \<open>what the local APIC answers to the n-th read of a register\<close>
  lapic_time :: nat
  mpentry_kstack :: u32
  image :: kimage
  panicstr :: "string option"
  cons :: console
  hwlog :: "hwop list"

subsection \<open>Kernel code over this state\<close>

type_synonym 'a kernel = "kstate \<Rightarrow> ('a, kstate) kres"

text \<open>\<open>curenv\<close> of kern/env.h is \<open>thiscpu->cpu_env\<close>.\<close>

definition curenv :: "kstate \<Rightarrow> nat option" where
  "curenv s = cpu_env (cpus s (thiscpu s))"

definition set_curenv :: "nat option \<Rightarrow> kstate \<Rightarrow> kstate" where
  "set_curenv e s =
     s\<lparr>cpus := (cpus s)(thiscpu s := cpus s (thiscpu s)\<lparr>cpu_env := e\<rparr>)\<rparr>"

text \<open>\<open>curenv ? curenv->env_id : 0\<close>, and \<open>curenv->\<dots>\<close>, a fault when there is no environment.\<close>

definition cur_id_or_0 :: "kstate \<Rightarrow> u32" where
  "cur_id_or_0 s = (case curenv s of None \<Rightarrow> 0 | Some e \<Rightarrow> env_id (envs s e))"

definition the_curenv :: "nat kernel" where
  "the_curenv s = (case curenv s of None \<Rightarrow> Panic ''Kernel page fault!'' s | Some e \<Rightarrow> Ret e s)"

definition upd_env :: "nat \<Rightarrow> (Env \<Rightarrow> Env) \<Rightarrow> kstate \<Rightarrow> kstate" where
  "upd_env e f s = s\<lparr>envs := (envs s)(e := f (envs s e))\<rparr>"

definition upd_page :: "nat \<Rightarrow> (PageInfo \<Rightarrow> PageInfo) \<Rightarrow> kstate \<Rightarrow> kstate" where
  "upd_page i f s = s\<lparr>pages := (pages s)(i := f (pages s i))\<rparr>"

definition hw :: "hwop \<Rightarrow> kstate \<Rightarrow> kstate" where
  "hw op s = s\<lparr>hwlog := op # hwlog s\<rparr>"

text \<open>\<open>lcr3\<close>: load the page-directory base register of the executing CPU.\<close>

definition lcr3 :: "u32 \<Rightarrow> unit kernel" where
  "lcr3 pa = kmod (\<lambda>s. hw (Lcr3 pa) (s\<lparr>cr3 := (cr3 s)(thiscpu s := pa)\<rparr>))"

text \<open>Device access, and \<open>cprintf\<close>.\<close>

definition kio :: "(console \<Rightarrow> 'a \<times> console) \<Rightarrow> 'a kernel" where
  "kio f s = (case f (cons s) of (x, c) \<Rightarrow> Ret x (s\<lparr>cons := c\<rparr>))"

definition kdev :: "(console \<Rightarrow> console) \<Rightarrow> unit kernel" where
  "kdev f s = Ret () (s\<lparr>cons := f (cons s)\<rparr>)"

definition kwait :: "(console \<Rightarrow> ('a \<times> console) option) \<Rightarrow> 'a kernel" where
  "kwait f s = (case f (cons s) of None \<Rightarrow> Leave Spin s | Some (x, c) \<Rightarrow> Ret x (s\<lparr>cons := c\<rparr>))"

definition newline :: string where
  "newline = [CHR 0x0A]"

text \<open>A message of the kernel; no caller uses the result of \<open>cprintf\<close>.\<close>

definition kprintf :: "string \<Rightarrow> varg list \<Rightarrow> unit kernel" where
  "kprintf fmt ap = kbind (kio (cprintf fmt ap)) (\<lambda>_. kret ())"

text \<open>Dereferencing a \<open>uint32_t *\<close> of the kernel.\<close>

definition kload :: "u32 \<Rightarrow> u32 kernel" where
  "kload p s = (if p < KERNBASE then Panic ''Kernel page fault!'' s
     else Ret (load32 (pmem s) (p - KERNBASE)) s)"

definition kstore :: "u32 \<Rightarrow> u32 \<Rightarrow> unit kernel" where
  "kstore p v s = (if p < KERNBASE then Panic ''Kernel page fault!'' s
     else Ret () (s\<lparr>pmem := store32 (pmem s) (p - KERNBASE) v\<rparr>))"

definition kmemset :: "u32 \<Rightarrow> u8 \<Rightarrow> nat \<Rightarrow> unit kernel" where
  "kmemset p c n s = (if p < KERNBASE then Panic ''Kernel page fault!'' s
     else Ret () (s\<lparr>pmem := mem_set (pmem s) (p - KERNBASE) c n\<rparr>))"

definition kmemcpy :: "u32 \<Rightarrow> u32 \<Rightarrow> nat \<Rightarrow> unit kernel" where
  "kmemcpy d p n s = (if d < KERNBASE \<or> p < KERNBASE then Panic ''Kernel page fault!'' s
     else Ret () (s\<lparr>pmem := mem_move (pmem s) (d - KERNBASE) (p - KERNBASE) n\<rparr>))"

subsection \<open>Address conversions (kern/pmap.h)\<close>

definition PADDR :: "u32 \<Rightarrow> u32 kernel" where
  "PADDR kva s = (if kva < KERNBASE then Panic ''PADDR called with invalid kva'' s
     else Ret (kva - KERNBASE) s)"

definition KADDR :: "u32 \<Rightarrow> u32 kernel" where
  "KADDR pa s = (if PGNUM pa \<ge> npages s then Panic ''KADDR called with invalid pa'' s
     else Ret (pa + KERNBASE) s)"

definition page2pa :: "nat \<Rightarrow> u32" where
  "page2pa pp = push_bit PGSHIFT (of_nat pp)"

definition pa2page :: "u32 \<Rightarrow> nat kernel" where
  "pa2page pa s = (if PGNUM pa \<ge> npages s then Panic ''pa2page called with invalid pa'' s
     else Ret (unat (PGNUM pa)) s)"

definition page2kva :: "nat \<Rightarrow> u32 kernel" where
  "page2kva pp = KADDR (page2pa pp)"

subsection \<open>Field lemmas\<close>

lemma kprintf_Ret: "kprintf fmt ap s = Ret () (s\<lparr>cons := snd (cprintf fmt ap (cons s))\<rparr>)"
  by (simp add: kprintf_def kio_def kbind_def kret_def split: prod.split)

lemma kbind_kprintf [simp]:
  "kbind (kprintf fmt ap) f s = f () (s\<lparr>cons := snd (cprintf fmt ap (cons s))\<rparr>)"
  by (simp add: kbind_def kprintf_Ret)

lemma kdev_Ret [simp]: "kbind (kdev g) f s = f () (s\<lparr>cons := g (cons s)\<rparr>)"
  by (simp add: kbind_def kdev_def)

lemma curenv_cons [simp]: "curenv (s\<lparr>cons := c\<rparr>) = curenv s"
  by (simp add: curenv_def)

lemma curenv_simps [simp]:
  "curenv (set_curenv e s) = e"
  "curenv (upd_env i f s) = curenv s"
  "curenv (upd_page i g s) = curenv s"
  "curenv (hw opn s) = curenv s"
  by (simp_all add: curenv_def set_curenv_def upd_env_def upd_page_def hw_def)

lemma set_curenv_fields [simp]:
  "pmem (set_curenv e s) = pmem s" "npages (set_curenv e s) = npages s"
  "pages (set_curenv e s) = pages s" "page_free_list (set_curenv e s) = page_free_list s"
  "envs (set_curenv e s) = envs s" "env_free_list (set_curenv e s) = env_free_list s"
  "kern_pgdir (set_curenv e s) = kern_pgdir s" "thiscpu (set_curenv e s) = thiscpu s"
  "cr3 (set_curenv e s) = cr3 s" "kernel_lock (set_curenv e s) = kernel_lock s"
  "hwlog (set_curenv e s) = hwlog s"
  by (simp_all add: set_curenv_def)

lemma upd_env_fields [simp]:
  "pmem (upd_env e f s) = pmem s" "npages (upd_env e f s) = npages s"
  "pages (upd_env e f s) = pages s" "page_free_list (upd_env e f s) = page_free_list s"
  "envs (upd_env e f s) = (envs s)(e := f (envs s e))"
  "env_free_list (upd_env e f s) = env_free_list s"
  "kern_pgdir (upd_env e f s) = kern_pgdir s" "thiscpu (upd_env e f s) = thiscpu s"
  "cpus (upd_env e f s) = cpus s"
  "cr3 (upd_env e f s) = cr3 s" "kernel_lock (upd_env e f s) = kernel_lock s"
  "hwlog (upd_env e f s) = hwlog s"
  by (simp_all add: upd_env_def)

lemma upd_page_fields [simp]:
  "pmem (upd_page i f s) = pmem s" "npages (upd_page i f s) = npages s"
  "pages (upd_page i f s) = (pages s)(i := f (pages s i))"
  "page_free_list (upd_page i f s) = page_free_list s"
  "envs (upd_page i f s) = envs s" "env_free_list (upd_page i f s) = env_free_list s"
  "kern_pgdir (upd_page i f s) = kern_pgdir s" "thiscpu (upd_page i f s) = thiscpu s"
  "cpus (upd_page i f s) = cpus s"
  "cr3 (upd_page i f s) = cr3 s" "kernel_lock (upd_page i f s) = kernel_lock s"
  "hwlog (upd_page i f s) = hwlog s"
  by (simp_all add: upd_page_def)

lemma hw_fields [simp]:
  "pmem (hw opn s) = pmem s" "npages (hw opn s) = npages s" "pages (hw opn s) = pages s"
  "page_free_list (hw opn s) = page_free_list s" "envs (hw opn s) = envs s"
  "env_free_list (hw opn s) = env_free_list s" "kern_pgdir (hw opn s) = kern_pgdir s"
  "thiscpu (hw opn s) = thiscpu s" "cpus (hw opn s) = cpus s" "cr3 (hw opn s) = cr3 s"
  "kernel_lock (hw opn s) = kernel_lock s" "hwlog (hw opn s) = opn # hwlog s"
  by (simp_all add: hw_def)

lemma ENVX_less [simp]: "ENVX envid < NENV"
proof -
  have "ENVX envid = unat envid mod 1024"
    unfolding ENVX_def by (simp add: word_mask_10 flip: take_bit_eq_mask)
      (simp add: take_bit_eq_mod unat_mod)
  then show ?thesis by simp
qed

lemma unat_page2pa: "pp < 1048576 \<Longrightarrow> unat (page2pa pp) = 4096 * pp"
  by (simp add: page2pa_def push_bit_eq_mult unat_word_ariths unat_of_nat take_bit_eq_mod)

lemma aligned_page2pa [simp]: "aligned 4096 (page2pa pp)"
  by (simp add: aligned_def page2pa_def push_bit_eq_mult unat_word_ariths dvd_mod)

lemma PGNUM_page2pa: "pp < 1048576 \<Longrightarrow> unat (PGNUM (page2pa pp)) = pp"
  by (simp add: unat_PGNUM unat_page2pa)

text \<open>Two of the round trips between a page and its address.\<close>

theorem pa2page_page2pa:
  assumes "pp < unat (npages s)" and "unat (npages s) \<le> 1048576"
  shows "pa2page (page2pa pp) s = Ret pp s"
  using assms by (simp add: pa2page_def PGNUM_page2pa word_le_nat_alt)

lemma page2pa_PGNUM: "aligned 4096 pa \<Longrightarrow> page2pa (unat (PGNUM pa)) = pa"
proof -
  assume a: "aligned 4096 pa"
  have "unat pa div 4096 < 1048576"
    using unat_lt_u32 [of pa] by (simp add: less_mult_imp_div_less)
  then have "unat (page2pa (unat (PGNUM pa))) = unat pa"
    using a by (simp add: unat_PGNUM unat_page2pa aligned_def)
  then show ?thesis by (simp add: word_unat_eq_iff)
qed

end
