(* ===== verification/Sample.thy ===== *)
theory Sample
  imports Kstate
begin

text \<open>
  A small machine with 64 pages of memory, used to show that the hypotheses of the theorems
  can be met: pages 4, 3 and 2 are on the free list, page 5 is a page directory, and
  environments 1 to 1023 are on the free list of environments.  \<open>mapped_machine\<close> has, in
  addition, the page table of page 6 and the user page 7 mapped at \<open>UTEXT\<close>.
\<close>

definition zero_regs :: PushRegs where
  "zero_regs = \<lparr>reg_edi = 0, reg_esi = 0, reg_ebp = 0, reg_oesp = 0, reg_ebx = 0,
     reg_edx = 0, reg_ecx = 0, reg_eax = 0\<rparr>"

definition zero_tf :: Trapframe where
  "zero_tf = \<lparr>tf_regs = zero_regs, tf_es = 0, tf_padding1 = 0, tf_ds = 0, tf_padding2 = 0,
     tf_trapno = 0, tf_err = 0, tf_eip = 0, tf_cs = 0, tf_padding3 = 0, tf_eflags = 0,
     tf_esp = 0, tf_ss = 0, tf_padding4 = 0\<rparr>"

definition zero_env :: Env where
  "zero_env = \<lparr>env_tf = zero_tf, env_link = None, env_id = 0, env_parent_id = 0,
     env_type = ENV_TYPE_USER, env_status = ENV_FREE, env_runs = 0, env_cpunum = 0,
     env_pgdir = 0, env_pgfault_upcall = 0, env_ipc_recving = False, env_ipc_dstva = 0,
     env_ipc_value = 0, env_ipc_from = 0, env_ipc_perm = 0, pr = 0\<rparr>"

definition zero_ts :: Taskstate where
  "zero_ts = \<lparr>ts_link = 0, ts_esp0 = 0, ts_ss0 = 0, ts_esp1 = 0, ts_ss1 = 0, ts_esp2 = 0,
     ts_ss2 = 0, ts_cr3 = 0, ts_eip = 0, ts_eflags = 0, ts_eax = 0, ts_ecx = 0, ts_edx = 0,
     ts_ebx = 0, ts_esp = 0, ts_ebp = 0, ts_esi = 0, ts_edi = 0, ts_es = 0, ts_cs = 0,
     ts_ss = 0, ts_ds = 0, ts_fs = 0, ts_gs = 0, ts_ldt = 0, ts_t = 0, ts_iomb = 0\<rparr>"

definition zero_gate :: Gatedesc where
  "zero_gate = SETGATE False 0 0 0"

abbreviation (input) sample_pgdir :: u32 where "sample_pgdir \<equiv> 0xF0005000"

definition sample_image :: kimage where
  "sample_image = \<lparr>sym_start = 0x0010000C, sym_entry = 0xF010000C, sym_etext = 0xF0102000,
     sym_edata = 0xF0104000, sym_end = 0xF0106000, stab_begin = 0xF0103000, stab_end = 0xF0103000,
     stabstr_begin = 0xF0103800, stabstr_end = 0xF0103800, frame_pointer = 0\<rparr>"

definition small_machine :: kstate where
  "small_machine = \<lparr>pmem = (\<lambda>_. 0), npages = 64, npages_basemem = 64,
     kern_pgdir = sample_pgdir, pages_kva = 0xF0008000,
     pages = (\<lambda>i. \<lparr>pp_link = (if i = 4 then Some 3 else if i = 3 then Some 2 else None),
                  pp_ref = (if i \<in> {2, 3, 4} then 0 else 1)\<rparr>),
     page_free_list = Some 4, nextfree = 0, mmio_base = MMIOBASE, user_mem_check_addr = 0,
     envs_kva = 0xF0010000,
     envs = (\<lambda>i. zero_env\<lparr>env_link := (if i < 1023 then Some (Suc i) else None),
        env_pgdir := (if i = 0 then sample_pgdir else 0),
        env_status := (if i = 0 then ENV_RUNNABLE else ENV_FREE),
        env_id := (if i = 0 then 0x1000 else 0)\<rparr>),
     env_free_list = Some 1, gdt = (\<lambda>_. SEG_NULL), idt = (\<lambda>_. zero_gate),
     cpus = (\<lambda>i. \<lparr>cpu_id = of_nat i, cpu_status = CPU_STARTED, cpu_env = None, cpu_ts = zero_ts\<rparr>),
     cpus_kva = 0xF0020000, thiscpu = 0, cr3 = (\<lambda>_. 0x5000), cr2 = 0, cr0 = 0x80000011,
     kernel_lock = \<lparr>locked = 1, lk_name = ''kernel_lock'', lk_cpu = Some 0, lk_pcs = replicate 10 0\<rparr>,
     caller_pcs = (\<lambda>_. replicate 10 0), last_tf = 0, bootcpu = 0,
     ismp = False, ncpu = 1, lapicaddr = 0, lapic = 0, lapic_in = (\<lambda>_ _. 0), lapic_time = 0,
     mpentry_kstack = 0, image = sample_image, panicstr = None, cons = console0, hwlog = []\<rparr>"

definition mapped_machine :: kstate where
  "mapped_machine = small_machine\<lparr>pmem :=
     store32 (store32 (\<lambda>_. 0) (0x5000 + 4 * 2) 0x6007) (0x6000 + 4 * 0) 0x7007\<rparr>"

text \<open>The mapped machine without a free page.\<close>

definition full_machine :: kstate where
  "full_machine = small_machine\<lparr>page_free_list := None\<rparr>"

lemma load32_zero_memory [simp]: "load32 (\<lambda>_. 0) a = 0"
  by (simp add: load32_def)

lemma small_machine_fields [simp]:
  "pmem small_machine = (\<lambda>_. 0)" "npages small_machine = 64"
  "kern_pgdir small_machine = sample_pgdir" "page_free_list small_machine = Some 4"
  "pp_link (pages small_machine i) = (if i = 4 then Some 3 else if i = 3 then Some 2 else None)"
  "pp_ref (pages small_machine i) = (if i \<in> {2, 3, 4} then 0 else 1)"
  "nextfree small_machine = 0" "envs_kva small_machine = 0xF0010000"
  "env_free_list small_machine = Some 1" "thiscpu small_machine = 0"
  "cpu_env (cpus small_machine c) = None"
  "hwlog small_machine = []"
  by (simp_all add: small_machine_def)

lemma mapped_machine_fields [simp]:
  "npages mapped_machine = 64" "kern_pgdir mapped_machine = sample_pgdir"
  "page_free_list mapped_machine = Some 4" "pages mapped_machine = pages small_machine"
  "envs mapped_machine = envs small_machine" "cpus mapped_machine = cpus small_machine"
  "thiscpu mapped_machine = 0" "env_free_list mapped_machine = Some 1"
  "hwlog mapped_machine = []"
  by (simp_all add: mapped_machine_def)

lemma full_machine_fields [simp]:
  "pmem full_machine = (\<lambda>_. 0)" "npages full_machine = 64"
  "page_free_list full_machine = None" "pages full_machine = pages small_machine"
  "envs full_machine = envs small_machine" "envs_kva full_machine = 0xF0010000"
  "nextfree full_machine = 0"
  by (simp_all add: full_machine_def small_machine_def)

lemma curenv_machines [simp]: "curenv small_machine = None" "curenv mapped_machine = None"
  by (simp_all add: curenv_def)

end
