(* ===== verification/Page_Alloc.thy ===== *)
theory Page_Alloc
  imports Sample "HOL-Library.Signed_Division"
begin

text \<open>
  The physical page allocator of kern/pmap.c: sizing of memory from the CMOS, the boot-time
  bump allocator, the free list of pages and the reference counts.
\<close>

subsection \<open>Memory detection\<close>

text \<open>The CMOS chip is read through the clock chip's ports.\<close>

definition nvram_read :: "u32 \<Rightarrow> u32 kernel" where
  "nvram_read r =
     kbind (kio (mc146818_read r)) (\<lambda>lo.
     kbind (kio (mc146818_read (r + 1))) (\<lambda>hi.
     kret (lo OR push_bit 8 hi)))"

abbreviation (input) NVRAM_BASELO :: u32 where "NVRAM_BASELO \<equiv> 0x15"
abbreviation (input) NVRAM_EXTLO :: u32 where "NVRAM_EXTLO \<equiv> 0x17"

text \<open>The product and the quotient are computed in \<open>int\<close>; both are far below \<open>2 ^ 31\<close>.\<close>

definition i386_detect_memory :: "unit kernel" where
  "i386_detect_memory =
     kbind (nvram_read NVRAM_BASELO) (\<lambda>base.
     kbind (kmod (\<lambda>s. s\<lparr>npages_basemem := base * 1024 div PGSIZE\<rparr>)) (\<lambda>_.
     kbind (nvram_read NVRAM_EXTLO) (\<lambda>ext.
     let npages_extmem = ext * 1024 div PGSIZE in
     kbind (kmod (\<lambda>s. s\<lparr>npages := if npages_extmem \<noteq> 0 then EXTPHYSMEM div PGSIZE + npages_extmem
                                  else npages_basemem s\<rparr>)) (\<lambda>_.
     kbind (kget npages) (\<lambda>np.
     kbind (kget npages_basemem) (\<lambda>nb.
     kprintf (''Physical memory: %uK available, base = %uK, extended = %uK'' @ newline)
       [Word32 (np * PGSIZE div 1024), Word32 (nb * PGSIZE div 1024),
        Word32 (npages_extmem * PGSIZE div 1024)]))))))"

subsection \<open>The boot allocator\<close>

text \<open>\<open>kend\<close> is the linker symbol \<open>end\<close>, the first address after the kernel image.\<close>

definition boot_alloc :: "u32 \<Rightarrow> u32 \<Rightarrow> u32 kernel" where
  "boot_alloc kend n =
     kbind (kmod (\<lambda>s. if nextfree s = 0 then s\<lparr>nextfree := ROUNDUP kend PGSIZE\<rparr> else s)) (\<lambda>_.
     kbind (kget nextfree) (\<lambda>nf.
     kbind (kprintf (''boot_alloc memory at %x'' @ newline) [Word32 nf]) (\<lambda>_.
     kbind (kprintf (''Next memory at %x'' @ newline) [Word32 (ROUNDUP (nf + n) PGSIZE)]) (\<lambda>_.
     if n \<noteq> 0 then
       kbind (kmod (\<lambda>s. s\<lparr>nextfree := ROUNDUP (nextfree s + n) PGSIZE\<rparr>)) (\<lambda>_. kret nf)
     else kret nf))))"

subsection \<open>The free list\<close>

definition put_free_page :: "nat \<Rightarrow> kstate \<Rightarrow> kstate" where
  "put_free_page i s =
     (upd_page i (\<lambda>p. p\<lparr>pp_link := page_free_list s\<rparr>) s)\<lparr>page_free_list := Some i\<rparr>"

definition take_free_page :: "nat \<Rightarrow> kstate \<Rightarrow> kstate" where
  "take_free_page i s = s\<lparr>page_free_list := pp_link (pages s i)\<rparr>"

text \<open>One round of the two loops of \<open>page_init\<close>, and a loop from \<open>i\<close> below \<open>hi\<close>.\<close>

definition page_init_one :: "nat \<Rightarrow> kstate \<Rightarrow> kstate" where
  "page_init_one i s =
     (upd_page i (\<lambda>p. p\<lparr>pp_ref := 0, pp_link := page_free_list s\<rparr>) s)\<lparr>page_free_list := Some i\<rparr>"

function page_init_loop :: "nat \<Rightarrow> nat \<Rightarrow> kstate \<Rightarrow> kstate" where
  "page_init_loop i hi s = (if i < hi then page_init_loop (Suc i) hi (page_init_one i s) else s)"
  by pat_completeness auto
termination by (relation "measure (\<lambda>(i, hi, s). hi - i)") auto

declare page_init_loop.simps [simp del]

abbreviation (input) sizeof_Env :: u32 where "sizeof_Env \<equiv> 128"
abbreviation (input) sizeof_PageInfo :: u32 where "sizeof_PageInfo \<equiv> 8"

text \<open>The index of the first page after the \<open>envs\<close> array, with the \<open>int\<close> division of the code.\<close>

definition page_init_med :: "u32 \<Rightarrow> u32" where
  "page_init_med envs_addr =
     word_of_int (sint (ROUNDUP (envs_addr + sizeof_Env * 1024 - 0xf0000000) PGSIZE) sdiv 4096)"

definition page_init :: "unit kernel" where
  "page_init =
     kbind (kprintf (''MPENTRY_PADDR: %x'' @ newline) [Word32 MPENTRY_PADDR]) (\<lambda>_.
     kbind (kget npages_basemem) (\<lambda>nb.
     kbind (kprintf (''npages_basemem: %x'' @ newline) [Word32 nb]) (\<lambda>_.
     kbind (kmod (page_init_loop 1 (unat (MPENTRY_PADDR div PGSIZE)))) (\<lambda>_.
     kbind (kget (\<lambda>s. page_init_med (envs_kva s))) (\<lambda>med.
     kbind (kprintf (''med: %x'' @ newline) [Word32 med]) (\<lambda>_.
     kmod (\<lambda>s. page_init_loop (unat med) (unat (npages s)) s)))))))"

abbreviation (input) ALLOC_ZERO :: u32 where "ALLOC_ZERO \<equiv> 1"

definition page_alloc :: "u32 \<Rightarrow> nat option kernel" where
  "page_alloc alloc_flags =
     kbind (kget page_free_list) (\<lambda>fl. case fl of
       None \<Rightarrow> kret None
     | Some ret \<Rightarrow>
         kbind (kmod (take_free_page ret)) (\<lambda>_.
         kbind (kwhen (alloc_flags AND ALLOC_ZERO \<noteq> 0)
             (kbind (page2kva ret) (\<lambda>va. kmemset va 0 4096))) (\<lambda>_.
         kret (Some ret))))"

definition page_free :: "nat \<Rightarrow> unit kernel" where
  "page_free pp = kmod (put_free_page pp)"

definition page_decref :: "nat \<Rightarrow> unit kernel" where
  "page_decref pp =
     kbind (kmod (upd_page pp (\<lambda>p. p\<lparr>pp_ref := pp_ref p - 1\<rparr>))) (\<lambda>_.
     kbind (kget (\<lambda>s. pp_ref (pages s pp))) (\<lambda>r.
     kwhen (r = 0) (page_free pp)))"

definition page_incref :: "nat \<Rightarrow> unit kernel" where
  "page_incref pp = kmod (upd_page pp (\<lambda>p. p\<lparr>pp_ref := pp_ref p + 1\<rparr>))"

subsection \<open>The free list as a list\<close>

interpretation page_pool: free_pool page_free_list "\<lambda>s i. pp_link (pages s i)"
    put_free_page take_free_page
  by unfold_locales (auto simp: put_free_page_def take_free_page_def fun_eq_iff)

interpretation init_pool: free_pool page_free_list "\<lambda>s i. pp_link (pages s i)"
    page_init_one take_free_page
  by unfold_locales (auto simp: page_init_one_def take_free_page_def fun_eq_iff)

definition free_list :: "kstate \<Rightarrow> nat list \<Rightarrow> bool" where
  "free_list s xs \<longleftrightarrow> chain (\<lambda>i. pp_link (pages s i)) (page_free_list s) xs \<and>
     (\<forall>i \<in> set xs. i < unat (npages s))"

text \<open>At most 256 MB of memory, so that all of it is mapped at \<open>KERNBASE\<close>.\<close>

definition mem_ok :: "kstate \<Rightarrow> bool" where
  "mem_ok s \<longleftrightarrow> unat (npages s) \<le> 65536"

lemma free_list_distinct: "free_list s xs \<Longrightarrow> distinct xs"
  by (auto simp: free_list_def dest: chain_distinct)

lemma free_list_unique: "free_list s xs \<Longrightarrow> free_list s ys \<Longrightarrow> xs = ys"
  by (auto simp: free_list_def dest: chain_unique)

lemma free_list_Nil: "free_list s [] \<longleftrightarrow> page_free_list s = None"
  by (simp add: free_list_def)

lemma page2kva_ok:
  assumes "mem_ok s" and "pp < unat (npages s)"
  shows "page2kva pp s = Ret (page2pa pp + KERNBASE) s"
proof -
  have "unat (PGNUM (page2pa pp)) < unat (npages s)"
    using assms by (simp add: mem_ok_def PGNUM_page2pa)
  then show ?thesis by (simp add: page2kva_def KADDR_def word_le_nat_alt not_le)
qed

lemma unat_kva:
  assumes "unat pa < 268435456"
  shows "unat (pa + KERNBASE) = unat pa + 4026531840"
  using assms by (subst unat_add_no_wrap) (simp_all add: layout)

lemma kva_ge [simp]: "unat pa < 268435456 \<Longrightarrow> \<not> pa + KERNBASE < KERNBASE"
  using unat_kva [of pa] by (simp add: word_less_nat_alt layout)

lemma page2pa_low: "mem_ok s \<Longrightarrow> pp < unat (npages s) \<Longrightarrow> unat (page2pa pp) < 268435456"
  by (simp add: mem_ok_def unat_page2pa)

text \<open>The state after a successful \<open>page_alloc\<close>.\<close>

definition alloc_state :: "u32 \<Rightarrow> nat \<Rightarrow> kstate \<Rightarrow> kstate" where
  "alloc_state fl pp s =
     (take_free_page pp s)\<lparr>pmem := if fl AND ALLOC_ZERO \<noteq> 0
        then mem_set (pmem s) (page2pa pp) 0 4096 else pmem s\<rparr>"

lemma page_alloc_Some:
  assumes "free_list s (pp # xs)" and "mem_ok s"
  shows "page_alloc fl s = Ret (Some pp) (alloc_state fl pp s)"
proof -
  have pp: "pp < unat (npages s)" and hd: "page_free_list s = Some pp"
    using assms(1) by (auto simp: free_list_def)
  let ?t = "take_free_page pp s"
  have t: "mem_ok ?t" "pp < unat (npages ?t)" "pmem ?t = pmem s"
    using assms(2) pp by (simp_all add: mem_ok_def take_free_page_def)
  have va: "page2kva pp ?t = Ret (page2pa pp + KERNBASE) ?t"
    using t by (intro page2kva_ok)
  have "unat (page2pa pp) < 268435456"
    using t by (intro page2pa_low [of ?t])
  then have set: "kmemset (page2pa pp + KERNBASE) 0 4096 ?t =
      Ret () (?t\<lparr>pmem := mem_set (pmem s) (page2pa pp) 0 4096\<rparr>)"
    using t by (simp add: kmemset_def)
  show ?thesis
    using hd t
    by (simp add: page_alloc_def kbind_Ret va set kret_def alloc_state_def)
qed

lemma page_alloc_None: "page_free_list s = None \<Longrightarrow> page_alloc fl s = Ret None s"
  by (simp add: page_alloc_def kret_def)

lemma alloc_state_fields [simp]:
  "npages (alloc_state fl pp s) = npages s" "pages (alloc_state fl pp s) = pages s"
  "envs (alloc_state fl pp s) = envs s" "cpus (alloc_state fl pp s) = cpus s"
  "thiscpu (alloc_state fl pp s) = thiscpu s" "kern_pgdir (alloc_state fl pp s) = kern_pgdir s"
  "env_free_list (alloc_state fl pp s) = env_free_list s"
  "hwlog (alloc_state fl pp s) = hwlog s" "cr3 (alloc_state fl pp s) = cr3 s"
  "mem_ok (alloc_state fl pp s) = mem_ok s" "curenv (alloc_state fl pp s) = curenv s"
  by (simp_all add: alloc_state_def take_free_page_def mem_ok_def curenv_def)

lemma alloc_state_free_list: "free_list s (pp # xs) \<Longrightarrow> free_list (alloc_state fl pp s) xs"
  by (simp add: free_list_def alloc_state_def take_free_page_def)

lemma page_free_Ret: "page_free pp s = Ret () (put_free_page pp s)"
  by (simp add: page_free_def kmod_def)

lemma put_free_page_free_list:
  assumes "free_list s xs" and "pp \<notin> set xs" and "pp < unat (npages s)"
  shows "free_list (put_free_page pp s) (pp # xs)"
  using assms page_pool.put_chain [of s xs pp]
  by (auto simp: free_list_def put_free_page_def)

subsection \<open>Properties of the allocator\<close>

lemma sample_free_list [simp]:
  "free_list small_machine [4, 3, 2]" "free_list mapped_machine [4, 3, 2]"
  "free_list full_machine []"
  by (simp_all add: free_list_def)

lemma sample_mem_ok [simp]: "mem_ok small_machine" "mem_ok mapped_machine" "mem_ok full_machine"
  by (simp_all add: mem_ok_def)

lemma mem_set_page:
  assumes "aligned 4096 a"
  shows "mem_set m a c 4096 x = (if unat x div 4096 = unat a div 4096 then c else m x)"
  using assms by (simp add: mem_set_def in_page_iff)

text \<open>\<open>page_alloc\<close> returns the first page of the free list, takes it off, zeroes exactly
  that page when \<open>ALLOC_ZERO\<close> is set and touches nothing else: the reference counts and all
  other memory are as before.\<close>

theorem page_alloc_correct:
  assumes "free_list s (pp # xs)" and "mem_ok s"
  shows "\<exists>t. page_alloc fl s = Ret (Some pp) t \<and> free_list t xs \<and> pages t = pages s \<and>
    (\<forall>a. pmem t a = (if fl AND ALLOC_ZERO \<noteq> 0 \<and> unat a div 4096 = pp then 0 else pmem s a))"
proof (intro exI conjI)
  have "pp < 1048576" using assms by (simp add: free_list_def mem_ok_def)
  then show "\<forall>a. pmem (alloc_state fl pp s) a =
      (if fl AND ALLOC_ZERO \<noteq> 0 \<and> unat a div 4096 = pp then 0 else pmem s a)"
    by (simp add: alloc_state_def take_free_page_def mem_set_page unat_page2pa)
qed (use assms in \<open>simp_all add: page_alloc_Some alloc_state_free_list\<close>)

lemma page_alloc_correct_witness:
  "\<exists>t. page_alloc 1 mapped_machine = Ret (Some 4) t \<and> free_list t [3, 2] \<and>
    pages t = pages mapped_machine \<and>
    (\<forall>a. pmem t a = (if (1 :: u32) AND 1 \<noteq> 0 \<and> unat a div 4096 = 4 then 0 else pmem mapped_machine a))"
  by (rule page_alloc_correct) simp_all

text \<open>\<open>page_free\<close> of a page that is not free makes it the next page \<open>page_alloc\<close> returns,
  and that allocation restores the free list.\<close>

theorem page_free_alloc:
  assumes "free_list s xs" and "pp < unat (npages s)" and "pp \<notin> set xs" and "mem_ok s"
  shows "\<exists>t u. page_free pp s = Ret () t \<and> free_list t (pp # xs) \<and>
    page_alloc fl t = Ret (Some pp) u \<and> free_list u xs"
proof -
  let ?t = "put_free_page pp s"
  have fl: "free_list ?t (pp # xs)"
    using assms by (intro put_free_page_free_list)
  moreover have "mem_ok ?t" using assms(4) by (simp add: mem_ok_def put_free_page_def)
  ultimately have "page_alloc fl ?t = Ret (Some pp) (alloc_state fl pp ?t)"
    by (intro page_alloc_Some)
  with fl show ?thesis
    using page_free_Ret alloc_state_free_list by blast
qed

lemma page_free_alloc_witness:
  "\<exists>t u. page_free 7 small_machine = Ret () t \<and> free_list t [7, 4, 3, 2] \<and>
    page_alloc 0 t = Ret (Some 7) u \<and> free_list u [4, 3, 2]"
  by (rule page_free_alloc) simp_all

text \<open>\<open>page_decref\<close> gives the page back to the free list exactly when the count falls to
  zero; otherwise it only decrements the count.\<close>

theorem page_decref_frees_at_zero:
  assumes "free_list s xs" and "pp < unat (npages s)" and "pp \<notin> set xs"
  shows "\<exists>t. page_decref pp s = Ret () t \<and> pp_ref (pages t pp) = pp_ref (pages s pp) - 1 \<and>
    (pp_ref (pages s pp) = 1 \<longrightarrow> free_list t (pp # xs)) \<and>
    (pp_ref (pages s pp) \<noteq> 1 \<longrightarrow> free_list t xs)"
proof -
  let ?d = "upd_page pp (\<lambda>p. p\<lparr>pp_ref := pp_ref p - 1\<rparr>) s"
  have link: "(\<lambda>i. pp_link (pages ?d i)) = (\<lambda>i. pp_link (pages s i))" by auto
  have fl: "free_list ?d xs"
    using assms(1) unfolding free_list_def link by simp
  have zero: "pp_ref (pages s pp) - 1 = 0 \<longleftrightarrow> pp_ref (pages s pp) = 1" by simp
  show ?thesis
  proof (cases "pp_ref (pages s pp) = 1")
    case True
    then have "page_decref pp s = Ret () (put_free_page pp ?d)"
      by (simp add: page_decref_def kwhen_def page_free_Ret)
    moreover have "free_list (put_free_page pp ?d) (pp # xs)"
      using fl assms by (intro put_free_page_free_list) auto
    ultimately show ?thesis using True by (auto simp: put_free_page_def)
  next
    case False
    then have "page_decref pp s = Ret () ?d"
      by (simp add: page_decref_def kwhen_def kret_def)
    with fl False show ?thesis by auto
  qed
qed

lemma page_decref_frees_at_zero_witness:
  "\<exists>t. page_decref 7 small_machine = Ret () t \<and> pp_ref (pages t 7) = 0 \<and>
    free_list t [7, 4, 3, 2]"
  using page_decref_frees_at_zero [of small_machine "[4, 3, 2]" 7] by auto

text \<open>The loops of \<open>page_init\<close> put a range of pages on the list, the highest first.\<close>

lemma page_init_loop_fold: "page_init_loop i hi s = fold page_init_one [i..<hi] s"
proof (induction i hi s rule: page_init_loop.induct)
  case (1 i hi s)
  show ?case
  proof (cases "i < hi")
    case True
    then have "page_init_loop i hi s = page_init_loop (Suc i) hi (page_init_one i s)"
      by (subst page_init_loop.simps) simp
    also have "\<dots> = fold page_init_one [Suc i..<hi] (page_init_one i s)"
      using True by (rule 1)
    also have "\<dots> = fold page_init_one [i..<hi] s"
      using True by (simp add: upt_conv_Cons)
    finally show ?thesis .
  next
    case False
    then show ?thesis by (subst page_init_loop.simps) simp
  qed
qed

lemma fold_page_init_one_npages [simp]: "npages (fold page_init_one is s) = npages s"
  by (induction "is" arbitrary: s) (simp_all add: page_init_one_def)

lemma fold_page_init_one_envs [simp]: "envs_kva (fold page_init_one is s) = envs_kva s"
  by (induction "is" arbitrary: s) (simp_all add: page_init_one_def upd_page_def)

text \<open>After \<open>page_init\<close> the free list holds, from its head, the pages from the end of
  memory down to the first page after the \<open>envs\<close> array and then pages 6 to 1: page 0, the page
  at \<open>MPENTRY_PADDR\<close>, the I/O hole and the kernel image are not on it, and neither is any page
  of base memory from page 7 on.\<close>

theorem page_init_free_list:
  assumes "page_free_list s = None"
    and "7 \<le> unat (page_init_med (envs_kva s))"
    and "7 \<le> unat (npages s)"
  shows "\<exists>t. page_init s = Ret () t \<and>
    free_list t (rev [unat (page_init_med (envs_kva s))..<unat (npages s)] @ rev [1..<7])"
proof -
  let ?med = "unat (page_init_med (envs_kva s))" and ?np = "unat (npages s)"
  let ?link = "\<lambda>s i. pp_link (pages s i)"
  have mp: "unat (MPENTRY_PADDR div PGSIZE) = 7" by (simp add: layout)
  obtain c1 c2 where run: "page_init s = Ret () (fold page_init_one [?med..<?np]
      ((fold page_init_one [1..<7] (s\<lparr>cons := c1\<rparr>))\<lparr>cons := c2\<rparr>))"
    by (simp add: page_init_def mp page_init_loop_fold kmod_def)
  let ?s = "s\<lparr>cons := c1\<rparr>"
  let ?t = "(fold page_init_one [1..<7] ?s)\<lparr>cons := c2\<rparr>"
  let ?u = "fold page_init_one [?med..<?np] ?t"
  have "chain (?link (fold page_init_one [1..<7] ?s)) (page_free_list (fold page_init_one [1..<7] ?s))
      (rev [1..<7] @ [])"
    using assms(1) by (intro init_pool.put_all_chain) auto
  then have c: "chain (?link ?t) (page_free_list ?t) (rev [1..<7] @ [])" by simp
  have "chain (?link ?u) (page_free_list ?u) (rev [?med..<?np] @ (rev [1..<7] @ []))"
    using assms by (intro init_pool.put_all_chain [OF c]) auto
  then have "free_list ?u (rev [?med..<?np] @ rev [1..<7])"
    using assms(3) by (auto simp: free_list_def)
  with run show ?thesis by blast
qed

lemma page_init_free_list_witness:
  "\<exists>t. page_init full_machine = Ret () t \<and>
    free_list t (rev [unat (page_init_med 0xF0010000)..<64] @ rev [1..<7]) \<and>
    unat (page_init_med 0xF0010000) = 48"
  using page_init_free_list [of full_machine]
  by (simp add: page_init_med_def ROUNDUP_def ROUNDDOWN_def signed_divide_int_def)

text \<open>Successive chunks of the boot allocator are page-aligned and do not overlap, and the
  allocator leaves the kernel image alone.\<close>

theorem boot_alloc_disjoint:
  assumes "nextfree s = 0" and "kend \<noteq> 0"
    and "unat kend + unat n < 4294967296 - 8192"
  shows "\<exists>t u a b. boot_alloc kend n s = Ret a t \<and> boot_alloc kend m t = Ret b u \<and>
    aligned 4096 a \<and> aligned 4096 b \<and> kend \<le> a \<and> unat a + unat n \<le> unat b"
proof -
  have up: "x \<le> (x + 4096 - 1) - (x + 4096 - 1) mod 4096" for x :: nat
    using mod_less_divisor [of 4096 "x + 4096 - 1"] by linarith
  have up': "(x + 4096 - 1) - (x + 4096 - 1) mod 4096 < x + 4096" for x :: nat
    by linarith
  let ?a = "ROUNDUP kend PGSIZE"
  have a: "unat ?a = (unat kend + 4096 - 1) - (unat kend + 4096 - 1) mod 4096"
    using assms(3) by (subst ROUNDUP_no_wrap) simp_all
  have a_lo: "unat kend \<le> unat ?a" and a_hi: "unat ?a < unat kend + 4096"
    unfolding a by (rule up, rule up')
  have "unat kend > 0" using assms(2) by (simp add: unat_gt_0)
  with a_lo have a0: "?a \<noteq> 0" by (auto simp flip: unat_eq_0)
  have an: "unat (?a + n) = unat ?a + unat n"
    using a_hi assms(3) by (intro unat_add_no_wrap) simp
  let ?b = "ROUNDUP (?a + n) PGSIZE"
  have b: "unat ?b = (unat (?a + n) + 4096 - 1) - (unat (?a + n) + 4096 - 1) mod 4096"
    using a_hi assms(3) an by (subst ROUNDUP_no_wrap) simp_all
  have b_lo: "unat ?a + unat n \<le> unat ?b"
    unfolding b an by (rule up)
  with a_lo \<open>unat kend > 0\<close> have b0: "?b \<noteq> 0" by (auto simp flip: unat_eq_0)
  have al: "aligned 4096 ?a" "aligned 4096 ?b"
    by (simp_all add: ROUNDUP_def aligned_ROUNDDOWN)
  have ka: "kend \<le> ?a" using a_lo by (simp add: word_le_nat_alt)
  show ?thesis
    using al a0 b0 b_lo ka assms(1)
    by (cases "n = 0"; cases "m = 0") (simp_all add: boot_alloc_def kret_def)
qed

lemma boot_alloc_disjoint_witness:
  "\<exists>t u a b. boot_alloc 0xF0112345 8 small_machine = Ret a t \<and> boot_alloc 0xF0112345 0x1000 t = Ret b u \<and>
    aligned 4096 a \<and> aligned 4096 b \<and> 0xF0112345 \<le> a \<and> unat a + unat (8 :: u32) \<le> unat b"
  by (rule boot_alloc_disjoint) simp_all

end
