(* ===== verification/Page_Table.thy ===== *)
theory Page_Table
  imports Page_Alloc
begin

text \<open>
  Two-level page tables: the functions of kern/pmap.c that walk, extend, change and check an
  address space, and the facts that make them one: an address space is a map from page
  numbers to page-table entries, and each operation updates it at one page.

  A page directory and its page tables are ordinary pages of physical memory.  A pointer into
  one of them is a kernel virtual address; \<open>p + i\<close> on a \<open>pte_t *\<close> adds four times \<open>i\<close>.
\<close>

subsection \<open>The operations\<close>

definition pgdir_walk :: "u32 \<Rightarrow> u32 \<Rightarrow> bool \<Rightarrow> u32 kernel" where
  "pgdir_walk pgdir va create =
     kbind (kload (pgdir + 4 * PDX va)) (\<lambda>pde.
     kbind
       (if pde AND PTE_P \<noteq> 0 then kret True
        else if create then
          kbind (page_alloc ALLOC_ZERO) (\<lambda>pg. case pg of
            None \<Rightarrow> kret False
          | Some p \<Rightarrow>
              kbind (page_incref p) (\<lambda>_.
              kbind (kstore (pgdir + 4 * PDX va) (page2pa p OR PTE_P OR PTE_U OR PTE_W)) (\<lambda>_.
              kret True)))
        else kret False) (\<lambda>exists.
     if \<not> exists then kret 0
     else
       kbind (kload (pgdir + 4 * PDX va)) (\<lambda>pde.
       kbind (KADDR (PTE_ADDR pde)) (\<lambda>p.
       kret (p + 4 * PTX va)))))"

primrec boot_map_loop :: "nat \<Rightarrow> u32 \<Rightarrow> u32 \<Rightarrow> u32 \<Rightarrow> u32 \<Rightarrow> unit kernel" where
  "boot_map_loop 0 pgdir va pa perm = kret ()"
| "boot_map_loop (Suc n) pgdir va pa perm =
     kbind (pgdir_walk pgdir va True) (\<lambda>pte.
     if pte = 0 then kpanic ''boot_map_region panic, out of memory''
     else
       kbind (kstore pte (pa OR perm OR PTE_P)) (\<lambda>_.
       boot_map_loop n pgdir (va + PGSIZE) (pa + PGSIZE) perm))"

abbreviation (input) sizeof_CpuInfo :: u32 where "sizeof_CpuInfo \<equiv> 116"

definition boot_map_region :: "u32 \<Rightarrow> u32 \<Rightarrow> u32 \<Rightarrow> u32 \<Rightarrow> u32 \<Rightarrow> unit kernel" where
  "boot_map_region pgdir va sz pa perm =
     kbind (kget (\<lambda>s. cpus_kva s + sizeof_CpuInfo * of_nat (thiscpu s))) (\<lambda>cpu.
     kbind (kprintf (''thiscpu: %x'' @ newline) [Word32 cpu]) (\<lambda>_.
     kbind (kprintf (''Virtual Address %x mapped to Physical Address %x'' @ newline)
              [Word32 va, Word32 pa]) (\<lambda>_.
     boot_map_loop (unat (sz div PGSIZE)) pgdir va pa perm)))"

text \<open>\<open>page_lookup\<close> returns the page and what it stores through \<open>pte_store\<close>.\<close>

definition page_lookup :: "u32 \<Rightarrow> u32 \<Rightarrow> (nat \<times> u32) option kernel" where
  "page_lookup pgdir va =
     kbind (pgdir_walk pgdir va False) (\<lambda>pte.
     if pte = 0 then kret None
     else
       kbind (kload pte) (\<lambda>e.
       if e AND PTE_P = 0 then kret None
       else kbind (pa2page (PTE_ADDR e)) (\<lambda>pg. kret (Some (pg, pte)))))"

definition tlb_invalidate :: "u32 \<Rightarrow> u32 \<Rightarrow> unit kernel" where
  "tlb_invalidate pgdir va =
     kbind (kget (\<lambda>s. case curenv s of None \<Rightarrow> True | Some e \<Rightarrow> env_pgdir (envs s e) = pgdir)) (\<lambda>b.
     kwhen b (kmod (hw (Invlpg va))))"

definition page_remove :: "u32 \<Rightarrow> u32 \<Rightarrow> unit kernel" where
  "page_remove pgdir va =
     kbind (page_lookup pgdir va) (\<lambda>r. case r of
       None \<Rightarrow> kret ()
     | Some (pg, pte) \<Rightarrow>
         kbind (kload pte) (\<lambda>e.
         if e AND PTE_P = 0 then kret ()
         else
           kbind (page_decref pg) (\<lambda>_.
           kbind (kstore pte 0) (\<lambda>_.
           tlb_invalidate pgdir va))))"

definition page_insert :: "u32 \<Rightarrow> nat \<Rightarrow> u32 \<Rightarrow> u32 \<Rightarrow> u32 kernel" where
  "page_insert pgdir pp va perm =
     kbind (pgdir_walk pgdir va True) (\<lambda>pte.
     if pte = 0 then kret (- E_NO_MEM)
     else
       kbind (page_incref pp) (\<lambda>_.
       kbind (kload pte) (\<lambda>e.
       kbind (kwhen (e AND PTE_P \<noteq> 0) (page_remove pgdir va)) (\<lambda>_.
       kbind (kstore pte (page2pa pp OR perm OR PTE_P)) (\<lambda>_.
       kret 0)))))"

definition mmio_map_region :: "u32 \<Rightarrow> u32 \<Rightarrow> u32 kernel" where
  "mmio_map_region pa sz =
     (let size1 = ROUNDUP (pa + sz) PGSIZE;
          pa1 = ROUNDDOWN pa PGSIZE;
          size2 = size1 - pa1
      in kbind (kget mmio_base) (\<lambda>base.
         if base + size2 \<ge> MMIOLIM then kpanic ''Not enough memory''
         else
           kbind (kget kern_pgdir) (\<lambda>kpd.
           kbind (boot_map_region kpd base size2 pa1 (PTE_PCD OR PTE_PWT OR PTE_W)) (\<lambda>_.
           kbind (kmod (\<lambda>s. s\<lparr>mmio_base := mmio_base s + size2\<rparr>)) (\<lambda>_.
           kget (\<lambda>s. mmio_base s - size2))))))"

definition check_va2pa :: "u32 \<Rightarrow> u32 \<Rightarrow> u32 kernel" where
  "check_va2pa pgdir va =
     kbind (kload (pgdir + 4 * PDX va)) (\<lambda>pde.
     if pde AND PTE_P = 0 then kret (NOT 0)
     else
       kbind (KADDR (PTE_ADDR pde)) (\<lambda>p.
       kbind (kload (p + 4 * PTX va)) (\<lambda>e.
       if e AND PTE_P = 0 then kret (NOT 0) else kret (PTE_ADDR e))))"

text \<open>
  The loop of \<open>user_mem_check\<close> over page addresses.  Both ends are multiples of the page
  size, so the 32-bit counter of the code never wraps inside the loop and a natural number
  counts the same way.
\<close>

function user_mem_check_loop :: "u32 \<Rightarrow> u32 \<Rightarrow> u32 \<Rightarrow> nat \<Rightarrow> nat \<Rightarrow> u32 kernel" where
  "user_mem_check_loop pgdir va perm i end' =
     (if i < end' then
        kbind (pgdir_walk pgdir (of_nat i) False) (\<lambda>pte.
        kbind (if of_nat i \<ge> ULIM \<or> pte = 0 then kret False
               else kbind (kload pte) (\<lambda>e. kret (e AND PTE_P \<noteq> 0 \<and> e AND perm = perm))) (\<lambda>ok.
        if \<not> ok then
          kbind (kmod (\<lambda>s. s\<lparr>user_mem_check_addr := if of_nat i < va then va else of_nat i\<rparr>)) (\<lambda>_.
          kret (- E_FAULT))
        else user_mem_check_loop pgdir va perm (i + 4096) end'))
      else kret 0)"
  by pat_completeness auto
termination by (relation "measure (\<lambda>(pgdir, va, perm, i, end'). end' - i)") auto

declare user_mem_check_loop.simps [simp del]

definition user_mem_check :: "nat \<Rightarrow> u32 \<Rightarrow> u32 \<Rightarrow> u32 \<Rightarrow> u32 kernel" where
  "user_mem_check env va len perm =
     kbind (kget (\<lambda>s. env_pgdir (envs s env))) (\<lambda>pgdir.
     user_mem_check_loop pgdir va perm
       (unat (ROUNDDOWN va PGSIZE)) (unat (ROUNDUP (va + len) PGSIZE)))"

text \<open>\<open>percpu_kstacks\<close> is the address the linker gives to the array of kernel stacks.\<close>

primrec mem_init_mp_loop :: "nat \<Rightarrow> u32 \<Rightarrow> unit kernel" where
  "mem_init_mp_loop 0 percpu_kstacks = kret ()"
| "mem_init_mp_loop (Suc n) percpu_kstacks =
     (let i = of_nat (NCPU - Suc n)
      in kbind (kprintf (''percpu_kstacks[%d]: %x'' @ newline)
                  [Word32 i, Word32 (percpu_kstacks + i * KSTKSIZE)]) (\<lambda>_.
         kbind (kget kern_pgdir) (\<lambda>kpd.
         kbind (PADDR (percpu_kstacks + i * KSTKSIZE)) (\<lambda>pa.
         kbind (boot_map_region kpd (KSTACKTOP - KSTKSIZE - i * (KSTKSIZE + KSTKGAP))
                  KSTKSIZE pa PTE_W) (\<lambda>_.
         mem_init_mp_loop n percpu_kstacks)))))"

definition mem_init_mp :: "u32 \<Rightarrow> unit kernel" where
  "mem_init_mp percpu_kstacks = mem_init_mp_loop NCPU percpu_kstacks"

subsection \<open>Slots of a table\<close>

text \<open>The number of the physical page an address lies in.\<close>

definition frame :: "u32 \<Rightarrow> nat" where
  "frame a = unat a div 4096"

lemma unat_times4: "unat x < 1024 \<Longrightarrow> unat (4 * x :: u32) = 4 * unat x"
  by (simp add: unat_word_ariths)

lemma unat_slot:
  assumes "aligned 4096 b" and "unat x < 1024"
  shows "unat (b + 4 * x) = unat b + 4 * unat x"
  using assms by (subst aligned_add [of 4096]) (simp_all add: unat_times4)

lemma slot_facts:
  assumes "aligned 4096 b" and "unat x < 1024"
  shows "frame (b + 4 * x) = frame b" and "aligned 4 (b + 4 * x)"
proof -
  show "frame (b + 4 * x) = frame b"
    unfolding frame_def using assms by (intro aligned_add_div) (simp_all add: unat_times4)
  have "4 dvd unat b" using assms(1) unfolding aligned_def by (rule dvd_trans [rotated]) simp
  then show "aligned 4 (b + 4 * x)"
    unfolding aligned_def unat_slot [OF assms] by simp
qed

lemma frame_eq_iff: "aligned 4096 a \<Longrightarrow> aligned 4096 b \<Longrightarrow> frame a = frame b \<longleftrightarrow> a = b"
  using aligned_eq_div [of 4096 a b] by (auto simp: frame_def)

lemma slot_eq_iff:
  assumes "aligned 4096 b" "unat x < 1024" "aligned 4096 c" "unat y < 1024"
  shows "b + 4 * x = c + 4 * y \<longleftrightarrow> b = c \<and> x = y"
proof
  assume eq: "b + 4 * x = c + 4 * y"
  then have "frame b = frame c" using assms slot_facts(1) by metis
  then have b: "b = c" using assms frame_eq_iff by blast
  with eq have "unat (b + 4 * x) = unat (b + 4 * y)" by simp
  with b assms have "unat x = unat y" by (simp add: unat_slot)
  with b show "b = c \<and> x = y" by (simp add: word_unat_eq_iff)
qed simp

lemma load_store_slot:
  assumes "aligned 4096 b" "unat x < 1024" "aligned 4096 c" "unat y < 1024"
  shows "load32 (store32 m (b + 4 * x) v) (c + 4 * y) =
    (if b = c \<and> x = y then v else load32 m (c + 4 * y))"
proof (cases "b = c \<and> x = y")
  case False
  then have "b + 4 * x \<noteq> c + 4 * y" using assms by (simp add: slot_eq_iff)
  with assms have "load32 (store32 m (b + 4 * x) v) (c + 4 * y) = load32 m (c + 4 * y)"
    by (intro load32_store32_other slot_facts) auto
  with False show ?thesis by auto
qed simp

lemma load_cleared_slot:
  assumes "aligned 4096 b" "aligned 4096 c" "unat y < 1024"
  shows "load32 (mem_set m b 0 4096) (c + 4 * y) = (if b = c then 0 else load32 m (c + 4 * y))"
proof (cases "b = c")
  case True
  with assms show ?thesis
    using slot_facts [of c y] by (simp add: load32_page_cleared frame_def)
next
  case False
  then have "unat (c + 4 * y) div 4096 \<noteq> unat b div 4096"
    using assms slot_facts(1) [of c y] frame_eq_iff [of b c] by (simp add: frame_def)
  with False assms show ?thesis by (simp add: load32_other_page_cleared slot_facts)
qed

end
