(* ===== verification/Vspace.thy ===== *)
theory Vspace
  imports Page_Table
begin

text \<open>
  The specification of page tables: an address space is the map \<open>pte_of\<close> from addresses to
  page-table entries, and the operations of \<open>Page_Table\<close> are updates of that map at one page.
  The contract holds for every address outside the self-mapped table at \<open>UVPT\<close>.
\<close>

subsection \<open>Abstraction and well-formedness\<close>

definition pde_of :: "kstate \<Rightarrow> u32 \<Rightarrow> u32 \<Rightarrow> u32" where
  "pde_of s pgdir va = load32 (pmem s) (pgdir - KERNBASE + 4 * PDX va)"

definition pte_of :: "kstate \<Rightarrow> u32 \<Rightarrow> u32 \<Rightarrow> u32" where
  "pte_of s pgdir va =
     (if pde_of s pgdir va AND PTE_P = 0 then 0
      else load32 (pmem s) (PTE_ADDR (pde_of s pgdir va) + 4 * PTX va))"

definition slot_of :: "kstate \<Rightarrow> u32 \<Rightarrow> u32 \<Rightarrow> u32" where
  "slot_of s pgdir va = PTE_ADDR (pde_of s pgdir va) + 4 * PTX va + KERNBASE"

definition has_table :: "kstate \<Rightarrow> u32 \<Rightarrow> u32 \<Rightarrow> bool" where
  "has_table s pgdir va \<longleftrightarrow> PDX va \<noteq> PDX UVPT \<and> pde_of s pgdir va AND PTE_P \<noteq> 0"

text \<open>The page tables of a directory are pages of memory, different from the directory and
  from each other.\<close>

definition wf_pgdir :: "kstate \<Rightarrow> u32 \<Rightarrow> bool" where
  "wf_pgdir s pgdir \<longleftrightarrow>
     aligned 4096 (pgdir - KERNBASE) \<and> frame (pgdir - KERNBASE) < unat (npages s) \<and>
     (\<forall>va. has_table s pgdir va \<longrightarrow>
        frame (pde_of s pgdir va) < unat (npages s) \<and>
        PTE_ADDR (pde_of s pgdir va) \<noteq> pgdir - KERNBASE) \<and>
     (\<forall>va va'. has_table s pgdir va \<longrightarrow> has_table s pgdir va' \<longrightarrow> PDX va \<noteq> PDX va' \<longrightarrow>
        PTE_ADDR (pde_of s pgdir va) \<noteq> PTE_ADDR (pde_of s pgdir va'))"

definition tables_not_free :: "kstate \<Rightarrow> u32 \<Rightarrow> nat list \<Rightarrow> bool" where
  "tables_not_free s pgdir xs \<longleftrightarrow>
     frame (pgdir - KERNBASE) \<notin> set xs \<and>
     (\<forall>va. has_table s pgdir va \<longrightarrow> frame (pde_of s pgdir va) \<notin> set xs)"

definition vm_ok :: "kstate \<Rightarrow> u32 \<Rightarrow> nat list \<Rightarrow> bool" where
  "vm_ok s pgdir xs \<longleftrightarrow>
     mem_ok s \<and> free_list s xs \<and> wf_pgdir s pgdir \<and> tables_not_free s pgdir xs"

text \<open>No user address is served by the self-mapped table.\<close>

lemma below_UTOP: "va < UTOP \<Longrightarrow> PDX va \<noteq> PDX UVPT"
proof -
  assume "va < UTOP"
  then have "unat va div 4194304 < 957" by (simp add: word_less_nat_alt layout less_mult_imp_div_less)
  moreover have "unat (PDX UVPT) = 957" by (simp add: unat_PDX layout)
  ultimately show ?thesis by (auto simp flip: unat_PDX)
qed

subsection \<open>Kernel accesses to physical memory\<close>

lemma kload_phys: "unat a < 268435456 \<Longrightarrow> kload (a + KERNBASE) s = Ret (load32 (pmem s) a) s"
  by (simp add: kload_def)

lemma kstore_phys:
  "unat a < 268435456 \<Longrightarrow>
     kstore (a + KERNBASE) v s = Ret () (s\<lparr>pmem := store32 (pmem s) a v\<rparr>)"
  by (simp add: kstore_def)

lemma frame_low: "frame a < n \<Longrightarrow> n \<le> 65536 \<Longrightarrow> unat a < 268435456"
  using div_less_iff_less_mult [of 4096 "unat a" 65536] by (simp add: frame_def)

lemma frame_PTE_ADDR [simp]: "frame (PTE_ADDR e) = frame e"
  by (simp add: frame_def unat_PTE_ADDR minus_mod_eq_mult_div)

lemma slot_low:
  assumes "mem_ok s" "frame b < unat (npages s)" "aligned 4096 b" "unat x < 1024"
  shows "unat (b + 4 * x) < 268435456"
  using assms slot_facts(1) [of b x] by (intro frame_low) (auto simp: mem_ok_def)

lemma pgdir_slot: "pgdir + 4 * x = pgdir - KERNBASE + 4 * x + KERNBASE"
  by simp

lemma kload_pde:
  assumes "mem_ok s" and "wf_pgdir s pgdir"
  shows "kload (pgdir + 4 * PDX va) s = Ret (pde_of s pgdir va) s"
  unfolding pgdir_slot [of pgdir] pde_of_def
  using assms by (intro kload_phys slot_low [of s]) (auto simp: wf_pgdir_def PDX_less)

lemma KADDR_table:
  assumes "wf_pgdir s pgdir" and "has_table s pgdir va"
  shows "KADDR (PTE_ADDR (pde_of s pgdir va)) s =
    Ret (PTE_ADDR (pde_of s pgdir va) + KERNBASE) s"
  using assms
  by (auto simp: KADDR_def wf_pgdir_def word_le_nat_alt unat_PGNUM frame_def
      unat_PTE_ADDR minus_mod_eq_mult_div)

lemma table_slot_low:
  assumes "mem_ok s" "wf_pgdir s pgdir" "has_table s pgdir va"
  shows "unat (PTE_ADDR (pde_of s pgdir va) + 4 * PTX va) < 268435456"
  using assms by (intro slot_low [of s]) (auto simp: wf_pgdir_def PTX_less)

lemma slot_of_nonzero [simp]:
  assumes "mem_ok s" "wf_pgdir s pgdir" "has_table s pgdir va"
  shows "slot_of s pgdir va \<noteq> 0"
  using unat_kva [OF table_slot_low [OF assms]] by (auto simp: slot_of_def simp flip: unat_eq_0)

lemma kload_slot:
  assumes "mem_ok s" "wf_pgdir s pgdir" "has_table s pgdir va"
  shows "kload (slot_of s pgdir va) s = Ret (pte_of s pgdir va) s"
  using assms table_slot_low [OF assms]
  by (simp add: slot_of_def kload_phys pte_of_def has_table_def)

subsection \<open>Walking\<close>

lemma pgdir_walk_present:
  assumes "mem_ok s" "wf_pgdir s pgdir" "has_table s pgdir va"
  shows "pgdir_walk pgdir va create s = Ret (slot_of s pgdir va) s"
  using assms
  by (simp add: pgdir_walk_def kbind_Ret kload_pde KADDR_table has_table_def slot_of_def
      kret_def add_ac)

lemma pgdir_walk_absent:
  assumes "mem_ok s" "wf_pgdir s pgdir" "pde_of s pgdir va AND PTE_P = 0"
  shows "pgdir_walk pgdir va False s = Ret 0 s"
  using assms by (simp add: pgdir_walk_def kbind_Ret kload_pde kret_def)

lemma pgdir_walk_no_memory:
  assumes "mem_ok s" "wf_pgdir s pgdir" "pde_of s pgdir va AND PTE_P = 0"
    and "page_free_list s = None"
  shows "pgdir_walk pgdir va True s = Ret 0 s"
  using assms by (simp add: pgdir_walk_def kbind_Ret kload_pde page_alloc_None kret_def)

subsection \<open>Entries\<close>

lemma aligned_bits: "aligned 4096 a \<Longrightarrow> n < 12 \<Longrightarrow> \<not> bit a n"
proof -
  assume a: "aligned 4096 a" and n: "n < 12"
  have "take_bit 12 (unat a) = 0"
    using a by (simp add: aligned_def take_bit_eq_mod dvd_eq_mod_eq_0)
  then have "\<not> bit (take_bit 12 (unat a)) n" by simp
  with n show "\<not> bit a n" by (simp add: bit_simps bit_unsigned_iff)
qed

lemma low_bits: "(perm :: u32) < 4096 \<Longrightarrow> 12 \<le> n \<Longrightarrow> \<not> bit perm n"
proof -
  assume p: "perm < 4096" and n: "12 \<le> n"
  have "unat perm < 4096" using p by (simp add: word_less_nat_alt)
  then have "take_bit 12 (unat perm) = unat perm" by (simp add: take_bit_eq_mod)
  then have "bit (unat perm) n \<longleftrightarrow> bit (take_bit 12 (unat perm)) n" by simp
  with n show "\<not> bit perm n" by (simp add: bit_simps bit_unsigned_iff)
qed

lemma PTE_ADDR_or:
  assumes "aligned 4096 a" and "perm < 4096"
  shows "PTE_ADDR (a OR perm) = a"
proof (rule bit_word_eqI)
  fix n assume n: "n < LENGTH(32)"
  show "bit (PTE_ADDR (a OR perm)) n = bit a n"
    unfolding PTE_ADDR_def word_mask_12
    using n aligned_bits [OF assms(1), of n] low_bits [OF assms(2), of n]
    by (cases "n < 12") (auto simp: bit_simps not_less)
qed

lemma less_4096_iff: "(p :: u32) < 4096 \<longleftrightarrow> take_bit 12 p = p"
proof
  assume "p < 4096"
  then have "unat p < 4096" by (simp add: word_less_nat_alt)
  then show "take_bit 12 p = p"
    by (simp add: take_bit_eq_mod word_unat_eq_iff unat_mod)
next
  assume "take_bit 12 p = p"
  then have "unat p = unat (p mod 4096)" by (simp add: take_bit_eq_mod)
  then have "unat p = unat p mod 4096" by (simp add: unat_mod)
  then show "p < 4096" by (simp add: word_less_nat_alt)
qed

lemma or_less_4096: "(p :: u32) < 4096 \<Longrightarrow> q < 4096 \<Longrightarrow> p OR q < 4096"
  by (simp add: less_4096_iff take_bit_or)

lemma and_or_same [simp]:
  "((x :: u32) OR b) AND b = b" "(b OR x) AND b = b"
  by (auto simp: bit_eq_iff bit_simps)

lemma PTE_P_nonzero [simp]: "PTE_P \<noteq> 0"
  by (simp add: layout)

lemma present_or [simp]: "(x OR PTE_P) AND PTE_P \<noteq> 0" "(x OR PTE_P OR y) AND PTE_P \<noteq> 0"
    "(x OR y OR PTE_P) AND PTE_P \<noteq> 0"
proof -
  have b: "bit PTE_P 0" by (simp add: layout)
  have "bit ((x OR PTE_P) AND PTE_P) 0" "bit ((x OR PTE_P OR y) AND PTE_P) 0"
      "bit ((x OR y OR PTE_P) AND PTE_P) 0"
    using b by (simp_all add: bit_simps)
  then show "(x OR PTE_P) AND PTE_P \<noteq> 0" "(x OR PTE_P OR y) AND PTE_P \<noteq> 0"
      "(x OR y OR PTE_P) AND PTE_P \<noteq> 0"
    by (auto simp del: and_or_same)
qed

subsection \<open>Making a page table\<close>

text \<open>The state after \<open>pgdir_walk\<close> has put the free page \<open>q\<close> into the directory.\<close>

definition walk_state :: "u32 \<Rightarrow> u32 \<Rightarrow> nat \<Rightarrow> kstate \<Rightarrow> kstate" where
  "walk_state pgdir va q s =
     (let t = upd_page q (\<lambda>p. p\<lparr>pp_ref := pp_ref p + 1\<rparr>) (alloc_state ALLOC_ZERO q s)
      in t\<lparr>pmem := store32 (pmem t) (pgdir - KERNBASE + 4 * PDX va)
            (page2pa q OR PTE_P OR PTE_U OR PTE_W)\<rparr>)"

lemma walk_state_fields [simp]:
  "npages (walk_state pgdir va q s) = npages s"
  "pages (walk_state pgdir va q s) =
     (pages s)(q := pages s q\<lparr>pp_ref := pp_ref (pages s q) + 1\<rparr>)"
  "page_free_list (walk_state pgdir va q s) = pp_link (pages s q)"
  "envs (walk_state pgdir va q s) = envs s" "cpus (walk_state pgdir va q s) = cpus s"
  "thiscpu (walk_state pgdir va q s) = thiscpu s" "hwlog (walk_state pgdir va q s) = hwlog s"
  "kern_pgdir (walk_state pgdir va q s) = kern_pgdir s"
  "env_free_list (walk_state pgdir va q s) = env_free_list s"
  "curenv (walk_state pgdir va q s) = curenv s"
  "mem_ok (walk_state pgdir va q s) = mem_ok s"
  by (simp_all add: walk_state_def Let_def alloc_state_def take_free_page_def curenv_def mem_ok_def)

lemma pmem_walk_state:
  "pmem (walk_state pgdir va q s) =
     store32 (mem_set (pmem s) (page2pa q) 0 4096) (pgdir - KERNBASE + 4 * PDX va)
       (page2pa q OR PTE_P OR PTE_U OR PTE_W)"
  by (simp add: walk_state_def Let_def alloc_state_def)

lemma table_flags: "PTE_P OR PTE_U OR PTE_W < 4096"
  by (simp add: layout)

lemma PTE_ADDR_table: "PTE_ADDR (page2pa q OR PTE_P OR PTE_U OR PTE_W) = page2pa q"
  by (rule PTE_ADDR_or) (simp_all add: table_flags)

lemma vm_ok_page_facts:
  assumes "vm_ok s pgdir (q # xs)"
  shows "mem_ok s" "free_list s (q # xs)" "wf_pgdir s pgdir" "q < unat (npages s)" "q < 65536"
    "page2pa q \<noteq> pgdir - KERNBASE" "aligned 4096 (pgdir - KERNBASE)"
    "\<And>va. has_table s pgdir va \<Longrightarrow> PTE_ADDR (pde_of s pgdir va) \<noteq> page2pa q"
proof -
  show m: "mem_ok s" "free_list s (q # xs)" "wf_pgdir s pgdir" and qn: "q < unat (npages s)"
    using assms by (auto simp: vm_ok_def free_list_def)
  then show q: "q < 65536" by (simp add: mem_ok_def)
  then have fq: "frame (page2pa q) = q" by (simp add: frame_def unat_page2pa)
  show "page2pa q \<noteq> pgdir - KERNBASE"
    using assms fq by (auto simp: vm_ok_def tables_not_free_def)
  show "aligned 4096 (pgdir - KERNBASE)" using m by (simp add: wf_pgdir_def)
  show "PTE_ADDR (pde_of s pgdir va) \<noteq> page2pa q" if "has_table s pgdir va" for va
    using assms that fq frame_PTE_ADDR [of "pde_of s pgdir va"]
    by (auto simp: vm_ok_def tables_not_free_def simp del: frame_PTE_ADDR)
qed

lemma pde_walk_state:
  assumes "vm_ok s pgdir (q # xs)"
  shows "pde_of (walk_state pgdir va q s) pgdir va' =
    (if PDX va' = PDX va then page2pa q OR PTE_P OR PTE_U OR PTE_W else pde_of s pgdir va')"
  using vm_ok_page_facts [OF assms]
  by (simp add: pde_of_def pmem_walk_state load_store_slot load_cleared_slot PDX_less)

lemma has_table_walk_state:
  assumes "vm_ok s pgdir (q # xs)" "PDX va \<noteq> PDX UVPT"
  shows "has_table (walk_state pgdir va q s) pgdir va' \<longleftrightarrow>
    PDX va' = PDX va \<or> has_table s pgdir va'"
  using assms by (auto simp: has_table_def pde_walk_state)

lemma pte_walk_state:
  assumes "vm_ok s pgdir (q # xs)" "pde_of s pgdir va AND PTE_P = 0" "PDX va' \<noteq> PDX UVPT"
  shows "pte_of (walk_state pgdir va q s) pgdir va' = pte_of s pgdir va'"
proof (cases "PDX va' = PDX va")
  case True
  then have "pde_of s pgdir va' AND PTE_P = 0" using assms(2) by (simp add: pde_of_def)
  with True show ?thesis
    using vm_ok_page_facts [OF assms(1)]
    by (simp add: pte_of_def pde_walk_state [OF assms(1)] PTE_ADDR_table pmem_walk_state
        load_store_slot load_cleared_slot PDX_less PTX_less)
next
  case False
  show ?thesis
  proof (cases "has_table s pgdir va'")
    case True
    have "page2pa q \<noteq> PTE_ADDR (pde_of s pgdir va')"
      using vm_ok_page_facts(8) [OF assms(1) True] by (rule not_sym)
    moreover have "pgdir - KERNBASE \<noteq> PTE_ADDR (pde_of s pgdir va')"
      using vm_ok_page_facts(3) [OF assms(1)] True unfolding wf_pgdir_def by metis
    moreover note True False
    ultimately show ?thesis
      using vm_ok_page_facts [OF assms(1)]
      by (simp add: pte_of_def pde_walk_state [OF assms(1)] pmem_walk_state
        load_store_slot load_cleared_slot PDX_less PTX_less)
  next
    case no: False
    with assms(3) False show ?thesis
      by (simp add: pte_of_def has_table_def pde_walk_state [OF assms(1)])
  qed
qed

lemma pgdir_walk_alloc:
  assumes "vm_ok s pgdir (q # xs)" "pde_of s pgdir va AND PTE_P = 0"
  shows "pgdir_walk pgdir va True s =
    Ret (page2pa q + 4 * PTX va + KERNBASE) (walk_state pgdir va q s)"
proof -
  note f = vm_ok_page_facts [OF assms(1)]
  let ?u = "upd_page q (\<lambda>p. p\<lparr>pp_ref := pp_ref p + 1\<rparr>) (alloc_state ALLOC_ZERO q s)"
  let ?t = "walk_state pgdir va q s"
  have pa: "page_alloc ALLOC_ZERO s = Ret (Some q) (alloc_state ALLOC_ZERO q s)"
    using f by (intro page_alloc_Some)
  have slot: "unat (pgdir - KERNBASE + 4 * PDX va) < 268435456"
    using f by (intro slot_low [of s]) (auto simp: wf_pgdir_def PDX_less)
  have st: "kstore (pgdir + 4 * PDX va) (page2pa q OR PTE_P OR PTE_U OR PTE_W) ?u = Ret () ?t"
    unfolding pgdir_slot [of pgdir] kstore_phys [OF slot] by (simp add: walk_state_def Let_def)
  have ld: "kload (pgdir + 4 * PDX va) ?t = Ret (page2pa q OR PTE_P OR PTE_U OR PTE_W) ?t"
    unfolding pgdir_slot [of pgdir] kload_phys [OF slot]
    using pde_walk_state [OF assms(1), of va va] by (simp add: pde_of_def)
  have ka: "KADDR (page2pa q) ?t = Ret (page2pa q + KERNBASE) ?t"
    using f page2kva_ok [of ?t q] by (simp add: page2kva_def)
  show ?thesis
    using assms(2) f st
    by (simp add: pgdir_walk_def kbind_Ret kload_pde pa page_incref_def ld PTE_ADDR_table ka
        kret_def add_ac)
qed

text \<open>Making the table keeps everything well-formed.\<close>

lemma vm_ok_walk_state:
  assumes v: "vm_ok s pgdir (q # xs)" and absent: "pde_of s pgdir va AND PTE_P = 0"
    and va: "PDX va \<noteq> PDX UVPT"
  shows "vm_ok (walk_state pgdir va q s) pgdir xs"
proof -
  note f = vm_ok_page_facts [OF v]
  let ?t = "walk_state pgdir va q s"
  have fq: "frame (page2pa q) = q" using f by (simp add: frame_def unat_page2pa)
  have fpde: "frame (page2pa q OR PTE_P OR PTE_U OR PTE_W) = q"
    using fq by (metis PTE_ADDR_table frame_PTE_ADDR)
  have link: "(\<lambda>i. pp_link (pages ?t i)) = (\<lambda>i. pp_link (pages s i))" by auto
  have fl: "free_list ?t xs"
    using f(2) unfolding free_list_def link by auto
  have wf: "wf_pgdir ?t pgdir"
    using f(3,4,6,7) f(8) absent va
    unfolding wf_pgdir_def has_table_walk_state [OF v va] pde_walk_state [OF v]
    by (auto simp: fpde PTE_ADDR_table) metis+
  have "q \<notin> set xs" using free_list_distinct [OF f(2)] by simp
  then have "tables_not_free ?t pgdir xs"
    using v unfolding tables_not_free_def has_table_walk_state [OF v va] pde_walk_state [OF v]
    by (auto simp: fpde vm_ok_def tables_not_free_def)
  with fl wf f(1) show ?thesis by (simp add: vm_ok_def)
qed

subsection \<open>Writing one entry\<close>

definition set_pte :: "u32 \<Rightarrow> u32 \<Rightarrow> u32 \<Rightarrow> kstate \<Rightarrow> kstate" where
  "set_pte pgdir va v s =
     s\<lparr>pmem := store32 (pmem s) (PTE_ADDR (pde_of s pgdir va) + 4 * PTX va) v\<rparr>"

lemma set_pte_fields [simp]:
  "npages (set_pte pgdir va v s) = npages s" "pages (set_pte pgdir va v s) = pages s"
  "page_free_list (set_pte pgdir va v s) = page_free_list s"
  "envs (set_pte pgdir va v s) = envs s" "cpus (set_pte pgdir va v s) = cpus s"
  "thiscpu (set_pte pgdir va v s) = thiscpu s" "hwlog (set_pte pgdir va v s) = hwlog s"
  "kern_pgdir (set_pte pgdir va v s) = kern_pgdir s"
  "env_free_list (set_pte pgdir va v s) = env_free_list s"
  "mem_ok (set_pte pgdir va v s) = mem_ok s" "curenv (set_pte pgdir va v s) = curenv s"
  by (simp_all add: set_pte_def mem_ok_def curenv_def)

lemma same_page_iff: "PGNUM va = PGNUM va' \<longleftrightarrow> PDX va = PDX va' \<and> PTX va = PTX va'"
proof
  assume eq: "PGNUM va = PGNUM va'"
  have dm: "x div 4194304 = x div 4096 div 1024" for x :: nat by (simp add: div_mult2_eq)
  have n: "unat va div 4096 = unat va' div 4096" using eq by (simp flip: unat_PGNUM)
  then have "unat (PDX va) = unat (PDX va')" "unat (PTX va) = unat (PTX va')"
    unfolding unat_PDX unat_PTX dm by simp_all
  then show "PDX va = PDX va' \<and> PTX va = PTX va'" by (simp add: word_unat_eq_iff)
qed (auto intro: PDX_PTX_page)

lemma kstore_slot:
  assumes "mem_ok s" "wf_pgdir s pgdir" "has_table s pgdir va"
  shows "kstore (slot_of s pgdir va) v s = Ret () (set_pte pgdir va v s)"
  unfolding slot_of_def kstore_phys [OF table_slot_low [OF assms]] by (simp add: set_pte_def)

lemma pde_set_pte:
  assumes "wf_pgdir s pgdir" "has_table s pgdir va"
  shows "pde_of (set_pte pgdir va v s) pgdir va' = pde_of s pgdir va'"
proof -
  have "PTE_ADDR (pde_of s pgdir va) \<noteq> pgdir - KERNBASE" "aligned 4096 (pgdir - KERNBASE)"
    using assms by (auto simp: wf_pgdir_def)
  then show ?thesis
    by (simp add: set_pte_def pde_of_def load_store_slot PTX_less PDX_less)
qed

lemma has_table_set_pte:
  assumes "wf_pgdir s pgdir" "has_table s pgdir va"
  shows "has_table (set_pte pgdir va v s) pgdir va' = has_table s pgdir va'"
  by (simp add: has_table_def pde_set_pte [OF assms])

lemma slot_of_set_pte:
  assumes "wf_pgdir s pgdir" "has_table s pgdir va"
  shows "slot_of (set_pte pgdir va v s) pgdir va' = slot_of s pgdir va'"
  by (simp add: slot_of_def pde_set_pte [OF assms])

lemma pte_set_pte:
  assumes wf: "wf_pgdir s pgdir" and t: "has_table s pgdir va" and va': "PDX va' \<noteq> PDX UVPT"
  shows "pte_of (set_pte pgdir va v s) pgdir va' =
    (if PGNUM va' = PGNUM va then v else pte_of s pgdir va')"
proof (cases "has_table s pgdir va'")
  case True
  have eq: "PTE_ADDR (pde_of s pgdir va) = PTE_ADDR (pde_of s pgdir va') \<longleftrightarrow> PDX va = PDX va'"
  proof
    assume "PDX va = PDX va'"
    then show "PTE_ADDR (pde_of s pgdir va) = PTE_ADDR (pde_of s pgdir va')"
      by (simp add: pde_of_def)
  qed (use wf t True in \<open>auto simp: wf_pgdir_def\<close>)
  have "pte_of (set_pte pgdir va v s) pgdir va' =
      load32 (pmem (set_pte pgdir va v s)) (PTE_ADDR (pde_of s pgdir va') + 4 * PTX va')"
    using True by (simp add: pte_of_def pde_set_pte [OF wf t] has_table_def)
  also have "\<dots> = (if PGNUM va' = PGNUM va then v
      else load32 (pmem s) (PTE_ADDR (pde_of s pgdir va') + 4 * PTX va'))"
    by (auto simp add: set_pte_def load_store_slot PTX_less same_page_iff eq)
  finally show ?thesis using True by (simp add: pte_of_def has_table_def)
next
  case False
  then have p: "pde_of s pgdir va' AND PTE_P = 0" using va' by (simp add: has_table_def)
  have "PGNUM va' \<noteq> PGNUM va"
    using t p by (auto simp: same_page_iff has_table_def pde_of_def)
  with p show ?thesis by (simp add: pte_of_def pde_set_pte [OF wf t])
qed

lemma wf_set_pte:
  assumes "wf_pgdir s pgdir" "has_table s pgdir va"
  shows "wf_pgdir (set_pte pgdir va v s) pgdir"
  using assms(1) unfolding wf_pgdir_def has_table_set_pte [OF assms] pde_set_pte [OF assms]
  by simp

text \<open>The abstraction looks at nothing but memory.\<close>

lemma vspace_cong:
  assumes "pmem t = pmem s"
  shows "pde_of t = pde_of s" "pte_of t = pte_of s" "has_table t = has_table s"
    "slot_of t = slot_of s"
  by (rule ext, rule ext, simp add: assms pde_of_def pte_of_def has_table_def slot_of_def)+

lemma wf_pgdir_cong:
  assumes "pmem t = pmem s" "npages t = npages s"
  shows "wf_pgdir t = wf_pgdir s"
  using assms(2) by (simp add: wf_pgdir_def fun_eq_iff vspace_cong [OF assms(1)])

subsection \<open>Removing a mapping\<close>

definition decref_state :: "nat \<Rightarrow> kstate \<Rightarrow> kstate" where
  "decref_state pg s =
     (let d = upd_page pg (\<lambda>p. p\<lparr>pp_ref := pp_ref p - 1\<rparr>) s
      in if pp_ref (pages s pg) = 1 then put_free_page pg d else d)"

lemma page_decref_Ret: "page_decref pg s = Ret () (decref_state pg s)"
  by (simp add: page_decref_def decref_state_def Let_def kwhen_def page_free_Ret kret_def)

lemma decref_state_fields [simp]:
  "pmem (decref_state pg s) = pmem s" "npages (decref_state pg s) = npages s"
  "envs (decref_state pg s) = envs s" "cpus (decref_state pg s) = cpus s"
  "thiscpu (decref_state pg s) = thiscpu s" "hwlog (decref_state pg s) = hwlog s"
  "kern_pgdir (decref_state pg s) = kern_pgdir s"
  "env_free_list (decref_state pg s) = env_free_list s"
  "curenv (decref_state pg s) = curenv s" "mem_ok (decref_state pg s) = mem_ok s"
  "pp_ref (pages (decref_state pg s) i) =
     (if i = pg then pp_ref (pages s pg) - 1 else pp_ref (pages s i))"
  by (simp_all add: decref_state_def Let_def put_free_page_def curenv_def mem_ok_def)

definition tlb_state :: "u32 \<Rightarrow> u32 \<Rightarrow> kstate \<Rightarrow> kstate" where
  "tlb_state pgdir va s =
     (if (case curenv s of None \<Rightarrow> True | Some e \<Rightarrow> env_pgdir (envs s e) = pgdir)
      then hw (Invlpg va) s else s)"

lemma tlb_invalidate_Ret: "tlb_invalidate pgdir va s = Ret () (tlb_state pgdir va s)"
  by (simp add: tlb_invalidate_def tlb_state_def kwhen_def kmod_def kret_def)

lemma tlb_state_fields [simp]:
  "pmem (tlb_state pgdir va s) = pmem s" "npages (tlb_state pgdir va s) = npages s"
  "pages (tlb_state pgdir va s) = pages s" "envs (tlb_state pgdir va s) = envs s"
  "page_free_list (tlb_state pgdir va s) = page_free_list s"
  "cpus (tlb_state pgdir va s) = cpus s" "thiscpu (tlb_state pgdir va s) = thiscpu s"
  "kern_pgdir (tlb_state pgdir va s) = kern_pgdir s"
  "env_free_list (tlb_state pgdir va s) = env_free_list s"
  "curenv (tlb_state pgdir va s) = curenv s" "mem_ok (tlb_state pgdir va s) = mem_ok s"
  by (simp_all add: tlb_state_def mem_ok_def)

lemma page_lookup_present:
  assumes "mem_ok s" "wf_pgdir s pgdir" "has_table s pgdir va"
    and "pte_of s pgdir va AND PTE_P \<noteq> 0" "frame (pte_of s pgdir va) < unat (npages s)"
  shows "page_lookup pgdir va s = Ret (Some (frame (pte_of s pgdir va), slot_of s pgdir va)) s"
proof -
  have "pa2page (PTE_ADDR (pte_of s pgdir va)) s = Ret (frame (pte_of s pgdir va)) s"
    using assms(5) frame_PTE_ADDR [of "pte_of s pgdir va"]
    by (simp add: pa2page_def word_le_nat_alt unat_PGNUM frame_def del: frame_PTE_ADDR)
  then show ?thesis
    using assms by (simp add: page_lookup_def kbind_Ret pgdir_walk_present kload_slot kret_def)
qed

lemma pte_of_no_table: "PDX va \<noteq> PDX UVPT \<Longrightarrow> \<not> has_table s pgdir va \<Longrightarrow> pte_of s pgdir va = 0"
  by (simp add: has_table_def pte_of_def)

lemma page_lookup_absent:
  assumes "mem_ok s" "wf_pgdir s pgdir" "PDX va \<noteq> PDX UVPT" "pte_of s pgdir va AND PTE_P = 0"
  shows "page_lookup pgdir va s = Ret None s"
proof (cases "has_table s pgdir va")
  case True
  with assms show ?thesis
    by (simp add: page_lookup_def kbind_Ret pgdir_walk_present kload_slot kret_def)
next
  case False
  with assms have "pde_of s pgdir va AND PTE_P = 0" by (simp add: has_table_def)
  with assms show ?thesis
    by (simp add: page_lookup_def kbind_Ret pgdir_walk_absent kret_def)
qed

definition remove_state :: "u32 \<Rightarrow> u32 \<Rightarrow> kstate \<Rightarrow> kstate" where
  "remove_state pgdir va s =
     tlb_state pgdir va (set_pte pgdir va 0 (decref_state (frame (pte_of s pgdir va)) s))"

lemma page_remove_present:
  assumes "mem_ok s" "wf_pgdir s pgdir" "has_table s pgdir va"
    and "pte_of s pgdir va AND PTE_P \<noteq> 0" "frame (pte_of s pgdir va) < unat (npages s)"
  shows "page_remove pgdir va s = Ret () (remove_state pgdir va s)"
proof -
  let ?d = "decref_state (frame (pte_of s pgdir va)) s"
  have d: "mem_ok ?d" "wf_pgdir ?d pgdir" "has_table ?d pgdir va"
      "slot_of ?d pgdir va = slot_of s pgdir va"
    using assms wf_pgdir_cong [of ?d s] vspace_cong [of ?d s] by auto
  have "kstore (slot_of s pgdir va) 0 ?d = Ret () (set_pte pgdir va 0 ?d)"
    using kstore_slot [OF d(1-3), of 0] d(4) by simp
  then show ?thesis
    using assms
    by (simp add: page_remove_def kbind_Ret page_lookup_present kload_slot page_decref_Ret
        tlb_invalidate_Ret remove_state_def)
qed

lemma page_remove_absent:
  assumes "mem_ok s" "wf_pgdir s pgdir" "PDX va \<noteq> PDX UVPT" "pte_of s pgdir va AND PTE_P = 0"
  shows "page_remove pgdir va s = Ret () s"
  using assms by (simp add: page_remove_def kbind_Ret page_lookup_absent kret_def)

subsection \<open>The sample machines\<close>

lemma sample_pde [simp]:
  "pde_of small_machine sample_pgdir va = 0" "pde_of full_machine sample_pgdir va = 0"
  "pde_of mapped_machine sample_pgdir va = (if PDX va = 2 then 0x6007 else 0)"
proof -
  have "aligned 4096 0x5000" "aligned 4096 0x6000" by (simp_all add: aligned_def)
  then show "pde_of mapped_machine sample_pgdir va = (if PDX va = 2 then 0x6007 else 0)"
    using load_store_slot [of "0x5000" 2 "0x5000" "PDX va"]
      load_store_slot [of "0x6000" 0 "0x5000" "PDX va"]
    by (simp add: pde_of_def mapped_machine_def layout PDX_less)
qed (simp_all add: pde_of_def)

lemma PTE_ADDR_sample [simp]: "PTE_ADDR 0x6007 = 0x6000" "PTE_ADDR 0x7007 = 0x7000"
  by (simp_all add: PTE_ADDR_def)

lemma sample_pte [simp]:
  "pte_of small_machine sample_pgdir va = 0"
  "pte_of mapped_machine sample_pgdir va = (if PDX va = 2 \<and> PTX va = 0 then 0x7007 else 0)"
proof -
  have "aligned 4096 0x5000" "aligned 4096 0x6000" by (simp_all add: aligned_def)
  then show "pte_of mapped_machine sample_pgdir va =
      (if PDX va = 2 \<and> PTX va = 0 then 0x7007 else 0)"
    using load_store_slot [of "0x5000" 2 "0x6000" "PTX va"]
      load_store_slot [of "0x6000" 0 "0x6000" "PTX va"]
    by (simp add: pte_of_def, simp add: mapped_machine_def layout PTX_less)
qed (simp add: pte_of_def)

lemma sample_vm_ok [simp]:
  "vm_ok small_machine sample_pgdir [4, 3, 2]" "vm_ok mapped_machine sample_pgdir [4, 3, 2]"
  "wf_pgdir full_machine sample_pgdir"
  by (auto simp: vm_ok_def wf_pgdir_def tables_not_free_def has_table_def aligned_def frame_def
      layout)

lemma sample_wf_pgdir [simp]:
  "wf_pgdir small_machine sample_pgdir" "wf_pgdir mapped_machine sample_pgdir"
  using sample_vm_ok by (simp_all add: vm_ok_def)

lemma PDX_sample [simp]: "PDX 0x800000 = 2" "PTX 0x800000 = 0" "PDX UVPT = 957" "PDX 0xEF400000 = 957"
  by (simp_all add: PDX_def PTX_def layout)

lemma frame_sample [simp]: "frame 0x7007 = 7"
  by (simp add: frame_def)

subsection \<open>Properties\<close>

lemma remove_state_vspace:
  assumes "mem_ok s" "wf_pgdir s pgdir" "has_table s pgdir va" "PDX va' \<noteq> PDX UVPT"
  shows "pte_of (remove_state pgdir va s) pgdir va' =
      (if PGNUM va' = PGNUM va then 0 else pte_of s pgdir va')"
    and "wf_pgdir (remove_state pgdir va s) pgdir"
    and "slot_of (remove_state pgdir va s) pgdir va = slot_of s pgdir va"
    and "has_table (remove_state pgdir va s) pgdir va"
proof -
  let ?d = "decref_state (frame (pte_of s pgdir va)) s"
  let ?t = "remove_state pgdir va s"
  have d: "wf_pgdir ?d pgdir" "has_table ?d pgdir va" "pte_of ?d pgdir va' = pte_of s pgdir va'"
      "slot_of ?d pgdir va = slot_of s pgdir va"
    using assms wf_pgdir_cong [of ?d s] vspace_cong [of ?d s] by auto
  let ?u = "set_pte pgdir va 0 ?d"
  have t: "pmem ?t = pmem ?u" "npages ?t = npages ?u" by (simp_all add: remove_state_def)
  show "pte_of ?t pgdir va' = (if PGNUM va' = PGNUM va then 0 else pte_of s pgdir va')"
    using d assms(4) by (simp add: vspace_cong [OF t(1)] pte_set_pte)
  show "wf_pgdir ?t pgdir" using d by (simp add: wf_pgdir_cong [OF t] wf_set_pte)
  show "slot_of ?t pgdir va = slot_of s pgdir va"
    using d by (simp add: vspace_cong [OF t(1)] slot_of_set_pte)
  show "has_table ?t pgdir va"
    using d by (simp add: vspace_cong [OF t(1)] has_table_set_pte)
qed

lemma page_remove_maps:
  assumes "mem_ok s" "wf_pgdir s pgdir" "PDX va \<noteq> PDX UVPT"
    and "pte_of s pgdir va AND PTE_P \<noteq> 0" "frame (pte_of s pgdir va) < unat (npages s)"
  shows "\<exists>t. page_remove pgdir va s = Ret () t \<and> wf_pgdir t pgdir \<and>
    (\<forall>va'. PDX va' \<noteq> PDX UVPT \<longrightarrow>
       pte_of t pgdir va' = (if PGNUM va' = PGNUM va then 0 else pte_of s pgdir va')) \<and>
    (\<forall>i. pp_ref (pages t i) =
       (if i = frame (pte_of s pgdir va) then pp_ref (pages s i) - 1 else pp_ref (pages s i))) \<and>
    (curenv s = None \<longrightarrow> hwlog t = Invlpg va # hwlog s)"
proof -
  have tab: "has_table s pgdir va"
    using assms(3,4) pte_of_no_table [of va s pgdir] by fastforce
  let ?t = "remove_state pgdir va s"
  have "page_remove pgdir va s = Ret () ?t"
    using assms tab by (intro page_remove_present)
  moreover have "\<forall>i. pp_ref (pages ?t i) =
     (if i = frame (pte_of s pgdir va) then pp_ref (pages s i) - 1 else pp_ref (pages s i))"
    by (simp add: remove_state_def)
  moreover have "curenv s = None \<longrightarrow> hwlog ?t = Invlpg va # hwlog s"
    by (simp add: remove_state_def tlb_state_def)
  ultimately show ?thesis
    using remove_state_vspace [OF assms(1,2) tab] assms(3) by (intro exI [of _ ?t]) simp
qed

text \<open>The second half of \<open>page_insert\<close>, once the walk has found the slot.\<close>

definition insert_at :: "u32 \<Rightarrow> nat \<Rightarrow> u32 \<Rightarrow> u32 \<Rightarrow> kstate \<Rightarrow> kstate" where
  "insert_at pgdir pp va perm s =
     (let i = upd_page pp (\<lambda>p. p\<lparr>pp_ref := pp_ref p + 1\<rparr>) s;
          r = (if pte_of s pgdir va AND PTE_P \<noteq> 0 then remove_state pgdir va i else i)
      in set_pte pgdir va (page2pa pp OR perm OR PTE_P) r)"

lemma page_insert_at:
  assumes walk: "pgdir_walk pgdir va True s = Ret (slot_of t pgdir va) t"
    and t: "mem_ok t" "wf_pgdir t pgdir" "has_table t pgdir va"
    and old: "pte_of t pgdir va AND PTE_P \<noteq> 0 \<Longrightarrow> frame (pte_of t pgdir va) < unat (npages t)"
  shows "page_insert pgdir pp va perm s = Ret 0 (insert_at pgdir pp va perm t)"
proof -
  let ?i = "upd_page pp (\<lambda>p. p\<lparr>pp_ref := pp_ref p + 1\<rparr>) t"
  have i: "mem_ok ?i" "wf_pgdir ?i pgdir" "has_table ?i pgdir va" "PDX va \<noteq> PDX UVPT"
      "slot_of ?i pgdir va = slot_of t pgdir va" "pte_of ?i pgdir va = pte_of t pgdir va"
    using t wf_pgdir_cong [of ?i t] vspace_cong [of ?i t]
    by (auto simp: mem_ok_def has_table_def)
  let ?r = "if pte_of t pgdir va AND PTE_P \<noteq> 0 then remove_state pgdir va ?i else ?i"
  have ld: "kload (slot_of t pgdir va) ?i = Ret (pte_of t pgdir va) ?i"
    using kload_slot [OF i(1-3)] i(5,6) by simp
  have rm: "page_remove pgdir va ?i = Ret () (remove_state pgdir va ?i)"
    if "pte_of t pgdir va AND PTE_P \<noteq> 0"
    using page_remove_present [OF i(1-3)] i(6) old that by simp
  have r: "mem_ok ?r" "wf_pgdir ?r pgdir" "has_table ?r pgdir va"
      "slot_of ?r pgdir va = slot_of t pgdir va"
    using i remove_state_vspace [OF i(1-4)] by (auto simp: remove_state_def)
  have st: "kstore (slot_of t pgdir va) v ?r = Ret () (set_pte pgdir va v ?r)" for v
    using kstore_slot [OF r(1-3)] r(4) by simp
  have nz: "slot_of t pgdir va \<noteq> 0" using t by simp
  show ?thesis
  proof (cases "pte_of t pgdir va AND PTE_P = 0")
    case True
    with st nz show ?thesis
      by (simp add: page_insert_def kbind_Ret walk page_incref_def ld kret_def insert_at_def Let_def)
  next
    case False
    with st nz rm show ?thesis
      by (simp add: page_insert_def kbind_Ret walk page_incref_def ld kret_def insert_at_def Let_def)
  qed
qed

lemma insert_at_vspace:
  assumes "mem_ok s" "wf_pgdir s pgdir" "has_table s pgdir va" "PDX va' \<noteq> PDX UVPT"
  shows "pte_of (insert_at pgdir pp va perm s) pgdir va' =
      (if PGNUM va' = PGNUM va then page2pa pp OR perm OR PTE_P else pte_of s pgdir va')"
    and "wf_pgdir (insert_at pgdir pp va perm s) pgdir"
proof -
  let ?i = "upd_page pp (\<lambda>p. p\<lparr>pp_ref := pp_ref p + 1\<rparr>) s"
  have i: "mem_ok ?i" "wf_pgdir ?i pgdir" "has_table ?i pgdir va"
      "pte_of ?i pgdir va' = pte_of s pgdir va'"
    using assms wf_pgdir_cong [of ?i s] vspace_cong [of ?i s]
    by (auto simp: mem_ok_def)
  note rv = remove_state_vspace [OF i(1-3) assms(4)]
  show "pte_of (insert_at pgdir pp va perm s) pgdir va' =
      (if PGNUM va' = PGNUM va then page2pa pp OR perm OR PTE_P else pte_of s pgdir va')"
    using i rv assms(4) by (simp add: insert_at_def Let_def pte_set_pte)
  show "wf_pgdir (insert_at pgdir pp va perm s) pgdir"
    using i rv by (simp add: insert_at_def Let_def wf_set_pte)
qed

text \<open>What the walk with \<open>create\<close> set does in each of its three cases.\<close>

lemma pgdir_walk_create:
  assumes "vm_ok s pgdir xs" "PDX va \<noteq> PDX UVPT" "has_table s pgdir va \<or> xs \<noteq> []"
  obtains t ys where "pgdir_walk pgdir va True s = Ret (slot_of t pgdir va) t"
    and "vm_ok t pgdir ys" and "has_table t pgdir va"
    and "\<And>va'. PDX va' \<noteq> PDX UVPT \<Longrightarrow> pte_of t pgdir va' = pte_of s pgdir va'"
    and "npages t = npages s" and "has_table s pgdir va \<Longrightarrow> t = s"
proof (cases "has_table s pgdir va")
  case True
  with assms that show ?thesis
    using pgdir_walk_present [of s pgdir va True] by (auto simp: vm_ok_def)
next
  case False
  with assms obtain q ys where xs: "xs = q # ys" by (cases xs) auto
  have absent: "pde_of s pgdir va AND PTE_P = 0"
    using False assms(2) by (simp add: has_table_def)
  let ?t = "walk_state pgdir va q s"
  have slot: "slot_of ?t pgdir va = page2pa q + 4 * PTX va + KERNBASE"
    using assms(1) xs by (simp add: slot_of_def pde_walk_state PTE_ADDR_table)
  show ?thesis
  proof (rule that)
    show "pgdir_walk pgdir va True s = Ret (slot_of ?t pgdir va) ?t"
      unfolding slot using assms(1) xs absent by (intro pgdir_walk_alloc) auto
    show "vm_ok ?t pgdir ys" using assms(1,2) xs absent by (intro vm_ok_walk_state) auto
    show "has_table ?t pgdir va" using assms(1,2) xs by (simp add: has_table_walk_state)
    show "pte_of ?t pgdir va' = pte_of s pgdir va'" if "PDX va' \<noteq> PDX UVPT" for va'
      using assms(1) xs absent that by (intro pte_walk_state) auto
  qed (use False in simp_all)
qed

lemma page_insert_maps:
  assumes "vm_ok s pgdir xs" "PDX va \<noteq> PDX UVPT" "has_table s pgdir va \<or> xs \<noteq> []"
    and "pte_of s pgdir va AND PTE_P = 0 \<or> frame (pte_of s pgdir va) < unat (npages s)"
  shows "\<exists>t. page_insert pgdir pp va perm s = Ret 0 t \<and> wf_pgdir t pgdir \<and>
    (\<forall>va'. PDX va' \<noteq> PDX UVPT \<longrightarrow> pte_of t pgdir va' =
       (if PGNUM va' = PGNUM va then page2pa pp OR perm OR PTE_P else pte_of s pgdir va'))"
proof -
  obtain u ys where walk: "pgdir_walk pgdir va True s = Ret (slot_of u pgdir va) u"
    and u: "vm_ok u pgdir ys" "has_table u pgdir va"
    and same: "\<And>va'. PDX va' \<noteq> PDX UVPT \<Longrightarrow> pte_of u pgdir va' = pte_of s pgdir va'"
    and np: "npages u = npages s"
    using pgdir_walk_create [OF assms(1-3)] by blast
  have m: "mem_ok u" "wf_pgdir u pgdir" using u by (auto simp: vm_ok_def)
  let ?t = "insert_at pgdir pp va perm u"
  have "page_insert pgdir pp va perm s = Ret 0 ?t"
    using assms(2,4) same np u by (intro page_insert_at [OF walk m]) auto
  then show ?thesis
    using insert_at_vspace(1) [OF m u(2)] insert_at_vspace(2) [OF m u(2) assms(2)] same
    by (intro exI [of _ ?t]) simp
qed

text \<open>C10. \<open>page_insert\<close> maps the page at \<open>va\<close> with the given permissions and leaves every
  other entry of the address space as it was, whether the page table existed or had to be
  made and whether another page was mapped there before.\<close>

theorem page_insert_correct:
  assumes "vm_ok s pgdir xs" "PDX va \<noteq> PDX UVPT" "has_table s pgdir va \<or> xs \<noteq> []"
    and "pte_of s pgdir va AND PTE_P = 0 \<or> frame (pte_of s pgdir va) < unat (npages s)"
  shows "\<exists>t. page_insert pgdir pp va perm s = Ret 0 t \<and> wf_pgdir t pgdir \<and>
    (\<forall>va'. PDX va' \<noteq> PDX UVPT \<longrightarrow> pte_of t pgdir va' =
       (if PGNUM va' = PGNUM va then page2pa pp OR perm OR PTE_P else pte_of s pgdir va'))"
  using assms by (rule page_insert_maps)

lemma page_insert_correct_witness:
  "\<exists>t. page_insert sample_pgdir 9 0x800000 7 small_machine = Ret 0 t \<and>
    pte_of t sample_pgdir 0x800000 = 0x9007"
  using page_insert_correct [of small_machine sample_pgdir "[4, 3, 2]" "0x800000" 9 7]
  by (auto simp: layout page2pa_def)

text \<open>When the page table is missing and no page is free, \<open>page_insert\<close> returns
  \<open>-E_NO_MEM\<close> and the state is exactly what it was.\<close>

theorem page_insert_no_mem:
  assumes "mem_ok s" "wf_pgdir s pgdir" "pde_of s pgdir va AND PTE_P = 0"
    and "page_free_list s = None"
  shows "page_insert pgdir pp va perm s = Ret (- E_NO_MEM) s"
  using assms by (simp add: page_insert_def kbind_Ret pgdir_walk_no_memory kret_def)

lemma page_insert_no_mem_witness:
  "page_insert sample_pgdir 9 0x800000 7 full_machine = Ret (- 4) full_machine"
  by (rule page_insert_no_mem) simp_all

text \<open>Re-inserting a page where it is already mapped changes only the permissions: the
  reference count is what it was and the page is not freed on the way.\<close>

theorem page_insert_again:
  assumes "mem_ok s" "wf_pgdir s pgdir" "has_table s pgdir va"
    and "pte_of s pgdir va AND PTE_P \<noteq> 0" "frame (pte_of s pgdir va) = pp"
    and "pp < unat (npages s)" "pp_ref (pages s pp) \<noteq> 0"
  shows "\<exists>t. page_insert pgdir pp va perm s = Ret 0 t \<and> pages t = pages s \<and>
    page_free_list t = page_free_list s \<and> pte_of t pgdir va = page2pa pp OR perm OR PTE_P"
proof -
  let ?t = "insert_at pgdir pp va perm s"
  let ?i = "upd_page pp (\<lambda>p. p\<lparr>pp_ref := pp_ref p + 1\<rparr>) s"
  have "page_insert pgdir pp va perm s = Ret 0 ?t"
    using assms by (intro page_insert_at pgdir_walk_present) auto
  moreover have "pte_of ?i pgdir va = pte_of s pgdir va" by (simp add: vspace_cong [of ?i s])
  then have "pages ?t = pages s" "page_free_list ?t = page_free_list s"
    using assms(4,5,7)
    by (auto simp: insert_at_def Let_def remove_state_def decref_state_def fun_eq_iff)
  moreover have "pte_of ?t pgdir va = page2pa pp OR perm OR PTE_P"
    using assms insert_at_vspace(1) [of s pgdir va va] by (simp add: has_table_def)
  ultimately show ?thesis by blast
qed

lemma page_insert_again_witness:
  "\<exists>t. page_insert sample_pgdir 7 0x800000 5 mapped_machine = Ret 0 t \<and>
    pages t = pages mapped_machine \<and> page_free_list t = Some 4 \<and>
    pte_of t sample_pgdir 0x800000 = 0x7005"
  using page_insert_again [of mapped_machine sample_pgdir "0x800000" 7 5]
  by (auto simp: layout page2pa_def has_table_def)

lemma page_insert_refs:
  assumes "mem_ok s" "wf_pgdir s pgdir" "has_table s pgdir va"
    and "pte_of s pgdir va AND PTE_P = 0"
  shows "\<exists>t. page_insert pgdir pp va perm s = Ret 0 t \<and> page_free_list t = page_free_list s \<and>
    (\<forall>i. pp_ref (pages t i) = (if i = pp then pp_ref (pages s i) + 1 else pp_ref (pages s i)))"
proof -
  let ?t = "insert_at pgdir pp va perm s"
  have "page_insert pgdir pp va perm s = Ret 0 ?t"
    using assms by (intro page_insert_at pgdir_walk_present) auto
  then show ?thesis
    using assms(4) by (intro exI [of _ ?t]) (simp add: insert_at_def Let_def)
qed

text \<open>Inserting a page at an unmapped address adds one reference to that page and none to
  any other, and frees nothing.\<close>

theorem page_insert_fresh_refs:
  assumes "mem_ok s" "wf_pgdir s pgdir" "has_table s pgdir va"
    and "pte_of s pgdir va AND PTE_P = 0"
  shows "\<exists>t. page_insert pgdir pp va perm s = Ret 0 t \<and> page_free_list t = page_free_list s \<and>
    (\<forall>i. pp_ref (pages t i) = (if i = pp then pp_ref (pages s i) + 1 else pp_ref (pages s i)))"
  using assms by (rule page_insert_refs)

lemma page_insert_fresh_refs_witness:
  "\<exists>t. page_insert sample_pgdir 7 0x801000 7 mapped_machine = Ret 0 t \<and>
    pp_ref (pages t 7) = 2 \<and> page_free_list t = Some 4"
proof -
  have "PDX 0x801000 = 2" "PTX 0x801000 = 1" by (simp_all add: PDX_def PTX_def)
  then show ?thesis
    using page_insert_fresh_refs [of mapped_machine sample_pgdir "0x801000" 7 7]
    by (auto simp: layout has_table_def)
qed

lemma page_lookup_eq:
  assumes "mem_ok s" "wf_pgdir s pgdir" "PDX va \<noteq> PDX UVPT"
    and "pte_of s pgdir va AND PTE_P = 0 \<or> frame (pte_of s pgdir va) < unat (npages s)"
  shows "page_lookup pgdir va s =
    Ret (if pte_of s pgdir va AND PTE_P = 0 then None
         else Some (frame (pte_of s pgdir va), slot_of s pgdir va)) s"
proof (cases "pte_of s pgdir va AND PTE_P = 0")
  case True
  with assms show ?thesis by (simp add: page_lookup_absent)
next
  case False
  then have "has_table s pgdir va" using assms(3) pte_of_no_table [of va s pgdir] by fastforce
  with False assms show ?thesis by (simp add: page_lookup_present)
qed

text \<open>\<open>page_lookup\<close> finds a page exactly when the address is mapped, and then it is the
  page whose frame the entry names; it never changes the state.\<close>

theorem page_lookup_correct:
  assumes "mem_ok s" "wf_pgdir s pgdir" "PDX va \<noteq> PDX UVPT"
    and "pte_of s pgdir va AND PTE_P = 0 \<or> frame (pte_of s pgdir va) < unat (npages s)"
  shows "page_lookup pgdir va s =
    Ret (if pte_of s pgdir va AND PTE_P = 0 then None
         else Some (frame (pte_of s pgdir va), slot_of s pgdir va)) s"
  using assms by (rule page_lookup_eq)

lemma page_lookup_correct_witness:
  "page_lookup sample_pgdir 0x800000 mapped_machine = Ret (Some (7, 0xF0006000)) mapped_machine"
  using page_lookup_correct [of mapped_machine sample_pgdir "0x800000"]
  by (simp add: layout slot_of_def)

subsection \<open>What the operations leave alone\<close>

text \<open>Page-table operations change memory, the page array and the free list only.\<close>

definition outside :: "kstate \<Rightarrow> (nat \<Rightarrow> Env) \<times> nat option \<times> nat \<times> (nat \<Rightarrow> CpuInfo) \<times> spinlock \<times> u32 \<times> u32 \<times> (nat \<Rightarrow> u32)" where
  "outside s = (envs s, env_free_list s, thiscpu s, cpus s, kernel_lock s, npages s, kern_pgdir s, cr3 s)"

lemma outside_updates [simp]:
  "outside (s\<lparr>pmem := m\<rparr>) = outside s" "outside (s\<lparr>page_free_list := q\<rparr>) = outside s"
  "outside (upd_page i g s) = outside s" "outside (hw opn s) = outside s"
  "outside (put_free_page i s) = outside s" "outside (take_free_page i s) = outside s"
  "outside (s\<lparr>cons := c\<rparr>) = outside s" "outside (s\<lparr>user_mem_check_addr := a\<rparr>) = outside s"
  by (simp_all add: outside_def put_free_page_def take_free_page_def)

abbreviation (input) same_outside :: "kstate \<Rightarrow> kstate \<Rightarrow> bool" where
  "same_outside s t \<equiv> outside t = outside s"

lemma keeps_access [keeps_intro]:
  "keeps (same_outside s) (kload p)" "keeps (same_outside s) (kstore p v)"
  "keeps (same_outside s) (kmemset p b n)" "keeps (same_outside s) (KADDR p)"
  "keeps (same_outside s) (PADDR p)" "keeps (same_outside s) (pa2page p)"
  by (auto intro!: keepsI simp: kload_def kstore_def kmemset_def KADDR_def PADDR_def pa2page_def
      split: if_splits)

lemma keeps_pages [keeps_intro]:
  "keeps (same_outside s) (page2kva i)" "keeps (same_outside s) (page_free i)"
  "keeps (same_outside s) (page_incref i)"
  unfolding page2kva_def page_free_def page_incref_def by (intro keeps_intro; simp)+

lemma keeps_page_alloc [keeps_intro]:
  "keeps (same_outside s) (page_alloc fl)" "keeps (same_outside s) (page_decref i)"
  unfolding page_alloc_def page_decref_def by (intro keeps_intro; simp)+

lemma keeps_pgdir_walk [keeps_intro]: "keeps (same_outside s) (pgdir_walk pgdir va create)"
  unfolding pgdir_walk_def by (intro keeps_intro)

lemma keeps_page_lookup [keeps_intro]:
  "keeps (same_outside s) (tlb_invalidate pgdir va)" "keeps (same_outside s) (page_lookup pgdir va)"
  unfolding page_lookup_def tlb_invalidate_def by (intro keeps_intro; simp)+

lemma keeps_page_remove [keeps_intro]: "keeps (same_outside s) (page_remove pgdir va)"
  unfolding page_remove_def by (intro keeps_intro)

lemma keeps_page_insert [keeps_intro]: "keeps (same_outside s) (page_insert pgdir pp va perm)"
  unfolding page_insert_def by (intro keeps_intro)

lemma page_insert_envs:
  "page_insert pgdir pp va perm s = Ret r t \<Longrightarrow>
    envs t = envs s \<and> npages t = npages s \<and> curenv t = curenv s"
  using keeps_Ret [OF keeps_page_insert [of s pgdir pp va perm], of s r t]
  by (simp add: outside_def curenv_def)

end
