(* ===== verification/Vmem.thy ===== *)
theory Vmem
  imports Vspace
begin

text \<open>
  Access through virtual addresses.  The kernel reads and writes user memory through the page
  directory that is in force on its CPU (\<open>load_icode\<close> fills a new environment, \<open>sys_cputs\<close>
  reads a string, the page-fault handler writes a frame on the user's exception stack).  The
  translation is the one of the x86 paging hardware; an access without a translation is a page
  fault in the kernel, which \<open>page_fault_handler\<close> turns into a panic.
\<close>

definition CR0_WP :: u32 where [layout]: "CR0_WP = 0x00010000"

text \<open>\<open>user\<close>: the access is made in user mode; \<open>wr\<close>: it is a write.\<close>

definition access_ok :: "kstate \<Rightarrow> bool \<Rightarrow> bool \<Rightarrow> u32 \<Rightarrow> bool" where
  "access_ok s user wr e \<longleftrightarrow>
     e AND PTE_P \<noteq> 0 \<and> (user \<longrightarrow> e AND PTE_U \<noteq> 0) \<and>
     (wr \<and> (user \<or> cr0 s AND CR0_WP \<noteq> 0) \<longrightarrow> e AND PTE_W \<noteq> 0)"

definition translate :: "kstate \<Rightarrow> bool \<Rightarrow> bool \<Rightarrow> u32 \<Rightarrow> u32 option" where
  "translate s user wr va =
     (let pd = PTE_ADDR (cr3 s (thiscpu s));
          pde = load32 (pmem s) (pd + 4 * PDX va);
          pte = load32 (pmem s) (PTE_ADDR pde + 4 * PTX va)
      in if access_ok s user wr pde \<and> access_ok s user wr pte
         then Some (PTE_ADDR pte OR PGOFF va) else None)"

definition vload8 :: "u32 \<Rightarrow> u8 kernel" where
  "vload8 va s =
     (case translate s False False va of
        None \<Rightarrow> Panic ''Kernel page fault!'' s
      | Some pa \<Rightarrow> Ret (pmem s pa) s)"

definition vstore8 :: "u32 \<Rightarrow> u8 \<Rightarrow> unit kernel" where
  "vstore8 va b s =
     (case translate s False True va of
        None \<Rightarrow> Panic ''Kernel page fault!'' s
      | Some pa \<Rightarrow> Ret () (s\<lparr>pmem := (pmem s)(pa := b)\<rparr>))"

definition vstore32 :: "u32 \<Rightarrow> u32 \<Rightarrow> unit kernel" where
  "vstore32 va v =
     kbind (vstore8 va (ucast v)) (\<lambda>_.
     kbind (vstore8 (va + 1) (ucast (drop_bit 8 v))) (\<lambda>_.
     kbind (vstore8 (va + 2) (ucast (drop_bit 16 v))) (\<lambda>_.
     vstore8 (va + 3) (ucast (drop_bit 24 v)))))"

text \<open>\<open>memset\<close>, and \<open>memcpy\<close> from a kernel address, on virtual addresses.\<close>

primrec vmemset :: "nat \<Rightarrow> u32 \<Rightarrow> u8 \<Rightarrow> unit kernel" where
  "vmemset 0 va c = kret ()"
| "vmemset (Suc n) va c = kbind (vstore8 va c) (\<lambda>_. vmemset n (va + 1) c)"

definition kload8 :: "u32 \<Rightarrow> u8 kernel" where
  "kload8 p s = (if p < KERNBASE then Panic ''Kernel page fault!'' s
     else Ret (pmem s (p - KERNBASE)) s)"

primrec vmemcpy :: "nat \<Rightarrow> u32 \<Rightarrow> u32 \<Rightarrow> unit kernel" where
  "vmemcpy 0 va p = kret ()"
| "vmemcpy (Suc n) va p =
     kbind (kload8 p) (\<lambda>b. kbind (vstore8 va b) (\<lambda>_. vmemcpy n (va + 1) (p + 1)))"

primrec vload_bytes :: "nat \<Rightarrow> u32 \<Rightarrow> u8 list kernel" where
  "vload_bytes 0 va = kret []"
| "vload_bytes (Suc n) va =
     kbind (vload8 va) (\<lambda>b. kbind (vload_bytes n (va + 1)) (\<lambda>bs. kret (b # bs)))"

end
