(* ===== verification/Mem_Init.thy ===== *)
theory Mem_Init
  imports Vmem
begin

text \<open>
  The start of memory management, \<open>mem_init\<close> of kern/pmap.c, in three stages (the arrays of the
  kernel and the free list; the mappings of the kernel; the switch to the new page directory),
  and the self tests that run between them.  The tests are code like any other: they take
  pages from the free list, map and unmap them, and panic when something is not as expected.
\<close>

text \<open>The addresses that the linker gives to objects of the kernel image.\<close>

record ksymbols =
  sym_bootstack :: u32
  sym_percpu_kstacks :: u32
  sym_mpentry_start :: u32
  sym_mpentry_end :: u32
  sym_user_yield :: u32 \<comment> \<open>the embedded program, \<open>_binary_obj_user_yield_start\<close>\<close>

definition CR0_PE :: u32 where [layout]: "CR0_PE = 0x00000001"
definition CR0_MP :: u32 where [layout]: "CR0_MP = 0x00000002"
definition CR0_EM :: u32 where [layout]: "CR0_EM = 0x00000004"
definition CR0_TS :: u32 where [layout]: "CR0_TS = 0x00000008"
definition CR0_NE :: u32 where [layout]: "CR0_NE = 0x00000020"
definition CR0_AM :: u32 where [layout]: "CR0_AM = 0x00040000"
definition CR0_PG :: u32 where [layout]: "CR0_PG = 0x80000000"

subsection \<open>The free list under test\<close>

abbreviation (input) check :: "bool \<Rightarrow> unit kernel" where
  "check b \<equiv> kassert b ''assertion failed''"

definition page_ptr :: "kstate \<Rightarrow> nat \<Rightarrow> u32" where
  "page_ptr s pp = pages_kva s + sizeof_PageInfo * of_nat pp"

text \<open>A loop \<open>for (pp = page_free_list; pp; pp = pp->pp_link)\<close>, with fuel.\<close>

primrec for_links :: "nat \<Rightarrow> (nat \<Rightarrow> unit kernel) \<Rightarrow> nat option \<Rightarrow> unit kernel" where
  "for_links 0 body p = kleave Spin"
| "for_links (Suc n) body p =
     (case p of
        None \<Rightarrow> kret ()
      | Some pp \<Rightarrow>
          kbind (body pp) (\<lambda>_.
          kbind (kget (\<lambda>s. pp_link (pages s pp))) (for_links n body)))"

definition for_free_pages :: "(nat \<Rightarrow> unit kernel) \<Rightarrow> unit kernel" where
  "for_free_pages body = kbind (kget page_free_list) (for_links (2 ^ 32) body)"

text \<open>
  The list is split in two: \<open>tp[0]\<close> and \<open>tp[1]\<close> point to the link where the next page of their
  kind goes, which is first a local variable and then the link of a page.
\<close>

datatype linkptr = In_pp1 | In_pp2 | In_page nat

record page_split =
  sp_pp1 :: "nat option"
  sp_pp2 :: "nat option"
  sp_tp0 :: linkptr
  sp_tp1 :: linkptr

definition put_link :: "linkptr \<Rightarrow> nat option \<Rightarrow> page_split \<Rightarrow> page_split kernel" where
  "put_link p v l = (case p of
      In_pp1 \<Rightarrow> kret (l\<lparr>sp_pp1 := v\<rparr>)
    | In_pp2 \<Rightarrow> kret (l\<lparr>sp_pp2 := v\<rparr>)
    | In_page i \<Rightarrow> kbind (kmod (upd_page i (\<lambda>p. p\<lparr>pp_link := v\<rparr>))) (\<lambda>_. kret l))"

primrec split_pages :: "nat \<Rightarrow> u32 \<Rightarrow> nat option \<Rightarrow> page_split \<Rightarrow> page_split kernel" where
  "split_pages 0 pdx_limit p l = kleave Spin"
| "split_pages (Suc n) pdx_limit p l =
     (case p of
        None \<Rightarrow> kret l
      | Some pp \<Rightarrow>
          let pagetype = PDX (page2pa pp) \<ge> pdx_limit in
          kbind (put_link (if pagetype then sp_tp1 l else sp_tp0 l) (Some pp) l) (\<lambda>l.
          kbind (kget (\<lambda>s. pp_link (pages s pp))) (\<lambda>p.
          split_pages n pdx_limit p
            (if pagetype then l\<lparr>sp_tp1 := In_page pp\<rparr> else l\<lparr>sp_tp0 := In_page pp\<rparr>))))"

text \<open>The local variables \<open>pp1\<close> and \<open>pp2\<close> are not initialised; what they hold is \<open>None\<close> here.\<close>

definition low_pages_first :: "u32 \<Rightarrow> unit kernel" where
  "low_pages_first pdx_limit =
     kbind (kget page_free_list) (\<lambda>fl.
     kbind (split_pages (2 ^ 32) pdx_limit fl
       \<lparr>sp_pp1 = None, sp_pp2 = None, sp_tp0 = In_pp1, sp_tp1 = In_pp2\<rparr>) (\<lambda>l.
     kbind (put_link (sp_tp1 l) None l) (\<lambda>l.
     kbind (put_link (sp_tp0 l) (sp_pp2 l) l) (\<lambda>l.
     kmod (\<lambda>s. s\<lparr>page_free_list := sp_pp1 l\<rparr>)))))"

definition check_free_page :: "u32 \<Rightarrow> nat \<Rightarrow> unit kernel" where
  "check_free_page first_free_page pp =
     kbind (kget (\<lambda>s. page_ptr s pp \<ge> pages_kva s)) (\<lambda>b. kbind (check b) (\<lambda>_.
     kbind (kget (\<lambda>s. page_ptr s pp < pages_kva s + sizeof_PageInfo * npages s)) (\<lambda>b. kbind (check b) (\<lambda>_.
     kbind (kget (\<lambda>s. (page_ptr s pp - pages_kva s) mod sizeof_PageInfo = 0)) (\<lambda>b. kbind (check b) (\<lambda>_.
     kbind (check (page2pa pp \<noteq> 0)) (\<lambda>_.
     kbind (check (page2pa pp \<noteq> IOPHYSMEM)) (\<lambda>_.
     kbind (check (page2pa pp \<noteq> EXTPHYSMEM - PGSIZE)) (\<lambda>_.
     kbind (check (page2pa pp \<noteq> EXTPHYSMEM)) (\<lambda>_.
     kbind (kwhen (\<not> page2pa pp < EXTPHYSMEM)
       (kbind (page2kva pp) (\<lambda>va. check (va \<ge> first_free_page)))) (\<lambda>_.
     check (page2pa pp \<noteq> MPENTRY_PADDR))))))))))))"

text \<open>The last loop counts the pages below and above \<open>EXTPHYSMEM\<close>.\<close>

primrec count_free :: "nat \<Rightarrow> u32 \<Rightarrow> nat option \<Rightarrow> nat \<times> nat \<Rightarrow> (nat \<times> nat) kernel" where
  "count_free 0 first p c = kleave Spin"
| "count_free (Suc n) first p c =
     (case p of
        None \<Rightarrow> kret c
      | Some pp \<Rightarrow>
          kbind (check_free_page first pp) (\<lambda>_.
          kbind (kget (\<lambda>s. pp_link (pages s pp))) (\<lambda>p.
          count_free n first p
            (if page2pa pp < EXTPHYSMEM then (fst c + 1, snd c) else (fst c, snd c + 1)))))"

definition check_page_free_list :: "bool \<Rightarrow> unit kernel" where
  "check_page_free_list only_low_memory =
     (let pdx_limit = (if only_low_memory then 1 else of_nat NPDENTRIES) in
      kbind (kget page_free_list) (\<lambda>fl.
      if fl = None then kpanic (CHR 0x27 # ''page_free_list'' @ [CHR 0x27] @ '' is a null pointer!'')
      else
        kbind (kwhen only_low_memory (low_pages_first pdx_limit)) (\<lambda>_.
        kbind (for_free_pages (\<lambda>pp.
          kwhen (PDX (page2pa pp) < pdx_limit) (kbind (page2kva pp) (\<lambda>va. kmemset va 0x97 128)))) (\<lambda>_.
        kbind (kget (\<lambda>s. sym_end (image s))) (\<lambda>kend.
        kbind (boot_alloc kend 0) (\<lambda>first.
        kbind (kget page_free_list) (\<lambda>fl.
        kbind (count_free (2 ^ 32) first fl (0, 0)) (\<lambda>(nfree_basemem, nfree_extmem).
        kbind (check (nfree_basemem > 0)) (\<lambda>_.
        kbind (check (nfree_extmem > 0)) (\<lambda>_.
        kprintf (''check_page_free_list done'' @ newline) []))))))))))"

subsection \<open>The page allocator under test\<close>

primrec count_links :: "nat \<Rightarrow> nat option \<Rightarrow> nat kernel" where
  "count_links 0 p = kleave Spin"
| "count_links (Suc n) p =
     (case p of
        None \<Rightarrow> kret 0
      | Some pp \<Rightarrow>
          kbind (kget (\<lambda>s. pp_link (pages s pp))) (\<lambda>p.
          kbind (count_links n p) (\<lambda>k. kret (k + 1))))"

definition free_page_count :: "nat kernel" where
  "free_page_count = kbind (kget page_free_list) (count_links (2 ^ 32))"

text \<open>\<open>assert((pp = page_alloc(flags)))\<close>, and \<open>assert(!page_alloc(0))\<close>.\<close>

definition must_alloc :: "u32 \<Rightarrow> nat kernel" where
  "must_alloc flags =
     kbind (page_alloc flags) (\<lambda>r. case r of
       None \<Rightarrow> kpanic ''assertion failed''
     | Some pp \<Rightarrow> kret pp)"

definition no_free_page :: "unit kernel" where
  "no_free_page = kbind (page_alloc 0) (\<lambda>r. check (r = None))"

definition three_pages :: "(nat \<times> nat \<times> nat) kernel" where
  "three_pages =
     kbind (must_alloc 0) (\<lambda>pp0.
     kbind (must_alloc 0) (\<lambda>pp1.
     kbind (must_alloc 0) (\<lambda>pp2.
     kbind (check (pp1 \<noteq> pp0)) (\<lambda>_.
     kbind (check (pp2 \<noteq> pp1 \<and> pp2 \<noteq> pp0)) (\<lambda>_.
     kret (pp0, pp1, pp2))))))"

definition free_three :: "nat \<Rightarrow> nat \<Rightarrow> nat \<Rightarrow> unit kernel" where
  "free_three pp0 pp1 pp2 =
     kbind (page_free pp0) (\<lambda>_. kbind (page_free pp1) (\<lambda>_. page_free pp2))"

definition set_free_list :: "nat option \<Rightarrow> unit kernel" where
  "set_free_list fl = kmod (\<lambda>s. s\<lparr>page_free_list := fl\<rparr>)"

definition check_in_memory :: "nat \<Rightarrow> unit kernel" where
  "check_in_memory pp = kbind (kget (\<lambda>s. page2pa pp < npages s * PGSIZE)) check"

definition check_alloc_zero :: "nat \<Rightarrow> unit kernel" where
  "check_alloc_zero pp0 =
     kbind (page2kva pp0) (\<lambda>va.
     kbind (kmemset va 1 4096) (\<lambda>_.
     kbind (page_free pp0) (\<lambda>_.
     kbind (must_alloc ALLOC_ZERO) (\<lambda>pp.
     kbind (check (pp0 = pp)) (\<lambda>_.
     kbind (page2kva pp) (\<lambda>c.
     kfor [0..<4096] (\<lambda>i. kbind (kload8 (c + of_nat i)) (\<lambda>b. check (b = 0)))))))))"

definition check_page_alloc :: "unit kernel" where
  "check_page_alloc =
     kbind (kget pages_kva) (\<lambda>p.
     if p = 0 then kpanic (CHR 0x27 # ''pages'' @ [CHR 0x27] @ '' is a null pointer!'')
     else
       kbind free_page_count (\<lambda>nfree.
       kbind three_pages (\<lambda>(pp0, pp1, pp2).
       kbind (check_in_memory pp0) (\<lambda>_.
       kbind (check_in_memory pp1) (\<lambda>_.
       kbind (check_in_memory pp2) (\<lambda>_.
       kbind (kget page_free_list) (\<lambda>fl.
       kbind (set_free_list None) (\<lambda>_.
       kbind no_free_page (\<lambda>_.
       kbind (free_three pp0 pp1 pp2) (\<lambda>_.
       kbind three_pages (\<lambda>(pp0, pp1, pp2).
       kbind no_free_page (\<lambda>_.
       kbind (check_alloc_zero pp0) (\<lambda>_.
       kbind (set_free_list fl) (\<lambda>_.
       kbind (free_three pp0 pp1 pp2) (\<lambda>_.
       kbind free_page_count (\<lambda>n.
       kbind (check (int nfree - int n = 0)) (\<lambda>_.
       kprintf (''check_page_alloc() succeeded!'' @ newline) [])))))))))))))))))"

subsection \<open>The page tables under test\<close>

text \<open>The rounds of a loop over pages that compares \<open>check_va2pa(pgdir, va)\<close> with \<open>pa\<close>.\<close>

primrec check_range :: "nat \<Rightarrow> u32 \<Rightarrow> u32 \<Rightarrow> u32 \<Rightarrow> unit kernel" where
  "check_range 0 pgdir va pa = kret ()"
| "check_range (Suc n) pgdir va pa =
     kbind (check_va2pa pgdir va) (\<lambda>v.
     kbind (check (v = pa)) (\<lambda>_.
     check_range n pgdir (va + PGSIZE) (pa + PGSIZE)))"

primrec check_unmapped :: "nat \<Rightarrow> u32 \<Rightarrow> u32 \<Rightarrow> unit kernel" where
  "check_unmapped 0 pgdir va = kret ()"
| "check_unmapped (Suc n) pgdir va =
     kbind (check_va2pa pgdir va) (\<lambda>v.
     kbind (check (v = NOT 0)) (\<lambda>_.
     check_unmapped n pgdir (va + PGSIZE)))"

definition check_stack :: "u32 \<Rightarrow> u32 \<Rightarrow> nat \<Rightarrow> unit kernel" where
  "check_stack percpu_kstacks pgdir n =
     (let base = KSTACKTOP - (KSTKSIZE + KSTKGAP) * of_nat (n + 1)
      in kbind (PADDR (percpu_kstacks + of_nat n * KSTKSIZE)) (\<lambda>pa.
         kbind (check_range (unat (KSTKSIZE div PGSIZE)) pgdir (base + KSTKGAP) pa) (\<lambda>_.
         check_unmapped (unat (KSTKGAP div PGSIZE)) pgdir base)))"

definition check_pde :: "u32 \<Rightarrow> nat \<Rightarrow> unit kernel" where
  "check_pde pgdir i =
     kbind (kload (pgdir + 4 * of_nat i)) (\<lambda>pde.
     if of_nat i \<in> {PDX UVPT, PDX (KSTACKTOP - 1), PDX UPAGES, PDX UENVS, PDX MMIOBASE}
     then check (pde AND PTE_P \<noteq> 0)
     else if of_nat i \<ge> PDX KERNBASE
     then kbind (check (pde AND PTE_P \<noteq> 0)) (\<lambda>_. check (pde AND PTE_W \<noteq> 0))
     else check (pde = 0))"

definition check_kern_pgdir :: "u32 \<Rightarrow> unit kernel" where
  "check_kern_pgdir percpu_kstacks =
     kbind (kget kern_pgdir) (\<lambda>pgdir.
     kbind (kget npages) (\<lambda>np.
     kbind (kget pages_kva) (\<lambda>p. kbind (PADDR p) (\<lambda>pa.
     kbind (check_range (unat (ROUNDUP (np * sizeof_PageInfo) PGSIZE div PGSIZE)) pgdir UPAGES pa) (\<lambda>_.
     kbind (kget envs_kva) (\<lambda>e. kbind (PADDR e) (\<lambda>pa.
     kbind (check_range (unat (ROUNDUP (of_nat NENV * sizeof_Env) PGSIZE div PGSIZE)) pgdir UENVS pa) (\<lambda>_.
     kbind (check_range (unat (np * PGSIZE div PGSIZE)) pgdir KERNBASE 0) (\<lambda>_.
     kbind (kfor [0..<NCPU] (check_stack percpu_kstacks pgdir)) (\<lambda>_.
     kbind (kfor [0..<NPDENTRIES] (check_pde pgdir)) (\<lambda>_.
     kprintf (''check_kern_pgdir() succeeded!'' @ newline) [])))))))))))"

text \<open>Assertions of \<open>check_page\<close>: a page is mapped somewhere, an entry has some flags, a page has
  so many references.\<close>

definition maps_to :: "u32 \<Rightarrow> u32 \<Rightarrow> u32 \<Rightarrow> unit kernel" where
  "maps_to pgdir va pa = kbind (check_va2pa pgdir va) (\<lambda>v. check (v = pa))"

definition has_refs :: "nat \<Rightarrow> u16 \<Rightarrow> unit kernel" where
  "has_refs pp n = kbind (kget (\<lambda>s. pp_ref (pages s pp) = n)) check"

definition inserts :: "u32 \<Rightarrow> nat \<Rightarrow> u32 \<Rightarrow> u32 \<Rightarrow> unit kernel" where
  "inserts pgdir pp va perm = kbind (page_insert pgdir pp va perm) (\<lambda>r. check (r = 0))"

definition insert_fails :: "u32 \<Rightarrow> nat \<Rightarrow> u32 \<Rightarrow> u32 \<Rightarrow> unit kernel" where
  "insert_fails pgdir pp va perm = kbind (page_insert pgdir pp va perm) (\<lambda>r. check (sint r < 0))"

definition entry_flags :: "u32 \<Rightarrow> u32 \<Rightarrow> (u32 \<Rightarrow> bool) \<Rightarrow> unit kernel" where
  "entry_flags pgdir va P =
     kbind (pgdir_walk pgdir va False) (\<lambda>pte. kbind (kload pte) (\<lambda>e. check (P e)))"

definition table_is :: "u32 \<Rightarrow> u32 \<Rightarrow> nat \<Rightarrow> unit kernel" where
  "table_is pgdir pdeno pp = kbind (kload (pgdir + 4 * pdeno)) (\<lambda>e. check (PTE_ADDR e = page2pa pp))"

definition alloc_gives :: "nat \<Rightarrow> unit kernel" where
  "alloc_gives pp = kbind (must_alloc 0) (\<lambda>p. check (p = pp))"

definition set_refs :: "nat \<Rightarrow> u16 \<Rightarrow> unit kernel" where
  "set_refs pp n = kmod (upd_page pp (\<lambda>p. p\<lparr>pp_ref := n\<rparr>))"

text \<open>\<open>check_page\<close> as far as the change of permissions.\<close>

definition check_page_insert :: "u32 \<Rightarrow> nat \<Rightarrow> nat \<Rightarrow> nat \<Rightarrow> unit kernel" where
  "check_page_insert kpd pp0 pp1 pp2 =
     kbind no_free_page (\<lambda>_.
     kbind (page_lookup kpd 0) (\<lambda>r. kbind (check (r = None)) (\<lambda>_.
     kbind (insert_fails kpd pp1 0 PTE_W) (\<lambda>_.
     kbind (page_free pp0) (\<lambda>_.
     kbind (inserts kpd pp1 0 PTE_W) (\<lambda>_.
     kbind (table_is kpd 0 pp0) (\<lambda>_.
     kbind (maps_to kpd 0 (page2pa pp1)) (\<lambda>_.
     kbind (has_refs pp1 1) (\<lambda>_.
     kbind (has_refs pp0 1) (\<lambda>_.
     kbind (inserts kpd pp2 PGSIZE PTE_W) (\<lambda>_.
     kbind (maps_to kpd PGSIZE (page2pa pp2)) (\<lambda>_.
     kbind (has_refs pp2 1) (\<lambda>_.
     kbind no_free_page (\<lambda>_.
     kbind (inserts kpd pp2 PGSIZE PTE_W) (\<lambda>_.
     kbind (maps_to kpd PGSIZE (page2pa pp2)) (\<lambda>_.
     kbind (has_refs pp2 1) (\<lambda>_.
     no_free_page)))))))))))))))))"

definition check_page_perm :: "u32 \<Rightarrow> nat \<Rightarrow> nat \<Rightarrow> unit kernel" where
  "check_page_perm kpd pp0 pp2 =
     kbind (kload (kpd + 4 * PDX PGSIZE)) (\<lambda>pde.
     kbind (KADDR (PTE_ADDR pde)) (\<lambda>ptep.
     kbind (pgdir_walk kpd PGSIZE False) (\<lambda>pte. kbind (check (pte = ptep + 4 * PTX PGSIZE)) (\<lambda>_.
     kbind (inserts kpd pp2 PGSIZE (PTE_W OR PTE_U)) (\<lambda>_.
     kbind (maps_to kpd PGSIZE (page2pa pp2)) (\<lambda>_.
     kbind (has_refs pp2 1) (\<lambda>_.
     kbind (entry_flags kpd PGSIZE (\<lambda>e. e AND PTE_U \<noteq> 0)) (\<lambda>_.
     kbind (kget (\<lambda>s. page_ptr s pp2)) (\<lambda>p2. kbind (kprintf (''pp2 %x'' @ newline) [Word32 p2]) (\<lambda>_.
     kbind (kprintf (''kern_pgdir %x'' @ newline) [Word32 kpd]) (\<lambda>_.
     kbind (kload kpd) (\<lambda>e. kbind (kprintf (''kern_pgdir[0] is %x'' @ newline) [Word32 e]) (\<lambda>_.
     kbind (kload kpd) (\<lambda>e. kbind (check (e AND PTE_U \<noteq> 0)) (\<lambda>_.
     kbind (inserts kpd pp2 PGSIZE PTE_W) (\<lambda>_.
     kbind (entry_flags kpd PGSIZE (\<lambda>e. e AND PTE_W \<noteq> 0)) (\<lambda>_.
     kbind (entry_flags kpd PGSIZE (\<lambda>e. e AND PTE_U = 0)) (\<lambda>_.
     insert_fails kpd pp0 PTSIZE PTE_W))))))))))))))))))"

definition check_page_remove :: "u32 \<Rightarrow> nat \<Rightarrow> nat \<Rightarrow> nat \<Rightarrow> unit kernel" where
  "check_page_remove kpd pp0 pp1 pp2 =
     kbind (inserts kpd pp1 PGSIZE PTE_W) (\<lambda>_.
     kbind (entry_flags kpd PGSIZE (\<lambda>e. e AND PTE_U = 0)) (\<lambda>_.
     kbind (maps_to kpd 0 (page2pa pp1)) (\<lambda>_.
     kbind (maps_to kpd PGSIZE (page2pa pp1)) (\<lambda>_.
     kbind (has_refs pp1 2) (\<lambda>_.
     kbind (has_refs pp2 0) (\<lambda>_.
     kbind (alloc_gives pp2) (\<lambda>_.
     kbind (page_remove kpd 0) (\<lambda>_.
     kbind (maps_to kpd 0 (NOT 0)) (\<lambda>_.
     kbind (maps_to kpd PGSIZE (page2pa pp1)) (\<lambda>_.
     kbind (has_refs pp1 1) (\<lambda>_.
     kbind (has_refs pp2 0) (\<lambda>_.
     kbind (page_remove kpd PGSIZE) (\<lambda>_.
     kbind (maps_to kpd 0 (NOT 0)) (\<lambda>_.
     kbind (maps_to kpd PGSIZE (NOT 0)) (\<lambda>_.
     kbind (has_refs pp1 0) (\<lambda>_.
     kbind (has_refs pp2 0) (\<lambda>_.
     kbind (alloc_gives pp1) (\<lambda>_.
     kbind no_free_page (\<lambda>_.
     kbind (table_is kpd 0 pp0) (\<lambda>_.
     kbind (kstore kpd 0) (\<lambda>_.
     kbind (has_refs pp0 1) (\<lambda>_.
     set_refs pp0 0))))))))))))))))))))))"

definition check_page_walk :: "u32 \<Rightarrow> nat \<Rightarrow> unit kernel" where
  "check_page_walk kpd pp0 =
     (let va = PGSIZE * of_nat NPDENTRIES + PGSIZE in
      kbind (page_free pp0) (\<lambda>_.
      kbind (pgdir_walk kpd va True) (\<lambda>ptep.
      kbind (kload (kpd + 4 * PDX va)) (\<lambda>pde.
      kbind (KADDR (PTE_ADDR pde)) (\<lambda>ptep1.
      kbind (check (ptep = ptep1 + 4 * PTX va)) (\<lambda>_.
      kbind (kstore (kpd + 4 * PDX va) 0) (\<lambda>_.
      kbind (set_refs pp0 0) (\<lambda>_.
      kbind (page2kva pp0) (\<lambda>va0.
      kbind (kmemset va0 0xFF 4096) (\<lambda>_.
      kbind (page_free pp0) (\<lambda>_.
      kbind (pgdir_walk kpd 0 True) (\<lambda>_.
      kbind (page2kva pp0) (\<lambda>ptep.
      kbind (kfor [0..<NPTENTRIES] (\<lambda>i.
        kbind (kload (ptep + 4 * of_nat i)) (\<lambda>e. check (e AND PTE_P = 0)))) (\<lambda>_.
      kbind (kstore kpd 0) (\<lambda>_.
      set_refs pp0 0)))))))))))))))"

definition clear_entry :: "u32 \<Rightarrow> u32 \<Rightarrow> unit kernel" where
  "clear_entry pgdir va = kbind (pgdir_walk pgdir va False) (\<lambda>pte. kstore pte 0)"

definition check_mmio :: "u32 \<Rightarrow> unit kernel" where
  "check_mmio kpd =
     kbind (mmio_map_region 0 4097) (\<lambda>mm1.
     kbind (mmio_map_region 0 4096) (\<lambda>mm2.
     kbind (check (mm1 \<ge> MMIOBASE \<and> mm1 + 8096 < MMIOLIM)) (\<lambda>_.
     kbind (check (mm2 \<ge> MMIOBASE \<and> mm2 + 8096 < MMIOLIM)) (\<lambda>_.
     kbind (check (mm1 mod PGSIZE = 0 \<and> mm2 mod PGSIZE = 0)) (\<lambda>_.
     kbind (check (mm1 + 8096 \<le> mm2)) (\<lambda>_.
     kbind (maps_to kpd mm1 0) (\<lambda>_.
     kbind (maps_to kpd (mm1 + PGSIZE) PGSIZE) (\<lambda>_.
     kbind (maps_to kpd mm2 0) (\<lambda>_.
     kbind (maps_to kpd (mm2 + PGSIZE) (NOT 0)) (\<lambda>_.
     kbind (entry_flags kpd mm1 (\<lambda>e. e AND (PTE_W OR PTE_PWT OR PTE_PCD) \<noteq> 0)) (\<lambda>_.
     kbind (entry_flags kpd mm1 (\<lambda>e. e AND PTE_U = 0)) (\<lambda>_.
     kbind (clear_entry kpd mm1) (\<lambda>_.
     kbind (clear_entry kpd (mm1 + PGSIZE)) (\<lambda>_.
     clear_entry kpd mm2))))))))))))))"

definition check_page :: "unit kernel" where
  "check_page =
     kbind (kget kern_pgdir) (\<lambda>kpd.
     kbind three_pages (\<lambda>(pp0, pp1, pp2).
     kbind (kget page_free_list) (\<lambda>fl.
     kbind (set_free_list None) (\<lambda>_.
     kbind (check_page_insert kpd pp0 pp1 pp2) (\<lambda>_.
     kbind (check_page_perm kpd pp0 pp2) (\<lambda>_.
     kbind (check_page_remove kpd pp0 pp1 pp2) (\<lambda>_.
     kbind (check_page_walk kpd pp0) (\<lambda>_.
     kbind (set_free_list fl) (\<lambda>_.
     kbind (free_three pp0 pp1 pp2) (\<lambda>_.
     kbind (check_mmio kpd) (\<lambda>_.
     kprintf (''check_page() succeeded!'' @ newline) [])))))))))))"

text \<open>The last test runs on the new page directory and reads and writes through it.\<close>

definition vload32 :: "u32 \<Rightarrow> u32 kernel" where
  "vload32 va =
     kbind (vload8 va) (\<lambda>b0. kbind (vload8 (va + 1)) (\<lambda>b1.
     kbind (vload8 (va + 2)) (\<lambda>b2. kbind (vload8 (va + 3)) (\<lambda>b3.
     kret (ucast b0 OR push_bit 8 (ucast b1) OR push_bit 16 (ucast b2) OR push_bit 24 (ucast b3))))))"

definition check_page_installed_pgdir :: "unit kernel" where
  "check_page_installed_pgdir =
     kbind (kget kern_pgdir) (\<lambda>kpd.
     kbind (must_alloc 0) (\<lambda>pp0.
     kbind (must_alloc 0) (\<lambda>pp1.
     kbind (must_alloc 0) (\<lambda>pp2.
     kbind (page_free pp0) (\<lambda>_.
     kbind (page2kva pp1) (\<lambda>va. kbind (kmemset va 1 4096) (\<lambda>_.
     kbind (page2kva pp2) (\<lambda>va. kbind (kmemset va 2 4096) (\<lambda>_.
     kbind (page_insert kpd pp1 PGSIZE PTE_W) (\<lambda>_.
     kbind (has_refs pp1 1) (\<lambda>_.
     kbind (vload32 PGSIZE) (\<lambda>v. kbind (check (v = 0x01010101)) (\<lambda>_.
     kbind (page_insert kpd pp2 PGSIZE PTE_W) (\<lambda>_.
     kbind (vload32 PGSIZE) (\<lambda>v. kbind (check (v = 0x02020202)) (\<lambda>_.
     kbind (has_refs pp2 1) (\<lambda>_.
     kbind (has_refs pp1 0) (\<lambda>_.
     kbind (vstore32 PGSIZE 0x03030303) (\<lambda>_.
     kbind (page2kva pp2) (\<lambda>va. kbind (kload va) (\<lambda>v. kbind (check (v = 0x03030303)) (\<lambda>_.
     kbind (page_remove kpd PGSIZE) (\<lambda>_.
     kbind (has_refs pp2 0) (\<lambda>_.
     kbind (table_is kpd 0 pp0) (\<lambda>_.
     kbind (kstore kpd 0) (\<lambda>_.
     kbind (has_refs pp0 1) (\<lambda>_.
     kbind (set_refs pp0 0) (\<lambda>_.
     kbind (page_free pp0) (\<lambda>_.
     kprintf (''check_page_installed_pgdir() succeeded!'' @ newline) [])))))))))))))))))))))))))))))"

subsection \<open>The stages\<close>

definition mem_init_arrays :: "unit kernel" where
  "mem_init_arrays =
     kbind i386_detect_memory (\<lambda>_.
     kbind (kget (\<lambda>s. sym_end (image s))) (\<lambda>kend.
     kbind (boot_alloc kend PGSIZE) (\<lambda>kpd.
     kbind (kmod (\<lambda>s. s\<lparr>kern_pgdir := kpd\<rparr>)) (\<lambda>_.
     kbind (kmemset kpd 0 4096) (\<lambda>_.
     kbind (PADDR kpd) (\<lambda>pa.
     kbind (kstore (kpd + 4 * PDX UVPT) (pa OR PTE_U OR PTE_P)) (\<lambda>_.
     kbind (kget npages) (\<lambda>np.
     kbind (boot_alloc kend (sizeof_PageInfo * np)) (\<lambda>p.
     kbind (kmod (\<lambda>s. s\<lparr>pages_kva := p\<rparr>)) (\<lambda>_.
     kbind (kprintf (''npages: %d'' @ newline) [Word32 np]) (\<lambda>_.
     kbind (kget npages_basemem) (\<lambda>nb.
     kbind (kprintf (''npages_basemem: %d'' @ newline) [Word32 nb]) (\<lambda>_.
     kbind (kprintf (''pages: %x'' @ newline) [Word32 p]) (\<lambda>_.
     kbind (boot_alloc kend (sizeof_Env * of_nat NENV)) (\<lambda>e.
     kbind (kmod (\<lambda>s. s\<lparr>envs_kva := e\<rparr>)) (\<lambda>_.
     page_init))))))))))))))))"

definition mem_init_maps :: "ksymbols \<Rightarrow> unit kernel" where
  "mem_init_maps syms =
     kbind (kget kern_pgdir) (\<lambda>kpd.
     kbind (kget pages_kva) (\<lambda>p. kbind (PADDR p) (\<lambda>pa.
     kbind (boot_map_region kpd UPAGES PTSIZE pa PTE_U) (\<lambda>_.
     kbind (kprintf (''PADDR(pages) %x'' @ newline) [Word32 pa]) (\<lambda>_.
     kbind (kget envs_kva) (\<lambda>e. kbind (PADDR e) (\<lambda>pa.
     kbind (boot_map_region kpd UENVS PTSIZE pa PTE_U) (\<lambda>_.
     kbind (PADDR (sym_bootstack syms)) (\<lambda>pa.
     kbind (boot_map_region kpd (KSTACKTOP - KSTKSIZE) KSTKSIZE pa PTE_W) (\<lambda>_.
     kbind (kprintf (''PADDR(bootstack) %x'' @ newline) [Word32 pa]) (\<lambda>_.
     kbind (boot_map_region kpd KERNBASE (- KERNBASE) 0 PTE_W) (\<lambda>_.
     mem_init_mp (sym_percpu_kstacks syms)))))))))))))"

definition mem_init_switch :: "unit kernel" where
  "mem_init_switch =
     kbind (kget kern_pgdir) (\<lambda>kpd.
     kbind (PADDR kpd) lcr3)"

definition mem_init_cr0 :: "unit kernel" where
  "mem_init_cr0 =
     kmod (\<lambda>s. s\<lparr>cr0 := (cr0 s OR CR0_PE OR CR0_PG OR CR0_AM OR CR0_WP OR CR0_NE OR CR0_MP)
                        AND NOT (CR0_TS OR CR0_EM)\<rparr>)"

definition mem_init :: "ksymbols \<Rightarrow> unit kernel" where
  "mem_init syms =
     kbind mem_init_arrays (\<lambda>_.
     kbind (check_page_free_list True) (\<lambda>_.
     kbind check_page_alloc (\<lambda>_.
     kbind check_page (\<lambda>_.
     kbind (mem_init_maps syms) (\<lambda>_.
     kbind (check_kern_pgdir (sym_percpu_kstacks syms)) (\<lambda>_.
     kbind mem_init_switch (\<lambda>_.
     kbind (check_page_free_list False) (\<lambda>_.
     kbind mem_init_cr0 (\<lambda>_.
     check_page_installed_pgdir)))))))))"

end
