(* ===== verification/Env_Ops.thy ===== *)
theory Env_Ops
  imports Vmem
begin

text \<open>
  Environments: kern/env.c without the operations that leave the kernel.  A pointer into
  \<open>envs\<close> is an index, \<open>NULL\<close> is \<open>None\<close>; a function that stores through a pointer argument
  returns what it stores.
\<close>

abbreviation (input) ENVGENSHIFT :: nat where "ENVGENSHIFT \<equiv> 12"

text \<open>The initial global descriptor table.\<close>

definition gdt_init :: "nat \<Rightarrow> Segdesc" where
  "gdt_init i =
     (if i = 1 then SEG (STA_X OR STA_R) 0 0xffffffff 0
      else if i = 2 then SEG STA_W 0 0xffffffff 0
      else if i = 3 then SEG (STA_X OR STA_R) 0 0xffffffff 3
      else if i = 4 then SEG STA_W 0 0xffffffff 3
      else SEG_NULL)"

definition envid2env :: "u32 \<Rightarrow> bool \<Rightarrow> (u32 \<times> nat option) kernel" where
  "envid2env envid checkperm =
     (if envid = 0 then kbind (kget curenv) (\<lambda>c. kret (0, c))
      else
        let e = ENVX envid in
        kbind (kget (\<lambda>s. envs s e)) (\<lambda>env.
        if env_status env = ENV_FREE \<or> env_id env \<noteq> envid then kret (- E_BAD_ENV, None)
        else
          kbind (kget curenv) (\<lambda>c.
          kbind (if checkperm \<and> Some e \<noteq> c
                 then kbind the_curenv (\<lambda>c. kget (\<lambda>s. env_parent_id env \<noteq> env_id (envs s c)))
                 else kret False) (\<lambda>denied.
          if denied then kret (- E_BAD_ENV, None) else kret (0, Some e)))))"

text \<open>The free list of environments.\<close>

definition put_free_env :: "nat \<Rightarrow> kstate \<Rightarrow> kstate" where
  "put_free_env i s =
     (upd_env i (\<lambda>e. e\<lparr>env_link := env_free_list s\<rparr>) s)\<lparr>env_free_list := Some i\<rparr>"

definition take_free_env :: "nat \<Rightarrow> kstate \<Rightarrow> kstate" where
  "take_free_env i s = s\<lparr>env_free_list := env_link (envs s i)\<rparr>"

definition env_init_percpu :: "unit kernel" where
  "env_init_percpu = kmod (\<lambda>s. hw (Lldt 0) (hw Set_segs (hw Lgdt s)))"

definition env_init_one :: "nat \<Rightarrow> kstate \<Rightarrow> kstate" where
  "env_init_one i s = put_free_env i (upd_env i (\<lambda>e. e\<lparr>env_id := 0\<rparr>) s)"

definition env_init :: "unit kernel" where
  "env_init =
     kbind (kmod (fold env_init_one (rev [0..<NENV]))) (\<lambda>_.
     env_init_percpu)"

definition env_setup_vm :: "nat \<Rightarrow> u32 kernel" where
  "env_setup_vm e =
     kbind (page_alloc ALLOC_ZERO) (\<lambda>pg. case pg of
       None \<Rightarrow> kret (- E_NO_MEM)
     | Some p \<Rightarrow>
         kbind (page_incref p) (\<lambda>_.
         kbind (page2kva p) (\<lambda>pgdir.
         kbind (kmod (upd_env e (\<lambda>env. env\<lparr>env_pgdir := pgdir\<rparr>))) (\<lambda>_.
         kbind (kget kern_pgdir) (\<lambda>kpd.
         kbind (kmemcpy pgdir kpd 4096) (\<lambda>_.
         kbind (PADDR pgdir) (\<lambda>pa.
         kbind (kstore (pgdir + 4 * PDX UVPT) (pa OR PTE_P OR PTE_U)) (\<lambda>_.
         kret 0))))))))"

text \<open>The identifier of the next environment in slot \<open>e\<close>.\<close>

definition next_env_id :: "u32 \<Rightarrow> nat \<Rightarrow> u32" where
  "next_env_id old e =
     (let generation = (old + 2 ^ ENVGENSHIFT) AND NOT (2 ^ LOG2NENV - 1);
          generation = (if sint generation \<le> 0 then 2 ^ ENVGENSHIFT else generation)
      in generation OR of_nat e)"

text \<open>The trap frame of a new environment.\<close>

definition new_tf :: Trapframe where
  "new_tf = zero_tf\<lparr>tf_ds := GD_UD OR 3, tf_es := GD_UD OR 3, tf_ss := GD_UD OR 3,
     tf_esp := USTACKTOP, tf_cs := GD_UT OR 3, tf_eflags := 0 OR FL_IF\<rparr>"

definition env_alloc :: "u32 \<Rightarrow> (u32 \<times> nat option) kernel" where
  "env_alloc parent_id =
     kbind (kget env_free_list) (\<lambda>fl. case fl of
       None \<Rightarrow> kret (- E_NO_FREE_ENV, None)
     | Some e \<Rightarrow>
         kbind (env_setup_vm e) (\<lambda>r.
         if sint r < 0 then kret (r, None)
         else
           kbind (kmod (upd_env e (\<lambda>env. env\<lparr>env_id := next_env_id (env_id env) e,
             env_parent_id := parent_id, env_type := ENV_TYPE_USER, env_status := ENV_RUNNABLE,
             env_runs := 0, env_tf := new_tf, env_pgfault_upcall := 0,
             env_ipc_recving := False\<rparr>))) (\<lambda>_.
           kbind (kmod (take_free_env e)) (\<lambda>_.
           kbind (kget (\<lambda>s. (cur_id_or_0 s, env_id (envs s e)))) (\<lambda>(cid, eid).
           kbind (kprintf (''[%08x] new env %08x'' @ newline) [Word32 cid, Word32 eid]) (\<lambda>_.
           kret (0, Some e)))))))"

text \<open>The loop of \<open>region_alloc\<close> over page addresses, both ends multiples of the page size.\<close>

function region_alloc_loop :: "nat \<Rightarrow> nat \<Rightarrow> nat \<Rightarrow> unit kernel" where
  "region_alloc_loop e i end' =
     (if i < end' then
        kbind (page_alloc 0) (\<lambda>pg. case pg of
          None \<Rightarrow> kpanic ''region_alloc failed!''
        | Some p \<Rightarrow>
            kbind (kget (\<lambda>s. env_pgdir (envs s e))) (\<lambda>pgdir.
            kbind (page_insert pgdir p (of_nat i) (PTE_W OR PTE_U)) (\<lambda>_.
            region_alloc_loop e (i + 4096) end')))
      else kret ())"
  by pat_completeness auto
termination by (relation "measure (\<lambda>(e, i, end'). end' - i)") auto

declare region_alloc_loop.simps [simp del]

definition region_alloc :: "nat \<Rightarrow> u32 \<Rightarrow> u32 \<Rightarrow> unit kernel" where
  "region_alloc e va len =
     region_alloc_loop e (unat (ROUNDDOWN va PGSIZE)) (unat (ROUNDUP (va + len) PGSIZE))"

subsection \<open>Loading a program (inc/elf.h)\<close>

record Elf =
  e_magic :: u32
  e_entry :: u32
  e_phoff :: u32
  e_phnum :: u16

record Proghdr =
  p_type :: u32
  p_offset :: u32
  p_va :: u32
  p_filesz :: u32
  p_memsz :: u32

abbreviation (input) ELF_PROG_LOAD :: u32 where "ELF_PROG_LOAD \<equiv> 1"

definition read_elf :: "u32 \<Rightarrow> Elf kernel" where
  "read_elf p =
     kbind (kload p) (\<lambda>magic.
     kbind (kload (p + 24)) (\<lambda>entry.
     kbind (kload (p + 28)) (\<lambda>phoff.
     kbind (kload (p + 44)) (\<lambda>w.
     kret \<lparr>e_magic = magic, e_entry = entry, e_phoff = phoff, e_phnum = ucast w\<rparr>))))"

definition read_proghdr :: "u32 \<Rightarrow> Proghdr kernel" where
  "read_proghdr p =
     kbind (kload p) (\<lambda>ty.
     kbind (kload (p + 4)) (\<lambda>off.
     kbind (kload (p + 8)) (\<lambda>va.
     kbind (kload (p + 16)) (\<lambda>filesz.
     kbind (kload (p + 20)) (\<lambda>memsz.
     kret \<lparr>p_type = ty, p_offset = off, p_va = va, p_filesz = filesz, p_memsz = memsz\<rparr>)))))"

definition load_segment :: "nat \<Rightarrow> u32 \<Rightarrow> u32 \<Rightarrow> unit kernel" where
  "load_segment e binary ph =
     kbind (read_proghdr ph) (\<lambda>h.
     kwhen (p_type h = ELF_PROG_LOAD)
       (kbind (region_alloc e (p_va h) (p_memsz h)) (\<lambda>_.
        kbind (vmemset (unat (p_memsz h)) (p_va h) 0) (\<lambda>_.
        vmemcpy (unat (p_filesz h)) (p_va h) (binary + p_offset h)))))"

definition load_icode :: "nat \<Rightarrow> u32 \<Rightarrow> unit kernel" where
  "load_icode e binary =
     kbind (read_elf binary) (\<lambda>elf.
     if e_magic elf \<noteq> ELF_MAGIC then kpanic ''Not executable!''
     else
       let ph = binary + e_phoff elf in
       kbind (kget (\<lambda>s. env_pgdir (envs s e))) (\<lambda>pgdir.
       kbind (PADDR pgdir) (\<lambda>pa.
       kbind (lcr3 pa) (\<lambda>_.
       kbind (kfor [0..<unat (e_phnum elf)]
         (\<lambda>i. load_segment e binary (ph + sizeof_Proghdr * of_nat i))) (\<lambda>_.
       kbind (kget kern_pgdir) (\<lambda>kpd.
       kbind (PADDR kpd) (\<lambda>kpa.
       kbind (lcr3 kpa) (\<lambda>_.
       kbind (kmod (upd_env e (\<lambda>env. env\<lparr>env_tf := (env_tf env)\<lparr>tf_eip := e_entry elf\<rparr>\<rparr>))) (\<lambda>_.
       region_alloc e (USTACKTOP - PGSIZE) PGSIZE)))))))))"

text \<open>When \<open>env_alloc\<close> fails, \<open>penv\<close> is an uninitialised pointer.\<close>

definition env_create :: "u32 \<Rightarrow> EnvType \<Rightarrow> unit kernel" where
  "env_create binary ty =
     kbind (env_alloc 0) (\<lambda>(_, penv). case penv of
       None \<Rightarrow> kpanic ''undefined: penv is uninitialised''
     | Some e \<Rightarrow> load_icode e binary)"

subsection \<open>Freeing an environment\<close>

definition free_pte :: "nat \<Rightarrow> nat \<Rightarrow> u32 \<Rightarrow> nat \<Rightarrow> unit kernel" where
  "free_pte e pdeno pt pteno =
     kbind (kload (pt + 4 * of_nat pteno)) (\<lambda>pte.
     kwhen (pte AND PTE_P \<noteq> 0)
       (kbind (kget (\<lambda>s. env_pgdir (envs s e))) (\<lambda>pgdir.
        page_remove pgdir (PGADDR (of_nat pdeno) (of_nat pteno) 0))))"

definition free_pde :: "nat \<Rightarrow> nat \<Rightarrow> unit kernel" where
  "free_pde e pdeno =
     kbind (kget (\<lambda>s. env_pgdir (envs s e))) (\<lambda>pgdir.
     kbind (kload (pgdir + 4 * of_nat pdeno)) (\<lambda>pde.
     kwhen (pde AND PTE_P \<noteq> 0)
       (let pa = PTE_ADDR pde in
        kbind (KADDR pa) (\<lambda>pt.
        kbind (kfor [0..<NPTENTRIES] (free_pte e pdeno pt)) (\<lambda>_.
        kbind (kstore (pgdir + 4 * of_nat pdeno) 0) (\<lambda>_.
        kbind (pa2page pa) page_decref))))))"

definition env_free :: "nat \<Rightarrow> unit kernel" where
  "env_free e =
     kbind (kget (\<lambda>s. curenv s = Some e)) (\<lambda>cur.
     kbind (kwhen cur (kbind (kget kern_pgdir) (\<lambda>kpd. kbind (PADDR kpd) lcr3))) (\<lambda>_.
     kbind (kget (\<lambda>s. (cur_id_or_0 s, env_id (envs s e)))) (\<lambda>(cid, eid).
     kbind (kprintf (''[%08x] free env %08x'' @ newline) [Word32 cid, Word32 eid]) (\<lambda>_.
     kbind (kfor [0..<unat (PDX UTOP)] (free_pde e)) (\<lambda>_.
     kbind (kget (\<lambda>s. env_pgdir (envs s e))) (\<lambda>pgdir.
     kbind (PADDR pgdir) (\<lambda>pa.
     kbind (kmod (upd_env e (\<lambda>env. env\<lparr>env_pgdir := 0\<rparr>))) (\<lambda>_.
     kbind (kbind (pa2page pa) page_decref) (\<lambda>_.
     kmod (\<lambda>s. put_free_env e (upd_env e (\<lambda>env. env\<lparr>env_status := ENV_FREE\<rparr>) s)))))))))))"

end
