(* ===== verification/User_Mem.thy ===== *)
theory User_Mem
  imports Vspace
begin

text \<open>
  The check the kernel makes on every pointer it gets from user code: \<open>user_mem_check\<close> of
  kern/pmap.c.  For a range that does not wrap around the end of the address space it is
  exact; a range that wraps around is not checked at all.
\<close>

subsection \<open>Read-only walks, the self-mapped table included\<close>

definition tables_in_memory :: "kstate \<Rightarrow> u32 \<Rightarrow> bool" where
  "tables_in_memory s pgdir \<longleftrightarrow>
     mem_ok s \<and> aligned 4096 (pgdir - KERNBASE) \<and> frame (pgdir - KERNBASE) < unat (npages s) \<and>
     (\<forall>va. pde_of s pgdir va AND PTE_P \<noteq> 0 \<longrightarrow> frame (pde_of s pgdir va) < unat (npages s))"

lemma tables_kload_pde:
  assumes "tables_in_memory s pgdir"
  shows "kload (pgdir + 4 * PDX va) s = Ret (pde_of s pgdir va) s"
  unfolding pgdir_slot [of pgdir] pde_of_def
  using assms by (intro kload_phys slot_low [of s]) (auto simp: tables_in_memory_def PDX_less)

lemma tables_walk:
  assumes "tables_in_memory s pgdir"
  shows "pgdir_walk pgdir va False s =
    Ret (if pde_of s pgdir va AND PTE_P = 0 then 0 else slot_of s pgdir va) s"
proof (cases "pde_of s pgdir va AND PTE_P = 0")
  case True
  then show ?thesis
    by (simp add: pgdir_walk_def kbind_Ret tables_kload_pde [OF assms] kret_def)
next
  case False
  then have "KADDR (PTE_ADDR (pde_of s pgdir va)) s =
      Ret (PTE_ADDR (pde_of s pgdir va) + KERNBASE) s"
    using assms frame_PTE_ADDR [of "pde_of s pgdir va"]
    by (auto simp: KADDR_def tables_in_memory_def word_le_nat_alt unat_PGNUM frame_def
        simp del: frame_PTE_ADDR)
  with False show ?thesis
    by (simp add: pgdir_walk_def kbind_Ret tables_kload_pde [OF assms] kret_def slot_of_def add_ac)
qed

lemma tables_slot:
  assumes "tables_in_memory s pgdir" "pde_of s pgdir va AND PTE_P \<noteq> 0"
  shows "slot_of s pgdir va \<noteq> 0" "kload (slot_of s pgdir va) s = Ret (pte_of s pgdir va) s"
proof -
  have low: "unat (PTE_ADDR (pde_of s pgdir va) + 4 * PTX va) < 268435456"
    using assms by (intro slot_low [of s]) (auto simp: tables_in_memory_def PTX_less)
  show "slot_of s pgdir va \<noteq> 0"
    using unat_kva [OF low] by (auto simp: slot_of_def simp flip: unat_eq_0)
  show "kload (slot_of s pgdir va) s = Ret (pte_of s pgdir va) s"
    using assms(2) by (simp add: slot_of_def kload_phys [OF low] pte_of_def)
qed

subsection \<open>The loop\<close>

text \<open>A page a user may access with the permissions \<open>perm\<close>.\<close>

definition user_page_ok :: "kstate \<Rightarrow> u32 \<Rightarrow> u32 \<Rightarrow> u32 \<Rightarrow> bool" where
  "user_page_ok s pgdir perm a \<longleftrightarrow>
     a < ULIM \<and> pte_of s pgdir a AND PTE_P \<noteq> 0 \<and> pte_of s pgdir a AND perm = perm"

definition check_fault :: "u32 \<Rightarrow> nat \<Rightarrow> kstate \<Rightarrow> kstate" where
  "check_fault va k s =
     s\<lparr>user_mem_check_addr := if of_nat k < va then va else of_nat k\<rparr>"

lemma user_mem_check_step:
  assumes "tables_in_memory s pgdir" "i < e"
  shows "user_mem_check_loop pgdir va perm i e s =
    (if user_page_ok s pgdir perm (of_nat i) then user_mem_check_loop pgdir va perm (i + 4096) e s
     else Ret (- E_FAULT) (check_fault va i s))"
proof -
  let ?a = "of_nat i :: u32"
  note walk = tables_walk [OF assms(1), of ?a]
  show ?thesis
  proof (cases "pde_of s pgdir ?a AND PTE_P = 0")
    case True
    then have "\<not> user_page_ok s pgdir perm ?a" by (simp add: user_page_ok_def pte_of_def)
    with True show ?thesis
      using assms(2) walk
      by (simp add: user_mem_check_loop.simps [of pgdir va perm i e] kbind_Ret check_fault_def kret_def)
  next
    case False
    then show ?thesis
      using assms(2) walk tables_slot [OF assms(1) False]
      by (auto simp: user_mem_check_loop.simps [of pgdir va perm i e] kbind_Ret check_fault_def
          kret_def user_page_ok_def not_le)
  qed
qed

lemma user_mem_check_loop_result:
  assumes "tables_in_memory s pgdir"
  shows "(user_mem_check_loop pgdir va perm i e s = Ret 0 s \<and>
      (\<forall>k. i + 4096 * k < e \<longrightarrow> user_page_ok s pgdir perm (of_nat (i + 4096 * k)))) \<or>
    (\<exists>k. i + 4096 * k < e \<and> \<not> user_page_ok s pgdir perm (of_nat (i + 4096 * k)) \<and>
      (\<forall>j<k. user_page_ok s pgdir perm (of_nat (i + 4096 * j))) \<and>
      user_mem_check_loop pgdir va perm i e s =
        Ret (- E_FAULT) (check_fault va (i + 4096 * k) s))"
proof (induction "e - i" arbitrary: i rule: less_induct)
  case less
  show ?case
  proof (cases "i < e")
    case False
    then show ?thesis by (simp add: user_mem_check_loop.simps [of pgdir va perm i e] kret_def)
  next
    case lt: True
    note step = user_mem_check_step [OF assms lt, of va perm]
    show ?thesis
    proof (cases "user_page_ok s pgdir perm (of_nat i)")
      case False
      with lt step show ?thesis by (intro disjI2 exI [of _ 0]) simp
    next
      case True
      have idx: "i + 4096 * Suc k = i + 4096 + 4096 * k" for k by simp
      have "e - (i + 4096) < e - i" using lt by simp
      from less [OF this] show ?thesis
      proof (elim disjE exE conjE)
        assume r: "user_mem_check_loop pgdir va perm (i + 4096) e s = Ret 0 s"
          and ok: "\<forall>k. i + 4096 + 4096 * k < e \<longrightarrow>
            user_page_ok s pgdir perm (of_nat (i + 4096 + 4096 * k))"
        have "user_page_ok s pgdir perm (of_nat (i + 4096 * k))" if "i + 4096 * k < e" for k
        proof (cases k)
          case (Suc j)
          with ok that show ?thesis unfolding Suc idx by blast
        qed (use True in simp)
        with r step True show ?thesis by simp
      next
        fix k
        assume k: "i + 4096 + 4096 * k < e"
          "\<not> user_page_ok s pgdir perm (of_nat (i + 4096 + 4096 * k))"
          and before: "\<forall>j<k. user_page_ok s pgdir perm (of_nat (i + 4096 + 4096 * j))"
          and r: "user_mem_check_loop pgdir va perm (i + 4096) e s =
            Ret (- E_FAULT) (check_fault va (i + 4096 + 4096 * k) s)"
        have "user_page_ok s pgdir perm (of_nat (i + 4096 * j))" if "j < Suc k" for j
        proof (cases j)
          case (Suc l)
          with before that show ?thesis unfolding Suc idx by simp
        qed (use True in simp)
        with k r step True show ?thesis
          unfolding idx [symmetric] by (intro disjI2 exI [of _ "Suc k"]) simp
      qed
    qed
  qed
qed

subsection \<open>Properties\<close>

lemma user_page_ok_frame:
  assumes "frame a = frame b"
  shows "user_page_ok s pgdir perm a = user_page_ok s pgdir perm b"
proof -
  have "PGNUM a = PGNUM b" using assms by (simp add: word_unat_eq_iff unat_PGNUM frame_def)
  then have "PDX a = PDX b" "PTX a = PTX b" by (simp_all add: same_page_iff)
  then have "pte_of s pgdir a = pte_of s pgdir b" by (simp add: pte_of_def pde_of_def)
  moreover have u: "c < ULIM \<longleftrightarrow> frame c < 980992" for c
    by (simp add: word_less_nat_alt layout frame_def div_less_iff_less_mult)
  ultimately show ?thesis using assms by (simp add: user_page_ok_def u)
qed

lemma user_mem_check_ok_iff:
  assumes "tables_in_memory s pgdir"
  shows "user_mem_check_loop pgdir va perm i e s = Ret 0 s \<longleftrightarrow>
    (\<forall>k. i + 4096 * k < e \<longrightarrow> user_page_ok s pgdir perm (of_nat (i + 4096 * k)))"
  using user_mem_check_loop_result [OF assms, of va perm i e] by auto

lemma sample_tables [simp]: "tables_in_memory mapped_machine sample_pgdir"
  by (auto simp: tables_in_memory_def aligned_def frame_def layout)

lemma sample_env_pgdir [simp]: "env_pgdir (envs small_machine 0) = sample_pgdir"
  by (simp add: small_machine_def)

text \<open>The pages the loop visits are the pages of the bytes in the range.\<close>

lemma page_round_nat:
  fixes v n :: nat
  assumes "0 < n"
  defines "b \<equiv> v - v mod 4096" and "e \<equiv> (v + n + 4095) - (v + n + 4095) mod 4096"
  shows "v \<le> a \<Longrightarrow> a < v + n \<Longrightarrow> b + 4096 * ((a - b) div 4096) < e \<and>
      (b + 4096 * ((a - b) div 4096)) div 4096 = a div 4096"
    and "b + 4096 * k < e \<Longrightarrow> \<exists>a. v \<le> a \<and> a < v + n \<and> a div 4096 = (b + 4096 * k) div 4096"
proof -
  have b: "b = 4096 * (v div 4096)" by (simp add: b_def minus_mod_eq_mult_div)
  have e: "e = 4096 * ((v + n + 4095) div 4096)" by (simp add: e_def minus_mod_eq_mult_div)
  have e_lo: "v + n \<le> e"
    using mod_less_divisor [of 4096 "v + n + 4095"] unfolding e_def by linarith
  have e_hi: "e < v + n + 4096" using assms unfolding e_def by linarith
  have b_hi: "b \<le> v" unfolding b_def by simp
  {
    assume a: "v \<le> a" "a < v + n"
    have le: "b \<le> a" using a b_hi by simp
    have s: "b + 4096 * ((a - b) div 4096) \<le> a"
      using le div_times_less_eq_dividend [of "a - b" 4096] by linarith
    have q: "(b + 4096 * ((a - b) div 4096)) div 4096 = v div 4096 + (a - b) div 4096"
      unfolding b by simp
    have "a = b + (a - b)" using le by simp
    then have "a div 4096 = (b + (a - b)) div 4096" by simp
    also have "\<dots> = v div 4096 + (a - b) div 4096" unfolding b by simp
    finally show "b + 4096 * ((a - b) div 4096) < e \<and>
        (b + 4096 * ((a - b) div 4096)) div 4096 = a div 4096"
      using s q a e_lo by simp
  }
  {
    assume k: "b + 4096 * k < e"
    have "v div 4096 + k < (v + n + 4095) div 4096"
      using k unfolding b e by simp
    then have le: "b + 4096 * k + 4096 \<le> e" unfolding b e by simp
    have base: "(b + 4096 * k) div 4096 = v div 4096 + k" unfolding b by simp
    show "\<exists>a. v \<le> a \<and> a < v + n \<and> a div 4096 = (b + 4096 * k) div 4096"
    proof (cases "k = 0")
      case True
      with assms(1) base show ?thesis by (intro exI [of _ v]) simp
    next
      case False
      have "v < b + 4096"
        using mod_less_divisor [of 4096 v] b_hi unfolding b_def by linarith
      with False have "v \<le> b + 4096 * k" by simp
      moreover have "b + 4096 * k < v + n" using le e_hi by linarith
      ultimately show ?thesis by blast
    qed
  }
qed

lemma user_mem_check_iff:
  assumes "tables_in_memory s (env_pgdir (envs s e))"
    and "0 < len" and "unat va + unat len + 4095 < 4294967296"
  shows "user_mem_check e va len perm s = Ret 0 s \<longleftrightarrow>
    (\<forall>a. va \<le> a \<and> a < va + len \<longrightarrow> user_page_ok s (env_pgdir (envs s e)) perm a)"
proof -
  let ?pd = "env_pgdir (envs s e)" and ?v = "unat va" and ?n = "unat len"
  let ?b = "?v - ?v mod 4096" and ?e = "(?v + ?n + 4095) - (?v + ?n + 4095) mod 4096"
  have n: "0 < ?n" using assms(2) by (simp add: word_less_nat_alt)
  have vl: "unat (va + len) = ?v + ?n" using assms(3) by (intro unat_add_no_wrap) simp
  have "unat (ROUNDUP (va + len) PGSIZE) =
      (unat (va + len) + 4096 - 1) - (unat (va + len) + 4096 - 1) mod 4096"
    using assms(3) by (subst ROUNDUP_no_wrap) (simp_all add: vl)
  moreover have "?v + ?n + 4096 - 1 = ?v + ?n + 4095" by simp
  ultimately have e: "unat (ROUNDUP (va + len) PGSIZE) = ?e" unfolding vl by metis
  have run: "user_mem_check e va len perm s = user_mem_check_loop ?pd va perm ?b ?e s"
    by (simp add: user_mem_check_def e unat_ROUNDDOWN)
  have e_max: "?e < 4294967296" using assms(3) by (meson diff_le_self le_less_trans)
  note pages = page_round_nat [OF n, of ?v]
  show ?thesis
    unfolding run user_mem_check_ok_iff [OF assms(1)]
  proof (intro iffI allI impI)
    fix a assume ok: "\<forall>k. ?b + 4096 * k < ?e \<longrightarrow>
        user_page_ok s ?pd perm (of_nat (?b + 4096 * k))"
      and "va \<le> a \<and> a < va + len"
    then have "?v \<le> unat a" "unat a < ?v + ?n"
      by (simp_all add: word_le_nat_alt word_less_nat_alt vl)
    from pages(1) [OF this] obtain k where k: "?b + 4096 * k < ?e"
      and page: "(?b + 4096 * k) div 4096 = unat a div 4096" by blast
    have "frame (of_nat (?b + 4096 * k)) = frame a"
      unfolding frame_def using page k e_max
      by (subst unat_of_nat_u32) simp_all
    with ok k show "user_page_ok s ?pd perm a" using user_page_ok_frame by blast
  next
    fix k assume ok: "\<forall>a. va \<le> a \<and> a < va + len \<longrightarrow> user_page_ok s ?pd perm a"
      and k: "?b + 4096 * k < ?e"
    from pages(2) [OF k] obtain a where a: "?v \<le> a" "a < ?v + ?n"
      and page: "a div 4096 = (?b + 4096 * k) div 4096" by blast
    have ua: "unat (of_nat a :: u32) = a" using a assms(3) by (intro unat_of_nat_u32) simp
    have "va \<le> of_nat a \<and> of_nat a < va + len"
      using a by (simp add: word_le_nat_alt word_less_nat_alt ua vl)
    with ok have "user_page_ok s ?pd perm (of_nat a)" by blast
    moreover have "frame (of_nat a) = frame (of_nat (?b + 4096 * k))"
      unfolding frame_def ua using page k e_max by (subst unat_of_nat_u32) simp_all
    ultimately show "user_page_ok s ?pd perm (of_nat (?b + 4096 * k))"
      using user_page_ok_frame by blast
  qed
qed

text \<open>C14. For a non-empty range that does not wrap around, \<open>user_mem_check\<close> succeeds exactly
  when every byte of the range lies below \<open>ULIM\<close> on a present page with the permissions asked
  for.\<close>

theorem user_mem_check_exact:
  assumes "tables_in_memory s (env_pgdir (envs s e))"
    and "0 < len" and "unat va + unat len + 4095 < 4294967296"
  shows "user_mem_check e va len perm s = Ret 0 s \<longleftrightarrow>
    (\<forall>a. va \<le> a \<and> a < va + len \<longrightarrow> user_page_ok s (env_pgdir (envs s e)) perm a)"
  using assms by (rule user_mem_check_iff)

lemma user_mem_check_exact_witness:
  "user_mem_check 0 0x800010 16 5 mapped_machine = Ret 0 mapped_machine \<longleftrightarrow>
    (\<forall>a. 0x800010 \<le> a \<and> a < 0x800020 \<longrightarrow> user_page_ok mapped_machine sample_pgdir 5 a)"
  using user_mem_check_exact [of mapped_machine 0 16 "0x800010" 5] by simp

text \<open>A failed check names the first byte it could not accept: the recorded address lies
  in the range or on its first page, and it is not accessible.\<close>

theorem user_mem_check_fault:
  assumes "tables_in_memory s (env_pgdir (envs s e))"
    and "user_mem_check e va len perm s = Ret r t" and "r \<noteq> 0"
  shows "r = - E_FAULT \<and> \<not> user_page_ok s (env_pgdir (envs s e)) perm (user_mem_check_addr t) \<and>
    t = s\<lparr>user_mem_check_addr := user_mem_check_addr t\<rparr>"
proof -
  let ?pd = "env_pgdir (envs s e)"
  let ?b = "unat (ROUNDDOWN va PGSIZE)" and ?e = "unat (ROUNDUP (va + len) PGSIZE)"
  have "user_mem_check e va len perm s = user_mem_check_loop ?pd va perm ?b ?e s"
    by (simp add: user_mem_check_def)
  with user_mem_check_loop_result [OF assms(1), of va perm ?b ?e] assms(2,3)
  obtain k where k: "?b + 4096 * k < ?e"
    and bad: "\<not> user_page_ok s ?pd perm (of_nat (?b + 4096 * k))"
    and rt: "r = - E_FAULT" "t = check_fault va (?b + 4096 * k) s"
    by auto
  have "\<not> user_page_ok s ?pd perm (user_mem_check_addr t)"
  proof (cases "of_nat (?b + 4096 * k) < va")
    case False
    with bad rt show ?thesis by (simp add: check_fault_def)
  next
    case True
    have u: "unat (of_nat (?b + 4096 * k) :: u32) = ?b + 4096 * k"
      by (intro unat_of_nat_u32 less_trans [OF k unat_lt_u32])
    have "?b + 4096 * k < unat va" using True unfolding word_less_nat_alt u .
    moreover have "unat va < ?b + 4096"
      using mod_less_divisor [of 4096 "unat va"] by (simp add: unat_ROUNDDOWN)
    ultimately have "k = 0" by linarith
    then have "frame (of_nat (?b + 4096 * k)) = frame va"
      using u by (simp add: frame_def unat_ROUNDDOWN minus_mod_eq_mult_div)
    with bad have "\<not> user_page_ok s ?pd perm va" using user_page_ok_frame by blast
    with rt True show ?thesis by (simp add: check_fault_def)
  qed
  with rt show ?thesis by (simp add: check_fault_def)
qed

lemma user_mem_check_fault_witness:
  "\<exists>t. user_mem_check 0 0x1000 16 5 mapped_machine = Ret (- E_FAULT) t \<and>
    \<not> user_page_ok mapped_machine sample_pgdir 5 (user_mem_check_addr t)"
proof -
  have "PDX 0x1000 = 0" by (simp add: PDX_def)
  then have "\<not> user_page_ok mapped_machine sample_pgdir 5 (of_nat 0x1000)"
    by (simp add: user_page_ok_def)
  then have run: "user_mem_check 0 0x1000 16 5 mapped_machine =
      Ret (- E_FAULT) (check_fault 0x1000 0x1000 mapped_machine)"
    by (simp add: user_mem_check_def ROUNDUP_def ROUNDDOWN_def user_mem_check_step)
  have "(- E_FAULT :: u32) \<noteq> 0" by simp
  from user_mem_check_fault [OF _ run this] show ?thesis using run by simp
qed


end
