(* ===== verification/Lapic.thy ===== *)
theory Lapic
  imports Vmem
begin

text \<open>
  The local interrupt controller of a CPU: kern/lapic.c.  Its registers are mapped at \<open>lapic\<close>;
  a write is recorded in \<open>hwlog\<close>, and what a read answers is the function \<open>lapic_in\<close> of the
  number of the read.  \<open>thiscpu\<close> of the state is the result of \<open>cpunum\<close>.
\<close>

abbreviation (input) LAPIC_ID :: u32 where "LAPIC_ID \<equiv> 0x8"
abbreviation (input) LAPIC_VER :: u32 where "LAPIC_VER \<equiv> 0xC"
abbreviation (input) LAPIC_TPR :: u32 where "LAPIC_TPR \<equiv> 0x20"
abbreviation (input) LAPIC_EOI :: u32 where "LAPIC_EOI \<equiv> 0x2C"
abbreviation (input) LAPIC_SVR :: u32 where "LAPIC_SVR \<equiv> 0x3C"
abbreviation (input) LAPIC_ESR :: u32 where "LAPIC_ESR \<equiv> 0xA0"
abbreviation (input) LAPIC_ICRLO :: u32 where "LAPIC_ICRLO \<equiv> 0xC0"
abbreviation (input) LAPIC_ICRHI :: u32 where "LAPIC_ICRHI \<equiv> 0xC4"
abbreviation (input) LAPIC_TIMER :: u32 where "LAPIC_TIMER \<equiv> 0xC8"
abbreviation (input) LAPIC_PCINT :: u32 where "LAPIC_PCINT \<equiv> 0xD0"
abbreviation (input) LAPIC_LINT0 :: u32 where "LAPIC_LINT0 \<equiv> 0xD4"
abbreviation (input) LAPIC_LINT1 :: u32 where "LAPIC_LINT1 \<equiv> 0xD8"
abbreviation (input) LAPIC_ERROR :: u32 where "LAPIC_ERROR \<equiv> 0xDC"
abbreviation (input) LAPIC_TICR :: u32 where "LAPIC_TICR \<equiv> 0xE0"
abbreviation (input) LAPIC_TDCR :: u32 where "LAPIC_TDCR \<equiv> 0xF8"

abbreviation (input) LAPIC_ENABLE :: u32 where "LAPIC_ENABLE \<equiv> 0x00000100"
abbreviation (input) LAPIC_INIT :: u32 where "LAPIC_INIT \<equiv> 0x00000500"
abbreviation (input) LAPIC_STARTUP :: u32 where "LAPIC_STARTUP \<equiv> 0x00000600"
abbreviation (input) LAPIC_DELIVS :: u32 where "LAPIC_DELIVS \<equiv> 0x00001000"
abbreviation (input) LAPIC_ASSERT :: u32 where "LAPIC_ASSERT \<equiv> 0x00004000"
abbreviation (input) LAPIC_LEVEL :: u32 where "LAPIC_LEVEL \<equiv> 0x00008000"
abbreviation (input) LAPIC_BCAST :: u32 where "LAPIC_BCAST \<equiv> 0x00080000"
abbreviation (input) LAPIC_OTHERS :: u32 where "LAPIC_OTHERS \<equiv> 0x000C0000"
abbreviation (input) LAPIC_FIXED :: u32 where "LAPIC_FIXED \<equiv> 0x00000000"
abbreviation (input) LAPIC_X1 :: u32 where "LAPIC_X1 \<equiv> 0x0000000B"
abbreviation (input) LAPIC_PERIODIC :: u32 where "LAPIC_PERIODIC \<equiv> 0x00020000"
abbreviation (input) LAPIC_MASKED :: u32 where "LAPIC_MASKED \<equiv> 0x00010000"

abbreviation (input) IRQ_BASE :: u32 where "IRQ_BASE \<equiv> 32"
abbreviation (input) IRQ_TIMER :: u32 where "IRQ_TIMER \<equiv> 0"
abbreviation (input) IRQ_SPURIOUS :: u32 where "IRQ_SPURIOUS \<equiv> 7"
abbreviation (input) IRQ_ERROR :: u32 where "IRQ_ERROR \<equiv> 19"

text \<open>Reading and writing a register; no register is accessible before \<open>lapic\<close> is mapped.\<close>

definition lapicr :: "u32 \<Rightarrow> u32 kernel" where
  "lapicr index s =
     (if lapic s = 0 then Panic ''Kernel page fault!'' s
      else Ret (lapic_in s (lapic_time s) index) (s\<lparr>lapic_time := lapic_time s + 1\<rparr>))"

definition lapicw :: "u32 \<Rightarrow> u32 \<Rightarrow> unit kernel" where
  "lapicw index value =
     kbind (kget lapic) (\<lambda>l.
     if l = 0 then kpanic ''Kernel page fault!''
     else
       kbind (kmod (hw (Lapic_write index value))) (\<lambda>_.
       kbind (lapicr LAPIC_ID) (\<lambda>_.
       kret ())))"

text \<open>The wait until an interrupt is delivered, \<open>None\<close> if it never is.\<close>

partial_function (option) lapic_wait :: "kstate \<Rightarrow> kstate option" where
  "lapic_wait s =
     (let v = lapic_in s (lapic_time s) LAPIC_ICRLO;
          t = s\<lparr>lapic_time := lapic_time s + 1\<rparr>
      in if v AND LAPIC_DELIVS \<noteq> 0 then lapic_wait t else Some t)"

definition lapic_delivered :: "unit kernel" where
  "lapic_delivered s = (case lapic_wait s of None \<Rightarrow> Leave Spin s | Some t \<Rightarrow> Ret () t)"

definition lapic_init :: "unit kernel" where
  "lapic_init =
     kbind (kget lapicaddr) (\<lambda>addr.
     kwhen (addr \<noteq> 0)
       (kbind (mmio_map_region addr 4096) (\<lambda>va.
        kbind (kmod (\<lambda>s. s\<lparr>lapic := va\<rparr>)) (\<lambda>_.
        kbind (lapicw LAPIC_SVR (LAPIC_ENABLE OR (IRQ_BASE + IRQ_SPURIOUS))) (\<lambda>_.
        kbind (lapicw LAPIC_TDCR LAPIC_X1) (\<lambda>_.
        kbind (lapicw LAPIC_TIMER (LAPIC_PERIODIC OR (IRQ_BASE + IRQ_TIMER))) (\<lambda>_.
        kbind (lapicw LAPIC_TICR 10000000) (\<lambda>_.
        kbind (kget (\<lambda>s. thiscpu s \<noteq> bootcpu s)) (\<lambda>ap.
        kbind (kwhen ap (lapicw LAPIC_LINT0 LAPIC_MASKED)) (\<lambda>_.
        kbind (lapicw LAPIC_LINT1 LAPIC_MASKED) (\<lambda>_.
        kbind (lapicr LAPIC_VER) (\<lambda>ver.
        kbind (kwhen (drop_bit 16 ver AND 0xFF \<ge> 4) (lapicw LAPIC_PCINT LAPIC_MASKED)) (\<lambda>_.
        kbind (lapicw LAPIC_ERROR (IRQ_BASE + IRQ_ERROR)) (\<lambda>_.
        kbind (lapicw LAPIC_ESR 0) (\<lambda>_.
        kbind (lapicw LAPIC_ESR 0) (\<lambda>_.
        kbind (lapicw LAPIC_EOI 0) (\<lambda>_.
        kbind (lapicw LAPIC_ICRHI 0) (\<lambda>_.
        kbind (lapicw LAPIC_ICRLO (LAPIC_BCAST OR LAPIC_INIT OR LAPIC_LEVEL)) (\<lambda>_.
        kbind lapic_delivered (\<lambda>_.
        lapicw LAPIC_TPR 0))))))))))))))))))))"

definition cpunum :: "u32 kernel" where
  "cpunum =
     kbind (kget lapic) (\<lambda>l.
     if l \<noteq> 0 then kbind (lapicr LAPIC_ID) (\<lambda>v. kret (drop_bit 24 v)) else kret 0)"

definition lapic_eoi :: "unit kernel" where
  "lapic_eoi = kbind (kget lapic) (\<lambda>l. kwhen (l \<noteq> 0) (lapicw LAPIC_EOI 0))"

text \<open>A store of 16 bits through a kernel pointer.\<close>

definition kstore16 :: "u32 \<Rightarrow> u16 \<Rightarrow> unit kernel" where
  "kstore16 p v s = (if p < KERNBASE then Panic ''Kernel page fault!'' s
     else Ret () (s\<lparr>pmem := (pmem s)(p - KERNBASE := ucast v,
       p - KERNBASE + 1 := ucast (drop_bit 8 v))\<rparr>))"

definition lapic_startap :: "u8 \<Rightarrow> u32 \<Rightarrow> unit kernel" where
  "lapic_startap apicid addr =
     kbind (kdev (outb IO_RTC 0xF)) (\<lambda>_.
     kbind (kdev (outb (IO_RTC + 1) 0x0A)) (\<lambda>_.
     kbind (KADDR (push_bit 4 0x40 OR 0x67)) (\<lambda>wrv.
     kbind (kstore16 wrv 0) (\<lambda>_.
     kbind (kstore16 (wrv + 2) (ucast (drop_bit 4 addr))) (\<lambda>_.
     kbind (lapicw LAPIC_ICRHI (push_bit 24 (ucast apicid))) (\<lambda>_.
     kbind (lapicw LAPIC_ICRLO (LAPIC_INIT OR LAPIC_LEVEL OR LAPIC_ASSERT)) (\<lambda>_.
     kbind (lapicw LAPIC_ICRLO (LAPIC_INIT OR LAPIC_LEVEL)) (\<lambda>_.
     kfor [0..<2] (\<lambda>_.
       kbind (lapicw LAPIC_ICRHI (push_bit 24 (ucast apicid))) (\<lambda>_.
       lapicw LAPIC_ICRLO (LAPIC_STARTUP OR drop_bit 12 addr)))))))))))"

definition lapic_ipi :: "u32 \<Rightarrow> unit kernel" where
  "lapic_ipi vector =
     kbind (lapicw LAPIC_ICRLO (LAPIC_OTHERS OR LAPIC_FIXED OR vector)) (\<lambda>_.
     lapic_delivered)"

end
