(* ===== verification/Kdebug.thy ===== *)
theory Kdebug
  imports User_Mem Lapic
begin

text \<open>
  Symbol lookup in the STABS tables: kern/kdebug.c.  A table is the function from an index to
  a field, \<open>None\<close> where the memory is not readable; the search itself never writes.
\<close>

abbreviation (input) N_FUN :: u8 where "N_FUN \<equiv> 0x24"
abbreviation (input) N_SLINE :: u8 where "N_SLINE \<equiv> 0x44"
abbreviation (input) N_SO :: u8 where "N_SO \<equiv> 0x64"
abbreviation (input) N_SOL :: u8 where "N_SOL \<equiv> 0x84"
abbreviation (input) N_PSYM :: u8 where "N_PSYM \<equiv> 0xa0"
abbreviation (input) USTABDATA :: u32 where "USTABDATA \<equiv> 0x200000"
abbreviation (input) sizeof_Stab :: u32 where "sizeof_Stab \<equiv> 12"

record stab_table =
  n_type :: "int \<Rightarrow> u8 option"
  n_value :: "int \<Rightarrow> u32 option"

subsection \<open>The binary search\<close>

text \<open>The scan down from \<open>m\<close> for an entry of the right type, not below \<open>l\<close>.\<close>

function scan_down :: "stab_table \<Rightarrow> u8 \<Rightarrow> int \<Rightarrow> int \<Rightarrow> int option" where
  "scan_down st ty l m =
     (if m \<ge> l then
        (case n_type st m of
           None \<Rightarrow> None
         | Some t \<Rightarrow> if t \<noteq> ty then scan_down st ty l (m - 1) else Some m)
      else Some m)"
  by pat_completeness auto
termination by (relation "measure (\<lambda>(st, ty, l, m). nat (m - l + 1))") auto

declare scan_down.simps [simp del]

lemma scan_down_bounds:
  assumes "scan_down st ty l m = Some k"
  shows "k \<le> m" and "l - 1 \<le> m \<Longrightarrow> l - 1 \<le> k" and "k \<ge> l \<Longrightarrow> n_type st k = Some ty"
  using assms
  by (induction st ty l m rule: scan_down.induct)
    (subst (asm) (2) scan_down.simps, fastforce split: if_splits option.splits)+

lemma search_shrinks:
  fixes l r :: int
  assumes "l \<le> r"
  shows "Suc (2 * nat (r - (l + r) div 2)) < 2 * nat (r - l + 1)"
proof -
  have "l + r \<le> 2 * ((l + r) div 2) + 1" by presburger
  moreover have "(l + r) div 2 \<le> r" using assms by presburger
  moreover have "l = r \<Longrightarrow> (l + r) div 2 = r" by presburger
  ultimately show ?thesis using assms by (cases "l = r") auto
qed

text \<open>The main loop: the locals \<open>l\<close>, \<open>r\<close>, \<open>any_matches\<close>, \<open>addr\<close> and the two regions.\<close>

record search =
  region_left :: int
  region_right :: int
  any_matches :: bool

function stab_loop :: "stab_table \<Rightarrow> u8 \<Rightarrow> int \<Rightarrow> int \<Rightarrow> u32 \<Rightarrow> search \<Rightarrow> search option" where
  "stab_loop st ty l r addr b =
     (if l \<le> r then
        (let true_m = (l + r) div 2
         in case scan_down st ty l true_m of
              None \<Rightarrow> None
            | Some m \<Rightarrow>
                if m < l then stab_loop st ty (true_m + 1) r addr b
                else
                  (case n_value st m of
                     None \<Rightarrow> None
                   | Some v \<Rightarrow>
                       if v < addr then
                         stab_loop st ty (true_m + 1) r addr (b\<lparr>any_matches := True, region_left := m\<rparr>)
                       else if v > addr then
                         stab_loop st ty l (m - 1) addr (b\<lparr>any_matches := True, region_right := m - 1\<rparr>)
                       else
                         stab_loop st ty m r (addr + 1) (b\<lparr>any_matches := True, region_left := m\<rparr>)))
      else Some b)"
  by pat_completeness auto
termination
proof (relation "measure (\<lambda>(st, ty, l, r, addr, b).
    2 * nat (r - l + 1) + (if n_value st l = Some addr then 1 else 0))", goal_cases)
  case (5 st ty l r addr b true_m m v)
  have b: "l \<le> m" "m \<le> r" using 5 scan_down_bounds(1) [of st ty l true_m m] by auto
  have v: "v = addr" using 5 by simp
  have "n_value st l \<noteq> Some (addr + 1)" if "m = l" using that 5 v by simp
  with b v 5 show ?case by (cases "m = l") (auto simp: nat_less_iff)
next
  case (4 st ty l r addr b true_m m v)
  then show ?case using scan_down_bounds(1) [of st ty l true_m m] by auto
qed (auto simp: search_shrinks)

declare stab_loop.simps [simp del]

text \<open>The scan for the rightmost region, and the whole search.\<close>

function scan_left :: "stab_table \<Rightarrow> u8 \<Rightarrow> int \<Rightarrow> int \<Rightarrow> int option" where
  "scan_left st ty left l =
     (if l > left then
        (case n_type st l of
           None \<Rightarrow> None
         | Some t \<Rightarrow> if t \<noteq> ty then scan_left st ty left (l - 1) else Some l)
      else Some l)"
  by pat_completeness auto
termination by (relation "measure (\<lambda>(st, ty, left, l). nat (l - left))") auto

declare scan_left.simps [simp del]

definition stab_binsearch :: "stab_table \<Rightarrow> int \<Rightarrow> int \<Rightarrow> u8 \<Rightarrow> u32 \<Rightarrow> (int \<times> int) option" where
  "stab_binsearch st left right ty addr =
     Option.bind (stab_loop st ty left right addr
       \<lparr>region_left = left, region_right = right, any_matches = False\<rparr>) (\<lambda>b.
     if \<not> any_matches b then Some (region_left b, region_left b - 1)
     else map_option (\<lambda>l. (l, region_right b)) (scan_left st ty (region_left b) (region_right b)))"

subsection \<open>Looking up an instruction address\<close>

text \<open>What the memory holds at a virtual address of the kernel, \<open>None\<close> for a page fault.\<close>

definition vbyte :: "kstate \<Rightarrow> u32 \<Rightarrow> u8 option" where
  "vbyte s va = map_option (pmem s) (translate s False False va)"

definition vword16 :: "kstate \<Rightarrow> u32 \<Rightarrow> u16 option" where
  "vword16 s va = (case (vbyte s va, vbyte s (va + 1)) of
     (Some a, Some b) \<Rightarrow> Some (ucast a OR push_bit 8 (ucast b)) | _ \<Rightarrow> None)"

definition vword :: "kstate \<Rightarrow> u32 \<Rightarrow> u32 option" where
  "vword s va = (case (vword16 s va, vword16 s (va + 2)) of
     (Some a, Some b) \<Rightarrow> Some (ucast a OR push_bit 16 (ucast b)) | _ \<Rightarrow> None)"

definition kread :: "(kstate \<Rightarrow> 'a option) \<Rightarrow> 'a kernel" where
  "kread f s = (case f s of None \<Rightarrow> Panic ''Kernel page fault!'' s | Some x \<Rightarrow> Ret x s)"

text \<open>A \<open>const char *\<close> is a literal of the kernel or an address.\<close>

datatype cptr = Literal string | Address u32

record Eipdebuginfo =
  eip_file :: cptr
  eip_line :: u32
  eip_fn_name :: cptr
  eip_fn_namelen :: u32
  eip_fn_addr :: u32
  eip_fn_narg :: nat

definition stab_addr :: "u32 \<Rightarrow> int \<Rightarrow> u32" where
  "stab_addr stabs k = stabs + sizeof_Stab * of_int k"

definition stab_table_at :: "kstate \<Rightarrow> u32 \<Rightarrow> stab_table" where
  "stab_table_at s stabs = \<lparr>n_type = (\<lambda>k. vbyte s (stab_addr stabs k + 4)),
     n_value = (\<lambda>k. vword s (stab_addr stabs k + 8))\<rparr>"

text \<open>\<open>strfind\<close> of a colon, as an offset; memory without one is read forever.\<close>

primrec colon_offset :: "nat \<Rightarrow> u32 \<Rightarrow> u32 \<Rightarrow> u32 kernel" where
  "colon_offset 0 p n = kleave Spin"
| "colon_offset (Suc k) p n =
     kbind (vload8 (p + n)) (\<lambda>b.
     if b = 0 \<or> b = of_char (CHR '':'') then kret n else colon_offset k p (n + 1))"

definition strfind_colon :: "cptr \<Rightarrow> u32 kernel" where
  "strfind_colon p =
     (case p of
        Literal str \<Rightarrow> kret (of_nat (length (takeWhile (\<lambda>c. c \<noteq> CHR '':'') str)))
      | Address a \<Rightarrow> colon_offset (2 ^ 32) a 0)"

text \<open>The tables to search: \<open>None\<close> when the user's tables may not be read.\<close>

definition find_tables :: "u32 \<Rightarrow> (u32 \<times> u32 \<times> u32 \<times> u32) option kernel" where
  "find_tables addr =
     (if addr \<ge> ULIM then
        kbind (kget image) (\<lambda>img.
        kret (Some (stab_begin img, stab_end img, stabstr_begin img, stabstr_end img)))
      else
        kbind the_curenv (\<lambda>c.
        kbind (user_mem_check c USTABDATA 16 PTE_U) (\<lambda>r.
        if r \<noteq> 0 then kret None
        else
          kbind (kread (\<lambda>s. vword s USTABDATA)) (\<lambda>stabs.
          kbind (kread (\<lambda>s. vword s (USTABDATA + 4))) (\<lambda>ends.
          kbind (kread (\<lambda>s. vword s (USTABDATA + 8))) (\<lambda>str.
          kbind (kread (\<lambda>s. vword s (USTABDATA + 12))) (\<lambda>str_end.
          kbind (user_mem_check c stabs sizeof_Stab PTE_U) (\<lambda>r.
          if r \<noteq> 0 then kret None
          else
            kbind (user_mem_check c str (str_end - str) PTE_U) (\<lambda>r.
            if r \<noteq> 0 then kret None else kret (Some (stabs, ends, str, str_end)))))))))))"

text \<open>The scan back for the file name, and the count of the parameters.\<close>

function file_scan :: "stab_table \<Rightarrow> int \<Rightarrow> int \<Rightarrow> int option" where
  "file_scan st lfile l =
     (if l \<ge> lfile then
        (case (n_type st l, n_value st l) of
           (Some t, v) \<Rightarrow>
             if t = N_SOL then Some l
             else if t \<noteq> N_SO then file_scan st lfile (l - 1)
             else (case v of None \<Rightarrow> None
                   | Some v \<Rightarrow> if v = 0 then file_scan st lfile (l - 1) else Some l)
         | (None, v) \<Rightarrow> None)
      else Some l)"
  by pat_completeness auto
termination by (relation "measure (\<lambda>(st, lfile, l). nat (l - lfile + 1))") auto

declare file_scan.simps [simp del]

function count_params :: "stab_table \<Rightarrow> int \<Rightarrow> int \<Rightarrow> nat option" where
  "count_params st rfun l =
     (if l < rfun then
        (case n_type st l of
           None \<Rightarrow> None
         | Some t \<Rightarrow> if t = N_PSYM then map_option Suc (count_params st rfun (l + 1)) else Some 0)
      else Some 0)"
  by pat_completeness auto
termination by (relation "measure (\<lambda>(st, rfun, l). nat (rfun - l))") auto

declare count_params.simps [simp del]

text \<open>The function: its bounds, its name and address, and the range of its line entries.\<close>

definition find_function ::
  "u32 \<Rightarrow> u32 \<Rightarrow> u32 \<Rightarrow> int \<Rightarrow> int \<Rightarrow> u32 \<Rightarrow> Eipdebuginfo \<Rightarrow>
     (Eipdebuginfo \<times> u32 \<times> int \<times> int \<times> int \<times> int) kernel" where
  "find_function stabs stabstr str_end lfile rfile addr info =
     kbind (kread (\<lambda>s. stab_binsearch (stab_table_at s stabs) lfile rfile N_FUN addr)) (\<lambda>(lfun, rfun).
     if lfun \<le> rfun then
       kbind (kread (\<lambda>s. vword s (stab_addr stabs lfun))) (\<lambda>strx.
       kbind (kread (\<lambda>s. vword s (stab_addr stabs lfun + 8))) (\<lambda>v.
       kret ((if strx < str_end - stabstr then info\<lparr>eip_fn_name := Address (stabstr + strx)\<rparr>
              else info)\<lparr>eip_fn_addr := v\<rparr>, addr - v, lfun, rfun, lfun, rfun)))
     else kret (info\<lparr>eip_fn_addr := addr\<rparr>, addr, lfun, rfun, lfile, rfile))"

text \<open>\<open>debuginfo_eip\<close> returns its result and the structure it fills in.\<close>

definition debuginfo_eip :: "u32 \<Rightarrow> (u32 \<times> Eipdebuginfo) kernel" where
  "debuginfo_eip addr =
     (let info = \<lparr>eip_file = Literal ''<unknown>'', eip_line = 0,
        eip_fn_name = Literal ''<unknown>'', eip_fn_namelen = 9, eip_fn_addr = addr, eip_fn_narg = 0\<rparr> in
      kbind (find_tables addr) (\<lambda>tables. case tables of
        None \<Rightarrow> kret (- 1, info)
      | Some (stabs, ends, stabstr, str_end) \<Rightarrow>
          kbind (if str_end \<le> stabstr then kret True
                 else kbind (vload8 (str_end - 1)) (\<lambda>b. kret (b \<noteq> 0))) (\<lambda>bad.
          if bad then kret (- 1, info)
          else
            kbind (kread (\<lambda>s. stab_binsearch (stab_table_at s stabs) 0
              (sint (ends - stabs) div 12 - 1) N_SO addr)) (\<lambda>(lfile, rfile).
            if lfile = 0 then kret (- 1, info)
            else
              kbind (find_function stabs stabstr str_end lfile rfile addr info)
                (\<lambda>(info, addr, lfun, rfun, lline, rline).
              kbind (strfind_colon (eip_fn_name info)) (\<lambda>namelen.
              let info = info\<lparr>eip_fn_namelen := namelen\<rparr> in
              kbind (kread (\<lambda>s. stab_binsearch (stab_table_at s stabs) lline rline N_SLINE addr)) (\<lambda>(lline, rline).
              kbind (kread (\<lambda>s. vword16 s (stab_addr stabs lline + 6))) (\<lambda>desc.
              let info = info\<lparr>eip_line := ucast desc\<rparr> in
              kbind (kread (\<lambda>s. file_scan (stab_table_at s stabs) lfile lline)) (\<lambda>lline.
              kbind
                (if lline \<ge> lfile then
                   kbind (kread (\<lambda>s. vword s (stab_addr stabs lline))) (\<lambda>strx.
                   kret (if strx < str_end - stabstr then info\<lparr>eip_file := Address (stabstr + strx)\<rparr> else info))
                 else kret info) (\<lambda>info.
              kbind
                (if lfun < rfun then kread (\<lambda>s. count_params (stab_table_at s stabs) rfun (lfun + 1))
                 else kret 0) (\<lambda>narg.
              kret (0, info\<lparr>eip_fn_narg := narg\<rparr>))))))))))))"

text \<open>The string a \<open>const char *\<close> points to, of at most \<open>n\<close> characters.\<close>

primrec vstring :: "nat \<Rightarrow> u32 \<Rightarrow> string kernel" where
  "vstring 0 p = kret []"
| "vstring (Suc n) p =
     kbind (vload8 p) (\<lambda>b.
     if b = 0 then kret [] else kbind (vstring n (p + 1)) (\<lambda>s. kret (char_of (unat b) # s)))"

definition cptr_string :: "nat \<Rightarrow> cptr \<Rightarrow> string kernel" where
  "cptr_string n p = (case p of Literal s \<Rightarrow> kret (take n s) | Address a \<Rightarrow> vstring n a)"

subsection \<open>The search finds the region\<close>

definition of_type :: "stab_table \<Rightarrow> u8 \<Rightarrow> int \<Rightarrow> bool" where
  "of_type st ty k \<longleftrightarrow> n_type st k = Some ty"

definition value_at :: "stab_table \<Rightarrow> int \<Rightarrow> u32" where
  "value_at st k = the (n_value st k)"

text \<open>The entries from \<open>left\<close> to \<open>right\<close> are readable, those of the type are in
  increasing order, and none of them lies just after \<open>addr\<close>.\<close>

definition searchable :: "stab_table \<Rightarrow> int \<Rightarrow> int \<Rightarrow> u8 \<Rightarrow> u32 \<Rightarrow> bool" where
  "searchable st left right ty addr \<longleftrightarrow>
     (\<forall>k \<in> {left..right}. n_type st k \<noteq> None \<and> n_value st k \<noteq> None) \<and>
     (\<forall>j \<in> {left..right}. \<forall>k \<in> {left..right}. of_type st ty j \<longrightarrow> of_type st ty k \<longrightarrow> j < k \<longrightarrow>
        value_at st j < value_at st k) \<and>
     (\<forall>k \<in> {left..right}. of_type st ty k \<longrightarrow> value_at st k \<noteq> addr + 1) \<and> addr + 1 \<noteq> 0"

lemma scan_down_finds:
  assumes "\<And>k. l \<le> k \<Longrightarrow> k \<le> m \<Longrightarrow> n_type st k \<noteq> None" and "l - 1 \<le> m"
  obtains k where "scan_down st ty l m = Some k" "l - 1 \<le> k" "k \<le> m" "l \<le> k \<Longrightarrow> of_type st ty k"
    "\<And>j. k < j \<Longrightarrow> j \<le> m \<Longrightarrow> \<not> of_type st ty j"
proof -
  have "\<exists>k. scan_down st ty l m = Some k \<and> l - 1 \<le> k \<and> k \<le> m \<and> (l \<le> k \<longrightarrow> of_type st ty k) \<and>
      (\<forall>j. k < j \<longrightarrow> j \<le> m \<longrightarrow> \<not> of_type st ty j)"
    using assms
  proof (induction st ty l m rule: scan_down.induct)
    case (1 st ty l m)
    show ?case
    proof (cases "m \<ge> l")
      case True
      then obtain t where t: "n_type st m = Some t" using "1.prems"(1) by fastforce
      show ?thesis
      proof (cases "t = ty")
        case True
        with t \<open>m \<ge> l\<close> show ?thesis by (auto simp: scan_down.simps [of st ty l m] of_type_def)
      next
        case False
        from "1.IH" [OF \<open>m \<ge> l\<close> t False] "1.prems" \<open>m \<ge> l\<close>
        obtain k where k: "scan_down st ty l (m - 1) = Some k" "l - 1 \<le> k" "k \<le> m - 1"
            "l \<le> k \<longrightarrow> of_type st ty k" "\<forall>j. k < j \<longrightarrow> j \<le> m - 1 \<longrightarrow> \<not> of_type st ty j"
          by auto
        have "\<not> of_type st ty m" using t False by (simp add: of_type_def)
        then have "\<not> of_type st ty j" if "k < j" "j \<le> m" for j
          using k(5) that by (cases "j = m") auto
        with k t False \<open>m \<ge> l\<close> show ?thesis by (auto simp: scan_down.simps [of st ty l m])
      qed
    qed (use "1.prems" in \<open>auto simp: scan_down.simps [of st ty l m]\<close>)
  qed
  with that show ?thesis by blast
qed

lemma scan_left_finds:
  assumes "\<And>k. left < k \<Longrightarrow> k \<le> l \<Longrightarrow> n_type st k \<noteq> None" and "left \<le> l"
  obtains k where "scan_left st ty left l = Some k" "left \<le> k" "k \<le> l"
    "k = left \<or> of_type st ty k" "\<And>j. k < j \<Longrightarrow> j \<le> l \<Longrightarrow> \<not> of_type st ty j"
proof -
  have eq: "scan_left st ty left l = scan_down st ty (left + 1) l"
    using assms
  proof (induction st ty left l rule: scan_left.induct)
    case (1 st ty left l)
    then show ?case
      by (auto simp: scan_left.simps [of st ty left l] scan_down.simps [of st ty "left + 1" l]
          split: option.split)
  qed
  obtain k where "scan_down st ty (left + 1) l = Some k" "left + 1 - 1 \<le> k" "k \<le> l"
    "left + 1 \<le> k \<Longrightarrow> of_type st ty k" "\<And>j. k < j \<Longrightarrow> j \<le> l \<Longrightarrow> \<not> of_type st ty j"
    by (rule scan_down_finds [of "left + 1" l st ty]) (use assms in auto)
  with that [of k] eq show ?thesis by fastforce
qed

text \<open>What is true of the locals of the search in every round.\<close>

definition narrowed :: "stab_table \<Rightarrow> int \<Rightarrow> int \<Rightarrow> u8 \<Rightarrow> u32 \<Rightarrow> int \<Rightarrow> int \<Rightarrow> u32 \<Rightarrow> search \<Rightarrow> bool" where
  "narrowed st left right ty addr l r a b \<longleftrightarrow>
     left \<le> l \<and> r \<le> right \<and> (a = addr \<or> a = addr + 1) \<and> region_right b = r \<and>
     (\<forall>k \<in> {left..right}. of_type st ty k \<longrightarrow>
        (k < l \<longrightarrow> value_at st k \<le> addr) \<and> (r < k \<longrightarrow> addr < value_at st k)) \<and>
     (\<not> any_matches b \<longrightarrow> (\<forall>k \<in> {left..right}. of_type st ty k \<longrightarrow> l \<le> k \<and> k \<le> r)) \<and>
     (region_left b = left \<and> (\<forall>k. left \<le> k \<longrightarrow> k < l \<longrightarrow> \<not> of_type st ty k) \<or>
      any_matches b \<and> left \<le> region_left b \<and> region_left b \<le> r \<and> of_type st ty (region_left b) \<and>
        value_at st (region_left b) \<le> addr)"

lemma unat_succ_u32: "(a :: u32) + 1 \<noteq> 0 \<Longrightarrow> unat (a + 1) = unat a + 1"
proof -
  assume "a + 1 \<noteq> 0"
  then have "unat (a + 1) \<noteq> 0" by (simp add: unat_eq_0)
  then have "(unat a + 1) mod 4294967296 \<noteq> 0" by (simp add: unat_add_u32)
  then have "unat a + 1 \<noteq> 4294967296" by auto
  then have "unat a + 1 < 4294967296" using unat_lt_u32 [of a] by linarith
  then show ?thesis by (subst unat_add_no_wrap) simp_all
qed

lemma narrowed_none:
  assumes "narrowed st left right ty addr l r a b" "\<And>k. l \<le> k \<Longrightarrow> k \<le> mid \<Longrightarrow> \<not> of_type st ty k"
    "l \<le> mid"
  shows "narrowed st left right ty addr (mid + 1) r a b"
proof -
  have low: "k < mid + 1 \<Longrightarrow> of_type st ty k \<Longrightarrow> k < l" for k
    using assms(2) [of k] by force
  then have high: "of_type st ty k \<Longrightarrow> l \<le> k \<Longrightarrow> mid + 1 \<le> k" for k
    by (meson leD not_le)
  show ?thesis
    using assms(1,3) low high unfolding narrowed_def by (simp add: Ball_def) blast
qed

lemma narrowed_below:
  assumes ok: "searchable st left right ty addr" and n: "narrowed st left right ty addr l r a b"
    and m: "l \<le> m" "m \<le> mid" "mid \<le> r" "of_type st ty m" "value_at st m < a"
    "\<And>k. m < k \<Longrightarrow> k \<le> mid \<Longrightarrow> \<not> of_type st ty k"
  shows "narrowed st left right ty addr (mid + 1) r a (b\<lparr>any_matches := True, region_left := m\<rparr>)"
proof -
  have bd: "left \<le> l" "r \<le> right" "a = addr \<or> a = addr + 1" using n by (auto simp: narrowed_def)
  have "addr + 1 \<noteq> 0" using ok by (simp add: searchable_def)
  then have le: "value_at st m \<le> addr"
    using bd(3) m(5) unat_succ_u32 [of addr] by (auto simp: word_less_nat_alt word_le_nat_alt)
  have "value_at st k \<le> addr" if "k \<in> {left..right}" "of_type st ty k" "k < mid + 1" for k
  proof -
    have "k \<le> m" using m(6) [of k] that by force
    moreover have "value_at st k < value_at st m" if "k < m"
      using ok that \<open>k \<in> {left..right}\<close> \<open>of_type st ty k\<close> m bd by (auto simp: searchable_def)
    ultimately show ?thesis using le by (cases "k = m") auto
  qed
  then show ?thesis using n m bd le by (simp add: narrowed_def)
qed

lemma narrowed_above:
  assumes ok: "searchable st left right ty addr" and n: "narrowed st left right ty addr l r a b"
    and m: "l \<le> m" "m \<le> r" "of_type st ty m" "a < value_at st m"
  shows "narrowed st left right ty addr l (m - 1) a (b\<lparr>any_matches := True, region_right := m - 1\<rparr>)"
proof -
  have bd: "left \<le> l" "r \<le> right" "a = addr \<or> a = addr + 1" using n by (auto simp: narrowed_def)
  have "addr + 1 \<noteq> 0" using ok by (simp add: searchable_def)
  then have gt: "addr < value_at st m"
    using bd(3) m(4) unat_succ_u32 [of addr] by (auto simp: word_less_nat_alt)
  have above: "addr < value_at st k" if "k \<in> {left..right}" "of_type st ty k" "m - 1 < k" for k
  proof -
    have "value_at st m < value_at st k" if "m < k"
      using ok that \<open>k \<in> {left..right}\<close> \<open>of_type st ty k\<close> m bd by (auto simp: searchable_def)
    with gt that show ?thesis by (cases "k = m") auto
  qed
  moreover have "region_left b \<le> m - 1"
    if "left \<le> region_left b" "region_left b \<le> r" "of_type st ty (region_left b)"
      "value_at st (region_left b) \<le> addr"
    using above [of "region_left b"] that bd by force
  ultimately show ?thesis using n m bd unfolding narrowed_def by auto
qed

lemma narrowed_exact:
  assumes ok: "searchable st left right ty addr" and n: "narrowed st left right ty addr l r a b"
    and m: "l \<le> m" "m \<le> r" "of_type st ty m" "value_at st m = a"
  shows "narrowed st left right ty addr m r (a + 1) (b\<lparr>any_matches := True, region_left := m\<rparr>)"
proof -
  have bd: "left \<le> l" "r \<le> right" "a = addr \<or> a = addr + 1" using n by (auto simp: narrowed_def)
  then have a: "a = addr" using ok m by (auto simp: searchable_def)
  have "value_at st k \<le> addr" if "k \<in> {left..right}" "of_type st ty k" "k < m" for k
    using ok that m bd a by (fastforce simp: searchable_def)
  then show ?thesis using n m bd a by (simp add: narrowed_def)
qed

lemma stab_loop_narrowed:
  assumes ok: "searchable st left right ty addr" and "narrowed st left right ty addr l r a b"
  shows "\<exists>b' l' r' a'. stab_loop st ty l r a b = Some b' \<and> l' > r' \<and>
    narrowed st left right ty addr l' r' a' b'"
  using assms
proof (induction st ty l r a b rule: stab_loop.induct)
  case (1 st ty l r a b)
  show ?case
  proof (cases "l \<le> r")
    case False
    then have "stab_loop st ty l r a b = Some b" by (simp add: stab_loop.simps [of st ty l r a b])
    with "1.prems"(2) False show ?thesis by (meson not_le)
  next
    case True
    define mid where "mid = (l + r) div 2"
    have mid: "l \<le> mid" "mid \<le> r" using True by (auto simp: mid_def)
    have bd: "left \<le> l" "r \<le> right" using "1.prems"(2) by (auto simp: narrowed_def)
    have rd: "n_type st k \<noteq> None" "n_value st k \<noteq> None" if "l \<le> k" "k \<le> r" for k
      using "1.prems"(1) bd that by (auto simp: searchable_def)
    obtain m where m: "scan_down st ty l mid = Some m" "l - 1 \<le> m" "m \<le> mid"
      "l \<le> m \<Longrightarrow> of_type st ty m" "\<And>j. m < j \<Longrightarrow> j \<le> mid \<Longrightarrow> \<not> of_type st ty j"
      by (rule scan_down_finds [of l mid st ty]) (use rd mid in auto)
    have step: "stab_loop st ty l r a b =
        (if m < l then stab_loop st ty (mid + 1) r a b
         else if value_at st m < a then
           stab_loop st ty (mid + 1) r a (b\<lparr>any_matches := True, region_left := m\<rparr>)
         else if value_at st m > a then
           stab_loop st ty l (m - 1) a (b\<lparr>any_matches := True, region_right := m - 1\<rparr>)
         else stab_loop st ty m r (a + 1) (b\<lparr>any_matches := True, region_left := m\<rparr>))"
      using True m(1) rd(2) [of m] m(3) mid
      by (subst stab_loop.simps) (auto simp: mid_def value_at_def)
    note ih = "1.IH" [OF True mid_def m(1)]
    note nw = "1.prems"
    consider "m < l" | "l \<le> m" "value_at st m < a" | "l \<le> m" "a < value_at st m"
      | "l \<le> m" "value_at st m = a"
      by fastforce
    then show ?thesis
    proof cases
      case 1
      with m(5) have "narrowed st left right ty addr (mid + 1) r a b"
        by (intro narrowed_none [OF nw(2)]) (use mid in auto)
      with 1 step ih(1) nw(1) show ?thesis by auto
    next
      case 2
      have v: "n_value st m = Some (value_at st m)" using rd(2) [of m] 2 m(3) mid by (auto simp: value_at_def)
      have "narrowed st left right ty addr (mid + 1) r a (b\<lparr>any_matches := True, region_left := m\<rparr>)"
        by (rule narrowed_below [OF nw]) (use 2 m mid in auto)
      with 2 step ih(2) [OF _ v] nw(1) show ?thesis by auto
    next
      case 3
      have v: "n_value st m = Some (value_at st m)" using rd(2) [of m] 3 m(3) mid by (auto simp: value_at_def)
      have "narrowed st left right ty addr l (m - 1) a (b\<lparr>any_matches := True, region_right := m - 1\<rparr>)"
        by (rule narrowed_above [OF nw]) (use 3 m mid in auto)
      with 3 step ih(3) [OF _ v] nw(1) show ?thesis by auto
    next
      case 4
      have v: "n_value st m = Some (value_at st m)" using rd(2) [of m] 4 m(3) mid by (auto simp: value_at_def)
      have "narrowed st left right ty addr m r (a + 1) (b\<lparr>any_matches := True, region_left := m\<rparr>)"
        by (rule narrowed_exact [OF nw]) (use 4 m mid in auto)
      with 4 step ih(4) [OF _ v] nw(1) show ?thesis by auto
    qed
  qed
qed


text \<open>The table of the comment of kern/kdebug.c: the source file of 0xf0100184 is entry 118.\<close>

definition sample_stabs :: stab_table where
  "sample_stabs = \<lparr>n_type = (\<lambda>k. Some (if k \<in> {0, 13, 117, 118, 555, 556, 657} then N_SO else N_SLINE)),
     n_value = (\<lambda>k. Some (if k = 0 then 0xf0100000 else if k = 13 then 0xf0100040
       else if k = 117 then 0xf0100176 else if k = 118 then 0xf0100178
       else if k = 555 then 0xf0100652 else if k = 556 then 0xf0100654
       else if k = 657 then 0xf0100849 else 0))\<rparr>"

lemma sample_searchable: "searchable sample_stabs 0 657 N_SO 0xf0100184"
  unfolding searchable_def of_type_def value_at_def sample_stabs_def
  by (auto split: if_splits)


text \<open>Without the last condition the search is wrong: when it meets \<open>addr\<close> exactly it goes on
  with \<open>addr + 1\<close>, and takes an entry at that address, one byte further, for the result.\<close>

definition adjacent_stabs :: stab_table where
  "adjacent_stabs = \<lparr>n_type = (\<lambda>k. Some N_SLINE),
     n_value = (\<lambda>k. Some (if k = 0 then 2 else if k = 1 then 4 else if k = 2 then 5 else 9))\<rparr>"

theorem stab_binsearch_adjacent:
  "stab_binsearch adjacent_stabs 0 3 N_SLINE 4 = Some (2, 2)"
  by code_simp

end
