(* ===== verification/Klock.thy ===== *)
theory Klock
  imports Kdebug
begin

text \<open>
  The big kernel lock: \<open>lock_kernel\<close> and \<open>unlock_kernel\<close> of kern/spinlock.h over the lock of
  the kernel state, with the report \<open>spin_unlock\<close> of kern/spinlock.c prints before it panics.
\<close>

definition lock_kernel :: "unit kernel" where
  "lock_kernel s =
     (case spin_lock (caller_pcs s (thiscpu s)) (thiscpu s) (kernel_lock s) of
        Locked l \<Rightarrow> Ret () (s\<lparr>kernel_lock := l\<rparr>)
      | Spin_again \<Rightarrow> Leave Spin s
      | Lock_panic msg \<Rightarrow> Panic msg s)"

text \<open>The report reads \<open>cpu_id\<close> through \<open>lk->cpu\<close>, which is null once the lock is free.\<close>

primrec print_pcs :: "u32 list \<Rightarrow> unit kernel" where
  "print_pcs [] = kret ()"
| "print_pcs (pc # pcs) =
     (if pc = 0 then kret ()
      else
        kbind (debuginfo_eip pc) (\<lambda>(r, info).
        kbind
          (if sint r \<ge> 0 then
             kbind (cptr_string (2 ^ 32) (eip_file info)) (\<lambda>file.
             kbind (cptr_string (unat (eip_fn_namelen info)) (eip_fn_name info)) (\<lambda>fn.
             kprintf (''  %08x %s:%d: %.*s+%x'' @ newline)
               [Word32 pc, Cstr (Some file), Word32 (eip_line info), Word32 (eip_fn_namelen info),
                Cstr (Some fn), Word32 (pc - eip_fn_addr info)]))
           else kprintf (''  %08x'' @ newline) [Word32 pc]) (\<lambda>_.
        print_pcs pcs)))"

definition report_unlock :: "unit kernel" where
  "report_unlock =
     kbind cpunum (\<lambda>cpu.
     kbind (kget kernel_lock) (\<lambda>l. case lk_cpu l of
       None \<Rightarrow> kpanic ''Kernel page fault!''
     | Some c \<Rightarrow>
         kbind (kget (\<lambda>s. cpu_id (cpus s c))) (\<lambda>holder.
         kbind (kprintf (''CPU %d cannot release %s: held by CPU %d'' @ newline @ ''Acquired at:'')
           [Word32 cpu, Cstr (Some (lk_name l)), Word32 (ucast holder)]) (\<lambda>_.
         print_pcs (lk_pcs l)))))"

definition unlock_kernel :: "unit kernel" where
  "unlock_kernel s =
     (case spin_unlock (thiscpu s) (kernel_lock s) of
        Locked l \<Rightarrow> Ret () (s\<lparr>kernel_lock := l\<rparr>)
      | Spin_again \<Rightarrow> Leave Spin s
      | Lock_panic msg \<Rightarrow> kbind report_unlock (\<lambda>_. kpanic msg) s)"

end
