(* ===== verification/Sched.thy ===== *)
theory Sched
  imports Env_Ops Klock
begin

text \<open>
  The operations that leave the kernel: kern/sched.c, and \<open>env_pop_tf\<close>, \<open>env_run\<close> and
  \<open>env_destroy\<close> of kern/env.c, with \<open>user_mem_assert\<close> of kern/pmap.c, which destroys its
  environment.
\<close>

definition env_pop_tf :: "nat \<Rightarrow> unit kernel" where
  "env_pop_tf e =
     kbind the_curenv (\<lambda>c.
     kbind (kget (\<lambda>s. of_nat (thiscpu s))) (\<lambda>cpu.
     kbind (kmod (upd_env c (\<lambda>env. env\<lparr>env_cpunum := cpu\<rparr>))) (\<lambda>_.
     kbind unlock_kernel (\<lambda>_.
     kleave (To_user e)))))"

definition env_run :: "nat \<Rightarrow> unit kernel" where
  "env_run e =
     kbind (kget curenv) (\<lambda>c.
     kbind (kwhen (c \<noteq> Some e)
       (kbind (case c of
           None \<Rightarrow> kret ()
         | Some d \<Rightarrow> kmod (\<lambda>s. if env_status (envs s d) = ENV_RUNNING
                              then upd_env d (\<lambda>env. env\<lparr>env_status := ENV_RUNNABLE\<rparr>) s else s)) (\<lambda>_.
        kbind (kmod (set_curenv (Some e))) (\<lambda>_.
        kbind (kmod (upd_env e (\<lambda>env. env\<lparr>env_status := ENV_RUNNING, env_runs := env_runs env + 1\<rparr>))) (\<lambda>_.
        kbind (kget (\<lambda>s. env_pgdir (envs s e))) (\<lambda>pgdir.
        kbind (PADDR pgdir) lcr3)))))) (\<lambda>_.
     env_pop_tf e))"

definition sched_halt :: "unit kernel" where
  "sched_halt =
     kbind (kget (\<lambda>s. \<exists>i \<in> set [0..<NENV].
       env_status (envs s i) = ENV_RUNNABLE \<or> env_status (envs s i) = ENV_RUNNING)) (\<lambda>some.
     if \<not> some then
       kbind (kfor [0..<2] (\<lambda>i. kbind (kget (\<lambda>s. env_status (envs s i))) (\<lambda>st.
         kprintf (''envs[%x].env_status: %x'' @ newline) [Word32 (of_nat i), Word32 st]))) (\<lambda>_.
       kbind (kprintf (''No runnable environments in the system!'' @ newline) []) (\<lambda>_.
       kleave Monitor_loop))
     else
       kbind (kmod (set_curenv None)) (\<lambda>_.
       kbind (kget kern_pgdir) (\<lambda>kpd.
       kbind (PADDR kpd) (\<lambda>pa.
       kbind (lcr3 pa) (\<lambda>_.
       kbind (kmod (\<lambda>s. s\<lparr>cpus := (cpus s)(thiscpu s := cpus s (thiscpu s)\<lparr>cpu_status := CPU_HALTED\<rparr>)\<rparr>)) (\<lambda>_.
       kbind unlock_kernel (\<lambda>_.
       kleave Cpu_halt)))))))"

text \<open>One round of the search of \<open>sched_yield\<close>, and the whole search from slot \<open>cur\<close>.\<close>

definition sched_pick :: "kstate \<Rightarrow> nat \<Rightarrow> nat \<Rightarrow> nat option \<Rightarrow> nat option" where
  "sched_pick s cur i runenv =
     (let j = (cur + i) mod NENV
      in if env_status (envs s j) = ENV_RUNNABLE then
           (case runenv of
              None \<Rightarrow> Some j
            | Some r \<Rightarrow> if sint (pr (envs s j)) < sint (pr (envs s r)) then Some j else Some r)
         else runenv)"

definition sched_search :: "kstate \<Rightarrow> nat \<Rightarrow> nat option" where
  "sched_search s cur = fold (sched_pick s cur) [0..<NENV] None"

definition sched_yield :: "unit kernel" where
  "sched_yield =
     kbind (kget (\<lambda>s. case curenv s of None \<Rightarrow> 0 | Some c \<Rightarrow> ENVX (env_id (envs s c)))) (\<lambda>cur.
     kbind (kget (\<lambda>s. sched_search s cur)) (\<lambda>runenv.
     kbind (kget (\<lambda>s. case curenv s of
         None \<Rightarrow> None
       | Some c \<Rightarrow>
           if env_status (envs s c) = ENV_RUNNING \<and>
              (case runenv of None \<Rightarrow> True | Some r \<Rightarrow> sint (pr (envs s c)) < sint (pr (envs s r)))
           then Some c else None)) (\<lambda>keep.
     case keep of
       Some c \<Rightarrow> env_run c
     | None \<Rightarrow> (case runenv of Some r \<Rightarrow> env_run r | None \<Rightarrow> sched_halt))))"

definition env_destroy :: "nat \<Rightarrow> unit kernel" where
  "env_destroy e =
     kbind (kget (\<lambda>s. env_status (envs s e) = ENV_RUNNING \<and> curenv s \<noteq> Some e)) (\<lambda>elsewhere.
     if elsewhere then kmod (upd_env e (\<lambda>env. env\<lparr>env_status := ENV_DYING\<rparr>))
     else
       kbind (env_free e) (\<lambda>_.
       kbind (kget (\<lambda>s. curenv s = Some e)) (\<lambda>cur.
       kwhen cur
         (kbind (kmod (set_curenv None)) (\<lambda>_.
          sched_yield)))))"

definition user_mem_assert :: "nat \<Rightarrow> u32 \<Rightarrow> u32 \<Rightarrow> u32 \<Rightarrow> unit kernel" where
  "user_mem_assert e va len perm =
     kbind (user_mem_check e va len (perm OR PTE_U)) (\<lambda>r.
     kwhen (sint r < 0)
       (kbind (kget (\<lambda>s. (env_id (envs s e), user_mem_check_addr s))) (\<lambda>(eid, addr).
        kbind (kprintf (''[%08x] user_mem_check assertion failure for va %08x'' @ newline)
                 [Word32 eid, Word32 addr]) (\<lambda>_.
        env_destroy e))))"

end
