(* ===== verification/Syscall.thy ===== *)
theory Syscall
  imports Sched
begin

text \<open>
  The system calls: kern/syscall.c.  The arguments and the result of a call are 32-bit words; a
  call that does not return to its environment leaves the kernel.
\<close>

abbreviation (input) SYS_cputs :: u32 where "SYS_cputs \<equiv> 0"
abbreviation (input) SYS_cgetc :: u32 where "SYS_cgetc \<equiv> 1"
abbreviation (input) SYS_getenvid :: u32 where "SYS_getenvid \<equiv> 2"
abbreviation (input) SYS_env_destroy :: u32 where "SYS_env_destroy \<equiv> 3"
abbreviation (input) SYS_page_alloc :: u32 where "SYS_page_alloc \<equiv> 4"
abbreviation (input) SYS_page_map :: u32 where "SYS_page_map \<equiv> 5"
abbreviation (input) SYS_page_unmap :: u32 where "SYS_page_unmap \<equiv> 6"
abbreviation (input) SYS_exofork :: u32 where "SYS_exofork \<equiv> 7"
abbreviation (input) SYS_env_set_status :: u32 where "SYS_env_set_status \<equiv> 8"
abbreviation (input) SYS_env_set_pgfault_upcall :: u32 where "SYS_env_set_pgfault_upcall \<equiv> 9"
abbreviation (input) SYS_yield :: u32 where "SYS_yield \<equiv> 10"
abbreviation (input) SYS_ipc_try_send :: u32 where "SYS_ipc_try_send \<equiv> 11"
abbreviation (input) SYS_ipc_recv :: u32 where "SYS_ipc_recv \<equiv> 12"
abbreviation (input) SYS_change_pr :: u32 where "SYS_change_pr \<equiv> 13"

subsection \<open>The console\<close>

text \<open>
  \<open>cprintf("%.*s", len, s)\<close> on a user string: the loop of \<open>vprintfmt\<close> reads a byte, and only
  then looks whether the precision is used up.  A negative precision reads on to the zero
  byte; a 32-bit pointer has met every byte of memory after \<open>2^32\<close> rounds, so a longer loop
  does not end.
\<close>

definition sys_getenvid :: "u32 kernel" where
  "sys_getenvid = kbind the_curenv (\<lambda>c. kget (\<lambda>s. env_id (envs s c)))"

primrec print_user_string :: "nat \<Rightarrow> u32 \<Rightarrow> int \<Rightarrow> unit kernel" where
  "print_user_string 0 p prec = kleave Spin"
| "print_user_string (Suc n) p prec =
     kbind (vload8 p) (\<lambda>b.
     if b \<noteq> 0 \<and> (prec < 0 \<or> prec - 1 \<ge> 0) then
       kbind (kdev (cputchar (scast b))) (\<lambda>_.
       print_user_string n (p + 1) (if prec < 0 then prec else prec - 1))
     else kret ())"

text \<open>A null pointer prints \<open>(null)\<close>.  The end of the format resets the colour.\<close>

definition cprintf_user :: "u32 \<Rightarrow> u32 \<Rightarrow> unit kernel" where
  "cprintf_user len s =
     (if s = 0 then kprintf ''%.*s'' [Word32 len, Cstr None]
      else
        kbind (print_user_string (2 ^ 32) s (sint len)) (\<lambda>_.
        kdev (\<lambda>c. c\<lparr>csa := 0x0700\<rparr>)))"

definition sys_cputs :: "u32 \<Rightarrow> u32 \<Rightarrow> unit kernel" where
  "sys_cputs s len =
     kbind sys_getenvid (\<lambda>envid.
     kbind (envid2env envid True) (\<lambda>(_, e). case e of
       None \<Rightarrow> kpanic ''Kernel page fault!''
     | Some e \<Rightarrow>
         kbind (user_mem_assert e s len PTE_U) (\<lambda>_.
         cprintf_user len s)))"

definition sys_cgetc :: "u32 kernel" where
  "sys_cgetc = kwait cons_getc"

subsection \<open>Environments\<close>

definition sys_env_destroy :: "u32 \<Rightarrow> u32 kernel" where
  "sys_env_destroy envid =
     kbind (envid2env envid True) (\<lambda>(r, p).
     if sint r < 0 then kret r
     else case p of
       None \<Rightarrow> kpanic ''Kernel page fault!''
     | Some e \<Rightarrow>
         kbind the_curenv (\<lambda>c.
         kbind (kget (\<lambda>s. (env_id (envs s c), env_id (envs s e)))) (\<lambda>(cid, eid).
         kbind (if e = c then kprintf (''[%08x] exiting gracefully'' @ newline) [Word32 cid]
                else kprintf (''[%08x] destroying %08x'' @ newline) [Word32 cid, Word32 eid]) (\<lambda>_.
         kbind (env_destroy e) (\<lambda>_.
         kret 0)))))"

definition sys_yield :: "unit kernel" where
  "sys_yield = sched_yield"

definition sys_exofork :: "u32 kernel" where
  "sys_exofork =
     kbind the_curenv (\<lambda>c.
     kbind (kget (\<lambda>s. env_id (envs s c))) (\<lambda>cid.
     kbind (env_alloc cid) (\<lambda>(ret, p). case p of
       None \<Rightarrow> kret ret
     | Some e \<Rightarrow>
         kbind (kget (\<lambda>s. env_tf (envs s c))) (\<lambda>tf.
         kbind (kmod (upd_env e (\<lambda>env. env\<lparr>env_tf := tf, env_status := ENV_NOT_RUNNABLE\<rparr>))) (\<lambda>_.
         kbind (kmod (upd_env e (\<lambda>env. env\<lparr>env_tf :=
           (env_tf env)\<lparr>tf_regs := (tf_regs (env_tf env))\<lparr>reg_eax := 0\<rparr>\<rparr>\<rparr>))) (\<lambda>_.
         kget (\<lambda>s. env_id (envs s e))))))))"

text \<open>\<open>if (ret) return ret;\<close> after \<open>envid2env\<close>, then the rest of the call on the environment.\<close>

definition with_env :: "u32 \<Rightarrow> bool \<Rightarrow> (nat \<Rightarrow> u32 kernel) \<Rightarrow> u32 kernel" where
  "with_env envid checkperm f =
     kbind (envid2env envid checkperm) (\<lambda>(ret, p).
     if ret \<noteq> 0 then kret ret
     else case p of None \<Rightarrow> kpanic ''Kernel page fault!'' | Some e \<Rightarrow> f e)"

definition sys_env_set_status :: "u32 \<Rightarrow> u32 \<Rightarrow> u32 kernel" where
  "sys_env_set_status envid status =
     (if status \<noteq> ENV_NOT_RUNNABLE \<and> status \<noteq> ENV_RUNNABLE then kret (- E_INVAL)
      else with_env envid True (\<lambda>e.
        kbind (kmod (upd_env e (\<lambda>env. env\<lparr>env_status := status\<rparr>))) (\<lambda>_.
        kret 0)))"

definition sys_env_set_pgfault_upcall :: "u32 \<Rightarrow> u32 \<Rightarrow> u32 kernel" where
  "sys_env_set_pgfault_upcall envid func =
     with_env envid True (\<lambda>e.
       kbind (kmod (upd_env e (\<lambda>env. env\<lparr>env_pgfault_upcall := func\<rparr>))) (\<lambda>_.
       kret 0))"

subsection \<open>Memory\<close>

definition sys_page_alloc :: "u32 \<Rightarrow> u32 \<Rightarrow> u32 \<Rightarrow> u32 kernel" where
  "sys_page_alloc envid va perm =
     with_env envid True (\<lambda>e.
       if va \<ge> UTOP then kret (- E_INVAL)
       else
         let flag = PTE_U OR PTE_P in
         if perm AND flag \<noteq> flag then kret (- E_INVAL)
         else
           kbind (page_alloc ALLOC_ZERO) (\<lambda>pg. case pg of
             None \<Rightarrow> kret (- E_NO_MEM)
           | Some pg \<Rightarrow>
               kbind (page_incref pg) (\<lambda>_.
               kbind (kget (\<lambda>s. env_pgdir (envs s e))) (\<lambda>pgdir.
               kbind (page_insert pgdir pg va perm) (\<lambda>ret.
               if ret \<noteq> 0 then kbind (page_free pg) (\<lambda>_. kret ret)
               else kret 0)))))"

definition sys_page_map :: "u32 \<Rightarrow> u32 \<Rightarrow> u32 \<Rightarrow> u32 \<Rightarrow> u32 \<Rightarrow> u32 kernel" where
  "sys_page_map srcenvid srcva dstenvid dstva perm =
     with_env srcenvid True (\<lambda>se.
     with_env dstenvid True (\<lambda>de.
       if srcva \<ge> UTOP \<or> dstva \<ge> UTOP \<or> ROUNDDOWN srcva PGSIZE \<noteq> srcva
          \<or> ROUNDDOWN dstva PGSIZE \<noteq> dstva then kret (- E_INVAL)
       else
         kbind (kget (\<lambda>s. env_pgdir (envs s se))) (\<lambda>spgdir.
         kbind (page_lookup spgdir srcva) (\<lambda>r. case r of
           None \<Rightarrow> kret (- E_INVAL)
         | Some (pg, pte) \<Rightarrow>
             let flag = PTE_U OR PTE_P in
             if perm AND flag \<noteq> flag then kret (- E_INVAL)
             else
               kbind (kload pte) (\<lambda>entry.
               if entry AND PTE_W = 0 \<and> perm AND PTE_W \<noteq> 0 then kret (- E_INVAL)
               else
                 kbind (kget (\<lambda>s. env_pgdir (envs s de))) (\<lambda>dpgdir.
                 page_insert dpgdir pg dstva perm))))))"

definition sys_page_unmap :: "u32 \<Rightarrow> u32 \<Rightarrow> u32 kernel" where
  "sys_page_unmap envid va =
     (if va \<ge> UTOP \<or> ROUNDDOWN va PGSIZE \<noteq> va then kret (- E_INVAL)
      else with_env envid True (\<lambda>e.
        kbind (kget (\<lambda>s. env_pgdir (envs s e))) (\<lambda>pgdir.
        kbind (page_remove pgdir va) (\<lambda>_.
        kret 0))))"

subsection \<open>Inter-process communication\<close>

text \<open>The transfer of the page: \<open>0\<close>, or the error the call returns.\<close>

definition ipc_send_page :: "nat \<Rightarrow> u32 \<Rightarrow> u32 \<Rightarrow> u32 kernel" where
  "ipc_send_page e srcva perm =
     kbind the_curenv (\<lambda>c.
     kbind (kget (\<lambda>s. env_pgdir (envs s c))) (\<lambda>pgdir.
     kbind (page_lookup pgdir srcva) (\<lambda>r. case r of
       None \<Rightarrow> kret (- E_INVAL)
     | Some (pg, pte) \<Rightarrow>
         kbind (kload pte) (\<lambda>entry.
         if entry AND perm \<noteq> perm then kret (- E_INVAL)
         else if perm AND PTE_W \<noteq> 0 \<and> entry AND PTE_W = 0 then kret (- E_INVAL)
         else if srcva \<noteq> ROUNDDOWN srcva PGSIZE then kret (- E_INVAL)
         else
           kbind (kget (\<lambda>s. (env_pgdir (envs s e), env_ipc_dstva (envs s e)))) (\<lambda>(epgdir, dstva).
           if dstva < UTOP then
             kbind (page_insert epgdir pg dstva perm) (\<lambda>ret.
             if ret \<noteq> 0 then kret ret
             else
               kbind (kmod (upd_env e (\<lambda>env. env\<lparr>env_ipc_perm := perm\<rparr>))) (\<lambda>_.
               kret 0))
           else kret 0)))))"

definition sys_ipc_try_send :: "u32 \<Rightarrow> u32 \<Rightarrow> u32 \<Rightarrow> u32 \<Rightarrow> u32 kernel" where
  "sys_ipc_try_send envid value srcva perm =
     with_env envid False (\<lambda>e.
       kbind (kget (\<lambda>s. env_ipc_recving (envs s e))) (\<lambda>recving.
       if \<not> recving then kret (- E_IPC_NOT_RECV)
       else
         kbind (if srcva < UTOP then ipc_send_page e srcva perm else kret 0) (\<lambda>ret.
         if ret \<noteq> 0 then kret ret
         else
           kbind the_curenv (\<lambda>c.
           kbind (kget (\<lambda>s. env_id (envs s c))) (\<lambda>from.
           kbind (kmod (upd_env e (\<lambda>env. env\<lparr>env_ipc_recving := False, env_ipc_from := from,
             env_ipc_value := value, env_status := ENV_RUNNABLE, env_tf :=
             (env_tf env)\<lparr>tf_regs := (tf_regs (env_tf env))\<lparr>reg_eax := 0\<rparr>\<rparr>\<rparr>))) (\<lambda>_.
           kret 0))))))"

definition sys_ipc_recv :: "u32 \<Rightarrow> u32 kernel" where
  "sys_ipc_recv dstva =
     (if dstva < UTOP \<and> dstva \<noteq> ROUNDDOWN dstva PGSIZE then kret (- E_INVAL)
      else
        kbind the_curenv (\<lambda>c.
        kbind (kmod (upd_env c (\<lambda>env. env\<lparr>env_ipc_recving := True,
          env_status := ENV_NOT_RUNNABLE, env_ipc_dstva := dstva\<rparr>))) (\<lambda>_.
        kret 0)))"

definition sys_change_pr :: "u32 \<Rightarrow> u32 kernel" where
  "sys_change_pr p =
     kbind the_curenv (\<lambda>c.
     kbind (kmod (upd_env c (\<lambda>env. env\<lparr>pr := p\<rparr>))) (\<lambda>_.
     kret 0))"

subsection \<open>Dispatch\<close>

text \<open>The case of \<open>SYS_yield\<close> has no \<open>break\<close>: a \<open>sys_yield\<close> that returned would fork.\<close>

definition syscall :: "u32 \<Rightarrow> u32 \<Rightarrow> u32 \<Rightarrow> u32 \<Rightarrow> u32 \<Rightarrow> u32 \<Rightarrow> u32 kernel" where
  "syscall syscallno a1 a2 a3 a4 a5 =
     (if syscallno = SYS_cputs then kbind (sys_cputs a1 a2) (\<lambda>_. kret 0)
      else if syscallno = SYS_cgetc then sys_cgetc
      else if syscallno = SYS_getenvid then sys_getenvid
      else if syscallno = SYS_env_destroy then kbind (sys_env_destroy a1) (\<lambda>_. kret 0)
      else if syscallno = SYS_yield then kbind sys_yield (\<lambda>_. sys_exofork)
      else if syscallno = SYS_exofork then sys_exofork
      else if syscallno = SYS_page_alloc then sys_page_alloc a1 a2 a3
      else if syscallno = SYS_page_map then sys_page_map a1 a2 a3 a4 a5
      else if syscallno = SYS_page_unmap then sys_page_unmap a1 a2
      else if syscallno = SYS_env_set_status then sys_env_set_status a1 a2
      else if syscallno = SYS_env_set_pgfault_upcall then sys_env_set_pgfault_upcall a1 a2
      else if syscallno = SYS_ipc_try_send then sys_ipc_try_send a1 a2 a3 a4
      else if syscallno = SYS_ipc_recv then sys_ipc_recv a1
      else if syscallno = SYS_change_pr then sys_change_pr a1
      else kret (- E_INVAL))"

end
