(* ===== verification/Env_Spec.thy ===== *)
theory Env_Spec
  imports Env_Ops
begin

text \<open>
  What the environments of kern/env.c promise: the free list is a pool in the order of the
  array, identifiers are positive, name their slot and change at every allocation, a new
  environment starts from a clean frame with a copy of the kernel's address space, and an
  identifier gives access only to the caller and its children.
\<close>

subsection \<open>The free list\<close>

lemma put_free_env_simps [simp]:
  "env_free_list (put_free_env i s) = Some i"
  "env_link (envs (put_free_env i s) j) = (if j = i then env_free_list s else env_link (envs s j))"
  "env_id (envs (put_free_env i s) j) = env_id (envs s j)"
  by (simp_all add: put_free_env_def)

interpretation env_pool: free_pool env_free_list "\<lambda>s i. env_link (envs s i)" put_free_env take_free_env
  by unfold_locales (auto simp: take_free_env_def)

abbreviation (input) free_envs :: "kstate \<Rightarrow> nat list \<Rightarrow> bool" where
  "free_envs s es \<equiv> chain (\<lambda>i. env_link (envs s i)) (env_free_list s) es"

lemma env_init_one_simps [simp]:
  "env_free_list (env_init_one i s) = Some i"
  "env_link (envs (env_init_one i s) j) = (if j = i then env_free_list s else env_link (envs s j))"
  "env_id (envs (env_init_one i s) j) = (if j = i then 0 else env_id (envs s j))"
  by (simp_all add: env_init_one_def)

interpretation env_init_pool:
  free_pool env_free_list "\<lambda>s i. env_link (envs s i)" env_init_one take_free_env
  by unfold_locales (auto simp: take_free_env_def)

lemma fold_env_init_id:
  "env_id (envs (fold env_init_one is s) j) = (if j \<in> set is then 0 else env_id (envs s j))"
  by (induction "is" arbitrary: s) auto

lemma hw_env_fields [simp]: "env_free_list (hw opn s) = env_free_list s" "envs (hw opn s) = envs s"
  by (simp_all add: hw_def)

lemma env_init_Ret:
  "env_init s = Ret () (hw (Lldt 0) (hw Set_segs (hw Lgdt (fold env_init_one (rev [0..<NENV]) s))))"
  by (simp add: env_init_def env_init_percpu_def kmod_def)

text \<open>\<open>env_init\<close> puts all environments on the free list in the order of the array, so that
  the first one allocated is \<open>envs[0]\<close>, and clears their identifiers.\<close>

theorem env_init_order:
  "\<exists>t. env_init (s\<lparr>env_free_list := None\<rparr>) = Ret () t \<and> free_envs t [0..<NENV] \<and>
    (\<forall>i < NENV. env_id (envs t i) = 0)"
proof (intro exI conjI)
  let ?s = "s\<lparr>env_free_list := None\<rparr>"
  show "env_init ?s = Ret () (hw (Lldt 0) (hw Set_segs (hw Lgdt
      (fold env_init_one (rev [0..<NENV]) ?s))))"
    by (rule env_init_Ret)
  have "free_envs (fold env_init_one (rev [0..<NENV]) ?s) (rev (rev [0..<NENV]) @ [])"
    by (rule env_init_pool.put_all_chain) simp_all
  then show "free_envs (hw (Lldt 0) (hw Set_segs (hw Lgdt
      (fold env_init_one (rev [0..<NENV]) ?s)))) [0..<NENV]"
    by (simp del: upt.simps)
qed (simp add: fold_env_init_id del: upt.simps)

lemma env_init_order_witness:
  "\<exists>t. env_init (small_machine\<lparr>env_free_list := None\<rparr>) = Ret () t \<and> free_envs t [0..<NENV]"
  using env_init_order [of small_machine] by blast

subsection \<open>Identifiers\<close>

lemma unat_ENVX: "ENVX envid = unat envid mod 1024"
  unfolding ENVX_def by (simp add: word_mask_10 flip: take_bit_eq_mask)
    (simp add: take_bit_eq_mod unat_mod)

lemma unat_and_not_1023: "unat ((x :: u32) AND NOT 1023) = unat x - unat x mod 1024"
proof -
  have "unat (x AND 1023) = unat x mod 1024" using unat_ENVX [of x] by (simp add: ENVX_def)
  then show ?thesis unfolding and_not_eq_diff by (simp add: unat_sub word_le_nat_alt)
qed

lemma unat_or_slot:
  assumes "e < 1024" "aligned 1024 g"
  shows "unat (g OR of_nat e) = unat g + e"
proof -
  have e: "unat (of_nat e :: u32) = e" using assms(1) by (simp add: unat_of_nat_u32)
  have "\<not> bit g n" if "n < 10" for n
  proof -
    have "take_bit 10 (unat g) = 0" using assms(2) by (simp add: aligned_def take_bit_eq_mod dvd_eq_mod_eq_0)
    then have "\<not> bit (take_bit 10 (unat g)) n" by simp
    with that show ?thesis by (simp add: bit_simps bit_unsigned_iff)
  qed
  moreover have "\<not> bit (of_nat e :: u32) n" if "10 \<le> n" for n
  proof -
    have "take_bit 10 e = e" using assms(1) by (simp add: take_bit_eq_mod)
    then have "\<not> bit e n" using that by (metis bit_take_bit_iff not_less)
    then show ?thesis by (simp add: bit_of_nat_iff)
  qed
  ultimately have "g AND of_nat e = 0"
    by (intro bit_word_eqI) (metis (no_types, lifting) bit_0_eq bit_and_iff bot_apply bot_bool_def not_less)
  then have "g OR of_nat e = g + of_nat e" by (rule disjunctive_add_eq_or [symmetric])
  then show ?thesis using assms e aligned_add [of 1024 g "of_nat e"] by simp
qed

lemma unat_next_env_id:
  assumes "e < 1024"
  shows "unat (next_env_id old e) =
    (let g = (unat old + 4096) mod 4294967296 - (unat old + 4096) mod 4294967296 mod 1024
     in (if 2147483648 \<le> g \<or> g = 0 then 4096 else g) + e)"
proof -
  let ?g = "(old + 2 ^ ENVGENSHIFT) AND NOT (2 ^ LOG2NENV - 1)"
  have g: "unat ?g = (unat old + 4096) mod 4294967296 - (unat old + 4096) mod 4294967296 mod 1024"
    using unat_and_not_1023 [of "old + 4096"] by (simp add: unat_add_u32)
  have "aligned 1024 ?g" unfolding aligned_def g by (simp add: minus_mod_eq_mult_div)
  moreover have "aligned 1024 4096" by (simp add: aligned_def)
  ultimately show ?thesis
    using assms unfolding next_env_id_def Let_def sint_nonpos_u32 g [symmetric]
    by (simp add: unat_or_slot)
qed

lemma next_id_arith:
  fixes n e :: nat
  assumes "n < 4294967296" "e < 1024"
    and u: "u = (let g = (n + 4096) mod 4294967296 - (n + 4096) mod 4294967296 mod 1024
      in (if 2147483648 \<le> g \<or> g = 0 then 4096 else g) + e)"
  shows "0 < u \<and> u < 2147483648 \<and> u mod 1024 = e \<and> u \<noteq> n"
proof -
  define m where "m = (n + 4096) mod 4294967296"
  define q where "q = m div 1024"
  have g: "m - m mod 1024 = 1024 * q" by (simp add: q_def minus_mod_eq_mult_div)
  have u': "u = (if 2147483648 \<le> 1024 * q \<or> q = 0 then 4096 else 1024 * q) + e"
    using u unfolding m_def [symmetric] Let_def g by simp
  have m: "m = (if n + 4096 < 4294967296 then n + 4096 else n + 4096 - 4294967296)"
    using assms(1) by (simp add: m_def mod_if)
  have q: "1024 * q \<le> m" "m < 1024 * q + 1024" unfolding q_def by linarith+
  have "(4096 + e) mod 1024 = e"
    using mod_mult_self1 [of e 4 1024] assms(2) by (simp add: add.commute)
  then have "u mod 1024 = e" unfolding u' using assms(2) by simp
  moreover have "0 < u" "u < 2147483648" unfolding u' using assms(2) by (auto; presburger)+
  moreover have "u \<noteq> n" unfolding u' using assms(1,2) m q by (auto split: if_splits)
  ultimately show ?thesis by blast
qed

lemma next_env_id_facts:
  assumes "e < NENV"
  shows "0 < sint (next_env_id old e) \<and> ENVX (next_env_id old e) = e \<and> next_env_id old e \<noteq> old"
proof -
  have "0 < unat (next_env_id old e) \<and> unat (next_env_id old e) < 2147483648 \<and>
      unat (next_env_id old e) mod 1024 = e \<and> unat (next_env_id old e) \<noteq> unat old"
    using assms by (intro next_id_arith [of "unat old" e]) (simp_all add: unat_next_env_id)
  moreover from this have "\<not> sint (next_env_id old e) \<le> 0" unfolding sint_nonpos_u32 by simp
  ultimately show ?thesis unfolding unat_ENVX by auto
qed

text \<open>The identifier given to slot \<open>e\<close> is positive, names the slot and is not the one the
  slot had before, whatever that was, so that the old one is no longer valid.\<close>

theorem next_env_id_fresh:
  assumes "e < NENV"
  shows "0 < sint (next_env_id old e) \<and> ENVX (next_env_id old e) = e \<and> next_env_id old e \<noteq> old"
  using assms by (rule next_env_id_facts)

lemma next_env_id_fresh_witness:
  "0 < sint (next_env_id 0x7FFFF003 3) \<and> ENVX (next_env_id 0x7FFFF003 3) = 3 \<and>
    next_env_id 0x7FFFF003 3 \<noteq> 0x7FFFF003"
  by (rule next_env_id_fresh) simp

subsection \<open>Lookup\<close>

definition found_env :: "kstate \<Rightarrow> nat \<Rightarrow> u32 \<Rightarrow> nat option" where
  "found_env s c envid =
     (if envid = 0 then Some c
      else if env_status (envs s (ENVX envid)) \<noteq> ENV_FREE \<and> env_id (envs s (ENVX envid)) = envid \<and>
        (ENVX envid = c \<or> env_parent_id (envs s (ENVX envid)) = env_id (envs s c))
      then Some (ENVX envid) else None)"

lemma envid2env_found:
  assumes "curenv s = Some c"
  shows "envid2env envid True s =
    Ret (case found_env s c envid of None \<Rightarrow> (- E_BAD_ENV, None) | Some e \<Rightarrow> (0, Some e)) s"
  using assms
  by (simp add: envid2env_def found_env_def Let_def the_curenv_def kbind_Ret kret_def kget_def)

text \<open>With permission checking an identifier leads only to the caller or to one of its
  children that is alive under that very identifier; every other identifier is refused with
  \<open>-E_BAD_ENV\<close> and a null pointer, and the state does not change.\<close>

theorem envid2env_checked:
  assumes "curenv s = Some c"
  shows "envid2env envid True s =
    Ret (case found_env s c envid of None \<Rightarrow> (- E_BAD_ENV, None) | Some e \<Rightarrow> (0, Some e)) s"
  using assms by (rule envid2env_found)

lemma envid2env_unchecked:
  assumes "envid \<noteq> 0"
  shows "envid2env envid False s =
    Ret (if env_status (envs s (ENVX envid)) = ENV_FREE \<or> env_id (envs s (ENVX envid)) \<noteq> envid
         then (- E_BAD_ENV, None) else (0, Some (ENVX envid))) s"
  using assms by (simp add: envid2env_def Let_def kret_def)

lemma envid2env_0: "envid2env 0 chk s = Ret (0, curenv s) s"
  by (simp add: envid2env_def kret_def)

lemma envid2env_checked_witness:
  "envid2env 0x1000 True (set_curenv (Some 0) small_machine) = Ret (0, Some 0) (set_curenv (Some 0) small_machine) \<and>
   envid2env 0x2000 True (set_curenv (Some 0) small_machine) = Ret (- E_BAD_ENV, None) (set_curenv (Some 0) small_machine)"
proof -
  have "curenv (set_curenv (Some 0) small_machine) = Some 0" by simp
  note f = envid2env_checked [OF this]
  show ?thesis unfolding f by (simp add: found_env_def ENVX_def small_machine_def)
qed

subsection \<open>A new address space\<close>

lemma load32_page_copied:
  assumes "aligned 4096 d" "unat x < 1024"
  shows "load32 (mem_move m d c 4096) (d + 4 * x) = load32 m (c + 4 * x)"
proof -
  have "load32 (mem_move m d c 4096) (d + 4 * x) = load32 (\<lambda>a. m (c + (a - d))) (d + 4 * x)"
  proof (rule load32_cong)
    fix k :: u32 assume k: "unat k < 4"
    have "unat (4 * x + k) = 4 * unat x + unat k"
      using k assms(2) by (subst unat_add_no_wrap) (simp_all add: unat_times4)
    moreover have "d + 4 * x + k - d = 4 * x + k" by simp
    ultimately show "mem_move m d c 4096 (d + 4 * x + k) = m (c + (d + 4 * x + k - d))"
      using k assms(2) by (simp add: mem_move_def)
  qed
  then show ?thesis by (simp add: load32_def algebra_simps)
qed

text \<open>The conditions under which \<open>env_setup_vm\<close> succeeds: a free page \<open>p\<close>, and a kernel page
  directory in memory that is not free.\<close>

definition vm_ready :: "kstate \<Rightarrow> nat \<Rightarrow> nat list \<Rightarrow> bool" where
  "vm_ready s p xs \<longleftrightarrow> mem_ok s \<and> free_list s (p # xs) \<and> aligned 4096 (kern_pgdir s - KERNBASE) \<and>
     frame (kern_pgdir s - KERNBASE) < unat (npages s) \<and> frame (kern_pgdir s - KERNBASE) \<noteq> p"

definition vm_state :: "nat \<Rightarrow> nat \<Rightarrow> kstate \<Rightarrow> kstate" where
  "vm_state e p s =
     (let m = mem_move (mem_set (pmem s) (page2pa p) 0 4096) (page2pa p) (kern_pgdir s - KERNBASE) 4096
      in (upd_env e (\<lambda>env. env\<lparr>env_pgdir := page2pa p + KERNBASE\<rparr>)
            (upd_page p (\<lambda>i. i\<lparr>pp_ref := pp_ref i + 1\<rparr>) (alloc_state ALLOC_ZERO p s)))
         \<lparr>pmem := store32 m (page2pa p + 4 * PDX UVPT) (page2pa p OR PTE_P OR PTE_U)\<rparr>)"

lemma pmem_alloc_zero: "pmem (alloc_state ALLOC_ZERO p s) = mem_set (pmem s) (page2pa p) 0 4096"
  by (simp add: alloc_state_def)

lemma env_setup_vm_Ret:
  assumes "vm_ready s p xs"
  shows "env_setup_vm e s = Ret 0 (vm_state e p s)"
proof -
  have m: "mem_ok s" "free_list s (p # xs)" and kp: "frame (kern_pgdir s - KERNBASE) < unat (npages s)"
    using assms by (auto simp: vm_ready_def)
  have p: "p < unat (npages s)" using m by (simp add: free_list_def)
  let ?a = "alloc_state ALLOC_ZERO p s"
  let ?b = "upd_page p (\<lambda>i. i\<lparr>pp_ref := pp_ref i + 1\<rparr>) ?a"
  have b: "mem_ok ?b" using m by (simp add: mem_ok_def)
  have lo: "unat (page2pa p) < 268435456" using m p by (simp add: page2pa_low)
  have klo: "unat (kern_pgdir s - KERNBASE) < 268435456"
    using frame_low [OF kp] m by (simp add: mem_ok_def)
  have kva: "page2kva p ?b = Ret (page2pa p + KERNBASE) ?b"
    using page2kva_ok [OF b] p by simp
  have kpd: "\<not> kern_pgdir s < KERNBASE" using kva_ge [OF klo] by simp
  have slot: "unat (page2pa p + 4 * PDX UVPT) < 268435456"
    by (rule slot_low [OF m(1)]) (use p lo m in \<open>simp_all add: frame_def unat_page2pa mem_ok_def PDX_less\<close>)
  have pa: "page2pa p + KERNBASE + 4 * PDX UVPT = page2pa p + 4 * PDX UVPT + KERNBASE" by simp
  show ?thesis
    unfolding env_setup_vm_def vm_state_def Let_def
    using lo klo kpd slot
    by (simp add: kbind_Ret page_alloc_Some [OF m(2,1)] page_incref_def kmod_def kva
        kmemcpy_def PADDR_def pa kstore_phys kret_def pmem_alloc_zero
        del: PDX_sample)
qed

lemma vm_state_fields [simp]:
  "envs (vm_state e p s) = (envs s)(e := envs s e\<lparr>env_pgdir := page2pa p + KERNBASE\<rparr>)"
  "env_free_list (vm_state e p s) = env_free_list s" "npages (vm_state e p s) = npages s"
  "kern_pgdir (vm_state e p s) = kern_pgdir s" "cpus (vm_state e p s) = cpus s"
  "thiscpu (vm_state e p s) = thiscpu s" "curenv (vm_state e p s) = curenv s"
  "page_free_list (vm_state e p s) = pp_link (pages s p)"
  "pages (vm_state e p s) = (pages s)(p := pages s p\<lparr>pp_ref := pp_ref (pages s p) + 1\<rparr>)"
  by (simp_all add: vm_state_def Let_def alloc_state_def take_free_page_def curenv_def)

text \<open>The new directory is a copy of the kernel's, except that it maps itself at \<open>UVPT\<close>.\<close>

lemma pde_vm_state:
  assumes "vm_ready s p xs"
  shows "pde_of (vm_state e p s) (page2pa p + KERNBASE) va =
    (if PDX va = PDX UVPT then page2pa p OR PTE_P OR PTE_U else pde_of s (kern_pgdir s) va)"
proof -
  let ?m = "mem_set (pmem s) (page2pa p) 0 4096"
  have al: "aligned 4096 (page2pa p)" "aligned 4096 (kern_pgdir s - KERNBASE)"
    using assms by (auto simp: vm_ready_def)
  have "p < 1048576" using assms by (auto simp: vm_ready_def free_list_def mem_ok_def)
  then have ne: "kern_pgdir s - KERNBASE \<noteq> page2pa p"
    using assms by (auto simp: vm_ready_def frame_def unat_page2pa)
  have src: "load32 ?m (kern_pgdir s - KERNBASE + 4 * PDX va) = pde_of s (kern_pgdir s) va"
    unfolding pde_of_def using al ne by (subst load_cleared_slot) (simp_all add: PDX_less)
  show ?thesis
    unfolding pde_of_def [of "vm_state e p s"]
    by (simp add: vm_state_def Let_def load_store_slot al PDX_less load32_page_copied src
        del: PDX_sample)
qed

subsection \<open>Allocation\<close>

text \<open>What \<open>env_alloc\<close> makes of the structure in slot \<open>e\<close>.\<close>

definition born :: "u32 \<Rightarrow> nat \<Rightarrow> Env \<Rightarrow> Env" where
  "born parent e env = env\<lparr>env_id := next_env_id (env_id env) e, env_parent_id := parent,
     env_type := ENV_TYPE_USER, env_status := ENV_RUNNABLE, env_runs := 0, env_tf := new_tf,
     env_pgfault_upcall := 0, env_ipc_recving := False\<rparr>"

definition alloc_env_state :: "u32 \<Rightarrow> nat \<Rightarrow> nat \<Rightarrow> kstate \<Rightarrow> kstate" where
  "alloc_env_state parent e p s = take_free_env e (upd_env e (born parent e) (vm_state e p s))"

lemma take_free_env_fields [simp]:
  "envs (take_free_env e s) = envs s" "cons (take_free_env e s) = cons s"
  "env_free_list (take_free_env e s) = env_link (envs s e)" "npages (take_free_env e s) = npages s"
  "kern_pgdir (take_free_env e s) = kern_pgdir s" "curenv (take_free_env e s) = curenv s"
  "pmem (take_free_env e s) = pmem s" "pages (take_free_env e s) = pages s"
  by (simp_all add: take_free_env_def curenv_def)

lemma env_alloc_Ret:
  assumes "vm_ready s p xs" "env_free_list s = Some e"
  shows "\<exists>c. env_alloc parent s = Ret (0, Some e) ((alloc_env_state parent e p s)\<lparr>cons := c\<rparr>)"
  using assms(2)
  unfolding alloc_env_state_def born_def [abs_def]
  by (simp add: env_alloc_def kbind_Ret env_setup_vm_Ret [OF assms(1)] kret_def del: kstate.ext_inject)
    (intro exI, rule refl)

lemma env_alloc_none: "env_free_list s = None \<Longrightarrow> env_alloc parent s = Ret (- E_NO_FREE_ENV, None) s"
  by (simp add: env_alloc_def kret_def)

lemma env_alloc_no_mem:
  "env_free_list s = Some e \<Longrightarrow> page_free_list s = None \<Longrightarrow> env_alloc parent s = Ret (- E_NO_MEM, None) s"
  by (simp add: env_alloc_def env_setup_vm_def page_alloc_None kbind_Ret kret_def)

text \<open>C21. \<open>env_alloc\<close> takes the first free environment, which starts with the clean trap frame
  \<open>new_tf\<close>, no fault handler and no pending message, in a copy of the kernel's address space
  on a page of its own; no other environment changes.\<close>

theorem env_alloc_correct:
  assumes "vm_ready s p xs" "free_envs s (e # es)"
  shows "\<exists>t. env_alloc parent s = Ret (0, Some e) t \<and> free_envs t es \<and>
    (\<forall>j. j \<noteq> e \<longrightarrow> envs t j = envs s j) \<and>
    env_id (envs t e) = next_env_id (env_id (envs s e)) e \<and> env_parent_id (envs t e) = parent \<and>
    env_status (envs t e) = ENV_RUNNABLE \<and> env_tf (envs t e) = new_tf \<and>
    env_pgfault_upcall (envs t e) = 0 \<and> \<not> env_ipc_recving (envs t e) \<and>
    pp_ref (pages t p) = pp_ref (pages s p) + 1 \<and>
    (\<forall>va. pde_of t (env_pgdir (envs t e)) va =
       (if PDX va = PDX UVPT then page2pa p OR PTE_P OR PTE_U else pde_of s (kern_pgdir s) va))"
proof -
  have e: "env_free_list s = Some e" using assms(2) by simp
  let ?t = "alloc_env_state parent e p s"
  obtain c where c: "env_alloc parent s = Ret (0, Some e) (?t\<lparr>cons := c\<rparr>)"
    using env_alloc_Ret [OF assms(1) e] by blast
  have "chain (\<lambda>i. env_link (envs s i)) (env_link (envs s e)) es" using assms(2) by simp
  then have fl: "free_envs ?t es"
    by (simp add: alloc_env_state_def born_def cong: if_cong)
      (rule iffD1 [OF chain_cong]; simp)
  have pgdir: "env_pgdir (envs ?t e) = page2pa p + KERNBASE"
    by (simp add: alloc_env_state_def born_def)
  have "pde_of (?t\<lparr>cons := c\<rparr>) d va = pde_of (vm_state e p s) d va" for d va
    by (simp add: pde_of_def alloc_env_state_def)
  then have pde: "pde_of (?t\<lparr>cons := c\<rparr>) (env_pgdir (envs ?t e)) va =
      (if PDX va = PDX UVPT then page2pa p OR PTE_P OR PTE_U else pde_of s (kern_pgdir s) va)" for va
    unfolding pgdir by (simp only: pde_vm_state [OF assms(1)])
  show ?thesis
    using c fl pde
    by (intro exI [of _ "?t\<lparr>cons := c\<rparr>"]) (simp add: alloc_env_state_def born_def del: PDX_sample)
qed

lemma sample_link_chain: "k \<le> 1023 \<Longrightarrow> chain (\<lambda>i. if i < 1023 then Some (Suc i) else None) (Some k) [k..<NENV]"
proof (induction "1023 - k" arbitrary: k)
  case 0
  then show ?case by simp
next
  case (Suc n)
  then have k: "k < 1023" by simp
  have "[k..<NENV] = k # [Suc k..<NENV]" using k by (simp add: upt_conv_Cons)
  with Suc.hyps(1) [of "Suc k"] Suc.hyps(2) k show ?case by simp
qed

lemma sample_free_envs: "free_envs small_machine (1 # [2..<NENV])"
proof -
  have "[1..<NENV] = 1 # [2..<NENV]" by (subst upt_conv_Cons) (simp_all add: numeral_2_eq_2)
  then show ?thesis
    using sample_link_chain [of 1] by (simp add: small_machine_def zero_env_def del: upt.simps)
qed

lemma sample_vm_ready: "vm_ready small_machine 4 [3, 2]"
  by (simp add: vm_ready_def aligned_def frame_def layout)

lemma env_alloc_correct_witness:
  "\<exists>t. env_alloc 0x1000 small_machine = Ret (0, Some 1) t \<and> free_envs t [2..<NENV] \<and>
    env_id (envs t 1) = next_env_id 0 1 \<and> env_tf (envs t 1) = new_tf"
proof -
  have id: "env_id (envs small_machine 1) = 0" by (simp add: small_machine_def zero_env_def)
  from env_alloc_correct [of small_machine 4 "[3, 2]" 1 "[2..<NENV]" "0x1000",
      OF sample_vm_ready sample_free_envs]
  show ?thesis unfolding id by blast
qed

text \<open>C22. The identifier an environment had before its slot was given to another is refused from
  then on, by a call with or without permission checking.\<close>

theorem stale_id_refused:
  assumes "vm_ready s p xs" "env_free_list s = Some e" "e < NENV"
    and "env_id (envs s e) \<noteq> 0" "ENVX (env_id (envs s e)) = e" "curenv s = Some c"
  shows "\<exists>t. env_alloc parent s = Ret (0, Some e) t \<and>
    envid2env (env_id (envs s e)) chk t = Ret (- E_BAD_ENV, None) t"
proof -
  let ?t = "alloc_env_state parent e p s" and ?old = "env_id (envs s e)"
  obtain c where c: "env_alloc parent s = Ret (0, Some e) (?t\<lparr>cons := c\<rparr>)"
    using env_alloc_Ret [OF assms(1,2)] by blast
  have "env_id (envs ?t e) = next_env_id ?old e"
    by (simp add: alloc_env_state_def born_def)
  then have "env_id (envs ?t e) \<noteq> ?old"
    using next_env_id_facts [OF assms(3)] by simp
  then have "envid2env ?old chk (?t\<lparr>cons := c\<rparr>) = Ret (- E_BAD_ENV, None) (?t\<lparr>cons := c\<rparr>)"
    using assms(4,5) by (simp add: envid2env_def Let_def kret_def)
  with c show ?thesis by blast
qed

text \<open>The sample machine with environment 0 running and slot 1 used before.\<close>

definition recycled_machine :: kstate where
  "recycled_machine = upd_env 1 (\<lambda>e. e\<lparr>env_id := 0x1001\<rparr>) (set_curenv (Some 0) small_machine)"

lemma stale_id_refused_witness:
  "\<exists>t. env_alloc 0x1000 recycled_machine = Ret (0, Some 1) t \<and>
    envid2env 0x1001 True t = Ret (- E_BAD_ENV, None) t"
proof -
  have id: "env_id (envs recycled_machine 1) = 0x1001" by (simp add: recycled_machine_def)
  have ready: "vm_ready recycled_machine 4 [3, 2]"
    by (simp add: recycled_machine_def vm_ready_def aligned_def frame_def layout mem_ok_def free_list_def)
  have "env_free_list recycled_machine = Some 1" "curenv recycled_machine = Some 0"
    by (simp_all add: recycled_machine_def)
  with stale_id_refused [of recycled_machine 4 "[3, 2]" 1 0 "0x1000" True, OF ready] show ?thesis
    unfolding id by (simp add: unat_ENVX)
qed

end
