(* ===== verification/Vmem_Spec.thy ===== *)
theory Vmem_Spec
  imports Vmem User_Mem
begin

text \<open>
  Accesses of the kernel through virtual addresses, page by page: within a page that is mapped
  the access goes to one frame at the same offset, and a sequence of words written there is
  read back from that frame.
\<close>

subsection \<open>A sequence of words in memory\<close>

primrec store_words :: "memory \<Rightarrow> u32 \<Rightarrow> u32 list \<Rightarrow> memory" where
  "store_words m a [] = m"
| "store_words m a (w # ws) = store_words (store32 m a w) (a + 4) ws"

lemma store_words_outside:
  assumes "4 * length ws \<le> unat (x - a)"
  shows "store_words m a ws x = m x"
  using assms
proof (induction ws arbitrary: m a)
  case (Cons w ws)
  have d: "x \<noteq> a + j" if "unat j < 4" for j using Cons.prems that by auto
  have "x \<noteq> a" "x \<noteq> a + 1" "x \<noteq> a + 2" "x \<noteq> a + 3" using d [of 0] d [of 1] d [of 2] d [of 3] by simp_all
  then have "store32 m a w x = m x" by (rule store32_other)
  moreover have "unat (x - (a + 4)) = unat (x - a) - 4"
    using Cons.prems by (simp add: diff_diff_add [symmetric] unat_sub word_le_nat_alt)
  ultimately show ?case using Cons.prems by (simp add: Cons.IH)
qed simp

lemma load32_store_words:
  assumes "i < length ws" "4 * length ws \<le> 4294967296"
  shows "load32 (store_words m a ws) (a + 4 * of_nat i) = ws ! i"
  using assms
proof (induction ws arbitrary: m a i)
  case (Cons w ws)
  show ?case
  proof (cases i)
    case 0
    have "load32 (store_words (store32 m a w) (a + 4) ws) a = load32 (store32 m a w) a"
    proof (rule load32_cong)
      fix j :: u32 assume j: "unat j < 4"
      then have "unat (j - 4) = unat j + 4294967292" by (simp add: unat_sub_if')
      then show "store_words (store32 m a w) (a + 4) ws (a + j) = store32 m a w (a + j)"
        using Cons.prems by (intro store_words_outside) simp
    qed
    with 0 show ?thesis by simp
  next
    case (Suc k)
    have "a + 4 + 4 * of_nat k = a + 4 * of_nat i" using Suc by (simp add: algebra_simps)
    with Suc Cons show ?thesis by (metis (no_types) Cons.IH store_words.simps(2) Suc_less_eq
      add_leD2 length_Cons mult_Suc_right nth_Cons_Suc)
  qed
qed simp

subsection \<open>A mapped page\<close>

definition hw_pgdir :: "kstate \<Rightarrow> u32" where
  "hw_pgdir s = PTE_ADDR (cr3 s (thiscpu s))"

definition hw_pde :: "kstate \<Rightarrow> u32 \<Rightarrow> u32" where
  "hw_pde s va = load32 (pmem s) (hw_pgdir s + 4 * PDX va)"

definition hw_pte :: "kstate \<Rightarrow> u32 \<Rightarrow> u32" where
  "hw_pte s va = load32 (pmem s) (PTE_ADDR (hw_pde s va) + 4 * PTX va)"

text \<open>The page at \<open>va\<close> is mapped to the frame \<open>f\<close>, writable when \<open>wr\<close>, and that frame is not
  one of the tables that map it.\<close>

definition page_at :: "kstate \<Rightarrow> bool \<Rightarrow> u32 \<Rightarrow> nat \<Rightarrow> bool" where
  "page_at s wr va f \<longleftrightarrow> aligned 4096 va \<and> f < 1048576 \<and>
     access_ok s False wr (hw_pde s va) \<and> access_ok s False wr (hw_pte s va) \<and>
     PTE_ADDR (hw_pte s va) = page2pa f \<and>
     frame (hw_pgdir s) \<noteq> f \<and> frame (hw_pde s va) \<noteq> f"

lemma translate_hw:
  "translate s user wr va =
    (if access_ok s user wr (hw_pde s va) \<and> access_ok s user wr (hw_pte s va)
     then Some (PTE_ADDR (hw_pte s va) OR PGOFF va) else None)"
  by (simp add: translate_def Let_def hw_pgdir_def hw_pde_def hw_pte_def)

lemma or_offset:
  assumes "aligned 4096 a" "unat k < 4096"
  shows "a OR k = a + k"
proof -
  have "k < 4096" using assms(2) by (simp add: word_less_nat_alt)
  then have "\<not> bit a n \<or> \<not> bit k n" for n
    using aligned_bits [OF assms(1), of n] low_bits [of k n] by (cases "n < 12") auto
  then have "a AND k = 0" by (intro bit_word_eqI) (auto simp: bit_simps)
  then show ?thesis by (rule disjunctive_add_eq_or [symmetric])
qed

lemma same_page_offset:
  assumes "aligned 4096 va" "unat k < 4096"
  shows "PDX (va + k) = PDX va" "PTX (va + k) = PTX va" "PGOFF (va + k) = k"
proof -
  have d: "unat (va + k) div 4096 = unat va div 4096"
    using assms by (intro aligned_add_div) simp_all
  then have "PGNUM (va + k) = PGNUM va" by (simp add: word_unat_eq_iff unat_PGNUM)
  then show "PDX (va + k) = PDX va" "PTX (va + k) = PTX va" by (simp_all add: same_page_iff)
  have "unat (va + k) = unat va + unat k" using assms by (intro aligned_add) simp_all
  then have "unat (va + k) mod 4096 = unat k" using assms by (simp add: aligned_def mod_add_eq [symmetric])
  then show "PGOFF (va + k) = k" by (simp add: word_unat_eq_iff unat_PGOFF)
qed

lemma page_at_translate:
  assumes "page_at s wr va f" "unat k < 4096"
  shows "translate s False wr (va + k) = Some (page2pa f + k)"
proof -
  have "hw_pde s (va + k) = hw_pde s va" "hw_pte s (va + k) = hw_pte s va"
    using assms by (simp_all add: hw_pde_def hw_pte_def page_at_def same_page_offset)
  with assms show ?thesis
    by (simp add: translate_hw page_at_def same_page_offset or_offset)
qed

text \<open>A store inside one frame does not touch the tables in others.\<close>

lemma load_other_frame:
  assumes "aligned 4096 c" "frame c \<noteq> frame a" "unat x < 1024"
  shows "load32 (m(a := b)) (c + 4 * x) = load32 m (c + 4 * x)"
proof (rule load32_cong)
  fix j :: u32 assume j: "unat j < 4"
  have "unat (4 * x + j) = 4 * unat x + unat j"
    using j assms(3) by (subst unat_add_no_wrap) (simp_all add: unat_times4)
  then have "frame (c + (4 * x + j)) = frame c"
    using assms(1,3) j unfolding frame_def by (intro aligned_add_div) auto
  then have "c + 4 * x + j \<noteq> a" using assms(2) by (metis add.assoc)
  then show "(m(a := b)) (c + 4 * x + j) = m (c + 4 * x + j)" by simp
qed

lemma page_at_store:
  assumes "page_at s wr va f" "unat k < 4096"
  shows "page_at (s\<lparr>pmem := (pmem s)(page2pa f + k := b)\<rparr>) wr va f"
proof -
  let ?t = "s\<lparr>pmem := (pmem s)(page2pa f + k := b)\<rparr>"
  have f: "frame (page2pa f + k) = f"
    using assms aligned_add_div [of 4096 "page2pa f" k]
    by (simp add: frame_def page_at_def unat_page2pa)
  have same: "load32 (pmem ?t) (c + 4 * x) = load32 (pmem s) (c + 4 * x)"
    if "aligned 4096 c" "frame c \<noteq> f" "unat x < 1024" for c x
    using that by (simp add: load_other_frame f)
  have pgdir: "hw_pgdir ?t = hw_pgdir s" by (simp add: hw_pgdir_def)
  have pde: "hw_pde ?t va = hw_pde s va"
    unfolding hw_pde_def pgdir using assms(1)
    by (intro same) (auto simp: page_at_def hw_pgdir_def PDX_less)
  have pte: "hw_pte ?t va = hw_pte s va"
    unfolding hw_pte_def pde using assms(1)
    by (intro same) (auto simp: page_at_def PTX_less)
  show ?thesis using assms(1) by (simp add: page_at_def pde pte pgdir access_ok_def)
qed

lemma vstore8_page:
  assumes "page_at s True va f" "unat k < 4096"
  shows "vstore8 (va + k) b s = Ret () (s\<lparr>pmem := (pmem s)(page2pa f + k := b)\<rparr>)"
  by (simp add: vstore8_def page_at_translate [OF assms])

lemma vload8_page:
  assumes "page_at s False va f" "unat k < 4096"
  shows "vload8 (va + k) s = Ret (pmem s (page2pa f + k)) s"
  by (simp add: vload8_def page_at_translate [OF assms])

lemma vstore32_page:
  assumes "page_at s True va f" "unat k + 4 \<le> 4096"
  shows "vstore32 (va + k) v s = Ret () (s\<lparr>pmem := store32 (pmem s) (page2pa f + k) v\<rparr>)"
    and "page_at (s\<lparr>pmem := store32 (pmem s) (page2pa f + k) v\<rparr>) True va f"
proof -
  let ?s1 = "s\<lparr>pmem := (pmem s)(page2pa f + k := ucast v)\<rparr>"
  let ?s2 = "?s1\<lparr>pmem := (pmem ?s1)(page2pa f + (k + 1) := ucast (drop_bit 8 v))\<rparr>"
  let ?s3 = "?s2\<lparr>pmem := (pmem ?s2)(page2pa f + (k + 2) := ucast (drop_bit 16 v))\<rparr>"
  have k: "unat k < 4096" "unat (k + 1) < 4096" "unat (k + 2) < 4096" "unat (k + 3) < 4096"
    using assms(2) by (simp_all add: unat_add_no_wrap)
  have p1: "page_at ?s1 True va f" by (rule page_at_store [OF assms(1) k(1)])
  have p2: "page_at ?s2 True va f" by (rule page_at_store [OF p1 k(2)])
  have p3: "page_at ?s3 True va f" by (rule page_at_store [OF p2 k(3)])
  have a: "va + k + 1 = va + (k + 1)" "va + k + 2 = va + (k + 2)" "va + k + 3 = va + (k + 3)"
    by (simp_all add: add.assoc)
  have m: "(pmem ?s3)(page2pa f + (k + 3) := ucast (drop_bit 24 v)) = store32 (pmem s) (page2pa f + k) v"
    by (simp add: store32_def add.assoc)
  have r1: "vstore8 (va + k) (ucast v) s = Ret () ?s1"
    by (rule vstore8_page [OF assms(1) k(1)])
  have r2: "vstore8 (va + (k + 1)) (ucast (drop_bit 8 v)) ?s1 = Ret () ?s2"
    by (rule vstore8_page [OF p1 k(2)])
  have r3: "vstore8 (va + (k + 2)) (ucast (drop_bit 16 v)) ?s2 = Ret () ?s3"
    by (rule vstore8_page [OF p2 k(3)])
  have r4: "vstore8 (va + (k + 3)) (ucast (drop_bit 24 v)) ?s3 =
      Ret () (?s3\<lparr>pmem := (pmem ?s3)(page2pa f + (k + 3) := ucast (drop_bit 24 v))\<rparr>)"
    by (rule vstore8_page [OF p3 k(4)])
  have s4: "?s3\<lparr>pmem := (pmem ?s3)(page2pa f + (k + 3) := ucast (drop_bit 24 v))\<rparr> =
      s\<lparr>pmem := store32 (pmem s) (page2pa f + k) v\<rparr>"
    unfolding m by simp
  show "vstore32 (va + k) v s = Ret () (s\<lparr>pmem := store32 (pmem s) (page2pa f + k) v\<rparr>)"
    unfolding vstore32_def a by (simp only: kbind_Ret [of "vstore8 (va + k) (ucast v)", OF r1]
      kbind_Ret [of "vstore8 (va + (k + 1)) (ucast (drop_bit 8 v))", OF r2]
      kbind_Ret [of "vstore8 (va + (k + 2)) (ucast (drop_bit 16 v))", OF r3] r4 s4)
  show "page_at (s\<lparr>pmem := store32 (pmem s) (page2pa f + k) v\<rparr>) True va f"
    using page_at_store [OF p3 k(4), of "ucast (drop_bit 24 v)"] unfolding s4 .
qed

text \<open>With the page directory of an environment in force, the hardware sees its address space.\<close>

lemma hw_is_pgdir:
  assumes "cr3 s (thiscpu s) = pgdir - KERNBASE" "aligned 4096 (pgdir - KERNBASE)"
  shows "hw_pde s va = pde_of s pgdir va"
    and "pde_of s pgdir va AND PTE_P \<noteq> 0 \<Longrightarrow> hw_pte s va = pte_of s pgdir va"
proof -
  have "hw_pgdir s = pgdir - KERNBASE"
    using PTE_ADDR_or [OF assms(2), of 0] by (simp add: hw_pgdir_def assms(1))
  then show d: "hw_pde s va = pde_of s pgdir va" by (simp add: hw_pde_def pde_of_def)
  show "hw_pte s va = pte_of s pgdir va" if "pde_of s pgdir va AND PTE_P \<noteq> 0"
    using that by (simp add: hw_pte_def pte_of_def d)
qed

text \<open>A check of a range inside one accessible page succeeds.\<close>

lemma user_mem_check_page:
  assumes "tables_in_memory s (env_pgdir (envs s e))"
    and "aligned 4096 va" "user_page_ok s (env_pgdir (envs s e)) perm va"
    and "unat k + n \<le> 4096" "0 < n" "unat va + 8192 < 4294967296"
  shows "user_mem_check e (va + k) (of_nat n) perm s = Ret 0 s"
proof -
  have n: "unat (of_nat n :: u32) = n" using assms(4) by (intro unat_of_nat_u32) simp
  have k: "unat k < 4096" using assms(4,5) by simp
  have vk: "unat (va + k) = unat va + unat k" using assms(2) k by (intro aligned_add) simp_all
  have "user_page_ok s (env_pgdir (envs s e)) perm a" if "va + k \<le> a" "a < va + k + of_nat n" for a
  proof -
    have "unat (va + k + of_nat n) = unat va + unat k + n"
      using vk n assms(4,6) by (subst unat_add_no_wrap) simp_all
    with that have a: "unat va + unat k \<le> unat a" "unat a < unat va + unat k + n"
      by (simp_all add: word_le_nat_alt word_less_nat_alt vk)
    have "unat va = 4096 * (unat va div 4096)" using assms(2) by (simp add: aligned_def)
    with a assms(4) have "unat a div 4096 = unat va div 4096" by linarith
    then have "frame a = frame va" by (simp add: frame_def)
    then show ?thesis using assms(3) user_page_ok_frame by blast
  qed
  moreover have "0 < (of_nat n :: u32)" using n assms(5) by (simp add: word_less_nat_alt)
  moreover have "unat (va + k) + unat (of_nat n :: u32) + 4095 < 4294967296"
    using n vk assms(4,6) by simp
  ultimately show ?thesis using user_mem_check_iff [OF assms(1)] by blast
qed

end
