(* ===== verification/Syscall_Spec.thy ===== *)
theory Syscall_Spec
  imports Syscall Env_Spec Sched_Spec Vmem_Spec
begin

text \<open>
  What the system calls promise: an environment changes only itself and its children, mapping a
  page never gives more rights than the caller has, a message is delivered to an environment
  that waits for it and to no other; and where they fall short: permission bits above the flags
  name another frame, a running environment can be made runnable, and a string is read one byte
  past the range that was checked.
\<close>

subsection \<open>Authority\<close>

lemma with_env_checked:
  assumes "curenv s = Some c"
  shows "with_env envid True f s =
    (case found_env s c envid of None \<Rightarrow> Ret (- E_BAD_ENV) s | Some e \<Rightarrow> f e s)"
  using envid2env_found [OF assms, of envid]
  by (cases "found_env s c envid") (simp_all add: with_env_def kbind_Ret kret_def)

lemma found_env_cong: "envs t = envs s \<Longrightarrow> found_env t c envid = found_env s c envid"
  by (simp only: found_env_def)

text \<open>The calls that act on the environment their first argument names.\<close>

definition acts_on_env :: "u32 \<Rightarrow> bool" where
  "acts_on_env n \<longleftrightarrow> n \<in> {SYS_env_destroy, SYS_page_alloc, SYS_page_unmap, SYS_env_set_status,
     SYS_env_set_pgfault_upcall}"

text \<open>C13. A call on an environment that is neither the caller nor one of its live children changes
  nothing at all; \<open>sys_page_map\<close> is refused when either of its two environments is such a one.
  All these calls report an error, except \<open>sys_env_destroy\<close>, whose result is dropped.\<close>

theorem syscall_no_authority:
  assumes "curenv s = Some c"
    and "acts_on_env n \<and> found_env s c a1 = None \<or>
      n = SYS_page_map \<and> (found_env s c a1 = None \<or> found_env s c a3 = None)"
  shows "\<exists>r. syscall n a1 a2 a3 a4 a5 s = Ret r s \<and>
    (if n = SYS_env_destroy then r = 0 else r = - E_BAD_ENV \<or> r = - E_INVAL)"
proof -
  note w = with_env_checked [OF assms(1)]
  from assms(2) consider "n = SYS_env_destroy" "found_env s c a1 = None"
    | "n = SYS_page_alloc" "found_env s c a1 = None" | "n = SYS_page_unmap" "found_env s c a1 = None"
    | "n = SYS_env_set_status" "found_env s c a1 = None"
    | "n = SYS_env_set_pgfault_upcall" "found_env s c a1 = None"
    | "n = SYS_page_map" "found_env s c a1 = None \<or> found_env s c a3 = None"
    by (auto simp: acts_on_env_def)
  then show ?thesis
  proof cases
    case 1
    have "sys_env_destroy a1 s = Ret (- E_BAD_ENV) s"
      using envid2env_found [OF assms(1), of a1] 1(2)
      by (simp add: sys_env_destroy_def kbind_Ret kret_def)
    with 1 show ?thesis by (simp add: syscall_def kbind_Ret kret_def)
  next
    case 6
    then show ?thesis
      by (cases "found_env s c a1") (auto simp: syscall_def sys_page_map_def w)
  qed (simp_all add: syscall_def sys_page_alloc_def sys_page_unmap_def sys_env_set_status_def
      sys_env_set_pgfault_upcall_def w kret_def)
qed

lemma syscall_no_authority_witness:
  "\<exists>r. syscall SYS_page_unmap 0x2003 0x800000 0 0 0 (set_curenv (Some 0) small_machine) =
      Ret r (set_curenv (Some 0) small_machine) \<and> (r = - E_BAD_ENV \<or> r = - E_INVAL)"
proof -
  let ?s = "set_curenv (Some 0) small_machine"
  have "found_env ?s 0 0x2003 = None"
    by (simp add: found_env_def unat_ENVX small_machine_def zero_env_def)
  then show ?thesis
    using syscall_no_authority [of ?s 0 SYS_page_unmap "0x2003" 0 "0x800000" 0 0]
    by (auto simp: acts_on_env_def)
qed

subsection \<open>Mapping pages\<close>

text \<open>When the caller may map the page at \<open>srcva\<close> of one address space at \<open>dstva\<close> of another.\<close>

definition may_map :: "kstate \<Rightarrow> u32 \<Rightarrow> u32 \<Rightarrow> u32 \<Rightarrow> u32 \<Rightarrow> bool" where
  "may_map s spgdir srcva dstva perm \<longleftrightarrow>
     srcva < UTOP \<and> dstva < UTOP \<and> aligned 4096 srcva \<and> aligned 4096 dstva \<and>
     perm AND (PTE_U OR PTE_P) = PTE_U OR PTE_P \<and> pte_of s spgdir srcva AND PTE_P \<noteq> 0 \<and>
     (perm AND PTE_W \<noteq> 0 \<longrightarrow> pte_of s spgdir srcva AND PTE_W \<noteq> 0)"

text \<open>The entry of \<open>va\<close> is absent or names a page of memory.\<close>

definition in_memory :: "kstate \<Rightarrow> u32 \<Rightarrow> u32 \<Rightarrow> bool" where
  "in_memory s pgdir va \<longleftrightarrow>
     pte_of s pgdir va AND PTE_P = 0 \<or> frame (pte_of s pgdir va) < unat (npages s)"

lemma round_page_iff: "ROUNDDOWN va PGSIZE = va \<longleftrightarrow> aligned 4096 va"
  using ROUNDDOWN_aligned_iff [of PGSIZE va] by (simp add: layout)

lemma lookup_entry:
  assumes "mem_ok s" "wf_pgdir s pgdir" "va < UTOP" "in_memory s pgdir va" "pte_of s pgdir va AND PTE_P \<noteq> 0"
  shows "page_lookup pgdir va s = Ret (Some (frame (pte_of s pgdir va), slot_of s pgdir va)) s"
    and "kload (slot_of s pgdir va) s = Ret (pte_of s pgdir va) s"
proof -
  have t: "has_table s pgdir va"
    using pte_of_no_table [OF below_UTOP [OF assms(3)]] assms(5) by fastforce
  show "page_lookup pgdir va s = Ret (Some (frame (pte_of s pgdir va), slot_of s pgdir va)) s"
    using page_lookup_eq [OF assms(1,2) below_UTOP [OF assms(3)]] assms(4,5) by (auto simp: in_memory_def)
  show "kload (slot_of s pgdir va) s = Ret (pte_of s pgdir va) s"
    by (rule kload_slot [OF assms(1,2) t])
qed

lemma lookup_nothing:
  assumes "mem_ok s" "wf_pgdir s pgdir" "va < UTOP" "pte_of s pgdir va AND PTE_P = 0"
  shows "page_lookup pgdir va s = Ret None s"
  using page_lookup_eq [OF assms(1,2) below_UTOP [OF assms(3)]] assms(4) by simp

lemma sys_page_map_allowed:
  assumes "curenv s = Some c" "found_env s c srcenv = Some se" "found_env s c dstenv = Some de"
    and "wf_pgdir s (env_pgdir (envs s se))" "mem_ok s" "in_memory s (env_pgdir (envs s se)) srcva"
    and "may_map s (env_pgdir (envs s se)) srcva dstva perm"
  shows "sys_page_map srcenv srcva dstenv dstva perm s =
    page_insert (env_pgdir (envs s de)) (frame (pte_of s (env_pgdir (envs s se)) srcva)) dstva perm s"
proof -
  let ?sp = "env_pgdir (envs s se)"
  let ?pte = "pte_of s ?sp srcva"
  note w = with_env_checked [OF assms(1)]
  have go: "\<not> (srcva \<ge> UTOP \<or> dstva \<ge> UTOP \<or> ROUNDDOWN srcva PGSIZE \<noteq> srcva \<or> ROUNDDOWN dstva PGSIZE \<noteq> dstva)"
    using assms(7) by (auto simp: may_map_def round_page_iff not_le)
  have p: "?pte AND PTE_P \<noteq> 0" using assms(7) by (simp add: may_map_def)
  have "page_lookup ?sp srcva s = Ret (Some (frame ?pte, slot_of s ?sp srcva)) s"
      "kload (slot_of s ?sp srcva) s = Ret ?pte s"
    using assms(4-7) p by (auto intro: lookup_entry simp: may_map_def)
  with go p assms(2,3,7) show ?thesis
    by (auto simp: sys_page_map_def w kbind_Ret Let_def may_map_def kret_def)
qed

lemma sys_page_map_refused:
  assumes "curenv s = Some c" "found_env s c srcenv = Some se" "found_env s c dstenv = Some de"
    and "wf_pgdir s (env_pgdir (envs s se))" "mem_ok s" "in_memory s (env_pgdir (envs s se)) srcva \<or> UTOP \<le> srcva"
    and "\<not> may_map s (env_pgdir (envs s se)) srcva dstva perm"
  shows "sys_page_map srcenv srcva dstenv dstva perm s = Ret (- E_INVAL) s"
proof -
  let ?sp = "env_pgdir (envs s se)"
  let ?pte = "pte_of s ?sp srcva"
  note w = with_env_checked [OF assms(1)]
  show ?thesis
  proof (cases "srcva < UTOP \<and> dstva < UTOP \<and> aligned 4096 srcva \<and> aligned 4096 dstva")
    case False
    then have "srcva \<ge> UTOP \<or> dstva \<ge> UTOP \<or> ROUNDDOWN srcva PGSIZE \<noteq> srcva \<or> ROUNDDOWN dstva PGSIZE \<noteq> dstva"
      by (auto simp: round_page_iff not_less)
    then show ?thesis using assms(2,3) by (auto simp: sys_page_map_def w kret_def)
  next
    case range: True
    then have go: "\<not> (srcva \<ge> UTOP \<or> dstva \<ge> UTOP \<or> ROUNDDOWN srcva PGSIZE \<noteq> srcva \<or> ROUNDDOWN dstva PGSIZE \<noteq> dstva)"
      by (auto simp: round_page_iff not_le)
    show ?thesis
    proof (cases "?pte AND PTE_P = 0")
      case True
      with range assms(4,5) have "page_lookup ?sp srcva s = Ret None s" by (intro lookup_nothing) auto
      with go assms(2,3) show ?thesis by (simp add: sys_page_map_def w kbind_Ret kret_def)
    next
      case False
      with range assms(4-6) have look: "page_lookup ?sp srcva s = Ret (Some (frame ?pte, slot_of s ?sp srcva)) s"
          "kload (slot_of s ?sp srcva) s = Ret ?pte s"
        by (auto intro: lookup_entry simp: not_le)
      with go range False assms(2,3,7) show ?thesis
        by (simp add: sys_page_map_def w kbind_Ret Let_def may_map_def kret_def)
    qed
  qed
qed

lemma sys_page_map_eq:
  assumes "curenv s = Some c" "found_env s c srcenv = Some se" "found_env s c dstenv = Some de"
    and "wf_pgdir s (env_pgdir (envs s se))" "in_memory s (env_pgdir (envs s se)) srcva"
    and "vm_ok s (env_pgdir (envs s de)) xs" "xs \<noteq> []" "in_memory s (env_pgdir (envs s de)) dstva"
  shows "if may_map s (env_pgdir (envs s se)) srcva dstva perm
    then \<exists>t. sys_page_map srcenv srcva dstenv dstva perm s = Ret 0 t \<and> envs t = envs s \<and>
      (\<forall>va. PDX va \<noteq> PDX UVPT \<longrightarrow> pte_of t (env_pgdir (envs s de)) va =
        (if PGNUM va = PGNUM dstva
         then page2pa (frame (pte_of s (env_pgdir (envs s se)) srcva)) OR perm OR PTE_P
         else pte_of s (env_pgdir (envs s de)) va))
    else sys_page_map srcenv srcva dstenv dstva perm s = Ret (- E_INVAL) s"
proof -
  let ?sp = "env_pgdir (envs s se)" and ?dp = "env_pgdir (envs s de)"
  let ?pte = "pte_of s ?sp srcva"
  have m: "mem_ok s" using assms(6) by (simp add: vm_ok_def)
  show ?thesis
  proof (cases "may_map s ?sp srcva dstva perm")
    case False
    then show ?thesis using sys_page_map_refused [OF assms(1-4) m] assms(5) by simp
  next
    case True
    then have dst: "PDX dstva \<noteq> PDX UVPT" by (auto simp: may_map_def dest: below_UTOP)
    obtain t where t: "page_insert ?dp (frame ?pte) dstva perm s = Ret 0 t"
        "\<forall>va. PDX va \<noteq> PDX UVPT \<longrightarrow> pte_of t ?dp va =
          (if PGNUM va = PGNUM dstva then page2pa (frame ?pte) OR perm OR PTE_P else pte_of s ?dp va)"
      using page_insert_maps [OF assms(6) dst, of "frame ?pte" perm] assms(7,8)
      unfolding in_memory_def by blast
    then show ?thesis
      using sys_page_map_allowed [OF assms(1-4) m assms(5) True] page_insert_envs [OF t(1)] True by simp
  qed
qed


text \<open>The mapped machine with environment 0 running.\<close>

definition calling_machine :: kstate where
  "calling_machine = set_curenv (Some 0) mapped_machine"

lemma calling_machine_facts [simp]:
  "curenv calling_machine = Some 0" "found_env calling_machine 0 0 = Some 0"
  "env_pgdir (envs calling_machine 0) = sample_pgdir"
  "pde_of calling_machine sample_pgdir va = pde_of mapped_machine sample_pgdir va"
  "pte_of calling_machine sample_pgdir va = pte_of mapped_machine sample_pgdir va"
  "npages calling_machine = 64"
  by (simp_all add: calling_machine_def found_env_def pde_of_def pte_of_def)

lemma calling_machine_vm [simp]: "vm_ok calling_machine sample_pgdir [4, 3, 2]"
proof -
  have "vm_ok mapped_machine sample_pgdir [4, 3, 2]" by simp
  then show ?thesis
    by (simp add: vm_ok_def wf_pgdir_def tables_not_free_def has_table_def mem_ok_def free_list_def)
      (simp add: calling_machine_def)
qed

lemma in_memory_calling [simp]: "in_memory calling_machine sample_pgdir va"
  by (simp add: in_memory_def)

lemma PDX_801000: "PDX 0x801000 = 2" "PTX 0x801000 = 1"
  by (simp_all add: PDX_def PTX_def)

lemma may_map_calling:
  "perm AND (PTE_U OR PTE_P) = PTE_U OR PTE_P \<Longrightarrow>
    may_map calling_machine sample_pgdir 0x800000 0x801000 perm"
  by (simp add: may_map_def aligned_def layout)

lemma calling_wf [simp]: "wf_pgdir calling_machine sample_pgdir" "mem_ok calling_machine"
  using calling_machine_vm by (simp_all add: vm_ok_def)


text \<open>C24. The permission argument is not limited to the flags: its upper bits are or-ed into the
  address of the page.  An environment that maps its page 7 a second time with the permission
  \<open>0x8007\<close> gets page 15, which it does not own, writable.\<close>

theorem sys_page_map_escape:
  "\<exists>t. sys_page_map 0 0x800000 0 0x801000 0x8007 calling_machine = Ret 0 t \<and>
    frame (pte_of calling_machine sample_pgdir 0x800000) = 7 \<and>
    frame (pte_of t sample_pgdir 0x801000) = 15 \<and>
    pte_of t sample_pgdir 0x801000 AND (PTE_P OR PTE_W OR PTE_U) = PTE_P OR PTE_W OR PTE_U"
proof -
  have "may_map calling_machine sample_pgdir 0x800000 0x801000 0x8007"
    by (rule may_map_calling) (simp add: layout)
  moreover have "PDX 0x801000 \<noteq> PDX UVPT" by (simp add: PDX_801000)
  ultimately obtain t where "sys_page_map 0 0x800000 0 0x801000 0x8007 calling_machine = Ret 0 t"
      "pte_of t sample_pgdir 0x801000 = 0xF007"
    using sys_page_map_eq [of calling_machine 0 0 0 0 0 "0x800000" "[4, 3, 2]" "0x801000" "0x8007"]
    by (auto simp: page2pa_def layout)
  then show ?thesis by (auto simp: frame_def layout)
qed


subsection \<open>Messages\<close>

text \<open>\<open>envid\<close> is the identifier of the live environment \<open>e\<close>.\<close>

definition names_env :: "kstate \<Rightarrow> u32 \<Rightarrow> nat \<Rightarrow> bool" where
  "names_env s envid e \<longleftrightarrow> envid \<noteq> 0 \<and> ENVX envid = e \<and> env_status (envs s e) \<noteq> ENV_FREE \<and>
     env_id (envs s e) = envid"

lemma with_env_unchecked: "names_env s envid e \<Longrightarrow> with_env envid False f s = f e s"
  by (auto simp: with_env_def names_env_def kbind_Ret envid2env_unchecked)

text \<open>What a receiver finds when it runs again.\<close>

definition delivered :: "u32 \<Rightarrow> u32 \<Rightarrow> Env \<Rightarrow> Env" where
  "delivered from value env = env\<lparr>env_ipc_recving := False, env_ipc_from := from,
     env_ipc_value := value, env_status := ENV_RUNNABLE,
     env_tf := (env_tf env)\<lparr>tf_regs := (tf_regs (env_tf env))\<lparr>reg_eax := 0\<rparr>\<rparr>\<rparr>"

lemma ipc_send_value:
  assumes "curenv s = Some c" "names_env s envid e" "UTOP \<le> srcva"
  shows "sys_ipc_try_send envid value srcva perm s =
    (if env_ipc_recving (envs s e) then Ret 0 (upd_env e (delivered (env_id (envs s c)) value) s)
     else Ret (- E_IPC_NOT_RECV) s)"
proof -
  have "\<not> srcva < UTOP" using assms(3) by simp
  with assms(1) show ?thesis
    by (simp add: sys_ipc_try_send_def with_env_unchecked [OF assms(2)] kbind_Ret the_curenv_def
        delivered_def [abs_def] kret_def)
qed

lemma ipc_send_refused:
  assumes "names_env s envid e" "\<not> env_ipc_recving (envs s e)"
  shows "sys_ipc_try_send envid value srcva perm s = Ret (- E_IPC_NOT_RECV) s"
  using assms(2) by (simp add: sys_ipc_try_send_def with_env_unchecked [OF assms(1)] kret_def)

text \<open>C17. A message is received once: after \<open>sys_ipc_recv\<close> of one environment the first value that
  another environment sends to it is delivered, with the sender's identifier, and makes it
  runnable with the result 0; every later message is refused until it receives again.\<close>

theorem ipc_exactly_once:
  assumes "curenv s = Some e" "names_env s envid e" "UTOP \<le> dstva \<or> aligned 4096 dstva" "UTOP \<le> srcva"
  shows "\<exists>t u. sys_ipc_recv dstva s = Ret 0 t \<and> env_status (envs t e) = ENV_NOT_RUNNABLE \<and>
    sys_ipc_try_send envid value srcva perm (set_curenv (Some d) t) = Ret 0 u \<and>
    env_ipc_value (envs u e) = value \<and> env_ipc_from (envs u e) = env_id (envs s d) \<and>
    env_status (envs u e) = ENV_RUNNABLE \<and> reg_eax (tf_regs (env_tf (envs u e))) = 0 \<and>
    (\<forall>j. j \<noteq> e \<longrightarrow> envs u j = envs s j) \<and>
    (\<forall>value' srcva' perm'. sys_ipc_try_send envid value' srcva' perm' u = Ret (- E_IPC_NOT_RECV) u)"
proof -
  let ?t = "upd_env e (\<lambda>env. env\<lparr>env_ipc_recving := True, env_status := ENV_NOT_RUNNABLE,
    env_ipc_dstva := dstva\<rparr>) s"
  let ?v = "set_curenv (Some d) ?t"
  let ?u = "upd_env e (delivered (env_id (envs ?v d)) value) ?v"
  have recv: "sys_ipc_recv dstva s = Ret 0 ?t"
    using assms(1,3) round_page_iff [of dstva]
    by (auto simp: sys_ipc_recv_def kbind_Ret the_curenv_def kret_def not_less)
  have n: "names_env ?v envid e" "names_env ?u envid e"
    using assms(2) by (simp_all add: names_env_def delivered_def)
  have send: "sys_ipc_try_send envid value srcva perm ?v = Ret 0 ?u"
    by (subst ipc_send_value [OF _ n(1) assms(4), where c = d]) simp_all
  have "sys_ipc_try_send envid value' srcva' perm' ?u = Ret (- E_IPC_NOT_RECV) ?u" for value' srcva' perm'
    by (rule ipc_send_refused [OF n(2)]) (simp add: delivered_def)
  with recv send show ?thesis
    by (intro exI [of _ ?t] exI [of _ ?u]) (simp add: delivered_def)
qed

lemma ipc_exactly_once_witness:
  "\<exists>t u. sys_ipc_recv UTOP calling_machine = Ret 0 t \<and>
    sys_ipc_try_send 0x1000 42 UTOP 0 (set_curenv (Some 1) t) = Ret 0 u \<and>
    env_ipc_value (envs u 0) = 42 \<and> sys_ipc_try_send 0x1000 43 UTOP 0 u = Ret (- E_IPC_NOT_RECV) u"
proof -
  have "names_env calling_machine 0x1000 0"
    by (simp add: names_env_def calling_machine_def unat_ENVX small_machine_def)
  with ipc_exactly_once [of calling_machine 0 "0x1000" UTOP UTOP 42 0 1] show ?thesis by auto
qed

lemma pte_upd_env [simp]: "pte_of (upd_env e g s) pgdir va = pte_of s pgdir va"
  by (simp add: pte_of_def pde_of_def)

text \<open>When the sender may send the page at \<open>srcva\<close>.\<close>

definition may_send :: "kstate \<Rightarrow> u32 \<Rightarrow> u32 \<Rightarrow> u32 \<Rightarrow> bool" where
  "may_send s pgdir srcva perm \<longleftrightarrow> aligned 4096 srcva \<and> pte_of s pgdir srcva AND PTE_P \<noteq> 0 \<and>
     pte_of s pgdir srcva AND perm = perm \<and>
     (perm AND PTE_W \<noteq> 0 \<longrightarrow> pte_of s pgdir srcva AND PTE_W \<noteq> 0)"

lemma ipc_send_page_eq:
  assumes "curenv s = Some c" "srcva < UTOP" "mem_ok s" "wf_pgdir s (env_pgdir (envs s c))"
    and "in_memory s (env_pgdir (envs s c)) srcva"
  shows "ipc_send_page e srcva perm s =
    (if \<not> may_send s (env_pgdir (envs s c)) srcva perm then Ret (- E_INVAL) s
     else if UTOP \<le> env_ipc_dstva (envs s e) then Ret 0 s
     else kbind (page_insert (env_pgdir (envs s e)) (frame (pte_of s (env_pgdir (envs s c)) srcva))
         (env_ipc_dstva (envs s e)) perm) (\<lambda>ret. if ret \<noteq> 0 then kret ret
       else kbind (kmod (upd_env e (\<lambda>env. env\<lparr>env_ipc_perm := perm\<rparr>))) (\<lambda>_. kret 0)) s)"
proof (cases "pte_of s (env_pgdir (envs s c)) srcva AND PTE_P = 0")
  case True
  with assms show ?thesis
    by (simp add: ipc_send_page_def kbind_Ret the_curenv_def lookup_nothing kret_def may_send_def)
next
  case False
  note look = lookup_entry [OF assms(3,4,2,5) False]
  show ?thesis
    using assms(1) False round_page_iff [of srcva]
    by (auto simp: ipc_send_page_def kbind_Ret the_curenv_def look kret_def may_send_def not_less not_le)
qed

text \<open>The delivery after the page, the same as without one.\<close>

definition deliver :: "nat \<Rightarrow> u32 \<Rightarrow> u32 \<Rightarrow> u32 kernel" where
  "deliver e value ret =
     (if ret \<noteq> 0 then kret ret
      else kbind the_curenv (\<lambda>c. kbind (kget (\<lambda>s. env_id (envs s c))) (\<lambda>from.
        kbind (kmod (upd_env e (delivered from value))) (\<lambda>_. kret 0))))"

lemma ipc_send_with_page:
  assumes "names_env s envid e" "env_ipc_recving (envs s e)" "srcva < UTOP"
  shows "sys_ipc_try_send envid value srcva perm s = kbind (ipc_send_page e srcva perm) (deliver e value) s"
  using assms(2,3) unfolding delivered_def [abs_def] deliver_def [abs_def]
  by (simp add: sys_ipc_try_send_def with_env_unchecked [OF assms(1)])

lemma deliver_simps:
  "ret \<noteq> 0 \<Longrightarrow> deliver e value ret s = Ret ret s"
  "curenv s = Some c \<Longrightarrow> deliver e value 0 s = Ret 0 (upd_env e (delivered (env_id (envs s c)) value) s)"
  by (simp_all add: deliver_def kret_def kbind_Ret the_curenv_def)


text \<open>Environment 0 waits for a page at \<open>0x801000\<close>.\<close>

definition waiting_machine :: kstate where
  "waiting_machine = upd_env 0 (\<lambda>env. env\<lparr>env_ipc_recving := True, env_ipc_dstva := 0x801000\<rparr>) calling_machine"

lemma vm_ok_upd_env [simp]: "vm_ok (upd_env e g s) pgdir xs = vm_ok s pgdir xs"
  by (simp add: vm_ok_def wf_pgdir_def tables_not_free_def has_table_def mem_ok_def free_list_def pde_of_def)


subsection \<open>Allocating pages\<close>

text \<open>The state in which \<open>sys_page_alloc\<close> inserts the page \<open>q\<close> it has taken.\<close>

definition taken_state :: "nat \<Rightarrow> kstate \<Rightarrow> kstate" where
  "taken_state q s = upd_page q (\<lambda>p. p\<lparr>pp_ref := pp_ref p + 1\<rparr>) (alloc_state ALLOC_ZERO q s)"

lemma taken_state_fields [simp]:
  "npages (taken_state q s) = npages s" "envs (taken_state q s) = envs s"
  "curenv (taken_state q s) = curenv s" "mem_ok (taken_state q s) = mem_ok s"
  "pmem (taken_state q s) = mem_set (pmem s) (page2pa q) 0 4096"
  "page_free_list (taken_state q s) = pp_link (pages s q)"
  "pages (taken_state q s) = (pages s)(q := (pages s q)\<lparr>pp_ref := pp_ref (pages s q) + 1\<rparr>)"
  by (simp_all add: taken_state_def alloc_state_def take_free_page_def curenv_def mem_ok_def)

lemma pde_taken:
  assumes "vm_ok s pgdir (q # xs)"
  shows "pde_of (taken_state q s) pgdir va = pde_of s pgdir va"
  using vm_ok_page_facts [OF assms]
  by (simp add: pde_of_def load_cleared_slot PDX_less)

lemma has_table_taken:
  "vm_ok s pgdir (q # xs) \<Longrightarrow> has_table (taken_state q s) pgdir va = has_table s pgdir va"
  by (simp add: has_table_def pde_taken)

lemma pte_taken:
  assumes "vm_ok s pgdir (q # xs)" "PDX va \<noteq> PDX UVPT"
  shows "pte_of (taken_state q s) pgdir va = pte_of s pgdir va"
proof (cases "has_table s pgdir va")
  case True
  then have "PTE_ADDR (pde_of s pgdir va) \<noteq> page2pa q" using vm_ok_page_facts [OF assms(1)] by blast
  then show ?thesis by (simp add: pte_of_def pde_taken [OF assms(1)] load_cleared_slot PTX_less)
next
  case False
  with assms show ?thesis
    using pte_of_no_table [of va] has_table_taken by metis
qed

lemma vm_ok_taken:
  assumes "vm_ok s pgdir (q # xs)"
  shows "vm_ok (taken_state q s) pgdir xs"
proof -
  have "free_list (taken_state q s) xs"
  proof -
    have "free_list s (q # xs)" using assms by (simp add: vm_ok_def)
    moreover from this have "q \<notin> set xs" using free_list_distinct by fastforce
    ultimately show ?thesis by (simp add: free_list_def chain_upd fun_upd_def) (rule iffD1 [OF chain_cong]; auto)
  qed
  with assms show ?thesis
    by (auto simp: vm_ok_def wf_pgdir_def tables_not_free_def has_table_taken [OF assms] pde_taken [OF assms])
qed

text \<open>C23. With authority, a user address and the flags \<open>PTE_U\<close> and \<open>PTE_P\<close>, \<open>sys_page_alloc\<close> maps the
  first free page, cleared, and changes no other entry and no environment.  Any other request
  is refused with \<open>-E_INVAL\<close>, and one that finds no free page with \<open>-E_NO_MEM\<close>.\<close>

definition may_alloc :: "u32 \<Rightarrow> u32 \<Rightarrow> bool" where
  "may_alloc va perm \<longleftrightarrow> va < UTOP \<and> perm AND (PTE_U OR PTE_P) = PTE_U OR PTE_P"

lemma sys_page_alloc_step:
  assumes "curenv s = Some c" "found_env s c envid = Some e" "may_alloc va perm"
    and "mem_ok s" "free_list s (q # xs)"
  shows "sys_page_alloc envid va perm s =
    kbind (page_insert (env_pgdir (envs s e)) q va perm) (\<lambda>ret.
      if ret \<noteq> 0 then kbind (page_free q) (\<lambda>_. kret ret) else kret 0) (taken_state q s)"
proof -
  have "\<not> UTOP \<le> va" using assms(3) by (simp add: may_alloc_def not_le)
  then show ?thesis
    using assms(2,3) page_alloc_Some [OF assms(5,4), of ALLOC_ZERO]
    by (simp add: sys_page_alloc_def with_env_checked [OF assms(1)] may_alloc_def Let_def kbind_Ret
        page_incref_def flip: taken_state_def)
qed






subsection \<open>Environments\<close>

text \<open>\<open>sys_exofork\<close> makes a child that is not runnable yet, has the caller's registers except
  that its own result will be 0, and is in the caller's power by the identifier returned; the
  caller and all other environments are unchanged.\<close>

theorem sys_exofork_child:
  assumes "vm_ready s p xs" "env_free_list s = Some e" "e < NENV" "curenv s = Some c" "e \<noteq> c"
  shows "\<exists>t. sys_exofork s = Ret (next_env_id (env_id (envs s e)) e) t \<and>
    env_status (envs t e) = ENV_NOT_RUNNABLE \<and>
    env_tf (envs t e) = (env_tf (envs s c))\<lparr>tf_regs := (tf_regs (env_tf (envs s c)))\<lparr>reg_eax := 0\<rparr>\<rparr> \<and>
    found_env t c (next_env_id (env_id (envs s e)) e) = Some e \<and> (\<forall>j. j \<noteq> e \<longrightarrow> envs t j = envs s j)"
proof -
  let ?id = "next_env_id (env_id (envs s e)) e"
  let ?a = "alloc_env_state (env_id (envs s c)) e p s"
  obtain k where a: "env_alloc (env_id (envs s c)) s = Ret (0, Some e) (?a\<lparr>cons := k\<rparr>)"
    using env_alloc_Ret [OF assms(1,2)] by blast
  let ?b = "upd_env e (\<lambda>env. env\<lparr>env_tf := env_tf (envs s c), env_status := ENV_NOT_RUNNABLE\<rparr>) (?a\<lparr>cons := k\<rparr>)"
  let ?t = "upd_env e (\<lambda>env. env\<lparr>env_tf :=
     (env_tf env)\<lparr>tf_regs := (tf_regs (env_tf env))\<lparr>reg_eax := 0\<rparr>\<rparr>\<rparr>) ?b"
  have envs: "envs ?a j = envs s j" if "j \<noteq> e" for j
    using that by (simp add: alloc_env_state_def vm_state_def Let_def)
  have id: "env_id (envs ?a e) = ?id" "env_parent_id (envs ?a e) = env_id (envs s c)"
    by (simp_all add: alloc_env_state_def born_def)
  have c: "envs ?a c = envs s c" using assms(5) by (intro envs) simp
  have "sys_exofork s = Ret (env_id (envs ?t e)) ?t"
    using assms(4,5) a c
    by (simp add: sys_exofork_def the_curenv_def kbind_Ret kget_def)
  moreover have "env_id (envs ?t e) = ?id" by (simp add: id)
  moreover have "found_env ?t c ?id = Some e"
    using next_env_id_facts [OF assms(3), of "env_id (envs s e)"] assms(5) c
    by (auto simp: found_env_def id)
  ultimately show ?thesis using envs by (intro exI [of _ ?t]) simp
qed

lemma sys_exofork_child_witness:
  "\<exists>t. sys_exofork (set_curenv (Some 0) small_machine) = Ret (next_env_id 0 1) t \<and>
    env_status (envs t 1) = ENV_NOT_RUNNABLE"
proof -
  let ?s = "set_curenv (Some 0) small_machine"
  have "vm_ready ?s 4 [3, 2]"
    by (simp add: vm_ready_def aligned_def frame_def layout mem_ok_def free_list_def)
  moreover have "env_id (envs ?s 1) = 0" by (simp add: small_machine_def zero_env_def)
  ultimately show ?thesis
    using sys_exofork_child [of ?s 4 "[3, 2]" 1 0] by auto
qed

text \<open>C27. \<open>sys_env_set_status\<close> does not ask whether the environment is running.  A parent can make a
  child runnable that another CPU is executing, and the next \<open>sched_yield\<close> of its own CPU runs
  the child a second time.\<close>

theorem set_status_runs_twice:
  assumes "curenv s = Some c" "found_env s c envid = Some e" "e \<noteq> c"
    and "cpu_env (cpus s k) = Some e" "env_status (envs s e) = ENV_RUNNING"
    and "\<forall>j < NENV. env_status (envs s j) \<noteq> ENV_RUNNABLE" "sint (pr (envs s e)) \<le> sint (pr (envs s c))"
  shows "\<exists>t. sys_env_set_status envid ENV_RUNNABLE s = Ret 0 t \<and> sched_yield t = env_run e t \<and>
    cpu_env (cpus t k) = Some e"
proof -
  let ?t = "upd_env e (\<lambda>env. env\<lparr>env_status := ENV_RUNNABLE\<rparr>) s"
  have "e = ENVX envid" using assms(2,3) by (auto simp: found_env_def split: if_splits)
  then have e: "e < NENV" by simp
  have run: "runnable ?t j \<longleftrightarrow> j = e" if "j < NENV" for j
    using that assms(6) by (simp add: runnable_def)
  obtain r where r: "sched_search ?t (start_slot ?t) = Some r"
    using sched_search_None [of ?t "start_slot ?t" e] run e by fastforce
  have "r = e" using sched_search_Some(2,3) [OF r] run by blast
  with r assms(7) have "\<not> goes_on ?t c"
    using assms(3) by (auto simp: goes_on_def prio_def)
  with r \<open>r = e\<close> assms(1) have "sched_yield ?t = env_run e ?t"
    by (simp add: sched_yield_cases)
  moreover have "sys_env_set_status envid ENV_RUNNABLE s = Ret 0 ?t"
    using assms(2) by (simp add: sys_env_set_status_def with_env_checked [OF assms(1)] kret_def)
  ultimately show ?thesis using assms(4) by (intro exI [of _ ?t]) simp
qed

text \<open>Environment 1, a child of environment 0, runs on CPU 1.\<close>

definition two_cpu_machine :: kstate where
  "two_cpu_machine = (upd_env 1 (\<lambda>e. e\<lparr>env_id := 0x1001, env_parent_id := 0x1000, env_status := ENV_RUNNING\<rparr>)
     (upd_env 0 (\<lambda>e. e\<lparr>env_status := ENV_RUNNING\<rparr>) (set_curenv (Some 0) small_machine)))
   \<lparr>cpus := (cpus (set_curenv (Some 0) small_machine))(1 := (cpus small_machine 1)\<lparr>cpu_env := Some 1\<rparr>)\<rparr>"

lemma set_status_runs_twice_witness:
  "\<exists>t. sys_env_set_status 0x1001 ENV_RUNNABLE two_cpu_machine = Ret 0 t \<and>
    sched_yield t = env_run 1 t \<and> cpu_env (cpus t 1) = Some 1"
proof -
  have e: "envs two_cpu_machine j = (if j = 0 then (envs small_machine 0)\<lparr>env_status := ENV_RUNNING\<rparr>
      else if j = 1 then (envs small_machine 1)\<lparr>env_id := 0x1001, env_parent_id := 0x1000,
        env_status := ENV_RUNNING\<rparr> else envs small_machine j)" for j
    by (simp add: two_cpu_machine_def)
  have c: "curenv two_cpu_machine = Some 0" "cpu_env (cpus two_cpu_machine 1) = Some 1"
    by (simp_all add: two_cpu_machine_def curenv_def set_curenv_def)
  have "found_env two_cpu_machine 0 0x1001 = Some 1"
    by (simp add: found_env_def unat_ENVX e) (simp add: small_machine_def)
  moreover have "\<forall>j < NENV. env_status (envs two_cpu_machine j) \<noteq> ENV_RUNNABLE"
    by (simp add: e) (simp add: small_machine_def zero_env_def)
  moreover have "env_status (envs two_cpu_machine 1) = ENV_RUNNING"
      "pr (envs two_cpu_machine 1) = pr (envs two_cpu_machine 0)"
    by (simp_all add: e) (simp add: small_machine_def)
  ultimately show ?thesis
    using set_status_runs_twice [of two_cpu_machine 0 "0x1001" 1 1] c by simp
qed


subsection \<open>Printing a user string\<close>

text \<open>The page at \<open>0x800000\<close> ends with the letter A, and the next page is not mapped.\<close>

definition edge_machine :: kstate where
  "edge_machine = calling_machine\<lparr>pmem := (pmem calling_machine)(0x7FFF := 0x41)\<rparr>"

lemma calling_page: "page_at calling_machine False 0x800000 7"
proof -
  have c: "cr3 calling_machine (thiscpu calling_machine) = sample_pgdir - KERNBASE"
    by (simp add: calling_machine_def mapped_machine_def small_machine_def set_curenv_def layout)
  have a: "aligned 4096 (sample_pgdir - KERNBASE)" by (simp add: aligned_def layout)
  have "hw_pgdir calling_machine = 0x5000" unfolding hw_pgdir_def c by (simp add: PTE_ADDR_def layout)
  moreover have "hw_pde calling_machine 0x800000 = 0x6007" using hw_is_pgdir(1) [OF c a] by simp
  moreover have "hw_pte calling_machine 0x800000 = 0x7007"
    using hw_is_pgdir(2) [OF c a, of "0x800000"] by (simp add: layout)
  ultimately show ?thesis by (simp add: page_at_def access_ok_def page2pa_def aligned_def frame_def layout)
qed

lemma edge_machine_page: "page_at edge_machine False 0x800000 7"
  using page_at_store [OF calling_page, of "0xFFF" "0x41"] by (simp add: edge_machine_def page2pa_def)

lemma edge_machine_facts:
  "curenv edge_machine = Some 0" "env_id (envs edge_machine 0) = 0x1000"
  "found_env edge_machine 0 0x1000 = Some 0" "pmem edge_machine 0x7FFF = 0x41"
  "env_pgdir (envs edge_machine 0) = sample_pgdir"
  by (simp_all add: edge_machine_def calling_machine_def curenv_def found_env_def unat_ENVX
      set_curenv_def small_machine_def mapped_machine_def)

lemma edge_tables:
  "pde_of edge_machine sample_pgdir va = (if PDX va = 2 then 0x6007 else 0)"
  "pte_of edge_machine sample_pgdir va = (if PDX va = 2 \<and> PTX va = 0 then 0x7007 else 0)"
proof -
  have a: "aligned 4096 0x5000" "aligned 4096 0x6000" by (simp_all add: aligned_def)
  have m: "pmem edge_machine = (pmem mapped_machine)(0x7FFF := 0x41)"
    by (simp add: edge_machine_def calling_machine_def)
  have "pde_of edge_machine sample_pgdir va = pde_of mapped_machine sample_pgdir va"
    using a(1) load_other_frame [of "0x5000" "0x7FFF" "PDX va" "pmem mapped_machine" "0x41"]
    by (simp only: pde_of_def m) (simp add: frame_def PDX_less layout)
  then show d: "pde_of edge_machine sample_pgdir va = (if PDX va = 2 then 0x6007 else 0)" by simp
  have "pte_of edge_machine sample_pgdir va = pte_of mapped_machine sample_pgdir va"
    using a(2) load_other_frame [of "0x6000" "0x7FFF" "PTX va" "pmem mapped_machine" "0x41"]
    by (simp only: pte_of_def d sample_pde m) (simp add: frame_def PTX_less)
  then show "pte_of edge_machine sample_pgdir va = (if PDX va = 2 \<and> PTX va = 0 then 0x7007 else 0)"
    by simp
qed

lemma edge_next_page: "translate (edge_machine\<lparr>cons := c\<rparr>) False False 0x801000 = None"
proof -
  let ?s = "edge_machine\<lparr>cons := c\<rparr>"
  have c: "cr3 ?s (thiscpu ?s) = sample_pgdir - KERNBASE" and a: "aligned 4096 (sample_pgdir - KERNBASE)"
    by (simp_all add: edge_machine_def calling_machine_def mapped_machine_def small_machine_def
        set_curenv_def aligned_def layout)
  have "pde_of ?s sample_pgdir 0x801000 = 0x6007" "pte_of ?s sample_pgdir 0x801000 = 0"
    using edge_tables [of "0x801000"] PDX_801000 vspace_cong [of ?s edge_machine] by simp_all
  then have "hw_pte ?s 0x801000 = 0" using hw_is_pgdir(2) [OF c a, of "0x801000"] by (simp add: layout)
  then show ?thesis by (simp add: translate_hw access_ok_def)
qed

lemma edge_first_byte: "vload8 0x800FFF edge_machine = Ret 0x41 edge_machine"
  using vload8_page [OF edge_machine_page, of "0xFFF"] by (simp add: page2pa_def edge_machine_facts)

text \<open>C28. \<open>sys_cputs\<close> reads one byte more than it has checked: with \<open>"%.*s"\<close> the loop of \<open>vprintfmt\<close>
  loads a character before it looks at the precision.  A string of one byte at the end of the
  last mapped page passes \<open>user_mem_check\<close>, and the kernel faults and panics on the next page.\<close>

theorem sys_cputs_overread:
  "user_mem_check 0 0x800FFF 1 (PTE_U OR PTE_U) edge_machine = Ret 0 edge_machine \<and>
    (\<exists>t. sys_cputs 0x800FFF 1 edge_machine = Panic ''Kernel page fault!'' t)"
proof
  have "tables_in_memory edge_machine sample_pgdir"
    by (auto simp: tables_in_memory_def mem_ok_def aligned_def frame_def edge_tables layout)
      (simp_all add: edge_machine_def)
  moreover have "user_page_ok edge_machine sample_pgdir (PTE_U OR PTE_U) 0x800000"
    by (simp add: user_page_ok_def edge_tables layout)
  ultimately show check: "user_mem_check 0 0x800FFF 1 (PTE_U OR PTE_U) edge_machine = Ret 0 edge_machine"
    using user_mem_check_page [of edge_machine 0 "0x800000" "PTE_U OR PTE_U" "0xFFF" 1]
    by (simp add: edge_machine_facts aligned_def)
  let ?s = "edge_machine\<lparr>cons := cputchar 0x41 (cons edge_machine)\<rparr>"
  have n: "2 ^ 32 = Suc (Suc (2 ^ 32 - 2))" by simp
  have second: "vload8 0x801000 ?s = Panic ''Kernel page fault!'' ?s"
    by (simp add: vload8_def edge_next_page)
  have "print_user_string (Suc (Suc k)) 0x800FFF 1 edge_machine = Panic ''Kernel page fault!'' ?s" for k
    using edge_first_byte second by (simp add: kbind_Ret kbind_Panic)
  then have "print_user_string (2 ^ 32) 0x800FFF 1 edge_machine = Panic ''Kernel page fault!'' ?s"
    by (subst n)
  then have "cprintf_user 1 0x800FFF edge_machine = Panic ''Kernel page fault!'' ?s"
    by (simp add: cprintf_user_def kbind_Panic)
  moreover have "user_mem_assert 0 0x800FFF 1 PTE_U edge_machine = Ret () edge_machine"
    using check by (simp add: user_mem_assert_def kbind_Ret kwhen_def kret_def)
  moreover have "sys_getenvid edge_machine = Ret 0x1000 edge_machine"
    by (simp add: sys_getenvid_def the_curenv_def kbind_Ret kget_def edge_machine_facts)
  ultimately show "\<exists>t. sys_cputs 0x800FFF 1 edge_machine = Panic ''Kernel page fault!'' t"
    using envid2env_found [OF edge_machine_facts(1), of "0x1000"]
    by (simp add: sys_cputs_def kbind_Ret edge_machine_facts(3))
qed


end
