(* ===== verification/Isolation.thy ===== *)
theory Isolation
  imports Syscall_Spec
begin

text \<open>
  Isolation: every frame of physical memory has one role.  It is free, the page directory of
  one address space, one of its page tables, a page table of the kernel, or a data page, and
  only data pages are mapped at user addresses.  The assignment of roles is a ghost: it is not
  in the state, and the invariant says that it can be kept up.  A data page that is mapped \<open>n\<close>
  times has at least \<open>n\<close> references, so that it is not freed while it is mapped.
\<close>

subsection \<open>Roles\<close>

datatype role = Free | Directory u32 | Table u32 u32 | Kernel u32 | Data

text \<open>The places where a frame is mapped for the user.\<close>

definition mapped :: "kstate \<Rightarrow> u32 set \<Rightarrow> nat \<Rightarrow> (u32 \<times> u32) set" where
  "mapped s D f = {(d, va). d \<in> D \<and> va < UTOP \<and> aligned 4096 va \<and>
     pte_of s d va AND PTE_P \<noteq> 0 \<and> frame (pte_of s d va) = f}"

definition table_role :: "u32 \<Rightarrow> u32 \<Rightarrow> role" where
  "table_role d va = (if va < UTOP then Table d (PDX va) else Kernel (PDX va))"

definition frames_ok :: "kstate \<Rightarrow> u32 \<Rightarrow> (nat \<Rightarrow> role) \<Rightarrow> bool" where
  "frames_ok s d role \<longleftrightarrow>
     aligned 4096 (d - KERNBASE) \<and> frame (d - KERNBASE) < unat (npages s) \<and>
     role (frame (d - KERNBASE)) = Directory d \<and>
     (\<forall>va. has_table s d va \<longrightarrow> frame (pde_of s d va) < unat (npages s) \<and>
        role (frame (pde_of s d va)) = table_role d va) \<and>
     (\<forall>va. va < UTOP \<longrightarrow> pte_of s d va AND PTE_P \<noteq> 0 \<longrightarrow>
        frame (pte_of s d va) < unat (npages s) \<and> role (frame (pte_of s d va)) = Data)"

definition mem_inv :: "kstate \<Rightarrow> u32 set \<Rightarrow> nat list \<Rightarrow> (nat \<Rightarrow> role) \<Rightarrow> bool" where
  "mem_inv s D xs role \<longleftrightarrow>
     mem_ok s \<and> free_list s xs \<and> (\<forall>f \<in> set xs. role f = Free) \<and>
     (\<forall>d \<in> D. frames_ok s d role) \<and>
     (\<forall>f. role f = Data \<longrightarrow> card (mapped s D f) \<le> unat (pp_ref (pages s f)))"

lemma finite_mapped [simp]: "finite (mapped s D f)"
  by (rule finite_subset [OF subset_UNIV]) simp

lemma mapped_cong:
  "(\<And>d va. d \<in> D \<Longrightarrow> va < UTOP \<Longrightarrow> pte_of t d va = pte_of s d va) \<Longrightarrow> mapped t D f = mapped s D f"
  by (auto simp: mapped_def)

lemma mem_invD:
  assumes "mem_inv s D xs role"
  shows "mem_ok s" "free_list s xs" "\<And>f. f \<in> set xs \<Longrightarrow> role f = Free"
    "\<And>d. d \<in> D \<Longrightarrow> frames_ok s d role"
    "\<And>f. role f = Data \<Longrightarrow> card (mapped s D f) \<le> unat (pp_ref (pages s f))"
  using assms by (auto simp: mem_inv_def)

lemma frames_okD:
  assumes "frames_ok s d role"
  shows "aligned 4096 (d - KERNBASE)" "frame (d - KERNBASE) < unat (npages s)"
    "role (frame (d - KERNBASE)) = Directory d"
    "\<And>va. has_table s d va \<Longrightarrow> frame (pde_of s d va) < unat (npages s)"
    "\<And>va. has_table s d va \<Longrightarrow> role (frame (pde_of s d va)) = table_role d va"
    "\<And>va. va < UTOP \<Longrightarrow> pte_of s d va AND PTE_P \<noteq> 0 \<Longrightarrow> frame (pte_of s d va) < unat (npages s)"
    "\<And>va. va < UTOP \<Longrightarrow> pte_of s d va AND PTE_P \<noteq> 0 \<Longrightarrow> role (frame (pte_of s d va)) = Data"
  using assms by (auto simp: frames_ok_def)

lemma table_role_inj: "table_role d va = table_role d va' \<Longrightarrow> PDX va = PDX va'"
  by (auto simp: table_role_def split: if_splits)

lemma table_role_simps [simp]:
  "table_role d va \<noteq> Free" "Free \<noteq> table_role d va" "Data \<noteq> table_role d va" "table_role d va \<noteq> Directory d'" "table_role d va \<noteq> Data"
  "va < UTOP \<Longrightarrow> table_role d va = Table d (PDX va)"
  by (simp_all add: table_role_def)

lemma table_role_other: "d \<noteq> d' \<Longrightarrow> Table d x \<noteq> table_role d' va'"
  by (simp add: table_role_def)

text \<open>The invariant gives the well-formedness of each address space.\<close>

lemma mem_inv_vm_ok:
  assumes "mem_inv s D xs role" and "d \<in> D"
  shows "vm_ok s d xs"
proof -
  note i = mem_invD [OF assms(1)] and f = frames_okD [OF mem_invD(4) [OF assms]]
  have ne: "PTE_ADDR e \<noteq> a" if "role (frame e) \<noteq> role (frame a)" for e a
    using that frame_PTE_ADDR [of e] by (metis (no_types))
  have "wf_pgdir s d"
    unfolding wf_pgdir_def
    using f(1,2,4) f(3,5) by (auto intro!: ne dest: table_role_inj)
  moreover have "tables_not_free s d xs"
    unfolding tables_not_free_def using i(3) f(3,5) by (metis role.distinct(1) table_role_simps(1))
  ultimately show ?thesis using i(1,2) by (simp add: vm_ok_def)
qed

lemma in_memory_inv:
  assumes "mem_inv s D xs role" "d \<in> D" "va < UTOP"
  shows "in_memory s d va"
  using frames_okD(6) [OF mem_invD(4) [OF assms(1,2)] assms(3)] by (auto simp: in_memory_def)

text \<open>The invariant looks at the memory only through directories and tables.\<close>

lemma mem_inv_cong:
  assumes "mem_inv s D xs role" "mem_ok t" "npages t = npages s" "free_list t ys"
    and "\<And>f. f \<in> set ys \<Longrightarrow> role f = Free"
    and "\<And>d va. d \<in> D \<Longrightarrow> pde_of t d va = pde_of s d va"
    and "\<And>d va. d \<in> D \<Longrightarrow> va < UTOP \<Longrightarrow> pte_of t d va = pte_of s d va"
    and "\<And>f. role f = Data \<Longrightarrow> pp_ref (pages s f) \<le> pp_ref (pages t f)"
  shows "mem_inv t D ys role"
proof -
  have "mapped t D f = mapped s D f" for f using assms(7) by (auto simp: mapped_def)
  moreover have "unat (pp_ref (pages s f)) \<le> unat (pp_ref (pages t f))" if "role f = Data" for f
    using assms(8) [OF that] by (simp add: word_le_nat_alt)
  moreover have "frames_ok t d role" if "d \<in> D" for d
    using mem_invD(4) [OF assms(1) that] assms(6,7) [OF that] assms(3)
    by (simp add: frames_ok_def has_table_def)
  ultimately show ?thesis
    using assms(2,4,5) mem_invD(5) [OF assms(1)] by (fastforce simp: mem_inv_def)
qed

lemma mem_inv_depends:
  assumes "pmem t = pmem s" "npages t = npages s" "pages t = pages s" "page_free_list t = page_free_list s"
  shows "mem_inv t D xs role = mem_inv s D xs role"
  using assms by (simp add: mem_inv_def frames_ok_def mapped_def free_list_def mem_ok_def vspace_cong [OF assms(1)])

subsection \<open>Writing\<close>

text \<open>Two states whose memories agree outside the frames in \<open>F\<close>.\<close>

definition same_except :: "kstate \<Rightarrow> kstate \<Rightarrow> nat set \<Rightarrow> bool" where
  "same_except s t F \<longleftrightarrow> (\<forall>a. frame a \<notin> F \<longrightarrow> pmem t a = pmem s a)"

lemma frame_slot:
  assumes "aligned 4096 c" "unat y < 1024" "unat j < 4"
  shows "frame (c + 4 * y + j) = frame c"
proof -
  have "unat (4 * y + j) = 4 * unat y + unat j"
    using assms(2,3) by (subst unat_add_no_wrap) (simp_all add: unat_times4)
  then have "frame (c + (4 * y + j)) = frame c"
    using assms unfolding frame_def by (intro aligned_add_div) simp_all
  then show ?thesis by (simp add: add.assoc)
qed

lemma same_except_load:
  assumes "same_except s t F" "aligned 4096 c" "frame c \<notin> F" "unat y < 1024"
  shows "load32 (pmem t) (c + 4 * y) = load32 (pmem s) (c + 4 * y)"
  by (rule load32_cong) (use assms frame_slot [OF assms(2,4)] in \<open>simp add: same_except_def\<close>)

lemma same_except_store:
  assumes "aligned 4096 b" "unat x < 1024" "pmem t = store32 (pmem s) (b + 4 * x) v" "frame b \<in> F"
  shows "same_except s t F"
  unfolding same_except_def
proof (intro allI impI)
  fix a assume a: "frame a \<notin> F"
  have "a \<noteq> b + 4 * x + j" if "unat j < 4" for j
    using frame_slot [OF assms(1,2) that] a assms(4) by auto
  from this [of 0] this [of 1] this [of 2] this [of 3] show "pmem t a = pmem s a"
    by (simp add: assms(3) store32_other)
qed

lemma frame_near: "aligned 4096 b \<Longrightarrow> unat (a - b) < 4096 \<Longrightarrow> frame a = frame b"
  using aligned_add_div [of 4096 b "a - b"] by (simp add: frame_def)

lemma same_except_clear:
  "aligned 4096 b \<Longrightarrow> pmem t = mem_set (pmem s) b 0 4096 \<Longrightarrow> frame b \<in> F \<Longrightarrow> same_except s t F"
  by (auto simp: same_except_def mem_set_def dest: frame_near)

lemma same_except_move:
  "aligned 4096 b \<Longrightarrow> pmem t = mem_move (pmem s) b c 4096 \<Longrightarrow> frame b \<in> F \<Longrightarrow> same_except s t F"
  by (auto simp: same_except_def mem_move_def dest: frame_near)

lemma same_except_refl: "pmem t = pmem s \<Longrightarrow> same_except s t F"
  by (simp add: same_except_def)

lemma same_except_trans: "same_except s t F \<Longrightarrow> same_except t u F \<Longrightarrow> same_except s u F"
  by (simp add: same_except_def)

text \<open>An address space is not changed by writes outside its directory and its tables.\<close>

lemma vspace_same:
  assumes "frames_ok s d role" "same_except s t F"
    and "\<And>f. f \<in> F \<Longrightarrow> role f \<noteq> Directory d"
    and "\<And>f va. f \<in> F \<Longrightarrow> has_table s d va \<Longrightarrow> role f \<noteq> table_role d va"
  shows "pde_of t d va = pde_of s d va"
    and "PDX va \<noteq> PDX UVPT \<Longrightarrow> pte_of t d va = pte_of s d va"
proof -
  note f = frames_okD [OF assms(1)]
  have "frame (d - KERNBASE) \<notin> F" using f(3) assms(3) by blast
  then show pde: "pde_of t d va = pde_of s d va" for va
    using f(1) by (simp add: same_except_load [OF assms(2)] pde_of_def PDX_less)
  show "pte_of t d va = pte_of s d va" if "PDX va \<noteq> PDX UVPT"
  proof (cases "has_table s d va")
    case True
    then have "frame (pde_of s d va) \<notin> F" using f(5) assms(4) by blast
    then show ?thesis
      by (simp add: pte_of_def pde same_except_load [OF assms(2)] PTX_less)
  next
    case False
    with that show ?thesis by (simp add: pte_of_def pde has_table_def)
  qed
qed

lemma frames_okI:
  assumes "frames_ok s d role" "npages t = npages s"
    and "\<And>va. pde_of t d va = pde_of s d va" "\<And>va. va < UTOP \<Longrightarrow> pte_of t d va = pte_of s d va"
    and "role' (frame (d - KERNBASE)) = role (frame (d - KERNBASE))"
    and "\<And>va. has_table s d va \<Longrightarrow> role' (frame (pde_of s d va)) = role (frame (pde_of s d va))"
    and "\<And>f. role f = Data \<Longrightarrow> role' f = Data"
  shows "frames_ok t d role'"
  using assms by (auto simp: frames_ok_def has_table_def)

text \<open>A free page becomes a data page with one reference, not mapped anywhere.\<close>

lemma mapped_free: "mem_inv s D xs role \<Longrightarrow> role f \<noteq> Data \<Longrightarrow> mapped s D f = {}"
  by (auto simp: mapped_def dest: frames_okD(7) [OF mem_invD(4)])

lemma mem_inv_taken:
  assumes inv: "mem_inv s D (q # xs) role"
  shows "mem_inv (taken_state q s) D xs (role(q := Data))"
    and "\<And>d va. d \<in> D \<Longrightarrow> va < UTOP \<Longrightarrow> pte_of (taken_state q s) d va = pte_of s d va"
proof -
  let ?t = "taken_state q s"
  note i = mem_invD [OF inv]
  have q: "role q = Free" using i(3) by simp
  have eq: "pde_of ?t d va = pde_of s d va" "PDX va \<noteq> PDX UVPT \<Longrightarrow> pte_of ?t d va = pte_of s d va"
    if "d \<in> D" for d va
    using pde_taken pte_taken mem_inv_vm_ok [OF inv that] by blast+
  then show *: "\<And>d va. d \<in> D \<Longrightarrow> va < UTOP \<Longrightarrow> pte_of ?t d va = pte_of s d va"
    using below_UTOP by blast
  have m: "mapped ?t D f = mapped s D f" for f using * by (auto simp: mapped_def)
  have "frames_ok ?t d (role(q := Data))" if "d \<in> D" for d
  proof (rule frames_okI [OF i(4) [OF that]])
    show "(role(q := Data)) (frame (d - KERNBASE)) = role (frame (d - KERNBASE))"
      using frames_okD(3) [OF i(4) [OF that]] q by auto
    show "(role(q := Data)) (frame (pde_of s d va)) = role (frame (pde_of s d va))" if "has_table s d va" for va
      using frames_okD(5) [OF i(4) [OF \<open>d \<in> D\<close>] that] q by auto
  qed (use * eq that in auto)
  moreover have "free_list ?t xs"
  proof -
    have "q \<notin> set xs" using free_list_distinct [OF i(2)] by simp
    with i(2) show ?thesis
      by (simp add: free_list_def chain_upd fun_upd_def) (rule iffD1 [OF chain_cong]; auto)
  qed
  moreover have "q \<notin> set xs" using free_list_distinct [OF i(2)] by simp
  ultimately show "mem_inv ?t D xs (role(q := Data))"
    using i mapped_free [OF inv, of q] q m by (auto simp: mem_inv_def)
qed

text \<open>A free page becomes a page table.\<close>

lemma mem_inv_walk:
  assumes inv: "mem_inv s D (q # xs) role" and d: "d \<in> D" and va: "va < UTOP"
    and absent: "pde_of s d va AND PTE_P = 0"
  shows "mem_inv (walk_state d va q s) D xs (role(q := Table d (PDX va)))"
    and "\<And>d' va'. d' \<in> D \<Longrightarrow> va' < UTOP \<Longrightarrow> pte_of (walk_state d va q s) d' va' = pte_of s d' va'"
    and "\<And>d' va'. d' \<in> D \<Longrightarrow> d' \<noteq> d \<Longrightarrow> pde_of (walk_state d va q s) d' va' = pde_of s d' va'"
    and "same_except s (walk_state d va q s) {q, frame (d - KERNBASE)}"
proof -
  let ?t = "walk_state d va q s" and ?r = "role(q := Table d (PDX va))"
  note i = mem_invD [OF inv]
  note v = mem_inv_vm_ok [OF inv d]
  note pf = vm_ok_page_facts [OF v]
  have q: "role q = Free" "q \<notin> set xs" using i(3) free_list_distinct [OF i(2)] by simp_all
  have fq: "frame (page2pa q) = q" using pf(5) by (simp add: frame_def unat_page2pa)
  note vt = vm_ok_walk_state [OF v absent below_UTOP [OF va]]
  show same: "same_except s ?t {q, frame (d - KERNBASE)}"
  proof -
    let ?F = "{q, frame (d - KERNBASE)}"
    let ?m = "s\<lparr>pmem := mem_set (pmem s) (page2pa q) 0 4096\<rparr>"
    have "same_except s ?m ?F" by (rule same_except_clear [of "page2pa q"]) (simp_all add: fq)
    moreover have "same_except ?m ?t ?F"
      by (rule same_except_store [of "d - KERNBASE" "PDX va"]) (simp_all add: pf PDX_less pmem_walk_state)
    ultimately show ?thesis by (rule same_except_trans)
  qed
  have other: "pde_of ?t d' va' = pde_of s d' va' \<and> (PDX va' \<noteq> PDX UVPT \<longrightarrow> pte_of ?t d' va' = pte_of s d' va')"
    if d': "d' \<in> D" "d' \<noteq> d" for d' va'
  proof -
    let ?F = "{q, frame (d - KERNBASE)}"
    have "role f \<noteq> Directory d'" "role f \<noteq> table_role d' va''" if "f \<in> ?F" for f va''
      using that q(1) frames_okD(3) [OF i(4) [OF d]] d'(2) by auto
    then show ?thesis using vspace_same [OF i(4) [OF d'(1)] same] by metis
  qed
  have pde: "pde_of ?t d va' = (if PDX va' = PDX va then page2pa q OR PTE_P OR PTE_U OR PTE_W else pde_of s d va')"
    for va' by (rule pde_walk_state [OF v])
  show "pde_of ?t d' va' = pde_of s d' va'" if "d' \<in> D" "d' \<noteq> d" for d' va' using other [OF that] by blast
  show pte: "pte_of ?t d' va' = pte_of s d' va'" if "d' \<in> D" "va' < UTOP" for d' va'
    using that other pte_walk_state [OF v absent below_UTOP] below_UTOP by (cases "d' = d") auto
  have m: "mapped ?t D f = mapped s D f" for f using pte by (auto simp: mapped_def)
  have keep: "?r (frame (d' - KERNBASE)) = role (frame (d' - KERNBASE))"
    "has_table s d' va' \<Longrightarrow> ?r (frame (pde_of s d' va')) = role (frame (pde_of s d' va'))"
    if "d' \<in> D" for d' va'
    using frames_okD(3,5) [OF i(4) [OF that]] q(1) by auto
  have "frames_ok ?t d' ?r" if d': "d' \<in> D" for d'
  proof (cases "d' = d")
    case False
    then show ?thesis
      using keep [OF d'] other [OF d'] pte [OF d'] q(1) by (intro frames_okI [OF i(4) [OF d']]) auto
  next
    case True
    note f = frames_okD [OF i(4) [OF d]]
    have fpde: "frame (page2pa q OR PTE_P OR PTE_U OR PTE_W) = q"
      using fq by (metis PTE_ADDR_table frame_PTE_ADDR)
    have role: "table_role d va' = Table d (PDX va)" if "PDX va' = PDX va" for va'
    proof -
      have "unat (PDX va) < 955" using va by (simp add: unat_PDX word_less_nat_alt layout less_mult_imp_div_less)
      then have "unat (PDX va') < 955" using that by simp
      then have "unat va' div 4194304 < 955" by (simp add: unat_PDX)
      then have "va' < UTOP" by (simp add: word_less_nat_alt layout div_less_iff_less_mult)
      with that show ?thesis by simp
    qed
    define r where "r = ?r"
    have "r (frame (d - KERNBASE)) = Directory d" using keep(1) [OF d] f(3) by (simp add: r_def)
    moreover have "r (frame (pde_of s d va')) = table_role d va'" if "has_table s d va'" for va'
      using keep(2) [OF d that] f(5) [OF that] by (simp add: r_def)
    moreover have "r (frame (pte_of s d va')) = Data" if "va' < UTOP" "pte_of s d va' AND PTE_P \<noteq> 0" for va'
      using f(7) [OF that] q(1) by (auto simp: r_def)
    moreover have "r q = Table d (PDX va)" by (simp add: r_def)
    ultimately have "frames_ok ?t d r"
      unfolding frames_ok_def has_table_walk_state [OF v below_UTOP [OF va]] pde
      using f(1,2,4,6) pte [OF d] pf(4) fpde role by auto
    then show ?thesis unfolding True r_def .
  qed
  moreover have "free_list ?t xs" using vt by (simp add: vm_ok_def)
  moreover have "card (mapped ?t D f) \<le> unat (pp_ref (pages ?t f))" if "?r f = Data" for f
    using that i(5) [of f] m by (auto split: if_splits)
  ultimately show "mem_inv ?t D xs ?r" using i q by (auto simp: mem_inv_def)
qed

subsection \<open>References\<close>

text \<open>A page may be mapped once more.\<close>

definition spare :: "kstate \<Rightarrow> u32 set \<Rightarrow> nat \<Rightarrow> bool" where
  "spare s D f \<longleftrightarrow> card (mapped s D f) < unat (pp_ref (pages s f))"

lemma unat_inc_u16: "(r :: u16) \<noteq> - 1 \<Longrightarrow> unat (r + 1) = Suc (unat r)"
  using unatSuc [of r] by (auto simp: add.commute add_eq_0_iff)

lemma unat_max_u16: "unat (- 1 :: u16) = 65535"
  by (simp add: unsigned_minus_1_eq_mask mask_eq_exp_minus_1)

lemma unat_dec_u16: "(r :: u16) \<noteq> 0 \<Longrightarrow> unat (r - 1) = unat r - 1"
  by (simp add: unat_minus_one)

lemma mem_inv_incref:
  assumes inv: "mem_inv s D xs role" and r: "pp_ref (pages s f) \<noteq> - 1"
  defines "t \<equiv> upd_page f (\<lambda>p. p\<lparr>pp_ref := pp_ref p + 1\<rparr>) s"
  shows "mem_inv t D xs role" and "role f = Data \<Longrightarrow> spare t D f" and "pmem t = pmem s"
    and "npages t = npages s"
proof -
  note i = mem_invD [OF inv]
  show p: "pmem t = pmem s" "npages t = npages s" by (simp_all add: t_def)
  have fl: "free_list t xs" using i(2) by (simp add: free_list_def t_def) (rule iffD1 [OF chain_cong]; auto)
  have le: "pp_ref (pages s g) \<le> pp_ref (pages t g)" for g
    using unat_inc_u16 [OF r] by (simp add: t_def word_le_nat_alt)
  show "mem_inv t D xs role"
    by (rule mem_inv_cong [OF inv]) (use i fl le p in \<open>simp_all add: vspace_cong [OF p(1)] mem_ok_def\<close>)
  show "spare t D f" if "role f = Data"
    using i(5) [OF that] unat_inc_u16 [OF r] by (simp add: spare_def mapped_def vspace_cong [OF p(1)]) (simp add: t_def)
qed

text \<open>Writing one entry of one address space.\<close>

abbreviation (input) page_of :: "u32 \<Rightarrow> u32" where
  "page_of va \<equiv> ROUNDDOWN va PGSIZE"

lemma page_of_facts:
  "aligned 4096 (page_of va)" "PGNUM (page_of va) = PGNUM va" "va < UTOP \<Longrightarrow> page_of va < UTOP"
  "aligned 4096 va' \<Longrightarrow> PGNUM va' = PGNUM va \<longleftrightarrow> va' = page_of va"
proof -
  have u: "unat (page_of va) = unat va - unat va mod 4096" by (simp add: unat_ROUNDDOWN)
  show a: "aligned 4096 (page_of va)" by (simp add: u aligned_def)
  show g: "PGNUM (page_of va) = PGNUM va"
    by (simp add: word_unat_eq_iff unat_PGNUM u) (simp add: minus_mod_eq_mult_div)
  show "va < UTOP \<Longrightarrow> page_of va < UTOP" using u by (simp add: word_less_nat_alt)
  show "PGNUM va' = PGNUM va \<longleftrightarrow> va' = page_of va" if "aligned 4096 va'"
  proof
    assume "PGNUM va' = PGNUM va"
    then have "unat va' div 4096 = unat (page_of va) div 4096" using g by (simp flip: unat_PGNUM)
    then have "frame va' = frame (page_of va)" by (simp add: frame_def)
    then show "va' = page_of va" using frame_eq_iff [OF that a] by simp
  qed (use g in simp)
qed

lemma pte_page_cong: "PGNUM va = PGNUM va' \<Longrightarrow> pte_of s d va = pte_of s d va'"
  by (simp add: same_page_iff pte_of_def pde_of_def)

lemma set_pte_same: "same_except s (set_pte d va v s) {frame (pde_of s d va)}"
  by (rule same_except_store [of "PTE_ADDR (pde_of s d va)" "PTX va"]) (simp_all add: set_pte_def PTX_less)

lemma set_pte_spaces:
  assumes inv: "mem_inv s D xs role" and d: "d \<in> D" and va: "va < UTOP" and t: "has_table s d va"
    and d': "d' \<in> D"
  shows "pde_of (set_pte d va v s) d' va' = pde_of s d' va'"
    and "PDX va' \<noteq> PDX UVPT \<Longrightarrow> pte_of (set_pte d va v s) d' va' =
      (if d' = d \<and> PGNUM va' = PGNUM va then v else pte_of s d' va')"
proof -
  note i = mem_invD [OF inv]
  have w: "wf_pgdir s d" using mem_inv_vm_ok [OF inv d] by (simp add: vm_ok_def)
  have "pde_of (set_pte d va v s) d' va' = pde_of s d' va' \<and>
    (PDX va' \<noteq> PDX UVPT \<longrightarrow> pte_of (set_pte d va v s) d' va' = pte_of s d' va')" if ne: "d' \<noteq> d"
  proof -
    let ?F = "{frame (pde_of s d va)}"
    have "same_except s (set_pte d va v s) ?F" by (rule set_pte_same)
    moreover have "role f \<noteq> Directory d'" "role f \<noteq> table_role d' va''" if "f \<in> ?F" for f va''
      using that frames_okD(5) [OF i(4) [OF d] t] va table_role_other [OF not_sym [OF ne]] by auto
    ultimately show ?thesis using vspace_same [OF i(4) [OF d'], of "set_pte d va v s" ?F] by metis
  qed
  then show "pde_of (set_pte d va v s) d' va' = pde_of s d' va'"
    "PDX va' \<noteq> PDX UVPT \<Longrightarrow> pte_of (set_pte d va v s) d' va' =
      (if d' = d \<and> PGNUM va' = PGNUM va then v else pte_of s d' va')"
    using pde_set_pte [OF w t] pte_set_pte [OF w t] by (cases "d' = d"; simp)+
qed

lemma mapped_set_pte:
  assumes "mem_inv s D xs role" "d \<in> D" "va < UTOP" "has_table s d va"
  shows "mapped (set_pte d va v s) D f =
    (if v AND PTE_P \<noteq> 0 \<and> frame v = f then insert (d, page_of va) (mapped s D f)
     else mapped s D f - {(d, page_of va)})"
  using page_of_facts(1-3) [of va] page_of_facts(4) [of _ va] set_pte_spaces(2) [OF assms] below_UTOP assms(2,3)
  by (auto simp: mapped_def split: if_splits)

lemma mem_inv_set_pte:
  assumes inv: "mem_inv s D xs role" and d: "d \<in> D" and va: "va < UTOP" and t: "has_table s d va"
    and v: "v AND PTE_P = 0 \<or> frame v < unat (npages s) \<and> role (frame v) = Data \<and> spare s D (frame v)"
  shows "mem_inv (set_pte d va v s) D xs role"
proof -
  let ?t = "set_pte d va v s"
  note i = mem_invD [OF inv] and sp = set_pte_spaces [OF inv d va t]
  have "frames_ok ?t d' role" if d': "d' \<in> D" for d'
    using i(4) [OF d'] sp [OF d'] below_UTOP v unfolding frames_ok_def has_table_def by auto
  moreover have "card (mapped ?t D f) \<le> unat (pp_ref (pages ?t f))" if "role f = Data" for f
  proof (cases "v AND PTE_P \<noteq> 0 \<and> frame v = f")
    case True
    then have "spare s D f" using v by auto
    then show ?thesis
      using True card_insert_le_m1 [of "unat (pp_ref (pages s f))" "mapped s D f" "(d, page_of va)"]
      by (simp add: mapped_set_pte [OF inv d va t] spare_def)
  next
    case False
    have "card (mapped s D f - {(d, page_of va)}) \<le> card (mapped s D f)" by (rule card_Diff1_le)
    with False i(5) [OF that] show ?thesis by (auto simp: mapped_set_pte [OF inv d va t])
  qed
  moreover have "free_list ?t xs" using i(2) by (simp add: free_list_def)
  ultimately show ?thesis using i by (simp add: mem_inv_def)
qed

text \<open>Giving back a page that is not mapped.\<close>

lemma mem_inv_put_free:
  assumes inv: "mem_inv s D xs role" and f: "role f = Data" "f < unat (npages s)" and none: "mapped s D f = {}"
  shows "mem_inv (put_free_page f s) D (f # xs) (role(f := Free))"
proof -
  let ?t = "put_free_page f s"
  note i = mem_invD [OF inv]
  have t: "pmem ?t = pmem s" "npages ?t = npages s" by (simp_all add: put_free_page_def)
  note same = vspace_cong [OF t(1)]
  have "f \<notin> set xs" using i(3) f(1) by force
  then have "free_list ?t (f # xs)" using i(2) f(2) by (simp add: put_free_page_free_list)
  moreover have "frames_ok ?t d (role(f := Free))" if "d \<in> D" for d
  proof -
    have "frame (pte_of s d va) \<noteq> f" if "va < UTOP" "pte_of s d va AND PTE_P \<noteq> 0" for va
    proof
      assume "frame (pte_of s d va) = f"
      then have "(d, page_of va) \<in> mapped s D f"
        using that \<open>d \<in> D\<close> page_of_facts(1-3) [of va] pte_page_cong [of "page_of va" va s d] by (simp add: mapped_def)
      with none show False by simp
    qed
    moreover have "frame (d - KERNBASE) \<noteq> f" "has_table s d va \<Longrightarrow> frame (pde_of s d va) \<noteq> f" for va
      using frames_okD(3,5) [OF i(4) [OF that]] f(1) by force+
    ultimately show ?thesis using i(4) [OF that] t(2) by (auto simp: frames_ok_def same)
  qed
  moreover have "mem_ok ?t" using i(1) t(2) by (simp add: mem_ok_def)
  moreover have "mapped ?t D g = mapped s D g" for g by (simp add: mapped_def same)
  moreover have "pp_ref (pages ?t g) = pp_ref (pages s g)" for g by (simp add: put_free_page_def)
  ultimately show ?thesis using i by (auto simp: mem_inv_def)
qed

text \<open>Dropping a reference that is spare.\<close>

lemma mem_inv_decref:
  assumes inv: "mem_inv s D xs role" and f: "role f = Data" "f < unat (npages s)" and sp: "spare s D f"
  shows "\<exists>ys r. mem_inv (decref_state f s) D ys r \<and> (\<forall>g. g \<noteq> f \<longrightarrow> r g = role g) \<and>
    (pp_ref (pages s f) \<noteq> 1 \<longrightarrow> r f = Data) \<and> set xs \<subseteq> set ys \<and>
    (\<forall>g \<in> set ys. g \<in> set xs \<or> pp_ref (pages (decref_state f s) g) = 0)"
proof -
  let ?u = "upd_page f (\<lambda>p. p\<lparr>pp_ref := pp_ref p - 1\<rparr>) s"
  note i = mem_invD [OF inv]
  have u: "pmem ?u = pmem s" "npages ?u = npages s" by simp_all
  note same = vspace_cong [OF u(1)]
  have m: "mapped ?u D g = mapped s D g" for g by (simp add: mapped_def same)
  have "free_list ?u xs" using i(2) by (simp add: free_list_def) (rule iffD1 [OF chain_cong]; auto)
  moreover have "frames_ok ?u d role" if "d \<in> D" for d using i(4) [OF that] by (simp add: frames_ok_def same)
  moreover have "card (mapped ?u D g) \<le> unat (pp_ref (pages ?u g))" if "role g = Data" for g
  proof -
    have "pp_ref (pages s f) \<noteq> 0" using sp by (auto simp: spare_def)
    with sp i(5) [OF that] show ?thesis by (auto simp: m spare_def unat_dec_u16)
  qed
  ultimately have iu: "mem_inv ?u D xs role" using i by (simp add: mem_inv_def mem_ok_def)
  show ?thesis
  proof (cases "pp_ref (pages s f) = 1")
    case True
    then have "mapped ?u D f = {}" using sp by (simp add: spare_def m)
    then have "mem_inv (put_free_page f ?u) D (f # xs) (role(f := Free))"
      using mem_inv_put_free [OF iu f(1)] f(2) by simp
    moreover have "decref_state f s = put_free_page f ?u" using True by (simp add: decref_state_def)
    ultimately show ?thesis using True by (intro exI [of _ "f # xs"] exI [of _ "role(f := Free)"]) (auto simp: put_free_page_def)
  next
    case False
    then have "decref_state f s = ?u" by (simp add: decref_state_def Let_def)
    with iu f(1) show ?thesis by (intro exI [of _ xs] exI [of _ role]) simp
  qed
qed

lemma set_pte_decref: "set_pte d va v (decref_state f s) = decref_state f (set_pte d va v s)"
  by (simp add: set_pte_def decref_state_def put_free_page_def upd_page_def pde_of_def Let_def)

lemma mem_inv_tlb: "mem_inv (tlb_state d va s) D xs role = mem_inv s D xs role"
  by (rule mem_inv_depends) simp_all

text \<open>Removing a mapping: the page loses a reference, and is freed when that was the last one.\<close>

lemma mem_inv_remove:
  assumes inv: "mem_inv s D xs role" and d: "d \<in> D" and va: "va < UTOP"
    and p: "pte_of s d va AND PTE_P \<noteq> 0"
  defines "t \<equiv> remove_state d va s" and "f \<equiv> frame (pte_of s d va)"
  shows "\<exists>ys r. mem_inv t D ys r \<and> (\<forall>g. g \<noteq> f \<longrightarrow> r g = role g) \<and>
      (pp_ref (pages s f) \<noteq> 1 \<longrightarrow> r f = Data) \<and> set xs \<subseteq> set ys \<and>
      (\<forall>g \<in> set ys. g \<in> set xs \<or> pp_ref (pages t g) = 0)"
    and "\<And>g. spare s D g \<Longrightarrow> spare t D g"
    and "\<And>d' va'. d' \<in> D \<Longrightarrow> pde_of t d' va' = pde_of s d' va' \<and> (PDX va' \<noteq> PDX UVPT \<longrightarrow>
      pte_of t d' va' = (if d' = d \<and> PGNUM va' = PGNUM va then 0 else pte_of s d' va'))"
    and "npages t = npages s" and "same_except s t {frame (pde_of s d va)}"
proof -
  have tab: "has_table s d va" using p pte_of_no_table [OF below_UTOP [OF va], of s d] by fastforce
  let ?u = "set_pte d va 0 s"
  note sp = set_pte_spaces [OF inv d va tab] and f = frames_okD [OF mem_invD(4) [OF inv d]]
  have fd: "role f = Data" "f < unat (npages s)" using f(6,7) [OF va p] by (simp_all add: f_def)
  have mem: "(d, page_of va) \<in> mapped s D f"
    using p d va page_of_facts(1-3) [of va] pte_page_cong [of "page_of va" va s d] by (simp add: mapped_def f_def)
  have mu: "mapped ?u D g = mapped s D g - {(d, page_of va)}" for g
    using mapped_set_pte [OF inv d va tab, of 0 g] by simp
  have pos: "0 < card (mapped s D f)" using mem by (auto simp: card_gt_0_iff)
  have c: "card (mapped ?u D f) = card (mapped s D f) - 1" using mem by (simp add: mu)
  have "spare ?u D f" using c pos mem_invD(5) [OF inv fd(1)] unfolding spare_def set_pte_fields by linarith
  then obtain ys r where r: "mem_inv (decref_state f ?u) D ys r" "\<forall>g. g \<noteq> f \<longrightarrow> r g = role g"
      "pp_ref (pages s f) \<noteq> 1 \<longrightarrow> r f = Data" "set xs \<subseteq> set ys"
      "\<forall>g \<in> set ys. g \<in> set xs \<or> pp_ref (pages (decref_state f ?u) g) = 0"
    using mem_inv_decref [OF mem_inv_set_pte [OF inv d va tab, of 0] fd(1), of] fd(2) by auto
  have t: "t = tlb_state d va (decref_state f ?u)"
    by (simp add: t_def f_def remove_state_def set_pte_decref)
  have pt: "pages t = pages (decref_state f ?u)" by (simp add: t)
  show "\<exists>ys r. mem_inv t D ys r \<and> (\<forall>g. g \<noteq> f \<longrightarrow> r g = role g) \<and>
      (pp_ref (pages s f) \<noteq> 1 \<longrightarrow> r f = Data) \<and> set xs \<subseteq> set ys \<and>
      (\<forall>g \<in> set ys. g \<in> set xs \<or> pp_ref (pages t g) = 0)"
    using r unfolding pt unfolding t mem_inv_tlb by blast
  have pm: "pmem t = pmem ?u" by (simp add: t)
  have mt: "mapped t D g = mapped ?u D g" for g by (simp add: mapped_def vspace_cong [OF pm])
  show "spare t D g" if "spare s D g" for g
  proof (cases "g = f")
    case True
    have nz: "pp_ref (pages s f) \<noteq> 0" using that True by (auto simp: spare_def)
    have "card (mapped s D f) - 1 < unat (pp_ref (pages s f)) - 1" using that pos unfolding spare_def True by linarith
    with nz True c show ?thesis unfolding spare_def mt by (simp add: t unat_dec_u16)
  next
    case False
    have "card (mapped s D g - {(d, page_of va)}) \<le> card (mapped s D g)" by (rule card_Diff1_le)
    with that False show ?thesis unfolding spare_def mt by (simp add: mu t)
  qed
  show "pde_of t d' va' = pde_of s d' va' \<and> (PDX va' \<noteq> PDX UVPT \<longrightarrow>
      pte_of t d' va' = (if d' = d \<and> PGNUM va' = PGNUM va then 0 else pte_of s d' va'))"
    if "d' \<in> D" for d' va'
    using sp [OF that] by (simp add: vspace_cong [OF pm])
  show "npages t = npages s" by (simp add: t)
  show "same_except s t {frame (pde_of s d va)}" using set_pte_same [of s d va 0] pm by (simp add: same_except_def)
qed

subsection \<open>Inserting a page\<close>

text \<open>What \<open>page_insert\<close> does to all the address spaces: one entry of one of them changes, the
  free list loses at most the page of a table, data pages keep their contents, and only the page
  itself gains a reference.\<close>

definition free_counts :: "kstate \<Rightarrow> nat list \<Rightarrow> kstate \<Rightarrow> nat list \<Rightarrow> bool" where
  "free_counts s xs t ys \<longleftrightarrow>
     (\<forall>g \<in> set ys. g \<in> set xs \<and> pp_ref (pages t g) = pp_ref (pages s g) \<or> pp_ref (pages t g) = 0)"

lemma free_counts_trans: "free_counts s xs t ys \<Longrightarrow> free_counts t ys u zs \<Longrightarrow> free_counts s xs u zs"
  unfolding free_counts_def by metis

definition user_table :: "u32 \<Rightarrow> bool" where
  "user_table e \<longleftrightarrow> e AND PTE_U \<noteq> 0 \<and> e AND PTE_W \<noteq> 0"

definition inserted ::
  "kstate \<Rightarrow> u32 set \<Rightarrow> nat list \<Rightarrow> (nat \<Rightarrow> role) \<Rightarrow> u32 \<Rightarrow> nat \<Rightarrow> u32 \<Rightarrow> u32 \<Rightarrow> kstate \<Rightarrow> nat list \<Rightarrow> (nat \<Rightarrow> role) \<Rightarrow> bool" where
  "inserted s D xs role d pp va perm t ys r \<longleftrightarrow>
     mem_inv t D ys r \<and> npages t = npages s \<and> r pp = Data \<and> free_counts s xs t ys \<and>
     (\<forall>a. role (frame a) = Data \<longrightarrow> pmem t a = pmem s a) \<and> has_table t d va \<and>
     (\<forall>va'. pde_of t d va' = (if PDX va' = PDX va then pde_of t d va else pde_of s d va')) \<and>
     (if has_table s d va then pde_of t d va = pde_of s d va else user_table (pde_of t d va)) \<and>
     length xs \<le> length ys + (if has_table s d va then 0 else 1) \<and>
     (\<forall>d' va'. d' \<in> D \<longrightarrow> va' < UTOP \<longrightarrow> pte_of t d' va' =
        (if d' = d \<and> PGNUM va' = PGNUM va then page2pa pp OR perm OR PTE_P else pte_of s d' va')) \<and>
     (\<forall>d' va'. d' \<in> D \<longrightarrow> d' \<noteq> d \<longrightarrow> pde_of t d' va' = pde_of s d' va') \<and>
     (\<forall>g. role g = Data \<longrightarrow> unat (pp_ref (pages t g)) \<le> unat (pp_ref (pages s g)) +
        (if g = pp \<and> (pte_of s d va AND PTE_P = 0 \<or> frame (pte_of s d va) \<noteq> pp) then 1 else 0)) \<and>
     (pte_of s d va AND PTE_P = 0 \<longrightarrow> (\<forall>g. role g = Data \<longrightarrow> r g = Data))"

lemma frame_entry: "pp < 65536 \<Longrightarrow> perm < 4096 \<Longrightarrow> frame (page2pa pp OR perm OR PTE_P) = pp"
proof -
  assume pp: "pp < 65536" and perm: "perm < 4096"
  have "perm OR PTE_P < 4096" using perm by (intro or_less_4096) (simp_all add: layout)
  then have "PTE_ADDR (page2pa pp OR (perm OR PTE_P)) = page2pa pp" by (intro PTE_ADDR_or) simp_all
  then have "frame (page2pa pp OR perm OR PTE_P) = frame (page2pa pp)"
    by (metis frame_PTE_ADDR or.assoc)
  then show ?thesis using pp by (simp add: frame_def unat_page2pa)
qed

lemma length_le_subset: "distinct xs \<Longrightarrow> set xs \<subseteq> set ys \<Longrightarrow> length xs \<le> length ys"
  by (metis card_length card_mono distinct_card finite_set order_trans)

text \<open>The state in which \<open>page_insert\<close> writes the entry: the new page has its reference, and what was
  mapped at the address is gone.\<close>

definition emptied ::
  "kstate \<Rightarrow> u32 set \<Rightarrow> nat list \<Rightarrow> (nat \<Rightarrow> role) \<Rightarrow> u32 \<Rightarrow> nat \<Rightarrow> u32 \<Rightarrow> kstate \<Rightarrow> nat list \<Rightarrow> (nat \<Rightarrow> role) \<Rightarrow> bool" where
  "emptied s D xs role d pp va u ys r \<longleftrightarrow>
     mem_inv u D ys r \<and> length xs \<le> length ys \<and> r pp = Data \<and> spare u D pp \<and> free_counts s xs u ys \<and>
     npages u = npages s \<and> same_except s u {frame (pde_of s d va)} \<and>
     (\<forall>d' va'. d' \<in> D \<longrightarrow> pde_of u d' va' = pde_of s d' va') \<and>
     (\<forall>d' va'. d' \<in> D \<longrightarrow> PDX va' \<noteq> PDX UVPT \<longrightarrow>
        d' = d \<and> PGNUM va' = PGNUM va \<or> pte_of u d' va' = pte_of s d' va') \<and>
     (\<forall>g. role g = Data \<longrightarrow> unat (pp_ref (pages u g)) \<le> unat (pp_ref (pages s g)) +
        (if g = pp \<and> (pte_of s d va AND PTE_P = 0 \<or> frame (pte_of s d va) \<noteq> pp) then 1 else 0)) \<and>
     (pte_of s d va AND PTE_P = 0 \<longrightarrow> r = role)"

lemma emptied_page:
  assumes inv: "mem_inv s D xs role" and d: "d \<in> D" and va: "va < UTOP"
    and pp: "role pp = Data" and r: "pp_ref (pages s pp) \<noteq> - 1"
  defines "i \<equiv> upd_page pp (\<lambda>p. p\<lparr>pp_ref := pp_ref p + 1\<rparr>) s"
  shows "\<exists>ys r. emptied s D xs role d pp va (if pte_of s d va AND PTE_P \<noteq> 0 then remove_state d va i else i) ys r"
proof -
  note ii = mem_inv_incref [OF inv r, folded i_def]
  note vi = vspace_cong [OF ii(3)]
  have ri: "unat (pp_ref (pages i g)) = unat (pp_ref (pages s g)) + (if g = pp then 1 else 0)" for g
    using unat_inc_u16 [OF r] by (simp add: i_def)
  have si: "spare i D pp" using ii(2) pp .
  let ?old = "frame (pte_of s d va)"
  show ?thesis
  proof (cases "pte_of s d va AND PTE_P = 0")
    case True
    have "g \<noteq> pp" if "g \<in> set xs" for g using mem_invD(3) [OF inv that] pp by auto
    then have same: "free_counts s xs i xs" by (simp add: free_counts_def i_def)
    have "emptied s D xs role d pp va i xs role"
      using ii(1,4) si pp ri same by (simp add: True emptied_def vi same_except_refl [OF ii(3)])
    with True show ?thesis by auto
  next
    case False
    have pi: "pte_of i d va AND PTE_P \<noteq> 0" using False by (simp add: vi)
    note rm = mem_inv_remove [OF ii(1) d va pi, unfolded vi]
    obtain ys r where yr: "mem_inv (remove_state d va i) D ys r" "\<forall>g. g \<noteq> ?old \<longrightarrow> r g = role g"
        "pp_ref (pages i ?old) \<noteq> 1 \<longrightarrow> r ?old = Data" "set xs \<subseteq> set ys"
        "\<forall>g \<in> set ys. g \<in> set xs \<or> pp_ref (pages (remove_state d va i) g) = 0"
      using rm(1) by blast
    have mem: "(d, page_of va) \<in> mapped s D ?old"
      using False d va page_of_facts(1-3) [of va] pte_page_cong [of "page_of va" va s d] by (simp add: mapped_def)
    then have "0 < card (mapped s D ?old)" by (auto simp: card_gt_0_iff)
    moreover have old: "role ?old = Data" using frames_okD(7) [OF mem_invD(4) [OF inv d] va False] .
    ultimately have pos: "0 < unat (pp_ref (pages s ?old))" using mem_invD(5) [OF inv old] by linarith
    have "pp_ref (pages i pp) \<noteq> 1" if "?old = pp"
      using ri [of pp] pos that by auto
    then have rpp: "r pp = Data" using yr(2,3) pp by metis
    have len: "length xs \<le> length ys"
      using yr(4) free_list_distinct [OF mem_invD(2) [OF inv]] by (intro length_le_subset)
    have refs: "unat (pp_ref (pages (remove_state d va i) g)) \<le> unat (pp_ref (pages s g)) +
        (if g = pp \<and> (pte_of s d va AND PTE_P = 0 \<or> ?old \<noteq> pp) then 1 else 0)" for g
    proof -
      have "pp_ref (pages (remove_state d va i) g) = (if g = ?old then pp_ref (pages i g) - 1 else pp_ref (pages i g))"
        by (simp add: remove_state_def vi)
      moreover have "pp_ref (pages i ?old) \<noteq> 0" using ri [of ?old] pos by (auto simp: unat_eq_0 [symmetric])
      ultimately show ?thesis using ri [of g] pos by (auto simp: unat_dec_u16)
    qed
    have "pp_ref (pages (remove_state d va i) g) = pp_ref (pages s g)" if "g \<in> set xs" for g
    proof -
      have "g \<noteq> pp" "g \<noteq> ?old" using mem_invD(3) [OF inv that] pp old by auto
      then show ?thesis by (simp add: remove_state_def vi) (simp add: i_def)
    qed
    then have fc: "free_counts s xs (remove_state d va i) ys" using yr(5) by (auto simp: free_counts_def)
    have same: "same_except s (remove_state d va i) {frame (pde_of s d va)}"
      using rm(5) ii(3) by (simp add: same_except_def)
    have "emptied s D xs role d pp va (remove_state d va i) ys r"
      unfolding emptied_def using yr(1) rm(2) [OF si] rm(3,4) ii(4) rpp len same refs fc False by auto
    with False show ?thesis by auto
  qed
qed

lemma user_entry: "user_table (x OR PTE_P OR PTE_U OR PTE_W)"
proof -
  have "bit ((x OR PTE_P OR PTE_U OR PTE_W) AND PTE_U) 2" "bit ((x OR PTE_P OR PTE_U OR PTE_W) AND PTE_W) 1"
    by (simp_all add: bit_simps layout)
  then show ?thesis unfolding user_table_def using bit_0_eq by force
qed

lemma insertedD:
  assumes "inserted s D xs role d pp va perm t ys r"
  shows "mem_inv t D ys r" "npages t = npages s" "r pp = Data" "has_table t d va"
    "\<And>a. role (frame a) = Data \<Longrightarrow> pmem t a = pmem s a"
    "\<And>va'. pde_of t d va' = (if PDX va' = PDX va then pde_of t d va else pde_of s d va')"
    "has_table s d va \<Longrightarrow> pde_of t d va = pde_of s d va"
    "\<not> has_table s d va \<Longrightarrow> user_table (pde_of t d va)"
    "length xs \<le> length ys + (if has_table s d va then 0 else 1)"
    "\<And>d' va'. d' \<in> D \<Longrightarrow> va' < UTOP \<Longrightarrow> pte_of t d' va' =
      (if d' = d \<and> PGNUM va' = PGNUM va then page2pa pp OR perm OR PTE_P else pte_of s d' va')"
    "\<And>d' va'. d' \<in> D \<Longrightarrow> d' \<noteq> d \<Longrightarrow> pde_of t d' va' = pde_of s d' va'"
    "\<And>g. role g = Data \<Longrightarrow> unat (pp_ref (pages t g)) \<le> unat (pp_ref (pages s g)) +
      (if g = pp \<and> (pte_of s d va AND PTE_P = 0 \<or> frame (pte_of s d va) \<noteq> pp) then 1 else 0)"
    "free_counts s xs t ys" "\<And>g. pte_of s d va AND PTE_P = 0 \<Longrightarrow> role g = Data \<Longrightarrow> r g = Data"
proof -
  from assms show "mem_inv t D ys r" "npages t = npages s" "r pp = Data" "has_table t d va" "free_counts s xs t ys"
    "length xs \<le> length ys + (if has_table s d va then 0 else 1)"
    unfolding inserted_def by - (elim conjE, assumption)+
  from assms have
    "\<forall>a. role (frame a) = Data \<longrightarrow> pmem t a = pmem s a"
    "\<forall>va'. pde_of t d va' = (if PDX va' = PDX va then pde_of t d va else pde_of s d va')"
    "if has_table s d va then pde_of t d va = pde_of s d va else user_table (pde_of t d va)"
    "\<forall>d' va'. d' \<in> D \<longrightarrow> va' < UTOP \<longrightarrow> pte_of t d' va' =
      (if d' = d \<and> PGNUM va' = PGNUM va then page2pa pp OR perm OR PTE_P else pte_of s d' va')"
    "\<forall>d' va'. d' \<in> D \<longrightarrow> d' \<noteq> d \<longrightarrow> pde_of t d' va' = pde_of s d' va'"
    "\<forall>g. role g = Data \<longrightarrow> unat (pp_ref (pages t g)) \<le> unat (pp_ref (pages s g)) +
      (if g = pp \<and> (pte_of s d va AND PTE_P = 0 \<or> frame (pte_of s d va) \<noteq> pp) then 1 else 0)"
    "pte_of s d va AND PTE_P = 0 \<longrightarrow> (\<forall>g. role g = Data \<longrightarrow> r g = Data)"
    unfolding inserted_def by - (elim conjE, assumption)+
  note c = this
  show "\<And>g. pte_of s d va AND PTE_P = 0 \<Longrightarrow> role g = Data \<Longrightarrow> r g = Data" by (rule c(7) [rule_format])
  show "\<And>a. role (frame a) = Data \<Longrightarrow> pmem t a = pmem s a" by (rule c(1) [rule_format])
  show "\<And>va'. pde_of t d va' = (if PDX va' = PDX va then pde_of t d va else pde_of s d va')"
    by (rule c(2) [THEN spec])
  show "has_table s d va \<Longrightarrow> pde_of t d va = pde_of s d va"
    "\<not> has_table s d va \<Longrightarrow> user_table (pde_of t d va)" using c(3) by (simp_all only: if_True if_False not_False_eq_True)
  show "\<And>d' va'. d' \<in> D \<Longrightarrow> va' < UTOP \<Longrightarrow> pte_of t d' va' =
      (if d' = d \<and> PGNUM va' = PGNUM va then page2pa pp OR perm OR PTE_P else pte_of s d' va')"
    by (rule c(4) [THEN spec, THEN spec, THEN mp, THEN mp])
  show "\<And>d' va'. d' \<in> D \<Longrightarrow> d' \<noteq> d \<Longrightarrow> pde_of t d' va' = pde_of s d' va'"
    by (rule c(5) [THEN spec, THEN spec, THEN mp, THEN mp])
  show "\<And>g. role g = Data \<Longrightarrow> unat (pp_ref (pages t g)) \<le> unat (pp_ref (pages s g)) +
      (if g = pp \<and> (pte_of s d va AND PTE_P = 0 \<or> frame (pte_of s d va) \<noteq> pp) then 1 else 0)"
    by (rule c(6) [THEN spec, THEN mp])
qed

lemma emptiedD:
  assumes "emptied s D xs role d pp va u ys r"
  shows "mem_inv u D ys r" "npages u = npages s" "r pp = Data" "spare u D pp" "length xs \<le> length ys"
    "same_except s u {frame (pde_of s d va)}"
    "\<And>d' va'. d' \<in> D \<Longrightarrow> pde_of u d' va' = pde_of s d' va'"
    "\<And>d' va'. d' \<in> D \<Longrightarrow> PDX va' \<noteq> PDX UVPT \<Longrightarrow>
      d' = d \<and> PGNUM va' = PGNUM va \<or> pte_of u d' va' = pte_of s d' va'"
    "\<forall>g. role g = Data \<longrightarrow> unat (pp_ref (pages u g)) \<le> unat (pp_ref (pages s g)) +
        (if g = pp \<and> (pte_of s d va AND PTE_P = 0 \<or> frame (pte_of s d va) \<noteq> pp) then 1 else 0)"
    "free_counts s xs u ys" "pte_of s d va AND PTE_P = 0 \<longrightarrow> r = role"
proof -
  from assms show "free_counts s xs u ys" "pte_of s d va AND PTE_P = 0 \<longrightarrow> r = role" "mem_inv u D ys r" "npages u = npages s" "r pp = Data" "spare u D pp" "length xs \<le> length ys"
    "same_except s u {frame (pde_of s d va)}"
    "\<forall>g. role g = Data \<longrightarrow> unat (pp_ref (pages u g)) \<le> unat (pp_ref (pages s g)) +
        (if g = pp \<and> (pte_of s d va AND PTE_P = 0 \<or> frame (pte_of s d va) \<noteq> pp) then 1 else 0)"
    unfolding emptied_def by - (elim conjE, assumption)+
  from assms have "\<forall>d' va'. d' \<in> D \<longrightarrow> pde_of u d' va' = pde_of s d' va'"
    "\<forall>d' va'. d' \<in> D \<longrightarrow> PDX va' \<noteq> PDX UVPT \<longrightarrow>
        d' = d \<and> PGNUM va' = PGNUM va \<or> pte_of u d' va' = pte_of s d' va'"
    unfolding emptied_def by - (elim conjE, assumption)+
  note c = this
  show "\<And>d' va'. d' \<in> D \<Longrightarrow> pde_of u d' va' = pde_of s d' va'" by (rule c(1) [THEN spec, THEN spec, THEN mp])
  show "\<And>d' va'. d' \<in> D \<Longrightarrow> PDX va' \<noteq> PDX UVPT \<Longrightarrow>
      d' = d \<and> PGNUM va' = PGNUM va \<or> pte_of u d' va' = pte_of s d' va'"
    by (rule c(2) [THEN spec, THEN spec, THEN mp, THEN mp])
qed

lemma pde_PDX_cong: "PDX va' = PDX va \<Longrightarrow> pde_of s d va' = pde_of s d va"
  by (simp add: pde_of_def)

lemma insert_at_inserted:
  assumes inv: "mem_inv s D xs role" and d: "d \<in> D" and va: "va < UTOP" and tab: "has_table s d va"
    and pp: "role pp = Data" "pp < unat (npages s)" and perm: "frame (page2pa pp OR perm OR PTE_P) = pp" and r: "pp_ref (pages s pp) \<noteq> - 1"
  shows "\<exists>ys r. inserted s D xs role d pp va perm (insert_at d pp va perm s) ys r"
proof -
  let ?i = "upd_page pp (\<lambda>p. p\<lparr>pp_ref := pp_ref p + 1\<rparr>) s"
  define u where "u = (if pte_of s d va AND PTE_P \<noteq> 0 then remove_state d va ?i else ?i)"
  obtain ys r where e: "emptied s D xs role d pp va u ys r"
    using emptied_page [OF inv d va pp(1) r] unfolding u_def by blast
  note e = emptiedD [OF e]
  let ?v = "page2pa pp OR perm OR PTE_P"
  let ?t = "set_pte d va ?v u"
  have t: "insert_at d pp va perm s = ?t" by (simp add: insert_at_def Let_def u_def)
  note iu = e(1) and eu = e(2-4,6) and pu = e(7)
  have ut: "has_table u d va" using tab pu [OF d] by (simp add: has_table_def)
  have it: "mem_inv ?t D ys r"
    by (rule mem_inv_set_pte [OF iu d va ut]) (use perm eu pp(2) in auto)
  have pde: "pde_of ?t d' va' = pde_of s d' va'" if "d' \<in> D" for d' va'
    using set_pte_spaces(1) [OF iu d va ut that] pu [OF that] by simp
  have "frame a \<noteq> frame (pde_of s d va)" if "role (frame a) = Data" for a
    using frames_okD(5) [OF mem_invD(4) [OF inv d] tab] that by force
  then have "\<forall>a. role (frame a) = Data \<longrightarrow> pmem ?t a = pmem s a"
    using set_pte_same [of u d va ?v] eu(4) pu [OF d] by (simp add: same_except_def)
  moreover have "has_table ?t d va" using tab pde [OF d] by (simp add: has_table_def)
  moreover have "\<forall>va'. pde_of ?t d va' = (if PDX va' = PDX va then pde_of ?t d va else pde_of s d va')"
    using pde [OF d] pde_PDX_cong [of _ va s d] by (metis (full_types))
  moreover have "\<forall>d' va'. d' \<in> D \<longrightarrow> va' < UTOP \<longrightarrow>
      pte_of ?t d' va' = (if d' = d \<and> PGNUM va' = PGNUM va then ?v else pte_of s d' va')"
  proof (intro allI impI)
    fix d' va' assume v: "d' \<in> D" "va' < UTOP"
    have "d' = d \<and> PGNUM va' = PGNUM va \<or> pte_of u d' va' = pte_of s d' va'"
      by (rule e(8) [OF v(1) below_UTOP [OF v(2)]])
    then show "pte_of ?t d' va' = (if d' = d \<and> PGNUM va' = PGNUM va then ?v else pte_of s d' va')"
      using set_pte_spaces(2) [OF iu d va ut v(1) below_UTOP [OF v(2)]] by auto
  qed
  moreover have "\<forall>d' va'. d' \<in> D \<longrightarrow> d' \<noteq> d \<longrightarrow> pde_of ?t d' va' = pde_of s d' va'" using pde by blast
  moreover have "\<forall>g. role g = Data \<longrightarrow> unat (pp_ref (pages ?t g)) \<le> unat (pp_ref (pages s g)) +
      (if g = pp \<and> (pte_of s d va AND PTE_P = 0 \<or> frame (pte_of s d va) \<noteq> pp) then 1 else 0)"
    using e(9) unfolding set_pte_fields .
  moreover have "length xs \<le> length ys + (if has_table s d va then 0 else 1)"
    using e(5) tab by simp
  moreover have "if has_table s d va then pde_of ?t d va = pde_of s d va else user_table (pde_of ?t d va)"
    using tab pde [OF d] by simp
  moreover have "npages ?t = npages s" using eu(1) by simp
  moreover have "free_counts s xs ?t ys" using e(10) by (simp add: free_counts_def)
  moreover have "pte_of s d va AND PTE_P = 0 \<longrightarrow> (\<forall>g. role g = Data \<longrightarrow> r g = Data)" using e(11) by auto
  ultimately have "inserted s D xs role d pp va perm ?t ys r"
    unfolding inserted_def using it eu(2) by (intro conjI)
  then show ?thesis unfolding t by blast
qed

lemma inserted_before:
  assumes "inserted w D zs role' d pp va perm t ys r" "npages w = npages s" "d \<in> D" "va < UTOP"
    and "\<And>d' va'. d' \<in> D \<Longrightarrow> va' < UTOP \<Longrightarrow> pte_of w d' va' = pte_of s d' va'"
    and "\<And>d' va'. d' \<in> D \<Longrightarrow> d' \<noteq> d \<Longrightarrow> pde_of w d' va' = pde_of s d' va'"
    and "\<And>g. role g = Data \<Longrightarrow> role' g = Data \<and> pages w g = pages s g"
    and "\<not> has_table s d va" "has_table w d va"
    and "\<And>a. role (frame a) = Data \<Longrightarrow> pmem w a = pmem s a"
    and "\<And>va'. PDX va' \<noteq> PDX va \<Longrightarrow> pde_of w d va' = pde_of s d va'" "user_table (pde_of w d va)"
    and "\<And>g. g \<in> set zs \<Longrightarrow> pages w g = pages s g"
  shows "inserted s D (q # zs) role d pp va perm t ys r"
proof -
  have "\<forall>g. role g = Data \<longrightarrow> unat (pp_ref (pages t g)) \<le> unat (pp_ref (pages s g)) +
        (if g = pp \<and> (pte_of s d va AND PTE_P = 0 \<or> frame (pte_of s d va) \<noteq> pp) then 1 else 0)"
    using insertedD(12) [OF assms(1)] assms(5) [OF assms(3,4)] assms(7) by fastforce
  moreover have "\<forall>va'. pde_of t d va' = (if PDX va' = PDX va then pde_of t d va else pde_of s d va')"
  proof
    fix va'
    show "pde_of t d va' = (if PDX va' = PDX va then pde_of t d va else pde_of s d va')"
      using insertedD(6) [OF assms(1), of va'] assms(11) [of va'] by (cases "PDX va' = PDX va") (simp_all only: if_True if_False refl not_False_eq_True)
  qed
  moreover have "user_table (pde_of t d va)" using insertedD(7) [OF assms(1,9)] assms(12) by simp
  moreover have "\<forall>d' va'. d' \<in> D \<longrightarrow> va' < UTOP \<longrightarrow> pte_of t d' va' =
      (if d' = d \<and> PGNUM va' = PGNUM va then page2pa pp OR perm OR PTE_P else pte_of s d' va')"
    using insertedD(10) [OF assms(1)] assms(5) by simp
  moreover have "\<forall>d' va'. d' \<in> D \<longrightarrow> d' \<noteq> d \<longrightarrow> pde_of t d' va' = pde_of s d' va'"
    using insertedD(11) [OF assms(1)] assms(6) by simp
  moreover have "\<forall>a. role (frame a) = Data \<longrightarrow> pmem t a = pmem s a"
    using insertedD(5) [OF assms(1)] assms(7,10) by simp
  moreover have "npages t = npages s" "length (q # zs) \<le> length ys + (if has_table s d va then 0 else 1)"
    using insertedD(2,9) [OF assms(1)] assms(2,8,9) by simp_all
  moreover have "if has_table s d va then pde_of t d va = pde_of s d va else user_table (pde_of t d va)"
    using insertedD(7) [OF assms(1,9)] assms(8,12) by simp
  moreover have "free_counts s (q # zs) t ys"
    using insertedD(13) [OF assms(1)] assms(13) by (auto simp: free_counts_def)
  moreover have "pte_of s d va AND PTE_P = 0 \<longrightarrow> (\<forall>g. role g = Data \<longrightarrow> r g = Data)"
    using insertedD(14) [OF assms(1)] assms(5) [OF assms(3,4)] assms(7) by simp
  ultimately show ?thesis
    unfolding inserted_def using insertedD(1,3,4) [OF assms(1)] by (intro conjI)
qed

lemma page_insert_inserted:
  assumes inv: "mem_inv s D xs role" and d: "d \<in> D" and va: "va < UTOP"
    and pp: "role pp = Data" "pp < unat (npages s)" and perm: "frame (page2pa pp OR perm OR PTE_P) = pp" and r: "pp_ref (pages s pp) \<noteq> - 1"
  shows "if has_table s d va \<or> xs \<noteq> []
    then \<exists>t ys r. page_insert d pp va perm s = Ret 0 t \<and> inserted s D xs role d pp va perm t ys r
    else page_insert d pp va perm s = Ret (- E_NO_MEM) s"
proof -
  note v = mem_inv_vm_ok [OF inv d] and va' = below_UTOP [OF va]
  have m: "mem_ok s" "wf_pgdir s d" using v by (auto simp: vm_ok_def)
  show ?thesis
  proof (cases "has_table s d va")
    case True
    have "page_insert d pp va perm s = Ret 0 (insert_at d pp va perm s)"
      by (rule page_insert_at [OF pgdir_walk_present [OF m True] m True])
        (rule frames_okD(6) [OF mem_invD(4) [OF inv d] va])
    with True insert_at_inserted [OF inv d va True pp perm r] show ?thesis by auto
  next
    case no: False
    have absent: "pde_of s d va AND PTE_P = 0" using no va' by (simp add: has_table_def)
    show ?thesis
    proof (cases xs)
      case Nil
      then have "page_free_list s = None" using v by (cases "page_free_list s") (auto simp: vm_ok_def free_list_def)
      then show ?thesis
        using no Nil m absent by (simp add: page_insert_def kbind_Ret pgdir_walk_no_memory kret_def)
    next
      case (Cons q zs)
      note iv = inv [unfolded Cons]
      let ?w = "walk_state d va q s" and ?r = "role(q := Table d (PDX va))"
      note w = mem_inv_walk [OF iv d va absent] and vq = v [unfolded Cons]
      have slot: "slot_of ?w d va = page2pa q + 4 * PTX va + KERNBASE"
        by (simp add: slot_of_def pde_walk_state [OF vq] PTE_ADDR_table)
      have wv: "mem_ok ?w" "wf_pgdir ?w d" using mem_inv_vm_ok [OF w(1) d] by (auto simp: vm_ok_def)
      have tab: "has_table ?w d va" using va' by (simp add: has_table_walk_state [OF vq])
      have walk: "pgdir_walk d va True s = Ret (slot_of ?w d va) ?w"
        unfolding slot by (rule pgdir_walk_alloc [OF vq absent])
      have ins: "page_insert d pp va perm s = Ret 0 (insert_at d pp va perm ?w)"
        by (rule page_insert_at [OF walk wv tab]) (rule frames_okD(6) [OF mem_invD(4) [OF w(1) d] va])
      have q: "role q = Free" using mem_invD(3) [OF iv] by simp
      then have ppq: "pp \<noteq> q" using pp(1) by auto
      have "pp_ref (pages ?w pp) \<noteq> - 1" using r ppq by simp
      then obtain ys r where "inserted ?w D zs ?r d pp va perm (insert_at d pp va perm ?w) ys r"
        using insert_at_inserted [OF w(1) d va tab _ _ perm] pp ppq by auto
      moreover have "?r g = Data \<and> pages ?w g = pages s g" if "role g = Data" for g using that q by auto
      moreover have "pmem ?w a = pmem s a" if "role (frame a) = Data" for a
        using w(4) that q frames_okD(3) [OF mem_invD(4) [OF iv d]] by (force simp: same_except_def)
      moreover have "pde_of ?w d va' = pde_of s d va'" if "PDX va' \<noteq> PDX va" for va'
        using that pde_walk_state [OF vq] by simp
      moreover have "pages ?w g = pages s g" if "g \<in> set zs" for g
        using that free_list_distinct [OF mem_invD(2) [OF iv]] by auto
      moreover have "user_table (pde_of ?w d va)"
        unfolding pde_walk_state [OF vq] by (simp add: user_entry)
      ultimately have "inserted s D xs role d pp va perm (insert_at d pp va perm ?w) ys r"
        unfolding Cons by (intro inserted_before [where w = ?w and s = s and role = role and role' = ?r])
          (use w(2,3) no tab d va in simp_all)
      with ins Cons show ?thesis by auto
    qed
  qed
qed

end
