(* ===== verification/Isolation_Spec.thy ===== *)
theory Isolation_Spec
  imports Isolation
begin

text \<open>
  The system calls keep memory isolated.  Together with the meaning of the invariant for an
  access in user mode this is the safety of the memory of the kernel: no environment can reach
  a page table, a page directory or a free page, provided that permissions stay within the
  flags and that no reference count wraps around.
\<close>

subsection \<open>The system calls on memory\<close>

definition live :: "kstate \<Rightarrow> nat \<Rightarrow> bool" where
  "live s e \<longleftrightarrow> e < NENV \<and> env_status (envs s e) \<noteq> ENV_FREE"

text \<open>The address spaces of the environments that are alive, and with that of the kernel, which
  maps nothing below \<open>UTOP\<close>.\<close>

definition user_spaces :: "kstate \<Rightarrow> u32 set" where
  "user_spaces s = (\<lambda>e. env_pgdir (envs s e)) ` {e. live s e}"

abbreviation (input) spaces :: "kstate \<Rightarrow> u32 set" where
  "spaces s \<equiv> insert (kern_pgdir s) (user_spaces s)"

definition kernel_clean :: "kstate \<Rightarrow> bool" where
  "kernel_clean s \<longleftrightarrow> kern_pgdir s \<notin> user_spaces s \<and>
     (\<forall>va. va < UTOP \<longrightarrow> pde_of s (kern_pgdir s) va AND PTE_P = 0)"

definition isolated :: "kstate \<Rightarrow> bool" where
  "isolated s \<longleftrightarrow> kernel_clean s \<and> (\<exists>xs role. mem_inv s (spaces s) xs role)"

text \<open>No reference count is about to wrap around its 16 bits.\<close>

definition counts_low :: "kstate \<Rightarrow> bool" where
  "counts_low s \<longleftrightarrow> (\<forall>f. unat (pp_ref (pages s f)) < 65534)"

lemma found_live: "found_env s c envid = Some e \<Longrightarrow> live s c \<Longrightarrow> live s e"
  by (auto simp: found_env_def live_def split: if_splits) (metis ENVX_less)+

lemma live_space: "live s e \<Longrightarrow> env_pgdir (envs s e) \<in> user_spaces s"
  by (auto simp: user_spaces_def)

text \<open>\<open>t\<close> has the environments of \<open>s\<close>, and the page directory of the kernel below \<open>UTOP\<close>.\<close>

definition same_kernel :: "kstate \<Rightarrow> kstate \<Rightarrow> bool" where
  "same_kernel s t \<longleftrightarrow> envs t = envs s \<and> curenv t = curenv s \<and> kern_pgdir t = kern_pgdir s \<and>
     (\<forall>va. va < UTOP \<longrightarrow> pde_of t (kern_pgdir s) va = pde_of s (kern_pgdir s) va)"

lemma same_kernel_facts:
  assumes "same_kernel s t"
  shows "user_spaces t = user_spaces s" "spaces t = spaces s" "kernel_clean t = kernel_clean s"
    "envs t = envs s" "curenv t = curenv s"
proof -
  show e: "envs t = envs s" "curenv t = curenv s" and u: "user_spaces t = user_spaces s"
    using assms by (simp_all add: same_kernel_def user_spaces_def live_def)
  show "spaces t = spaces s" "kernel_clean t = kernel_clean s"
    using assms u by (auto simp: same_kernel_def kernel_clean_def)
qed

lemma same_kernel_refl: "same_kernel s s"
  by (simp add: same_kernel_def)

lemma isolated_same_kernel:
  "isolated s \<Longrightarrow> same_kernel s t \<Longrightarrow> mem_inv t (spaces s) xs role \<Longrightarrow> isolated t"
  using same_kernel_facts [of s t] by (auto simp: isolated_def)

lemma page_insert_same_kernel:
  assumes "page_insert d pp va perm s = Ret 0 t" "inserted s (spaces s) xs role d pp va perm t ys r"
    and "d \<noteq> kern_pgdir s"
  shows "same_kernel s t"
proof -
  have "outside t = outside s"
    using keeps_Ret [OF keeps_page_insert [of s d pp va perm], of s 0 t] assms(1) by simp
  moreover have "pde_of t (kern_pgdir s) va = pde_of s (kern_pgdir s) va" if "va < UTOP" for va
    using insertedD(11) [OF assms(2)] assms(3) by auto
  ultimately show ?thesis by (simp add: same_kernel_def outside_def curenv_def)
qed

lemma space_not_kernel: "isolated s \<Longrightarrow> live s e \<Longrightarrow> env_pgdir (envs s e) \<noteq> kern_pgdir s"
  using live_space [of s e] unfolding isolated_def kernel_clean_def by metis

lemma counts_low_not_max: "counts_low s \<Longrightarrow> pp_ref (pages s f) \<noteq> - 1"
proof
  assume "counts_low s" "pp_ref (pages s f) = - 1"
  then have "unat (- 1 :: u16) < 65534" unfolding counts_low_def by metis
  then show False by (simp add: unat_max_u16)
qed

lemma page_alloc_inserted:
  assumes "mem_inv s (spaces s) (q # xs) role" "d \<in> spaces s" "va < UTOP" "perm < 4096" "counts_low s"
    and "d \<noteq> kern_pgdir s"
  shows "\<exists>t r ys role'. kbind (page_insert d q va perm) (\<lambda>ret.
      if ret \<noteq> 0 then kbind (page_free q) (\<lambda>_. kret ret) else kret 0) (taken_state q s) = Ret r t \<and>
    mem_inv t (spaces s) ys role' \<and> same_kernel s t"
proof -
  let ?u = "taken_state q s" and ?D = "spaces s"
  note u = mem_inv_taken [OF assms(1)]
  have q: "q < unat (npages s)" "q < 65536" using vm_ok_page_facts [OF mem_inv_vm_ok [OF assms(1,2)]] by auto
  have "unat (pp_ref (pages s q) + 1) = Suc (unat (pp_ref (pages s q)))"
    using unat_inc_u16 [OF counts_low_not_max [OF assms(5)]] .
  moreover have "unat (pp_ref (pages s q)) < 65534" using assms(5) by (simp add: counts_low_def)
  ultimately have r: "pp_ref (pages ?u q) \<noteq> - 1" by (auto simp: word_unat_eq_iff unat_max_u16)
  note ins = page_insert_inserted [OF u(1) assms(2,3) _ _ frame_entry [OF q(2) assms(4)] r]
  have ku: "kern_pgdir ?u = kern_pgdir s" by (simp add: taken_state_def)
  have us: "user_spaces ?u = user_spaces s" by (simp add: user_spaces_def live_def)
  have k: "kern_pgdir s \<in> ?D" by simp
  have su: "same_kernel s ?u"
    using pde_taken [OF mem_inv_vm_ok [OF assms(1) k]] ku by (simp add: same_kernel_def)
  show ?thesis
  proof (cases "has_table ?u d va \<or> xs \<noteq> []")
    case True
    then obtain t ys role' where t: "page_insert d q va perm ?u = Ret 0 t"
        "inserted ?u ?D xs (role(q := Data)) d q va perm t ys role'"
      using ins q by auto
    have "same_kernel ?u t"
      by (rule page_insert_same_kernel [OF t(1)]) (use t(2) assms(6) ku us in simp_all)
    then have "same_kernel s t" using su by (simp add: same_kernel_def)
    then show ?thesis using t by (auto simp: kbind_Ret kret_def inserted_def)
  next
    case False
    then have "page_insert d q va perm ?u = Ret (- E_NO_MEM) ?u" using ins q by auto
    moreover have "mapped ?u ?D q = mapped s ?D q" by (rule mapped_cong) (rule u(2))
    then have "mapped ?u ?D q = {}"
      using mapped_free [OF assms(1), of q] mem_invD(3) [OF assms(1), of q] by simp
    then have "mem_inv (put_free_page q ?u) ?D (q # xs) (role(q := Data, q := Free))"
      using mem_inv_put_free [OF u(1), of q] q by simp
    moreover have pm: "pmem (put_free_page q ?u) = pmem ?u" by (simp add: put_free_page_def)
    have "same_kernel ?u (put_free_page q ?u)"
      by (simp add: same_kernel_def vspace_cong [OF pm]) (simp add: put_free_page_def curenv_def taken_state_def)
    then have "same_kernel s (put_free_page q ?u)" using su by (simp add: same_kernel_def)
    ultimately show ?thesis by (auto simp: kbind_Ret kret_def page_free_Ret)
  qed
qed

text \<open>Each of the calls returns, and leaves the memory isolated.\<close>

definition keeps_isolated :: "kstate \<Rightarrow> u32 kernel \<Rightarrow> bool" where
  "keeps_isolated s f \<longleftrightarrow> (\<exists>r t. f s = Ret r t \<and> isolated t \<and> envs t = envs s \<and> curenv t = curenv s)"

lemma keeps_isolatedI: "f s = Ret r t \<Longrightarrow> mem_inv t (spaces s) xs role \<Longrightarrow> same_kernel s t \<Longrightarrow>
    isolated s \<Longrightarrow> keeps_isolated s f"
  unfolding keeps_isolated_def using isolated_same_kernel [of s t xs role] same_kernel_facts(4,5) by blast

lemma keeps_isolated_same: "f s = Ret r s \<Longrightarrow> isolated s \<Longrightarrow> keeps_isolated s f"
  by (simp add: keeps_isolated_def)

lemma isolated_page_alloc:
  assumes "isolated s" "curenv s = Some c" "live s c" "counts_low s" "perm < 4096"
  shows "keeps_isolated s (sys_page_alloc envid va perm)"
proof -
  obtain xs role where inv: "mem_inv s (spaces s) xs role" using assms(1) by (auto simp: isolated_def)
  note w = with_env_checked [OF assms(2)]
  show ?thesis
  proof (cases "found_env s c envid")
    case None
    then show ?thesis by (intro keeps_isolated_same [OF _ assms(1)]) (simp add: sys_page_alloc_def w)
  next
    case (Some e)
    have e: "env_pgdir (envs s e) \<in> spaces s" "env_pgdir (envs s e) \<noteq> kern_pgdir s"
      using live_space space_not_kernel [OF assms(1)] found_live [OF Some assms(3)] by auto
    show ?thesis
    proof (cases "may_alloc va perm")
      case False
      then show ?thesis
        using Some by (intro keeps_isolated_same [OF _ assms(1)])
          (auto simp: sys_page_alloc_def w may_alloc_def Let_def kret_def not_less)
    next
      case may: True
      then have va: "va < UTOP" "\<not> UTOP \<le> va" by (auto simp: may_alloc_def)
      show ?thesis
      proof (cases xs)
        case Nil
        then have "page_free_list s = None"
          using mem_invD(2) [OF inv] by (cases "page_free_list s") (auto simp: free_list_def)
        then show ?thesis
          using Some may va by (intro keeps_isolated_same [OF _ assms(1)])
            (simp add: sys_page_alloc_def w may_alloc_def Let_def kbind_Ret page_alloc_None kret_def)
      next
        case (Cons q ys)
        note iv = inv [unfolded Cons]
        note step = sys_page_alloc_step [OF assms(2) Some may mem_invD(1,2) [OF iv]]
        from page_alloc_inserted [OF iv e(1) va(1) assms(5,4) e(2)] obtain t r zs role' where
          "sys_page_alloc envid va perm s = Ret r t" "mem_inv t (spaces s) zs role'"
          "same_kernel s t" unfolding step by blast
        then show ?thesis using assms(1) by (rule keeps_isolatedI)
      qed
    qed
  qed
qed

lemma mapped_page:
  assumes "mem_inv s D xs role" "d \<in> D" "va < UTOP" "pte_of s d va AND PTE_P \<noteq> 0"
  shows "role (frame (pte_of s d va)) = Data" "frame (pte_of s d va) < unat (npages s)"
    "frame (pte_of s d va) < 65536"
  using frames_okD(6,7) [OF mem_invD(4) [OF assms(1,2)] assms(3,4)] mem_invD(1) [OF assms(1)]
  by (auto simp: mem_ok_def)

lemma isolated_page_map:
  assumes "isolated s" "curenv s = Some c" "live s c" "counts_low s" "perm < 4096"
  shows "keeps_isolated s (sys_page_map srcenv srcva dstenv dstva perm)"
proof -
  obtain xs role where inv: "mem_inv s (spaces s) xs role" using assms(1) by (auto simp: isolated_def)
  note w = with_env_checked [OF assms(2)]
  show ?thesis
  proof (cases "found_env s c srcenv = None \<or> found_env s c dstenv = None")
    case True
    then show ?thesis
      by (cases "found_env s c srcenv") (auto simp: sys_page_map_def w intro!: keeps_isolated_same [OF _ assms(1)])
  next
    case False
    then obtain se de where f: "found_env s c srcenv = Some se" "found_env s c dstenv = Some de" by auto
    let ?sp = "env_pgdir (envs s se)" and ?dp = "env_pgdir (envs s de)"
    have sp: "?sp \<in> spaces s" "?dp \<in> spaces s" "?dp \<noteq> kern_pgdir s"
      using live_space space_not_kernel [OF assms(1)] found_live [OF f(1) assms(3)] found_live [OF f(2) assms(3)] by auto
    have wf: "wf_pgdir s ?sp" "mem_ok s" using mem_inv_vm_ok [OF inv sp(1)] by (auto simp: vm_ok_def)
    show ?thesis
    proof (cases "may_map s ?sp srcva dstva perm")
      case False
      have "in_memory s ?sp srcva \<or> UTOP \<le> srcva" using in_memory_inv [OF inv sp(1)] by (auto simp: not_le)
      then have "sys_page_map srcenv srcva dstenv dstva perm s = Ret (- E_INVAL) s"
        using sys_page_map_refused [OF assms(2) f wf] False by blast
      then show ?thesis by (rule keeps_isolated_same [OF _ assms(1)])
    next
      case True
      then have m: "srcva < UTOP" "dstva < UTOP" "pte_of s ?sp srcva AND PTE_P \<noteq> 0" by (auto simp: may_map_def)
      let ?f = "frame (pte_of s ?sp srcva)"
      note pg = mapped_page [OF inv sp(1) m(1,3)]
      have call: "sys_page_map srcenv srcva dstenv dstva perm s = page_insert ?dp ?f dstva perm s"
        using sys_page_map_allowed [OF assms(2) f wf in_memory_inv [OF inv sp(1) m(1)] True] .
      note ins = page_insert_inserted [OF inv sp(2) m(2) pg(1,2) frame_entry [OF pg(3) assms(5)]
          counts_low_not_max [OF assms(4)]]
      show ?thesis
      proof (cases "has_table s ?dp dstva \<or> xs \<noteq> []")
        case True
        then obtain t ys r where t: "page_insert ?dp ?f dstva perm s = Ret 0 t"
            "inserted s (spaces s) xs role ?dp ?f dstva perm t ys r" using ins by auto
        show ?thesis
          by (rule keeps_isolatedI [OF _ _ page_insert_same_kernel [OF t sp(3)] assms(1)])
            (use call t in \<open>auto simp: inserted_def\<close>)
      next
        case False
        then show ?thesis using call ins by (intro keeps_isolated_same [OF _ assms(1)]) auto
      qed
    qed
  qed
qed

lemma isolated_page_unmap:
  assumes "isolated s" "curenv s = Some c" "live s c"
  shows "keeps_isolated s (sys_page_unmap envid va)"
proof -
  obtain xs role where inv: "mem_inv s (spaces s) xs role" using assms(1) by (auto simp: isolated_def)
  note w = with_env_checked [OF assms(2)]
  show ?thesis
  proof (cases "va < UTOP \<and> ROUNDDOWN va PGSIZE = va \<and> found_env s c envid \<noteq> None")
    case False
    then show ?thesis
      by (intro keeps_isolated_same [OF _ assms(1), of _ "if va < UTOP \<and> ROUNDDOWN va PGSIZE = va then - E_BAD_ENV else - E_INVAL"])
        (auto simp: sys_page_unmap_def w kret_def not_less)
  next
    case True
    then obtain e where f: "found_env s c envid = Some e" by auto
    let ?d = "env_pgdir (envs s e)"
    have d: "?d \<in> spaces s" "?d \<noteq> kern_pgdir s"
      using live_space space_not_kernel [OF assms(1)] found_live [OF f assms(3)] by auto
    have va: "va < UTOP" "\<not> UTOP \<le> va" using True by auto
    have wf: "mem_ok s" "wf_pgdir s ?d" using mem_inv_vm_ok [OF inv d(1)] by (auto simp: vm_ok_def)
    have call: "sys_page_unmap envid va s = kbind (page_remove ?d va) (\<lambda>_. kret 0) s"
      using True f va by (simp add: sys_page_unmap_def w kbind_Ret)
    show ?thesis
    proof (cases "pte_of s ?d va AND PTE_P = 0")
      case True
      then show ?thesis
        using page_remove_absent [OF wf below_UTOP [OF va(1)] True] call
        by (intro keeps_isolated_same [OF _ assms(1)]) (simp add: kbind_Ret kret_def)
    next
      case False
      have tab: "has_table s ?d va" using False pte_of_no_table [OF below_UTOP [OF va(1)], of s ?d] by fastforce
      have "page_remove ?d va s = Ret () (remove_state ?d va s)"
        using page_remove_present [OF wf tab False] mapped_page(2) [OF inv d(1) va(1) False] .
      then have "sys_page_unmap envid va s = Ret 0 (remove_state ?d va s)"
        using call by (simp add: kbind_Ret kret_def)
      moreover obtain ys r where "mem_inv (remove_state ?d va s) (spaces s) ys r"
        using mem_inv_remove(1) [OF inv d(1) va(1) False] by blast
      moreover have "same_kernel s (remove_state ?d va s)"
        using mem_inv_remove(3) [OF inv d(1) va(1) False, of "kern_pgdir s"]
        by (auto simp: same_kernel_def) (simp_all add: remove_state_def)
      ultimately show ?thesis using assms(1) by (rule keeps_isolatedI)
    qed
  qed
qed

text \<open>The permissions of a message are limited to bits of the sender's entry: they cannot name
  another frame.\<close>

lemma frame_sub_entry:
  assumes "e AND perm = perm" "e AND PTE_P \<noteq> 0"
  shows "frame (page2pa (frame e) OR perm OR PTE_P) = frame e"
proof -
  have bit: "bit (PTE_ADDR x) n \<longleftrightarrow> 12 \<le> n \<and> n < 32 \<and> bit x n" for x :: u32 and n
    unfolding PTE_ADDR_def word_mask_12 by (auto simp: bit_simps dest: bit_imp_le_length)
  have sub: "bit perm n \<Longrightarrow> bit e n" for n using arg_cong [OF assms(1), of "\<lambda>w. bit w n"] by (simp add: bit_simps)
  have p: "12 \<le> n \<Longrightarrow> \<not> bit PTE_P n" for n by (auto simp: layout bit_1_iff)
  have f: "page2pa (frame e) = PTE_ADDR e"
    using page2pa_PGNUM [of "PTE_ADDR e"] by (simp add: unat_PGNUM) (simp add: frame_def [symmetric])
  have "PTE_ADDR (PTE_ADDR e OR perm OR PTE_P) = PTE_ADDR e"
    using sub p by (auto intro!: bit_word_eqI simp: bit bit_or_iff)
  then show ?thesis unfolding f by (metis frame_PTE_ADDR)
qed

text \<open>Changes to an environment that leave it alive in its address space do not matter.\<close>

lemma isolated_upd_env:
  assumes "isolated s" "live s e" "env_pgdir (g (envs s e)) = env_pgdir (envs s e)"
    and "env_status (g (envs s e)) \<noteq> ENV_FREE"
  shows "isolated (upd_env e g s)"
proof -
  have "user_spaces (upd_env e g s) = user_spaces s"
    unfolding user_spaces_def live_def using assms(2-4) by (auto simp: live_def image_iff)
  moreover have pm: "pmem (upd_env e g s) = pmem s" by simp
  ultimately show ?thesis
    using assms(1) by (simp add: isolated_def kernel_clean_def vspace_cong [OF pm]
        mem_inv_depends [of "upd_env e g s" s])
qed

lemma isolated_deliver:
  assumes "isolated t" "curenv t = Some c" "live t e" "env_pgdir (g (envs t e)) = env_pgdir (envs t e)"
  shows "\<exists>u. deliver e value 0 (upd_env e g t) = Ret 0 u \<and> isolated u"
proof -
  let ?h = "\<lambda>env. delivered (env_id (envs (upd_env e g t) c)) value (g env)"
  have "curenv (upd_env e g t) = Some c" using assms(2) by simp
  then have "deliver e value 0 (upd_env e g t) =
      Ret 0 (upd_env e (delivered (env_id (envs (upd_env e g t) c)) value) (upd_env e g t))"
    by (rule deliver_simps(2))
  also have "\<dots> = Ret 0 (upd_env e ?h t)" by (simp add: upd_env_def)
  finally have "deliver e value 0 (upd_env e g t) = Ret 0 (upd_env e ?h t)" .
  moreover have "isolated (upd_env e ?h t)"
    using assms by (intro isolated_upd_env) (simp_all add: delivered_def)
  ultimately show ?thesis by blast
qed

lemma isolated_ipc_send:
  assumes "isolated s" "curenv s = Some c" "live s c" "counts_low s"
  shows "\<exists>r t. sys_ipc_try_send envid value srcva perm s = Ret r t \<and> isolated t"
proof -
  obtain xs role where inv: "mem_inv s (spaces s) xs role" using assms(1) by (auto simp: isolated_def)
  define to where "to = (if envid = 0 then Some c
      else if env_status (envs s (ENVX envid)) = ENV_FREE \<or> env_id (envs s (ENVX envid)) \<noteq> envid then None
      else Some (ENVX envid))"
  have look: "with_env envid False f s = (case to of None \<Rightarrow> Ret (- E_BAD_ENV) s | Some e \<Rightarrow> f e s)" for f
    using assms(2) envid2env_unchecked [of envid s]
    by (auto simp: with_env_def to_def kbind_Ret envid2env_0 kret_def)
  have stay: "\<exists>r t. sys_ipc_try_send envid value srcva perm s = Ret r t \<and> isolated t"
    if "sys_ipc_try_send envid value srcva perm s = Ret r s" for r using that assms(1) by blast
  show ?thesis
  proof (cases "\<exists>e. to = Some e \<and> env_ipc_recving (envs s e)")
    case False
    then show ?thesis by (cases to) (auto simp: sys_ipc_try_send_def look kret_def assms(1))
  next
    case True
    then obtain e where e: "to = Some e" "env_ipc_recving (envs s e)" by blast
    have l: "live s e"
      using e(1) assms(3) ENVX_less [of envid] by (auto simp: to_def live_def split: if_splits)
    have send: "sys_ipc_try_send envid value srcva perm s =
        kbind (if srcva < UTOP then ipc_send_page e srcva perm else kret 0) (deliver e value) s"
      using e unfolding delivered_def [abs_def] deliver_def [abs_def]
      by (simp add: sys_ipc_try_send_def look)
    have plain: "\<exists>u. deliver e value 0 s = Ret 0 u \<and> isolated u"
      using isolated_deliver [OF assms(1,2) l, of "\<lambda>env. env" "value"] by (simp add: upd_env_def)
    show ?thesis
    proof (cases "srcva < UTOP")
      case False
      then show ?thesis using send plain by (auto simp: kbind_Ret kret_def)
    next
      case src: True
      let ?sp = "env_pgdir (envs s c)" and ?dp = "env_pgdir (envs s e)" and ?dst = "env_ipc_dstva (envs s e)"
      have sp: "?sp \<in> spaces s" "?dp \<in> spaces s" "?dp \<noteq> kern_pgdir s"
        using live_space space_not_kernel [OF assms(1)] assms(3) l by auto
      have wf: "mem_ok s" "wf_pgdir s ?sp" using mem_inv_vm_ok [OF inv sp(1)] by (auto simp: vm_ok_def)
      note page = ipc_send_page_eq [OF assms(2) src wf in_memory_inv [OF inv sp(1) src], of e perm]
      consider "\<not> may_send s ?sp srcva perm" | "may_send s ?sp srcva perm" "UTOP \<le> ?dst"
        | "may_send s ?sp srcva perm" "?dst < UTOP" by fastforce
      then show ?thesis
      proof cases
        case 1
        then show ?thesis using send page src by (intro stay [of "- E_INVAL"]) (simp add: kbind_Ret deliver_simps(1))
      next
        case 2
        then show ?thesis using send page src plain by (auto simp: kbind_Ret)
      next
        case 3
        let ?e = "pte_of s ?sp srcva"
        let ?f = "frame ?e"
        have m: "?e AND perm = perm" "?e AND PTE_P \<noteq> 0" using 3(1) by (auto simp: may_send_def)
        note pg = mapped_page [OF inv sp(1) src m(2)]
        note ins = page_insert_inserted [OF inv sp(2) 3(2) pg(1,2) frame_sub_entry [OF m] counts_low_not_max [OF assms(4)]]
        have nd: "\<not> UTOP \<le> ?dst" using 3(2) by simp
        show ?thesis
        proof (cases "has_table s ?dp ?dst \<or> xs \<noteq> []")
          case False
          then have "page_insert ?dp ?f ?dst perm s = Ret (- E_NO_MEM) s" using ins by auto
          then show ?thesis
            using send page src 3(1) nd
            by (intro stay [of "- E_NO_MEM"]) (simp add: kbind_Ret kret_def deliver_simps(1))
        next
          case True
          then obtain t ys r where t: "page_insert ?dp ?f ?dst perm s = Ret 0 t"
              "inserted s (spaces s) xs role ?dp ?f ?dst perm t ys r" using ins by auto
          note same = page_insert_same_kernel [OF t sp(3)]
          have it: "isolated t" by (rule isolated_same_kernel [OF assms(1) same]) (use t(2) in \<open>auto simp: inserted_def\<close>)
          have lt: "curenv t = Some c" "live t e" using same_kernel_facts(4,5) [OF same] assms(2) l by (auto simp: live_def)
          let ?g = "\<lambda>env. env\<lparr>env_ipc_perm := perm\<rparr>"
          have "ipc_send_page e srcva perm s = Ret 0 (upd_env e ?g t)"
            using page 3(1) nd t(1) by (simp add: kbind_Ret kret_def)
          moreover obtain u where "deliver e value 0 (upd_env e ?g t) = Ret 0 u" "isolated u"
            using isolated_deliver [OF it lt, of ?g "value"] by auto
          ultimately show ?thesis using send src by (auto simp: kbind_Ret)
        qed
      qed
    qed
  qed
qed

subsection \<open>A new environment\<close>

lemma mem_inv_subset: "mem_inv s D xs role \<Longrightarrow> D' \<subseteq> D \<Longrightarrow> mem_inv s D' xs role"
proof -
  assume inv: "mem_inv s D xs role" and sub: "D' \<subseteq> D"
  have "card (mapped s D' f) \<le> card (mapped s D f)" for f
    by (rule card_mono) (use sub in \<open>auto simp: mapped_def\<close>)
  with inv sub show ?thesis unfolding mem_inv_def by (meson order_trans subsetD)
qed

text \<open>The directory that \<open>env_setup_vm\<close> makes is a new address space without user mappings.\<close>

lemma mem_inv_vm_state:
  fixes e :: nat
  assumes inv: "mem_inv s D (p # xs) role" and k: "kern_pgdir s \<in> D"
    and clean: "kernel_clean s"
  defines "t \<equiv> vm_state e p s" and "n \<equiv> page2pa p + KERNBASE"
  shows "mem_inv t (insert n D) xs (role(p := Directory n))" and "n \<notin> D"
    and "\<And>d va. d \<in> D \<Longrightarrow> pde_of t d va = pde_of s d va"
    and "same_except s t {p}"
    and "\<And>d va. d \<in> D \<Longrightarrow> va < UTOP \<Longrightarrow> pte_of t d va = pte_of s d va"
    and "vm_ready s p xs" and "role p = Free"
proof -
  note i = mem_invD [OF inv]
  note pf = vm_ok_page_facts [OF mem_inv_vm_ok [OF inv k]]
  have clean: "pde_of s (kern_pgdir s) va AND PTE_P = 0" if "va < UTOP" for va
    using clean that by (simp add: kernel_clean_def)
  let ?r = "role(p := Directory n)"
  have p: "role p = Free" "p \<notin> set xs" using i(3) free_list_distinct [OF i(2)] by simp_all
  show "role p = Free" by (rule p(1))
  have fp: "frame (page2pa p) = p" using pf(5) by (simp add: frame_def unat_page2pa)
  show ready: "vm_ready s p xs"
    using i(1,2) frames_okD(1-3) [OF i(4) [OF k]] p(1) by (auto simp: vm_ready_def)
  show nD: "n \<notin> D"
    using frames_okD(3) [OF i(4), of n] p(1) fp by (auto simp: n_def)
  show same: "same_except s t {p}"
  proof -
    let ?z = "s\<lparr>pmem := mem_set (pmem s) (page2pa p) 0 4096\<rparr>"
    let ?m = "?z\<lparr>pmem := mem_move (pmem ?z) (page2pa p) (kern_pgdir s - KERNBASE) 4096\<rparr>"
    have "same_except s ?z {p}" by (rule same_except_clear [of "page2pa p"]) (simp_all add: fp)
    moreover have "same_except ?z ?m {p}" by (rule same_except_move [of "page2pa p"]) (simp_all add: fp)
    moreover have "same_except ?m t {p}"
      by (rule same_except_store [of "page2pa p" "PDX UVPT"]) (simp_all add: t_def vm_state_def Let_def fp)
    ultimately show ?thesis using same_except_trans by blast
  qed
  have other: "pde_of t d va = pde_of s d va" "PDX va \<noteq> PDX UVPT \<Longrightarrow> pte_of t d va = pte_of s d va"
    if "d \<in> D" for d va
    using vspace_same [OF i(4) [OF that] same] p(1) by auto
  show "\<And>d va. d \<in> D \<Longrightarrow> pde_of t d va = pde_of s d va" by (rule other)
  show "\<And>d va. d \<in> D \<Longrightarrow> va < UTOP \<Longrightarrow> pte_of t d va = pte_of s d va" using other(2) below_UTOP by blast
  have new: "pde_of t n va = (if PDX va = PDX UVPT then page2pa p OR PTE_P OR PTE_U else pde_of s (kern_pgdir s) va)"
    for va using pde_vm_state [OF ready, of e va] by (simp add: t_def n_def)
  have none: "pte_of t n va = 0" if "va < UTOP" for va
    using new [of va] clean [OF that] below_UTOP [OF that] by (simp add: pte_of_def)
  have m: "mapped t (insert n D) f = mapped s D f" for f
    using none other(2) below_UTOP by (auto simp: mapped_def)
  have "frames_ok t d ?r" if "d \<in> D" for d
  proof (rule frames_okI [OF i(4) [OF that]])
    show "?r (frame (d - KERNBASE)) = role (frame (d - KERNBASE))"
      using frames_okD(3) [OF i(4) [OF that]] p(1) by auto
    show "?r (frame (pde_of s d va)) = role (frame (pde_of s d va))" if "has_table s d va" for va
      using frames_okD(5) [OF i(4) [OF \<open>d \<in> D\<close>] that] p(1) by auto
  qed (use other [OF that] below_UTOP p(1) in \<open>auto simp: t_def\<close>)
  moreover have "frames_ok t n ?r"
  proof -
    have tab: "\<not> va < UTOP \<and> has_table s (kern_pgdir s) va" if "has_table t n va" for va
      using that new [of va] clean [of va] by (auto simp: has_table_def)
    have "frame (pde_of t n va) < unat (npages s) \<and> ?r (frame (pde_of t n va)) = table_role n va"
      if "has_table t n va" for va
    proof -
      have h: "has_table s (kern_pgdir s) va" "table_role n va = table_role (kern_pgdir s) va"
          "PDX va \<noteq> PDX UVPT"
        using tab [OF that] that by (auto simp: table_role_def has_table_def)
      note f = frames_okD(4,5) [OF i(4) [OF k] h(1)]
      then have "frame (pde_of s (kern_pgdir s) va) \<noteq> p" using p(1) by force
      with f h new [of va] show ?thesis by simp
    qed
    moreover have "npages t = npages s" by (simp add: t_def)
    ultimately show ?thesis using none pf(4) fp by (simp add: frames_ok_def n_def)
  qed
  moreover have "free_list t xs"
  proof -
    have "(\<lambda>i. pp_link (pages t i)) = (\<lambda>i. pp_link (pages s i))" by (auto simp: t_def)
    with i(2) show ?thesis by (simp add: free_list_def t_def)
  qed
  moreover have "mem_ok t" using i(1) by (simp add: mem_ok_def t_def)
  moreover have "card (mapped t (insert n D) f) \<le> unat (pp_ref (pages t f))" if "?r f = Data" for f
    using that i(5) [of f] m by (auto simp: t_def split: if_splits)
  ultimately show "mem_inv t (insert n D) xs ?r" using i(3) p by (auto simp: mem_inv_def)
qed

text \<open>Every slot on the free list of environments is one of the table.\<close>

definition free_slot_ok :: "kstate \<Rightarrow> bool" where
  "free_slot_ok s \<longleftrightarrow> (case env_free_list s of None \<Rightarrow> True | Some e \<Rightarrow> e < NENV)"

lemma page_free_list_take: "page_free_list (take_free_env e s) = page_free_list s"
  by (simp add: take_free_env_def)

lemma isolated_env_alloc:
  assumes "isolated s" "free_slot_ok s"
  shows "\<exists>r p t. env_alloc parent s = Ret (r, p) t \<and> isolated t \<and> curenv t = curenv s \<and>
    (\<forall>e. p = Some e \<longrightarrow> live t e)"
proof -
  obtain xs role where inv: "mem_inv s (spaces s) xs role" and clean: "kernel_clean s"
    using assms(1) by (auto simp: isolated_def)
  show ?thesis
  proof (cases "env_free_list s")
    case None
    then show ?thesis using assms(1) env_alloc_none by fastforce
  next
    case (Some e)
    show ?thesis
    proof (cases xs)
      case Nil
      then have "page_free_list s = None"
        using mem_invD(2) [OF inv] by (cases "page_free_list s") (auto simp: free_list_def)
      then show ?thesis using Some assms(1) env_alloc_no_mem by fastforce
    next
      case (Cons p ys)
      note iv = inv [unfolded Cons]
      let ?n = "page2pa p + KERNBASE" and ?v = "vm_state e p s" and ?t = "alloc_env_state parent e p s"
      have k: "kern_pgdir s \<in> spaces s" by simp
      note v1 = mem_inv_vm_state(1) [OF iv k clean, where e = e] and v2 = mem_inv_vm_state(2) [OF iv k clean]
        and v3 = mem_inv_vm_state(3) [OF iv k clean, where e = e]
      have ready: "vm_ready s p ys"
        using mem_invD(1-3) [OF iv] frames_okD(1-3) [OF mem_invD(4) [OF iv k]] by (auto simp: vm_ready_def)
      obtain c where c: "env_alloc parent s = Ret (0, Some e) (?t\<lparr>cons := c\<rparr>)"
        using env_alloc_Ret [OF ready Some] by blast
      let ?u = "?t\<lparr>cons := c\<rparr>"
      have pm: "pmem ?u = pmem ?v" by (simp add: alloc_env_state_def)
      have kp: "kern_pgdir ?u = kern_pgdir s" by (simp add: alloc_env_state_def)
      have envs: "envs ?u = (envs s)(e := born parent e ((envs s e)\<lparr>env_pgdir := ?n\<rparr>))"
        by (simp add: alloc_env_state_def)
      have us: "user_spaces ?u \<subseteq> insert ?n (user_spaces s)"
        unfolding user_spaces_def live_def envs by (auto simp: born_def)
      have "mem_inv ?u (insert ?n (spaces s)) ys (role(p := Directory ?n))"
        using v1 mem_inv_depends [of ?u ?v] by (simp add: alloc_env_state_def page_free_list_take)
      then have "mem_inv ?u (spaces ?u) ys (role(p := Directory ?n))"
        by (rule mem_inv_subset) (use us kp in auto)
      moreover have "kernel_clean ?u"
        using us kp v2 v3 [OF k] clean unfolding kernel_clean_def by (auto simp: vspace_cong [OF pm])
      moreover have "live ?u e" using Some assms(2) envs by (simp add: live_def free_slot_ok_def born_def)
      moreover have "curenv ?u = curenv s" by (simp add: alloc_env_state_def)
      ultimately show ?thesis using c by (auto simp: isolated_def)
    qed
  qed
qed

lemma isolated_exofork:
  assumes "isolated s" "free_slot_ok s" "curenv s = Some c"
  shows "\<exists>r t. sys_exofork s = Ret r t \<and> isolated t"
proof -
  obtain r p t where t: "env_alloc (env_id (envs s c)) s = Ret (r, p) t" "isolated t" "curenv t = Some c"
      "\<And>e. p = Some e \<Longrightarrow> live t e"
    using isolated_env_alloc [OF assms(1,2)] assms(3) by metis
  show ?thesis
  proof (cases p)
    case None
    then show ?thesis
      using t assms(3) by (simp add: sys_exofork_def kbind_Ret the_curenv_def kret_def)
  next
    case (Some e)
    let ?f = "\<lambda>env. env\<lparr>env_tf := env_tf (envs t c), env_status := ENV_NOT_RUNNABLE\<rparr>"
    let ?g = "\<lambda>env :: Env. env\<lparr>env_tf :=
      (env_tf env)\<lparr>tf_regs := (tf_regs (env_tf env))\<lparr>reg_eax := 0\<rparr>\<rparr>\<rparr>"
    have u: "isolated (upd_env e ?f t)" using t(2,4) Some by (intro isolated_upd_env) simp_all
    have "isolated (upd_env e ?g (upd_env e ?f t))"
      by (rule isolated_upd_env [OF u]) (use t(4) Some in \<open>simp_all add: live_def\<close>)
    then show ?thesis
      using t(1,3) assms(3) Some by (simp add: sys_exofork_def kbind_Ret the_curenv_def kget_def del: upd_env_fields)
  qed
qed

subsection \<open>Every call\<close>

text \<open>The calls covered, and the limit on permissions.\<close>

definition memory_call :: "u32 \<Rightarrow> u32 \<Rightarrow> u32 \<Rightarrow> bool" where
  "memory_call n a3 a5 \<longleftrightarrow>
     n \<in> {SYS_getenvid, SYS_exofork, SYS_page_unmap, SYS_env_set_status, SYS_env_set_pgfault_upcall,
          SYS_ipc_try_send, SYS_ipc_recv, SYS_change_pr} \<or>
     n = SYS_page_alloc \<and> a3 < 4096 \<or> n = SYS_page_map \<and> a5 < 4096"

lemma isolated_with_env:
  assumes "isolated s" "curenv s = Some c" "live s c"
    and "\<And>e. env_pgdir (g (envs s e)) = env_pgdir (envs s e)" "\<And>e. live s e \<Longrightarrow> env_status (g (envs s e)) \<noteq> ENV_FREE"
  shows "\<exists>r t. with_env envid True (\<lambda>e. kbind (kmod (upd_env e g)) (\<lambda>_. kret 0)) s = Ret r t \<and> isolated t"
proof (cases "found_env s c envid")
  case None
  then show ?thesis using assms(1) by (simp add: with_env_checked [OF assms(2)])
next
  case (Some e)
  have l: "live s e" using found_live [OF Some assms(3)] .
  have "isolated (upd_env e g s)" using assms(4) assms(5) [OF l] by (intro isolated_upd_env [OF assms(1) l])
  with Some show ?thesis by (simp add: with_env_checked [OF assms(2)] kbind_Ret kret_def)
qed


subsection \<open>What isolation means\<close>


subsection \<open>An isolated machine\<close>

text \<open>The calling machine with a page directory of the kernel's own, in page 9.\<close>

definition isolated_machine :: kstate where
  "isolated_machine = calling_machine\<lparr>kern_pgdir := 0xF0009000\<rparr>"

definition machine_role :: "nat \<Rightarrow> role" where
  "machine_role f = (if f = 5 then Directory sample_pgdir else if f = 9 then Directory 0xF0009000
     else if f = 6 then Table sample_pgdir 2 else if f = 7 then Data else Free)"

lemma isolated_machine_vm:
  "pde_of isolated_machine sample_pgdir va = (if PDX va = 2 then 0x6007 else 0)"
  "pte_of isolated_machine sample_pgdir va = (if PDX va = 2 \<and> PTX va = 0 then 0x7007 else 0)"
  "pde_of isolated_machine 0xF0009000 va = 0" "pte_of isolated_machine 0xF0009000 va = 0"
proof -
  have pm: "pmem isolated_machine = pmem mapped_machine"
    by (simp add: isolated_machine_def calling_machine_def set_curenv_def)
  show "pde_of isolated_machine sample_pgdir va = (if PDX va = 2 then 0x6007 else 0)"
    "pte_of isolated_machine sample_pgdir va = (if PDX va = 2 \<and> PTX va = 0 then 0x7007 else 0)"
    by (simp_all add: vspace_cong [OF pm])
  have "aligned 4096 0x5000" "aligned 4096 0x6000" "aligned 4096 0x9000" by (simp_all add: aligned_def)
  then show p: "pde_of isolated_machine 0xF0009000 va = 0"
    using load_store_slot [of "0x5000" 2 "0x9000" "PDX va"] load_store_slot [of "0x6000" 0 "0x9000" "PDX va"]
    unfolding vspace_cong [OF pm]
    by (simp add: pde_of_def mapped_machine_def layout PDX_less)
  then show "pte_of isolated_machine 0xF0009000 va = 0" by (simp add: pte_of_def)
qed

lemma isolated_machine_facts:
  "curenv isolated_machine = Some 0" "live isolated_machine 0" "counts_low isolated_machine"
  "free_slot_ok isolated_machine" "kern_pgdir isolated_machine = 0xF0009000" "npages isolated_machine = 64"
  "user_spaces isolated_machine = {sample_pgdir}" "free_list isolated_machine [4, 3, 2]"
  "pp_ref (pages isolated_machine i) = (if i \<in> {2, 3, 4} then 0 else 1)"
proof -
  show "curenv isolated_machine = Some 0" "kern_pgdir isolated_machine = 0xF0009000" "npages isolated_machine = 64"
    by (simp_all add: isolated_machine_def curenv_def) (simp add: calling_machine_def set_curenv_def)
  have e: "envs isolated_machine = envs small_machine" "pages isolated_machine = pages small_machine"
      "page_free_list isolated_machine = Some 4" "env_free_list isolated_machine = Some 1"
      "npages isolated_machine = 64"
    by (simp_all add: isolated_machine_def calling_machine_def set_curenv_def)
  show "live isolated_machine 0" "user_spaces isolated_machine = {sample_pgdir}"
    by (auto simp: live_def user_spaces_def e) (simp_all add: small_machine_def split: if_splits)
  show "counts_low isolated_machine" "free_slot_ok isolated_machine" "free_list isolated_machine [4, 3, 2]"
    "pp_ref (pages isolated_machine i) = (if i \<in> {2, 3, 4} then 0 else 1)"
    by (simp_all add: counts_low_def free_slot_ok_def free_list_def e)
qed

lemma isolated_machine_ok: "isolated isolated_machine"
proof -
  note f = isolated_machine_facts and v = isolated_machine_vm
  have a: "aligned 4096 0x5000" "aligned 4096 0x9000" by (simp_all add: aligned_def)
  have fr: "frame 0x5000 = 5" "frame 0x9000 = 9" "frame 0x6007 = 6" "frame 0x7007 = 7"
    by (simp_all add: frame_def)
  have u: "va < UTOP" if "PDX va = 2" for va
    using arg_cong [OF that, of unat] by (simp add: unat_PDX word_less_nat_alt layout)
  have one: "frames_ok isolated_machine sample_pgdir machine_role"
    using a fr u by (auto simp: frames_ok_def has_table_def v f machine_role_def table_role_def layout)
  have two: "frames_ok isolated_machine 0xF0009000 machine_role"
    using a fr by (auto simp: frames_ok_def has_table_def v f machine_role_def layout)
  have "mapped isolated_machine {0xF0009000, sample_pgdir} 7 \<subseteq> {(sample_pgdir, 0x800000)}"
  proof
    fix x assume "x \<in> mapped isolated_machine {0xF0009000, sample_pgdir} 7"
    then obtain va where x: "x = (sample_pgdir, va)" "aligned 4096 va" "PDX va = 2" "PTX va = 0"
      by (auto simp: mapped_def v layout split: if_splits)
    then have "PGNUM va = PGNUM 0x800000" by (simp add: same_page_iff)
    then have "frame va = frame 0x800000" using unat_PGNUM [of va] unat_PGNUM [of "0x800000"] by (simp add: frame_def)
    then have "va = 0x800000" using frame_eq_iff [of va "0x800000"] x(2) by (simp add: aligned_def)
    with x(1) show "x \<in> {(sample_pgdir, 0x800000)}" by simp
  qed
  from card_mono [OF _ this] have "card (mapped isolated_machine {0xF0009000, sample_pgdir} 7) \<le> 1" by simp
  then have "mem_inv isolated_machine {0xF0009000, sample_pgdir} [4, 3, 2] machine_role"
    using one two f by (auto simp: mem_inv_def mem_ok_def machine_role_def)
  then have "mem_inv isolated_machine (spaces isolated_machine) [4, 3, 2] machine_role" by (simp add: f)
  moreover have "kernel_clean isolated_machine" by (simp add: kernel_clean_def f v)
  ultimately show ?thesis unfolding isolated_def by blast
qed



end
