(* ===== verification/Mem_Init_Spec.thy ===== *)
theory Mem_Init_Spec
  imports Mem_Init Isolation_Spec "HOL-Library.Sublist"
begin

text \<open>
  What \<open>mem_init\<close> sets up.  Static mappings are an update of the address space on a region;
  from them come the address space of the kernel, on which its self test succeeds, and the
  first isolated state.
\<close>

subsection \<open>Changes of memory\<close>

text \<open>Only memory, the pages and the console differ.\<close>

definition mem_change :: "kstate \<Rightarrow> kstate \<Rightarrow> bool" where
  "mem_change s t \<longleftrightarrow>
     t = s\<lparr>pmem := pmem t, pages := pages t, page_free_list := page_free_list t, cons := cons t\<rparr>"

lemma mem_changeI: "t = s\<lparr>pmem := m, pages := p, page_free_list := f, cons := c\<rparr> \<Longrightarrow> mem_change s t"
  by (simp add: mem_change_def)

lemma mem_change_refl [simp]: "mem_change s s"
  by (simp add: mem_change_def)

lemma mem_change_trans:
  assumes "mem_change s t" "mem_change t u"
  shows "mem_change s u"
proof -
  obtain m p f c where t: "t = s\<lparr>pmem := m, pages := p, page_free_list := f, cons := c\<rparr>"
    using assms(1) unfolding mem_change_def by blast
  obtain m' p' f' c' where "u = t\<lparr>pmem := m', pages := p', page_free_list := f', cons := c'\<rparr>"
    using assms(2) unfolding mem_change_def by blast
  then show ?thesis by (intro mem_changeI [where m = m' and p = p' and f = f' and c = c']) (simp add: t)
qed

lemma mem_change_fields:
  assumes "mem_change s t"
  shows "npages t = npages s" "kern_pgdir t = kern_pgdir s" "pages_kva t = pages_kva s" "envs_kva t = envs_kva s"
    "envs t = envs s" "cpus t = cpus s" "thiscpu t = thiscpu s" "cr3 t = cr3 s" "cr0 t = cr0 s" "nextfree t = nextfree s"
    "mmio_base t = mmio_base s" "image t = image s" "curenv t = curenv s" "mem_ok t = mem_ok s" "outside t = outside s"
proof -
  obtain m p f c where t: "t = s\<lparr>pmem := m, pages := p, page_free_list := f, cons := c\<rparr>"
    using assms unfolding mem_change_def by blast
  show "npages t = npages s" "kern_pgdir t = kern_pgdir s" "pages_kva t = pages_kva s" "envs_kva t = envs_kva s"
    "envs t = envs s" "cpus t = cpus s" "thiscpu t = thiscpu s" "cr3 t = cr3 s" "cr0 t = cr0 s" "nextfree t = nextfree s"
    "mmio_base t = mmio_base s" "image t = image s" "curenv t = curenv s" "mem_ok t = mem_ok s" "outside t = outside s"
    by (simp_all add: t curenv_def mem_ok_def outside_def)
qed

lemma mem_change_updates [simp]:
  "mem_change s (s\<lparr>cons := c\<rparr>)" "mem_change s (set_pte pgdir va v s)" "mem_change s (walk_state pgdir va q s)"
  by (simp_all add: mem_change_def set_pte_def walk_state_def Let_def alloc_state_def take_free_page_def upd_page_def)

lemma vm_ok_cong:
  assumes "pmem t = pmem s" "npages t = npages s" "pages t = pages s" "page_free_list t = page_free_list s"
  shows "vm_ok t pgdir xs = vm_ok s pgdir xs"
  unfolding vm_ok_def mem_ok_def free_list_def tables_not_free_def wf_pgdir_cong [OF assms(1,2)]
    vspace_cong [OF assms(1)] by (simp add: assms)

text \<open>A console update is invisible to the address spaces.\<close>

lemma cons_spaces [simp]:
  "vm_ok (s\<lparr>cons := c\<rparr>) pgdir xs = vm_ok s pgdir xs" "pde_of (s\<lparr>cons := c\<rparr>) = pde_of s"
  "pte_of (s\<lparr>cons := c\<rparr>) = pte_of s" "has_table (s\<lparr>cons := c\<rparr>) = has_table s"
proof -
  have pm: "pmem (s\<lparr>cons := c\<rparr>) = pmem s" by simp
  show "vm_ok (s\<lparr>cons := c\<rparr>) pgdir xs = vm_ok s pgdir xs" by (rule vm_ok_cong) simp_all
  show "pde_of (s\<lparr>cons := c\<rparr>) = pde_of s" "pte_of (s\<lparr>cons := c\<rparr>) = pte_of s"
    "has_table (s\<lparr>cons := c\<rparr>) = has_table s"
    by (rule vspace_cong [OF pm])+
qed

subsection \<open>Walking with memory to spare\<close>

text \<open>Pages have been taken off the front of the free list \<open>xs\<close>; those left have their reference counts.\<close>

definition takes :: "kstate \<Rightarrow> nat list \<Rightarrow> kstate \<Rightarrow> nat list \<Rightarrow> bool" where
  "takes s xs t ys \<longleftrightarrow> suffix ys xs \<and> (\<forall>i \<in> set ys. pp_ref (pages t i) = pp_ref (pages s i))"

lemma takes_refl [simp]: "takes s xs s xs"
  by (simp add: takes_def)

lemma takes_trans: "takes s xs t ys \<Longrightarrow> takes t ys u zs \<Longrightarrow> takes s xs u zs"
  unfolding takes_def using suffix_order.trans set_mono_suffix by (metis subsetD)

lemma takes_updates [simp]:
  "takes s xs (set_pte pgdir va v t) ys = takes s xs t ys" "takes s xs (t\<lparr>cons := c\<rparr>) ys = takes s xs t ys"
  by (simp_all add: takes_def)

lemma takes_walk:
  assumes "q \<notin> set ys"
  shows "takes s (q # ys) (walk_state pgdir va q s) ys"
  using assms by (auto simp: takes_def suffix_ConsI)

lemma table_of_cong: "PDX va' = PDX va \<Longrightarrow> has_table s pgdir va' = has_table s pgdir va"
  by (simp add: has_table_def pde_of_def)

text \<open>\<open>t\<close> with the free list \<open>ys\<close> has the entries of \<open>s\<close>, and a table for \<open>va\<close>.\<close>

definition walked :: "kstate \<Rightarrow> u32 \<Rightarrow> nat list \<Rightarrow> u32 \<Rightarrow> kstate \<Rightarrow> nat list \<Rightarrow> bool" where
  "walked s pgdir xs va t ys \<longleftrightarrow>
     vm_ok t pgdir ys \<and> mem_change s t \<and> has_table t pgdir va \<and> takes s xs t ys \<and>
     (\<forall>va'. PDX va' \<noteq> PDX UVPT \<longrightarrow> pte_of t pgdir va' = pte_of s pgdir va') \<and>
     (\<forall>va'. PDX va' \<noteq> PDX va \<longrightarrow> pde_of t pgdir va' = pde_of s pgdir va') \<and>
     (if has_table s pgdir va then t = s \<and> ys = xs
      else user_table (pde_of t pgdir va) \<and> length xs = Suc (length ys))"

lemma walk_create:
  assumes "vm_ok s pgdir xs" "PDX va \<noteq> PDX UVPT" "has_table s pgdir va \<or> xs \<noteq> []"
  shows "\<exists>t ys. pgdir_walk pgdir va True s = Ret (slot_of t pgdir va) t \<and> walked s pgdir xs va t ys"
proof (cases "has_table s pgdir va")
  case True
  then have "walked s pgdir xs va s xs" using assms(1) by (simp add: walked_def)
  moreover have "pgdir_walk pgdir va True s = Ret (slot_of s pgdir va) s"
    using True assms(1) by (intro pgdir_walk_present) (simp_all add: vm_ok_def)
  ultimately show ?thesis by blast
next
  case False
  with assms obtain q ys where xs: "xs = q # ys" by (cases xs) auto
  have v: "vm_ok s pgdir (q # ys)" using assms(1) xs by simp
  have absent: "pde_of s pgdir va AND PTE_P = 0" using False assms(2) by (simp add: has_table_def)
  have "q \<notin> set ys" using v by (auto simp: vm_ok_def dest: free_list_distinct)
  note tk = takes_walk [OF this, of s pgdir va]
  let ?t = "walk_state pgdir va q s"
  have "pgdir_walk pgdir va True s = Ret (slot_of ?t pgdir va) ?t"
    using pgdir_walk_alloc [OF v absent] by (simp add: slot_of_def pde_walk_state [OF v] PTE_ADDR_table)
  moreover have "walked s pgdir xs va ?t ys"
    unfolding walked_def using False vm_ok_walk_state [OF v absent assms(2)] pte_walk_state [OF v absent]
    by (simp add: has_table_walk_state [OF v assms(2)] pde_walk_state [OF v] user_entry xs tk)
  ultimately show ?thesis by blast
qed

lemma vm_ok_set_pte:
  assumes "vm_ok s pgdir xs" "has_table s pgdir va"
  shows "vm_ok (set_pte pgdir va v s) pgdir xs"
proof -
  have wf: "wf_pgdir s pgdir" using assms(1) by (simp add: vm_ok_def)
  show ?thesis
    using assms(1) wf_set_pte [OF wf assms(2), of v]
    by (simp add: vm_ok_def free_list_def tables_not_free_def has_table_set_pte [OF wf assms(2)] pde_set_pte [OF wf assms(2)])
qed

subsection \<open>Regions\<close>

text \<open>The region of \<open>n\<close> pages from \<open>va\<close>; it may end with the address space.\<close>

definition region :: "u32 \<Rightarrow> nat \<Rightarrow> u32 set" where
  "region va n = {x. unat (x - va) < 4096 * n}"

definition region_entry :: "u32 \<Rightarrow> u32 \<Rightarrow> u32 \<Rightarrow> u32 \<Rightarrow> u32" where
  "region_entry va pa perm x = (pa + PTE_ADDR (x - va)) OR perm OR PTE_P"

lemma unat_diff_step:
  assumes "unat (x - va) \<ge> k" "unat (c :: u32) = k"
  shows "unat (x - (va + c)) = unat (x - va :: u32) - k"
proof -
  have "x - (va + c) = x - va - c" by simp
  then show ?thesis using assms by (simp only: unat_sub word_le_nat_alt)
qed

lemma region_Suc:
  assumes "4096 * Suc n \<le> 2 ^ 32"
  shows "x \<in> region va (Suc n) \<longleftrightarrow> unat (x - va) < 4096 \<or> x \<in> region (va + PGSIZE) n"
proof (cases "unat (x - va) < 4096")
  case False
  then show ?thesis using unat_diff_step [of 4096 x va PGSIZE] by (auto simp: region_def)
qed (simp add: region_def)

lemma region_disjoint:
  assumes "4096 * Suc n \<le> 2 ^ 32" "unat (x - va) < 4096"
  shows "x \<notin> region (va + PGSIZE) n"
proof -
  have eq: "x - (va + PGSIZE) = (x - va) - 4096" by simp
  have "unat (x - (va + PGSIZE)) = 2 ^ 32 - (4096 - unat (x - va))"
    unfolding eq using assms(2) by (simp add: unat_sub_if_size word_size)
  then show ?thesis using assms by (simp only: region_def mem_Collect_eq) simp
qed

lemma same_page_region: "aligned 4096 va \<Longrightarrow> PGNUM x = PGNUM va \<longleftrightarrow> unat (x - va) < 4096"
proof
  assume a: "aligned 4096 va"
  show "PGNUM x = PGNUM va" if "unat (x - va) < 4096"
    using frame_near [OF a that] by (simp add: frame_def word_unat_eq_iff unat_PGNUM)
  show "unat (x - va) < 4096" if "PGNUM x = PGNUM va"
  proof -
    have d: "unat x div 4096 = unat va div 4096" using that by (simp flip: unat_PGNUM)
    have "4096 * (unat va div 4096) = unat va" using a by (simp add: aligned_def)
    then have le: "unat va \<le> unat x" "unat x < unat va + 4096"
      using d mult_div_mod_eq [of 4096 "unat x"] mod_less_divisor [of 4096 "unat x"] by linarith+
    then show ?thesis by (simp add: unat_sub word_le_nat_alt)
  qed
qed

lemma PTE_ADDR_step: "unat x \<ge> 4096 \<Longrightarrow> PTE_ADDR (x - 4096) + 4096 = PTE_ADDR x"
proof -
  assume le: "unat x \<ge> 4096"
  then have u: "unat (x - 4096) = unat x - 4096" by (simp add: unat_sub word_le_nat_alt)
  have m: "unat (x - 4096) mod 4096 = unat x mod 4096" using le unfolding u by (simp add: le_mod_geq)
  have "unat (PTE_ADDR (x - 4096)) + 4096 = unat (PTE_ADDR x)"
  proof -
    have "unat x div 4096 \<ge> 1" using le by (simp add: less_eq_div_iff_mult_less_eq)
    then have "unat x \<ge> 4096 + unat x mod 4096" using mult_div_mod_eq [of 4096 "unat x"] by linarith
    then show ?thesis unfolding unat_PTE_ADDR m unfolding u by linarith
  qed
  moreover have "unat (PTE_ADDR x) < 2 ^ 32" by simp
  ultimately have "unat (PTE_ADDR (x - 4096) + 4096) = unat (PTE_ADDR x)"
    by (subst unat_add_no_wrap) simp_all
  then show ?thesis by (simp only: word_unat_eq_iff)
qed

lemma page_offset_zero: "unat x < 4096 \<Longrightarrow> PTE_ADDR x = 0"
  by (simp add: word_unat_eq_iff unat_PTE_ADDR)

lemma region_entry_step:
  assumes "unat (x - va) \<ge> 4096"
  shows "region_entry (va + PGSIZE) (pa + PGSIZE) perm x = region_entry va pa perm x"
proof -
  have eq: "x - (va + PGSIZE) = (x - va) - 4096" by simp
  have "pa + PGSIZE + PTE_ADDR (x - (va + PGSIZE)) = pa + (PTE_ADDR ((x - va) - 4096) + 4096)"
    unfolding eq by simp
  then have "pa + PGSIZE + PTE_ADDR (x - (va + PGSIZE)) = pa + PTE_ADDR (x - va)"
    unfolding PTE_ADDR_step [OF assms] .
  then show ?thesis by (simp only: region_entry_def)
qed

text \<open>The tables that a region still needs.\<close>

definition missing :: "kstate \<Rightarrow> u32 \<Rightarrow> u32 set \<Rightarrow> u32 set" where
  "missing s pgdir R = {PDX x | x. x \<in> R \<and> \<not> has_table s pgdir x}"

definition mapped_region :: "kstate \<Rightarrow> u32 \<Rightarrow> nat list \<Rightarrow> u32 \<Rightarrow> nat \<Rightarrow> u32 \<Rightarrow> u32 \<Rightarrow> kstate \<Rightarrow> nat list \<Rightarrow> bool" where
  "mapped_region s pgdir xs va n pa perm t ys \<longleftrightarrow>
     vm_ok t pgdir ys \<and> mem_change s t \<and> takes s xs t ys \<and>
     (\<forall>x. PDX x \<noteq> PDX UVPT \<longrightarrow> pte_of t pgdir x = (if x \<in> region va n then region_entry va pa perm x else pte_of s pgdir x)) \<and>
     (\<forall>x. x \<in> region va n \<longrightarrow> has_table t pgdir x) \<and>
     (\<forall>x. pde_of t pgdir x = pde_of s pgdir x \<or>
        PDX x \<in> missing s pgdir (region va n) \<and> user_table (pde_of t pgdir x)) \<and>
     length xs \<le> length ys + card (missing s pgdir (region va n))"

lemma finite_missing [simp]: "finite (missing s pgdir R)"
  by (rule finite_subset [OF subset_UNIV]) simp

lemma missing_mono: "R \<subseteq> R' \<Longrightarrow> missing s pgdir R \<subseteq> missing s pgdir R'"
  by (auto simp: missing_def)

lemma missing_iff: "PDX x \<in> missing s pgdir R \<longleftrightarrow> (\<exists>y \<in> R. PDX y = PDX x) \<and> \<not> has_table s pgdir x"
proof
  assume "PDX x \<in> missing s pgdir R"
  then obtain y where y: "PDX x = PDX y" "y \<in> R" "\<not> has_table s pgdir y" unfolding missing_def by blast
  then show "(\<exists>y \<in> R. PDX y = PDX x) \<and> \<not> has_table s pgdir x"
    using table_of_cong [OF y(1), of s pgdir] by (intro conjI bexI [of _ y]) simp_all
next
  assume "(\<exists>y \<in> R. PDX y = PDX x) \<and> \<not> has_table s pgdir x"
  then obtain y where y: "y \<in> R" "PDX y = PDX x" "\<not> has_table s pgdir x" by blast
  then have "\<not> has_table s pgdir y" using table_of_cong [OF y(2), of s pgdir] by simp
  with y(1,2) show "PDX x \<in> missing s pgdir R" unfolding missing_def by (intro CollectI exI [of _ y]) simp
qed

text \<open>One page is mapped.\<close>

lemma map_page:
  assumes "vm_ok s pgdir xs" "PDX va \<noteq> PDX UVPT" "has_table s pgdir va \<or> xs \<noteq> []"
  shows "\<exists>t u ys. pgdir_walk pgdir va True s = Ret (slot_of t pgdir va) t \<and> slot_of t pgdir va \<noteq> 0 \<and>
    kstore (slot_of t pgdir va) v t = Ret () u \<and> vm_ok u pgdir ys \<and> mem_change s u \<and> takes s xs u ys \<and>
    (\<forall>x. PDX x \<noteq> PDX UVPT \<longrightarrow> pte_of u pgdir x = (if PGNUM x = PGNUM va then v else pte_of s pgdir x)) \<and>
    (\<forall>x. has_table u pgdir x \<longleftrightarrow> PDX x = PDX va \<or> has_table s pgdir x) \<and>
    (\<forall>x. pde_of u pgdir x = pde_of s pgdir x \<or> \<not> has_table s pgdir va \<and> PDX x = PDX va \<and> user_table (pde_of u pgdir x)) \<and>
    length xs = length ys + (if has_table s pgdir va then 0 else 1)"
proof -
  obtain t ys where t: "pgdir_walk pgdir va True s = Ret (slot_of t pgdir va) t" and w: "walked s pgdir xs va t ys"
    using walk_create [OF assms] by blast
  have vt: "vm_ok t pgdir ys" "has_table t pgdir va" "mem_change s t" "takes s xs t ys"
    using w unfolding walked_def by - (elim conjE, assumption)+
  have m: "mem_ok t" "wf_pgdir t pgdir" using vt(1) by (simp_all add: vm_ok_def)
  let ?u = "set_pte pgdir va v t"
  have pde: "pde_of ?u pgdir x = pde_of t pgdir x" for x by (rule pde_set_pte [OF m(2) vt(2)])
  have old: "pde_of t pgdir x = pde_of s pgdir x" if "PDX x \<noteq> PDX va" for x
    using w that unfolding walked_def by blast
  have tab: "has_table ?u pgdir x \<longleftrightarrow> PDX x = PDX va \<or> has_table s pgdir x" for x
  proof (cases "PDX x = PDX va")
    case True
    then show ?thesis using vt(2) table_of_cong [OF True, of t pgdir] by (simp add: has_table_def pde)
  qed (simp add: has_table_def pde old)
  have pte: "pte_of ?u pgdir x = (if PGNUM x = PGNUM va then v else pte_of s pgdir x)" if "PDX x \<noteq> PDX UVPT" for x
    using w that unfolding walked_def pte_set_pte [OF m(2) vt(2) that] by simp
  have ut: "\<not> has_table s pgdir va \<Longrightarrow> user_table (pde_of t pgdir va) \<and> length xs = Suc (length ys)"
    "has_table s pgdir va \<Longrightarrow> t = s \<and> ys = xs"
    using w by (simp_all add: walked_def)
  have new: "pde_of ?u pgdir x = pde_of s pgdir x \<or>
      \<not> has_table s pgdir va \<and> PDX x = PDX va \<and> user_table (pde_of ?u pgdir x)" for x
  proof (cases "PDX x = PDX va")
    case True
    then show ?thesis using ut unfolding pde pde_PDX_cong [OF True] by blast
  qed (simp add: pde old)
  have "slot_of t pgdir va \<noteq> 0" using m vt(2) by simp
  moreover have "mem_change s ?u" by (rule mem_change_trans [OF vt(3)]) simp
  ultimately show ?thesis
    using t kstore_slot [OF m vt(2), of v] vm_ok_set_pte [OF vt(1,2)] vt(4) pte tab new ut
    by (intro exI [of _ t] exI [of _ ?u] exI [of _ ys]) auto
qed

lemma boot_map_loop_region:
  assumes "vm_ok s pgdir xs" "aligned 4096 va" "4096 * n \<le> 2 ^ 32" "\<forall>x \<in> region va n. PDX x \<noteq> PDX UVPT"
    and "card (missing s pgdir (region va n)) \<le> length xs"
  shows "\<exists>t ys. boot_map_loop n pgdir va pa perm s = Ret () t \<and> mapped_region s pgdir xs va n pa perm t ys"
  using assms
proof (induction n arbitrary: s va pa xs)
  case 0
  then show ?case by (auto simp: mapped_region_def region_def kret_def)
next
  case (Suc n)
  let ?R = "region va (Suc n)" and ?R' = "region (va + PGSIZE) n"
  have R: "x \<in> ?R \<longleftrightarrow> unat (x - va) < 4096 \<or> x \<in> ?R'" for x by (rule region_Suc [OF Suc.prems(3)])
  then have sub: "?R' \<subseteq> ?R" and va: "va \<in> ?R" by auto
  have pd: "PDX va \<noteq> PDX UVPT" using Suc.prems(4) va by blast
  have miss: "\<not> has_table s pgdir va \<Longrightarrow> PDX va \<in> missing s pgdir ?R" using va by (auto simp: missing_iff)
  then have mem: "has_table s pgdir va \<or> xs \<noteq> []"
    using Suc.prems(5) card_gt_0_iff [of "missing s pgdir ?R"] by auto
  obtain t u zs where w: "pgdir_walk pgdir va True s = Ret (slot_of t pgdir va) t" "slot_of t pgdir va \<noteq> 0"
      "kstore (slot_of t pgdir va) (pa OR perm OR PTE_P) t = Ret () u"
    and u: "vm_ok u pgdir zs" "mem_change s u" "takes s xs u zs"
      "\<forall>x. PDX x \<noteq> PDX UVPT \<longrightarrow> pte_of u pgdir x = (if PGNUM x = PGNUM va then pa OR perm OR PTE_P else pte_of s pgdir x)"
      "\<forall>x. has_table u pgdir x \<longleftrightarrow> PDX x = PDX va \<or> has_table s pgdir x"
      "\<forall>x. pde_of u pgdir x = pde_of s pgdir x \<or> \<not> has_table s pgdir va \<and> PDX x = PDX va \<and> user_table (pde_of u pgdir x)"
      "length xs = length zs + (if has_table s pgdir va then 0 else 1)"
    using map_page [OF Suc.prems(1) pd mem, of "pa OR perm OR PTE_P"] by blast
  have m': "missing u pgdir ?R' \<subseteq> missing s pgdir ?R - (if has_table s pgdir va then {} else {PDX va})"
    using sub u(5) by (auto simp: missing_def)
  have "card (missing u pgdir ?R') \<le> card (missing s pgdir ?R) - (if has_table s pgdir va then 0 else 1)"
    using card_mono [OF _ m'] miss by (cases "has_table s pgdir va") simp_all
  then have c: "card (missing u pgdir ?R') + (if has_table s pgdir va then 0 else 1) \<le> card (missing s pgdir ?R)"
    using miss card_gt_0_iff [of "missing s pgdir ?R"] by (cases "has_table s pgdir va") auto
  have al: "aligned 4096 (va + PGSIZE)" using Suc.prems(2) by (intro aligned_plus) (simp_all add: aligned_def)
  obtain v ys where v: "boot_map_loop n pgdir (va + PGSIZE) (pa + PGSIZE) perm u = Ret () v"
    and mr: "mapped_region u pgdir zs (va + PGSIZE) n (pa + PGSIZE) perm v ys"
    using Suc.IH [OF u(1) al, of "pa + PGSIZE"] Suc.prems(3-5) sub c u(7) by auto
  have vf: "vm_ok v pgdir ys" "mem_change u v" "takes u zs v ys" "\<forall>x. x \<in> ?R' \<longrightarrow> has_table v pgdir x"
    using mr unfolding mapped_region_def by - (elim conjE, assumption)+
  have pte: "pte_of v pgdir x = (if x \<in> ?R then region_entry va pa perm x else pte_of s pgdir x)" if "PDX x \<noteq> PDX UVPT" for x
  proof -
    have 1: "pte_of v pgdir x = (if x \<in> ?R' then region_entry (va + PGSIZE) (pa + PGSIZE) perm x else pte_of u pgdir x)"
      using mr that unfolding mapped_region_def by blast
    show ?thesis
    proof (cases "unat (x - va) < 4096")
      case True
      then show ?thesis
        using 1 u(4) that R [of x] region_disjoint [OF Suc.prems(3) True] same_page_region [OF Suc.prems(2)]
        by (simp add: region_entry_def page_offset_zero)
    next
      case False
      then show ?thesis
        using 1 u(4) that R [of x] region_entry_step [of x va pa perm] same_page_region [OF Suc.prems(2), of x] by simp
    qed
  qed
  have pde: "pde_of v pgdir x = pde_of s pgdir x \<or> PDX x \<in> missing s pgdir ?R \<and> user_table (pde_of v pgdir x)" for x
  proof -
    have "pde_of v pgdir x = pde_of u pgdir x \<or> PDX x \<in> missing u pgdir ?R' \<and> user_table (pde_of v pgdir x)"
      using mr unfolding mapped_region_def by blast
    moreover have "PDX x \<in> missing u pgdir ?R' \<Longrightarrow> PDX x \<in> missing s pgdir ?R" using m' by blast
    moreover have "pde_of u pgdir x = pde_of s pgdir x \<or> PDX x \<in> missing s pgdir ?R \<and> user_table (pde_of u pgdir x)"
      using u(6) miss by metis
    ultimately show ?thesis by metis
  qed
  have tab: "has_table v pgdir x" if "x \<in> ?R" for x
  proof (cases "x \<in> ?R'")
    case False
    then have "PGNUM x = PGNUM va" using that R same_page_region [OF Suc.prems(2)] by blast
    then have ux: "has_table u pgdir x" using u(5) by (simp add: same_page_iff)
    then have "PDX x \<notin> missing u pgdir ?R'" by (simp add: missing_iff)
    then have "pde_of v pgdir x = pde_of u pgdir x" using mr unfolding mapped_region_def by blast
    with ux show ?thesis by (simp add: has_table_def)
  qed (use vf(4) in blast)
  have run: "boot_map_loop (Suc n) pgdir va pa perm s = Ret () v"
    using w v by (simp add: kbind_Ret)
  have "mapped_region s pgdir xs va (Suc n) pa perm v ys"
    unfolding mapped_region_def
  proof (intro conjI)
    show "mem_change s v" by (rule mem_change_trans [OF u(2) vf(2)])
    show "takes s xs v ys" by (rule takes_trans [OF u(3) vf(3)])
    have "length zs \<le> length ys + card (missing u pgdir ?R')" using mr unfolding mapped_region_def by blast
    then show "length xs \<le> length ys + card (missing s pgdir ?R)" using c u(7) by linarith
  qed (use vf(1) pte pde tab in blast)+
  with run show ?case by blast
qed

subsection \<open>The address space of the kernel\<close>

text \<open>\<open>t\<close> with the free list \<open>ys\<close> has the entries \<open>f\<close>, and pages for all tables that \<open>K\<close> still needs.\<close>

definition spaced :: "kstate \<Rightarrow> u32 \<Rightarrow> nat list \<Rightarrow> u32 set \<Rightarrow> (u32 \<Rightarrow> u32) \<Rightarrow> kstate \<Rightarrow> nat list \<Rightarrow> bool" where
  "spaced s pgdir xs K f t ys \<longleftrightarrow>
     vm_ok t pgdir ys \<and> mem_change s t \<and> takes s xs t ys \<and> length xs - card (missing s pgdir K) \<le> length ys - card (missing t pgdir K) \<and>
     card (missing t pgdir K) \<le> length ys \<and> missing t pgdir K \<subseteq> missing s pgdir K \<and>
     (\<forall>x. PDX x \<noteq> PDX UVPT \<longrightarrow> pte_of t pgdir x = f x) \<and>
     (\<forall>x. pde_of t pgdir x = pde_of s pgdir x \<or> PDX x \<in> missing s pgdir K \<and> user_table (pde_of t pgdir x))"

definition override_region :: "u32 \<Rightarrow> nat \<Rightarrow> u32 \<Rightarrow> u32 \<Rightarrow> (u32 \<Rightarrow> u32) \<Rightarrow> u32 \<Rightarrow> u32" where
  "override_region va n pa perm f x = (if x \<in> region va n then region_entry va pa perm x else f x)"

lemma spaced_start:
  assumes "vm_ok s pgdir xs" "card (missing s pgdir K) \<le> length xs"
  shows "spaced s pgdir xs K (pte_of s pgdir) s xs"
  using assms by (simp add: spaced_def)

lemma spacedD:
  assumes "spaced s pgdir xs K f t ys"
  shows "vm_ok t pgdir ys" "mem_change s t" "takes s xs t ys" "card (missing t pgdir K) \<le> length ys"
    "missing t pgdir K \<subseteq> missing s pgdir K" "\<And>x. PDX x \<noteq> PDX UVPT \<Longrightarrow> pte_of t pgdir x = f x"
    "\<And>x. pde_of t pgdir x = pde_of s pgdir x \<or> PDX x \<in> missing s pgdir K \<and> user_table (pde_of t pgdir x)"
    "length xs - card (missing s pgdir K) \<le> length ys - card (missing t pgdir K)"
  using assms unfolding spaced_def by blast+

lemma spaced_cons: "spaced s pgdir xs K f t ys \<Longrightarrow> spaced s pgdir xs K f (t\<lparr>cons := c\<rparr>) ys"
  unfolding spaced_def missing_def by (auto intro: mem_change_trans)

lemma missing_mapped:
  assumes "mapped_region s pgdir xs va n pa perm t ys" "region va n \<subseteq> K"
  shows "missing t pgdir K \<subseteq> missing s pgdir K - missing s pgdir (region va n)"
proof
  fix d assume "d \<in> missing t pgdir K"
  then obtain x where x: "d = PDX x" "x \<in> K" "\<not> has_table t pgdir x" unfolding missing_def by blast
  have s: "\<not> has_table s pgdir x"
  proof
    assume h: "has_table s pgdir x"
    then have "PDX x \<notin> missing s pgdir (region va n)" by (simp add: missing_iff)
    then have "pde_of t pgdir x = pde_of s pgdir x" using assms(1) unfolding mapped_region_def by blast
    with h x(3) show False by (simp add: has_table_def)
  qed
  moreover have "PDX x \<notin> missing s pgdir (region va n)"
  proof
    assume "PDX x \<in> missing s pgdir (region va n)"
    then obtain y where y: "y \<in> region va n" "PDX y = PDX x" by (auto simp: missing_iff)
    have "has_table t pgdir y" using assms(1) y(1) unfolding mapped_region_def by blast
    with x(3) show False using table_of_cong [OF y(2)] by simp
  qed
  ultimately show "d \<in> missing s pgdir K - missing s pgdir (region va n)" using x by (auto simp: missing_def)
qed

lemma map_region_spaced:
  assumes sp: "spaced s pgdir xs K f t ys" and va: "aligned 4096 va" "4096 * n \<le> 2 ^ 32" "region va n \<subseteq> K"
    and K: "\<forall>x \<in> K. PDX x \<noteq> PDX UVPT" and sz: "unat (sz div PGSIZE) = n"
  shows "\<exists>u zs. boot_map_region pgdir va sz pa perm t = Ret () u \<and> spaced s pgdir xs K (override_region va n pa perm f) u zs"
proof -
  note t = spacedD [OF sp]
  let ?c = "\<lambda>c. t\<lparr>cons := c\<rparr>"
  have run: "\<exists>c. boot_map_region pgdir va sz pa perm t = boot_map_loop n pgdir va pa perm (?c c)"
    by (simp add: boot_map_region_def kbind_Ret kget_def sz) blast
  then obtain c where c: "boot_map_region pgdir va sz pa perm t = boot_map_loop n pgdir va pa perm (?c c)" by blast
  let ?t = "?c c"
  note spc = spaced_cons [OF sp, of c]
  have mono: "card (missing ?t pgdir (region va n)) \<le> card (missing ?t pgdir K)"
    by (rule card_mono [OF _ missing_mono [OF va(3)]]) simp
  then have "card (missing ?t pgdir (region va n)) \<le> length ys" using spacedD(4) [OF spc] by linarith
  then obtain u zs where u: "boot_map_loop n pgdir va pa perm ?t = Ret () u" "mapped_region ?t pgdir ys va n pa perm u zs"
    using boot_map_loop_region [OF spacedD(1) [OF spc] va(1,2), of pa perm] K va(3) by blast
  have uf: "vm_ok u pgdir zs" "mem_change ?t u" "takes ?t ys u zs" "length ys \<le> length zs + card (missing ?t pgdir (region va n))"
    using u(2) unfolding mapped_region_def by - (elim conjE, assumption)+
  note mm = missing_mapped [OF u(2) va(3)]
  have "card (missing u pgdir K) \<le> card (missing ?t pgdir K - missing ?t pgdir (region va n))"
    by (rule card_mono [OF _ mm]) simp
  also have "\<dots> = card (missing ?t pgdir K) - card (missing ?t pgdir (region va n))"
    by (rule card_Diff_subset) (simp_all add: missing_mono [OF va(3)])
  finally have cu: "card (missing u pgdir K) \<le> card (missing ?t pgdir K) - card (missing ?t pgdir (region va n))" .
  have "spaced s pgdir xs K (override_region va n pa perm f) u zs"
    unfolding spaced_def
  proof (intro conjI allI impI)
    show "mem_change s u" by (rule mem_change_trans [OF spacedD(2) [OF spc] uf(2)])
    show "takes s xs u zs" by (rule takes_trans [OF t(3)]) (use uf(3) in \<open>simp add: takes_def\<close>)
    show "card (missing u pgdir K) \<le> length zs" using cu uf(4) spacedD(4) [OF spc] mono by linarith
    show "length xs - card (missing s pgdir K) \<le> length zs - card (missing u pgdir K)"
      using cu uf(4) spacedD(4,8) [OF spc] mono by linarith
    show "missing u pgdir K \<subseteq> missing s pgdir K" using mm spacedD(5) [OF spc] by blast
    show "pte_of u pgdir x = override_region va n pa perm f x" if "PDX x \<noteq> PDX UVPT" for x
      using u(2) spacedD(6) [OF spc that] that unfolding mapped_region_def override_region_def by simp
    show "pde_of u pgdir x = pde_of s pgdir x \<or> PDX x \<in> missing s pgdir K \<and> user_table (pde_of u pgdir x)" for x
    proof -
      have "pde_of u pgdir x = pde_of ?t pgdir x \<or> PDX x \<in> missing ?t pgdir (region va n) \<and> user_table (pde_of u pgdir x)"
        using u(2) unfolding mapped_region_def by blast
      moreover have "missing ?t pgdir (region va n) \<subseteq> missing s pgdir K"
        using missing_mono [OF va(3)] spacedD(5) [OF spc] by blast
      ultimately show ?thesis using spacedD(7) [OF spc, of x] by (metis subsetD)
    qed
  qed (rule uf(1))
  with c u(1) show ?thesis by auto
qed

lemma region_iff:
  assumes "unat va + 4096 * n \<le> 4294967296"
  shows "x \<in> region va n \<longleftrightarrow> unat va \<le> unat x \<and> unat x < unat va + 4096 * n"
proof (cases "va \<le> x")
  case True
  then show ?thesis by (auto simp: region_def unat_sub word_le_nat_alt)
next
  case False
  then have "unat (x - va) = 4294967296 - (unat va - unat x)" by (simp add: unat_sub_if_size word_size not_le word_less_nat_alt word_le_nat_alt)
  with False assms show ?thesis unfolding region_def by (auto simp: word_le_nat_alt not_le) 
qed

text \<open>What the kernel maps: its arrays, the stacks and all of physical memory.\<close>

definition stack_base :: "nat \<Rightarrow> u32" where
  "stack_base i = KSTACKTOP - KSTKSIZE - of_nat i * (KSTKSIZE + KSTKGAP)"

definition kernel_space :: "u32 set" where
  "kernel_space = region UENVS 2048 \<union> region (KSTACKTOP - PTSIZE) 1024 \<union> region KERNBASE 65536"

definition stacks_entry :: "u32 \<Rightarrow> nat list \<Rightarrow> (u32 \<Rightarrow> u32) \<Rightarrow> u32 \<Rightarrow> u32" where
  "stacks_entry percpu is f =
     fold (\<lambda>i. override_region (stack_base i) 8 (percpu + of_nat i * KSTKSIZE - KERNBASE) PTE_W) is f"

lemma kernel_space_iff: "x \<in> kernel_space \<longleftrightarrow> unat x div 4194304 \<in> {955, 956, 959} \<or> 960 \<le> unat x div 4194304"
proof -
  have u: "unat UENVS = 955 * 4194304" "unat (KSTACKTOP - PTSIZE) = 959 * 4194304" "unat KERNBASE = 960 * 4194304"
    by (simp_all add: layout)
  have d: "unat x div 4194304 = k \<longleftrightarrow> k * 4194304 \<le> unat x \<and> unat x < k * 4194304 + 4194304" for k
    using div_mult_mod_eq [of "unat x" 4194304] mod_less_divisor [of 4194304 "unat x"]
    by (auto simp: less_mult_imp_div_less less_eq_div_iff_mult_less_eq intro: antisym)
  have g: "960 \<le> unat x div 4194304 \<longleftrightarrow> 960 * 4194304 \<le> unat x" by (simp add: less_eq_div_iff_mult_less_eq)
  show ?thesis
    unfolding kernel_space_def Un_iff using region_iff [of UENVS 2048] region_iff [of "KSTACKTOP - PTSIZE" 1024] region_iff [of KERNBASE 65536]
    unfolding u g insert_iff empty_iff d by auto
qed

lemma unat_stack_base: "i < 8 \<Longrightarrow> unat (stack_base i) = 4026499072 - 65536 * i"
proof -
  assume i: "i < 8"
  have "unat (of_nat i * 65536 :: u32) = i * 65536" using i by (simp add: unat_word_ariths unat_of_nat)
  moreover have "stack_base i = 0xEFFF8000 - of_nat i * 65536" by (simp add: stack_base_def layout)
  ultimately show ?thesis using i by (simp add: unat_sub word_le_nat_alt)
qed

lemma stack_region:
  assumes "i < 8"
  shows "x \<in> region (stack_base i) 8 \<longleftrightarrow> 4026499072 - 65536 * i \<le> unat x \<and> unat x < 4026531840 - 65536 * i"
  using region_iff [of "stack_base i" 8 x] assms by (simp add: unat_stack_base)

lemma stack_region_unique: "i < 8 \<Longrightarrow> j < 8 \<Longrightarrow> x \<in> region (stack_base i) 8 \<Longrightarrow> x \<in> region (stack_base j) 8 \<Longrightarrow> i = j"
  unfolding stack_region by (cases i j rule: linorder_cases) linarith+

lemma stacks_entry_other:
  "(\<And>i. i \<in> set is \<Longrightarrow> x \<notin> region (stack_base i) 8) \<Longrightarrow> stacks_entry percpu is f x = f x"
  unfolding stacks_entry_def by (induction "is" arbitrary: f) (auto simp: override_region_def)

lemma stacks_entry_at:
  assumes "i < 8" "x \<in> region (stack_base i) 8" "i \<in> set is" "set is \<subseteq> {..<8}"
  shows "stacks_entry percpu is f x = region_entry (stack_base i) (percpu + of_nat i * KSTKSIZE - KERNBASE) PTE_W x"
  using assms(3,4)
proof (induction "is" arbitrary: f rule: rev_induct)
  case (snoc j js)
  show ?case
  proof (cases "x \<in> region (stack_base j) 8")
    case True
    then have "j = i" using stack_region_unique [of j i x] assms snoc.prems by auto
    with True show ?thesis by (simp add: stacks_entry_def override_region_def)
  next
    case False
    with snoc.prems assms(2) have "i \<in> set js" by auto
    with False snoc show ?thesis by (simp add: stacks_entry_def override_region_def)
  qed
qed simp

lemma aligned_stack_base: "i < 8 \<Longrightarrow> aligned 4096 (stack_base i)"
  unfolding aligned_def by (simp add: unat_stack_base)

lemma stack_in_kernel_space: "i < 8 \<Longrightarrow> region (stack_base i) 8 \<subseteq> kernel_space"
proof
  fix x assume i: "i < 8" "x \<in> region (stack_base i) 8"
  from i(2) have b: "4026499072 - 65536 * i \<le> unat x" "unat x < 4026531840 - 65536 * i"
    by (simp_all add: stack_region [OF i(1)])
  have "959 * 4194304 \<le> unat x" "unat x < 960 * 4194304" using b i(1) by linarith+
  then have "unat x div 4194304 = 959" by (intro div_nat_eqI) simp_all
  then show "x \<in> kernel_space" by (simp add: kernel_space_iff)
qed

lemma kernel_space_not_UVPT: "\<forall>x \<in> kernel_space. PDX x \<noteq> PDX UVPT"
proof
  fix x assume "x \<in> kernel_space"
  then have "unat (PDX x) \<noteq> 957" unfolding unat_PDX by (auto simp: kernel_space_iff)
  moreover have "unat (PDX UVPT) = 957" by (simp add: unat_PDX layout)
  ultimately show "PDX x \<noteq> PDX UVPT" by auto
qed

text \<open>Sixty-seven page tables serve all of it.\<close>

lemma card_kernel_tables: "card (missing s pgdir kernel_space) \<le> 67"
proof -
  have "missing s pgdir kernel_space \<subseteq> of_nat ` ({955, 956} \<union> {959..<1024})"
  proof
    fix d assume "d \<in> missing s pgdir kernel_space"
    then obtain x where x: "d = PDX x" "x \<in> kernel_space" by (auto simp: missing_def)
    have "unat d = unat x div 4194304" "unat d < 1024" using x(1) PDX_less [of x] by (simp_all add: unat_PDX)
    then have "unat d \<in> {955, 956} \<union> {959..<1024}" using x(2) by (auto simp: kernel_space_iff)
    moreover have "d = of_nat (unat d)" by simp
    ultimately show "d \<in> of_nat ` ({955, 956} \<union> {959..<1024})" by blast
  qed
  then have "card (missing s pgdir kernel_space) \<le> card ((of_nat :: nat \<Rightarrow> u32) ` ({955, 956} \<union> {959..<1024}))"
    by (rule card_mono [rotated]) simp
  also have "\<dots> \<le> card ({955, 956} \<union> {959..<1024} :: nat set)" by (rule card_image_le) simp
  also have "\<dots> \<le> card {955 :: nat, 956} + card {959..<1024 :: nat}" by (rule card_Un_le)
  finally show ?thesis by simp
qed

lemma mem_init_mp_spaced:
  assumes "spaced s kpd xs kernel_space f t ys" "kern_pgdir s = kpd" "n \<le> 8"
    and "KERNBASE \<le> percpu" "unat percpu + 8 * 32768 \<le> 4294967296"
  shows "\<exists>u zs. mem_init_mp_loop n percpu t = Ret () u \<and> spaced s kpd xs kernel_space (stacks_entry percpu [8 - n..<8] f) u zs"
  using assms(1,3)
proof (induction n arbitrary: t f ys)
  case 0
  then show ?case by (auto simp: kret_def stacks_entry_def)
next
  case (Suc n)
  let ?i = "8 - Suc n" and ?pa = "percpu + of_nat (8 - Suc n) * KSTKSIZE"
  have i: "?i < 8" by simp
  have "unat (of_nat ?i * KSTKSIZE :: u32) = ?i * 32768" using i by (simp add: unat_word_ariths unat_of_nat layout)
  then have pa: "\<not> ?pa < KERNBASE"
    using assms(4,5) i by (simp add: word_less_nat_alt word_le_nat_alt unat_add_no_wrap)
  have k: "kern_pgdir t = kpd" using mem_change_fields(2) [OF spacedD(2) [OF Suc.prems(1)]] assms(2) by simp
  have "\<exists>c. mem_init_mp_loop (Suc n) percpu t =
      kbind (boot_map_region kpd (stack_base ?i) KSTKSIZE (?pa - KERNBASE) PTE_W) (\<lambda>_. mem_init_mp_loop n percpu) (t\<lparr>cons := c\<rparr>)"
    unfolding mem_init_mp_loop.simps Let_def stack_base_def using pa k by (simp add: kbind_Ret PADDR_def) blast
  then obtain c where c: "mem_init_mp_loop (Suc n) percpu t =
      kbind (boot_map_region kpd (stack_base ?i) KSTKSIZE (?pa - KERNBASE) PTE_W) (\<lambda>_. mem_init_mp_loop n percpu) (t\<lparr>cons := c\<rparr>)"
    by blast
  have sz: "unat (KSTKSIZE div PGSIZE) = 8" by (simp add: layout)
  obtain u zs where u: "boot_map_region kpd (stack_base ?i) KSTKSIZE (?pa - KERNBASE) PTE_W (t\<lparr>cons := c\<rparr>) = Ret () u"
    and sp: "spaced s kpd xs kernel_space (override_region (stack_base ?i) 8 (?pa - KERNBASE) PTE_W f) u zs"
    using map_region_spaced [OF spaced_cons [OF Suc.prems(1)] aligned_stack_base [OF i] _ stack_in_kernel_space [OF i]
        kernel_space_not_UVPT sz, of "?pa - KERNBASE" PTE_W c] by auto
  have up: "[?i..<8] = ?i # [8 - n..<8]" 
  proof -
    have "Suc ?i = 8 - n" using Suc.prems(2) by simp
    then show ?thesis using upt_conv_Cons [OF i] by (simp only:)
  qed
  have run: "mem_init_mp_loop (Suc n) percpu t = mem_init_mp_loop n percpu u"
    unfolding c by (rule kbind_Ret) (rule u)
  show ?case
    using Suc.IH [OF sp] Suc.prems(2) unfolding run up by (simp add: stacks_entry_def)
qed

definition kernel_entries :: "ksymbols \<Rightarrow> kstate \<Rightarrow> (u32 \<Rightarrow> u32) \<Rightarrow> u32 \<Rightarrow> u32" where
  "kernel_entries syms s f =
     stacks_entry (sym_percpu_kstacks syms) [0..<8]
       (override_region KERNBASE 65536 0 PTE_W
       (override_region (KSTACKTOP - KSTKSIZE) 8 (sym_bootstack syms - KERNBASE) PTE_W
       (override_region UENVS 1024 (envs_kva s - KERNBASE) PTE_U
       (override_region UPAGES 1024 (pages_kva s - KERNBASE) PTE_U f))))"

text \<open>The linker puts the stacks into the kernel image, page-aligned.\<close>

definition good_symbols :: "ksymbols \<Rightarrow> bool" where
  "good_symbols syms \<longleftrightarrow> KERNBASE \<le> sym_bootstack syms \<and> KERNBASE \<le> sym_percpu_kstacks syms \<and>
     aligned 4096 (sym_percpu_kstacks syms) \<and> unat (sym_percpu_kstacks syms) + 8 * 32768 \<le> 4294967296"

lemma kernel_regions:
  "region UPAGES 1024 \<subseteq> kernel_space" "region UENVS 1024 \<subseteq> kernel_space" "region KERNBASE 65536 \<subseteq> kernel_space"
  "region (KSTACKTOP - KSTKSIZE) 8 \<subseteq> kernel_space"
proof -
  have "region UPAGES 1024 \<subseteq> region UENVS 2048" "region UENVS 1024 \<subseteq> region UENVS 2048"
    by (auto simp: region_iff layout)
  then show "region UPAGES 1024 \<subseteq> kernel_space" "region UENVS 1024 \<subseteq> kernel_space" "region KERNBASE 65536 \<subseteq> kernel_space"
    unfolding kernel_space_def by blast+
  show "region (KSTACKTOP - KSTKSIZE) 8 \<subseteq> kernel_space"
    using stack_in_kernel_space [of 0] by (simp add: stack_base_def)
qed

lemma mem_init_maps_spaced:
  assumes "vm_ok s (kern_pgdir s) xs" "card (missing s (kern_pgdir s) kernel_space) \<le> length xs" "good_symbols syms"
    and "KERNBASE \<le> pages_kva s" "KERNBASE \<le> envs_kva s"
  shows "\<exists>t ys. mem_init_maps syms s = Ret () t \<and>
    spaced s (kern_pgdir s) xs kernel_space (kernel_entries syms s (pte_of s (kern_pgdir s))) t ys"
proof -
  let ?k = "kern_pgdir s" and ?K = kernel_space
  note step = map_region_spaced [where K = ?K and pgdir = ?k, OF _ _ _ _ kernel_space_not_UVPT]
  have sz: "unat (PTSIZE div PGSIZE) = 1024" "unat (KSTKSIZE div PGSIZE) = 8" "unat (- KERNBASE div PGSIZE) = 65536"
    by (simp_all add: layout)
  have al: "aligned 4096 UPAGES" "aligned 4096 UENVS" "aligned 4096 KERNBASE" "aligned 4096 (KSTACKTOP - KSTKSIZE)"
    by (simp_all add: aligned_def layout)
  obtain t1 y1 where 1: "boot_map_region ?k UPAGES PTSIZE (pages_kva s - KERNBASE) PTE_U s = Ret () t1"
    and s1: "spaced s ?k xs ?K (override_region UPAGES 1024 (pages_kva s - KERNBASE) PTE_U (pte_of s ?k)) t1 y1"
    using step [OF spaced_start [OF assms(1,2)] al(1) _ kernel_regions(1) sz(1)] by (rule exE) auto
  note s1' = spaced_cons [OF s1, of "snd (cprintf (''PADDR(pages) %x'' @ newline) [Word32 (pages_kva s - KERNBASE)] (cons t1))"]
  let ?t1 = "t1\<lparr>cons := snd (cprintf (''PADDR(pages) %x'' @ newline) [Word32 (pages_kva s - KERNBASE)] (cons t1))\<rparr>"
  note f1 = mem_change_fields [OF spacedD(2) [OF s1]]
  obtain t2 y2 where 2: "boot_map_region ?k UENVS PTSIZE (envs_kva s - KERNBASE) PTE_U ?t1 = Ret () t2"
    and s2: "spaced s ?k xs ?K (override_region UENVS 1024 (envs_kva s - KERNBASE) PTE_U
        (override_region UPAGES 1024 (pages_kva s - KERNBASE) PTE_U (pte_of s ?k))) t2 y2"
    using step [OF s1' al(2) _ kernel_regions(2) sz(1)] by (rule exE) auto
  obtain t3 y3 where 3: "boot_map_region ?k (KSTACKTOP - KSTKSIZE) KSTKSIZE (sym_bootstack syms - KERNBASE) PTE_W t2 = Ret () t3"
    and s3: "spaced s ?k xs ?K (override_region (KSTACKTOP - KSTKSIZE) 8 (sym_bootstack syms - KERNBASE) PTE_W
        (override_region UENVS 1024 (envs_kva s - KERNBASE) PTE_U
        (override_region UPAGES 1024 (pages_kva s - KERNBASE) PTE_U (pte_of s ?k)))) t3 y3"
    using step [OF s2 al(4) _ kernel_regions(4) sz(2)] by (rule exE) auto
  let ?t3 = "t3\<lparr>cons := snd (cprintf (''PADDR(bootstack) %x'' @ newline) [Word32 (sym_bootstack syms - KERNBASE)] (cons t3))\<rparr>"
  note s3' = spaced_cons [OF s3, of "snd (cprintf (''PADDR(bootstack) %x'' @ newline) [Word32 (sym_bootstack syms - KERNBASE)] (cons t3))"]
  obtain t4 y4 where 4: "boot_map_region ?k KERNBASE (- KERNBASE) 0 PTE_W ?t3 = Ret () t4"
    and s4: "spaced s ?k xs ?K (override_region KERNBASE 65536 0 PTE_W
        (override_region (KSTACKTOP - KSTKSIZE) 8 (sym_bootstack syms - KERNBASE) PTE_W
        (override_region UENVS 1024 (envs_kva s - KERNBASE) PTE_U
        (override_region UPAGES 1024 (pages_kva s - KERNBASE) PTE_U (pte_of s ?k))))) t4 y4"
    using step [OF s3' al(3) _ kernel_regions(3) sz(3)] by (rule exE) auto
  have syms: "KERNBASE \<le> sym_percpu_kstacks syms" "unat (sym_percpu_kstacks syms) + 8 * 32768 \<le> 4294967296"
    "\<not> sym_bootstack syms < KERNBASE"
    using assms(3) by (simp_all add: good_symbols_def not_less)
  obtain t5 y5 where 5: "mem_init_mp_loop 8 (sym_percpu_kstacks syms) t4 = Ret () t5"
    and s5: "spaced s ?k xs ?K (kernel_entries syms s (pte_of s ?k)) t5 y5"
    using mem_init_mp_spaced [OF s4 refl _ syms(1,2), of 8] unfolding kernel_entries_def by auto
  have pa: "PADDR (pages_kva s) st = Ret (pages_kva s - KERNBASE) st" "PADDR (envs_kva s) st = Ret (envs_kva s - KERNBASE) st"
    "PADDR (sym_bootstack syms) st = Ret (sym_bootstack syms - KERNBASE) st" for st
    using assms(4,5) syms(3) by (simp_all add: PADDR_def not_less)
  have "mem_init_maps syms s = Ret () t5"
    unfolding mem_init_maps_def mem_init_mp_def
    using 1 2 3 4 5 by (simp add: kbind_Ret pa f1(4))
  with s5 show ?thesis by blast
qed

text \<open>Reading the table of the kernel.\<close>

definition guard_base :: "nat \<Rightarrow> u32" where
  "guard_base i = KSTACKTOP - of_nat (i + 1) * (KSTKSIZE + KSTKGAP)"

lemma unat_guard_base: "i < 8 \<Longrightarrow> unat (guard_base i) = 4026466304 - 65536 * i"
proof -
  assume i: "i < 8"
  have m: "unat (of_nat i * 65536 :: u32) = i * 65536" using i by (simp add: unat_word_ariths unat_of_nat)
  have "guard_base i = 0xEFFF0000 - of_nat i * 65536" by (simp add: guard_base_def layout algebra_simps)
  then show ?thesis using i m by (simp add: unat_sub word_le_nat_alt)
qed

lemma guard_region:
  "i < 8 \<Longrightarrow> x \<in> region (guard_base i) 8 \<longleftrightarrow> 4026466304 - 65536 * i \<le> unat x \<and> unat x < 4026499072 - 65536 * i"
  using region_iff [of "guard_base i" 8 x] by (simp add: unat_guard_base)

lemma guard_not_stack: "i < 8 \<Longrightarrow> j < 8 \<Longrightarrow> x \<in> region (guard_base i) 8 \<Longrightarrow> x \<notin> region (stack_base j) 8"
  unfolding guard_region stack_region by (cases i j rule: linorder_cases) linarith+

lemma above_stacks: "KERNBASE \<le> x \<Longrightarrow> i < 8 \<Longrightarrow> x \<notin> region (stack_base i) 8"
proof -
  assume "KERNBASE \<le> x" "i < 8"
  then have "4026531840 \<le> unat x" by (simp add: word_le_nat_alt layout)
  then show ?thesis unfolding stack_region [OF \<open>i < 8\<close>] by linarith
qed

lemma below_stacks: "unat x < 4022337536 \<Longrightarrow> i < 8 \<Longrightarrow> x \<notin> region (stack_base i) 8"
  by (simp add: stack_region)

lemma high_region: "x \<in> region KERNBASE 65536 \<longleftrightarrow> KERNBASE \<le> x"
  using region_iff [of KERNBASE 65536 x] by (simp add: layout word_le_nat_alt)

lemma stack0_region: "region (KSTACKTOP - KSTKSIZE) 8 = region (stack_base 0) 8"
  by (simp add: stack_base_def)

lemma stacks_skip: "(\<And>i. i < 8 \<Longrightarrow> x \<notin> region (stack_base i) 8) \<Longrightarrow> stacks_entry percpu [0..<8] f x = f x"
  by (rule stacks_entry_other) simp

lemma table_regions:
  "x \<in> region UPAGES 1024 \<longleftrightarrow> unat UPAGES \<le> unat x \<and> unat x < unat UPAGES + 4194304"
  "x \<in> region UENVS 1024 \<longleftrightarrow> unat UENVS \<le> unat x \<and> unat x < unat UENVS + 4194304"
  by (simp_all add: region_iff layout)

lemma kernel_entries_high:
  "KERNBASE \<le> x \<Longrightarrow> kernel_entries syms s f x = PTE_ADDR (x - KERNBASE) OR PTE_W OR PTE_P"
  using stacks_skip [OF above_stacks, of x] by (simp add: kernel_entries_def override_region_def high_region region_entry_def)

lemma kernel_entries_arrays:
  "x \<in> region UPAGES 1024 \<Longrightarrow> kernel_entries syms s f x = region_entry UPAGES (pages_kva s - KERNBASE) PTE_U x"
  "x \<in> region UENVS 1024 \<Longrightarrow> kernel_entries syms s f x = region_entry UENVS (envs_kva s - KERNBASE) PTE_U x"
proof -
  have s: "stacks_entry p [0..<8] g x = g x" "x \<notin> region KERNBASE 65536" "x \<notin> region (KSTACKTOP - KSTKSIZE) 8"
    if "unat x < 4022337536" for p g
  proof -
    show "stacks_entry p [0..<8] g x = g x" by (rule stacks_skip [OF below_stacks [OF that]])
    show "x \<notin> region KERNBASE 65536" unfolding high_region using that by (simp add: word_le_nat_alt layout)
    show "x \<notin> region (KSTACKTOP - KSTKSIZE) 8" unfolding stack0_region using that by (intro below_stacks) simp_all
  qed
  have u: "unat UPAGES = 4009754624" "unat UENVS = 4005560320" by (simp_all add: layout)
  show "kernel_entries syms s f x = region_entry UPAGES (pages_kva s - KERNBASE) PTE_U x" if "x \<in> region UPAGES 1024"
  proof -
    have l: "unat x < 4022337536" "x \<notin> region UENVS 1024" using that unfolding table_regions u by linarith+
    then show ?thesis using that s(2,3) [OF l(1)] by (simp add: kernel_entries_def s(1) [OF l(1)] override_region_def)
  qed
  show "kernel_entries syms s f x = region_entry UENVS (envs_kva s - KERNBASE) PTE_U x" if "x \<in> region UENVS 1024"
  proof -
    have l: "unat x < 4022337536" using that unfolding table_regions u by linarith
    then show ?thesis using that s(2,3) [OF l] by (simp add: kernel_entries_def s(1) [OF l] override_region_def)
  qed
qed

lemma kernel_entries_stack:
  "i < 8 \<Longrightarrow> x \<in> region (stack_base i) 8 \<Longrightarrow> kernel_entries syms s f x =
     region_entry (stack_base i) (sym_percpu_kstacks syms + of_nat i * KSTKSIZE - KERNBASE) PTE_W x"
  unfolding kernel_entries_def by (rule stacks_entry_at) auto

lemma kernel_entries_other:
  assumes "x \<notin> region UPAGES 1024" "x \<notin> region UENVS 1024" "\<not> KERNBASE \<le> x" "\<And>i. i < 8 \<Longrightarrow> x \<notin> region (stack_base i) 8"
  shows "kernel_entries syms s f x = f x"
  using stacks_skip [OF assms(4)] assms by (simp add: kernel_entries_def override_region_def high_region stack0_region)

lemma kernel_entries_guard: "i < 8 \<Longrightarrow> x \<in> region (guard_base i) 8 \<Longrightarrow> kernel_entries syms s f x = f x"
proof (rule kernel_entries_other)
  assume i: "i < 8" "x \<in> region (guard_base i) 8"
  have b: "4026007552 \<le> unat x" "unat x < 4026499072" using i(2) i(1) unfolding guard_region [OF i(1)] by linarith+
  then show "x \<notin> region UPAGES 1024" "x \<notin> region UENVS 1024" "\<not> KERNBASE \<le> x"
    unfolding table_regions by (simp_all add: layout word_le_nat_alt)
  show "x \<notin> region (stack_base j) 8" if "j < 8" for j by (rule guard_not_stack [OF i(1) that i(2)])
qed

lemma kernel_entries_user: "x < UTOP \<Longrightarrow> kernel_entries syms s f x = f x"
proof (rule kernel_entries_other)
  assume "x < UTOP"
  then have b: "unat x < 4005560320" by (simp add: word_less_nat_alt layout)
  then show "x \<notin> region UPAGES 1024" "x \<notin> region UENVS 1024" "\<not> KERNBASE \<le> x"
    unfolding table_regions by (simp_all add: layout word_le_nat_alt)
  show "x \<notin> region (stack_base i) 8" if "i < 8" for i using b that by (intro below_stacks) simp_all
qed

end
