(* ===== verification/User_Lib.thy ===== *)
theory User_Lib
  imports Syscall
begin

text \<open>
  The user library: lib/syscall.c, lib/pgfault.c, lib/fork.c, lib/ipc.c, lib/exit.c,
  lib/libmain.c, lib/console.c and lib/printf.c.  User code runs on the kernel state, in the environment that is
  current, in user mode; its globals are in user memory, at addresses the linker chooses, and its
  local variables are not in the modelled memory.  An access without a translation ends the run
  here: what the kernel then does is \<open>page_fault_handler\<close>.

  A system call traps into the kernel and comes back with the result of \<open>syscall\<close>, unless the
  environment has given up the CPU.  What the other environments and the devices do to the state
  until it runs again is a parameter, the world, which answers \<open>None\<close> when it never does.
\<close>

type_synonym world = "kstate \<Rightarrow> kstate option"

record uimage =
  sym_pgfault_handler :: u32 \<comment> \<open>the global \<open>_pgfault_handler\<close>\<close>
  sym_pgfault_upcall :: u32 \<comment> \<open>the entry point in lib/pfentry.S\<close>
  sym_pgfault :: u32 \<comment> \<open>the function \<open>pgfault\<close> of lib/fork.c\<close>
  sym_thisenv :: u32 \<comment> \<open>the global \<open>thisenv\<close>\<close>
  sym_binaryname :: u32 \<comment> \<open>the global \<open>binaryname\<close>\<close>
  sym_csa :: u32 \<comment> \<open>the global \<open>csa\<close> of inc/csa.h\<close>

subsection \<open>User memory\<close>

definition uload8 :: "u32 \<Rightarrow> u8 kernel" where
  "uload8 va s = (case translate s True False va of
     None \<Rightarrow> Panic ''User page fault'' s | Some pa \<Rightarrow> Ret (pmem s pa) s)"

definition ustore8 :: "u32 \<Rightarrow> u8 \<Rightarrow> unit kernel" where
  "ustore8 va b s = (case translate s True True va of
     None \<Rightarrow> Panic ''User page fault'' s | Some pa \<Rightarrow> Ret () (s\<lparr>pmem := (pmem s)(pa := b)\<rparr>))"

definition uload32 :: "u32 \<Rightarrow> u32 kernel" where
  "uload32 va =
     kbind (uload8 va) (\<lambda>b0. kbind (uload8 (va + 1)) (\<lambda>b1.
     kbind (uload8 (va + 2)) (\<lambda>b2. kbind (uload8 (va + 3)) (\<lambda>b3.
     kret (ucast b0 OR push_bit 8 (ucast b1) OR push_bit 16 (ucast b2) OR push_bit 24 (ucast b3))))))"

definition ustore32 :: "u32 \<Rightarrow> u32 \<Rightarrow> unit kernel" where
  "ustore32 va v =
     kbind (ustore8 va (ucast v)) (\<lambda>_.
     kbind (ustore8 (va + 1) (ucast (drop_bit 8 v))) (\<lambda>_.
     kbind (ustore8 (va + 2) (ucast (drop_bit 16 v))) (\<lambda>_.
     ustore8 (va + 3) (ucast (drop_bit 24 v)))))"

text \<open>\<open>memcpy\<close> is \<open>memmove\<close>, which copies backwards when the destination starts inside the source.\<close>

definition umemcpy :: "u32 \<Rightarrow> u32 \<Rightarrow> nat \<Rightarrow> unit kernel" where
  "umemcpy dst src n =
     (let offs = map of_nat [0..<n]
      in kfor (if src < dst \<and> src + of_nat n > dst then rev offs else offs) (\<lambda>k :: u32.
        kbind (uload8 (src + k)) (\<lambda>b. ustore8 (dst + k) b)))"

text \<open>The page tables, read through the mapping the kernel has put at \<open>UVPT\<close> (lib/entry.S).\<close>

definition uvpt :: "u32 \<Rightarrow> u32 kernel" where
  "uvpt n = uload32 (UVPT + 4 * n)"

definition uvpd :: "u32 \<Rightarrow> u32 kernel" where
  "uvpd n = uload32 (UVPT + drop_bit 12 UVPT * 4 + 4 * n)"

subsection \<open>System calls (lib/syscall.c)\<close>

definition user_panic :: "string \<Rightarrow> 'a kernel" where
  "user_panic msg = kpanic (''user panic: '' @ msg)"

text \<open>The environment \<open>c\<close> runs again, with what is then in its register \<open>eax\<close>.\<close>

definition resume :: "world \<Rightarrow> nat \<Rightarrow> u32 kernel" where
  "resume w c t = (case w t of None \<Rightarrow> Leave Cpu_halt t
     | Some u \<Rightarrow> Ret (reg_eax (tf_regs (env_tf (envs u c)))) u)"

definition set_eax :: "u32 \<Rightarrow> Env \<Rightarrow> Env" where
  "set_eax r env = env\<lparr>env_tf := (env_tf env)\<lparr>tf_regs := (tf_regs (env_tf env))\<lparr>reg_eax := r\<rparr>\<rparr>\<rparr>"

text \<open>\<open>int T_SYSCALL\<close>.\<close>

definition int_syscall :: "world \<Rightarrow> u32 \<Rightarrow> u32 \<Rightarrow> u32 \<Rightarrow> u32 \<Rightarrow> u32 \<Rightarrow> u32 \<Rightarrow> u32 kernel" where
  "int_syscall w num a1 a2 a3 a4 a5 =
     kbind the_curenv (\<lambda>c s. case syscall num a1 a2 a3 a4 a5 s of
       Ret r t \<Rightarrow> if env_status (envs t c) = ENV_RUNNING then Ret r t
         else resume w c (upd_env c (set_eax r) t)
     | Panic msg t \<Rightarrow> Panic msg t
     | Leave e t \<Rightarrow> if e = Spin then Leave e t else resume w c t)"

definition usyscall :: "world \<Rightarrow> u32 \<Rightarrow> bool \<Rightarrow> u32 \<Rightarrow> u32 \<Rightarrow> u32 \<Rightarrow> u32 \<Rightarrow> u32 \<Rightarrow> u32 kernel" where
  "usyscall w num check a1 a2 a3 a4 a5 =
     kbind (int_syscall w num a1 a2 a3 a4 a5) (\<lambda>ret.
     if check \<and> 0 < sint ret then user_panic ''syscall %d returned %d (> 0)'' else kret ret)"

definition usys_cputs :: "world \<Rightarrow> u32 \<Rightarrow> u32 \<Rightarrow> unit kernel" where
  "usys_cputs w p len = kbind (usyscall w SYS_cputs False p len 0 0 0) (\<lambda>_. kret ())"

definition usys_cgetc :: "world \<Rightarrow> u32 kernel" where
  "usys_cgetc w = usyscall w SYS_cgetc False 0 0 0 0 0"

definition usys_env_destroy :: "world \<Rightarrow> u32 \<Rightarrow> u32 kernel" where
  "usys_env_destroy w envid = usyscall w SYS_env_destroy True envid 0 0 0 0"

definition usys_getenvid :: "world \<Rightarrow> u32 kernel" where
  "usys_getenvid w = usyscall w SYS_getenvid False 0 0 0 0 0"

definition usys_yield :: "world \<Rightarrow> unit kernel" where
  "usys_yield w = kbind (usyscall w SYS_yield False 0 0 0 0 0) (\<lambda>_. kret ())"

definition usys_page_alloc :: "world \<Rightarrow> u32 \<Rightarrow> u32 \<Rightarrow> u32 \<Rightarrow> u32 kernel" where
  "usys_page_alloc w envid va perm = usyscall w SYS_page_alloc True envid va perm 0 0"

definition usys_page_map :: "world \<Rightarrow> u32 \<Rightarrow> u32 \<Rightarrow> u32 \<Rightarrow> u32 \<Rightarrow> u32 \<Rightarrow> u32 kernel" where
  "usys_page_map w srcenv srcva dstenv dstva perm =
     usyscall w SYS_page_map True srcenv srcva dstenv dstva perm"

definition usys_page_unmap :: "world \<Rightarrow> u32 \<Rightarrow> u32 \<Rightarrow> u32 kernel" where
  "usys_page_unmap w envid va = usyscall w SYS_page_unmap True envid va 0 0 0"

definition usys_env_set_status :: "world \<Rightarrow> u32 \<Rightarrow> u32 \<Rightarrow> u32 kernel" where
  "usys_env_set_status w envid status = usyscall w SYS_env_set_status True envid status 0 0 0"

definition usys_env_set_pgfault_upcall :: "world \<Rightarrow> u32 \<Rightarrow> u32 \<Rightarrow> u32 kernel" where
  "usys_env_set_pgfault_upcall w envid upcall =
     usyscall w SYS_env_set_pgfault_upcall True envid upcall 0 0 0"

definition usys_ipc_try_send :: "world \<Rightarrow> u32 \<Rightarrow> u32 \<Rightarrow> u32 \<Rightarrow> u32 \<Rightarrow> u32 kernel" where
  "usys_ipc_try_send w envid val srcva perm =
     usyscall w SYS_ipc_try_send False envid val srcva perm 0"

definition usys_ipc_recv :: "world \<Rightarrow> u32 \<Rightarrow> u32 kernel" where
  "usys_ipc_recv w dstva = usyscall w SYS_ipc_recv True dstva 0 0 0 0"

definition usys_change_pr :: "world \<Rightarrow> u32 \<Rightarrow> u32 kernel" where
  "usys_change_pr w p = usyscall w SYS_change_pr False p 0 0 0 0"

text \<open>\<open>sys_exofork\<close> of inc/lib.h has no check of its result.\<close>

definition usys_exofork :: "world \<Rightarrow> u32 kernel" where
  "usys_exofork w = int_syscall w SYS_exofork 0 0 0 0 0"

subsection \<open>The page-fault handler (lib/pgfault.c)\<close>

definition set_pgfault_handler :: "world \<Rightarrow> uimage \<Rightarrow> u32 \<Rightarrow> unit kernel" where
  "set_pgfault_handler w im handler =
     kbind (uload32 (sym_pgfault_handler im)) (\<lambda>old.
     kbind (if old = 0 then
         kbind (usys_page_alloc w 0 (UXSTACKTOP - PGSIZE) (PTE_W OR PTE_U OR PTE_P)) (\<lambda>r.
         if sint r < 0 then user_panic ''set_pgfault_handler:sys_page_alloc failed'' else kret ())
       else kret ()) (\<lambda>_.
     kbind (ustore32 (sym_pgfault_handler im) handler) (\<lambda>_.
     kbind (usys_env_set_pgfault_upcall w 0 (sym_pgfault_upcall im)) (\<lambda>r.
     if sint r < 0 then user_panic ''set_pgfault_handler:sys_env_set_pgfault_upcall failed''
     else kret ()))))"

subsection \<open>Copy-on-write fork (lib/fork.c)\<close>

definition PTE_COW :: u32 where [layout]: "PTE_COW = 0x800"

text \<open>The conditions on the page tables, evaluated from left to right.\<close>

definition cow_fault :: "u32 \<Rightarrow> u32 \<Rightarrow> bool kernel" where
  "cow_fault err addr =
     (if err AND FEC_WR = 0 then kret False
      else kbind (uvpd (PDX addr)) (\<lambda>d. if d AND PTE_P = 0 then kret False
      else kbind (uvpt (PGNUM addr)) (\<lambda>p. if p AND PTE_P = 0 then kret False
      else kbind (uvpt (PGNUM addr)) (\<lambda>p. kret (p AND PTE_COW \<noteq> 0)))))"

definition pgfault :: "world \<Rightarrow> u32 \<Rightarrow> unit kernel" where
  "pgfault w utf =
     kbind (uload32 utf) (\<lambda>addr.
     kbind (uload32 (utf + 4)) (\<lambda>err.
     kbind (cow_fault err addr) (\<lambda>ok.
     if \<not> ok then user_panic ''not copy-on-write''
     else
       let addr = ROUNDDOWN addr PGSIZE in
       kbind (usys_page_alloc w 0 PFTEMP (PTE_W OR PTE_U OR PTE_P)) (\<lambda>r.
       if sint r < 0 then user_panic ''sys_page_alloc''
       else
         kbind (umemcpy PFTEMP addr 4096) (\<lambda>_.
         kbind (usys_page_map w 0 PFTEMP 0 addr (PTE_W OR PTE_U OR PTE_P)) (\<lambda>r.
         if sint r < 0 then user_panic ''sys_page_map''
         else
           kbind (usys_page_unmap w 0 PFTEMP) (\<lambda>r.
           if sint r < 0 then user_panic ''sys_page_unmap'' else kret ())))))))"

definition duppage :: "world \<Rightarrow> u32 \<Rightarrow> u32 \<Rightarrow> u32 kernel" where
  "duppage w envid pn =
     (let addr = pn * PGSIZE in
     kbind (kbind (uvpt pn) (\<lambda>p. if p AND PTE_W \<noteq> 0 then kret True
       else kbind (uvpt pn) (\<lambda>p. kret (p AND PTE_COW \<noteq> 0)))) (\<lambda>cow.
     if cow then
       kbind (usys_page_map w 0 addr envid addr (PTE_COW OR PTE_U OR PTE_P)) (\<lambda>r.
       if sint r < 0 then user_panic ''2''
       else
         kbind (usys_page_map w 0 addr 0 addr (PTE_COW OR PTE_U OR PTE_P)) (\<lambda>r.
         if sint r < 0 then user_panic ''3'' else kret 0))
     else
       kbind (usys_page_map w 0 addr envid addr (PTE_U OR PTE_P)) (\<lambda>_.
       kret 0)))"

definition user_page :: "u32 \<Rightarrow> bool kernel" where
  "user_page addr =
     kbind (uvpd (PDX addr)) (\<lambda>d. if d AND PTE_P = 0 then kret False
     else kbind (uvpt (PGNUM addr)) (\<lambda>p. if p AND PTE_P = 0 then kret False
     else kbind (uvpt (PGNUM addr)) (\<lambda>p. kret (p AND PTE_U \<noteq> 0))))"

text \<open>The loop of \<open>fork\<close> over the pages below \<open>USTACKTOP\<close>.\<close>

definition dup_one :: "world \<Rightarrow> u32 \<Rightarrow> u32 \<Rightarrow> unit kernel" where
  "dup_one w envid addr =
     kbind (user_page addr) (\<lambda>b.
     if b then kbind (duppage w envid (PGNUM addr)) (\<lambda>_. kret ()) else kret ())"

definition dup_pages :: "world \<Rightarrow> u32 \<Rightarrow> unit kernel" where
  "dup_pages w envid =
     kfor (map (\<lambda>i. of_nat i * PGSIZE) [0..<unat USTACKTOP div 4096]) (dup_one w envid)"

text \<open>What the parent does with the child once it exists.\<close>

definition fork_parent :: "world \<Rightarrow> uimage \<Rightarrow> u32 \<Rightarrow> u32 kernel" where
  "fork_parent w im envid =
     kbind (dup_pages w envid) (\<lambda>_.
     kbind (usys_page_alloc w envid (UXSTACKTOP - PGSIZE) (PTE_U OR PTE_W OR PTE_P)) (\<lambda>r.
     if sint r < 0 then user_panic ''1''
     else
       kbind (usys_env_set_pgfault_upcall w envid (sym_pgfault_upcall im)) (\<lambda>_.
       kbind (usys_env_set_status w envid ENV_RUNNABLE) (\<lambda>r.
       if sint r < 0 then user_panic ''sys_env_set_status'' else kret envid))))"

text \<open>\<open>thisenv = &envs[ENVX(sys_getenvid())]\<close>.\<close>

definition set_thisenv :: "world \<Rightarrow> uimage \<Rightarrow> unit kernel" where
  "set_thisenv w im =
     kbind (usys_getenvid w) (\<lambda>envid.
     ustore32 (sym_thisenv im) (UENVS + sizeof_Env * of_nat (ENVX envid)))"

text \<open>
  After \<open>sys_exofork\<close> both environments go on from here, each with its own result of the call.
\<close>

definition fork_from :: "world \<Rightarrow> uimage \<Rightarrow> u32 \<Rightarrow> u32 kernel" where
  "fork_from w im envid =
     (if envid = 0 then kbind (set_thisenv w im) (\<lambda>_. kret 0)
      else if sint envid < 0 then user_panic ''sys_exofork: %e''
      else fork_parent w im envid)"

definition fork :: "world \<Rightarrow> uimage \<Rightarrow> u32 kernel" where
  "fork w im =
     kbind (set_pgfault_handler w im (sym_pgfault im)) (\<lambda>_.
     kbind (usys_exofork w) (fork_from w im))"

definition pfork :: "world \<Rightarrow> uimage \<Rightarrow> u32 \<Rightarrow> u32 kernel" where
  "pfork w im p =
     kbind (set_pgfault_handler w im (sym_pgfault im)) (\<lambda>_.
     kbind (usys_exofork w) (\<lambda>envid.
     if envid = 0 then
       kbind (set_thisenv w im) (\<lambda>_. kbind (usys_change_pr w p) (\<lambda>_. kret 0))
     else if sint envid < 0 then user_panic ''sys_exofork: %e''
     else fork_parent w im envid))"

definition sfork :: "u32 kernel" where
  "sfork = user_panic ''sfork not implemented''"

subsection \<open>Messages (lib/ipc.c)\<close>

text \<open>A field of \<open>*thisenv\<close>, read through the mapping of \<open>envs\<close> at \<open>UENVS\<close>.\<close>

definition thisenv_field :: "uimage \<Rightarrow> (Env \<Rightarrow> 'a) \<Rightarrow> 'a kernel" where
  "thisenv_field im g =
     kbind (uload32 (sym_thisenv im)) (\<lambda>p.
     if UENVS \<le> p \<and> p < UENVS + sizeof_Env * of_nat NENV \<and> (p - UENVS) mod sizeof_Env = 0 then
       kget (\<lambda>s. g (envs s (unat ((p - UENVS) div sizeof_Env))))
     else kpanic ''User page fault'')"

definition ustore_opt :: "u32 \<Rightarrow> u32 \<Rightarrow> unit kernel" where
  "ustore_opt p v = (if p \<noteq> 0 then ustore32 p v else kret ())"

definition ipc_recv :: "world \<Rightarrow> uimage \<Rightarrow> u32 \<Rightarrow> u32 \<Rightarrow> u32 \<Rightarrow> u32 kernel" where
  "ipc_recv w im from_env_store pg perm_store =
     kbind (ustore_opt from_env_store 0) (\<lambda>_.
     kbind (ustore_opt perm_store 0) (\<lambda>_.
     kbind (usys_ipc_recv w (if pg = 0 then - 1 else pg)) (\<lambda>ret.
     if ret \<noteq> 0 then kret ret
     else
       kbind (if from_env_store \<noteq> 0 then
           kbind (thisenv_field im env_ipc_from) (ustore32 from_env_store) else kret ()) (\<lambda>_.
       kbind (if perm_store \<noteq> 0 then
           kbind (thisenv_field im env_ipc_perm) (ustore32 perm_store) else kret ()) (\<lambda>_.
       thisenv_field im env_ipc_value)))))"

text \<open>The loop of \<open>ipc_send\<close>, followed for a number of attempts.\<close>

primrec ipc_send_loop :: "nat \<Rightarrow> world \<Rightarrow> u32 \<Rightarrow> u32 \<Rightarrow> u32 \<Rightarrow> u32 \<Rightarrow> unit kernel" where
  "ipc_send_loop 0 w to_env val pg perm = kleave Spin"
| "ipc_send_loop (Suc n) w to_env val pg perm =
     kbind (usys_ipc_try_send w to_env val pg perm) (\<lambda>ret.
     if ret = 0 then kret ()
     else if ret \<noteq> - E_IPC_NOT_RECV then user_panic ''not E_IPC_NOT_RECV, %e''
     else kbind (usys_yield w) (\<lambda>_. ipc_send_loop n w to_env val pg perm))"

definition ipc_send :: "nat \<Rightarrow> world \<Rightarrow> u32 \<Rightarrow> u32 \<Rightarrow> u32 \<Rightarrow> u32 \<Rightarrow> unit kernel" where
  "ipc_send n w to_env val pg perm = ipc_send_loop n w to_env val (if pg = 0 then - 1 else pg) perm"

text \<open>The first environment of a type, found through the mapping of \<open>envs\<close>; free slots count.\<close>

definition ipc_find_env :: "EnvType \<Rightarrow> u32 kernel" where
  "ipc_find_env ty = kget (\<lambda>s. case find (\<lambda>i. env_type (envs s i) = ty) [0..<NENV] of
     None \<Rightarrow> 0 | Some i \<Rightarrow> env_id (envs s i))"

subsection \<open>Start and exit\<close>

definition user_exit :: "world \<Rightarrow> unit kernel" where
  "user_exit w = kbind (usys_env_destroy w 0) (\<lambda>_. kret ())"

text \<open>The program itself is a parameter.\<close>

definition libmain :: "world \<Rightarrow> uimage \<Rightarrow> (u32 \<Rightarrow> u32 \<Rightarrow> unit kernel) \<Rightarrow> u32 \<Rightarrow> u32 \<Rightarrow> unit kernel" where
  "libmain w im umain argc argv =
     kbind (set_thisenv w im) (\<lambda>_.
     kbind (if 0 < sint argc then kbind (uload32 argv) (ustore32 (sym_binaryname im)) else kret ()) (\<lambda>_.
     kbind (umain argc argv) (\<lambda>_. user_exit w)))"

subsection \<open>Console (lib/console.c, lib/printf.c)\<close>

text \<open>The local character of \<open>cputchar\<close> is at the address \<open>p\<close> of the stack.\<close>

definition user_cputchar :: "world \<Rightarrow> u32 \<Rightarrow> u32 \<Rightarrow> unit kernel" where
  "user_cputchar w p ch = kbind (ustore8 p (ucast ch)) (\<lambda>_. usys_cputs w p 1)"

text \<open>\<open>getchar\<close>, followed for a number of attempts.\<close>

primrec user_getchar :: "nat \<Rightarrow> world \<Rightarrow> u32 kernel" where
  "user_getchar 0 w = kleave Spin"
| "user_getchar (Suc n) w =
     kbind (usys_cgetc w) (\<lambda>r. if r = 0 then kbind (usys_yield w) (\<lambda>_. user_getchar n w) else kret r)"

text \<open>
  The buffer of \<open>vcprintf\<close> is at the address \<open>b\<close> of the stack; its counters are local variables
  here.  The formatting of the user library is that of the kernel, with a colour of its own.
\<close>

type_synonym printbuf = "u32 \<times> u32" \<comment> \<open>\<open>idx\<close> and \<open>cnt\<close>\<close>

definition user_putch :: "world \<Rightarrow> u32 \<Rightarrow> u32 \<Rightarrow> printbuf \<Rightarrow> printbuf kernel" where
  "user_putch w b ch = (\<lambda>(idx, cnt).
     kbind (ustore8 (b + idx) (ucast ch)) (\<lambda>_.
     kbind (if idx + 1 = 255 then kbind (usys_cputs w b (idx + 1)) (\<lambda>_. kret 0) else kret (idx + 1)) (\<lambda>idx.
     kret (idx, cnt + 1))))"

primrec user_print :: "world \<Rightarrow> uimage \<Rightarrow> u32 \<Rightarrow> pevent list \<Rightarrow> printbuf \<Rightarrow> printbuf kernel" where
  "user_print w im b [] st = kret st"
| "user_print w im b (ev # evs) st =
     kbind (case ev of Putch ch \<Rightarrow> user_putch w b ch st
       | Set_csa v \<Rightarrow> kbind (ustore32 (sym_csa im) v) (\<lambda>_. kret st)) (user_print w im b evs)"

text \<open>A missing argument of the variadic call is undefined in C and ends the run here.\<close>

definition user_vcprintf :: "world \<Rightarrow> uimage \<Rightarrow> u32 \<Rightarrow> string \<Rightarrow> varg list \<Rightarrow> u32 kernel" where
  "user_vcprintf w im b fmt ap = (case vprintfmt fmt ap of
     None \<Rightarrow> kpanic ''undefined argument''
   | Some evs \<Rightarrow>
       kbind (user_print w im b evs (0, 0)) (\<lambda>(idx, cnt).
       kbind (usys_cputs w b idx) (\<lambda>_. kret cnt)))"

definition user_cprintf :: "world \<Rightarrow> uimage \<Rightarrow> u32 \<Rightarrow> string \<Rightarrow> varg list \<Rightarrow> u32 kernel" where
  "user_cprintf w im b fmt ap = user_vcprintf w im b fmt ap"

end
