(* ===== verification/User_Spec.thy ===== *)
theory User_Spec
  imports Isolation_Spec User_Lib
begin

text \<open>
  User code: it reads the page tables through the self-map at \<open>UVPT\<close>, its system calls on memory
  act on all address spaces as \<open>page_insert\<close> and \<open>page_remove\<close> do, and what it reads and may write
  is what the translation of the processor gives.
\<close>

subsection \<open>Accesses of user code\<close>

lemma translate_page:
  assumes "aligned 4096 b" "unat k < 4096"
    and "access_ok s user wr (hw_pde s b)" "access_ok s user wr (hw_pte s b)"
  shows "translate s user wr (b + k) = Some (PTE_ADDR (hw_pte s b) + k)"
proof -
  have "hw_pde s (b + k) = hw_pde s b" "hw_pte s (b + k) = hw_pte s b"
    using assms(1,2) by (simp_all add: hw_pde_def hw_pte_def same_page_offset)
  with assms show ?thesis
    by (simp add: translate_hw same_page_offset or_offset)
qed

lemma uload32_page:
  assumes "aligned 4096 b" "unat k + 4 \<le> 4096"
    and "access_ok s True False (hw_pde s b)" "access_ok s True False (hw_pte s b)"
  shows "uload32 (b + k) s = Ret (load32 (pmem s) (PTE_ADDR (hw_pte s b) + k)) s"
proof -
  have "unat (k + 1) < 4096" "unat (k + 2) < 4096" "unat (k + 3) < 4096"
    using assms(2) by (simp_all add: unat_add_no_wrap)
  moreover have a: "b + k + 1 = b + (k + 1)" "b + k + 2 = b + (k + 2)" "b + k + 3 = b + (k + 3)"
    by (simp_all add: add.assoc)
  ultimately have "uload8 (b + k) s = Ret (pmem s (PTE_ADDR (hw_pte s b) + k)) s"
    "uload8 (b + k + 1) s = Ret (pmem s (PTE_ADDR (hw_pte s b) + k + 1)) s"
    "uload8 (b + k + 2) s = Ret (pmem s (PTE_ADDR (hw_pte s b) + k + 2)) s"
    "uload8 (b + k + 3) s = Ret (pmem s (PTE_ADDR (hw_pte s b) + k + 3)) s"
    using assms unfolding a by (simp_all add: uload8_def translate_page add.assoc)
  then show ?thesis by (simp add: uload32_def kbind_Ret kret_def load32_def)
qed

subsection \<open>The page tables as user code sees them\<close>

text \<open>The directory maps itself at \<open>UVPT\<close>, and user code may read its tables.\<close>

definition self_map :: "kstate \<Rightarrow> u32 \<Rightarrow> bool" where
  "self_map s d \<longleftrightarrow> pde_of s d UVPT = (d - KERNBASE) OR PTE_P OR PTE_U \<and>
     (\<forall>va. va < UTOP \<longrightarrow> has_table s d va \<longrightarrow> user_table (pde_of s d va))"

text \<open>The environment \<open>c\<close> runs on this CPU.\<close>

definition running :: "kstate \<Rightarrow> nat \<Rightarrow> bool" where
  "running s c \<longleftrightarrow> curenv s = Some c \<and> live s c \<and> env_status (envs s c) = ENV_RUNNING \<and>
     cr3 s (thiscpu s) = env_pgdir (envs s c) - KERNBASE \<and> self_map s (env_pgdir (envs s c))"

lemma PGNUM_split: "PGNUM va = 1024 * PDX va + PTX va"
proof -
  have "unat (1024 * PDX va + PTX va) = 1024 * unat (PDX va) + unat (PTX va)"
    using PDX_less [of va] PTX_less [of va] by (simp add: unat_word_ariths)
  also have "\<dots> = 1024 * (unat va div 4096 div 1024) + unat va div 4096 mod 1024"
    by (simp add: unat_PDX unat_PTX flip: div_mult2_eq)
  also have "\<dots> = unat va div 4096" by (rule mult_div_mod_eq)
  finally show ?thesis by (simp add: word_unat_eq_iff unat_PGNUM)
qed

lemma uvpt_page:
  fixes i :: u32
  assumes "unat i < 1024"
  defines "b \<equiv> UVPT + 4096 * i"
  shows "aligned 4096 b" "PDX b = PDX UVPT" "PTX b = i"
proof -
  have u: "unat b = 4096 * (979968 + unat i)"
    using assms by (simp add: b_def layout unat_word_ariths)
  then show "aligned 4096 b" by (simp add: aligned_def)
  have "unat b div 4194304 = (979968 + unat i) div 1024" unfolding u by (simp add: div_mult2_eq [of _ 4096 1024, simplified])
  also have "\<dots> = 957" using assms(1) by simp
  finally have "unat (PDX b) = 957" by (simp add: unat_PDX)
  moreover have "unat (PDX UVPT) = 957" by (simp add: unat_PDX layout)
  ultimately show "PDX b = PDX UVPT" by (simp only: word_unat_eq_iff)
  have "unat b div 4096 mod 1024 = (979968 + unat i) mod 1024" unfolding u by simp
  also have "\<dots> = unat i" using assms(1) by (simp add: mod_add_left_eq [symmetric, of 979968])
  finally show "PTX b = i" by (simp only: word_unat_eq_iff unat_PTX)
qed

lemma self_map_entries:
  assumes "self_map s d" "aligned 4096 (d - KERNBASE)" "cr3 s (thiscpu s) = d - KERNBASE" "unat i < 1024"
  defines "b \<equiv> UVPT + 4096 * i"
  shows "hw_pde s b = (d - KERNBASE) OR PTE_P OR PTE_U"
    and "hw_pte s b = load32 (pmem s) (d - KERNBASE + 4 * i)"
    and "access_ok s True False (hw_pde s b)"
proof -
  note u = uvpt_page [OF assms(4), folded b_def]
  have "hw_pde s b = pde_of s d b" by (rule hw_is_pgdir [OF assms(3,2)])
  also have "\<dots> = pde_of s d UVPT" by (rule pde_PDX_cong [OF u(2)])
  finally show p: "hw_pde s b = (d - KERNBASE) OR PTE_P OR PTE_U" using assms(1) by (simp add: self_map_def)
  have "PTE_ADDR ((d - KERNBASE) OR (PTE_P OR PTE_U)) = d - KERNBASE"
    by (rule PTE_ADDR_or [OF assms(2)]) (simp add: layout)
  then show "hw_pte s b = load32 (pmem s) (d - KERNBASE + 4 * i)"
    by (simp add: hw_pte_def p u(3) or.assoc)
  have "bit (((d - KERNBASE) OR PTE_P OR PTE_U) AND PTE_U) 2" by (simp add: bit_simps layout)
  then have "((d - KERNBASE) OR PTE_P OR PTE_U) AND PTE_U \<noteq> 0" using bit_0_eq by force
  then show "access_ok s True False (hw_pde s b)" by (simp add: p access_ok_def)
qed

lemma uvpd_Ret:
  assumes "running s c" "aligned 4096 (env_pgdir (envs s c) - KERNBASE)"
  shows "uvpd (PDX va) s = Ret (pde_of s (env_pgdir (envs s c)) va) s"
proof -
  let ?d = "env_pgdir (envs s c)" and ?b = "UVPT + 4096 * PDX UVPT"
  have r: "self_map s ?d" "cr3 s (thiscpu s) = ?d - KERNBASE" using assms(1) by (auto simp: running_def)
  note e = self_map_entries [OF r(1) assms(2) r(2) PDX_less [of UVPT]]
  have pde: "hw_pte s ?b = (?d - KERNBASE) OR (PTE_P OR PTE_U)"
    using e(2) r(1) by (simp add: self_map_def pde_of_def or.assoc)
  then have "access_ok s True False (hw_pte s ?b)" using e(1,3) by (simp add: or.assoc)
  moreover have "PTE_ADDR (hw_pte s ?b) = ?d - KERNBASE"
    unfolding pde by (rule PTE_ADDR_or [OF assms(2)]) (simp add: layout)
  moreover have "unat (4 * PDX va) + 4 \<le> 4096" using PDX_less [of va] by (simp add: unat_times4)
  ultimately have "uload32 (?b + 4 * PDX va) s = Ret (load32 (pmem s) (?d - KERNBASE + 4 * PDX va)) s"
    using uload32_page [OF uvpt_page(1) [OF PDX_less] _ e(3)] by simp
  moreover have "UVPT + drop_bit 12 UVPT * 4 = ?b" by (simp add: layout)
  ultimately show ?thesis by (simp add: uvpd_def pde_of_def)
qed

lemma uvpt_Ret:
  assumes "running s c" "aligned 4096 (env_pgdir (envs s c) - KERNBASE)"
    and "va < UTOP" "has_table s (env_pgdir (envs s c)) va"
  shows "uvpt (PGNUM va) s = Ret (pte_of s (env_pgdir (envs s c)) va) s"
proof -
  let ?d = "env_pgdir (envs s c)" and ?b = "UVPT + 4096 * PDX va"
  have r: "self_map s ?d" "cr3 s (thiscpu s) = ?d - KERNBASE" using assms(1) by (auto simp: running_def)
  note e = self_map_entries [OF r(1) assms(2) r(2) PDX_less [of va]]
  have pde: "hw_pte s ?b = pde_of s ?d va" using e(2) by (simp add: pde_of_def)
  have ok: "access_ok s True False (hw_pte s ?b)"
    using r(1) assms(3,4) unfolding pde by (auto simp: access_ok_def self_map_def has_table_def user_table_def)
  have "unat (4 * PTX va) + 4 \<le> 4096" using PTX_less [of va] by (simp add: unat_times4)
  from uload32_page [OF uvpt_page(1) [OF PDX_less] this e(3) ok]
  have "uload32 (?b + 4 * PTX va) s = Ret (load32 (pmem s) (PTE_ADDR (pde_of s ?d va) + 4 * PTX va)) s"
    by (simp add: pde)
  moreover have "UVPT + 4 * PGNUM va = ?b + 4 * PTX va"
    unfolding PGNUM_split [of va] by (simp add: distrib_left add.assoc)
  moreover have "pte_of s ?d va = load32 (pmem s) (PTE_ADDR (pde_of s ?d va) + 4 * PTX va)"
    using assms(4) by (simp add: pte_of_def has_table_def)
  ultimately show ?thesis by (simp only: uvpt_def)
qed

subsection \<open>System calls of a running environment\<close>

lemma int_syscall_Ret:
  assumes "curenv s = Some c" "syscall num a1 a2 a3 a4 a5 s = Ret r t" "env_status (envs t c) = ENV_RUNNING"
  shows "int_syscall w num a1 a2 a3 a4 a5 s = Ret r t"
  using assms by (simp add: int_syscall_def the_curenv_def kbind_def)

lemma usyscall_Ret:
  assumes "curenv s = Some c" "syscall num a1 a2 a3 a4 a5 s = Ret r t"
    and "env_status (envs t c) = ENV_RUNNING" "check \<Longrightarrow> sint r \<le> 0"
  shows "usyscall w num check a1 a2 a3 a4 a5 s = Ret r t"
proof -
  have "int_syscall w num a1 a2 a3 a4 a5 s = Ret r t" by (rule int_syscall_Ret [OF assms(1-3)])
  then show ?thesis using assms(4) by (auto simp: usyscall_def kbind_Ret kret_def)
qed

text \<open>What a change of memory leaves alone.\<close>

definition same_run :: "kstate \<Rightarrow> kstate \<Rightarrow> bool" where
  "same_run s t \<longleftrightarrow> same_kernel s t \<and> cr3 t = cr3 s \<and> thiscpu t = thiscpu s"

lemma same_run_facts:
  assumes "same_run s t"
  shows "envs t = envs s" "curenv t = curenv s" "spaces t = spaces s" "kernel_clean t = kernel_clean s"
    "live t e = live s e" "found_env t c envid = found_env s c envid"
proof -
  have k: "same_kernel s t" using assms by (simp add: same_run_def)
  show e: "envs t = envs s" "curenv t = curenv s" "spaces t = spaces s" "kernel_clean t = kernel_clean s"
    using same_kernel_facts [OF k] by simp_all
  show "live t e = live s e" "found_env t c envid = found_env s c envid"
    by (simp_all only: live_def found_env_def e)
qed

lemma same_run_trans: "same_run s t \<Longrightarrow> same_run t u \<Longrightarrow> same_run s u"
  by (simp add: same_run_def same_kernel_def)

lemma same_run_refl: "same_run s s"
  by (simp add: same_run_def same_kernel_refl)

lemma page_insert_same_run:
  assumes "page_insert d pp va perm s = Ret 0 t" "inserted s (spaces s) xs role d pp va perm t ys r"
    and "d \<noteq> kern_pgdir s"
  shows "same_run s t"
  using page_insert_same_kernel [OF assms] keeps_Ret [OF keeps_page_insert [of s d pp va perm], of s 0 t] assms(1)
  by (simp add: same_run_def outside_def)

text \<open>The self-map stays, because only directory entries below \<open>UTOP\<close> change.\<close>

lemma self_map_inserted:
  assumes "self_map s p" "inserted s D xs role d pp va perm t ys r" "p \<in> D" "va < UTOP"
  shows "self_map t p"
proof (cases "p = d")
  case False
  then have "pde_of t p va' = pde_of s p va'" for va' using insertedD(11) [OF assms(2,3)] by simp
  with assms(1) show ?thesis by (simp add: self_map_def has_table_def)
next
  case True
  note i = insertedD [OF assms(2)]
  have "pde_of t d UVPT = pde_of s d UVPT" using i(6) [of UVPT] below_UTOP [OF assms(4)] by (simp add: eq_commute)
  moreover have "user_table (pde_of t d va')" if v: "va' < UTOP" "has_table t d va'" for va'
  proof (cases "PDX va' = PDX va")
    case eq: True
    have "user_table (pde_of t d va)"
      using i(7,8) assms(1) True assms(4) by (cases "has_table s d va") (auto simp: self_map_def)
    then show ?thesis using pde_PDX_cong [OF eq, of t d] by simp
  next
    case False
    then have p: "pde_of t d va' = pde_of s d va'" using i(6) [of va'] by simp
    then have "has_table s d va'" using v(2) by (simp add: has_table_def)
    then show ?thesis using assms(1) True v(1) p by (simp add: self_map_def)
  qed
  ultimately show ?thesis using assms(1) True by (simp add: self_map_def)
qed

lemma running_inserted:
  assumes "running s c" "inserted s D xs role d pp va perm t ys r" "same_run s t"
    and "env_pgdir (envs s c) \<in> D" "va < UTOP"
  shows "running t c"
proof -
  have "self_map t (env_pgdir (envs s c))"
    using self_map_inserted [OF _ assms(2,4,5)] assms(1) by (simp add: running_def)
  then show ?thesis using assms(1,3) same_run_facts [OF assms(3)] by (simp add: running_def same_run_def)
qed

definition ready :: "kstate \<Rightarrow> nat \<Rightarrow> nat list \<Rightarrow> (nat \<Rightarrow> role) \<Rightarrow> bool" where
  "ready s c xs role \<longleftrightarrow> mem_inv s (spaces s) xs role \<and> kernel_clean s \<and> running s c"

lemma ready_space:
  assumes "ready s c xs role" "live s e"
  shows "env_pgdir (envs s e) \<in> spaces s" "env_pgdir (envs s e) \<noteq> kern_pgdir s"
    "aligned 4096 (env_pgdir (envs s e) - KERNBASE)"
proof -
  have i: "mem_inv s (spaces s) xs role" "isolated s" using assms(1) by (auto simp: ready_def isolated_def)
  show d: "env_pgdir (envs s e) \<in> spaces s" using live_space [OF assms(2)] by simp
  show "env_pgdir (envs s e) \<noteq> kern_pgdir s" by (rule space_not_kernel [OF i(2) assms(2)])
  show "aligned 4096 (env_pgdir (envs s e) - KERNBASE)" by (rule frames_okD(1) [OF mem_invD(4) [OF i(1) d]])
qed

lemma ready_inserted:
  assumes "ready s c xs role" "page_insert d pp va perm s = Ret 0 t"
    and "inserted s (spaces s) xs role d pp va perm t ys r" "live s e" "d = env_pgdir (envs s e)" "va < UTOP"
  shows "same_run s t" "ready t c ys r" "env_status (envs t c) = ENV_RUNNING"
proof -
  have r: "running s c" "kernel_clean s" "live s c" using assms(1) by (auto simp: ready_def running_def)
  show same: "same_run s t"
    using page_insert_same_run [OF assms(2,3)] ready_space(2) [OF assms(1,4)] assms(5) by simp
  have "running t c"
    by (rule running_inserted [OF r(1) assms(3) same ready_space(1) [OF assms(1) r(3)] assms(6)])
  then show "ready t c ys r" "env_status (envs t c) = ENV_RUNNING"
    using r(2) insertedD(1) [OF assms(3)] same_run_facts [OF same] by (auto simp: ready_def running_def)
qed

text \<open>Mapping a page of the environment \<open>f\<close>, the caller or a child.\<close>

lemma usys_page_map_any:
  assumes rd: "ready s c xs role" and from_env: "found_env s c src = Some f" and found: "found_env s c dst = Some e"
    and va: "aligned 4096 va" "va < UTOP" "aligned 4096 dva" "dva < UTOP"
    and p: "p = pte_of s (env_pgdir (envs s f)) va" "p AND PTE_P \<noteq> 0"
    and perm: "perm < 4096" "perm AND (PTE_U OR PTE_P) = PTE_U OR PTE_P" "perm AND PTE_W \<noteq> 0 \<Longrightarrow> p AND PTE_W \<noteq> 0"
    and refs: "pp_ref (pages s (frame p)) \<noteq> - 1"
    and mem: "has_table s (env_pgdir (envs s e)) dva \<or> xs \<noteq> []"
  shows "\<exists>t ys r. usys_page_map w src va dst dva perm s = Ret 0 t \<and>
    inserted s (spaces s) xs role (env_pgdir (envs s e)) (frame p) dva perm t ys r \<and>
    same_run s t \<and> ready t c ys r"
proof -
  let ?D = "spaces s" and ?d = "env_pgdir (envs s f)" and ?d' = "env_pgdir (envs s e)"
  have r: "curenv s = Some c" "live s c" "mem_inv s ?D xs role" using rd by (auto simp: ready_def running_def)
  have le: "live s e" by (rule found_live [OF found r(2)])
  note dc = ready_space(1) [OF rd found_live [OF from_env r(2)]] and de = ready_space(1) [OF rd le]
  have v: "mem_ok s" "wf_pgdir s ?d" using mem_inv_vm_ok [OF r(3) dc] by (auto simp: vm_ok_def)
  have may: "may_map s ?d va dva perm" using va p perm by (auto simp: may_map_def)
  have map: "sys_page_map src va dst dva perm s = page_insert ?d' (frame p) dva perm s"
    using sys_page_map_allowed [OF r(1) from_env found v(2,1) in_memory_inv [OF r(3) dc va(2)] may] p(1) by simp
  note pg = mapped_page [OF r(3) dc va(2) p(2) [unfolded p(1)], folded p(1)]
  obtain t ys rr where t: "page_insert ?d' (frame p) dva perm s = Ret 0 t"
      "inserted s ?D xs role ?d' (frame p) dva perm t ys rr"
    using page_insert_inserted [OF r(3) de va(4) pg(1,2) frame_entry [OF pg(3) perm(1)] refs] mem by auto
  note ok = ready_inserted [OF rd t le refl va(4)]
  have "usys_page_map w src va dst dva perm s = Ret 0 t"
    unfolding usys_page_map_def
    by (rule usyscall_Ret [OF r(1)]) (use map t(1) ok(3) in \<open>simp_all add: syscall_def\<close>)
  with t(2) ok(1,2) show ?thesis by blast
qed

lemma found_self: "found_env s c 0 = Some c"
  by (simp add: found_env_def)

lemmas usys_page_map_step = usys_page_map_any [OF _ found_self]

text \<open>A page that user code of this address space can read is shared.\<close>

definition shared :: "kstate \<Rightarrow> u32 \<Rightarrow> u32 \<Rightarrow> bool" where
  "shared s d va \<longleftrightarrow> pte_of s d va AND PTE_P \<noteq> 0 \<and> pte_of s d va AND PTE_U \<noteq> 0"

lemma user_page_Ret:
  assumes "running s c" "aligned 4096 (env_pgdir (envs s c) - KERNBASE)" "va < UTOP"
  shows "user_page va s = Ret (shared s (env_pgdir (envs s c)) va) s"
proof (cases "has_table s (env_pgdir (envs s c)) va")
  case True
  then have "pde_of s (env_pgdir (envs s c)) va AND PTE_P \<noteq> 0" by (simp add: has_table_def)
  then show ?thesis
    using uvpd_Ret [OF assms(1,2), of va] uvpt_Ret [OF assms True]
    by (simp add: user_page_def kbind_Ret kret_def shared_def)
next
  case False
  then have "pde_of s (env_pgdir (envs s c)) va AND PTE_P = 0"
    using below_UTOP [OF assms(3)] by (simp add: has_table_def)
  then show ?thesis
    using uvpd_Ret [OF assms(1,2), of va] pte_of_no_table [OF below_UTOP [OF assms(3)] False]
    by (simp add: user_page_def kbind_Ret kret_def shared_def)
qed

subsection \<open>What a process sees\<close>

text \<open>The byte user code reads at an address, and whether it can write there, with the page
  directory \<open>d\<close> in force.\<close>

definition in_space :: "u32 \<Rightarrow> kstate \<Rightarrow> kstate" where
  "in_space d s = s\<lparr>cr3 := (cr3 s)(thiscpu s := d - KERNBASE)\<rparr>"

definition user_byte :: "kstate \<Rightarrow> u32 \<Rightarrow> u32 \<Rightarrow> u8 option" where
  "user_byte s d va = map_option (pmem s) (translate (in_space d s) True False va)"

definition user_writable :: "kstate \<Rightarrow> u32 \<Rightarrow> u32 \<Rightarrow> bool" where
  "user_writable s d va \<longleftrightarrow> translate (in_space d s) True True va \<noteq> None"

lemma in_space_hw:
  assumes "aligned 4096 (d - KERNBASE)"
  shows "hw_pde (in_space d s) va = pde_of s d va"
    and "pde_of s d va AND PTE_P \<noteq> 0 \<Longrightarrow> hw_pte (in_space d s) va = pte_of s d va"
proof -
  have c: "cr3 (in_space d s) (thiscpu (in_space d s)) = d - KERNBASE" and pm: "pmem (in_space d s) = pmem s"
    by (simp_all add: in_space_def)
  show "hw_pde (in_space d s) va = pde_of s d va" "pde_of s d va AND PTE_P \<noteq> 0 \<Longrightarrow> hw_pte (in_space d s) va = pte_of s d va"
    using hw_is_pgdir [OF c assms, of va] by (simp_all add: vspace_cong [OF pm])
qed

lemma user_byte_eq:
  assumes "aligned 4096 (d - KERNBASE)" "self_map s d" "va < UTOP"
  shows "user_byte s d va =
    (if shared s d va then Some (pmem s (PTE_ADDR (pte_of s d va) OR PGOFF va)) else None)"
proof (cases "has_table s d va")
  case True
  then have "pde_of s d va AND PTE_P \<noteq> 0" "pde_of s d va AND PTE_U \<noteq> 0"
    using assms(2,3) by (auto simp: has_table_def self_map_def user_table_def)
  then show ?thesis
    by (simp add: user_byte_def translate_hw in_space_hw [OF assms(1)] access_ok_def shared_def)
next
  case False
  then have "pde_of s d va AND PTE_P = 0" using below_UTOP [OF assms(3)] by (simp add: has_table_def)
  then show ?thesis
    using pte_of_no_table [OF below_UTOP [OF assms(3)] False]
    by (simp add: user_byte_def translate_hw in_space_hw [OF assms(1)] access_ok_def shared_def)
qed

lemma user_writable_pte:
  assumes "aligned 4096 (d - KERNBASE)" "user_writable s d va"
  shows "pte_of s d va AND PTE_W \<noteq> 0" "pte_of s d va AND PTE_P \<noteq> 0" "pte_of s d va AND PTE_U \<noteq> 0"
  using assms(2) in_space_hw [OF assms(1), of s va]
  by (auto simp: user_writable_def translate_hw access_ok_def split: if_splits)

subsection \<open>Allocating a page\<close>

lemma ready_taken:
  assumes "ready s c (q # xs) role"
  shows "ready (taken_state q s) c xs (role(q := Data))" "same_run s (taken_state q s)"
    "\<And>d va. d \<in> spaces s \<Longrightarrow> pde_of (taken_state q s) d va = pde_of s d va"
    "\<And>d va. d \<in> spaces s \<Longrightarrow> va < UTOP \<Longrightarrow> pte_of (taken_state q s) d va = pte_of s d va"
    "role q = Free"
proof -
  let ?u = "taken_state q s"
  have inv: "mem_inv s (spaces s) (q # xs) role" and c: "kernel_clean s" and r: "running s c"
    using assms by (auto simp: ready_def)
  note u = mem_inv_taken [OF inv]
  show "role q = Free" using mem_invD(3) [OF inv] by simp
  show pde: "pde_of ?u d va = pde_of s d va" if "d \<in> spaces s" for d va
    by (rule pde_taken [OF mem_inv_vm_ok [OF inv that]])
  show "pte_of ?u d va = pte_of s d va" if "d \<in> spaces s" "va < UTOP" for d va
    by (rule u(2) [OF that])
  have "kern_pgdir ?u = kern_pgdir s" "cr3 ?u = cr3 s" "thiscpu ?u = thiscpu s"
    by (simp_all add: taken_state_def alloc_state_def take_free_page_def Let_def upd_page_def)
  then show same: "same_run s ?u" using pde by (simp add: same_run_def same_kernel_def)
  note sm = same_run_facts [OF same]
  have d: "env_pgdir (envs s c) \<in> spaces s" using live_space [of s c] r by (simp add: running_def)
  have "self_map ?u (env_pgdir (envs s c))"
    using r pde [OF d] by (simp add: running_def self_map_def has_table_def)
  then have "running ?u c" using r same sm by (simp add: running_def same_run_def)
  then show "ready ?u c xs (role(q := Data))" using u(1) c sm by (simp add: ready_def)
qed

lemma usys_page_alloc_step:
  assumes rd: "ready s c (q # xs) role" and found: "found_env s c dst = Some e" and va: "va < UTOP"
    and perm: "perm < 4096" "perm AND (PTE_U OR PTE_P) = PTE_U OR PTE_P"
    and refs: "unat (pp_ref (pages s q)) < 65534"
    and mem: "has_table s (env_pgdir (envs s e)) va \<or> xs \<noteq> []"
  shows "\<exists>t ys r. usys_page_alloc w dst va perm s = Ret 0 t \<and>
    inserted (taken_state q s) (spaces s) xs (role(q := Data)) (env_pgdir (envs s e)) q va perm t ys r \<and>
    same_run s t \<and> ready t c ys r"
proof -
  let ?u = "taken_state q s" and ?d = "env_pgdir (envs s e)"
  note u = ready_taken [OF rd]
  note sm = same_run_facts [OF u(2)]
  have r: "curenv s = Some c" "live s c" "mem_inv s (spaces s) (q # xs) role"
    and iu: "mem_inv ?u (spaces s) xs (role(q := Data))"
    using rd u(1) sm(3) by (auto simp: ready_def running_def)
  have le: "live s e" by (rule found_live [OF found r(2)])
  note de = ready_space(1) [OF rd le]
  have q: "q < unat (npages s)" "q < 65536" using vm_ok_page_facts [OF mem_inv_vm_ok [OF r(3) de]] by auto
  have "pp_ref (pages s q) \<noteq> - 1" using refs by (auto simp: unat_max_u16)
  then have "pp_ref (pages ?u q) \<noteq> - 1"
    using unat_inc_u16 [of "pp_ref (pages s q)"] refs by (auto simp: word_unat_eq_iff unat_max_u16)
  moreover have "has_table ?u ?d va \<or> xs \<noteq> []" using mem u(3) [OF de] by (simp add: has_table_def)
  ultimately obtain t ys rr where t: "page_insert ?d q va perm ?u = Ret 0 t"
      "inserted ?u (spaces s) xs (role(q := Data)) ?d q va perm t ys rr"
    using page_insert_inserted [OF iu de va _ _ frame_entry [OF q(2) perm(1)]] q(1) by auto
  have "sys_page_alloc dst va perm s = Ret 0 t"
    using sys_page_alloc_step [OF r(1) found _ mem_invD(1,2) [OF r(3)], of va perm] va perm(2) t(1)
    by (simp add: may_alloc_def kbind_Ret kret_def)
  moreover
  have t2: "inserted ?u (spaces ?u) xs (role(q := Data)) ?d q va perm t ys rr" using t(2) by (simp only: sm(3))
  have "live ?u e" "?d = env_pgdir (envs ?u e)" using le sm(1,5) by simp_all
  note ok = ready_inserted [OF u(1) t(1) t2 this va]
  ultimately have "usys_page_alloc w dst va perm s = Ret 0 t"
    unfolding usys_page_alloc_def by (intro usyscall_Ret [OF r(1)]) (simp_all add: syscall_def ok(3))
  with t(2) ok(2) same_run_trans [OF u(2) ok(1)] show ?thesis by blast
qed

lemma user_writable_iff:
  assumes "aligned 4096 (d - KERNBASE)" "self_map s d" "va < UTOP"
  shows "user_writable s d va \<longleftrightarrow> shared s d va \<and> pte_of s d va AND PTE_W \<noteq> 0"
proof (cases "has_table s d va")
  case True
  then have "pde_of s d va AND PTE_P \<noteq> 0" "pde_of s d va AND PTE_U \<noteq> 0" "pde_of s d va AND PTE_W \<noteq> 0"
    using assms(2,3) by (auto simp: has_table_def self_map_def user_table_def)
  then show ?thesis
    by (auto simp: user_writable_def translate_hw in_space_hw [OF assms(1)] access_ok_def shared_def)
next
  case False
  then have "pde_of s d va AND PTE_P = 0" using below_UTOP [OF assms(3)] by (simp add: has_table_def)
  then show ?thesis
    using pte_of_no_table [OF below_UTOP [OF assms(3)] False]
    by (simp add: user_writable_def translate_hw in_space_hw [OF assms(1)] access_ok_def shared_def)
qed

lemma page2pa_frame: "page2pa (frame e) = PTE_ADDR e"
  using page2pa_PGNUM [of "PTE_ADDR e"] by (simp add: unat_PGNUM) (simp add: frame_def [symmetric])

lemma frame_in_page: "frame (PTE_ADDR e OR PGOFF va) = frame e"
proof -
  have "PGOFF va < 4096" by (simp add: word_less_nat_alt unat_PGOFF)
  then have "PTE_ADDR (PTE_ADDR e OR PGOFF va) = PTE_ADDR e" by (rule PTE_ADDR_or [OF aligned_PTE_ADDR])
  then show ?thesis by (metis frame_PTE_ADDR)
qed

lemma user_byte_transfer:
  assumes "aligned 4096 (d - KERNBASE)" "self_map s d" "aligned 4096 (d' - KERNBASE)" "self_map t d'" "va < UTOP"
    and "shared t d' va = shared s d va"
    and "shared s d va \<Longrightarrow> frame (pte_of t d' va) = frame (pte_of s d va)"
    and "\<And>a. shared s d va \<Longrightarrow> frame a = frame (pte_of s d va) \<Longrightarrow> pmem t a = pmem s a"
  shows "user_byte t d' va = user_byte s d va"
proof (cases "shared s d va")
  case True
  have "PTE_ADDR (pte_of t d' va) = PTE_ADDR (pte_of s d va)"
    using assms(7) [OF True] by (simp flip: page2pa_frame)
  moreover have "pmem t (PTE_ADDR (pte_of s d va) OR PGOFF va) = pmem s (PTE_ADDR (pte_of s d va) OR PGOFF va)"
    by (rule assms(8) [OF True frame_in_page])
  ultimately show ?thesis
    using True assms(6) by (simp add: user_byte_eq [OF assms(1,2,5)] user_byte_eq [OF assms(3-5)])
qed (use assms(6) in \<open>simp add: user_byte_eq [OF assms(1,2,5)] user_byte_eq [OF assms(3-5)]\<close>)

lemma page_flags:
  assumes "m < 4096"
  shows "(page2pa f OR x) AND m = x AND m"
proof (rule bit_word_eqI)
  fix n assume "n < LENGTH(32)"
  show "bit ((page2pa f OR x) AND m) n = bit (x AND m) n"
  proof (cases "n < 12")
    case True
    then show ?thesis using aligned_bits [OF aligned_page2pa, of n f] by (simp add: bit_simps)
  next
    case False
    then show ?thesis using low_bits [OF assms, of n] by (auto simp: bit_simps)
  qed
qed

text \<open>A new page: it was not mapped anywhere, it is filled with zeros, and all mapped bytes are
  as before.\<close>

lemma usys_page_alloc_view:
  assumes rd: "ready s c (q # xs) role" and found: "found_env s c dst = Some e" and va: "va < UTOP"
    and perm: "perm < 4096" "perm AND (PTE_U OR PTE_P) = PTE_U OR PTE_P"
    and refs: "unat (pp_ref (pages s q)) < 65534"
    and mem: "has_table s (env_pgdir (envs s e)) va \<or> xs \<noteq> []"
  obtains t ys r where "usys_page_alloc w dst va perm s = Ret 0 t" "ready t c ys r" "same_run s t"
    "\<And>d va'. d \<in> spaces s \<Longrightarrow> va' < UTOP \<Longrightarrow> pte_of t d va' =
      (if d = env_pgdir (envs s e) \<and> PGNUM va' = PGNUM va then page2pa q OR perm OR PTE_P else pte_of s d va')"
    "\<And>d va' a. d \<in> spaces s \<Longrightarrow> va' < UTOP \<Longrightarrow> pte_of s d va' AND PTE_P \<noteq> 0 \<Longrightarrow>
      frame a = frame (pte_of s d va') \<Longrightarrow> frame a \<noteq> q \<and> pmem t a = pmem s a"
    "\<And>a. frame a = q \<Longrightarrow> pmem t a = 0"
    "\<And>d. d \<in> spaces s \<Longrightarrow> self_map s d \<Longrightarrow> self_map t d"
    "q < 65536" "pp_ref (pages s q) = 0 \<Longrightarrow> unat (pp_ref (pages t q)) \<le> 2"
    "length xs \<le> Suc (length ys)" "free_counts s xs t ys"
proof -
  let ?u = "taken_state q s" and ?D = "spaces s"
  from usys_page_alloc_step [where w = w, OF rd found va perm refs mem] obtain t ys r where
    t: "usys_page_alloc w dst va perm s = Ret 0 t" "same_run s t" "ready t c ys r"
    and ins: "inserted ?u ?D xs (role(q := Data)) (env_pgdir (envs s e)) q va perm t ys r" by blast
  note u = ready_taken [OF rd] and i = insertedD [OF ins]
  have inv: "mem_inv s ?D (q # xs) role" using rd by (simp add: ready_def)
  have q: "q < 65536" using vm_ok_page_facts(5) [OF mem_inv_vm_ok [OF inv insertI1]] .
  have fq: "frame (page2pa q) = q" using q by (simp add: frame_def unat_page2pa)
  have clear: "pmem ?u a = (if frame a = q then 0 else pmem s a)" for a
  proof -
    have "unat (a - page2pa q) < 4096 \<longleftrightarrow> frame a = q"
      using frame_near [of "page2pa q" a] fq in_page_iff [of "page2pa q" a] q
      by (auto simp: frame_def unat_page2pa)
    then show ?thesis by (simp add: mem_set_def)
  qed
  show ?thesis
  proof (rule that [OF t(1,3,2)])
    show "pte_of t d va' = (if d = env_pgdir (envs s e) \<and> PGNUM va' = PGNUM va
        then page2pa q OR perm OR PTE_P else pte_of s d va')" if "d \<in> ?D" "va' < UTOP" for d va'
      using i(10) [OF that] u(4) [OF that] by simp
    show "frame a \<noteq> q \<and> pmem t a = pmem s a"
      if "d \<in> ?D" "va' < UTOP" "pte_of s d va' AND PTE_P \<noteq> 0" "frame a = frame (pte_of s d va')" for d va' a
    proof -
      have D: "role (frame a) = Data" using mapped_page(1) [OF inv that(1-3)] that(4) by simp
      then have "frame a \<noteq> q" using u(5) by auto
      with D show ?thesis using i(5) [of a] clear [of a] by simp
    qed
    show "pmem t a = 0" if "frame a = q" for a using i(5) [of a] clear [of a] that by simp
    show "self_map t d" if "d \<in> ?D" "self_map s d" for d
    proof -
      have "self_map ?u d" using that u(3) [OF that(1)] by (simp add: self_map_def has_table_def)
      then show ?thesis by (rule self_map_inserted [OF _ ins that(1) va])
    qed
    show "length xs \<le> Suc (length ys)" using i(9) by (auto split: if_splits)
    have "q \<notin> set xs" using free_list_distinct [OF mem_invD(2) [OF inv]] by simp
    then show "free_counts s xs t ys" using i(13) by (auto simp: free_counts_def)
    show "q < 65536" by (rule q)
    show "unat (pp_ref (pages t q)) \<le> 2" if "pp_ref (pages s q) = 0"
      using i(12) [of q] that by (auto split: if_splits)
  qed
qed

lemma user_view_upd_env [simp]:
  "user_byte (upd_env e g s) d va = user_byte s d va"
  "user_writable (upd_env e g s) d va = user_writable s d va"
  by (simp_all add: user_byte_def user_writable_def translate_def in_space_def upd_env_def access_ok_def Let_def)

end
