(* ===== verification/Kernel_Space.thy ===== *)
theory Kernel_Space
  imports Mem_Init_Spec User_Spec
begin

text \<open>
  The address space that \<open>mem_init\<close> builds for the kernel: what it maps, that the self test of the
  code accepts it, that memory is isolated in it, and what it shows to user code above \<open>UTOP\<close>.
\<close>

subsection \<open>Before and after\<close>

text \<open>The page directory before the mappings are made: the self-map at \<open>UVPT\<close>, and the empty page
  table at \<open>MMIOBASE\<close> that the test of \<open>mmio_map_region\<close> has left.\<close>

definition fresh_pgdir :: "kstate \<Rightarrow> u32 \<Rightarrow> bool" where
  "fresh_pgdir s pgdir \<longleftrightarrow>
     (\<forall>x. PDX x \<noteq> PDX UVPT \<longrightarrow> PDX x \<noteq> PDX MMIOBASE \<longrightarrow> pde_of s pgdir x = 0) \<and>
     pde_of s pgdir UVPT AND PTE_P \<noteq> 0 \<and> pde_of s pgdir MMIOBASE AND PTE_P \<noteq> 0 \<and>
     (\<forall>x. PDX x = PDX MMIOBASE \<longrightarrow> pte_of s pgdir x = 0)"

text \<open>What is needed for the mappings: memory as \<open>page_init\<close> leaves it and sixty-seven free pages.\<close>

definition mem_ready :: "ksymbols \<Rightarrow> kstate \<Rightarrow> nat list \<Rightarrow> bool" where
  "mem_ready syms s xs \<longleftrightarrow>
     vm_ok s (kern_pgdir s) xs \<and> fresh_pgdir s (kern_pgdir s) \<and> 67 \<le> length xs \<and> good_symbols syms \<and>
     KERNBASE \<le> pages_kva s \<and> KERNBASE \<le> envs_kva s \<and> aligned 4096 (pages_kva s) \<and> aligned 4096 (envs_kva s)"

lemma fresh_no_entry: "fresh_pgdir s pgdir \<Longrightarrow> PDX x \<noteq> PDX UVPT \<Longrightarrow> pte_of s pgdir x = 0"
  by (cases "PDX x = PDX MMIOBASE") (simp_all add: fresh_pgdir_def pte_of_def)

lemma stacks_entry_cong: "f x = g x \<Longrightarrow> stacks_entry p is f x = stacks_entry p is g x"
proof (induction "is" arbitrary: f g)
  case (Cons i js)
  then have "override_region (stack_base i) 8 q r f x = override_region (stack_base i) 8 q r g x" for q r
    by (simp add: override_region_def)
  then show ?case
    using Cons.IH [of "override_region (stack_base i) 8 (p + of_nat i * KSTKSIZE - KERNBASE) PTE_W f"
      "override_region (stack_base i) 8 (p + of_nat i * KSTKSIZE - KERNBASE) PTE_W g"]
    by (simp add: stacks_entry_def)
qed (simp add: stacks_entry_def)

lemma mem_ready_maps:
  assumes "mem_ready syms s xs"
  obtains t ys where "mem_init_maps syms s = Ret () t"
    and "spaced s (kern_pgdir s) xs kernel_space (kernel_entries syms s (\<lambda>_. 0)) t ys"
proof -
  note m = assms [unfolded mem_ready_def]
  have "card (missing s (kern_pgdir s) kernel_space) \<le> length xs"
    using card_kernel_tables [of s "kern_pgdir s"] m by linarith
  then obtain t ys where t: "mem_init_maps syms s = Ret () t"
      "spaced s (kern_pgdir s) xs kernel_space (kernel_entries syms s (pte_of s (kern_pgdir s))) t ys"
    using mem_init_maps_spaced [of s xs syms] m by blast
  have "kernel_entries syms s (pte_of s (kern_pgdir s)) x = kernel_entries syms s (\<lambda>_. 0) x" if "PDX x \<noteq> PDX UVPT" for x
  proof -
    have "pte_of s (kern_pgdir s) x = 0" using m that by (intro fresh_no_entry) simp_all
    then show ?thesis unfolding kernel_entries_def by (intro stacks_entry_cong) (simp add: override_region_def)
  qed
  then have "spaced s (kern_pgdir s) xs kernel_space (kernel_entries syms s (\<lambda>_. 0)) t ys"
    using t(2) unfolding spaced_def by simp
  with t(1) show ?thesis by (rule that)
qed

text \<open>The flags of an entry.\<close>

lemma region_entry_flags:
  "region_entry va pa perm x AND PTE_P \<noteq> 0"
  "perm AND PTE_U \<noteq> 0 \<Longrightarrow> region_entry va pa perm x AND PTE_U \<noteq> 0"
proof -
  show "region_entry va pa perm x AND PTE_P \<noteq> 0" by (simp add: region_entry_def)
  have "perm AND PTE_U = (region_entry va pa perm x AND PTE_U) AND perm"
    by (rule bit_word_eqI) (auto simp: region_entry_def bit_simps)
  then show "perm AND PTE_U \<noteq> 0 \<Longrightarrow> region_entry va pa perm x AND PTE_U \<noteq> 0" by auto
qed

lemma aligned_diff: "aligned 4096 a \<Longrightarrow> aligned 4096 b \<Longrightarrow> b \<le> a \<Longrightarrow> aligned 4096 (a - b :: u32)"
  by (simp add: aligned_def unat_sub dvd_diff_nat)

lemma PTE_ADDR_region_entry:
  assumes "aligned 4096 pa" "perm < 4096"
  shows "PTE_ADDR (region_entry va pa perm x) = pa + PTE_ADDR (x - va)"
  unfolding region_entry_def or.assoc
  using assms by (intro PTE_ADDR_or aligned_plus or_less_4096) (simp_all add: layout)

lemma check_va2pa_pte:
  assumes "vm_ok t pgdir ys" "PDX va \<noteq> PDX UVPT"
  shows "check_va2pa pgdir va t = Ret (if pte_of t pgdir va AND PTE_P = 0 then NOT 0 else PTE_ADDR (pte_of t pgdir va)) t"
proof -
  have m: "mem_ok t" "wf_pgdir t pgdir" using assms(1) by (simp_all add: vm_ok_def)
  show ?thesis
  proof (cases "has_table t pgdir va")
    case True
    then have "kload (PTE_ADDR (pde_of t pgdir va) + KERNBASE + 4 * PTX va) t = Ret (pte_of t pgdir va) t"
      using kload_slot [OF m True] by (simp add: slot_of_def add_ac)
    with True show ?thesis
      by (simp add: check_va2pa_def kbind_Ret kload_pde [OF m] KADDR_table [OF m(2) True] has_table_def kret_def)
  next
    case False
    then show ?thesis
      using assms(2) by (simp add: check_va2pa_def kbind_Ret kload_pde [OF m] has_table_def pte_of_def kret_def)
  qed
qed

lemma check_range_passes:
  assumes "vm_ok t pgdir ys" "aligned 4096 va" "4096 * n \<le> 2 ^ 32" "aligned 4096 pa"
    and "\<And>x. x \<in> region va n \<Longrightarrow> PDX x \<noteq> PDX UVPT \<and> pte_of t pgdir x AND PTE_P \<noteq> 0 \<and> PTE_ADDR (pte_of t pgdir x) = pa + PTE_ADDR (x - va)"
  shows "check_range n pgdir va pa t = Ret () t"
  using assms(2-)
proof (induction n arbitrary: va pa)
  case (Suc n)
  have R: "x \<in> region va (Suc n) \<longleftrightarrow> unat (x - va) < 4096 \<or> x \<in> region (va + PGSIZE) n" for x
    by (rule region_Suc [OF Suc.prems(2)])
  have "PDX va \<noteq> PDX UVPT" "pte_of t pgdir va AND PTE_P \<noteq> 0" "PTE_ADDR (pte_of t pgdir va) = pa"
    using Suc.prems(4) [of va] R [of va] by (simp_all add: page_offset_zero)
  then have "check_va2pa pgdir va t = Ret pa t" using check_va2pa_pte [OF assms(1)] by simp
  moreover have "check_range n pgdir (va + PGSIZE) (pa + PGSIZE) t = Ret () t"
  proof (rule Suc.IH)
    show "aligned 4096 (va + PGSIZE)" "aligned 4096 (pa + PGSIZE)"
      using Suc.prems(1,3) by (auto intro!: aligned_plus) (simp_all add: aligned_def)
    fix x assume x: "x \<in> region (va + PGSIZE) n"
    then have "\<not> unat (x - va) < 4096" using region_disjoint [OF Suc.prems(2)] by blast
    then have "PTE_ADDR ((x - va) - 4096) + 4096 = PTE_ADDR (x - va)" by (intro PTE_ADDR_step) simp
    moreover have "x - (va + PGSIZE) = (x - va) - 4096" by simp
    ultimately have "pa + PGSIZE + PTE_ADDR (x - (va + PGSIZE)) = pa + PTE_ADDR (x - va)" by (simp only: add_ac)
    then show "PDX x \<noteq> PDX UVPT \<and> pte_of t pgdir x AND PTE_P \<noteq> 0 \<and>
        PTE_ADDR (pte_of t pgdir x) = pa + PGSIZE + PTE_ADDR (x - (va + PGSIZE))"
      using Suc.prems(4) [of x] R [of x] x by simp
  qed (use Suc.prems(2) in simp)
  ultimately show ?case by (simp add: kbind_Ret)
qed (simp add: kret_def)

lemma check_unmapped_passes:
  assumes "vm_ok t pgdir ys" "4096 * n \<le> 2 ^ 32"
    and "\<And>x. x \<in> region va n \<Longrightarrow> PDX x \<noteq> PDX UVPT \<and> pte_of t pgdir x AND PTE_P = 0"
  shows "check_unmapped n pgdir va t = Ret () t"
  using assms(2-)
proof (induction n arbitrary: va)
  case (Suc n)
  have R: "x \<in> region va (Suc n) \<longleftrightarrow> unat (x - va) < 4096 \<or> x \<in> region (va + PGSIZE) n" for x
    by (rule region_Suc [OF Suc.prems(1)])
  have "check_va2pa pgdir va t = Ret (NOT 0) t"
    using Suc.prems(2) [of va] R [of va] check_va2pa_pte [OF assms(1), of va] by simp
  moreover have "check_unmapped n pgdir (va + PGSIZE) t = Ret () t"
    by (rule Suc.IH) (use Suc.prems R in auto)
  ultimately show ?case by (simp add: kbind_Ret)
qed (simp add: kret_def)

subsection \<open>The mappings\<close>

lemma spaced_pte:
  "spaced s pgdir xs K f t ys \<Longrightarrow> x \<in> kernel_space \<Longrightarrow> pte_of t pgdir x = f x"
  using kernel_space_not_UVPT spacedD(6) by blast

lemma in_region [simp]: "va + k \<in> region va n \<longleftrightarrow> unat k < 4096 * n"
  by (simp add: region_def)

lemma region_entry_at [simp]: "region_entry va pa perm (va + k) = (pa + PTE_ADDR k) OR perm OR PTE_P"
  by (simp add: region_entry_def)

lemma guard_in_kernel_space: "i < 8 \<Longrightarrow> region (guard_base i) 8 \<subseteq> kernel_space"
proof
  fix x assume i: "i < 8" "x \<in> region (guard_base i) 8"
  have "959 * 4194304 \<le> unat x" "unat x < 960 * 4194304"
    using i(2) i(1) unfolding guard_region [OF i(1)] by linarith+
  then have "unat x div 4194304 = 959" by (intro div_nat_eqI) simp_all
  then show "x \<in> kernel_space" by (simp add: kernel_space_iff)
qed

lemma high_in_kernel_space: "KERNBASE \<le> x \<Longrightarrow> x \<in> kernel_space"
  unfolding kernel_space_def by (simp add: high_region)

lemma missing_not_user: "x < UTOP \<Longrightarrow> PDX x \<notin> missing s pgdir kernel_space"
proof
  assume x: "x < UTOP" and "PDX x \<in> missing s pgdir kernel_space"
  then obtain y where y: "y \<in> kernel_space" "PDX y = PDX x" by (auto simp: missing_iff)
  have "unat x < 955 * 4194304" using x by (simp add: word_less_nat_alt layout)
  then have "unat x div 4194304 < 955" by (rule less_mult_imp_div_less)
  moreover have "unat y div 4194304 = unat x div 4194304" using y(2) by (simp flip: unat_PDX)
  ultimately show False using y(1) by (auto simp: kernel_space_iff)
qed

lemma UTOP_not_special: "x < UTOP \<Longrightarrow> PDX x \<noteq> PDX UVPT \<and> PDX x \<noteq> PDX MMIOBASE"
proof -
  assume "x < UTOP"
  then have "unat x < 955 * 4194304" by (simp add: word_less_nat_alt layout)
  then have "unat (PDX x) < 955" unfolding unat_PDX by (rule less_mult_imp_div_less)
  moreover have "unat (PDX UVPT) = 957" "unat (PDX MMIOBASE) = 958" by (simp_all add: unat_PDX layout)
  ultimately show ?thesis by auto
qed

lemma spaced_user:
  assumes "fresh_pgdir s pgdir" "spaced s pgdir xs kernel_space f t ys" "x < UTOP"
  shows "pde_of t pgdir x = 0"
  using spacedD(7) [OF assms(2), of x] missing_not_user [OF assms(3)] UTOP_not_special [OF assms(3)] assms(1)
  unfolding fresh_pgdir_def by auto

text \<open>C11. \<open>mem_init\<close> maps all of physical memory at \<open>KERNBASE\<close>, the arrays of pages and environments
  for the user to read, and for every CPU its kernel stack with a guard below it; it maps nothing
  below \<open>UTOP\<close>, and there are pages enough for the tables.\<close>

theorem kernel_address_space:
  assumes "mem_ready syms s xs"
  shows "\<exists>t ys. mem_init_maps syms s = Ret () t \<and> vm_ok t (kern_pgdir s) ys \<and> kern_pgdir t = kern_pgdir s \<and>
    (\<forall>x. KERNBASE \<le> x \<longrightarrow> pte_of t (kern_pgdir s) x = PTE_ADDR (x - KERNBASE) OR PTE_W OR PTE_P) \<and>
    (\<forall>k. unat k < 4194304 \<longrightarrow>
       pte_of t (kern_pgdir s) (UPAGES + k) = (pages_kva s - KERNBASE + PTE_ADDR k) OR PTE_U OR PTE_P \<and>
       pte_of t (kern_pgdir s) (UENVS + k) = (envs_kva s - KERNBASE + PTE_ADDR k) OR PTE_U OR PTE_P) \<and>
    (\<forall>i < NCPU. \<forall>k. unat k < 32768 \<longrightarrow>
       pte_of t (kern_pgdir s) (KSTACKTOP - KSTKSIZE - of_nat i * (KSTKSIZE + KSTKGAP) + k) =
         (sym_percpu_kstacks syms + of_nat i * KSTKSIZE - KERNBASE + PTE_ADDR k) OR PTE_W OR PTE_P \<and>
       pte_of t (kern_pgdir s) (KSTACKTOP - of_nat (i + 1) * (KSTKSIZE + KSTKGAP) + k) AND PTE_P = 0) \<and>
    (\<forall>x < UTOP. pde_of t (kern_pgdir s) x AND PTE_P = 0)"
proof -
  obtain t ys where t: "mem_init_maps syms s = Ret () t"
    and sp: "spaced s (kern_pgdir s) xs kernel_space (kernel_entries syms s (\<lambda>_. 0)) t ys"
    using mem_ready_maps [OF assms] .
  note pte = spaced_pte [OF sp]
  have fresh: "fresh_pgdir s (kern_pgdir s)" using assms by (simp add: mem_ready_def)
  have "pte_of t (kern_pgdir s) x = PTE_ADDR (x - KERNBASE) OR PTE_W OR PTE_P" if "KERNBASE \<le> x" for x
    using pte [OF high_in_kernel_space [OF that]] kernel_entries_high [OF that] by simp
  moreover have "pte_of t (kern_pgdir s) (UPAGES + k) = (pages_kva s - KERNBASE + PTE_ADDR k) OR PTE_U OR PTE_P"
      "pte_of t (kern_pgdir s) (UENVS + k) = (envs_kva s - KERNBASE + PTE_ADDR k) OR PTE_U OR PTE_P" if "unat k < 4194304" for k
  proof -
    have r: "UPAGES + k \<in> region UPAGES 1024" "UENVS + k \<in> region UENVS 1024" using that by simp_all
    show "pte_of t (kern_pgdir s) (UPAGES + k) = (pages_kva s - KERNBASE + PTE_ADDR k) OR PTE_U OR PTE_P"
      using pte [OF subsetD [OF kernel_regions(1) r(1)]] kernel_entries_arrays(1) [OF r(1)] by simp
    show "pte_of t (kern_pgdir s) (UENVS + k) = (envs_kva s - KERNBASE + PTE_ADDR k) OR PTE_U OR PTE_P"
      using pte [OF subsetD [OF kernel_regions(2) r(2)]] kernel_entries_arrays(2) [OF r(2)] by simp
  qed
  moreover have "pte_of t (kern_pgdir s) (stack_base i + k) =
         (sym_percpu_kstacks syms + of_nat i * KSTKSIZE - KERNBASE + PTE_ADDR k) OR PTE_W OR PTE_P"
      "pte_of t (kern_pgdir s) (guard_base i + k) AND PTE_P = 0" if "i < NCPU" "unat k < 32768" for i k
  proof -
    have r: "stack_base i + k \<in> region (stack_base i) 8" "guard_base i + k \<in> region (guard_base i) 8" using that by simp_all
    show "pte_of t (kern_pgdir s) (stack_base i + k) =
        (sym_percpu_kstacks syms + of_nat i * KSTKSIZE - KERNBASE + PTE_ADDR k) OR PTE_W OR PTE_P"
      using pte [OF subsetD [OF stack_in_kernel_space [OF that(1)] r(1)]] kernel_entries_stack [OF that(1) r(1)] by simp
    show "pte_of t (kern_pgdir s) (guard_base i + k) AND PTE_P = 0"
      using pte [OF subsetD [OF guard_in_kernel_space [OF that(1)] r(2)]] kernel_entries_guard [OF that(1) r(2)] by simp
  qed
  moreover have "pde_of t (kern_pgdir s) x AND PTE_P = 0" if "x < UTOP" for x using spaced_user [OF fresh sp that] by simp
  ultimately show ?thesis
    using t spacedD(1) [OF sp] mem_change_fields(2) [OF spacedD(2) [OF sp]] unfolding stack_base_def guard_base_def by blast
qed

subsection \<open>The self test of the mappings\<close>

lemma present_pde: "pte_of t pgdir x AND PTE_P \<noteq> 0 \<Longrightarrow> pde_of t pgdir x AND PTE_P \<noteq> 0"
  by (auto simp: pte_of_def)

definition pde_va :: "nat \<Rightarrow> u32" where
  "pde_va i = of_nat (i * 4194304)"

lemma unat_pde_va: "i < 1024 \<Longrightarrow> unat (pde_va i) = i * 4194304"
  unfolding pde_va_def unat_of_nat by simp

lemma PDX_pde_va: "i < 1024 \<Longrightarrow> PDX (pde_va i) = of_nat i"
  by (simp add: word_unat_eq_iff unat_PDX unat_pde_va unat_of_nat)

lemma pde_index_iff: "i < 1024 \<Longrightarrow> of_nat i = PDX x \<longleftrightarrow> i = unat x div 4194304"
  unfolding word_unat_eq_iff unat_PDX by (simp add: unat_of_nat)

lemma UVPT_not_missing: "PDX x = PDX UVPT \<Longrightarrow> PDX x \<notin> missing s pgdir kernel_space"
  using kernel_space_not_UVPT missing_iff [of x s pgdir kernel_space] by metis

lemma check_pde_passes:
  assumes fresh: "fresh_pgdir s pgdir" and sp: "spaced s pgdir xs kernel_space (kernel_entries syms s (\<lambda>_. 0)) t ys"
    and i: "i < 1024"
  shows "check_pde pgdir i t = Ret () t"
proof -
  let ?x = "pde_va i"
  have m: "mem_ok t" "wf_pgdir t pgdir" using spacedD(1) [OF sp] by (simp_all add: vm_ok_def)
  have ld: "kload (pgdir + 4 * of_nat i) t = Ret (pde_of t pgdir ?x) t"
    using kload_pde [OF m, of ?x] by (simp add: PDX_pde_va i)
  note pte = spaced_pte [OF sp] and pde = spacedD(7) [OF sp, of ?x]
  have d: "unat UVPT div 4194304 = 957" "unat (KSTACKTOP - 1) div 4194304 = 959" "unat UPAGES div 4194304 = 956"
    "unat UENVS div 4194304 = 955" "unat MMIOBASE div 4194304 = 958"
    by (simp_all add: layout)
  have special: "of_nat i \<in> {PDX UVPT, PDX (KSTACKTOP - 1), PDX UPAGES, PDX UENVS, PDX MMIOBASE} \<longleftrightarrow> i \<in> {955, 956, 957, 958, 959}"
    by (simp only: insert_iff empty_iff pde_index_iff [OF i] d) auto
  have high: "of_nat i \<ge> PDX KERNBASE \<longleftrightarrow> 960 \<le> i"
    using i by (simp add: word_le_nat_alt unat_PDX unat_of_nat layout)
  have in_space: "?x \<in> kernel_space \<longleftrightarrow> i \<in> {955, 956, 959} \<or> 960 \<le> i"
    by (simp add: kernel_space_iff unat_pde_va [OF i])
  have near: "y \<in> kernel_space \<Longrightarrow> kernel_entries syms s (\<lambda>_. 0) y AND PTE_P \<noteq> 0 \<Longrightarrow> PDX y = of_nat i \<Longrightarrow> pde_of t pgdir ?x AND PTE_P \<noteq> 0" for y
  proof -
    assume y: "y \<in> kernel_space" "kernel_entries syms s (\<lambda>_. 0) y AND PTE_P \<noteq> 0" "PDX y = of_nat i"
    then have "pte_of t pgdir y AND PTE_P \<noteq> 0" using pte by simp
    moreover have "pde_of t pgdir y = pde_of t pgdir ?x" using y(3) PDX_pde_va [OF i] by (intro pde_PDX_cong) simp
    ultimately show ?thesis using present_pde [of t pgdir y] by metis
  qed
  have run: "check_pde pgdir i t =
      (if i \<in> {955, 956, 957, 958, 959} then kassert (pde_of t pgdir ?x AND PTE_P \<noteq> 0) ''assertion failed''
       else if 960 \<le> i then kbind (kassert (pde_of t pgdir ?x AND PTE_P \<noteq> 0) ''assertion failed'')
         (\<lambda>_. kassert (pde_of t pgdir ?x AND PTE_W \<noteq> 0) ''assertion failed'')
       else kassert (pde_of t pgdir ?x = 0) ''assertion failed'') t"
    unfolding check_pde_def special high
    by (rule trans [OF kbind_Ret [where m = "kload (pgdir + 4 * of_nat i)", OF ld]]) (rule refl)
  consider "i = 957" | "i = 958" | "i = 956" | "i = 955" | "i = 959" | "960 \<le> i" | "i < 955" by linarith
  then show ?thesis
  proof cases
    case 1
    then have e: "PDX ?x = PDX UVPT" using pde_index_iff [OF i, of UVPT] d(1) by (simp add: PDX_pde_va i)
    have "pde_of s pgdir ?x AND PTE_P \<noteq> 0"
      using fresh pde_PDX_cong [OF e, of s pgdir] by (simp add: fresh_pgdir_def)
    with UVPT_not_missing [OF e] show ?thesis using pde 1 unfolding run by (simp add: kassert_def kret_def)
  next
    case 2
    have e: "PDX ?x = PDX MMIOBASE" using 2 pde_index_iff [OF i, of MMIOBASE] d(5) by (simp add: PDX_pde_va i)
    then have "pde_of s pgdir ?x AND PTE_P \<noteq> 0"
      using fresh pde_PDX_cong [OF e, of s pgdir] by (simp add: fresh_pgdir_def)
    moreover have "PDX ?x \<noteq> PDX UVPT" unfolding e by (simp add: word_unat_eq_iff unat_PDX layout)
    ultimately have "pde_of s pgdir ?x AND PTE_P \<noteq> 0" "PDX ?x \<notin> missing s pgdir kernel_space"
      by (simp_all add: missing_iff has_table_def)
    then show ?thesis using pde 2 unfolding run by (simp add: kassert_def kret_def)
  next
    case 3
    have r: "UPAGES \<in> region UPAGES 1024" by (simp add: region_def)
    have "pde_of t pgdir ?x AND PTE_P \<noteq> 0"
      using near [OF subsetD [OF kernel_regions(1) r]] kernel_entries_arrays(1) [OF r] region_entry_flags(1)
        pde_index_iff [OF i, of UPAGES] d(3) 3 by simp
    then show ?thesis using 3 unfolding run by (simp add: kassert_def kret_def)
  next
    case 4
    have r: "UENVS \<in> region UENVS 1024" by (simp add: region_def)
    have "pde_of t pgdir ?x AND PTE_P \<noteq> 0"
      using near [OF subsetD [OF kernel_regions(2) r]] kernel_entries_arrays(2) [OF r] region_entry_flags(1)
        pde_index_iff [OF i, of UENVS] d(4) 4 by simp
    then show ?thesis using 4 unfolding run by (simp add: kassert_def kret_def)
  next
    case 5
    have r: "KSTACKTOP - 1 \<in> region (stack_base 0) 8" by (simp add: stack_region layout)
    have "pde_of t pgdir ?x AND PTE_P \<noteq> 0"
      using near [OF subsetD [OF stack_in_kernel_space r]] kernel_entries_stack [OF _ r] region_entry_flags(1)
        pde_index_iff [OF i, of "KSTACKTOP - 1"] d(2) 5 by simp
    then show ?thesis using 5 unfolding run by (simp add: kassert_def kret_def)
  next
    case 6
    have k: "KERNBASE \<le> ?x" using 6 by (simp add: word_le_nat_alt unat_pde_va i layout)
    have p: "pde_of t pgdir ?x AND PTE_P \<noteq> 0"
      using near [OF high_in_kernel_space [OF k]] kernel_entries_high [OF k] PDX_pde_va [OF i] by simp
    have "PDX ?x \<noteq> PDX UVPT" "PDX ?x \<noteq> PDX MMIOBASE"
      unfolding PDX_pde_va [OF i] pde_index_iff [OF i] d using 6 by simp_all
    then have "pde_of s pgdir ?x = 0" using fresh by (simp add: fresh_pgdir_def)
    then have "pde_of t pgdir ?x AND PTE_W \<noteq> 0" using pde p by (auto simp: user_table_def)
    then show ?thesis using p 6 unfolding run by (simp add: kassert_def kret_def)
  next
    case 7
    have "?x < UTOP" using 7 by (simp add: word_less_nat_alt unat_pde_va i layout)
    then have "pde_of t pgdir ?x = 0" by (rule spaced_user [OF fresh sp])
    then show ?thesis using 7 unfolding run by (simp add: kassert_def kret_def)
  qed
qed

lemma check_stack_passes:
  assumes sp: "spaced s pgdir xs kernel_space (kernel_entries syms s (\<lambda>_. 0)) t ys" and syms: "good_symbols syms" and i: "i < 8"
  shows "check_stack (sym_percpu_kstacks syms) pgdir i t = Ret () t"
proof -
  let ?p = "sym_percpu_kstacks syms"
  let ?pa = "?p + of_nat i * KSTKSIZE - KERNBASE"
  note g = syms [unfolded good_symbols_def]
  have n: "unat (of_nat i * KSTKSIZE :: u32) = i * 32768" using i by (simp add: unat_word_ariths unat_of_nat layout)
  then have u: "unat (?p + of_nat i * KSTKSIZE) = unat ?p + i * 32768" using g i by (subst unat_add_no_wrap) simp_all
  then have ge: "KERNBASE \<le> ?p + of_nat i * KSTKSIZE" using g by (simp add: word_le_nat_alt)
  have al: "aligned 4096 (?p + of_nat i * KSTKSIZE)" using g unfolding aligned_def u by (auto intro!: dvd_add)
  have pal: "aligned 4096 ?pa" by (rule aligned_diff [OF al _ ge]) (simp add: aligned_def layout)
  have W: "PTE_W < 4096" by (simp add: layout)
  have base: "KSTACKTOP - (KSTKSIZE + KSTKGAP) * of_nat (i + 1) = guard_base i" "guard_base i + KSTKGAP = stack_base i"
    by (simp_all add: stack_base_def guard_base_def layout algebra_simps)
  have sz: "unat (KSTKSIZE div PGSIZE) = 8" "unat (KSTKGAP div PGSIZE) = 8" by (simp_all add: layout)
  have 1: "check_range 8 pgdir (stack_base i) ?pa t = Ret () t"
  proof (rule check_range_passes [OF spacedD(1) [OF sp] aligned_stack_base [OF i] _ pal])
    fix x assume x: "x \<in> region (stack_base i) 8"
    note k = subsetD [OF stack_in_kernel_space [OF i] x]
    have "pte_of t pgdir x = region_entry (stack_base i) ?pa PTE_W x"
      using spaced_pte [OF sp k] kernel_entries_stack [OF i x] by simp
    then show "PDX x \<noteq> PDX UVPT \<and> pte_of t pgdir x AND PTE_P \<noteq> 0 \<and> PTE_ADDR (pte_of t pgdir x) = ?pa + PTE_ADDR (x - stack_base i)"
      using kernel_space_not_UVPT k region_entry_flags(1) PTE_ADDR_region_entry [OF pal W] by simp
  qed simp
  have 2: "check_unmapped 8 pgdir (guard_base i) t = Ret () t"
  proof (rule check_unmapped_passes [OF spacedD(1) [OF sp]])
    fix x assume x: "x \<in> region (guard_base i) 8"
    note k = subsetD [OF guard_in_kernel_space [OF i] x]
    show "PDX x \<noteq> PDX UVPT \<and> pte_of t pgdir x AND PTE_P = 0"
      using kernel_space_not_UVPT k spaced_pte [OF sp k] kernel_entries_guard [OF i x] by simp
  qed simp
  have "PADDR (?p + of_nat i * KSTKSIZE) t = Ret ?pa t" using ge by (simp add: PADDR_def not_less)
  then show ?thesis unfolding check_stack_def Let_def base sz by (simp add: kbind_Ret 1 2)
qed

lemma kfor_checks: "(\<And>x. x \<in> set xs \<Longrightarrow> body x s = Ret () s) \<Longrightarrow> kfor xs body s = Ret () s"
  by (induction xs) (simp_all add: kbind_Ret kret_def)

lemma check_array_passes:
  assumes sp: "spaced s pgdir xs kernel_space (kernel_entries syms s (\<lambda>_. 0)) t ys"
    and va: "aligned 4096 va" "region va 1024 \<subseteq> kernel_space" "n \<le> 1024" and pa: "aligned 4096 pa"
    and e: "\<And>x. x \<in> region va 1024 \<Longrightarrow> kernel_entries syms s (\<lambda>_. 0) x = region_entry va pa PTE_U x"
  shows "check_range n pgdir va pa t = Ret () t"
proof (rule check_range_passes [OF spacedD(1) [OF sp] va(1) _ pa])
  fix x assume "x \<in> region va n"
  then have x: "x \<in> region va 1024" using va(3) by (simp add: region_def)
  note k = subsetD [OF va(2) x]
  have U: "PTE_U < 4096" by (simp add: layout)
  show "PDX x \<noteq> PDX UVPT \<and> pte_of t pgdir x AND PTE_P \<noteq> 0 \<and> PTE_ADDR (pte_of t pgdir x) = pa + PTE_ADDR (x - va)"
    using kernel_space_not_UVPT k spaced_pte [OF sp k] e [OF x] region_entry_flags(1) PTE_ADDR_region_entry [OF pa U] by simp
qed (use va(3) in simp)

lemma check_memory_passes:
  assumes sp: "spaced s pgdir xs kernel_space (kernel_entries syms s (\<lambda>_. 0)) t ys" and n: "n \<le> 65536"
  shows "check_range n pgdir KERNBASE 0 t = Ret () t"
proof (rule check_range_passes [OF spacedD(1) [OF sp]])
  fix x assume "x \<in> region KERNBASE n"
  then have "x \<in> region KERNBASE 65536" using n by (simp add: region_def)
  then have x: "KERNBASE \<le> x" by (simp add: high_region)
  note k = high_in_kernel_space [OF x]
  have "PTE_ADDR (PTE_ADDR (x - KERNBASE) OR PTE_W OR PTE_P) = PTE_ADDR (x - KERNBASE)"
    by (rule PTE_ADDR_or) (simp_all add: layout)
  then show "PDX x \<noteq> PDX UVPT \<and> pte_of t pgdir x AND PTE_P \<noteq> 0 \<and> PTE_ADDR (pte_of t pgdir x) = 0 + PTE_ADDR (x - KERNBASE)"
    using kernel_space_not_UVPT k spaced_pte [OF sp k] kernel_entries_high [OF x] by simp
qed (use n in \<open>simp_all add: aligned_def layout\<close>)

text \<open>The self test of the mappings finds nothing wrong.\<close>

theorem check_kern_pgdir_passes:
  assumes "mem_ready syms s xs"
  shows "\<exists>t c. mem_init_maps syms s = Ret () t \<and> check_kern_pgdir (sym_percpu_kstacks syms) t = Ret () (t\<lparr>cons := c\<rparr>)"
proof -
  obtain t ys where t: "mem_init_maps syms s = Ret () t"
    and sp: "spaced s (kern_pgdir s) xs kernel_space (kernel_entries syms s (\<lambda>_. 0)) t ys"
    using mem_ready_maps [OF assms] .
  note m = assms [unfolded mem_ready_def] and f = mem_change_fields [OF spacedD(2) [OF sp]]
  have np: "unat (npages s) \<le> 65536" using m by (simp add: vm_ok_def mem_ok_def)
  have pa: "PADDR (pages_kva s) t = Ret (pages_kva s - KERNBASE) t" "PADDR (envs_kva s) t = Ret (envs_kva s - KERNBASE) t"
    using m by (simp_all add: PADDR_def not_less)
  have al: "aligned 4096 (pages_kva s - KERNBASE)" "aligned 4096 (envs_kva s - KERNBASE)" "aligned 4096 UPAGES" "aligned 4096 UENVS"
    using m by (auto intro!: aligned_diff) (simp_all add: aligned_def layout)
  have n8: "unat (npages s * sizeof_PageInfo) = 8 * unat (npages s)" using np by (simp add: unat_word_ariths)
  have "unat (ROUNDUP (npages s * sizeof_PageInfo) PGSIZE) \<le> 8 * unat (npages s) + 4095"
    using np by (subst ROUNDUP_no_wrap) (simp_all add: n8)
  then have n1: "unat (ROUNDUP (npages s * sizeof_PageInfo) PGSIZE div PGSIZE) \<le> 1024"
    using np by (simp add: unat_div)
  have n2: "unat (ROUNDUP (of_nat NENV * sizeof_Env) PGSIZE div PGSIZE) \<le> 1024" by (simp add: ROUNDUP_def ROUNDDOWN_def)
  have n3: "unat (npages s * PGSIZE div PGSIZE) \<le> 65536"
  proof -
    have "unat (npages s * PGSIZE) \<le> 4096 * unat (npages s)" by (simp add: unat_word_ariths mult.commute) 
    then have "unat (npages s * PGSIZE) div 4096 \<le> unat (npages s)" using div_le_mono [of _ _ 4096] by fastforce
    then show ?thesis using np by (simp add: unat_div)
  qed
  note c1 = check_array_passes [OF sp al(3) kernel_regions(1) n1 al(1) kernel_entries_arrays(1)]
  note c2 = check_array_passes [OF sp al(4) kernel_regions(2) n2 al(2) kernel_entries_arrays(2)]
  note c3 = check_memory_passes [OF sp n3]
  have c4: "kfor [0..<NCPU] (check_stack (sym_percpu_kstacks syms) (kern_pgdir s)) t = Ret () t"
    using m by (intro kfor_checks check_stack_passes [OF sp]) simp_all
  have c5: "kfor [0..<NPDENTRIES] (check_pde (kern_pgdir s)) t = Ret () t"
    using m by (intro kfor_checks check_pde_passes [OF _ sp]) simp_all
  have "\<exists>c. check_kern_pgdir (sym_percpu_kstacks syms) t = Ret () (t\<lparr>cons := c\<rparr>)"
    unfolding check_kern_pgdir_def
    using pa c1 c2 c3 c4 c5 f(1-4) by (simp add: kbind_Ret kprintf_Ret del: upt.simps) blast
  with t show ?thesis by blast
qed

subsection \<open>Isolation at the start\<close>

lemma frame_inj_tables:
  assumes "wf_pgdir t pgdir" "has_table t pgdir x" "has_table t pgdir y" "frame (pde_of t pgdir x) = frame (pde_of t pgdir y)"
  shows "PDX x = PDX y"
proof (rule ccontr)
  assume "PDX x \<noteq> PDX y"
  then have "PTE_ADDR (pde_of t pgdir x) \<noteq> PTE_ADDR (pde_of t pgdir y)"
    using assms(1-3) unfolding wf_pgdir_def by blast
  moreover have "frame (PTE_ADDR (pde_of t pgdir x)) = frame (PTE_ADDR (pde_of t pgdir y))" using assms(4) by simp
  ultimately show False by (simp add: frame_eq_iff del: frame_PTE_ADDR)
qed

text \<open>A kernel without user mappings and without environments is isolated.\<close>

lemma isolated_start:
  assumes v: "vm_ok t (kern_pgdir t) ys" and user: "\<And>x. x < UTOP \<Longrightarrow> pde_of t (kern_pgdir t) x AND PTE_P = 0"
    and free: "\<forall>e < NENV. env_status (envs t e) = ENV_FREE"
  shows "isolated t"
proof -
  let ?k = "kern_pgdir t"
  note wf = v [unfolded vm_ok_def tables_not_free_def]
  have W: "wf_pgdir t ?k" using wf by blast
  define role where "role g = (if g = frame (?k - KERNBASE) then Directory ?k else if g \<in> set ys then Free
      else Kernel (SOME d. \<exists>x. has_table t ?k x \<and> frame (pde_of t ?k x) = g \<and> PDX x = d))" for g
  have tab: "role (frame (pde_of t ?k x)) = table_role ?k x" if x: "has_table t ?k x" for x
  proof -
    let ?P = "\<lambda>d. \<exists>y. has_table t ?k y \<and> frame (pde_of t ?k y) = frame (pde_of t ?k x) \<and> PDX y = d"
    have "?P (PDX x)" using x by blast
    then have "?P (SOME d. ?P d)" by (rule someI)
    then have "(SOME d. ?P d) = PDX x" using frame_inj_tables [OF W _ x] by metis
    moreover have "frame (pde_of t ?k x) \<notin> set ys" using wf x by blast
    moreover have "frame (pde_of t ?k x) \<noteq> frame (?k - KERNBASE)"
    proof
      assume eq: "frame (pde_of t ?k x) = frame (?k - KERNBASE)"
      then have "frame (PTE_ADDR (pde_of t ?k x)) = frame (?k - KERNBASE)" by simp
      then have "PTE_ADDR (pde_of t ?k x) = ?k - KERNBASE"
        using W by (simp add: frame_eq_iff wf_pgdir_def del: frame_PTE_ADDR)
      with W x show False unfolding wf_pgdir_def by blast
    qed
    moreover have "\<not> x < UTOP" using user x by (auto simp: has_table_def)
    ultimately show ?thesis by (simp add: role_def table_role_def)
  qed
  have nou: "pte_of t ?k x AND PTE_P = 0" if "x < UTOP" for x using user [OF that] by (simp add: pte_of_def)
  have "frames_ok t ?k role"
    unfolding frames_ok_def
  proof (intro conjI allI impI)
    show "role (frame (?k - KERNBASE)) = Directory ?k" by (simp add: role_def)
  qed (use W tab nou in \<open>auto simp: wf_pgdir_def\<close>)
  moreover have "\<forall>g \<in> set ys. role g = Free" using wf by (auto simp: role_def)
  moreover have "role g \<noteq> Data" for g by (simp add: role_def)
  ultimately have inv: "mem_inv t {?k} ys role"
    using wf by (simp add: mem_inv_def)
  have u: "user_spaces t = {}" using free by (auto simp: user_spaces_def live_def)
  have "kernel_clean t" using user u by (simp add: kernel_clean_def)
  then show ?thesis using inv u by (auto simp: isolated_def)
qed

subsection \<open>The window at \<open>UPAGES\<close>\<close>

text \<open>C25. The mapping at \<open>UPAGES\<close> is as large as a page table allows, and not as large as the array of pages:
  user code reads every byte of the four megabytes of physical memory from the array on, the pages
  on the free list and those of other environments included.\<close>

theorem upages_window:
  assumes "mem_ready syms s xs" "mem_init_maps syms s = Ret () t" "unat k < 4194304"
  shows "user_byte t (kern_pgdir s) (UPAGES + k) = Some (pmem t (pages_kva s - KERNBASE + k))"
proof -
  let ?k = "kern_pgdir s"
  obtain ys where sp: "spaced s ?k xs kernel_space (kernel_entries syms s (\<lambda>_. 0)) t ys"
    using mem_ready_maps [OF assms(1)] assms(2) by auto
  note m = assms(1) [unfolded mem_ready_def]
  have r: "UPAGES + k \<in> region UPAGES 1024" using assms(3) by simp
  then have ks: "UPAGES + k \<in> kernel_space" using kernel_regions(1) by blast
  let ?pa = "pages_kva s - KERNBASE"
  have pte: "pte_of t ?k (UPAGES + k) = region_entry UPAGES ?pa PTE_U (UPAGES + k)"
    using spaced_pte [OF sp ks] kernel_entries_arrays(1) [OF r] by simp
  have al: "aligned 4096 (?k - KERNBASE)" using spacedD(1) [OF sp] by (simp add: vm_ok_def wf_pgdir_def)
  have fl: "pte_of t ?k (UPAGES + k) AND PTE_P \<noteq> 0" "pte_of t ?k (UPAGES + k) AND PTE_U \<noteq> 0"
    unfolding pte by (rule region_entry_flags, rule region_entry_flags) (simp add: layout)
  have p: "pde_of t ?k (UPAGES + k) AND PTE_P \<noteq> 0" by (rule present_pde [OF fl(1)])
  have "PDX (UPAGES + k) \<noteq> PDX UVPT" using kernel_space_not_UVPT ks by blast
  moreover have "PDX (UPAGES + k) \<noteq> PDX MMIOBASE"
  proof -
    have "unat (UPAGES + k) < unat UPAGES + 4194304" using r unfolding table_regions by blast
    then have "unat (PDX (UPAGES + k)) < 957" unfolding unat_PDX by (intro less_mult_imp_div_less) (simp add: layout)
    moreover have "unat (PDX MMIOBASE) = 958" by (simp add: unat_PDX layout)
    ultimately show ?thesis by auto
  qed
  ultimately have "pde_of s ?k (UPAGES + k) = 0" using m by (simp add: fresh_pgdir_def)
  then have ut: "pde_of t ?k (UPAGES + k) AND PTE_U \<noteq> 0"
    using spacedD(7) [OF sp, of "UPAGES + k"] p by (auto simp: user_table_def)
  have pal: "aligned 4096 ?pa" using m by (intro aligned_diff) (simp_all add: aligned_def layout)
  have "PTE_ADDR (pte_of t ?k (UPAGES + k)) = ?pa + PTE_ADDR k"
    unfolding pte using PTE_ADDR_region_entry [OF pal, of PTE_U UPAGES "UPAGES + k"] by (simp add: layout)
  moreover have split: "PTE_ADDR k + PGOFF k = k"
    by (simp add: word_unat_eq_iff unat_add_no_wrap unat_PTE_ADDR unat_PGOFF)
  moreover have off: "unat (PGOFF k) < 4096" by (simp add: unat_PGOFF)
  moreover have "PGOFF (UPAGES + k) = PGOFF k"
  proof -
    have "aligned 4096 UPAGES" by (simp add: aligned_def layout)
    then have "aligned 4096 (UPAGES + PTE_ADDR k)" by (intro aligned_plus) simp_all
    from same_page_offset(3) [OF this off] split show ?thesis by (simp only: add.assoc)
  qed
  moreover have "(?pa + PTE_ADDR k) OR PGOFF k = ?pa + PTE_ADDR k + PGOFF k"
    using pal off by (intro or_offset aligned_plus) simp_all
  ultimately have "PTE_ADDR (pte_of t ?k (UPAGES + k)) OR PGOFF (UPAGES + k) = ?pa + k"
    by (simp only: add.assoc)
  then show ?thesis
    using fl p ut by (simp add: user_byte_def translate_hw in_space_hw [OF al] access_ok_def)
qed

subsection \<open>A machine before its mappings\<close>

text \<open>256 pages of memory; the pages 100 to 169 are free, page 5 is the directory and page 6 the
  empty table for \<open>MMIOBASE\<close>.\<close>

definition fresh_machine :: kstate where
  "fresh_machine = small_machine\<lparr>npages := 256,
     pages := (\<lambda>i. \<lparr>pp_link = (if 100 < i \<and> i < 170 then Some (i - 1) else None), pp_ref = 0\<rparr>),
     page_free_list := Some 169,
     envs := (\<lambda>i. zero_env),
     pmem := store32 (store32 (\<lambda>_. 0) (0x5000 + 4 * 957) 0x5005) (0x5000 + 4 * 958) 0x6007\<rparr>"

definition sample_symbols :: ksymbols where
  "sample_symbols = \<lparr>sym_bootstack = 0xF0110000, sym_percpu_kstacks = 0xF0120000, sym_mpentry_start = 0xF0100800,
     sym_mpentry_end = 0xF0100880, sym_user_yield = 0xF0130000\<rparr>"

lemma fresh_machine_fields [simp]:
  "npages fresh_machine = 256" "kern_pgdir fresh_machine = sample_pgdir" "pages_kva fresh_machine = 0xF0008000"
  "envs_kva fresh_machine = 0xF0010000" "page_free_list fresh_machine = Some 169"
  "pp_link (pages fresh_machine i) = (if 100 < i \<and> i < 170 then Some (i - 1) else None)"
  "env_status (envs fresh_machine i) = ENV_FREE"
  by (simp_all add: fresh_machine_def small_machine_def zero_env_def)

lemma chain_down:
  assumes "\<And>i. a < i \<Longrightarrow> i < a + n \<Longrightarrow> link i = Some (i - 1)" "link a = None" "0 < n"
  shows "chain link (Some (a + n - 1)) (rev [a..<a + n])"
  using assms(1,3)
proof (induction n)
  case (Suc n)
  show ?case
  proof (cases "n = 0")
    case False
    then have "chain link (Some (a + n - 1)) (rev [a..<a + n])" using Suc by simp
    moreover have "link (a + n) = Some (a + n - 1)" using False Suc.prems(1) by simp
    ultimately show ?thesis by simp
  qed (simp add: assms(2))
qed simp

lemma fresh_machine_pde:
  "pde_of fresh_machine sample_pgdir x = (if PDX x = 957 then 0x5005 else if PDX x = 958 then 0x6007 else 0)"
proof -
  have a: "aligned 4096 0x5000" by (simp add: aligned_def)
  have "pmem fresh_machine = store32 (store32 (\<lambda>_. 0) (0x5000 + 4 * 957) 0x5005) (0x5000 + 4 * 958) 0x6007"
    by (simp add: fresh_machine_def)
  then show ?thesis
    using a load_store_slot [of "0x5000" 958 "0x5000" "PDX x"] load_store_slot [of "0x5000" 957 "0x5000" "PDX x"]
    by (auto simp: pde_of_def layout PDX_less)
qed

lemma fresh_machine_ready: "mem_ready sample_symbols fresh_machine (rev [100..<170])"
proof -
  have a: "aligned 4096 0x5000" "aligned 4096 0x6000" by (simp_all add: aligned_def)
  have P: "PDX UVPT = 957" "PDX MMIOBASE = 958" by (simp_all add: PDX_def layout)
  have pte: "pte_of fresh_machine sample_pgdir x = 0" if "PDX x = 958" for x
  proof -
    have "pmem fresh_machine = store32 (store32 (\<lambda>_. 0) (0x5000 + 4 * 957) 0x5005) (0x5000 + 4 * 958) 0x6007"
      by (simp add: fresh_machine_def)
    then show ?thesis
      using a that load_store_slot [of "0x5000" 958 "0x6000" "PTX x"] load_store_slot [of "0x5000" 957 "0x6000" "PTX x"]
      by (simp add: pte_of_def fresh_machine_pde layout PTX_less)
  qed
  have fl: "free_list fresh_machine (rev [100..<170])"
    using chain_down [of 100 70 "\<lambda>i. pp_link (pages fresh_machine i)"] by (auto simp: free_list_def simp del: upt_rec_numeral)
  have ht: "has_table fresh_machine sample_pgdir x \<longleftrightarrow> PDX x = 958" for x
    by (simp add: has_table_def fresh_machine_pde P layout)
  have wf: "wf_pgdir fresh_machine sample_pgdir" "tables_not_free fresh_machine sample_pgdir (rev [100..<170])"
    by (auto simp: wf_pgdir_def tables_not_free_def ht fresh_machine_pde aligned_def frame_def layout simp del: upt_rec_numeral)
  have "fresh_pgdir fresh_machine sample_pgdir"
    using fresh_machine_pde [of UVPT] fresh_machine_pde [of MMIOBASE] pte
    by (simp add: fresh_pgdir_def P fresh_machine_pde) (simp add: layout)
  moreover have "good_symbols sample_symbols" by (simp add: good_symbols_def sample_symbols_def aligned_def layout)
  ultimately show ?thesis
    using fl wf by (simp add: mem_ready_def vm_ok_def mem_ok_def aligned_def layout del: upt_rec_numeral)
qed

lemma kernel_address_space_witness:
  "\<exists>t. mem_init_maps sample_symbols fresh_machine = Ret () t \<and> pte_of t sample_pgdir 0xF0123456 = 0x123003"
proof -
  obtain t where t: "mem_init_maps sample_symbols fresh_machine = Ret () t"
    "\<forall>x. KERNBASE \<le> x \<longrightarrow> pte_of t (kern_pgdir fresh_machine) x = PTE_ADDR (x - KERNBASE) OR PTE_W OR PTE_P"
    using kernel_address_space [OF fresh_machine_ready] by blast
  have "pte_of t sample_pgdir 0xF0123456 = PTE_ADDR (0xF0123456 - KERNBASE) OR PTE_W OR PTE_P"
    using t(2) by (simp add: layout)
  also have "\<dots> = 0x123003" by (simp add: PTE_ADDR_def layout)
  finally show ?thesis using t(1) by blast
qed

lemma upages_window_witness:
  "100 \<in> set (rev [100..<170 :: nat]) \<and> (\<exists>t. mem_init_maps sample_symbols fresh_machine = Ret () t \<and>
     user_byte t sample_pgdir (UPAGES + 0x5C010) = Some (pmem t (page2pa 100 + 0x10)))"
proof -
  obtain t where t: "mem_init_maps sample_symbols fresh_machine = Ret () t"
    by (rule mem_ready_maps [OF fresh_machine_ready])
  have "unat (0x5C010 :: u32) < 4194304" by simp
  from upages_window [OF fresh_machine_ready t this]
  have "user_byte t sample_pgdir (UPAGES + 0x5C010) = Some (pmem t (0xF0008000 - KERNBASE + 0x5C010))" by simp
  also have "0xF0008000 - KERNBASE + 0x5C010 = page2pa 100 + 0x10" by (simp add: page2pa_def layout)
  finally show ?thesis using t by (simp del: upt_rec_numeral) 
qed

end
