(* ===== verification/Test_Space.thy ===== *)
theory Test_Space
  imports Kernel_Space
begin

text \<open>
  How the self tests of \<open>mem_init\<close> run.  A test is a long sequence of operations on the page
  directory of the kernel; \<open>space\<close> describes a state by its free list, its directory entries, its
  page-table entries and its reference counts, and there is one rule for each operation that
  computes the description after it from the one before.
\<close>

subsection \<open>Total correctness\<close>

definition returns :: "('a, 's) kfun \<Rightarrow> 's \<Rightarrow> ('a \<Rightarrow> 's \<Rightarrow> bool) \<Rightarrow> bool" where
  "returns m s Q \<longleftrightarrow> (\<exists>x t. m s = Ret x t \<and> Q x t)"

named_theorems run_intro \<open>rules for operations of a test\<close>

lemma returnsI: "m s = Ret x t \<Longrightarrow> Q x t \<Longrightarrow> returns m s Q"
  by (auto simp: returns_def)

lemma returns_bind [run_intro]: "returns m s (\<lambda>x t. returns (f x) t Q) \<Longrightarrow> returns (kbind m f) s Q"
  by (auto simp: returns_def kbind_def)

lemma returns_prim [run_intro]:
  "Q x s \<Longrightarrow> returns (kret x) s Q"
  "b \<Longrightarrow> P () s \<Longrightarrow> returns (kassert b msg) s P"
  by (auto simp: returns_def kret_def kassert_def)

lemma returns_get: "Q (g s) s \<Longrightarrow> returns (kget g) s Q"
  by (auto simp: returns_def kget_def)

lemma returns_mod: "Q () (g s) \<Longrightarrow> returns (kmod g) s Q"
  by (auto simp: returns_def kmod_def)

lemma returns_mono: "returns m s P \<Longrightarrow> (\<And>x t. P x t \<Longrightarrow> Q x t) \<Longrightarrow> returns m s Q"
  by (auto simp: returns_def)

lemma returns_case_prod [run_intro]: "returns (f a b) s Q \<Longrightarrow> returns (case (a, b) of (x, y) \<Rightarrow> f x y) s Q"
  by simp

lemma returns_kfor:
  assumes "I s" "\<And>x t. x \<in> set xs \<Longrightarrow> I t \<Longrightarrow> returns (body x) t (\<lambda>_. I)"
  shows "returns (kfor xs body) s (\<lambda>_. I)"
  using assms
proof (induction xs arbitrary: s)
  case (Cons x xs)
  have "returns (body x) s (\<lambda>_. I)" using Cons.prems by simp
  then have "returns (body x) s (\<lambda>_ t. returns (kfor xs body) t (\<lambda>_. I))"
    by (rule returns_mono) (intro Cons.IH; simp add: Cons.prems)
  then show ?case by (simp add: returns_bind)
qed (simp add: returns_prim)

subsection \<open>Descriptions\<close>

text \<open>\<open>erase k s\<close> is \<open>s\<close> with everything that a test may change taken from \<open>k\<close>.\<close>

definition erase :: "kstate \<Rightarrow> kstate \<Rightarrow> kstate" where
  "erase k s = s\<lparr>pmem := pmem k, pages := pages k, page_free_list := page_free_list k, cons := cons k,
     hwlog := hwlog k, mmio_base := mmio_base k\<rparr>"

lemma erase_updates [simp]:
  "erase k (s\<lparr>pmem := m\<rparr>) = erase k s" "erase k (s\<lparr>cons := c\<rparr>) = erase k s" "erase k (s\<lparr>mmio_base := b\<rparr>) = erase k s"
  "erase k (s\<lparr>page_free_list := f\<rparr>) = erase k s" "erase k (upd_page i g s) = erase k s" "erase k (hw opn s) = erase k s"
  "erase k (put_free_page i s) = erase k s" "erase k (take_free_page i s) = erase k s"
  "erase k (set_pte pgdir va v s) = erase k s" "erase k (tlb_state pgdir va s) = erase k s"
  "erase k (s\<lparr>pmem := m, page_free_list := f\<rparr>) = erase k s"
  by (simp_all add: erase_def upd_page_def hw_def put_free_page_def take_free_page_def set_pte_def tlb_state_def)

lemma erase_states [simp]:
  "erase k (alloc_state fl q s) = erase k s" "erase k (walk_state pgdir va q s) = erase k s"
  "erase k (decref_state q s) = erase k s"
  by (simp_all add: alloc_state_def walk_state_def decref_state_def Let_def)

lemma mmio_base_tlb [simp]: "mmio_base (tlb_state pgdir va s) = mmio_base s"
  by (simp add: tlb_state_def hw_def)

lemma erase_fields:
  assumes "erase k s = k"
  shows "npages s = npages k" "kern_pgdir s = kern_pgdir k" "pages_kva s = pages_kva k" "envs_kva s = envs_kva k"
    "envs s = envs k" "cpus s = cpus k" "thiscpu s = thiscpu k" "cr3 s = cr3 k" "cr0 s = cr0 k" "nextfree s = nextfree k"
    "image s = image k"
proof -
  have *: "f s = f k" if "f (erase k s) = f s" for f :: "kstate \<Rightarrow> 'b" using that assms by simp
  show "npages s = npages k" "kern_pgdir s = kern_pgdir k" "pages_kva s = pages_kva k" "envs_kva s = envs_kva k"
    "envs s = envs k" "cpus s = cpus k" "thiscpu s = thiscpu k" "cr3 s = cr3 k" "cr0 s = cr0 k" "nextfree s = nextfree k"
    "image s = image k"
    by (rule *, simp add: erase_def)+
qed

text \<open>The test runs on the directory of \<open>k\<close> and changes links of the pages in \<open>K\<close> only; \<open>xs\<close> is the free
  list, \<open>D\<close> the directory by its index, \<open>E\<close> the entries by page number, \<open>R\<close> the reference counts.\<close>

definition space :: "kstate \<Rightarrow> nat set \<Rightarrow> u32 \<Rightarrow> nat list \<Rightarrow> (u32 \<Rightarrow> u32) \<Rightarrow> (u32 \<Rightarrow> u32) \<Rightarrow> (nat \<Rightarrow> u16) \<Rightarrow> kstate \<Rightarrow> bool" where
  "space k K M xs D E R s \<longleftrightarrow>
     vm_ok s (kern_pgdir k) xs \<and> erase k s = k \<and> (\<forall>i. i \<notin> K \<longrightarrow> pp_link (pages s i) = pp_link (pages k i)) \<and>
     mmio_base s = M \<and> (\<forall>x. pde_of s (kern_pgdir k) x = D (PDX x)) \<and>
     (\<forall>x. PDX x \<noteq> PDX UVPT \<longrightarrow> pte_of s (kern_pgdir k) x = E (PGNUM x)) \<and>
     (\<forall>i. pp_ref (pages s i) = R i)"

lemma spaceD:
  assumes "space k K M xs D E R s"
  shows "vm_ok s (kern_pgdir k) xs" "erase k s = k" "\<And>i. i \<notin> K \<Longrightarrow> pp_link (pages s i) = pp_link (pages k i)"
    "mmio_base s = M" "\<And>x. pde_of s (kern_pgdir k) x = D (PDX x)"
    "\<And>x. PDX x \<noteq> PDX UVPT \<Longrightarrow> pte_of s (kern_pgdir k) x = E (PGNUM x)" "\<And>i. pp_ref (pages s i) = R i"
    "mem_ok s" "free_list s xs" "wf_pgdir s (kern_pgdir k)"
    "npages s = npages k" "kern_pgdir s = kern_pgdir k" "mem_ok k"
proof -
  note a = assms [unfolded space_def]
  show v: "vm_ok s (kern_pgdir k) xs" and e: "erase k s = k" using a by blast+
  show "\<And>i. i \<notin> K \<Longrightarrow> pp_link (pages s i) = pp_link (pages k i)" "mmio_base s = M"
    "\<And>x. pde_of s (kern_pgdir k) x = D (PDX x)"
    "\<And>x. PDX x \<noteq> PDX UVPT \<Longrightarrow> pte_of s (kern_pgdir k) x = E (PGNUM x)" "\<And>i. pp_ref (pages s i) = R i"
    using a by blast+
  show "mem_ok s" "free_list s xs" "wf_pgdir s (kern_pgdir k)" using v by (simp_all add: vm_ok_def)
  show "npages s = npages k" "kern_pgdir s = kern_pgdir k" by (rule erase_fields [OF e])+
  then show "mem_ok k" using \<open>mem_ok s\<close> by (simp add: mem_ok_def)
qed

lemma spaceI:
  assumes "vm_ok s (kern_pgdir k) xs" "erase k s = k" "\<And>i. i \<notin> K \<Longrightarrow> pp_link (pages s i) = pp_link (pages k i)"
    "mmio_base s = M" "\<And>x. pde_of s (kern_pgdir k) x = D (PDX x)"
    "\<And>x. PDX x \<noteq> PDX UVPT \<Longrightarrow> pte_of s (kern_pgdir k) x = E (PGNUM x)" "\<And>i. pp_ref (pages s i) = R i"
  shows "space k K M xs D E R s"
  using assms unfolding space_def by blast

lemma space_eq: "space k K M xs D E R s \<Longrightarrow> D = D' \<Longrightarrow> E = E' \<Longrightarrow> R = R' \<Longrightarrow> space k K M xs D' E' R' s"
  by simp

text \<open>A page that is neither the directory nor a page table.\<close>

definition loose :: "kstate \<Rightarrow> (u32 \<Rightarrow> u32) \<Rightarrow> nat \<Rightarrow> bool" where
  "loose k D p \<longleftrightarrow> p < unat (npages k) \<and> p \<noteq> frame (kern_pgdir k - KERNBASE) \<and>
     (\<forall>va. PDX va \<noteq> PDX UVPT \<longrightarrow> D (PDX va) AND PTE_P \<noteq> 0 \<longrightarrow> frame (D (PDX va)) \<noteq> p)"

lemma loose_upd: "loose k D p \<Longrightarrow> frame v \<noteq> p \<or> v AND PTE_P = 0 \<Longrightarrow> loose k (D(d := v)) p"
  by (auto simp: loose_def)

lemma space_loose: "space k K M xs D E R s \<Longrightarrow> p \<in> set xs \<Longrightarrow> loose k D p"
proof -
  assume sp: "space k K M xs D E R s" and p: "p \<in> set xs"
  have "has_table s (kern_pgdir k) va \<longleftrightarrow> PDX va \<noteq> PDX UVPT \<and> D (PDX va) AND PTE_P \<noteq> 0" for va
    by (simp add: has_table_def spaceD(5) [OF sp])
  then show ?thesis
    using spaceD(1,5,11) [OF sp] p by (auto simp: loose_def vm_ok_def tables_not_free_def free_list_def)
qed

text \<open>The entry of a new page table.\<close>

definition new_table :: "nat \<Rightarrow> u32" where
  "new_table q = page2pa q OR PTE_P OR PTE_U OR PTE_W"

lemma new_table_flags [simp]:
  "new_table q AND PTE_P \<noteq> 0" "new_table q AND PTE_U \<noteq> 0" "new_table q AND PTE_W \<noteq> 0" "PTE_ADDR (new_table q) = page2pa q"
proof -
  have "bit (new_table q AND PTE_P) 0" "bit (new_table q AND PTE_U) 2" "bit (new_table q AND PTE_W) 1"
    by (simp_all add: new_table_def bit_simps layout)
  then show "new_table q AND PTE_P \<noteq> 0" "new_table q AND PTE_U \<noteq> 0" "new_table q AND PTE_W \<noteq> 0" by auto
  show "PTE_ADDR (new_table q) = page2pa q" unfolding new_table_def by (rule PTE_ADDR_table)
qed

lemma frame_page2pa: "p < 1048576 \<Longrightarrow> frame (page2pa p) = p"
  by (simp add: frame_def unat_page2pa)

lemma frame_new_table: "q < 1048576 \<Longrightarrow> frame (new_table q) = q"
  using frame_PTE_ADDR [of "new_table q"] by (simp add: frame_page2pa del: frame_PTE_ADDR)

subsection \<open>How each operation changes the description\<close>

text \<open>The description does not look at the console, and a write outside the tables is not seen.\<close>

lemma space_same:
  assumes "space k K M xs D E R s" "pmem t = pmem s" "pages t = pages s" "page_free_list t = page_free_list s"
    "mmio_base t = M" "erase k t = k"
  shows "space k K M xs D E R t"
proof -
  have n: "npages t = npages s" using erase_fields(1) [OF assms(6)] spaceD(11) [OF assms(1)] by simp
  show ?thesis
    by (rule spaceI) (simp_all add: assms(3,5,6) spaceD [OF assms(1)] vm_ok_cong [OF assms(2) n assms(3,4)] vspace_cong [OF assms(2)])
qed

lemma space_cons: "space k K M xs D E R s \<Longrightarrow> space k K M xs D E R (s\<lparr>cons := c\<rparr>)"
  by (rule space_same, assumption) (simp_all add: spaceD)

lemma space_page:
  assumes "space k K M xs D E R s" "\<And>p. pp_link (g p) = pp_link p" "\<And>p. pp_ref p = R i \<Longrightarrow> pp_ref (g p) = n"
  shows "space k K M xs D E (R(i := n)) (upd_page i g s)"
proof (rule spaceI)
  let ?t = "upd_page i g s"
  note d = spaceD [OF assms(1)]
  have link: "(\<lambda>i. pp_link (pages ?t i)) = (\<lambda>i. pp_link (pages s i))" by (auto simp: assms(2))
  have "free_list ?t xs" using d(9) unfolding free_list_def link by simp
  then show "vm_ok ?t (kern_pgdir k) xs"
    using d(1) vspace_cong [of ?t s] wf_pgdir_cong [of ?t s] by (simp add: vm_ok_def mem_ok_def tables_not_free_def)
  show "mmio_base ?t = M" using d(4) by (simp add: upd_page_def)
qed (use spaceD [OF assms(1)] vspace_cong [of "upd_page i g s" s] assms(2,3) in \<open>auto simp: upd_page_fields\<close>)

lemma space_put:
  assumes sp: "space k K M xs D E R s" and "p \<in> K" "loose k D p" "p \<notin> set xs"
  shows "space k K M (p # xs) D E R (put_free_page p s)"
proof (rule spaceI)
  let ?t = "put_free_page p s"
  note d = spaceD [OF sp]
  have m: "pmem ?t = pmem s" "npages ?t = npages s" by (simp_all add: put_free_page_def)
  have "free_list ?t (p # xs)"
    using assms d(9,11) by (intro put_free_page_free_list) (simp_all add: loose_def)
  moreover have "tables_not_free ?t (kern_pgdir k) (p # xs)"
    using d(1,5) assms(3) by (auto simp: tables_not_free_def vspace_cong [OF m(1)] vm_ok_def loose_def has_table_def)
  ultimately show "vm_ok ?t (kern_pgdir k) (p # xs)"
    using d(8,10) by (simp add: vm_ok_def wf_pgdir_cong [OF m] mem_ok_def m)
  show "mmio_base ?t = M" using d(4) by (simp add: put_free_page_def upd_page_def)
  show "pp_link (pages ?t i) = pp_link (pages k i)" if "i \<notin> K" for i
    using that assms(2) d(3) by (auto simp: put_free_page_def)
qed (use spaceD [OF sp] vspace_cong [of "put_free_page p s" s] in \<open>auto simp: put_free_page_def\<close>)

text \<open>A change of memory in pages that are not tables.\<close>

lemma load_same_frame:
  assumes "\<And>a. frame a = frame b \<Longrightarrow> m a = m' a" "aligned 4096 b" "unat x < 1024"
  shows "load32 m (b + 4 * x) = load32 m' (b + 4 * x)"
proof (rule load32_cong)
  fix j :: u32 assume j: "unat j < 4"
  have n: "unat (4 * x + j) = 4 * unat x + unat j"
    using j assms(3) by (subst unat_add_no_wrap) (simp_all add: unat_times4)
  have "frame (b + (4 * x + j)) = frame b"
    unfolding frame_def using assms(2,3) j n by (intro aligned_add_div) auto
  then show "m (b + 4 * x + j) = m' (b + 4 * x + j)" using assms(1) by (simp add: add.assoc)
qed

lemma space_memory:
  assumes sp: "space k K M xs D E R s"
    and same: "\<And>a. frame a = frame (kern_pgdir k - KERNBASE) \<Longrightarrow> m a = pmem s a"
      "\<And>a va. has_table s (kern_pgdir k) va \<Longrightarrow> frame a = frame (pde_of s (kern_pgdir k) va) \<Longrightarrow> m a = pmem s a"
  shows "space k K M xs D E R (s\<lparr>pmem := m\<rparr>)"
proof (rule spaceI)
  let ?t = "s\<lparr>pmem := m\<rparr>" and ?p = "kern_pgdir k"
  note d = spaceD [OF sp]
  have al: "aligned 4096 (?p - KERNBASE)" using d(10) by (simp add: wf_pgdir_def)
  have pde: "pde_of ?t ?p = pde_of s ?p"
    using load_same_frame [OF same(1) al] by (simp add: pde_of_def fun_eq_iff PDX_less)
  have tab: "has_table ?t ?p = has_table s ?p" by (simp add: has_table_def fun_eq_iff pde)
  have pte: "pte_of ?t ?p x = pte_of s ?p x" if x: "PDX x \<noteq> PDX UVPT" for x
  proof (cases "has_table s ?p x")
    case True
    have "frame a = frame (PTE_ADDR (pde_of s ?p x)) \<Longrightarrow> m a = pmem s a" for a using same(2) [OF True] by simp
    then have "load32 m (PTE_ADDR (pde_of s ?p x) + 4 * PTX x) = load32 (pmem s) (PTE_ADDR (pde_of s ?p x) + 4 * PTX x)"
      by (intro load_same_frame) (simp_all add: PTX_less)
    then show ?thesis by (simp add: pte_of_def pde)
  next
    case False
    then show ?thesis using x tab by (simp add: pte_of_no_table)
  qed
  have "wf_pgdir ?t ?p" using d(10) by (simp add: wf_pgdir_def pde tab)
  then show "vm_ok ?t ?p xs"
    using d(1) by (simp add: vm_ok_def mem_ok_def free_list_def tables_not_free_def pde tab)
  show "pde_of ?t ?p x = D (PDX x)" for x using d(5) pde by simp
  show "pte_of ?t ?p x = E (PGNUM x)" if "PDX x \<noteq> PDX UVPT" for x using d(6) pte that by simp
qed (use spaceD [OF sp] in simp_all)

lemma mem_set_page_same: "frame a \<noteq> p \<Longrightarrow> p < 1048576 \<Longrightarrow> n \<le> 4096 \<Longrightarrow> mem_set m (page2pa p) c n a = m a"
proof -
  assume a: "frame a \<noteq> p" "p < 1048576" "n \<le> 4096"
  then have "\<not> unat (a - page2pa p) < n"
    using frame_near [OF aligned_page2pa, of a p] by (auto simp: frame_page2pa)
  then show ?thesis by (simp add: mem_set_def)
qed

lemma space_mem_set:
  assumes sp: "space k K M xs D E R s" and p: "loose k D p" "n \<le> 4096"
  shows "space k K M xs D E R (s\<lparr>pmem := mem_set (pmem s) (page2pa p) c n\<rparr>)"
proof (rule space_memory [OF sp])
  note d = spaceD [OF sp]
  have pn: "p < 1048576" using p(1) d(13) by (simp add: loose_def mem_ok_def)
  show "mem_set (pmem s) (page2pa p) c n a = pmem s a" if "frame a = frame (kern_pgdir k - KERNBASE)" for a
    using that p pn by (intro mem_set_page_same) (auto simp: loose_def)
  show "mem_set (pmem s) (page2pa p) c n a = pmem s a"
    if "has_table s (kern_pgdir k) va" "frame a = frame (pde_of s (kern_pgdir k) va)" for a va
    using that p pn d(5) by (intro mem_set_page_same) (auto simp: loose_def has_table_def)
qed

lemma space_take:
  assumes sp: "space k K M (p # xs) D E R s"
  shows "space k K M xs D E R (alloc_state fl p s)"
proof -
  let ?t = "take_free_page p s"
  note d = spaceD [OF sp]
  have m: "pmem ?t = pmem s" "npages ?t = npages s" by (simp_all add: take_free_page_def)
  have "free_list ?t xs" using d(9) by (simp add: free_list_def take_free_page_def)
  moreover have "tables_not_free ?t (kern_pgdir k) xs"
    using d(1) by (auto simp: tables_not_free_def vspace_cong [OF m(1)] vm_ok_def)
  ultimately have "vm_ok ?t (kern_pgdir k) xs"
    using d(8,10) by (simp add: vm_ok_def wf_pgdir_cong [OF m] mem_ok_def m)
  then have t: "space k K M xs D E R ?t"
    by (rule spaceI) (use d vspace_cong [of ?t s] in \<open>auto simp: take_free_page_def\<close>)
  have "loose k D p" using space_loose [OF sp] by simp
  then have "space k K M xs D E R (?t\<lparr>pmem := mem_set (pmem s) (page2pa p) 0 4096\<rparr>)"
    using space_mem_set [OF t, of p 4096 0] by (simp add: m)
  moreover have "alloc_state fl p s = (if fl AND ALLOC_ZERO = 0 then ?t else ?t\<lparr>pmem := mem_set (pmem s) (page2pa p) 0 4096\<rparr>)"
    by (simp add: alloc_state_def take_free_page_def)
  ultimately show ?thesis using t by simp
qed

lemma space_walk:
  assumes sp: "space k K M (q # xs) D E R s" and va: "PDX va \<noteq> PDX UVPT" "D (PDX va) AND PTE_P = 0"
  shows "space k K M xs (D(PDX va := new_table q)) E (R(q := R q + 1)) (walk_state (kern_pgdir k) va q s)"
proof (rule spaceI)
  note d = spaceD [OF sp]
  have a: "pde_of s (kern_pgdir k) va AND PTE_P = 0" using d(5) va(2) by simp
  show "vm_ok (walk_state (kern_pgdir k) va q s) (kern_pgdir k) xs" by (rule vm_ok_walk_state [OF d(1) a va(1)])
  show "mmio_base (walk_state (kern_pgdir k) va q s) = M"
    using d(4) by (simp add: walk_state_def Let_def alloc_state_def take_free_page_def upd_page_def)
  show "pte_of (walk_state (kern_pgdir k) va q s) (kern_pgdir k) x = E (PGNUM x)" if "PDX x \<noteq> PDX UVPT" for x
    using pte_walk_state [OF d(1) a that] d(6) that by simp
qed (use spaceD [OF sp] in \<open>auto simp: pde_walk_state new_table_def\<close>)

lemma space_set_pte:
  assumes sp: "space k K M xs D E R s" and va: "PDX va \<noteq> PDX UVPT" "D (PDX va) AND PTE_P \<noteq> 0"
  shows "space k K M xs D (E(PGNUM va := v)) R (set_pte (kern_pgdir k) va v s)"
proof (rule spaceI)
  note d = spaceD [OF sp]
  have t: "has_table s (kern_pgdir k) va" using va d(5) by (simp add: has_table_def)
  show "vm_ok (set_pte (kern_pgdir k) va v s) (kern_pgdir k) xs" by (rule vm_ok_set_pte [OF d(1) t])
  show "mmio_base (set_pte (kern_pgdir k) va v s) = M" using d(4) by (simp add: set_pte_def)
  show "pde_of (set_pte (kern_pgdir k) va v s) (kern_pgdir k) x = D (PDX x)" for x
    using pde_set_pte [OF d(10) t] d(5) by simp
  show "pte_of (set_pte (kern_pgdir k) va v s) (kern_pgdir k) x = (E(PGNUM va := v)) (PGNUM x)" if "PDX x \<noteq> PDX UVPT" for x
    using pte_set_pte [OF d(10) t that] d(6) that by simp
qed (use spaceD [OF sp] in auto)

subsection \<open>Rules for the operations\<close>

lemma run_printf [run_intro]:
  assumes "space k K M xs D E R s" "\<And>t. space k K M xs D E R t \<Longrightarrow> Q () t"
  shows "returns (kprintf fmt ap) s Q"
  by (rule returnsI [OF kprintf_Ret]) (rule assms(2) [OF space_cons [OF assms(1)]])

lemma run_get_pgdir [run_intro]:
  "space k K M xs D E R s \<Longrightarrow> Q (kern_pgdir k) s \<Longrightarrow> returns (kget kern_pgdir) s Q"
  by (rule returns_get) (simp add: spaceD(12))

lemma run_no_free [run_intro]:
  assumes "space k K M [] D E R s" "Q () s"
  shows "returns no_free_page s Q"
proof -
  have "page_alloc 0 s = Ret None s" using spaceD(9) [OF assms(1)] by (intro page_alloc_None) (simp add: free_list_Nil)
  then have "no_free_page s = Ret () s" by (simp add: no_free_page_def kbind_Ret kassert_def kret_def)
  then show ?thesis using assms(2) by (rule returnsI)
qed

lemma run_page_alloc:
  assumes "space k K M (p # xs) D E R s" "\<And>t. space k K M xs D E R t \<Longrightarrow> Q (Some p) t"
  shows "returns (page_alloc fl) s Q"
  using page_alloc_Some [OF spaceD(9,8) [OF assms(1)]] by (rule returnsI) (rule assms(2) [OF space_take [OF assms(1)]])

lemma run_must_alloc [run_intro]:
  assumes "space k K M (p # xs) D E R s" "\<And>t. space k K M xs D E R t \<Longrightarrow> Q p t"
  shows "returns (must_alloc fl) s Q"
  unfolding must_alloc_def
  by (rule returns_bind, rule run_page_alloc [OF assms(1)]) (simp add: returns_prim(1) assms(2))

lemma run_alloc_gives [run_intro]:
  assumes "space k K M (p # xs) D E R s" "p = pp" "\<And>t. space k K M xs D E R t \<Longrightarrow> Q () t"
  shows "returns (alloc_gives pp) s Q"
  unfolding alloc_gives_def
  by (rule returns_bind, rule run_must_alloc [OF assms(1)]) (intro returns_prim assms(2,3))

lemma run_page_free [run_intro]:
  assumes "space k K M xs D E R s" "p \<in> K" "loose k D p" "p \<notin> set xs" "\<And>t. space k K M (p # xs) D E R t \<Longrightarrow> Q () t"
  shows "returns (page_free p) s Q"
  by (rule returnsI [OF page_free_Ret]) (rule assms(5) [OF space_put [OF assms(1-4)]])

lemma run_set_refs [run_intro]:
  assumes "space k K M xs D E R s" "\<And>t. space k K M xs D E (R(p := n)) t \<Longrightarrow> Q () t"
  shows "returns (set_refs p n) s Q"
proof -
  have "space k K M xs D E (R(p := n)) (upd_page p (\<lambda>p. p\<lparr>pp_ref := n\<rparr>) s)" by (rule space_page [OF assms(1)]) simp_all
  then show ?thesis unfolding set_refs_def by (intro returns_mod assms(2))
qed

lemma run_has_refs [run_intro]:
  assumes "space k K M xs D E R s" "R p = n" "Q () s"
  shows "returns (has_refs p n) s Q"
  unfolding has_refs_def using assms spaceD(7) [OF assms(1)]
  by (intro returns_bind returns_get returns_prim) simp_all

lemma run_load_pde [run_intro]:
  assumes "space k K M xs D E R s" "Q (D (PDX va)) s"
  shows "returns (kload (kern_pgdir k + 4 * PDX va)) s Q"
  using kload_pde [OF spaceD(8,10) [OF assms(1)], of va] assms(2)
  by (intro returnsI) (simp_all add: spaceD(5) [OF assms(1)])

lemma run_load_pde0 [run_intro]:
  assumes "space k K M xs D E R s" "Q (D 0) s"
  shows "returns (kload (kern_pgdir k)) s Q"
proof -
  have "PDX 0 = 0" by (simp add: PDX_def)
  with assms(2) run_load_pde [OF assms(1), of Q 0] show ?thesis by simp
qed

lemma run_table_is [run_intro]:
  assumes "space k K M xs D E R s" "PTE_ADDR (D 0) = page2pa p" "Q () s"
  shows "returns (table_is (kern_pgdir k) 0 p) s Q"
  unfolding table_is_def using run_load_pde0 [OF assms(1)] assms(2,3)
  by (intro returns_bind) (simp add: returns_prim)

lemma run_maps_to [run_intro]:
  assumes "space k K M xs D E R s" "PDX va \<noteq> PDX UVPT"
    and "(if E (PGNUM va) AND PTE_P = 0 then NOT 0 else PTE_ADDR (E (PGNUM va))) = pa" "Q () s"
  shows "returns (maps_to (kern_pgdir k) va pa) s Q"
proof -
  have "check_va2pa (kern_pgdir k) va s = Ret pa s"
    using assms(3) check_va2pa_pte [OF spaceD(1) [OF assms(1)] assms(2)] spaceD(6) [OF assms(1) assms(2)]
    by (simp split: if_splits)
  then have "maps_to (kern_pgdir k) va pa s = Ret () s" by (simp add: maps_to_def kbind_Ret kassert_def kret_def)
  then show ?thesis using assms(4) by (rule returnsI)
qed

lemma space_has_table:
  "space k K M xs D E R s \<Longrightarrow> has_table s (kern_pgdir k) va \<longleftrightarrow> PDX va \<noteq> PDX UVPT \<and> D (PDX va) AND PTE_P \<noteq> 0"
  by (simp add: has_table_def spaceD(5))

text \<open>The address of the entry for \<open>va\<close>.\<close>

definition entry_ptr :: "(u32 \<Rightarrow> u32) \<Rightarrow> u32 \<Rightarrow> u32" where
  "entry_ptr D va = PTE_ADDR (D (PDX va)) + KERNBASE + 4 * PTX va"

lemma space_slot: "space k K M xs D E R s \<Longrightarrow> slot_of s (kern_pgdir k) va = entry_ptr D va"
  by (simp add: slot_of_def entry_ptr_def spaceD(5) add_ac)

lemma run_walk [run_intro]:
  assumes "space k K M xs D E R s" "PDX va \<noteq> PDX UVPT" "D (PDX va) AND PTE_P \<noteq> 0" "Q (entry_ptr D va) s"
  shows "returns (pgdir_walk (kern_pgdir k) va create) s Q"
proof -
  have "has_table s (kern_pgdir k) va" using assms by (simp add: space_has_table)
  from pgdir_walk_present [OF spaceD(8,10) [OF assms(1)] this] assms(4) show ?thesis
    by (intro returnsI) (simp_all add: space_slot [OF assms(1)])
qed

lemma run_walk_new:
  assumes "space k K M (q # xs) D E R s" "PDX va \<noteq> PDX UVPT" "D (PDX va) AND PTE_P = 0"
    and "\<And>t. space k K M xs (D(PDX va := new_table q)) E (R(q := R q + 1)) t \<Longrightarrow> Q (entry_ptr (D(PDX va := new_table q)) va) t"
  shows "returns (pgdir_walk (kern_pgdir k) va True) s Q"
proof -
  have "pde_of s (kern_pgdir k) va AND PTE_P = 0" using assms(3) by (simp add: spaceD(5) [OF assms(1)])
  from pgdir_walk_alloc [OF spaceD(1) [OF assms(1)] this] show ?thesis
    by (rule returnsI) (use assms(4) [OF space_walk [OF assms(1-3)]] in \<open>simp add: entry_ptr_def add_ac\<close>)
qed

lemma run_load_entry [run_intro]:
  assumes "space k K M xs D E R s" "PDX va \<noteq> PDX UVPT" "D (PDX va) AND PTE_P \<noteq> 0" "Q (E (PGNUM va)) s"
  shows "returns (kload (entry_ptr D va)) s Q"
proof -
  have "has_table s (kern_pgdir k) va" using assms by (simp add: space_has_table)
  from kload_slot [OF spaceD(8,10) [OF assms(1)] this] assms(4) show ?thesis
    by (intro returnsI) (simp_all add: space_slot [OF assms(1)] spaceD(6) [OF assms(1) assms(2)])
qed

lemma run_store_entry [run_intro]:
  assumes "space k K M xs D E R s" "PDX va \<noteq> PDX UVPT" "D (PDX va) AND PTE_P \<noteq> 0"
    and "\<And>t. space k K M xs D (E(PGNUM va := v)) R t \<Longrightarrow> Q () t"
  shows "returns (kstore (entry_ptr D va) v) s Q"
proof -
  have "has_table s (kern_pgdir k) va" using assms by (simp add: space_has_table)
  from kstore_slot [OF spaceD(8,10) [OF assms(1)] this] show ?thesis unfolding space_slot [OF assms(1)]
    by (rule returnsI) (rule assms(4) [OF space_set_pte [OF assms(1-3)]])
qed

lemma run_entry_flags [run_intro]:
  assumes "space k K M xs D E R s" "PDX va \<noteq> PDX UVPT" "D (PDX va) AND PTE_P \<noteq> 0" "P (E (PGNUM va))" "Q () s"
  shows "returns (entry_flags (kern_pgdir k) va P) s Q"
  unfolding entry_flags_def
  by (rule returns_bind run_walk [OF assms(1-3)] run_load_entry [OF assms(1-3)] returns_prim assms(4,5))+

lemma run_clear_entry [run_intro]:
  assumes "space k K M xs D E R s" "PDX va \<noteq> PDX UVPT" "D (PDX va) AND PTE_P \<noteq> 0"
    and "\<And>t. space k K M xs D (E(PGNUM va := 0)) R t \<Longrightarrow> Q () t"
  shows "returns (clear_entry (kern_pgdir k) va) s Q"
  unfolding clear_entry_def
  by (rule returns_bind run_walk [OF assms(1-3)] run_store_entry [OF assms(1-3)])+ (rule assms(4))

lemma space_pages: "space k K M xs D E R s \<Longrightarrow> loose k D p \<Longrightarrow> p < 65536 \<and> p < unat (npages s)"
  using spaceD(11,13) [of k K M xs D E R s] by (simp add: loose_def mem_ok_def)

lemma run_memset [run_intro]:
  assumes "space k K M xs D E R s" "loose k D p" "n \<le> 4096" "\<And>t. space k K M xs D E R t \<Longrightarrow> Q () t"
  shows "returns (kmemset (page2pa p + KERNBASE) c n) s Q"
proof -
  have "unat (page2pa p) < 268435456"
    using space_pages [OF assms(1,2)] spaceD(8) [OF assms(1)] by (intro page2pa_low [of s]) simp_all
  then have "kmemset (page2pa p + KERNBASE) c n s = Ret () (s\<lparr>pmem := mem_set (pmem s) (page2pa p) c n\<rparr>)"
    by (simp add: kmemset_def)
  then show ?thesis by (rule returnsI) (rule assms(4) [OF space_mem_set [OF assms(1-3)]])
qed

lemma run_page2kva [run_intro]:
  assumes "space k K M xs D E R s" "p < unat (npages k)" "Q (page2pa p + KERNBASE) s"
  shows "returns (page2kva p) s Q"
  using page2kva_ok [OF spaceD(8) [OF assms(1)], of p] assms(2,3) spaceD(11) [OF assms(1)]
  by (intro returnsI) simp_all

lemma run_KADDR [run_intro]:
  assumes "space k K M xs D E R s" "pa = page2pa p" "p < unat (npages k)" "Q (page2pa p + KERNBASE) s"
  shows "returns (KADDR pa) s Q"
  using run_page2kva [where Q = Q, OF assms(1,3,4)] assms(2) by (simp add: page2kva_def)

lemma run_store_pde [run_intro]:
  assumes "space k K M xs D E R s" "PDX va \<noteq> PDX UVPT" "\<And>x. PDX x = PDX va \<Longrightarrow> E (PGNUM x) = 0"
    and "\<And>t. space k K M xs (D(PDX va := 0)) E R t \<Longrightarrow> Q () t"
  shows "returns (kstore (kern_pgdir k + 4 * PDX va) 0) s Q"
proof -
  let ?p = "kern_pgdir k" and ?m = "store32 (pmem s) (kern_pgdir k - KERNBASE + 4 * PDX va) 0"
  let ?t = "s\<lparr>pmem := ?m\<rparr>"
  note d = spaceD [OF assms(1)]
  have al: "aligned 4096 (?p - KERNBASE)" "frame (?p - KERNBASE) < unat (npages s)" using d(10) by (simp_all add: wf_pgdir_def)
  have low: "unat (?p - KERNBASE + 4 * PDX va) < 268435456"
    using d(8) al by (intro slot_low [of s]) (simp_all add: PDX_less)
  have run: "kstore (?p + 4 * PDX va) 0 s = Ret () ?t" unfolding pgdir_slot [of ?p] by (rule kstore_phys [OF low])
  have pde: "pde_of ?t ?p x = (if PDX x = PDX va then 0 else pde_of s ?p x)" for x
    using load_store_slot [OF al(1) PDX_less al(1) PDX_less, of "pmem s" va 0 x] by (auto simp: pde_of_def)
  have tab: "has_table ?t ?p x \<longleftrightarrow> has_table s ?p x \<and> PDX x \<noteq> PDX va" for x by (simp add: has_table_def pde)
  have pte: "pte_of ?t ?p x = pte_of s ?p x" if x: "PDX x \<noteq> PDX UVPT" for x
  proof (cases "has_table ?t ?p x")
    case True
    then have "PTE_ADDR (pde_of s ?p x) \<noteq> ?p - KERNBASE" using d(10) tab by (auto simp: wf_pgdir_def)
    then show ?thesis using True al(1) by (simp add: pte_of_def pde tab load_store_slot PDX_less PTX_less)
  next
    case False
    then have "pte_of ?t ?p x = 0" using x by (simp add: pte_of_no_table)
    moreover have "pte_of s ?p x = 0" using False x assms(3) d(6) tab by (cases "PDX x = PDX va") (simp_all add: pte_of_no_table)
    ultimately show ?thesis by simp
  qed
  have "wf_pgdir ?t ?p" using d(10) by (auto simp: wf_pgdir_def pde tab)
  then have "vm_ok ?t ?p xs"
    using d(1) by (simp add: vm_ok_def mem_ok_def free_list_def tables_not_free_def pde tab)
  then have t: "space k K M xs (D(PDX va := 0)) E R ?t"
    by (rule spaceI) (use d pde pte in auto)
  from run show ?thesis by (rule returnsI) (rule assms(4) [OF t])
qed

lemma run_store_pde0 [run_intro]:
  assumes "space k K M xs D E R s" "\<And>x. PDX x = 0 \<Longrightarrow> E (PGNUM x) = 0"
    and "\<And>t. space k K M xs (D(0 := 0)) E R t \<Longrightarrow> Q () t"
  shows "returns (kstore (kern_pgdir k) 0) s Q"
proof -
  have "PDX 0 = 0" by (simp add: PDX_def)
  with run_store_pde [OF assms(1), of 0 Q] assms(2,3) show ?thesis by simp
qed

text \<open>Mapping and unmapping a page: \<open>q\<close> is the page that was there.\<close>

lemma space_decref:
  assumes "space k K M xs D E R s" "R q = 1 \<Longrightarrow> q \<in> K \<and> loose k D q \<and> q \<notin> set xs"
  shows "space k K M (if R q = 1 then q # xs else xs) D E (R(q := R q - 1)) (decref_state q s)"
proof -
  have "space k K M xs D E (R(q := R q - 1)) (upd_page q (\<lambda>p. p\<lparr>pp_ref := pp_ref p - 1\<rparr>) s)"
    by (rule space_page [OF assms(1)]) simp_all
  then have "space k K M (q # xs) D E (R(q := R q - 1)) (put_free_page q (upd_page q (\<lambda>p. p\<lparr>pp_ref := pp_ref p - 1\<rparr>) s))"
    if "R q = 1" using assms(2) [OF that] by (intro space_put) simp_all
  with \<open>space k K M xs D E (R(q := R q - 1)) _\<close> show ?thesis
    using spaceD(7) [OF assms(1)] by (cases "R q = 1") (simp_all add: decref_state_def Let_def)
qed

lemma space_remove:
  assumes sp: "space k K M xs D E R s" and va: "PDX va \<noteq> PDX UVPT" "D (PDX va) AND PTE_P \<noteq> 0"
    and q: "frame (E (PGNUM va)) = q" "R q = 1 \<Longrightarrow> q \<in> K \<and> loose k D q \<and> q \<notin> set xs"
  shows "space k K M (if R q = 1 then q # xs else xs) D (E(PGNUM va := 0)) (R(q := R q - 1)) (remove_state (kern_pgdir k) va s)"
proof -
  have "frame (pte_of s (kern_pgdir k) va) = q" using spaceD(6) [OF sp va(1)] q(1) by simp
  moreover note space_set_pte [OF space_decref [OF sp q(2)] va, of 0]
  ultimately have u: "space k K M (if R q = 1 then q # xs else xs) D (E(PGNUM va := 0)) (R(q := R q - 1))
      (set_pte (kern_pgdir k) va 0 (decref_state (frame (pte_of s (kern_pgdir k) va)) s))" by simp
  show ?thesis unfolding remove_state_def
    by (rule space_same [OF u]) (use spaceD(2,4) [OF u] in simp_all)
qed

lemma run_page_remove:
  assumes sp: "space k K M xs D E R s" and va: "PDX va \<noteq> PDX UVPT" "D (PDX va) AND PTE_P \<noteq> 0" "E (PGNUM va) AND PTE_P \<noteq> 0"
    and q: "frame (E (PGNUM va)) = q" "q < unat (npages k)" "R q = 1 \<Longrightarrow> q \<in> K \<and> loose k D q \<and> q \<notin> set xs"
    and Q: "\<And>t. space k K M (if R q = 1 then q # xs else xs) D (E(PGNUM va := 0)) (R(q := R q - 1)) t \<Longrightarrow> Q () t"
  shows "returns (page_remove (kern_pgdir k) va) s Q"
proof -
  have "has_table s (kern_pgdir k) va" using va by (simp add: space_has_table [OF sp])
  from page_remove_present [OF spaceD(8,10) [OF sp] this] show ?thesis
    by (rule returnsI) (use spaceD(6,11) [OF sp] va q(1,2) Q [OF space_remove [OF sp va(1,2) q(1,3)]] in simp_all)
qed

lemma run_insert_fresh:
  assumes sp: "space k K M xs D E R s" and va: "PDX va \<noteq> PDX UVPT" "D (PDX va) AND PTE_P \<noteq> 0" "E (PGNUM va) AND PTE_P = 0"
    and Q: "\<And>t. space k K M xs D (E(PGNUM va := page2pa p OR perm OR PTE_P)) (R(p := R p + 1)) t \<Longrightarrow> Q 0 t"
  shows "returns (page_insert (kern_pgdir k) p va perm) s Q"
proof -
  have t: "has_table s (kern_pgdir k) va" using va by (simp add: space_has_table [OF sp])
  have e: "pte_of s (kern_pgdir k) va = E (PGNUM va)" by (rule spaceD(6) [OF sp va(1)])
  have "space k K M xs D E (R(p := R p + 1)) (upd_page p (\<lambda>p. p\<lparr>pp_ref := pp_ref p + 1\<rparr>) s)"
    by (rule space_page [OF sp]) simp_all
  from space_set_pte [OF this va(1,2)]
  have "space k K M xs D (E(PGNUM va := page2pa p OR perm OR PTE_P)) (R(p := R p + 1)) (insert_at (kern_pgdir k) p va perm s)"
    using va(3) by (simp add: insert_at_def Let_def e)
  moreover have "page_insert (kern_pgdir k) p va perm s = Ret 0 (insert_at (kern_pgdir k) p va perm s)"
    by (rule page_insert_at [OF pgdir_walk_present [OF spaceD(8,10) [OF sp] t] spaceD(8,10) [OF sp] t]) (use va(3) e in simp)
  ultimately show ?thesis using Q by (intro returnsI)
qed

lemma insert_over_state:
  assumes sp: "space k K M xs D E R s" and va: "PDX va \<noteq> PDX UVPT" "D (PDX va) AND PTE_P \<noteq> 0" "E (PGNUM va) AND PTE_P \<noteq> 0"
    and q: "frame (E (PGNUM va)) = q" "q < unat (npages k)"
    and R': "R(p := R p + 1) = R'" "R' q = 1 \<Longrightarrow> q \<in> K \<and> loose k D q \<and> q \<notin> set xs"
  shows "page_insert (kern_pgdir k) p va perm s = Ret 0 (insert_at (kern_pgdir k) p va perm s)"
    and "space k K M (if R' q = 1 then q # xs else xs) D (E(PGNUM va := page2pa p OR perm OR PTE_P)) (R'(q := R' q - 1))
      (insert_at (kern_pgdir k) p va perm s)"
proof -
  have t: "has_table s (kern_pgdir k) va" using va by (simp add: space_has_table [OF sp])
  have e: "pte_of s (kern_pgdir k) va = E (PGNUM va)" by (rule spaceD(6) [OF sp va(1)])
  have "space k K M xs D E R' (upd_page p (\<lambda>p. p\<lparr>pp_ref := pp_ref p + 1\<rparr>) s)"
    unfolding R'(1) [symmetric] by (rule space_page [OF sp]) simp_all
  from space_set_pte [OF space_remove [OF this va(1,2) q(1) R'(2)] va(1,2)]
  show "space k K M (if R' q = 1 then q # xs else xs) D (E(PGNUM va := page2pa p OR perm OR PTE_P)) (R'(q := R' q - 1))
      (insert_at (kern_pgdir k) p va perm s)"
    using va(3) by (simp add: insert_at_def Let_def e)
  show "page_insert (kern_pgdir k) p va perm s = Ret 0 (insert_at (kern_pgdir k) p va perm s)"
    by (rule page_insert_at [OF pgdir_walk_present [OF spaceD(8,10) [OF sp] t] spaceD(8,10) [OF sp] t])
      (use q e spaceD(11) [OF sp] in simp)
qed

lemma run_insert_over:
  assumes "space k K M xs D E R s" "PDX va \<noteq> PDX UVPT" "D (PDX va) AND PTE_P \<noteq> 0" "E (PGNUM va) AND PTE_P \<noteq> 0"
    and "frame (E (PGNUM va)) = q" "q < unat (npages k)"
    and "R(p := R p + 1) = R'" "R' q = 1 \<Longrightarrow> q \<in> K \<and> loose k D q \<and> q \<notin> set xs"
    and "\<And>t. space k K M (if R' q = 1 then q # xs else xs) D (E(PGNUM va := page2pa p OR perm OR PTE_P)) (R'(q := R' q - 1)) t \<Longrightarrow> Q 0 t"
  shows "returns (page_insert (kern_pgdir k) p va perm) s Q"
  by (rule returnsI, rule insert_over_state(1) [OF assms(1-7)], erule assms(8), rule assms(9), rule insert_over_state(2) [OF assms(1-7)], erule assms(8))

lemma space_no_table:
  assumes "space k K M xs D E R s" "PDX va \<noteq> PDX UVPT" "D (PDX va) AND PTE_P = 0"
  shows "E (PGNUM va) = 0"
  using assms(2,3) pte_of_no_table [of va s "kern_pgdir k"] spaceD(6) [OF assms(1,2)] by (simp add: space_has_table [OF assms(1)])

lemma insert_new_state:
  assumes sp: "space k K M (q # xs) D E R s" and va: "PDX va \<noteq> PDX UVPT" "D (PDX va) AND PTE_P = 0"
  shows "page_insert (kern_pgdir k) p va perm s = Ret 0 (insert_at (kern_pgdir k) p va perm (walk_state (kern_pgdir k) va q s))"
    and "space k K M xs (D(PDX va := new_table q)) (E(PGNUM va := page2pa p OR perm OR PTE_P)) (R(q := R q + 1, p := (R(q := R q + 1)) p + 1))
      (insert_at (kern_pgdir k) p va perm (walk_state (kern_pgdir k) va q s))"
proof -
  let ?t = "walk_state (kern_pgdir k) va q s"
  have a: "pde_of s (kern_pgdir k) va AND PTE_P = 0" using va(2) by (simp add: spaceD(5) [OF sp])
  have t: "space k K M xs (D(PDX va := new_table q)) E (R(q := R q + 1)) ?t" by (rule space_walk [OF sp va])
  have tab: "has_table ?t (kern_pgdir k) va" using va(1) by (simp add: space_has_table [OF t])
  have walk: "pgdir_walk (kern_pgdir k) va True s = Ret (slot_of ?t (kern_pgdir k) va) ?t"
    unfolding space_slot [OF t] using pgdir_walk_alloc [OF spaceD(1) [OF sp] a] by (simp add: entry_ptr_def add_ac)
  have e: "pte_of ?t (kern_pgdir k) va = 0" using spaceD(6) [OF t va(1)] space_no_table [OF sp va] by simp
  show "page_insert (kern_pgdir k) p va perm s = Ret 0 (insert_at (kern_pgdir k) p va perm ?t)"
    by (rule page_insert_at [OF walk spaceD(8,10) [OF t] tab]) (simp add: e)
  have "space k K M xs (D(PDX va := new_table q)) E (R(q := R q + 1, p := (R(q := R q + 1)) p + 1)) (upd_page p (\<lambda>p. p\<lparr>pp_ref := pp_ref p + 1\<rparr>) ?t)"
    by (rule space_page [OF t]) simp_all
  from space_set_pte [OF this va(1)]
  show "space k K M xs (D(PDX va := new_table q)) (E(PGNUM va := page2pa p OR perm OR PTE_P)) (R(q := R q + 1, p := (R(q := R q + 1)) p + 1))
      (insert_at (kern_pgdir k) p va perm ?t)"
    by (simp add: insert_at_def Let_def e)
qed

lemma run_insert_new:
  assumes "space k K M (q # xs) D E R s" "PDX va \<noteq> PDX UVPT" "D (PDX va) AND PTE_P = 0"
    and "\<And>t. space k K M xs (D(PDX va := new_table q)) (E(PGNUM va := page2pa p OR perm OR PTE_P)) (R(q := R q + 1, p := (R(q := R q + 1)) p + 1)) t \<Longrightarrow> Q 0 t"
  shows "returns (page_insert (kern_pgdir k) p va perm) s Q"
  using insert_new_state(1) [OF assms(1-3)] by (rule returnsI) (rule assms(4) [OF insert_new_state(2) [OF assms(1-3)]])

lemma run_insert_fails [run_intro]:
  assumes "space k K M [] D E R s" "D (PDX va) AND PTE_P = 0" "Q () s"
  shows "returns (insert_fails (kern_pgdir k) p va perm) s Q"
proof -
  note d = spaceD [OF assms(1)]
  have "page_insert (kern_pgdir k) p va perm s = Ret (- E_NO_MEM) s"
    using d(5,8,9,10) assms(2) by (intro page_insert_no_mem) (simp_all add: free_list_Nil)
  then have "insert_fails (kern_pgdir k) p va perm s = Ret () s" by (simp add: insert_fails_def kbind_Ret kassert_def kret_def)
  then show ?thesis using assms(3) by (rule returnsI)
qed

lemma run_lookup_none [run_intro]:
  assumes "space k K M xs D E R s" "PDX va \<noteq> PDX UVPT" "E (PGNUM va) AND PTE_P = 0" "Q None s"
  shows "returns (page_lookup (kern_pgdir k) va) s Q"
  using page_lookup_absent [OF spaceD(8,10) [OF assms(1)] assms(2)] assms(3,4) spaceD(6) [OF assms(1,2)]
  by (intro returnsI) simp_all

text \<open>With the two cases for the old page apart: it is still in use, or it is freed.\<close>

lemma run_insert_keep:
  assumes "space k K M xs D E R s" "PDX va \<noteq> PDX UVPT" "D (PDX va) AND PTE_P \<noteq> 0" "E (PGNUM va) AND PTE_P \<noteq> 0"
    and "frame (E (PGNUM va)) = q" "q < unat (npages k)" "(R(p := R p + 1)) q \<noteq> 1"
    and "\<And>t. space k K M xs D (E(PGNUM va := page2pa p OR perm OR PTE_P)) (R(p := R p + 1, q := (R(p := R p + 1)) q - 1)) t \<Longrightarrow> Q 0 t"
  shows "returns (page_insert (kern_pgdir k) p va perm) s Q"
  by (rule run_insert_over [OF assms(1-6) refl]) (use assms(7,8) in simp_all)

lemma run_insert_drop:
  assumes "space k K M xs D E R s" "PDX va \<noteq> PDX UVPT" "D (PDX va) AND PTE_P \<noteq> 0" "E (PGNUM va) AND PTE_P \<noteq> 0"
    and "frame (E (PGNUM va)) = q" "q < unat (npages k)" "(R(p := R p + 1)) q = 1" "q \<in> K" "loose k D q" "q \<notin> set xs"
    and "\<And>t. space k K M (q # xs) D (E(PGNUM va := page2pa p OR perm OR PTE_P)) (R(p := R p + 1, q := (R(p := R p + 1)) q - 1)) t \<Longrightarrow> Q 0 t"
  shows "returns (page_insert (kern_pgdir k) p va perm) s Q"
  by (rule run_insert_over [OF assms(1-6) refl]) (use assms(7-) in simp_all)

lemma run_remove_keep:
  assumes "space k K M xs D E R s" "PDX va \<noteq> PDX UVPT" "D (PDX va) AND PTE_P \<noteq> 0" "E (PGNUM va) AND PTE_P \<noteq> 0"
    and "frame (E (PGNUM va)) = q" "q < unat (npages k)" "R q \<noteq> 1"
    and "\<And>t. space k K M xs D (E(PGNUM va := 0)) (R(q := R q - 1)) t \<Longrightarrow> Q () t"
  shows "returns (page_remove (kern_pgdir k) va) s Q"
  by (rule run_page_remove [OF assms(1-6)]) (use assms(7,8) in simp_all)

lemma run_remove_drop:
  assumes "space k K M xs D E R s" "PDX va \<noteq> PDX UVPT" "D (PDX va) AND PTE_P \<noteq> 0" "E (PGNUM va) AND PTE_P \<noteq> 0"
    and "frame (E (PGNUM va)) = q" "q < unat (npages k)" "R q = 1" "q \<in> K" "loose k D q" "q \<notin> set xs"
    and "\<And>t. space k K M (q # xs) D (E(PGNUM va := 0)) (R(q := R q - 1)) t \<Longrightarrow> Q () t"
  shows "returns (page_remove (kern_pgdir k) va) s Q"
  by (rule run_page_remove [OF assms(1-6)]) (use assms(7-) in simp_all)

end
