(* ===== verification/Self_Tests.thy ===== *)
theory Self_Tests
  imports Test_Space
begin

text \<open>
  The self tests of the page tables succeed: \<open>check_page\<close> part by part, by the rules of \<open>Test_Space\<close>.
\<close>

subsection \<open>Three pages\<close>

text \<open>The pages of a test: distinct, out of use, and with no reference; there is no page table for the first
  eight megabytes.\<close>

definition test_pages :: "kstate \<Rightarrow> nat set \<Rightarrow> (u32 \<Rightarrow> u32) \<Rightarrow> (u32 \<Rightarrow> u32) \<Rightarrow> (nat \<Rightarrow> u16) \<Rightarrow> nat \<Rightarrow> nat \<Rightarrow> nat \<Rightarrow> bool" where
  "test_pages k K D E R a b c \<longleftrightarrow> {a, b, c} \<subseteq> K \<and> a \<noteq> b \<and> a \<noteq> c \<and> b \<noteq> c \<and>
     loose k D a \<and> loose k D b \<and> loose k D c \<and> R a = 0 \<and> R b = 0 \<and> R c = 0 \<and>
     D 0 AND PTE_P = 0 \<and> D 1 AND PTE_P = 0 \<and> (\<forall>x. PDX x = 0 \<or> PDX x = 1 \<longrightarrow> E (PGNUM x) = 0) \<and> unat (npages k) \<le> 65536"

lemma test_pagesD:
  assumes "test_pages k K D E R a b c"
  shows "a \<in> K" "b \<in> K" "c \<in> K" "a \<noteq> b" "a \<noteq> c" "b \<noteq> c" "b \<noteq> a" "c \<noteq> a" "c \<noteq> b"
    "loose k D a" "loose k D b" "loose k D c" "R a = 0" "R b = 0" "R c = 0" "D 0 AND PTE_P = 0" "D 1 AND PTE_P = 0"
    "a < unat (npages k)" "b < unat (npages k)" "c < unat (npages k)" "a < 1048576" "b < 1048576" "c < 1048576"
    "PDX x = 0 \<Longrightarrow> E (PGNUM x) = 0" "PDX x = 1 \<Longrightarrow> E (PGNUM x) = 0" "E 0 = 0" "E 1 = 0"
proof -
  note t = assms [unfolded test_pages_def loose_def]
  show "a \<in> K" "b \<in> K" "c \<in> K" "a \<noteq> b" "a \<noteq> c" "b \<noteq> c" "b \<noteq> a" "c \<noteq> a" "c \<noteq> b"
    "loose k D a" "loose k D b" "loose k D c" "R a = 0" "R b = 0" "R c = 0" "D 0 AND PTE_P = 0" "D 1 AND PTE_P = 0"
    "a < unat (npages k)" "b < unat (npages k)" "c < unat (npages k)" "a < 1048576" "b < 1048576" "c < 1048576"
    "PDX x = 0 \<Longrightarrow> E (PGNUM x) = 0" "PDX x = 1 \<Longrightarrow> E (PGNUM x) = 0"
    using t by (auto simp: loose_def)
  have "PDX 0 = 0" "PDX 0x1000 = 0" "PGNUM 0 = 0" "PGNUM 0x1000 = 1" by (simp_all add: PDX_def PGNUM_def)
  then show "E 0 = 0" "E 1 = 0" using t by metis+
qed

lemma indices [simp]:
  "PDX 0 = 0" "PDX 0x1000 = 0" "PDX 0x400000 = 1" "PDX 0x401000 = 1" "PTX 0x1000 = 1" "PTX 0x401000 = 1"
  "PGNUM 0 = 0" "PGNUM 0x1000 = 1"
  by (simp_all add: PDX_def PTX_def PGNUM_def)

text \<open>A mapping of a page.\<close>

lemma leaf_entry [simp]:
  "(page2pa p OR perm OR PTE_P) AND PTE_P \<noteq> 0"
  "perm < 4096 \<Longrightarrow> PTE_ADDR (page2pa p OR perm OR PTE_P) = page2pa p"
  "perm < 4096 \<Longrightarrow> p < 1048576 \<Longrightarrow> frame (page2pa p OR perm OR PTE_P) = p"
proof -
  show "(page2pa p OR perm OR PTE_P) AND PTE_P \<noteq> 0" by simp
  show a: "PTE_ADDR (page2pa p OR perm OR PTE_P) = page2pa p" if "perm < 4096" for p perm
    using that by (intro PTE_ADDR_or or_less_4096) (simp_all add: layout)
  show "frame (page2pa p OR perm OR PTE_P) = p" if "perm < 4096" "p < 1048576"
    using a [OF that(1), of p] frame_PTE_ADDR [of "page2pa p OR perm OR PTE_P"] that(2)
    by (simp add: frame_page2pa del: frame_PTE_ADDR)
qed

lemma leaf_flags [simp]:
  "(page2pa p OR PTE_W OR PTE_P) AND PTE_U = 0" "(page2pa p OR (PTE_W OR PTE_U) OR PTE_P) AND PTE_U \<noteq> 0"
  "(page2pa p OR PTE_W OR PTE_P) AND PTE_W \<noteq> 0" "PTE_W < 4096" "PTE_W OR PTE_U < 4096"
proof -
  have "\<not> bit (page2pa p) 2" using aligned_bits [OF aligned_page2pa, of 2 p] by simp
  moreover have b: "bit PTE_U n \<longleftrightarrow> n = 2" "\<not> bit PTE_W 2" "\<not> bit PTE_P 2" for n
  proof -
    have u: "PTE_U = push_bit 2 1" by (simp add: layout)
    show "bit PTE_U n \<longleftrightarrow> n = 2" unfolding u bit_push_bit_iff bit_1_iff by auto
  qed (simp_all add: layout)
  ultimately show "(page2pa p OR PTE_W OR PTE_P) AND PTE_U = 0"
    by (intro bit_word_eqI) (auto simp: bit_simps)
  have "bit ((page2pa p OR (PTE_W OR PTE_U) OR PTE_P) AND PTE_U) 2" using b by (simp add: bit_simps)
  then show "(page2pa p OR (PTE_W OR PTE_U) OR PTE_P) AND PTE_U \<noteq> 0" by auto
  have "bit ((page2pa p OR PTE_W OR PTE_P) AND PTE_W) 1" by (simp add: bit_simps layout)
  then show "(page2pa p OR PTE_W OR PTE_P) AND PTE_W \<noteq> 0" by auto
  show "PTE_W < 4096" "PTE_W OR PTE_U < 4096" by (simp_all add: layout)
qed

lemma run_check_page_insert:
  assumes sp: "space k K M [] D E R s" and tp: "test_pages k K D E R a b c"
    and Q: "\<And>t. space k K M [] (D(0 := new_table a))
      (E(0 := page2pa b OR PTE_W OR PTE_P, 1 := page2pa c OR PTE_W OR PTE_P)) (R(a := 1, b := 1, c := 1)) t \<Longrightarrow> Q () t"
  shows "returns (check_page_insert (kern_pgdir k) a b c) s Q"
proof -
  note [simp] = test_pagesD [OF tp] loose_upd frame_new_table
  show ?thesis
    using sp unfolding check_page_insert_def inserts_def
    by - (rule run_intro
      | (rule run_insert_new, assumption, (simp; fail), (simp; fail))
      | (rule run_insert_fresh, assumption, (simp; fail), (simp; fail), (simp; fail))
      | (rule run_insert_keep, assumption, (simp; fail), (simp; fail), (simp; fail), (simp; fail), (simp; fail), (simp; fail))
      | assumption | (simp; fail)
      | (rule Q, rule space_eq, assumption, (simp add: fun_eq_iff; fail)+))+
qed

text \<open>The change of permissions.\<close>

lemma run_check_page_perm:
  assumes tp: "test_pages k K D E R a b c"
    and sp: "space k K M [] (D(0 := new_table a)) (E(0 := page2pa b OR PTE_W OR PTE_P, 1 := page2pa c OR PTE_W OR PTE_P))
      (R(a := 1, b := 1, c := 1)) s"
    and Q: "\<And>t. space k K M [] (D(0 := new_table a))
      (E(0 := page2pa b OR PTE_W OR PTE_P, 1 := page2pa c OR PTE_W OR PTE_P)) (R(a := 1, b := 1, c := 1)) t \<Longrightarrow> Q () t"
  shows "returns (check_page_perm (kern_pgdir k) a c) s Q"
proof -
  note [simp] = test_pagesD [OF tp] loose_upd frame_new_table entry_ptr_def
  show ?thesis
    using sp unfolding check_page_perm_def inserts_def
    by - (rule run_intro returns_get
      | (rule run_insert_keep, assumption, (simp; fail), (simp; fail), (simp; fail), (simp; fail), (simp; fail), (simp; fail))
      | assumption | (simp; fail)
      | (rule Q, rule space_eq, assumption, (simp add: fun_eq_iff; fail)+))+
qed


text \<open>The pages are unmapped, and given back.\<close>

lemma run_check_page_remove:
  assumes tp: "test_pages k K D E R a b c"
    and sp: "space k K M [] (D(0 := new_table a)) (E(0 := page2pa b OR PTE_W OR PTE_P, 1 := page2pa c OR PTE_W OR PTE_P))
      (R(a := 1, b := 1, c := 1)) s"
    and Q: "\<And>t. space k K M [] (D(0 := 0)) E R t \<Longrightarrow> Q () t"
  shows "returns (check_page_remove (kern_pgdir k) a b c) s Q"
proof -
  note [simp] = test_pagesD [OF tp] loose_upd frame_new_table entry_ptr_def
  show ?thesis
    using sp unfolding check_page_remove_def inserts_def
    by - (rule run_intro
      | (rule run_insert_drop, assumption, (simp; fail), (simp; fail), (simp; fail), (simp; fail), (simp; fail), (simp; fail))
      | (rule run_remove_keep, assumption, (simp; fail), (simp; fail), (simp; fail), (simp; fail), (simp; fail), (simp; fail))
      | (rule run_remove_drop, assumption, (simp; fail), (simp; fail), (simp; fail), (simp; fail), (simp; fail), (simp; fail))
      | assumption | (simp; fail)
      | (rule Q, rule space_eq, assumption, (simp add: fun_eq_iff; fail)+))+
qed

text \<open>A table that \<open>pgdir_walk\<close> makes is empty.\<close>

lemma run_table_empty:
  assumes sp: "space k K M xs D E R s" and D: "D 0 = new_table a" and E: "\<And>x. PDX x = 0 \<Longrightarrow> E (PGNUM x) = 0"
    and Q: "Q () s"
  shows "returns (kfor [0..<NPTENTRIES] (\<lambda>i. kbind (kload (page2pa a + KERNBASE + 4 * of_nat i)) (\<lambda>e. check (e AND PTE_P = 0)))) s Q"
proof -
  have "returns (kbind (kload (page2pa a + KERNBASE + 4 * of_nat i)) (\<lambda>e. check (e AND PTE_P = 0))) t (\<lambda>_ t. t = s)"
    if "i \<in> set [0..<NPTENTRIES]" "t = s" for i t
  proof -
    let ?x = "of_nat (i * 4096) :: u32"
    have u: "unat ?x = i * 4096" using that by (intro unat_of_nat_u32) simp
    have "PDX ?x = 0" "PTX ?x = of_nat i"
      unfolding word_unat_eq_iff unat_PDX unat_PTX u using that by (simp_all add: unat_of_nat_u32)
    moreover from this have "entry_ptr D ?x = page2pa a + KERNBASE + 4 * of_nat i" by (simp add: entry_ptr_def D)
    ultimately show ?thesis
      using run_load_entry [OF sp, of ?x "\<lambda>e t. returns (check (e AND PTE_P = 0)) t (\<lambda>_ t. t = s)"] that(2) E [of ?x]
      by (intro returns_bind) (simp add: D returns_prim)
  qed
  then have "returns (kfor [0..<NPTENTRIES] (\<lambda>i. kbind (kload (page2pa a + KERNBASE + 4 * of_nat i)) (\<lambda>e. check (e AND PTE_P = 0)))) s (\<lambda>_ t. t = s)"
    by (rule returns_kfor [where I = "\<lambda>t. t = s", OF refl])
  then show ?thesis by (rule returns_mono) (simp add: Q)
qed

lemma run_check_page_walk:
  assumes tp: "test_pages k K D E R a b c" and sp: "space k K M [] (D(0 := 0)) E R s"
    and Q: "\<And>t. space k K M [] (D(0 := 0, 1 := 0)) E R t \<Longrightarrow> Q () t"
  shows "returns (check_page_walk (kern_pgdir k) a) s Q"
proof -
  note [simp] = test_pagesD [OF tp] loose_upd frame_new_table entry_ptr_def
  have va: "PGSIZE * of_nat NPDENTRIES + PGSIZE = (0x401000 :: u32)" by simp
  show ?thesis
    using sp unfolding check_page_walk_def va Let_def
    by - ((rule run_walk_new, assumption, (simp; fail), (simp; fail)) | rule run_intro
      | (rule run_table_empty)
      | assumption | (simp; fail)
      | (rule Q, rule space_eq, assumption, (simp add: fun_eq_iff; fail)+))+
qed

subsection \<open>Device memory\<close>

lemma entry_ptr_nonzero:
  assumes sp: "space k K M xs D E R s" and va: "PDX va \<noteq> PDX UVPT" "D (PDX va) AND PTE_P \<noteq> 0"
  shows "entry_ptr D va \<noteq> 0"
proof -
  have "has_table s (kern_pgdir k) va" using va by (simp add: space_has_table [OF sp])
  then have "slot_of s (kern_pgdir k) va \<noteq> 0" by (rule slot_of_nonzero [OF spaceD(8,10) [OF sp]])
  then show ?thesis by (simp only: space_slot [OF sp] not_False_eq_True)
qed

lemma run_map_step:
  assumes sp: "space k K M xs D E R s" and va: "PDX va \<noteq> PDX UVPT" "D (PDX va) AND PTE_P \<noteq> 0"
    and Q: "\<And>t. space k K M xs D (E(PGNUM va := pa OR perm OR PTE_P)) R t \<Longrightarrow>
      returns (boot_map_loop n (kern_pgdir k) (va + PGSIZE) (pa + PGSIZE) perm) t Q"
  shows "returns (boot_map_loop (Suc n) (kern_pgdir k) va pa perm) s Q"
proof -
  have "entry_ptr D va \<noteq> 0" by (rule entry_ptr_nonzero [OF sp va])
  then show ?thesis
    unfolding boot_map_loop.simps
    by (intro returns_bind run_walk [OF sp va]) (simp, intro returns_bind run_store_entry [OF sp va] Q)
qed

lemma run_map_new:
  assumes sp: "space k K M (q # xs) D E R s" and va: "PDX va \<noteq> PDX UVPT" "D (PDX va) AND PTE_P = 0"
    and Q: "\<And>t. space k K M xs (D(PDX va := new_table q)) (E(PGNUM va := pa OR perm OR PTE_P)) (R(q := R q + 1)) t \<Longrightarrow>
      returns (boot_map_loop n (kern_pgdir k) (va + PGSIZE) (pa + PGSIZE) perm) t Q"
  shows "returns (boot_map_loop (Suc n) (kern_pgdir k) va pa perm) s Q"
  unfolding boot_map_loop.simps
proof (intro returns_bind run_walk_new [OF sp va])
  let ?D = "D(PDX va := new_table q)"
  fix t assume t: "space k K M xs ?D E (R(q := R q + 1)) t"
  have D: "?D (PDX va) AND PTE_P \<noteq> 0" by simp
  have "entry_ptr ?D va \<noteq> 0" by (rule entry_ptr_nonzero [OF t va(1) D])
  then show "returns (if entry_ptr ?D va = 0 then kpanic ''boot_map_region panic, out of memory''
      else kbind (kstore (entry_ptr ?D va) (pa OR perm OR PTE_P))
        (\<lambda>_. boot_map_loop n (kern_pgdir k) (va + PGSIZE) (pa + PGSIZE) perm)) t Q"
    by (simp only: if_False) (intro returns_bind run_store_entry [OF t va(1) D] Q)
qed

lemma run_mmio_base:
  assumes "space k K M xs D E R s"
  shows "Q M s \<Longrightarrow> returns (kget mmio_base) s Q" "Q (M - n) s \<Longrightarrow> returns (kget (\<lambda>s. mmio_base s - n)) s Q"
    "(\<And>t. space k K (M + n) xs D E R t \<Longrightarrow> P () t) \<Longrightarrow> returns (kmod (\<lambda>s. s\<lparr>mmio_base := mmio_base s + n\<rparr>)) s P"
proof -
  note d = spaceD [OF assms]
  show "Q M s \<Longrightarrow> returns (kget mmio_base) s Q" "Q (M - n) s \<Longrightarrow> returns (kget (\<lambda>s. mmio_base s - n)) s Q"
    by (rule returns_get, simp add: d(4))+
  let ?t = "s\<lparr>mmio_base := mmio_base s + n\<rparr>"
  have "vm_ok ?t (kern_pgdir k) xs" using d(1) vm_ok_cong [of ?t s] by simp
  then have "space k K (M + n) xs D E R ?t"
    by (rule spaceI) (use d vspace_cong [of ?t s] in simp_all)
  then show "(\<And>t. space k K (M + n) xs D E R t \<Longrightarrow> P () t) \<Longrightarrow> returns (kmod (\<lambda>s. s\<lparr>mmio_base := mmio_base s + n\<rparr>)) s P"
    by (intro returns_mod) simp
qed

text \<open>The two regions that the test maps, in the page table that \<open>c\<close> becomes.\<close>

lemma mmio_constants:
  "MMIOBASE = 0xEF800000" "MMIOLIM = 0xEFC00000" "ROUNDUP 4097 4096 = (8192 :: u32)" "ROUNDUP 4096 4096 = (4096 :: u32)"
  "ROUNDDOWN 0 4096 = (0 :: u32)" "PDX 0xEF800000 = 958" "PDX 0xEF801000 = 958" "PDX 0xEF802000 = 958" "PDX 0xEF803000 = 958"
  "PGNUM 0xEF800000 = 0xEF800" "PGNUM 0xEF801000 = 0xEF801" "PGNUM 0xEF802000 = 0xEF802" "PGNUM 0xEF803000 = 0xEF803"
  by (simp_all add: layout ROUNDUP_def ROUNDDOWN_def PDX_def PGNUM_def)

lemma run_boot_map_region:
  assumes sp: "space k K M xs D E R s" and n: "unat (sz div PGSIZE) = n"
    and Q: "\<And>t. space k K M xs D E R t \<Longrightarrow> returns (boot_map_loop n (kern_pgdir k) va pa perm) t Q"
  shows "returns (boot_map_region (kern_pgdir k) va sz pa perm) s Q"
  unfolding boot_map_region_def n
  by (rule returns_bind, rule returns_get, rule returns_bind, rule run_printf [OF sp], rule returns_bind, erule run_printf, erule Q)

lemma returns_else: "\<not> b \<Longrightarrow> returns g s Q \<Longrightarrow> returns (if b then f else g) s Q"
  by simp

abbreviation (input) device :: u32 where "device \<equiv> PTE_PCD OR PTE_PWT OR PTE_W"

lemma run_mmio_map_region:
  assumes sp: "space k K M xs D E R s" and n: "ROUNDUP (pa + sz) PGSIZE - ROUNDDOWN pa PGSIZE = n" "\<not> M + n \<ge> MMIOLIM"
    and loop: "\<And>t. space k K M xs D E R t \<Longrightarrow>
      returns (boot_map_loop (unat (n div PGSIZE)) (kern_pgdir k) M (ROUNDDOWN pa PGSIZE) device) t (\<lambda>_. space k K M xs' D' E' R')"
    and Q: "\<And>t. space k K (M + n) xs' D' E' R' t \<Longrightarrow> Q M t"
  shows "returns (mmio_map_region pa sz) s Q"
  unfolding mmio_map_region_def Let_def n(1)
proof (rule returns_bind, rule run_mmio_base(1) [OF sp], rule returns_else [OF n(2)], rule returns_bind, rule run_get_pgdir [OF sp], rule returns_bind)
  show "returns (boot_map_region (kern_pgdir k) M n (ROUNDDOWN pa PGSIZE) device) s (\<lambda>x t.
      returns (kbind (kmod (\<lambda>s. s\<lparr>mmio_base := mmio_base s + n\<rparr>)) (\<lambda>_. kget (\<lambda>s. mmio_base s - n))) t Q)"
  proof (rule run_boot_map_region [OF sp refl])
    fix t assume "space k K M xs D E R t"
    then show "returns (boot_map_loop (unat (n div PGSIZE)) (kern_pgdir k) M (ROUNDDOWN pa PGSIZE) device) t (\<lambda>x t.
        returns (kbind (kmod (\<lambda>s. s\<lparr>mmio_base := mmio_base s + n\<rparr>)) (\<lambda>_. kget (\<lambda>s. mmio_base s - n))) t Q)"
      by (rule returns_mono [OF loop])
        (rule returns_bind, erule run_mmio_base(3), rule run_mmio_base(2), assumption, simp add: Q)
  qed
qed

lemma run_mmio_first:
  assumes sp: "space k K MMIOBASE (c # xs) D E R s" and D: "D 958 AND PTE_P = 0"
    and Q: "\<And>t. space k K (MMIOBASE + 0x2000) xs (D(958 := new_table c))
      (E(0xEF800 := 0 OR device OR PTE_P, 0xEF801 := 0x1000 OR device OR PTE_P)) (R(c := R c + 1)) t \<Longrightarrow> Q MMIOBASE t"
  shows "returns (mmio_map_region 0 4097) s Q"
proof (rule run_mmio_map_region [OF sp])
  show "ROUNDUP (0 + 4097) PGSIZE - ROUNDDOWN 0 PGSIZE = 0x2000" "\<not> MMIOLIM \<le> MMIOBASE + 0x2000" by (simp_all add: mmio_constants)
  have n: "unat (0x2000 div PGSIZE) = Suc (Suc 0)" by simp
  note [simp] = mmio_constants D
  fix t assume "space k K MMIOBASE (c # xs) D E R t"
  then show "returns (boot_map_loop (unat (0x2000 div PGSIZE)) (kern_pgdir k) MMIOBASE (ROUNDDOWN 0 PGSIZE) device) t
      (\<lambda>_. space k K MMIOBASE xs (D(958 := new_table c))
        (E(0xEF800 := 0 OR device OR PTE_P, 0xEF801 := 0x1000 OR device OR PTE_P)) (R(c := R c + 1)))"
    unfolding n by - ((rule run_map_new run_map_step, assumption, (simp; fail), (simp; fail))
      | (simp add: returns_prim; fail))+
qed (rule Q)

lemma run_mmio_second:
  assumes sp: "space k K (MMIOBASE + 0x2000) xs D E R s" and D: "D 958 AND PTE_P \<noteq> 0"
    and Q: "\<And>t. space k K (MMIOBASE + 0x3000) xs D (E(0xEF802 := 0 OR device OR PTE_P)) R t \<Longrightarrow> Q (MMIOBASE + 0x2000) t"
  shows "returns (mmio_map_region 0 4096) s Q"
proof (rule run_mmio_map_region [OF sp])
  show "ROUNDUP (0 + 4096) PGSIZE - ROUNDDOWN 0 PGSIZE = 0x1000" "\<not> MMIOLIM \<le> MMIOBASE + 0x2000 + 0x1000"
    by (simp_all add: mmio_constants)
  have n: "unat (0x1000 div PGSIZE) = Suc 0" by simp
  note [simp] = mmio_constants D
  fix t assume "space k K (MMIOBASE + 0x2000) xs D E R t"
  then show "returns (boot_map_loop (unat (0x1000 div PGSIZE)) (kern_pgdir k) (MMIOBASE + 0x2000) (ROUNDDOWN 0 PGSIZE) device) t
      (\<lambda>_. space k K (MMIOBASE + 0x2000) xs D (E(0xEF802 := 0 OR device OR PTE_P)) R)"
    unfolding n by - ((rule run_map_step, assumption, (simp; fail), (simp; fail)) | (simp add: returns_prim; fail))+
qed (use Q in \<open>simp add: mmio_constants\<close>)

lemma device_entry [simp]:
  "(pa OR device OR PTE_P) AND PTE_P \<noteq> 0" "aligned 4096 pa \<Longrightarrow> PTE_ADDR (pa OR device OR PTE_P) = pa"
  "(0 OR device OR PTE_P) AND (PTE_W OR PTE_PWT OR PTE_PCD) \<noteq> 0" "(0 OR device OR PTE_P) AND PTE_U = 0"
proof -
  show "(pa OR device OR PTE_P) AND PTE_P \<noteq> 0" by simp
  show "PTE_ADDR (pa OR device OR PTE_P) = pa" if "aligned 4096 pa" using that by (rule PTE_ADDR_or) (simp add: layout)
qed (simp_all add: layout)

lemma run_check_mmio:
  assumes sp: "space k K MMIOBASE (c # xs) D E R s" and D: "D 958 AND PTE_P = 0"
    and Q: "\<And>t. space k K (MMIOBASE + 0x3000) xs (D(958 := new_table c)) E (R(c := R c + 1)) t \<Longrightarrow> Q () t"
  shows "returns (check_mmio (kern_pgdir k)) s Q"
proof -
  have E: "E 0xEF800 = 0" "E 0xEF801 = 0" "E 0xEF802 = 0" "E 0xEF803 = 0"
    using D space_no_table [OF sp, of "0xEF800000"] space_no_table [OF sp, of "0xEF801000"]
      space_no_table [OF sp, of "0xEF802000"] space_no_table [OF sp, of "0xEF803000"] by (simp_all add: mmio_constants)
  have a: "aligned 4096 0" "aligned 4096 0x1000" by (simp_all add: aligned_def)
  note [simp] = mmio_constants D E device_entry(2) [OF a(1), simplified] device_entry(2) [OF a(2)] device_entry(3,4) [simplified]
  show ?thesis
    using sp unfolding check_mmio_def
    by - ((rule run_mmio_first, assumption, (simp; fail))
      | (rule run_mmio_second, assumption, (simp; fail))
      | rule run_intro | assumption | (simp; fail)
      | (rule Q, rule space_eq, assumption, (simp add: fun_eq_iff; fail)+))+
qed

subsection \<open>The whole test\<close>

lemma space_list:
  assumes sp: "space k K M ys D E R s" and xs: "chain (\<lambda>i. pp_link (pages k i)) fl xs" "set xs \<inter> K = {}" "\<forall>p \<in> set xs. loose k D p"
  shows "space k K M xs D E R (s\<lparr>page_free_list := fl\<rparr>)"
proof (rule spaceI)
  let ?t = "s\<lparr>page_free_list := fl\<rparr>"
  note d = spaceD [OF sp]
  have m: "pmem ?t = pmem s" "npages ?t = npages s" by simp_all
  have "chain (\<lambda>i. pp_link (pages ?t i)) fl xs = chain (\<lambda>i. pp_link (pages k i)) fl xs"
    using xs(2) d(3) by (intro chain_cong) auto
  then have "free_list ?t xs" using xs d(11) by (auto simp: free_list_def loose_def)
  moreover have "tables_not_free ?t (kern_pgdir k) xs"
    using d(5) xs(3) by (auto simp: tables_not_free_def vspace_cong [OF m(1)] loose_def has_table_def)
  ultimately show "vm_ok ?t (kern_pgdir k) xs"
    using d(8,10) by (simp add: vm_ok_def wf_pgdir_cong [OF m] mem_ok_def m)
qed (use spaceD [OF sp] vspace_cong [of "s\<lparr>page_free_list := fl\<rparr>" s] in simp_all)

lemma space_chain:
  assumes "space k K M xs D E R s" "set xs \<inter> K = {}"
  shows "chain (\<lambda>i. pp_link (pages k i)) (page_free_list s) xs"
proof -
  have "chain (\<lambda>i. pp_link (pages s i)) (page_free_list s) xs" using spaceD(9) [OF assms(1)] by (simp add: free_list_def)
  moreover have "chain (\<lambda>i. pp_link (pages s i)) (page_free_list s) xs = chain (\<lambda>i. pp_link (pages k i)) (page_free_list s) xs"
    using assms(2) spaceD(3) [OF assms(1)] by (intro chain_cong) auto
  ultimately show ?thesis by simp
qed

lemma run_set_free_list:
  assumes "space k K M ys D E R s" "chain (\<lambda>i. pp_link (pages k i)) fl xs" "set xs \<inter> K = {}" "\<forall>p \<in> set xs. loose k D p"
    and "\<And>t. space k K M xs D E R t \<Longrightarrow> Q () t"
  shows "returns (set_free_list fl) s Q"
  unfolding set_free_list_def by (rule returns_mod, rule assms(5), rule space_list [OF assms(1-4)])

lemma run_check_page:
  assumes sp: "space k {a, b, c} MMIOBASE (a # b # c # xs) D E R s" and R: "R a = 0" "R b = 0" "R c = 0"
    and D: "D 0 AND PTE_P = 0" "D 1 AND PTE_P = 0" "D 958 AND PTE_P = 0"
    and Q: "\<And>t. space k {a, b, c} (MMIOBASE + 0x3000) (b # a # xs) (D(0 := 0, 1 := 0, 958 := new_table c)) E (R(c := 1)) t \<Longrightarrow> Q () t"
  shows "returns check_page s Q"
proof -
  have dist: "a \<noteq> b" "a \<noteq> c" "b \<noteq> c" "a \<notin> set xs" "b \<notin> set xs" "c \<notin> set xs"
    using free_list_distinct [OF spaceD(9) [OF sp]] by auto
  have loose: "loose k D p" if "p \<in> {a, b, c} \<union> set xs" for p using that by (intro space_loose [OF sp]) auto
  have "unat (npages k) \<le> 65536" using spaceD(13) [OF sp] by (simp add: mem_ok_def)
  moreover have "E (PGNUM x) = 0" if "PDX x = 0 \<or> PDX x = 1" for x
    using that D by (intro space_no_table [OF sp]) auto
  ultimately have tp: "test_pages k {a, b, c} D E R a b c"
    using dist loose R D by (simp add: test_pages_def)
  note [simp] = test_pagesD [OF tp] loose_upd frame_new_table loose dist D
  show ?thesis
    using sp unfolding check_page_def three_pages_def free_three_def
    apply -
    apply (rule run_intro run_check_page_insert [OF _ tp] run_check_page_perm [OF tp] run_check_page_remove [OF tp] run_check_page_walk [OF tp]
      | (rule run_check_mmio, assumption, (simp; fail))
      | (rule run_set_free_list [where xs = "[]"], assumption, (simp; fail), (simp; fail), (simp; fail))
      | (rule run_set_free_list, assumption, rule space_chain, assumption, (simp; fail), (simp; fail), (simp; fail))
      | rule returns_get
      | assumption | (simp; fail)
      | (rule Q, rule space_eq, assumption, (simp add: fun_eq_iff; fail)+))+
    done
qed

end
