(* ===== verification/List_Tests.thy ===== *)
theory List_Tests
  imports Self_Tests
begin

text \<open>
  The self tests of the free list and of the page allocator succeed: \<open>check_page_free_list\<close>, which also
  sorts the list, and \<open>check_page_alloc\<close>.
\<close>

subsection \<open>Sorting the list\<close>

text \<open>From \<open>p\<close> the links lead through \<open>xs\<close> to \<open>q\<close>.\<close>

fun path :: "(nat \<Rightarrow> nat option) \<Rightarrow> nat option \<Rightarrow> nat list \<Rightarrow> nat option \<Rightarrow> bool" where
  "path link p [] q \<longleftrightarrow> p = q"
| "path link p (x # xs) q \<longleftrightarrow> p = Some x \<and> path link (link x) xs q"

lemma path_snoc: "path link p (xs @ [x]) q \<longleftrightarrow> path link p xs (Some x) \<and> link x = q"
  by (induction xs arbitrary: p) auto

lemma path_upd: "i \<notin> set xs \<Longrightarrow> path (link(i := v)) p xs q \<longleftrightarrow> path link p xs q"
  by (induction xs arbitrary: p) auto

lemma path_chain: "path link p xs q \<Longrightarrow> chain link q ys \<Longrightarrow> chain link p (xs @ ys)"
  by (induction xs arbitrary: p) auto

text \<open>The pages of \<open>L\<close> are linked from \<open>h\<close> on, and \<open>tp\<close> is where the next one goes.\<close>

definition tail_of :: "linkptr \<Rightarrow> linkptr \<Rightarrow> nat option \<Rightarrow> (nat \<Rightarrow> nat option) \<Rightarrow> nat list \<Rightarrow> bool" where
  "tail_of v tp h link L \<longleftrightarrow>
     (if L = [] then tp = v else tp = In_page (last L) \<and> path link h (butlast L) (Some (last L)))"

abbreviation (input) links :: "kstate \<Rightarrow> nat \<Rightarrow> nat option" where
  "links s \<equiv> \<lambda>i. pp_link (pages s i)"

definition set_link :: "nat \<Rightarrow> nat option \<Rightarrow> kstate \<Rightarrow> kstate" where
  "set_link i v = upd_page i (\<lambda>p. p\<lparr>pp_link := v\<rparr>)"

lemma links_set_link [simp]: "links (set_link i v s) = (links s)(i := v)"
  by (auto simp: set_link_def)

lemma pp_link_set_link: "pp_link (pages (set_link i v s) j) = (if j = i then v else pp_link (pages s j))"
  by (simp add: set_link_def)

lemma tail_of_other:
  assumes "tail_of v tp h link L" "i \<notin> set L"
  shows "tail_of v tp h (link(i := w)) L"
proof -
  have "i \<notin> set (butlast L)" using assms(2) in_set_butlastD by metis
  then show ?thesis using assms(1) by (auto simp: tail_of_def path_upd)
qed

text \<open>What \<open>put_link\<close> does: the hole is filled, in the variable or in the last page.\<close>

lemma put_link_In_page: "put_link (In_page i) v l s = Ret l (set_link i v s)"
  by (simp add: put_link_def kmod_def kret_def set_link_def)

lemma last_not_butlast: "distinct L \<Longrightarrow> L \<noteq> [] \<Longrightarrow> last L \<notin> set (butlast L)"
  by (cases L rule: rev_cases) auto

lemma tail_of_put:
  assumes "tail_of v tp h link L" "distinct (L @ [x])" "L \<noteq> []"
  shows "tail_of v (In_page x) h (link(last L := Some x)) (L @ [x])"
proof -
  have "path link h (butlast L) (Some (last L))" using assms(1,3) by (simp add: tail_of_def)
  moreover have "last L \<notin> set (butlast L)" using assms(2,3) by (intro last_not_butlast) simp_all
  ultimately have "path (link(last L := Some x)) h (butlast L @ [last L]) (Some x)"
    by (simp add: path_snoc path_upd)
  then show ?thesis using assms(3) by (simp add: tail_of_def)
qed

text \<open>One page is put at the end of its list.\<close>

definition split_ok :: "page_split \<Rightarrow> kstate \<Rightarrow> nat list \<Rightarrow> nat list \<Rightarrow> bool" where
  "split_ok l s L H \<longleftrightarrow> tail_of In_pp1 (sp_tp0 l) (sp_pp1 l) (links s) L \<and> tail_of In_pp2 (sp_tp1 l) (sp_pp2 l) (links s) H"

definition link_change :: "kstate \<Rightarrow> kstate \<Rightarrow> bool" where
  "link_change s t \<longleftrightarrow> (\<exists>f. t = s\<lparr>pages := \<lambda>i. (pages s i)\<lparr>pp_link := f i\<rparr>\<rparr>)"

lemma link_change_refl: "link_change s s"
proof -
  have "s = s\<lparr>pages := \<lambda>i. (pages s i)\<lparr>pp_link := pp_link (pages s i)\<rparr>\<rparr>" by simp
  then show ?thesis unfolding link_change_def by (rule exI [of _ "links s"])
qed

lemma link_change_step: "link_change (set_link i v s) t \<Longrightarrow> link_change s t"
proof -
  assume "link_change (set_link i v s) t"
  then obtain f where "t = (set_link i v s)\<lparr>pages := \<lambda>j. (pages (set_link i v s) j)\<lparr>pp_link := f j\<rparr>\<rparr>"
    unfolding link_change_def by blast
  then have "t = s\<lparr>pages := \<lambda>j. (pages s j)\<lparr>pp_link := f j\<rparr>\<rparr>"
    by (simp add: set_link_def upd_page_def fun_eq_iff)
  then show ?thesis unfolding link_change_def by blast
qed

lemma put_low:
  assumes "split_ok l s L H" "distinct (L @ H @ [x])"
  shows "\<exists>l' t. put_link (sp_tp0 l) (Some x) l s = Ret l' t \<and> split_ok (l'\<lparr>sp_tp0 := In_page x\<rparr>) t (L @ [x]) H \<and>
    (t = s \<or> (\<exists>i v. i \<in> set L \<and> t = set_link i v s))"
proof (cases "L = []")
  case True
  then show ?thesis
    using assms(1) by (intro exI [of _ "l\<lparr>sp_pp1 := Some x\<rparr>"] exI [of _ s]) (simp add: split_ok_def tail_of_def put_link_def kret_def)
next
  case False
  then have tp: "sp_tp0 l = In_page (last L)" using assms(1) by (simp add: split_ok_def tail_of_def)
  have disj: "set L \<inter> set H = {}" using assms(2) by auto
  have l: "last L \<in> set L" by (rule last_in_set [OF False])
  with disj have "last L \<notin> set H" by blast
  moreover have "\<exists>i v. i \<in> set L \<and> set_link (last L) (Some x) s = set_link i v s" using l by blast
  ultimately show ?thesis
    using assms tail_of_put [of In_pp1 "sp_tp0 l" "sp_pp1 l" "links s" L x] False
      tail_of_other [of In_pp2 "sp_tp1 l" "sp_pp2 l" "links s" H "last L" "Some x"]
    by (intro exI [of _ l] exI [of _ "set_link (last L) (Some x) s"]) (auto simp: tp put_link_In_page split_ok_def)
qed

lemma put_high:
  assumes "split_ok l s L H" "distinct (L @ H @ [x])"
  shows "\<exists>l' t. put_link (sp_tp1 l) (Some x) l s = Ret l' t \<and> split_ok (l'\<lparr>sp_tp1 := In_page x\<rparr>) t L (H @ [x]) \<and>
    (t = s \<or> (\<exists>i v. i \<in> set H \<and> t = set_link i v s))"
proof (cases "H = []")
  case True
  then show ?thesis
    using assms(1) by (intro exI [of _ "l\<lparr>sp_pp2 := Some x\<rparr>"] exI [of _ s]) (simp add: split_ok_def tail_of_def put_link_def kret_def)
next
  case False
  then have tp: "sp_tp1 l = In_page (last H)" using assms(1) by (simp add: split_ok_def tail_of_def)
  have disj: "set L \<inter> set H = {}" using assms(2) by auto
  have l: "last H \<in> set H" by (rule last_in_set [OF False])
  with disj have "last H \<notin> set L" by blast
  moreover have "\<exists>i v. i \<in> set H \<and> set_link (last H) (Some x) s = set_link i v s" using l by blast
  ultimately show ?thesis
    using assms tail_of_put [of In_pp2 "sp_tp1 l" "sp_pp2 l" "links s" H x] False
      tail_of_other [of In_pp1 "sp_tp0 l" "sp_pp1 l" "links s" L "last H" "Some x"]
    by (intro exI [of _ l] exI [of _ "set_link (last H) (Some x) s"]) (auto simp: tp put_link_In_page split_ok_def)
qed

abbreviation (input) below :: "u32 \<Rightarrow> nat \<Rightarrow> bool" where
  "below lim pp \<equiv> PDX (page2pa pp) < lim"

lemma split_pages_run:
  assumes "chain (links s) p xs" "length xs < n" "split_ok l s L H" "distinct (L @ H @ xs)"
  shows "\<exists>l' t. split_pages n lim p l s = Ret l' t \<and> link_change s t \<and>
    split_ok l' t (L @ filter (below lim) xs) (H @ filter (\<lambda>pp. \<not> below lim pp) xs)"
  using assms
proof (induction xs arbitrary: n p l s L H)
  case Nil
  then obtain m where "n = Suc m" by (cases n) auto
  then show ?case using Nil link_change_refl by (auto simp: kret_def)
next
  case (Cons x xs)
  then obtain m where n: "n = Suc m" by (cases n) auto
  have p: "p = Some x" and c: "chain (links s) (links s x) xs" using Cons.prems(1) by simp_all
  have dist: "distinct (L @ H @ [x])" using Cons.prems(4) by auto
  have keep: "chain (links t) (links t x) xs" if "t = s \<or> (\<exists>i v. i \<in> set L \<union> set H \<and> t = set_link i v s)" for t
    using that
  proof
    assume "\<exists>i v. i \<in> set L \<union> set H \<and> t = set_link i v s"
    then obtain i v where t: "i \<in> set L \<union> set H" "t = set_link i v s" by blast
    then have "i \<notin> set xs" "i \<noteq> x" using Cons.prems(4) by auto
    then show ?thesis unfolding t(2) links_set_link using c by (simp add: chain_upd pp_link_set_link)
  qed (use c in simp)
  have change: "link_change s u" if "t = s \<or> (\<exists>i v. i \<in> set L \<union> set H \<and> t = set_link i v s)" "link_change t u" for t u
    using that link_change_step by blast
  have n': "length xs < m" "distinct ((L @ [x]) @ H @ xs)" "distinct (L @ (H @ [x]) @ xs)" using Cons.prems(2,4) n by auto
  show ?case
  proof (cases "below lim x")
    case True
    obtain l' t where t: "put_link (sp_tp0 l) (Some x) l s = Ret l' t" "split_ok (l'\<lparr>sp_tp0 := In_page x\<rparr>) t (L @ [x]) H"
        "t = s \<or> (\<exists>i v. i \<in> set L \<union> set H \<and> t = set_link i v s)"
      using put_low [OF Cons.prems(3) dist] by blast
    obtain l'' u where "split_pages m lim (links t x) (l'\<lparr>sp_tp0 := In_page x\<rparr>) t = Ret l'' u" "link_change t u"
        "split_ok l'' u ((L @ [x]) @ filter (below lim) xs) (H @ filter (\<lambda>pp. \<not> below lim pp) xs)"
      using Cons.IH [OF keep [OF t(3)] n'(1) t(2) n'(2)] by blast
    moreover have "\<not> lim \<le> PDX (page2pa x)" using True by simp
    moreover note t(1) change [OF t(3)] True
    ultimately show ?thesis by (simp add: n p kbind_Ret Let_def)
  next
    case False
    obtain l' t where t: "put_link (sp_tp1 l) (Some x) l s = Ret l' t" "split_ok (l'\<lparr>sp_tp1 := In_page x\<rparr>) t L (H @ [x])"
        "t = s \<or> (\<exists>i v. i \<in> set L \<union> set H \<and> t = set_link i v s)"
      using put_high [OF Cons.prems(3) dist] by blast
    obtain l'' u where "split_pages m lim (links t x) (l'\<lparr>sp_tp1 := In_page x\<rparr>) t = Ret l'' u" "link_change t u"
        "split_ok l'' u (L @ filter (below lim) xs) ((H @ [x]) @ filter (\<lambda>pp. \<not> below lim pp) xs)"
      using Cons.IH [OF keep [OF t(3)] n'(1) t(2) n'(3)] by blast
    moreover have "lim \<le> PDX (page2pa x)" using False by simp
    moreover note t(1) change [OF t(3)] False
    ultimately show ?thesis by (simp add: n p kbind_Ret Let_def)
  qed
qed

text \<open>The low pages come first; both parts keep their order.\<close>

definition low_first :: "u32 \<Rightarrow> nat list \<Rightarrow> nat list" where
  "low_first lim xs = filter (below lim) xs @ filter (\<lambda>pp. \<not> below lim pp) xs"

lemma set_low_first [simp]: "set (low_first lim xs) = set xs" "length (low_first lim xs) = length xs"
  by (auto simp: low_first_def sum_length_filter_compl)

lemma link_change_trans: "link_change s t \<Longrightarrow> link_change t u \<Longrightarrow> link_change s u"
  by (auto simp: link_change_def)

lemma link_change_list:
  assumes "link_change s t"
  shows "link_change (s\<lparr>page_free_list := q\<rparr>) (t\<lparr>page_free_list := q\<rparr>)"
proof -
  obtain f where t: "t = s\<lparr>pages := \<lambda>i. (pages s i)\<lparr>pp_link := f i\<rparr>\<rparr>" using assms unfolding link_change_def by blast
  have "t\<lparr>page_free_list := q\<rparr> = (s\<lparr>page_free_list := q\<rparr>)\<lparr>pages := \<lambda>i. (pages (s\<lparr>page_free_list := q\<rparr>) i)\<lparr>pp_link := f i\<rparr>\<rparr>"
    by (simp add: t)
  then show ?thesis unfolding link_change_def by (rule exI [of _ f])
qed

lemma link_change_set_link: "link_change s t \<Longrightarrow> link_change s (set_link i v t)"
  using link_change_trans [of s t "set_link i v t"] link_change_step [OF link_change_refl [of "set_link i v t"]] by blast

lemma close_tail:
  assumes "tail_of v tp h link L" "distinct L" "L \<noteq> []" "chain link q ys" "last L \<notin> set ys"
  shows "chain (link(last L := q)) h (L @ ys)"
proof -
  have "path link h (butlast L) (Some (last L))" using assms(1,3) by (simp add: tail_of_def)
  moreover have "last L \<notin> set (butlast L)" using assms(2,3) by (rule last_not_butlast)
  ultimately have "path (link(last L := q)) h (butlast L @ [last L]) q" by (simp add: path_snoc path_upd)
  then have "path (link(last L := q)) h L q" using assms(3) by simp
  then show ?thesis by (rule path_chain) (simp add: chain_upd assms(4,5))
qed

lemma put_end_high:
  assumes "split_ok l s L H" "distinct (L @ H)"
  shows "\<exists>l' t. put_link (sp_tp1 l) None l s = Ret l' t \<and> link_change s t \<and> sp_tp0 l' = sp_tp0 l \<and> sp_pp1 l' = sp_pp1 l \<and>
    tail_of In_pp1 (sp_tp0 l) (sp_pp1 l) (links t) L \<and> chain (links t) (sp_pp2 l') H"
proof (cases "H = []")
  case True
  then show ?thesis
    using assms(1) by (intro exI [of _ "l\<lparr>sp_pp2 := None\<rparr>"] exI [of _ s])
      (simp add: split_ok_def tail_of_def [of In_pp2] put_link_def kret_def link_change_refl)
next
  case False
  have disj: "set L \<inter> set H = {}" "distinct H" using assms(2) by auto
  have "last H \<in> set H" by (rule last_in_set [OF False])
  with disj have "last H \<notin> set L" by blast
  moreover have "sp_tp1 l = In_page (last H)" using assms(1) False by (simp add: split_ok_def tail_of_def)
  ultimately show ?thesis
    using assms(1) close_tail [of In_pp2 "sp_tp1 l" "sp_pp2 l" "links s" H None "[]"] False disj(2)
      tail_of_other [of In_pp1 "sp_tp0 l" "sp_pp1 l" "links s" L "last H" None]
    by (intro exI [of _ l] exI [of _ "set_link (last H) None s"])
      (simp add: split_ok_def put_link_In_page link_change_set_link link_change_refl)
qed

lemma put_end_low:
  assumes "tail_of In_pp1 (sp_tp0 l) (sp_pp1 l) (links s) L" "chain (links s) q H" "distinct (L @ H)"
  shows "\<exists>l' t. put_link (sp_tp0 l) q l s = Ret l' t \<and> link_change s t \<and> chain (links t) (sp_pp1 l') (L @ H)"
proof (cases "L = []")
  case True
  then show ?thesis
    using assms(1,2) by (intro exI [of _ "l\<lparr>sp_pp1 := q\<rparr>"] exI [of _ s])
      (simp add: tail_of_def put_link_def kret_def link_change_refl)
next
  case False
  have disj: "set L \<inter> set H = {}" "distinct L" using assms(3) by auto
  have "last L \<in> set L" by (rule last_in_set [OF False])
  with disj have "last L \<notin> set H" by blast
  moreover have "sp_tp0 l = In_page (last L)" using assms(1) False by (simp add: tail_of_def)
  ultimately show ?thesis
    using assms(1,2) close_tail [of In_pp1 "sp_tp0 l" "sp_pp1 l" "links s" L q H] False disj(2)
    by (intro exI [of _ l] exI [of _ "set_link (last L) q s"])
      (simp add: put_link_In_page link_change_set_link link_change_refl)
qed

lemma low_pages_first_run:
  assumes "chain (links s) (page_free_list s) xs" "length xs < 2 ^ 32"
  shows "\<exists>t. low_pages_first lim s = Ret () t \<and> link_change (s\<lparr>page_free_list := page_free_list t\<rparr>) t \<and>
    chain (links t) (page_free_list t) (low_first lim xs)"
proof -
  let ?l0 = "\<lparr>sp_pp1 = None, sp_pp2 = None, sp_tp0 = In_pp1, sp_tp1 = In_pp2\<rparr>"
  let ?L = "filter (below lim) xs" and ?H = "filter (\<lambda>pp. \<not> below lim pp) xs"
  have dist: "distinct ([] @ [] @ xs)" "distinct (?L @ ?H)" using chain_distinct [OF assms(1)] by auto
  have "split_ok ?l0 s [] []" by (simp add: split_ok_def tail_of_def)
  then obtain l t where t: "split_pages (2 ^ 32) lim (page_free_list s) ?l0 s = Ret l t" "link_change s t"
      "split_ok l t ([] @ ?L) ([] @ ?H)"
    using split_pages_run [OF assms _ dist(1), of ?l0] by blast
  then have ok: "split_ok l t ?L ?H" by simp
  obtain l' u where u: "put_link (sp_tp1 l) None l t = Ret l' u" "link_change t u" "sp_tp0 l' = sp_tp0 l" "sp_pp1 l' = sp_pp1 l"
      "tail_of In_pp1 (sp_tp0 l) (sp_pp1 l) (links u) ?L" "chain (links u) (sp_pp2 l') ?H"
    using put_end_high [OF ok dist(2)] by blast
  have low: "tail_of In_pp1 (sp_tp0 l') (sp_pp1 l') (links u) ?L" using u(3-5) by simp
  obtain l'' v where v: "put_link (sp_tp0 l') (sp_pp2 l') l' u = Ret l'' v" "link_change u v" "chain (links v) (sp_pp1 l'') (?L @ ?H)"
    using put_end_low [OF low u(6) dist(2)] by blast
  let ?t = "v\<lparr>page_free_list := sp_pp1 l''\<rparr>"
  have "link_change s v" using t(2) u(2) v(2) link_change_trans by blast
  then have "link_change (s\<lparr>page_free_list := page_free_list ?t\<rparr>) ?t" by (simp add: link_change_list)
  moreover have "low_pages_first lim s = Ret () ?t"
    using t(1) u(1) v(1) by (simp add: low_pages_first_def kbind_Ret kmod_def)
  ultimately show ?thesis using v(3) by (intro exI [of _ ?t]) (simp add: low_first_def)
qed

end
