(* ===== verification/Alloc_Tests.thy ===== *)
theory Alloc_Tests
  imports List_Tests
begin

text \<open>
  The tests that walk the free list: each loop visits exactly the pages of the list, every page passes
  the checks, and the allocator gives the pages out and takes them back.
\<close>

subsection \<open>Walking the list\<close>

lemma space_links:
  "space k {} M xs D E R s \<Longrightarrow> links s = links k"
  by (auto simp: spaceD(3))

text \<open>A description can be moved to a new start; then no link is allowed to change.\<close>

lemma space_rebase:
  assumes "space k K M xs D E R s"
  shows "space s K' M xs D E R s"
  using assms spaceD(12) [OF assms] by (simp add: space_def erase_def)

lemma run_for_links:
  assumes "space k {} M xs D E R s" "chain (links k) p ys" "length ys < n" "set ys \<subseteq> set xs"
    and "\<And>pp t. pp \<in> set xs \<Longrightarrow> space k {} M xs D E R t \<Longrightarrow> returns (body pp) t (\<lambda>_. space k {} M xs D E R)"
  shows "returns (for_links n body p) s (\<lambda>_. space k {} M xs D E R)"
  using assms(1-4)
proof (induction ys arbitrary: n p s)
  case Nil
  then obtain m where "n = Suc m" by (cases n) auto
  then show ?case using Nil by (simp add: returns_prim)
next
  case (Cons y ys)
  then obtain m where n: "n = Suc m" by (cases n) auto
  have p: "p = Some y" "chain (links k) (links k y) ys" using Cons.prems(2) by simp_all
  have "returns (body y) s (\<lambda>_. space k {} M xs D E R)" using Cons.prems assms(5) by simp
  then have "returns (body y) s (\<lambda>_ t. returns (kbind (kget (\<lambda>s. links s y)) (for_links m body)) t (\<lambda>_. space k {} M xs D E R))"
  proof (rule returns_mono)
    fix t assume t: "space k {} M xs D E R t"
    have "links t y = links k y" using spaceD(3) [OF t] by simp
    then show "returns (kbind (kget (\<lambda>s. links s y)) (for_links m body)) t (\<lambda>_. space k {} M xs D E R)"
      using Cons.IH [OF t p(2), of m] Cons.prems(3,4) n by (intro returns_bind returns_get) simp
  qed
  then show ?case by (simp add: n p(1) returns_bind)
qed

lemma count_links_run: "chain (links s) p xs \<Longrightarrow> length xs < n \<Longrightarrow> count_links n p s = Ret (length xs) s"
proof (induction xs arbitrary: n p)
  case Nil
  then show ?case by (cases n) (simp_all add: kret_def)
next
  case (Cons x xs)
  then obtain m where "n = Suc m" by (cases n) auto
  then show ?case using Cons by (simp add: kbind_Ret kret_def)
qed

text \<open>The list is no longer than the array of pages.\<close>

lemma free_list_length: "free_list s xs \<Longrightarrow> mem_ok s \<Longrightarrow> length xs \<le> 65536"
proof -
  assume fl: "free_list s xs" and m: "mem_ok s"
  have "set xs \<subseteq> {..<unat (npages s)}" using fl by (auto simp: free_list_def)
  then have "card (set xs) \<le> unat (npages s)" using card_mono [of "{..<unat (npages s)}"] by fastforce
  then show ?thesis using m distinct_card [OF free_list_distinct [OF fl]] by (simp add: mem_ok_def)
qed

lemma run_free_page_count [run_intro]:
  assumes "space k K M xs D E R s" "Q (length xs) s"
  shows "returns free_page_count s Q"
proof -
  have "length xs < 2 ^ 32" using free_list_length [OF spaceD(9,8) [OF assms(1)]] by simp
  then have "free_page_count s = Ret (length xs) s"
    using spaceD(9) [OF assms(1)] count_links_run [of s "page_free_list s" xs "2 ^ 32"]
    by (simp add: free_page_count_def free_list_def)
  then show ?thesis using assms(2) by (rule returnsI)
qed

subsection \<open>The allocator\<close>

lemma run_check_in_memory [run_intro]:
  assumes "space k K M xs D E R s" "p < unat (npages k)" "Q () s"
  shows "returns (check_in_memory p) s Q"
proof -
  have np: "unat (npages s) \<le> 65536" "p < unat (npages s)" using spaceD(8,11) [OF assms(1)] assms(2) by (simp_all add: mem_ok_def)
  then have "unat (npages s * PGSIZE) = 4096 * unat (npages s)" by (simp add: unat_word_ariths)
  then have "page2pa p < npages s * PGSIZE" using np by (simp add: word_less_nat_alt unat_page2pa)
  then show ?thesis using assms(3) unfolding check_in_memory_def by (intro returns_bind returns_get returns_prim) simp_all
qed

text \<open>A page allocated with \<open>ALLOC_ZERO\<close> reads as zero.\<close>

lemma run_check_alloc_zero:
  assumes sp: "space k K M [] D E R s" and p: "p \<in> K" "loose k D p"
    and Q: "\<And>t. space k K M [] D E R t \<Longrightarrow> Q () t"
  shows "returns (check_alloc_zero p) s Q"
proof -
  have pn: "p < unat (npages k)" using p(2) by (simp add: loose_def)
  note m = space_pages [OF sp p(2)]
  have zero: "returns (must_alloc ALLOC_ZERO) s (\<lambda>pp t. pp = p \<and> space k K M [] D E R t \<and> (\<forall>a. frame a = p \<longrightarrow> pmem t a = 0))"
    if s: "space k K M [p] D E R s" for s
  proof -
    let ?t = "alloc_state ALLOC_ZERO p s"
    have "must_alloc ALLOC_ZERO s = Ret p ?t"
      using page_alloc_Some [OF spaceD(9,8) [OF s], of ALLOC_ZERO] by (simp add: must_alloc_def kbind_Ret kret_def)
    moreover have "pmem ?t a = 0" if "frame a = p" for a
      using that m mem_set_page [OF aligned_page2pa, of "pmem s" p 0 a] by (simp add: pmem_alloc_zero frame_def unat_page2pa)
    ultimately show ?thesis using space_take [OF s, of ALLOC_ZERO] by (simp add: returns_def)
  qed
  have loop: "returns (kfor [0..<4096] (\<lambda>i. kbind (kload8 (page2pa p + KERNBASE + of_nat i)) (\<lambda>b. check (b = 0)))) t Q"
    if t: "space k K M [] D E R t" "\<forall>a. frame a = p \<longrightarrow> pmem t a = 0" for t
  proof -
    have "returns (kbind (kload8 (page2pa p + KERNBASE + of_nat i)) (\<lambda>b. check (b = 0))) u (\<lambda>_ u. u = t)"
      if "i \<in> set [0..<4096]" "u = t" for i u
    proof -
      have i: "unat (of_nat i :: u32) = i" "i < 4096" using that(1) by (simp_all add: unat_of_nat_u32)
      have u: "unat (page2pa p + of_nat i) = 4096 * p + i"
        using m i by (subst unat_add_no_wrap) (simp_all add: unat_page2pa)
      then have f: "frame (page2pa p + of_nat i) = p" using i by (simp add: frame_def)
      have "unat (page2pa p + of_nat i) < 268435456" using u m i by simp
      then have "kload8 (page2pa p + KERNBASE + of_nat i) t = Ret 0 t"
        using kva_ge [of "page2pa p + of_nat i"] t(2) f by (simp add: kload8_def add_ac)
      then show ?thesis using that(2) by (intro returns_bind returnsI [where m = "kload8 _"] returns_prim) simp_all
    qed
    then have "returns (kfor [0..<4096] (\<lambda>i. kbind (kload8 (page2pa p + KERNBASE + of_nat i)) (\<lambda>b. check (b = 0)))) t (\<lambda>_ u. u = t)"
      by (rule returns_kfor [where I = "\<lambda>u. u = t", OF refl])
    then show ?thesis by (rule returns_mono) (simp add: Q t(1))
  qed
  have after: "returns (kbind (check (p = x)) (\<lambda>_. kbind (page2kva x) (\<lambda>c. kfor [0..<4096] (\<lambda>i. kbind (kload8 (c + of_nat i)) (\<lambda>b. check (b = 0)))))) t Q"
    if "x = p \<and> space k K M [] D E R t \<and> (\<forall>a. frame a = p \<longrightarrow> pmem t a = 0)" for x t
  proof -
    have x: "x = p" and t: "space k K M [] D E R t" "\<forall>a. frame a = p \<longrightarrow> pmem t a = 0" using that by blast+
    show ?thesis unfolding x
      by (rule returns_bind, rule returns_prim(2), rule refl, rule returns_bind, rule run_page2kva [OF t(1) pn], rule loop [OF t])
  qed
  show ?thesis
    unfolding check_alloc_zero_def
    by (rule returns_bind, rule run_page2kva [OF sp pn], rule returns_bind, rule run_memset [OF sp p(2)], simp, rule returns_bind,
      erule run_page_free [OF _ p], simp, rule returns_bind, rule returns_mono, erule zero, erule after)
qed

lemma run_check_page_alloc:
  assumes sp: "space k {a, b, c} M (a # b # c # xs) D E R s" and pages: "pages_kva k \<noteq> 0"
    and Q: "\<And>t. space k {a, b, c} M (a # b # c # xs) D E R t \<Longrightarrow> Q () t"
  shows "returns check_page_alloc s Q"
proof -
  have dist: "a \<noteq> b" "a \<noteq> c" "b \<noteq> c" "b \<noteq> a" "c \<noteq> a" "c \<noteq> b" "a \<notin> set xs" "b \<notin> set xs" "c \<notin> set xs"
    using free_list_distinct [OF spaceD(9) [OF sp]] by auto
  have loose: "loose k D p" if "p \<in> {a, b, c} \<union> set xs" for p using that by (intro space_loose [OF sp]) auto
  then have n: "a < unat (npages k)" "b < unat (npages k)" "c < unat (npages k)" by (simp_all add: loose_def)
  have "pages_kva s = pages_kva k" by (rule erase_fields(3) [OF spaceD(2) [OF sp]])
  then have nz: "pages_kva s \<noteq> 0" using pages by simp
  note [simp] = dist loose n nz
  show ?thesis
    using sp unfolding check_page_alloc_def three_pages_def free_three_def
    by - (rule returns_bind, rule returns_get, rule returns_else, simp,
      (rule run_intro run_check_alloc_zero
      | (rule run_set_free_list [where xs = "[]"], assumption, (simp; fail), (simp; fail), (simp; fail))
      | (rule run_set_free_list, assumption, rule space_chain, assumption, (simp; fail), (simp; fail), (simp; fail))
      | rule returns_get
      | assumption | (simp; fail)
      | (rule Q, assumption))+)
qed

subsection \<open>The free list\<close>

text \<open>The pages that \<open>check_page_free_list\<close> accepts.\<close>

definition good_page :: "kstate \<Rightarrow> nat \<Rightarrow> bool" where
  "good_page k p \<longleftrightarrow> p < unat (npages k) \<and> (0 < p \<and> p < 7 \<or> 256 < p \<and> nextfree k \<le> page2pa p + KERNBASE)"

definition good_list :: "kstate \<Rightarrow> nat list \<Rightarrow> bool" where
  "good_list k xs \<longleftrightarrow> unat (pages_kva k) + 8 * unat (npages k) < 4294967296 \<and> nextfree k \<noteq> 0 \<and>
     (\<forall>p \<in> set xs. good_page k p) \<and> (\<exists>p \<in> set xs. p < 7) \<and> (\<exists>p \<in> set xs. 256 < p)"

lemma page2pa_eq_iff: "p < 65536 \<Longrightarrow> unat x < 268435456 \<Longrightarrow> page2pa p = x \<longleftrightarrow> 4096 * p = unat x"
  by (simp add: word_unat_eq_iff unat_page2pa)

lemma check_free_page_passes:
  assumes "mem_ok s" "good_page s p" "unat (pages_kva s) + 8 * unat (npages s) < 4294967296"
  shows "check_free_page (nextfree s) p s = Ret () s"
proof -
  have n: "unat (npages s) \<le> 65536" "p < unat (npages s)" using assms(1,2) by (simp_all add: mem_ok_def good_page_def)
  have off: "unat (sizeof_PageInfo * of_nat p :: u32) = 8 * p" "unat (sizeof_PageInfo * npages s :: u32) = 8 * unat (npages s)"
    using n by (simp_all add: unat_word_ariths unat_of_nat)
  have ptr: "unat (page_ptr s p) = unat (pages_kva s) + 8 * p" "unat (pages_kva s + sizeof_PageInfo * npages s) = unat (pages_kva s) + 8 * unat (npages s)"
    unfolding page_ptr_def using off n assms(3) by (subst unat_add_no_wrap, simp_all)+
  then have "pages_kva s \<le> page_ptr s p" "page_ptr s p < pages_kva s + sizeof_PageInfo * npages s"
    using n by (simp_all add: word_le_nat_alt word_less_nat_alt)
  moreover have "(page_ptr s p - pages_kva s) mod sizeof_PageInfo = 0"
    using off by (simp add: page_ptr_def word_unat_eq_iff unat_mod)
  moreover have "page2pa p \<noteq> 0" "page2pa p \<noteq> IOPHYSMEM" "page2pa p \<noteq> EXTPHYSMEM - PGSIZE" "page2pa p \<noteq> EXTPHYSMEM" "page2pa p \<noteq> MPENTRY_PADDR"
    using assms(2) n by (auto simp: page2pa_eq_iff good_page_def layout)
  moreover have "p \<ge> 7 \<Longrightarrow> nextfree s \<le> page2pa p + KERNBASE" using assms(2) by (auto simp: good_page_def)
  moreover have "page2pa p < EXTPHYSMEM \<longleftrightarrow> p < 256" using n by (simp add: word_less_nat_alt unat_page2pa layout)
  moreover have "page2kva p s = Ret (page2pa p + KERNBASE) s" using assms(1) n(2) by (rule page2kva_ok)
  ultimately show ?thesis
    unfolding check_free_page_def by (simp add: kbind_Ret kassert_def kwhen_def kret_def)
qed

lemma count_free_run:
  assumes "mem_ok s" "unat (pages_kva s) + 8 * unat (npages s) < 4294967296"
    and "chain (links s) p xs" "\<forall>p \<in> set xs. good_page s p" "length xs < n"
  shows "count_free n (nextfree s) p c s =
    Ret (fst c + length (filter (\<lambda>p. p < 256) xs), snd c + length (filter (\<lambda>p. \<not> p < 256) xs)) s"
  using assms(3-)
proof (induction xs arbitrary: n p c)
  case Nil
  then obtain m where "n = Suc m" by (cases n) auto
  then show ?case using Nil by (simp add: kret_def)
next
  case (Cons x xs)
  then obtain m where n: "n = Suc m" by (cases n) auto
  have x: "good_page s x" "x < 65536" "page2pa x < EXTPHYSMEM \<longleftrightarrow> x < 256"
    using Cons.prems(2) assms(1) by (simp_all add: good_page_def mem_ok_def word_less_nat_alt unat_page2pa layout)
  have chk: "check_free_page (nextfree s) x s = Ret () s" by (rule check_free_page_passes [OF assms(1) x(1) assms(2)])
  have ih: "count_free m (nextfree s) (links s x) c' s =
      Ret (fst c' + length (filter (\<lambda>p. p < 256) xs), snd c' + length (filter (\<lambda>p. \<not> p < 256) xs)) s" for c'
    using Cons by (intro Cons.IH) (auto simp: n)
  show ?case using Cons.prems(1) by (simp add: n kbind_Ret [where m = "check_free_page (nextfree s) x", OF chk] x(3) ih)
qed

text \<open>The list is sorted, and nothing else that counts is changed.\<close>

lemma space_relink:
  assumes sp: "space k UNIV M xs D E R s" and lc: "link_change (s\<lparr>page_free_list := q\<rparr>) t"
    and ys: "chain (links t) (page_free_list t) ys" "set ys = set xs"
  shows "space k UNIV M ys D E R t"
proof -
  obtain f where t: "t = s\<lparr>page_free_list := q, pages := \<lambda>i. (pages s i)\<lparr>pp_link := f i\<rparr>\<rparr>"
    using lc unfolding link_change_def by auto
  note d = spaceD [OF sp]
  have m: "pmem t = pmem s" "npages t = npages s" by (simp_all add: t)
  have "free_list t ys" using ys d(9) by (simp add: free_list_def m(2))
  moreover have "tables_not_free t (kern_pgdir k) ys"
    using d(1) ys(2) by (simp add: tables_not_free_def vspace_cong [OF m(1)] vm_ok_def)
  ultimately have "vm_ok t (kern_pgdir k) ys" using d(8,10) by (simp add: vm_ok_def wf_pgdir_cong [OF m] mem_ok_def m(2))
  moreover have "erase k t = k" using d(2) by (simp add: t erase_def)
  ultimately show ?thesis
    by (rule spaceI) (use d vspace_cong [OF m(1)] in \<open>simp_all add: t\<close>)
qed

lemma erase_erase: "erase k (erase t s) = erase k s"
  by (simp add: erase_def)

lemma space_back:
  assumes "space k UNIV M xs D E R s" "space s K M ys D' E' R' t"
  shows "space k UNIV M ys D' E' R' t"
proof -
  have "erase k t = k" using erase_erase [of k s t] spaceD(2) [OF assms(1)] spaceD(2) [OF assms(2)] by simp
  then show ?thesis using assms(2) spaceD(12) [OF assms(1)] by (simp add: space_def)
qed

lemma run_low_pages_first:
  assumes "space k UNIV M xs D E R s" "\<And>t. space k UNIV M (low_first lim xs) D E R t \<Longrightarrow> Q () t"
  shows "returns (low_pages_first lim) s Q"
proof -
  note d = spaceD [OF assms(1)]
  have "length xs < 2 ^ 32" using free_list_length [OF d(9,8)] by simp
  then obtain t where t: "low_pages_first lim s = Ret () t" "link_change (s\<lparr>page_free_list := page_free_list t\<rparr>) t"
      "chain (links t) (page_free_list t) (low_first lim xs)"
    using low_pages_first_run [of s xs lim] d(9) unfolding free_list_def by blast
  have "space k UNIV M (low_first lim xs) D E R t" by (rule space_relink [OF assms(1) t(2,3)]) simp
  from t(1) assms(2) [OF this] show ?thesis by (rule returnsI)
qed

text \<open>The free pages are overwritten; no table is among them.\<close>

lemma run_scribble:
  assumes sp: "space k {} M xs D E R s" and Q: "\<And>t. space k {} M xs D E R t \<Longrightarrow> Q () t"
  shows "returns (for_free_pages (\<lambda>pp. kwhen (PDX (page2pa pp) < lim) (kbind (page2kva pp) (\<lambda>va. kmemset va 0x97 128)))) s Q"
proof -
  note d = spaceD [OF sp]
  let ?body = "\<lambda>pp. kwhen (PDX (page2pa pp) < lim) (kbind (page2kva pp) (\<lambda>va. kmemset va 0x97 128))"
  have c: "chain (links k) (page_free_list s) xs" by (rule space_chain [OF sp]) simp
  have len: "length xs < 2 ^ 32" using free_list_length [OF d(9,8)] by simp
  have body: "returns (?body pp) t (\<lambda>_. space k {} M xs D E R)" if "pp \<in> set xs" "space k {} M xs D E R t" for pp t
  proof -
    have l: "loose k D pp" by (rule space_loose [OF that(2,1)])
    then have n: "pp < unat (npages k)" by (simp add: loose_def)
    show ?thesis
    proof (cases "PDX (page2pa pp) < lim")
      case True
      have "returns (kbind (page2kva pp) (\<lambda>va. kmemset va 0x97 128)) t (\<lambda>_. space k {} M xs D E R)"
        by (rule returns_bind, rule run_page2kva [OF that(2) n], rule run_memset [OF that(2) l]) simp_all
      with True show ?thesis by (simp add: kwhen_def)
    next
      case False
      with that(2) show ?thesis by (simp add: kwhen_def returns_prim)
    qed
  qed
  have "returns (for_links (2 ^ 32) ?body (page_free_list s)) s (\<lambda>_. space k {} M xs D E R)"
    by (rule run_for_links [OF sp c len subset_refl body])
  then have "returns (for_links (2 ^ 32) ?body (page_free_list s)) s Q" by (rule returns_mono) (simp add: Q)
  then show ?thesis unfolding for_free_pages_def by (intro returns_bind returns_get)
qed

lemma run_boot_alloc_0:
  assumes "space k K M xs D E R s" "nextfree k \<noteq> 0" "\<And>t. space k K M xs D E R t \<Longrightarrow> Q (nextfree k) t"
  shows "returns (boot_alloc kend 0) s Q"
proof -
  have "nextfree s = nextfree k" by (rule erase_fields(10) [OF spaceD(2) [OF assms(1)]])
  then obtain c where "boot_alloc kend 0 s = Ret (nextfree k) (s\<lparr>cons := c\<rparr>)"
    using assms(2) by (simp add: boot_alloc_def kret_def)
  then show ?thesis by (rule returnsI) (rule assms(3) [OF space_cons [OF assms(1)]])
qed

lemma run_count_free:
  assumes sp: "space k K M xs D E R s" and xs: "good_list k xs" and Q: "\<And>l h. 0 < l \<Longrightarrow> 0 < h \<Longrightarrow> Q (l, h) s"
  shows "returns (count_free (2 ^ 32) (nextfree k) (page_free_list s) (0, 0)) s Q"
proof -
  note d = spaceD [OF sp] and f = erase_fields [OF spaceD(2) [OF sp]]
  have g: "\<forall>p \<in> set xs. good_page s p" using xs f(1,10) by (simp add: good_list_def good_page_def)
  have len: "length xs < 2 ^ 32" using free_list_length [OF d(9,8)] by simp
  have c: "chain (links s) (page_free_list s) xs" using d(9) by (simp add: free_list_def)
  have a: "unat (pages_kva s) + 8 * unat (npages s) < 4294967296" using xs f by (simp add: good_list_def)
  obtain p q where "p \<in> set xs" "p < 7" "q \<in> set xs" "256 < q" using xs unfolding good_list_def by blast
  then have "p \<in> set (filter (\<lambda>p. p < 256) xs)" "q \<in> set (filter (\<lambda>p. \<not> p < 256) xs)" by simp_all
  then have "filter (\<lambda>p. p < 256) xs \<noteq> []" "filter (\<lambda>p. \<not> p < 256) xs \<noteq> []" by force+
  then have "0 < length (filter (\<lambda>p. p < 256) xs)" "0 < length (filter (\<lambda>p. \<not> p < 256) xs)" by simp_all
  then have "Q (0 + length (filter (\<lambda>p. p < 256) xs), 0 + length (filter (\<lambda>p. \<not> p < 256) xs)) s" by (simp add: Q)
  moreover have "count_free (2 ^ 32) (nextfree s) (page_free_list s) (0, 0) s =
      Ret (fst (0 :: nat, 0 :: nat) + length (filter (\<lambda>p. p < 256) xs), snd (0 :: nat, 0 :: nat) + length (filter (\<lambda>p. \<not> p < 256) xs)) s"
    by (rule count_free_run [OF d(8) a c g len])
  ultimately show ?thesis unfolding f(10) by (intro returnsI) simp_all
qed

lemma good_list_low_first: "good_list k (low_first lim xs) = good_list k xs"
  by (simp add: good_list_def)

lemma good_list_cong: "erase k s = k \<Longrightarrow> good_list s xs = good_list k xs"
  using erase_fields [of k s] by (simp add: good_list_def good_page_def)

lemma run_free_list_checks:
  assumes sp: "space k {} M xs D E R s" and xs: "good_list k xs" and Q: "\<And>t. space k {} M xs D E R t \<Longrightarrow> Q () t"
  shows "returns (kbind (for_free_pages (\<lambda>pp. kwhen (PDX (page2pa pp) < lim) (kbind (page2kva pp) (\<lambda>va. kmemset va 0x97 128)))) (\<lambda>_.
        kbind (kget (\<lambda>s. sym_end (image s))) (\<lambda>kend.
        kbind (boot_alloc kend 0) (\<lambda>first.
        kbind (kget page_free_list) (\<lambda>fl.
        kbind (count_free (2 ^ 32) first fl (0, 0)) (\<lambda>(nfree_basemem, nfree_extmem).
        kbind (check (nfree_basemem > 0)) (\<lambda>_.
        kbind (check (nfree_extmem > 0)) (\<lambda>_.
        kprintf (''check_page_free_list done'' @ newline) [])))))))) s Q"
proof -
  have nz: "nextfree k \<noteq> 0" using xs by (simp add: good_list_def)
  show ?thesis
    by (rule returns_bind, rule run_scribble [OF sp], rule returns_bind, rule returns_get, rule returns_bind,
      erule run_boot_alloc_0, rule nz, rule returns_bind, rule returns_get, rule returns_bind, rule run_count_free, assumption, rule xs,
      rule returns_case_prod, rule returns_bind, rule returns_prim(2), assumption, rule returns_bind, rule returns_prim(2), assumption,
      rule run_printf, assumption, erule Q)
qed

lemma run_check_page_free_list:
  assumes sp: "space k UNIV M xs D E R s" and xs: "good_list k xs"
    and Q: "\<And>t. space k UNIV M (if b then low_first 1 xs else xs) D E R t \<Longrightarrow> Q () t"
  shows "returns (check_page_free_list b) s Q"
proof -
  have ne: "page_free_list s \<noteq> None" using spaceD(9) [OF sp] xs by (cases xs) (auto simp: free_list_def good_list_def)
  show ?thesis
  proof (cases b)
    case True
    show ?thesis
      unfolding check_page_free_list_def Let_def
    proof (rule returns_bind, rule returns_get, rule returns_else [OF ne], unfold kwhen_def, simp only: True if_True, rule returns_bind, rule run_low_pages_first [OF sp])
      fix t assume t: "space k UNIV M (low_first 1 xs) D E R t"
      have g: "good_list t (low_first 1 xs)" using xs good_list_cong [OF spaceD(2) [OF t]] by (simp add: good_list_low_first)
      show "returns (kbind (for_free_pages (\<lambda>pp. if PDX (page2pa pp) < 1 then kbind (page2kva pp) (\<lambda>va. kmemset va 0x97 128) else kret ())) (\<lambda>_.
        kbind (kget (\<lambda>s. sym_end (image s))) (\<lambda>kend.
        kbind (boot_alloc kend 0) (\<lambda>first.
        kbind (kget page_free_list) (\<lambda>fl.
        kbind (count_free (2 ^ 32) first fl (0, 0)) (\<lambda>(nfree_basemem, nfree_extmem).
        kbind (check (nfree_basemem > 0)) (\<lambda>_.
        kbind (check (nfree_extmem > 0)) (\<lambda>_.
        kprintf (''check_page_free_list done'' @ newline) [])))))))) t Q"
        using run_free_list_checks [OF space_rebase [OF t] g, of Q 1] space_back [OF t] Q True unfolding kwhen_def by simp
    qed
  next
    case False
    have g: "good_list s xs" using xs good_list_cong [OF spaceD(2) [OF sp]] by simp
    show ?thesis
      unfolding check_page_free_list_def Let_def
      apply (rule returns_bind, rule returns_get, rule returns_else [OF ne])
      apply (rule returns_bind, simp add: False kwhen_def)
      apply (rule returns_prim)
      using run_free_list_checks [OF space_rebase [OF sp] g, of Q "of_nat NPDENTRIES"] space_back [OF sp] Q False unfolding kwhen_def by simp
  qed
qed

end
