(* ===== verification/Installed_Test.thy ===== *)
theory Installed_Test
  imports Alloc_Tests
begin

text \<open>
  The last self test, \<open>check_page_installed_pgdir\<close>: it reads and writes a page through the address it
  has just mapped it at, so the contents of the pages count as well as the tables.
\<close>

subsection \<open>Contents of pages\<close>

definition holds :: "kstate \<Rightarrow> nat \<Rightarrow> u8 \<Rightarrow> bool" where
  "holds s p b \<longleftrightarrow> (\<forall>x. frame x = p \<longrightarrow> pmem s x = b)"

lemma store32_frame:
  assumes "aligned 4096 b" "unat y < 1024" "frame x \<noteq> frame b"
  shows "store32 m (b + 4 * y) v x = m x"
proof -
  have n: "unat (4 * y + j) = 4 * unat y + unat j" if "unat j < 4" for j
    using that assms(2) by (subst unat_add_no_wrap) (simp_all add: unat_times4)
  have f: "frame (b + (4 * y + j)) = frame b" if "unat j < 4" for j
    unfolding frame_def using assms(1,2) that n [OF that] by (intro aligned_add_div) auto
  then have "x \<noteq> b + 4 * y + j" if "unat j < 4" for j using assms(3) f [OF that] by (metis add.assoc)
  from this [of 0] this [of 1] this [of 2] this [of 3] show ?thesis by (intro store32_other) simp_all
qed

lemma pmem_insert_at:
  assumes sp: "space k K M xs D E R s" and va: "PDX va \<noteq> PDX UVPT" "D (PDX va) AND PTE_P \<noteq> 0" and x: "frame x \<noteq> frame (D (PDX va))"
  shows "pmem (insert_at (kern_pgdir k) p va perm s) x = pmem s x"
proof -
  let ?i = "upd_page p (\<lambda>p. p\<lparr>pp_ref := pp_ref p + 1\<rparr>) s" and ?p = "kern_pgdir k"
  have pde: "pde_of s ?p va = D (PDX va)" by (rule spaceD(5) [OF sp])
  have set: "pmem (set_pte ?p va v t) x = pmem t x" if "pde_of t ?p va = D (PDX va)" for v t
    using x that by (simp add: set_pte_def store32_frame PTX_less)
  let ?d = "decref_state (frame (pte_of ?i ?p va)) ?i"
  have d: "pmem ?d = pmem s" by simp
  then have pd: "pde_of ?d ?p va = D (PDX va)" using vspace_cong(1) [OF d] pde by simp
  have "has_table ?d ?p va" using va pd by (simp add: has_table_def)
  moreover have "wf_pgdir ?d ?p" using spaceD(10) [OF sp] wf_pgdir_cong [of ?d s] by simp
  ultimately have "pde_of (remove_state ?p va ?i) ?p va = D (PDX va)"
    using pde_set_pte [of ?d ?p va 0 va] pd vspace_cong(1) [of "remove_state ?p va ?i" "set_pte ?p va 0 ?d"]
    by (simp add: remove_state_def)
  moreover have "pmem (remove_state ?p va ?i) x = pmem s x" by (simp add: remove_state_def set [OF pd])
  moreover have "pde_of ?i ?p va = D (PDX va)" using vspace_cong(1) [of ?i s] pde by simp
  ultimately show ?thesis by (simp add: insert_at_def Let_def set)
qed

lemma pmem_walk_other:
  assumes "vm_ok s pgdir (q # xs)" "frame x \<noteq> q" "frame x \<noteq> frame (pgdir - KERNBASE)"
  shows "pmem (walk_state pgdir va q s) x = pmem s x"
  using vm_ok_page_facts [OF assms(1)] assms(2,3)
  by (simp add: pmem_walk_state store32_frame PDX_less mem_set_page_same)

subsection \<open>Rules with contents\<close>

lemma run_memset_holds:
  assumes sp: "space k K M xs D E R s" and p: "loose k D p"
    and Q: "\<And>t. space k K M xs D E R t \<Longrightarrow> holds t p b \<Longrightarrow> (\<And>q c. q \<noteq> p \<Longrightarrow> holds s q c \<Longrightarrow> holds t q c) \<Longrightarrow> Q () t"
  shows "returns (kmemset (page2pa p + KERNBASE) b 4096) s Q"
proof -
  have pn: "p < 1048576" "unat (page2pa p) < 268435456"
    using space_pages [OF sp p] page2pa_low [OF spaceD(8) [OF sp], of p] by simp_all
  let ?t = "s\<lparr>pmem := mem_set (pmem s) (page2pa p) b 4096\<rparr>"
  have "kmemset (page2pa p + KERNBASE) b 4096 s = Ret () ?t" using pn(2) by (simp add: kmemset_def)
  moreover have "space k K M xs D E R ?t" by (rule space_mem_set [OF sp p]) simp
  moreover have "holds ?t p b" using pn(1) by (simp add: holds_def mem_set_page frame_def unat_page2pa)
  moreover have "holds ?t q c" if "q \<noteq> p" "holds s q c" for q c
    using that pn(1) by (simp add: holds_def mem_set_page_same)
  ultimately show ?thesis using Q [of ?t] by (simp add: returns_def)
qed

lemma run_insert_new_holds:
  assumes sp: "space k K M (q # xs) D E R s" and va: "PDX va \<noteq> PDX UVPT" "D (PDX va) AND PTE_P = 0"
    and Q: "\<And>t. space k K M xs (D(PDX va := new_table q)) (E(PGNUM va := page2pa p OR perm OR PTE_P)) (R(q := R q + 1, p := (R(q := R q + 1)) p + 1)) t \<Longrightarrow>
      (\<And>r b. r \<noteq> q \<Longrightarrow> r \<noteq> frame (kern_pgdir k - KERNBASE) \<Longrightarrow> holds s r b \<Longrightarrow> holds t r b) \<Longrightarrow> Q 0 t"
  shows "returns (page_insert (kern_pgdir k) p va perm) s Q"
proof -
  note n = insert_new_state [where perm = perm and p = p, OF sp va]
  let ?w = "walk_state (kern_pgdir k) va q s"
  have w: "space k K M xs (D(PDX va := new_table q)) E (R(q := R q + 1)) ?w" by (rule space_walk [OF sp va])
  have "q < 1048576" using vm_ok_page_facts(5) [OF spaceD(1) [OF sp]] by simp
  then have "holds (insert_at (kern_pgdir k) p va perm ?w) r b"
    if "r \<noteq> q" "r \<noteq> frame (kern_pgdir k - KERNBASE)" "holds s r b" for r b
    using that pmem_insert_at [OF w va(1), of _ p perm] pmem_walk_other [OF spaceD(1) [OF sp], of _ va]
    by (auto simp: holds_def frame_new_table)
  from n(1) Q [OF n(2) this] show ?thesis by (rule returnsI)
qed

lemma run_insert_drop_holds:
  assumes sp: "space k K M xs D E R s" and va: "PDX va \<noteq> PDX UVPT" "D (PDX va) AND PTE_P \<noteq> 0" "E (PGNUM va) AND PTE_P \<noteq> 0"
    and q: "frame (E (PGNUM va)) = q" "q < unat (npages k)" "(R(p := R p + 1)) q = 1" "q \<in> K" "loose k D q" "q \<notin> set xs"
    and Q: "\<And>t. space k K M (q # xs) D (E(PGNUM va := page2pa p OR perm OR PTE_P)) (R(p := R p + 1, q := (R(p := R p + 1)) q - 1)) t \<Longrightarrow>
      (\<And>r b. r \<noteq> frame (D (PDX va)) \<Longrightarrow> holds s r b \<Longrightarrow> holds t r b) \<Longrightarrow> Q 0 t"
  shows "returns (page_insert (kern_pgdir k) p va perm) s Q"
proof -
  have ok: "(R(p := R p + 1)) q = 1 \<Longrightarrow> q \<in> K \<and> loose k D q \<and> q \<notin> set xs" using q by simp
  note n = insert_over_state [where perm = perm and p = p, OF sp va q(1,2) refl ok]
  have n2: "space k K M (q # xs) D (E(PGNUM va := page2pa p OR perm OR PTE_P)) (R(p := R p + 1, q := (R(p := R p + 1)) q - 1))
      (insert_at (kern_pgdir k) p va perm s)"
    using n(2) q(3) by simp
  have "holds (insert_at (kern_pgdir k) p va perm s) r b" if "r \<noteq> frame (D (PDX va))" "holds s r b" for r b
    using that pmem_insert_at [OF sp va(1,2)] by (simp add: holds_def)
  from n(1) Q [OF n2 this] show ?thesis by (rule returnsI)
qed

subsection \<open>Access through the mapping\<close>

text \<open>The page \<open>p\<close> is mapped at \<open>va\<close>, for reading, and for writing when \<open>wr\<close>.\<close>

lemma space_page_at:
  assumes sp: "space k K M xs D E R s" and cr3: "cr3 k (thiscpu k) = kern_pgdir k - KERNBASE" and va: "aligned 4096 va" "PDX va \<noteq> PDX UVPT"
    and D: "D (PDX va) AND PTE_P \<noteq> 0" "wr \<longrightarrow> D (PDX va) AND PTE_W \<noteq> 0" "frame (D (PDX va)) \<noteq> p"
    and E: "E (PGNUM va) AND PTE_P \<noteq> 0" "wr \<longrightarrow> E (PGNUM va) AND PTE_W \<noteq> 0" "PTE_ADDR (E (PGNUM va)) = page2pa p"
    and p: "p < 1048576" "p \<noteq> frame (kern_pgdir k - KERNBASE)"
  shows "page_at s wr va p"
proof -
  have c: "cr3 s (thiscpu s) = kern_pgdir k - KERNBASE" using erase_fields(7,8) [OF spaceD(2) [OF sp]] cr3 by simp
  have al: "aligned 4096 (kern_pgdir k - KERNBASE)" using spaceD(10) [OF sp] by (simp add: wf_pgdir_def)
  note h = hw_is_pgdir [OF c al]
  have d: "hw_pde s va = D (PDX va)" using h(1) spaceD(5) [OF sp] by simp
  have e: "hw_pte s va = E (PGNUM va)" using h(2) [of va] spaceD(5,6) [OF sp] va(2) D(1) by simp
  have "hw_pgdir s = kern_pgdir k - KERNBASE" using PTE_ADDR_or [OF al, of 0] c by (simp add: hw_pgdir_def)
  then show ?thesis using va(1) D E p by (auto simp: page_at_def d e access_ok_def)
qed

lemma run_vload32:
  assumes at: "page_at s False va p" and b: "holds s p b"
    and Q: "Q (ucast b OR push_bit 8 (ucast b) OR push_bit 16 (ucast b) OR push_bit 24 (ucast b)) s"
  shows "returns (vload32 va) s Q"
proof -
  have pn: "p < 1048576" using at by (simp add: page_at_def)
  have f: "pmem s (page2pa p + j) = b" if "unat j < 4096" for j
  proof -
    have "frame (page2pa p + j) = p" using frame_near [OF aligned_page2pa, of "page2pa p + j" p] that pn by (simp add: frame_page2pa)
    then show ?thesis using b by (simp add: holds_def)
  qed
  have l: "vload8 (va + j) s = Ret b s" if "unat j < 4096" for j using vload8_page [OF at that] f [OF that] by simp
  from l [of 0] l [of 1] l [of 2] l [of 3] have "vload8 va s = Ret b s" "vload8 (va + 1) s = Ret b s" "vload8 (va + 2) s = Ret b s"
    "vload8 (va + 3) s = Ret b s" by simp_all
  then have "vload32 va s = Ret (ucast b OR push_bit 8 (ucast b) OR push_bit 16 (ucast b) OR push_bit 24 (ucast b)) s"
    by (simp add: vload32_def kbind_Ret kret_def)
  then show ?thesis using Q by (rule returnsI)
qed

lemma run_vstore32:
  assumes sp: "space k K M xs D E R s" and at: "page_at s True va p" and p: "loose k D p"
    and Q: "\<And>t. space k K M xs D E R t \<Longrightarrow> load32 (pmem t) (page2pa p) = v \<Longrightarrow> Q () t"
  shows "returns (vstore32 va v) s Q"
proof -
  have pn: "p < 1048576" using at by (simp add: page_at_def)
  let ?t = "s\<lparr>pmem := store32 (pmem s) (page2pa p + 0) v\<rparr>"
  have run: "vstore32 (va + 0) v s = Ret () ?t" by (rule vstore32_page(1) [OF at]) simp
  have same: "store32 (pmem s) (page2pa p + 0) v x = pmem s x" if "frame x \<noteq> p" for x
    using store32_frame [OF aligned_page2pa, of 0 x p] that pn by (simp add: frame_page2pa)
  have t: "space k K M xs D E R ?t"
  proof (rule space_memory [OF sp])
    show "store32 (pmem s) (page2pa p + 0) v a = pmem s a" if "frame a = frame (kern_pgdir k - KERNBASE)" for a
      using that p by (intro same) (auto simp: loose_def)
    show "store32 (pmem s) (page2pa p + 0) v a = pmem s a"
      if "has_table s (kern_pgdir k) va'" "frame a = frame (pde_of s (kern_pgdir k) va')" for a va'
      using that p spaceD(5) [OF sp] by (intro same) (auto simp: loose_def has_table_def)
  qed
  show ?thesis using run Q [OF t] by (simp add: returns_def)
qed

lemma run_load_page:
  assumes sp: "space k K M xs D E R s" and p: "loose k D p" and Q: "Q (load32 (pmem s) (page2pa p)) s"
  shows "returns (kload (page2pa p + KERNBASE)) s Q"
proof -
  have "unat (page2pa p) < 268435456" using space_pages [OF sp p] page2pa_low [OF spaceD(8) [OF sp], of p] by simp
  from kload_phys [OF this] Q show ?thesis by (rule returnsI)
qed

subsection \<open>The test\<close>

lemma run_check_installed:
  assumes sp: "space k UNIV M (a # b # c # xs) D E R s" and R: "R a = 0" "R b = 0" "R c = 0" and D: "D 0 AND PTE_P = 0"
    and cr3: "cr3 k (thiscpu k) = kern_pgdir k - KERNBASE"
    and Q: "\<And>t. space k UNIV M (a # c # b # xs) (D(0 := 0)) E R t \<Longrightarrow> Q () t"
  shows "returns check_page_installed_pgdir s Q"
proof -
  have dist: "a \<noteq> b" "a \<noteq> c" "b \<noteq> c" "b \<noteq> a" "c \<noteq> a" "c \<noteq> b" "a \<notin> set xs" "b \<notin> set xs" "c \<notin> set xs"
    using free_list_distinct [OF spaceD(9) [OF sp]] by auto
  have loose: "loose k D p" if "p \<in> {a, b, c} \<union> set xs" for p using that by (intro space_loose [OF sp]) auto
  then have n: "a < unat (npages k)" "b < unat (npages k)" "c < unat (npages k)"
    "a \<noteq> frame (kern_pgdir k - KERNBASE)" "b \<noteq> frame (kern_pgdir k - KERNBASE)" "c \<noteq> frame (kern_pgdir k - KERNBASE)" by (simp_all add: loose_def)
  then have n': "a < 1048576" "b < 1048576" "c < 1048576" using spaceD(13) [OF sp] by (simp_all add: mem_ok_def)
  have E: "E (PGNUM x) = 0" if "PDX x = 0" for x
    using that D by (intro space_no_table [OF sp]) simp_all
  from E [of 0] E [of "0x1000"] have E1: "E 0 = 0" "E 1 = 0" by simp_all
  have al: "aligned 4096 0x1000" by (simp add: aligned_def)
  note [simp] = dist loose n n' E E1 R D loose_upd frame_new_table al
  show ?thesis
    using sp unfolding check_page_installed_pgdir_def
    apply -
    apply (rule returns_bind, rule run_get_pgdir, assumption)
    apply (rule returns_bind, rule run_must_alloc, assumption)+
    apply (rule returns_bind, rule run_page_free, assumption, simp, simp, simp)
    apply (rule returns_bind, rule run_page2kva, assumption, simp, rule returns_bind, rule run_memset_holds, assumption, simp)
    apply (rule returns_bind, rule run_page2kva, assumption, simp, rule returns_bind, rule run_memset_holds, assumption, simp)
    apply (rule returns_bind, rule run_insert_new_holds, assumption, simp, simp)
    apply (rule returns_bind, rule run_has_refs, assumption, simp)
    apply (rule returns_bind, rule run_vload32 [where p = b and b = 1], rule space_page_at, assumption, rule cr3, (simp; fail)+)
    apply (rule returns_bind, rule returns_prim(2), simp)
    apply (rule returns_bind, rule run_insert_drop_holds, assumption, (simp; fail)+)
    apply (rule returns_bind, rule run_vload32 [where p = c and b = 2], rule space_page_at, assumption, rule cr3, (simp; fail)+)
    apply (rule returns_bind, rule returns_prim(2), simp)
    apply (rule returns_bind, rule run_has_refs, assumption, simp)
    apply (rule returns_bind, rule run_has_refs, assumption, simp)
    apply (rule returns_bind, rule run_vstore32 [where p = c], assumption, rule space_page_at, assumption, rule cr3, (simp; fail)+)
    apply (rule returns_bind, rule run_page2kva, assumption, simp, rule returns_bind, rule run_load_page, assumption, (simp; fail)+)
    apply (rule returns_bind, rule returns_prim(2), simp)
    apply (rule returns_bind, rule run_remove_drop, assumption, (simp; fail)+)
    apply (rule returns_bind run_intro | assumption | (simp; fail) | (rule Q, rule space_eq, assumption, (simp add: fun_eq_iff; fail)+))+
    done
qed

end
