(* ===== verification/Mem_Init_Run.thy ===== *)
theory Mem_Init_Run
  imports Installed_Test Kernel_Space
begin

text \<open>
  \<open>mem_init\<close> as a whole, from the size of memory in the CMOS to the last self test: on a machine that the
  boot loader leaves behind it returns, and then memory is isolated.
\<close>

subsection \<open>The machine at the start\<close>

definition detected :: "kstate \<Rightarrow> u32" where
  "detected s = npages (kstate_of (i386_detect_memory s))"

text \<open>The static variables have their initial values, the kernel image ends in the fourth megabyte at the
  latest, and there are at least 8 megabytes of memory.\<close>

definition boots :: "ksymbols \<Rightarrow> kstate \<Rightarrow> bool" where
  "boots syms s \<longleftrightarrow> nextfree s = 0 \<and> page_free_list s = None \<and> mmio_base s = MMIOBASE \<and>
     KERNBASE + EXTPHYSMEM \<le> sym_end (image s) \<and> sym_end (image s) \<le> KERNBASE + 0x300000 \<and>
     2048 \<le> unat (detected s) \<and> good_symbols syms"

text \<open>The clock chip has sixteen bits for the kilobytes above the first megabyte.\<close>

lemma nvram_read_bound: "\<exists>v c. nvram_read r s = Ret v (s\<lparr>cons := c\<rparr>) \<and> v < 65536"
proof -
  have "(ucast a OR push_bit 8 (ucast b) :: u32) < 65536" for a b :: u8
  proof -
    have "take_bit 16 (ucast a OR push_bit 8 (ucast b) :: u32) = ucast a OR push_bit 8 (ucast b)"
      by (rule bit_word_eqI) (auto simp: bit_simps dest: bit_imp_le_length)
    then have "unat (ucast a OR push_bit 8 (ucast b) :: u32) mod 65536 = unat (ucast a OR push_bit 8 (ucast b) :: u32)"
      by (simp add: take_bit_eq_mod word_unat_eq_iff unat_mod)
    then show ?thesis unfolding word_less_nat_alt by (simp add: mod_eq_self_iff_div_eq_0 div_eq_0_iff)
  qed
  then show ?thesis
    by (simp add: nvram_read_def kio_def kbind_def kret_def mc146818_read_def inb_def outb_def Let_def) blast
qed

lemma detected_le: "unat (detected s) \<le> 65536"
proof -
  obtain b c1 where r1: "nvram_read 0x15 s = Ret b (s\<lparr>cons := c1\<rparr>)" and b: "b < 65536" using nvram_read_bound by blast
  obtain e c2 where r2: "nvram_read 0x17 (s\<lparr>cons := c1, npages_basemem := b * 1024 div 4096\<rparr>) =
      Ret e (s\<lparr>cons := c1, npages_basemem := b * 1024 div 4096, cons := c2\<rparr>)" and e: "e < 65536" using nvram_read_bound by blast
  have k: "unat (x * 1024 div 4096) \<le> 16384" if "x < 65536" for x :: u32
    using that by (simp add: word_less_nat_alt unat_div unat_word_ariths)
  have "detected s = (if e * 1024 div 4096 \<noteq> 0 then 256 + e * 1024 div 4096 else b * 1024 div 4096)"
    by (simp add: detected_def i386_detect_memory_def kbind_def r1 r2 kprintf_Ret kmod_def kget_def layout Let_def)
  moreover have "unat (256 + x) \<le> 65536" if "unat x \<le> 16384" for x :: u32 using that by (subst unat_add_no_wrap) simp_all
  ultimately show ?thesis using k [OF b] k [OF e] by simp
qed

lemma i386_detect_memory_run:
  "\<exists>c nb. i386_detect_memory s = Ret () (s\<lparr>npages_basemem := nb, npages := detected s, cons := c\<rparr>)"
proof -
  have "\<exists>c nb np. i386_detect_memory s = Ret () (s\<lparr>npages_basemem := nb, npages := np, cons := c\<rparr>)"
    by (simp add: i386_detect_memory_def nvram_read_def kio_def kbind_def kret_def kmod_def kget_def kprintf_Ret Let_def split: prod.split) blast
  then obtain c nb np where r: "i386_detect_memory s = Ret () (s\<lparr>npages_basemem := nb, npages := np, cons := c\<rparr>)" by blast
  then have "detected s = np" by (simp add: detected_def)
  with r show ?thesis by blast
qed

subsection \<open>The arrays of the kernel\<close>

lemma boot_alloc_run:
  "n \<noteq> 0 \<Longrightarrow> \<exists>c. boot_alloc kend n s =
     Ret (if nextfree s = 0 then ROUNDUP kend PGSIZE else nextfree s)
       (s\<lparr>cons := c, nextfree := ROUNDUP ((if nextfree s = 0 then ROUNDUP kend PGSIZE else nextfree s) + n) PGSIZE\<rparr>)"
  by (cases "nextfree s = 0") (simp_all add: boot_alloc_def kret_def, blast+)

text \<open>The directory is at \<open>e0\<close>, the array of pages behind it, the array of environments at \<open>e1\<close>.\<close>

definition arrays_at :: "u32 \<Rightarrow> u32" where
  "arrays_at kend = ROUNDUP kend PGSIZE"

definition envs_at :: "u32 \<Rightarrow> u32 \<Rightarrow> u32" where
  "envs_at kend np = ROUNDUP (arrays_at kend + PGSIZE + sizeof_PageInfo * np) PGSIZE"

lemma ROUNDUP_aligned:
  assumes "aligned 4096 x" "unat x + 4096 \<le> 4294967296"
  shows "ROUNDUP x PGSIZE = x"
proof -
  note r = unat_ROUNDUP [OF assms(2)]
  have "unat (ROUNDUP x PGSIZE) div 4096 = unat x div 4096"
    using assms(1) r unfolding aligned_def by (elim dvdE) simp
  then show ?thesis using r(3) assms(1) by (simp add: word_unat_eq_iff aligned_def dvd_div_eq_iff)
qed

lemma array_addresses:
  assumes "KERNBASE + EXTPHYSMEM \<le> kend" "kend \<le> KERNBASE + 0x300000" "unat np \<le> 65536"
  shows "aligned 4096 (arrays_at kend)" "aligned 4096 (envs_at kend np)"
    "0xF0100000 \<le> unat (arrays_at kend)" "unat (arrays_at kend) \<le> 0xF0300FFF"
    "unat (arrays_at kend) + 4096 + 8 * unat np \<le> unat (envs_at kend np)" "unat (envs_at kend np) \<le> unat (arrays_at kend) + 8191 + 8 * unat np"
    "ROUNDUP (arrays_at kend + PGSIZE) PGSIZE = arrays_at kend + PGSIZE"
    "ROUNDUP (envs_at kend np + 131072) PGSIZE = envs_at kend np + 131072" "unat (envs_at kend np + 131072) = unat (envs_at kend np) + 131072"
proof -
  have k: "0xF0100000 \<le> unat kend" "unat kend \<le> 0xF0300000" using assms(1,2) by (simp_all add: word_le_nat_alt layout)
  then have e0: "unat kend \<le> unat (arrays_at kend)" "unat (arrays_at kend) < unat kend + 4096" "aligned 4096 (arrays_at kend)"
    unfolding arrays_at_def by (intro unat_ROUNDUP; simp)+
  have n: "unat (sizeof_PageInfo * np) = 8 * unat np" using assms(3) by (simp add: unat_word_ariths)
  have p: "unat (arrays_at kend + PGSIZE) = unat (arrays_at kend) + 4096" using e0 k by (subst unat_add_no_wrap) simp_all
  then have q: "unat (arrays_at kend + PGSIZE + sizeof_PageInfo * np) = unat (arrays_at kend) + 4096 + 8 * unat np"
    using e0 k n assms(3) by (subst unat_add_no_wrap) simp_all
  have e1: "unat (arrays_at kend) + 4096 + 8 * unat np \<le> unat (envs_at kend np)" "unat (envs_at kend np) < unat (arrays_at kend) + 4096 + 8 * unat np + 4096"
      "aligned 4096 (envs_at kend np)"
    unfolding envs_at_def q [symmetric] by (intro unat_ROUNDUP; use q e0 k assms(3) in simp)+
  show "aligned 4096 (arrays_at kend)" "aligned 4096 (envs_at kend np)"
    "0xF0100000 \<le> unat (arrays_at kend)" "unat (arrays_at kend) \<le> 0xF0300FFF"
    "unat (arrays_at kend) + 4096 + 8 * unat np \<le> unat (envs_at kend np)" "unat (envs_at kend np) \<le> unat (arrays_at kend) + 8191 + 8 * unat np"
    using e0 e1 k by simp_all
  have al: "aligned 4096 (arrays_at kend + PGSIZE)" "aligned 4096 (envs_at kend np + 131072)"
    using e0(3) e1(3) by (auto intro!: aligned_plus) (simp_all add: aligned_def)
  show "ROUNDUP (arrays_at kend + PGSIZE) PGSIZE = arrays_at kend + PGSIZE" by (rule ROUNDUP_aligned [OF al(1)]) (use p e0 k in simp)
  show e2: "unat (envs_at kend np + 131072) = unat (envs_at kend np) + 131072" using e0 e1 k assms(3) by (subst unat_add_no_wrap) simp_all
  show "ROUNDUP (envs_at kend np + 131072) PGSIZE = envs_at kend np + 131072"
    by (rule ROUNDUP_aligned [OF al(2)]) (use e2 e0 e1 k assms(3) in simp)
qed

text \<open>The first page after the arrays.\<close>

definition first_free :: "u32 \<Rightarrow> u32 \<Rightarrow> nat" where
  "first_free kend np = (unat (envs_at kend np) + 131072 - 4026531840) div 4096"

lemma page_init_med_envs:
  assumes "KERNBASE + EXTPHYSMEM \<le> kend" "kend \<le> KERNBASE + 0x300000" "unat np \<le> 65536"
  shows "unat (page_init_med (envs_at kend np)) = first_free kend np"
    and "4096 * first_free kend np + 4026531840 = unat (envs_at kend np) + 131072"
    and "frame (arrays_at kend - KERNBASE) < first_free kend np" "256 \<le> frame (arrays_at kend - KERNBASE)" "first_free kend np \<le> 932"
proof -
  note a = array_addresses [OF assms]
  let ?e = "envs_at kend np"
  have "unat (?e + 131072 - 0xf0000000) = unat ?e + 131072 - 4026531840"
    using a by (subst unat_sub) (simp_all add: word_le_nat_alt)
  moreover have al: "aligned 4096 (?e + 131072 - 0xf0000000)"
  proof -
    have "aligned 4096 (?e + 131072)" using a(2) by (intro aligned_plus) (simp_all add: aligned_def)
    moreover have "0xf0000000 \<le> ?e + 131072" using a by (simp add: word_le_nat_alt)
    ultimately show ?thesis by (intro aligned_diff) (simp_all add: aligned_def)
  qed
  ultimately have r: "ROUNDUP (?e + 131072 - 0xf0000000) PGSIZE = ?e + 131072 - 0xf0000000"
      "unat (ROUNDUP (?e + 131072 - 0xf0000000) PGSIZE) = unat ?e + 131072 - 4026531840"
    using a(9) ROUNDUP_aligned [OF al] unat_lt_u32 [of "?e + 131072"] by auto
  have sd: "int n sdiv 4096 = int (n div 4096)" for n :: nat by (cases "n = 0") (simp_all add: signed_divide_int_def zdiv_int)
  have small: "unat ?e + 131072 - 4026531840 < 2147483648" using a assms(3) by linarith
  have "page_init_med ?e = word_of_int (int (unat ?e + 131072 - 4026531840) sdiv 4096)"
    unfolding page_init_med_def using r(2) small by (simp add: sint_u32)
  also have "int (unat ?e + 131072 - 4026531840) sdiv 4096 = int (first_free kend np)"
    unfolding sd first_free_def ..
  finally have "page_init_med ?e = of_nat (first_free kend np)" by simp
  moreover have "first_free kend np < 4294967296" using small by (simp add: first_free_def)
  ultimately show "unat (page_init_med ?e) = first_free kend np" by (simp add: unat_of_nat_u32)
  have "4096 dvd unat ?e + 131072 - 4026531840" using a(2,3,5) by (intro dvd_diff_nat dvd_add) (simp_all add: aligned_def)
  then have d: "4096 * first_free kend np = unat ?e + 131072 - 4026531840" by (simp add: first_free_def)
  then show "4096 * first_free kend np + 4026531840 = unat ?e + 131072" using a by linarith
  have f: "unat (arrays_at kend - KERNBASE) = unat (arrays_at kend) - 4026531840"
    using a by (subst unat_sub) (simp_all add: word_le_nat_alt layout)
  show "256 \<le> frame (arrays_at kend - KERNBASE)" using a f by (simp add: frame_def less_eq_div_iff_mult_less_eq)
  have "unat (arrays_at kend) - 4026531840 < 4096 * first_free kend np" using a d by linarith
  then show "frame (arrays_at kend - KERNBASE) < first_free kend np" unfolding frame_def f by (simp add: less_mult_imp_div_less mult.commute)
  have "4096 * first_free kend np \<le> 3149823 + 8191 + 8 * 65536 + 131072" using a d assms(3) by linarith
  then show "first_free kend np \<le> 932" by linarith
qed

lemma fold_page_init_fields:
  "pmem (fold page_init_one is s) = pmem s" "mmio_base (fold page_init_one is s) = mmio_base s"
  "erase k (fold page_init_one is s) = erase k s"
proof -
  show "pmem (fold page_init_one is s) = pmem s" by (induction "is" arbitrary: s) (simp_all add: page_init_one_def)
  show "mmio_base (fold page_init_one is s) = mmio_base s"
    by (induction "is" arbitrary: s) (simp_all add: page_init_one_def upd_page_def)
  show "erase k (fold page_init_one is s) = erase k s" by (induction "is" arbitrary: s) (simp_all add: page_init_one_def)
qed

lemma fold_page_init_refs:
  "pp_ref (pages (fold page_init_one is s) i) = (if i \<in> set is then 0 else pp_ref (pages s i))"
  by (induction "is" arbitrary: s) (simp_all add: page_init_one_def)

text \<open>The list that \<open>page_init\<close> makes when the first page after the arrays is \<open>med\<close>.\<close>

definition initial_list :: "nat \<Rightarrow> nat \<Rightarrow> nat list" where
  "initial_list med np = rev [med..<np] @ rev [1..<7]"

lemma page_init_run:
  assumes "page_free_list s = None" "7 \<le> unat (page_init_med (envs_kva s))" "7 \<le> unat (npages s)"
  shows "\<exists>t. page_init s = Ret () t \<and> free_list t (initial_list (unat (page_init_med (envs_kva s))) (unat (npages s))) \<and>
    pmem t = pmem s \<and> mmio_base t = mmio_base s \<and> erase s t = s \<and>
    (\<forall>i \<in> set (initial_list (unat (page_init_med (envs_kva s))) (unat (npages s))). pp_ref (pages t i) = 0)"
proof -
  let ?med = "unat (page_init_med (envs_kva s))" and ?np = "unat (npages s)"
  have mp: "unat (MPENTRY_PADDR div PGSIZE) = 7" by (simp add: layout)
  obtain c1 c2 where run: "page_init s = Ret () (fold page_init_one [?med..<?np]
      ((fold page_init_one [1..<7] (s\<lparr>cons := c1\<rparr>))\<lparr>cons := c2\<rparr>))"
    by (simp add: page_init_def mp page_init_loop_fold kmod_def)
  let ?u = "fold page_init_one [?med..<?np] ((fold page_init_one [1..<7] (s\<lparr>cons := c1\<rparr>))\<lparr>cons := c2\<rparr>)"
  have "free_list ?u (initial_list ?med ?np)"
    using page_init_free_list [OF assms] run by (simp add: initial_list_def)
  moreover have "erase s s = s" by (simp add: erase_def)
  moreover have "\<forall>i \<in> set (initial_list ?med ?np). pp_ref (pages ?u i) = 0"
    by (auto simp: initial_list_def fold_page_init_refs simp del: upt_rec_numeral)
  ultimately show ?thesis using run
    by (intro exI [of _ ?u]) (simp add: fold_page_init_fields del: upt_rec_numeral)
qed

lemma good_initial_list:
  assumes "KERNBASE + EXTPHYSMEM \<le> sym_end (image k)" "sym_end (image k) \<le> KERNBASE + 0x300000" "2048 \<le> unat (npages k)" "unat (npages k) \<le> 65536"
    and "pages_kva k = arrays_at (sym_end (image k)) + PGSIZE" "nextfree k = envs_at (sym_end (image k)) (npages k) + 131072"
  shows "good_list k (initial_list (first_free (sym_end (image k)) (npages k)) (unat (npages k)))"
proof -
  let ?kend = "sym_end (image k)" and ?np = "unat (npages k)"
  let ?f = "first_free ?kend (npages k)"
  note a = array_addresses [OF assms(1,2,4)] and f = page_init_med_envs [OF assms(1,2,4)]
  have "unat (pages_kva k) = unat (arrays_at ?kend) + 4096" unfolding assms(5) using a by (subst unat_add_no_wrap) simp_all
  then have 1: "unat (pages_kva k) + 8 * ?np < 4294967296" using a assms(4) by linarith
  have nf: "unat (nextfree k) = 4096 * ?f + 4026531840" using f(2) a(9) by (simp add: assms(6))
  then have 2: "nextfree k \<noteq> 0" by auto
  have 3: "good_page k p" if "p \<in> set (initial_list ?f ?np)" for p
  proof (cases "?f \<le> p")
    case True
    then have p: "p < ?np" "256 < p" using that f(3,4) assms(3) by (auto simp: initial_list_def simp del: upt_rec_numeral)
    then have "unat (page2pa p + KERNBASE) = 4096 * p + 4026531840" using assms(4) by (simp add: unat_kva unat_page2pa)
    then have "nextfree k \<le> page2pa p + KERNBASE" using nf True by (simp add: word_le_nat_alt)
    with p show ?thesis by (simp add: good_page_def)
  next
    case False
    then show ?thesis using that assms(3) by (auto simp: initial_list_def good_page_def simp del: upt_rec_numeral)
  qed
  have "6 \<in> set (initial_list ?f ?np)" "?np - 1 \<in> set (initial_list ?f ?np)" "256 < ?np - 1"
    using f(5) assms(3) by (auto simp: initial_list_def simp del: upt_rec_numeral)
  then have "\<exists>p \<in> set (initial_list ?f ?np). p < 7" "\<exists>p \<in> set (initial_list ?f ?np). 256 < p" by force+
  with 1 2 3 show ?thesis unfolding good_list_def by blast
qed

text \<open>The directory has one entry, its own.\<close>

definition boot_pgdir :: "u32 \<Rightarrow> u32 \<Rightarrow> u32" where
  "boot_pgdir kpd d = (if d = PDX UVPT then (kpd - KERNBASE) OR PTE_U OR PTE_P else 0)"

lemma run_arrays_rest:
  assumes "nextfree x = kpd + PGSIZE" "kpd + PGSIZE \<noteq> 0" "sizeof_PageInfo * npages x \<noteq> 0"
    and e: "ROUNDUP (kpd + PGSIZE + sizeof_PageInfo * npages x) PGSIZE = e" "e \<noteq> 0" "ROUNDUP (e + 131072) PGSIZE = e + 131072"
  shows "\<exists>c. kbind (kget npages) (\<lambda>np.
     kbind (boot_alloc kend (sizeof_PageInfo * np)) (\<lambda>p.
     kbind (kmod (\<lambda>s. s\<lparr>pages_kva := p\<rparr>)) (\<lambda>_.
     kbind (kprintf (''npages: %d'' @ newline) [Word32 np]) (\<lambda>_.
     kbind (kget npages_basemem) (\<lambda>nb.
     kbind (kprintf (''npages_basemem: %d'' @ newline) [Word32 nb]) (\<lambda>_.
     kbind (kprintf (''pages: %x'' @ newline) [Word32 p]) (\<lambda>_.
     kbind (boot_alloc kend (sizeof_Env * of_nat NENV)) (\<lambda>e.
     kbind (kmod (\<lambda>s. s\<lparr>envs_kva := e\<rparr>)) (\<lambda>_.
     page_init))))))))) x =
   page_init (x\<lparr>nextfree := e + 131072, pages_kva := kpd + PGSIZE, envs_kva := e, cons := c\<rparr>)"
proof -
  obtain c1 where "boot_alloc kend (sizeof_PageInfo * npages x) x = Ret (kpd + PGSIZE) (x\<lparr>cons := c1, nextfree := e\<rparr>)"
    using boot_alloc_run [OF assms(3), of kend x] assms by auto
  then have r1: "kbind (boot_alloc kend (sizeof_PageInfo * npages x)) f x = f (kpd + PGSIZE) (x\<lparr>cons := c1, nextfree := e\<rparr>)" for f
    by (simp add: kbind_def)
  let ?y = "\<lambda>c. x\<lparr>nextfree := e, pages_kva := kpd + PGSIZE, cons := c\<rparr>"
  have y1: "(x\<lparr>cons := c1, nextfree := e\<rparr>)\<lparr>pages_kva := kpd + PGSIZE\<rparr> = ?y c1" by simp
  have y2: "(?y c)\<lparr>cons := c'\<rparr> = ?y c'" for c c' by simp
  have "\<exists>c. boot_alloc kend (sizeof_Env * of_nat NENV) (?y c') = Ret e ((?y c')\<lparr>cons := c, nextfree := e + 131072\<rparr>)" for c'
    using boot_alloc_run [of "sizeof_Env * of_nat NENV" kend "?y c'"] e by auto
  then obtain f where "boot_alloc kend (sizeof_Env * of_nat NENV) (?y c') = Ret e ((?y c')\<lparr>cons := f c', nextfree := e + 131072\<rparr>)" for c'
    by metis
  then have r2: "kbind (boot_alloc kend (sizeof_Env * of_nat NENV)) g (?y c') =
      g e ((?y c')\<lparr>cons := f c', nextfree := e + 131072\<rparr>)" for c' g
    by (simp add: kbind_def)
  have y3: "(?y c)\<lparr>nextfree := e + 131072\<rparr>\<lparr>envs_kva := e\<rparr> =
      x\<lparr>nextfree := e + 131072, pages_kva := kpd + PGSIZE, envs_kva := e, cons := c\<rparr>" for c by simp
  show ?thesis
    unfolding kbind_prim r1 y1 kbind_kprintf y2 r2 y3 by (rule exI) (rule refl)
qed

lemma run_mem_init_arrays:
  assumes "boots syms s"
  shows "\<exists>t R. mem_init_arrays s = Ret () t \<and>
    space t UNIV MMIOBASE (initial_list (first_free (sym_end (image t)) (npages t)) (unat (npages t))) (boot_pgdir (kern_pgdir t)) (\<lambda>_. 0) R t \<and>
    (\<forall>i \<in> set (initial_list (first_free (sym_end (image t)) (npages t)) (unat (npages t))). R i = 0) \<and>
    kern_pgdir t = arrays_at (sym_end (image t)) \<and> pages_kva t = arrays_at (sym_end (image t)) + PGSIZE \<and>
    envs_kva t = envs_at (sym_end (image t)) (npages t) \<and> nextfree t = envs_at (sym_end (image t)) (npages t) + 131072 \<and>
    image t = image s \<and> npages t = detected s \<and> envs t = envs s"
proof -
  note b = assms [unfolded boots_def]
  let ?kend = "sym_end (image s)" and ?np = "detected s"
  have b1: "KERNBASE + EXTPHYSMEM \<le> ?kend" "?kend \<le> KERNBASE + 0x300000" "unat ?np \<le> 65536" "2048 \<le> unat ?np" using b detected_le [of s] by simp_all
  note a = array_addresses [OF b1(1-3)] and f = page_init_med_envs [OF b1(1-3)]
  let ?kpd = "arrays_at ?kend"
  let ?m = "store32 (mem_set (pmem s) (?kpd - KERNBASE) 0 4096) (?kpd - KERNBASE + 4 * PDX UVPT) ((?kpd - KERNBASE) OR PTE_U OR PTE_P)"
  have nz: "?kpd \<noteq> 0" "?kpd + PGSIZE \<noteq> 0" "envs_at ?kend ?np \<noteq> 0" using a by (auto simp flip: unat_eq_0 simp: unat_add_no_wrap)
  have kb: "\<not> ?kpd < KERNBASE" using a by (simp add: word_less_nat_alt layout)
  have low: "unat (?kpd - KERNBASE + 4 * PDX UVPT) < 268435456" "unat (?kpd - KERNBASE) < 65536 * 4096"
  proof -
    have "unat (?kpd - KERNBASE) = unat ?kpd - 4026531840" using a by (subst unat_sub) (simp_all add: word_le_nat_alt layout)
    then show "unat (?kpd - KERNBASE + 4 * PDX UVPT) < 268435456" "unat (?kpd - KERNBASE) < 65536 * 4096"
      using a by (auto simp: unat_add_no_wrap)
  qed
  obtain c0 nb where d: "i386_detect_memory s = Ret () (s\<lparr>npages_basemem := nb, npages := ?np, cons := c0\<rparr>)"
    using i386_detect_memory_run [of s] by blast
  let ?d = "s\<lparr>npages_basemem := nb, npages := ?np, cons := c0\<rparr>"
  let ?d = "s\<lparr>npages_basemem := nb, npages := ?np, cons := c0\<rparr>"
  have d: "kbind i386_detect_memory f s = f () ?d" for f using d by (simp add: kbind_def)
  obtain c1 where "boot_alloc ?kend PGSIZE ?d = Ret ?kpd (?d\<lparr>cons := c1, nextfree := ?kpd + PGSIZE\<rparr>)"
    using boot_alloc_run [of PGSIZE ?kend ?d] b a(7) by (auto simp: arrays_at_def)
  then have r1: "kbind (boot_alloc ?kend PGSIZE) f ?d = f ?kpd (?d\<lparr>cons := c1, nextfree := ?kpd + PGSIZE\<rparr>)" for f by (simp add: kbind_def)
  let ?x = "?d\<lparr>cons := c1, nextfree := ?kpd + PGSIZE, kern_pgdir := ?kpd\<rparr>"
  have ms: "kbind (kmemset ?kpd 0 4096) f ?x = f () (?x\<lparr>pmem := mem_set (pmem s) (?kpd - KERNBASE) 0 4096\<rparr>)" for f
    using kb by (simp add: kmemset_def kbind_def kmod_def)
  have pa: "kbind (PADDR ?kpd) f (?x\<lparr>pmem := p\<rparr>) = f (?kpd - KERNBASE) (?x\<lparr>pmem := p\<rparr>)" for p f
    using kb by (simp add: PADDR_def kbind_def)
  have st: "kbind (kstore (?kpd + 4 * PDX UVPT) v) f (?x\<lparr>pmem := p\<rparr>) = f () (?x\<lparr>pmem := store32 p (?kpd - KERNBASE + 4 * PDX UVPT) v\<rparr>)" for v p f
    unfolding pgdir_slot [of ?kpd] kbind_def by (subst kstore_phys [OF low(1)]) simp
  let ?y = "?x\<lparr>pmem := ?m\<rparr>"
  have np: "sizeof_PageInfo * ?np \<noteq> 0" using b1 by (simp add: word_unat_eq_iff unat_word_ariths)
  have im: "sym_end (image ?d) = ?kend" by simp
  obtain c where z: "mem_init_arrays s = page_init (?y\<lparr>nextfree := envs_at ?kend ?np + 131072, pages_kva := ?kpd + PGSIZE, envs_kva := envs_at ?kend ?np, cons := c\<rparr>)"
    using run_arrays_rest [of ?y ?kpd "envs_at ?kend ?np" ?kend] nz np a(8)
    unfolding mem_init_arrays_def d kbind_prim im r1 ms pa st by (auto simp: envs_at_def)
  let ?z = "?y\<lparr>nextfree := envs_at ?kend ?np + 131072, pages_kva := ?kpd + PGSIZE, envs_kva := envs_at ?kend ?np, cons := c\<rparr>"
  let ?L = "initial_list (first_free ?kend ?np) (unat ?np)"
  have "\<exists>t. page_init ?z = Ret () t \<and> free_list t ?L \<and> pmem t = pmem ?z \<and> mmio_base t = mmio_base ?z \<and> erase ?z t = ?z \<and>
      (\<forall>i \<in> set ?L. pp_ref (pages t i) = 0)"
    using page_init_run [of ?z] b b1 f by simp
  then obtain t where t: "page_init ?z = Ret () t" "free_list t ?L" "pmem t = ?m" "mmio_base t = MMIOBASE" "erase ?z t = ?z"
    "\<forall>i \<in> set ?L. pp_ref (pages t i) = 0"
    using b by auto
  note e = erase_fields [OF t(5), simplified]
  have kt: "kern_pgdir t = ?kpd" using e by simp
  have a4: "aligned 4096 (?kpd - KERNBASE)" using a(1) kb by (intro aligned_diff) (simp_all add: aligned_def layout)
  have uv: "unat (PDX UVPT) < 1024" by simp
  have pde: "pde_of t ?kpd x = boot_pgdir ?kpd (PDX x)" for x
    unfolding pde_of_def t(3) load_store_slot [OF a4 uv a4 PDX_less] load_cleared_slot [OF a4 a4 PDX_less] by (simp add: boot_pgdir_def)
  have "space t UNIV MMIOBASE ?L (boot_pgdir (kern_pgdir t)) (\<lambda>_. 0) (\<lambda>i. pp_ref (pages t i)) t"
  proof (rule spaceI)
    have no: "PDX x \<noteq> PDX UVPT \<Longrightarrow> pde_of t ?kpd x = 0" for x using pde [of x] by (auto simp: boot_pgdir_def)
    then have ht: "\<not> has_table t ?kpd x" for x by (cases "PDX x = PDX UVPT") (simp_all add: has_table_def)
    have "wf_pgdir t ?kpd" unfolding wf_pgdir_def using ht a4 f b1 e by (simp del: PDX_less)
    moreover have "frame (?kpd - KERNBASE) \<notin> set ?L" using f by (auto simp: initial_list_def simp del: upt_rec_numeral)
    ultimately show "vm_ok t (kern_pgdir t) ?L" unfolding vm_ok_def tables_not_free_def kt using ht t(2) e b1 by (simp add: mem_ok_def)
    show "PDX x \<noteq> PDX UVPT \<Longrightarrow> pte_of t (kern_pgdir t) x = 0" for x unfolding kt by (simp add: pte_of_def no)
  qed (use pde kt t in \<open>simp_all add: erase_def\<close>)
  moreover have "mem_init_arrays s = Ret () t" using z t(1) by simp
  ultimately show ?thesis using t(6) e by (intro exI [of _ t] exI [of _ "\<lambda>i. pp_ref (pages t i)"]) simp
qed

subsection \<open>The tests of the allocator\<close>

lemma first_table_page: "p < 65536 \<Longrightarrow> PDX (page2pa p) = 0 \<longleftrightarrow> p < 1024"
  by (simp add: word_unat_eq_iff unat_PDX unat_page2pa div_eq_0_iff)

text \<open>The second half of the list, without the pages from \<open>med\<close> to 1023.\<close>

definition high_part :: "nat \<Rightarrow> nat list" where
  "high_part np = rev [1..<7] @ rev [1024..<np]"

lemma low_first_initial_list:
  assumes "med \<le> 1020" "2048 \<le> np" "np \<le> 65536"
  shows "low_first 1 (initial_list med np) = 1023 # 1022 # 1021 # rev [med..<1021] @ high_part np"
proof -
  have b: "filter (below 1) xs = filter (\<lambda>p. p < 1024) xs" "filter (\<lambda>p. \<not> below 1 p) xs = filter (\<lambda>p. \<not> p < 1024) xs" if "set xs \<subseteq> {..<65536}" for xs
    using that by (auto intro!: filter_cong simp: first_table_page subset_iff)
  have s: "set (initial_list med np) \<subseteq> {..<65536}" using assms by (auto simp: initial_list_def simp del: upt_rec_numeral)
  have up: "[med..<np] = [med..<1021] @ [1021, 1022, 1023] @ [1024..<np]"
  proof -
    have "[med..<np] = [med..<1024] @ [1024..<np]" using upt_add_eq_append [of med 1024 "np - 1024"] assms by simp
    moreover have "[med..<1024] = [med..<1021] @ [1021..<1024]" using upt_add_eq_append [of med 1021 3] assms by simp
    ultimately show ?thesis by (simp add: upt_rec)
  qed
  have f: "filter (\<lambda>p. p < 1024) [1024..<np] = []" "filter (\<lambda>p. \<not> p < 1024) [1024..<np] = [1024..<np]"
      "filter (\<lambda>p. p < 1024) [med..<1021] = [med..<1021]" "filter (\<lambda>p. \<not> p < 1024) [med..<1021] = []"
      "filter (\<lambda>p. p < 1024) [1..<7] = [1..<7]" "filter (\<lambda>p. \<not> p < 1024) [1..<7] = []"
    by (auto simp: filter_empty_conv filter_id_conv simp del: upt_rec_numeral)
  show ?thesis
    unfolding low_first_def b [OF s] unfolding initial_list_def up high_part_def rev_append filter_append rev_filter [symmetric] f by simp
qed

text \<open>When the mappings begin there are pages for the tables, \<open>A\<close>, and pages that stay free, \<open>B\<close>.\<close>

definition mapping_ready :: "ksymbols \<Rightarrow> kstate \<Rightarrow> nat list \<Rightarrow> nat list \<Rightarrow> bool" where
  "mapping_ready syms s A B \<longleftrightarrow> mem_ready syms s (A @ B) \<and> KERNBASE \<le> kern_pgdir s \<and> 67 \<le> length A \<and> good_list s B \<and> good_list s (A @ B) \<and>
     3 \<le> length B \<and> (\<forall>i \<in> set (A @ B). pp_ref (pages s i) = 0)"

lemma good_list_sub:
  assumes "good_list k xs" "good_list k zs" "set zs \<subseteq> set ys" "set ys \<subseteq> set xs"
  shows "good_list k ys"
  using assms unfolding good_list_def by blast

lemma run_tests_before:
  assumes b: "boots syms s"
    and Q: "\<And>t A B. mapping_ready syms t A B \<Longrightarrow> envs t = envs s \<Longrightarrow> Q () t"
  shows "returns (kbind mem_init_arrays (\<lambda>_. kbind (check_page_free_list True) (\<lambda>_. kbind check_page_alloc (\<lambda>_. check_page)))) s Q"
proof -
  obtain k R where k: "mem_init_arrays s = Ret () k"
    and sp: "space k UNIV MMIOBASE (initial_list (first_free (sym_end (image k)) (npages k)) (unat (npages k))) (boot_pgdir (kern_pgdir k)) (\<lambda>_. 0) R k"
    and R: "\<forall>i \<in> set (initial_list (first_free (sym_end (image k)) (npages k)) (unat (npages k))). R i = 0"
    and f: "kern_pgdir k = arrays_at (sym_end (image k))" "pages_kva k = arrays_at (sym_end (image k)) + PGSIZE"
      "envs_kva k = envs_at (sym_end (image k)) (npages k)" "nextfree k = envs_at (sym_end (image k)) (npages k) + 131072"
      "image k = image s" "npages k = detected s" "envs k = envs s"
    using run_mem_init_arrays [OF b] by blast
  let ?kend = "sym_end (image k)" and ?np = "unat (npages k)"
  let ?L = "initial_list (first_free ?kend (npages k)) ?np" and ?A = "rev [first_free ?kend (npages k)..<1021]" and ?B = "high_part ?np"
  have e: "KERNBASE + EXTPHYSMEM \<le> ?kend" "?kend \<le> KERNBASE + 0x300000" "2048 \<le> ?np" "?np \<le> 65536" "good_symbols syms"
    using b detected_le [of s] unfolding boots_def f(5,6) by blast+
  note a = array_addresses [OF e(1,2,4)] and p = page_init_med_envs [OF e(1,2,4)]
  have L: "low_first 1 ?L = 1023 # 1022 # 1021 # ?A @ ?B" using low_first_initial_list [of "first_free ?kend (npages k)" ?np] p(5) e(3,4) by simp
  have gL: "good_list k ?L" by (rule good_initial_list [OF e(1-4) f(2,4)])
  have sL: "set (1023 # 1022 # 1021 # ?A @ ?B) = set ?L" unfolding L [symmetric] by simp
  have "6 \<in> set ?B" "?np - 1 \<in> set ?B" "256 < ?np - 1" using e(3) by (auto simp: high_part_def simp del: upt_rec_numeral)
  then have "\<exists>p \<in> set ?B. p < 7" "\<exists>p \<in> set ?B. 256 < p" by force+
  moreover have sub: "set ?B \<subseteq> set ?L" "set (1022 # 1023 # ?A @ ?B) \<subseteq> set ?L" unfolding sL [symmetric] by auto
  ultimately have gB: "good_list k ?B" using gL unfolding good_list_def by blast
  have gA: "good_list k (1022 # 1023 # ?A @ ?B)" by (rule good_list_sub [OF gL gB _ sub(2)]) auto
  have kd: "KERNBASE \<le> arrays_at ?kend" using a by (simp add: word_le_nat_alt layout)
  have kb: "KERNBASE \<le> arrays_at ?kend + PGSIZE" "KERNBASE \<le> envs_at ?kend (npages k)" "aligned 4096 (arrays_at ?kend + PGSIZE)" "arrays_at ?kend + PGSIZE \<noteq> 0"
  proof -
    have "unat (arrays_at ?kend + PGSIZE) = unat (arrays_at ?kend) + 4096" using a by (subst unat_add_no_wrap) simp_all
    then show "KERNBASE \<le> arrays_at ?kend + PGSIZE" "arrays_at ?kend + PGSIZE \<noteq> 0"
      using a by (auto simp: word_le_nat_alt word_unat_eq_iff layout)
    show "KERNBASE \<le> envs_at ?kend (npages k)" using a by (simp add: word_le_nat_alt layout)
    show "aligned 4096 (arrays_at ?kend + PGSIZE)" using a(1) by (intro aligned_plus) (simp_all add: aligned_def)
  qed
  have P: "boot_pgdir x 0 AND PTE_P = 0" "boot_pgdir x 1 AND PTE_P = 0" "boot_pgdir x 958 AND PTE_P = 0" for x by (simp_all add: boot_pgdir_def)
  show ?thesis
  proof (rule returns_bind, rule returnsI, rule k, rule returns_bind, rule run_check_page_free_list [OF sp gL])
    fix u assume "space k UNIV MMIOBASE (if True then low_first 1 ?L else ?L) (boot_pgdir (kern_pgdir k)) (\<lambda>_. 0) R u"
    then have u: "space k UNIV MMIOBASE (1023 # 1022 # 1021 # ?A @ ?B) (boot_pgdir (kern_pgdir k)) (\<lambda>_. 0) R u" by (simp only: L if_True)
    note fu = erase_fields [OF spaceD(2) [OF u]]
    show "returns (kbind check_page_alloc (\<lambda>_. check_page)) u Q"
    proof (rule returns_bind, rule run_check_page_alloc [OF space_rebase [OF u]])
      show "pages_kva u \<noteq> 0" unfolding fu(3) f(2) using kb(4) .
      fix v assume v: "space u {1023, 1022, 1021} MMIOBASE (1023 # 1022 # 1021 # ?A @ ?B) (boot_pgdir (kern_pgdir k)) (\<lambda>_. 0) R v"
      show "returns check_page v Q"
      proof (rule run_check_page [OF v])
        have R0: "R p = 0" if "p \<in> set (1023 # 1022 # 1021 # ?A @ ?B)" for p using R that unfolding sL by blast
        show "R 1023 = 0" "R 1022 = 0" "R 1021 = 0" using R0 by simp_all
        fix t assume t: "space u {1023, 1022, 1021} (MMIOBASE + 0x3000) (1022 # 1023 # ?A @ ?B)
            ((boot_pgdir (kern_pgdir k))(0 := 0, 1 := 0, 958 := new_table 1021)) (\<lambda>_. 0) (R(1021 := 1)) t"
        note ft = erase_fields [OF spaceD(2) [OF t]]
        have kp: "kern_pgdir t = kern_pgdir u" by (rule spaceD(12) [OF t])
        note pde = spaceD(5) [OF t]
        have self: "boot_pgdir x 957 AND PTE_P \<noteq> 0" for x
        proof -
          have "bit (boot_pgdir x 957 AND PTE_P) 0" by (simp add: boot_pgdir_def bit_simps layout)
          then show ?thesis by auto
        qed
        have m: "PDX MMIOBASE = 958" by (simp add: PDX_def layout)
        have fresh: "fresh_pgdir t (kern_pgdir t)"
          unfolding fresh_pgdir_def kp using spaceD(6) [OF t] self by (simp add: pde m) (simp add: boot_pgdir_def)
        have "mem_ready syms t ((1022 # 1023 # ?A) @ ?B)"
          unfolding mem_ready_def kp using spaceD(1) [OF t] fresh kp e(5) kb a(2) p(5) ft fu f by (simp del: upt_rec_numeral)
        moreover have "good_list t ys = good_list k ys" for ys
          using good_list_cong [OF spaceD(2) [OF t]] good_list_cong [OF spaceD(2) [OF u]] by simp
        moreover have "pp_ref (pages t i) = 0" if "i \<in> set (1022 # 1023 # ?A @ ?B)" for i
          using spaceD(7) [OF t, of i] R0 [of i] that by (auto simp: high_part_def simp del: upt_rec_numeral)
        moreover have "3 \<le> length ?B" by (simp add: high_part_def)
        ultimately have "mapping_ready syms t (1022 # 1023 # ?A) ?B"
          unfolding mapping_ready_def using gA gB p(5) kd kp fu f by (simp del: upt_rec_numeral)
        then show "Q () t" by (rule Q) (simp add: ft fu f)
      qed (rule P)+
    qed
  qed
qed

subsection \<open>The mappings, and the tests after them\<close>

text \<open>Memory while the kernel's directory is complete and no user mapping exists.\<close>

definition kernel_mapped :: "kstate \<Rightarrow> kstate \<Rightarrow> nat list \<Rightarrow> bool" where
  "kernel_mapped s t zs \<longleftrightarrow> vm_ok t (kern_pgdir t) zs \<and> KERNBASE \<le> kern_pgdir t \<and> (\<forall>x. x < UTOP \<longrightarrow> pde_of t (kern_pgdir t) x = 0) \<and> envs t = envs s \<and>
     (\<forall>x. KERNBASE \<le> x \<longrightarrow> pte_of t (kern_pgdir t) x = PTE_ADDR (x - KERNBASE) OR PTE_W OR PTE_P)"

definition tests_ready :: "kstate \<Rightarrow> nat list \<Rightarrow> bool" where
  "tests_ready t zs \<longleftrightarrow> good_list t zs \<and> 3 \<le> length zs \<and> (\<forall>i \<in> set zs. pp_ref (pages t i) = 0)"

lemma run_maps:
  assumes m: "mapping_ready syms s A B" and Q: "\<And>t zs. kernel_mapped s t zs \<Longrightarrow> tests_ready t zs \<Longrightarrow> Q () t"
  shows "returns (kbind (mem_init_maps syms) (\<lambda>_. check_kern_pgdir (sym_percpu_kstacks syms))) s Q"
proof -
  note a = m [unfolded mapping_ready_def]
  have r: "mem_ready syms s (A @ B)" and kb: "KERNBASE \<le> kern_pgdir s" and len: "67 \<le> length A" "3 \<le> length B" and g: "good_list s B" "good_list s (A @ B)"
    and refs: "\<forall>i \<in> set (A @ B). pp_ref (pages s i) = 0" using a by blast+
  obtain t zs where t: "mem_init_maps syms s = Ret () t"
    and sp: "spaced s (kern_pgdir s) (A @ B) kernel_space (kernel_entries syms s (\<lambda>_. 0)) t zs"
    using mem_ready_maps [OF r] .
  obtain c where c: "check_kern_pgdir (sym_percpu_kstacks syms) t = Ret () (t\<lparr>cons := c\<rparr>)"
    using check_kern_pgdir_passes [OF r] t by auto
  note f = mem_change_fields [OF spacedD(2) [OF sp]]
  have tk: "suffix zs (A @ B)" "\<forall>i \<in> set zs. pp_ref (pages t i) = pp_ref (pages s i)" using spacedD(3) [OF sp] by (simp_all add: takes_def)
  have "length B \<le> length zs"
    using spacedD(8) [OF sp] card_kernel_tables [of s "kern_pgdir s"] len by simp
  then have "suffix B zs" using tk(1) by (meson suffix_length_suffix suffixI)
  then have sets: "set B \<subseteq> set zs" "set zs \<subseteq> set (A @ B)" using tk(1) set_mono_suffix by blast+
  have "good_list s zs" by (rule good_list_sub [OF g(2,1) sets])
  then have "good_list t zs" using f by (simp add: good_list_def good_page_def)
  then have tr: "tests_ready (t\<lparr>cons := c\<rparr>) zs"
    using tk(2) refs sets(2) len \<open>length B \<le> length zs\<close> by (auto simp: tests_ready_def good_list_def good_page_def)
  have fresh: "fresh_pgdir s (kern_pgdir s)" using r by (simp add: mem_ready_def)
  have "pte_of t (kern_pgdir s) x = PTE_ADDR (x - KERNBASE) OR PTE_W OR PTE_P" if "KERNBASE \<le> x" for x
    using spaced_pte [OF sp high_in_kernel_space [OF that]] kernel_entries_high [OF that] by simp
  then have "kernel_mapped s t zs"
    unfolding kernel_mapped_def f(2,5) using kb spacedD(1) [OF sp] spaced_user [OF fresh sp] by blast
  then have km: "kernel_mapped s (t\<lparr>cons := c\<rparr>) zs" by (simp add: kernel_mapped_def)
  show ?thesis by (rule returns_bind, rule returnsI, rule t, rule returnsI, rule c, rule Q [OF km tr])
qed

lemma space_move:
  assumes sp: "space k K M xs D E R s" and "pmem t = pmem s" "pages t = pages s" "page_free_list t = page_free_list s" "npages t = npages s"
    "kern_pgdir t = kern_pgdir s" "mmio_base t = mmio_base s"
  shows "space t K' M xs D E R t"
proof -
  note r = space_rebase [OF sp, of K']
  have pde: "pde_of t p x = pde_of s p x" for p x by (simp add: pde_of_def assms)
  have pte: "pte_of t p x = pte_of s p x" for p x by (simp add: pte_of_def pde assms)
  have ht: "has_table t p x = has_table s p x" for p x by (simp add: has_table_def pde)
  have "vm_ok t (kern_pgdir s) xs"
    using spaceD(1) [OF r] unfolding vm_ok_def mem_ok_def free_list_def wf_pgdir_def tables_not_free_def ht pde assms(3-6) by blast
  then show ?thesis
    by (intro spaceI) (use spaceD(4-7) [OF r] assms in \<open>simp_all add: pde pte erase_def\<close>)
qed

lemma space_start:
  assumes v: "vm_ok t (kern_pgdir t) xs"
  obtains E where "space t UNIV (mmio_base t) xs (\<lambda>d. load32 (pmem t) (kern_pgdir t - KERNBASE + 4 * d)) E (\<lambda>i. pp_ref (pages t i)) t"
    and "\<And>x. E (PGNUM x) = pte_of t (kern_pgdir t) x"
proof -
  let ?E = "\<lambda>n. pte_of t (kern_pgdir t) (SOME y. PGNUM y = n)"
  have E: "?E (PGNUM x) = pte_of t (kern_pgdir t) x" for x
  proof -
    have "PGNUM (SOME y. PGNUM y = PGNUM x) = PGNUM x" by (rule someI [of _ x]) simp
    then show ?thesis unfolding same_page_iff by (simp add: pte_of_def pde_of_def)
  qed
  have "space t UNIV (mmio_base t) xs (\<lambda>d. load32 (pmem t) (kern_pgdir t - KERNBASE + 4 * d)) ?E (\<lambda>i. pp_ref (pages t i)) t"
    using v E by (intro spaceI) (simp_all add: pde_of_def erase_def)
  then show ?thesis using E by (rule that)
qed

text \<open>The rest of \<open>mem_init\<close>, from the new value of \<open>cr3\<close> on.\<close>

lemma run_after_maps:
  assumes m: "kernel_mapped s t zs" and r: "tests_ready t zs"
    and Q: "\<And>u ws. kernel_mapped s u ws \<Longrightarrow> cr3 u (thiscpu u) = kern_pgdir u - KERNBASE \<Longrightarrow> Q () u"
  shows "returns (kbind mem_init_switch (\<lambda>_. kbind (check_page_free_list False) (\<lambda>_. kbind mem_init_cr0 (\<lambda>_. check_page_installed_pgdir)))) t Q"
proof -
  let ?D = "\<lambda>d. load32 (pmem t) (kern_pgdir t - KERNBASE + 4 * d)" and ?R = "\<lambda>i. pp_ref (pages t i)"
  have v: "vm_ok t (kern_pgdir t) zs" and user: "\<And>x. x < UTOP \<Longrightarrow> pde_of t (kern_pgdir t) x = 0" and envs: "envs t = envs s"
    and kb: "KERNBASE \<le> kern_pgdir t"
    and high: "\<And>x. KERNBASE \<le> x \<Longrightarrow> pte_of t (kern_pgdir t) x = PTE_ADDR (x - KERNBASE) OR PTE_W OR PTE_P"
    using m by (simp_all add: kernel_mapped_def)
  obtain E where sp: "space t UNIV (mmio_base t) zs ?D E ?R t" and E: "\<And>x. E (PGNUM x) = pte_of t (kern_pgdir t) x"
    by (rule space_start [OF v], rule that, assumption, assumption)
  let ?s1 = "hw (Lcr3 (kern_pgdir t - KERNBASE)) (t\<lparr>cr3 := (cr3 t)(thiscpu t := kern_pgdir t - KERNBASE)\<rparr>)"
  have s1: "mem_init_switch t = Ret () ?s1" using kb by (simp add: mem_init_switch_def PADDR_def lcr3_def kbind_def kmod_def kget_def kassert_def kret_def)
  have sp1: "space ?s1 UNIV (mmio_base t) zs ?D E ?R ?s1" by (rule space_move [OF sp]) (simp_all add: hw_def)
  have g1: "good_list ?s1 zs" using r by (simp add: tests_ready_def good_list_def good_page_def hw_def)
  obtain a b c ys where zs: "zs = a # b # c # ys"
    using r unfolding tests_ready_def by (metis Suc_le_length_iff numeral_3_eq_3)
  have z: "?R a = 0" "?R b = 0" "?R c = 0" using r by (simp_all add: tests_ready_def zs)
  have D0: "?D 0 = 0" using user [of 0] by (simp add: pde_of_def layout PDX_def)
  let ?cr0 = "\<lambda>s. s\<lparr>cr0 := (cr0 s OR CR0_PE OR CR0_PG OR CR0_AM OR CR0_WP OR CR0_NE OR CR0_MP) AND NOT (CR0_TS OR CR0_EM)\<rparr>"
  show ?thesis
  proof (rule returns_bind, rule returnsI, rule s1, rule returns_bind, rule run_check_page_free_list [OF sp1 g1])
    fix u assume "space ?s1 UNIV (mmio_base t) (if False then low_first 1 zs else zs) ?D E ?R u"
    then have u: "space ?s1 UNIV (mmio_base t) zs ?D E ?R u" by simp
    note fu = erase_fields [OF spaceD(2) [OF u]]
    have u2: "space (?cr0 u) UNIV (mmio_base t) (a # b # c # ys) ?D E ?R (?cr0 u)" unfolding zs [symmetric] by (rule space_move [OF u]) simp_all
    show "returns (kbind mem_init_cr0 (\<lambda>_. check_page_installed_pgdir)) u Q"
      unfolding mem_init_cr0_def
    proof (rule returns_bind, rule returns_mod, rule run_check_installed [OF u2])
      show "cr3 (?cr0 u) (thiscpu (?cr0 u)) = kern_pgdir (?cr0 u) - KERNBASE" using fu by (simp add: hw_def)
      fix w assume w: "space (?cr0 u) UNIV (mmio_base t) (a # c # b # ys) (?D(0 := 0)) E ?R w"
      note fw = erase_fields [OF spaceD(2) [OF w]]
      have k: "kern_pgdir w = kern_pgdir t" "kern_pgdir (?cr0 u) = kern_pgdir t" "envs w = envs t" using fw fu by (simp_all add: hw_def)
      note d = spaceD(1,5,6) [OF w, unfolded k(2)]
      have "kernel_mapped s w (a # c # b # ys)"
        unfolding kernel_mapped_def k(1)
      proof (intro conjI allI impI)
        show "vm_ok w (kern_pgdir t) (a # c # b # ys)" by (rule d)
        show "KERNBASE \<le> kern_pgdir t" by (rule kb)
        show "pde_of w (kern_pgdir t) x = 0" if "x < UTOP" for x using user [OF that] d(2) [of x] by (simp add: pde_of_def)
        show "envs w = envs s" using k(3) envs by simp
        show "pte_of w (kern_pgdir t) x = PTE_ADDR (x - KERNBASE) OR PTE_W OR PTE_P" if x: "KERNBASE \<le> x" for x
          using d(3) [of x] kernel_space_not_UVPT high_in_kernel_space [OF x] E [of x] high [OF x] by auto
      qed
      moreover have "cr3 w (thiscpu w) = kern_pgdir w - KERNBASE" using fw fu by (simp add: hw_def)
      ultimately show "Q () w" by (rule Q)
    qed (use z D0 in simp_all)
  qed
qed

lemma run_mem_init:
  assumes "boots syms s"
    and "\<And>t ws. kernel_mapped s t ws \<Longrightarrow> cr3 t (thiscpu t) = kern_pgdir t - KERNBASE \<Longrightarrow> Q () t"
  shows "returns (mem_init syms) s Q"
proof -
  have m: "mem_init syms =
      kbind (kbind mem_init_arrays (\<lambda>_. kbind (check_page_free_list True) (\<lambda>_. kbind check_page_alloc (\<lambda>_. check_page)))) (\<lambda>_.
      kbind (kbind (mem_init_maps syms) (\<lambda>_. check_kern_pgdir (sym_percpu_kstacks syms))) (\<lambda>_.
      kbind mem_init_switch (\<lambda>_. kbind (check_page_free_list False) (\<lambda>_. kbind mem_init_cr0 (\<lambda>_. check_page_installed_pgdir)))))"
    by (simp add: mem_init_def)
  have km: "kernel_mapped s' t zs \<Longrightarrow> envs s' = envs s \<Longrightarrow> kernel_mapped s t zs" for s' t zs by (simp add: kernel_mapped_def)
  show ?thesis
    unfolding m
    by (rule returns_bind, rule run_tests_before [OF assms(1)], rule returns_bind, rule run_maps, assumption,
      rule run_after_maps, assumption, assumption, rule assms(2), rule km)
qed

text \<open>C4. \<open>mem_init\<close> completes: on a machine with at least 8 megabytes of memory no allocation fails, no assertion
  of the five self tests and no \<open>panic\<close> is reached; it returns with the new directory loaded, all of physical
  memory mapped at \<open>KERNBASE\<close>, and memory isolated.\<close>

theorem mem_init_succeeds:
  assumes "boots syms s" and free: "\<forall>e < NENV. env_status (envs s e) = ENV_FREE"
  shows "\<exists>t. mem_init syms s = Ret () t \<and> isolated t \<and> cr3 t (thiscpu t) = kern_pgdir t - KERNBASE \<and>
    (\<forall>x. KERNBASE \<le> x \<longrightarrow> pte_of t (kern_pgdir t) x = PTE_ADDR (x - KERNBASE) OR PTE_W OR PTE_P)"
proof -
  have "returns (mem_init syms) s (\<lambda>_ t. isolated t \<and> cr3 t (thiscpu t) = kern_pgdir t - KERNBASE \<and>
      (\<forall>x. KERNBASE \<le> x \<longrightarrow> pte_of t (kern_pgdir t) x = PTE_ADDR (x - KERNBASE) OR PTE_W OR PTE_P))"
  proof (rule run_mem_init [OF assms(1)])
    fix t ws assume k: "kernel_mapped s t ws" and c: "cr3 t (thiscpu t) = kern_pgdir t - KERNBASE"
    have "isolated t"
      by (rule isolated_start [of t ws]) (use k free in \<open>simp_all add: kernel_mapped_def\<close>)
    with k c show "isolated t \<and> cr3 t (thiscpu t) = kern_pgdir t - KERNBASE \<and>
        (\<forall>x. KERNBASE \<le> x \<longrightarrow> pte_of t (kern_pgdir t) x = PTE_ADDR (x - KERNBASE) OR PTE_W OR PTE_P)"
      by (simp add: kernel_mapped_def)
  qed
  then show ?thesis by (simp add: returns_def)
qed

text \<open>A machine with 640 kilobytes below the first megabyte and thirty megabytes above it.\<close>

definition boot_machine :: kstate where
  "boot_machine = small_machine\<lparr>envs := (\<lambda>i. zero_env), page_free_list := None,
     cons := console0\<lparr>io_time := 0, ports := (\<lambda>t p. [0x80, 0x02, 0x00, 0x78] ! (t mod 4))\<rparr>\<rparr>"

lemma boot_machine_boots: "boots sample_symbols boot_machine"
proof -
  have "detected boot_machine = 7936"
    by (simp add: detected_def i386_detect_memory_def nvram_read_def kio_def kbind_def kret_def mc146818_read_def inb_def outb_def
        kmod_def kget_def kprintf_Ret Let_def boot_machine_def layout)
  moreover have "good_symbols sample_symbols" by (simp add: good_symbols_def sample_symbols_def aligned_def layout)
  ultimately show ?thesis by (simp add: boots_def boot_machine_def small_machine_def sample_image_def layout)
qed

lemma mem_init_succeeds_witness:
  "\<exists>t. mem_init sample_symbols boot_machine = Ret () t \<and> isolated t \<and> pte_of t (kern_pgdir t) 0xF0123456 = 0x123003"
proof -
  obtain t where t: "mem_init sample_symbols boot_machine = Ret () t" "isolated t"
    "\<forall>x. KERNBASE \<le> x \<longrightarrow> pte_of t (kern_pgdir t) x = PTE_ADDR (x - KERNBASE) OR PTE_W OR PTE_P"
    using mem_init_succeeds [OF boot_machine_boots] by (auto simp: boot_machine_def zero_env_def)
  have "pte_of t (kern_pgdir t) 0xF0123456 = PTE_ADDR (0xF0123456 - KERNBASE) OR PTE_W OR PTE_P"
    using t(3) by (simp add: layout)
  also have "\<dots> = 0x123003" by (simp add: PTE_ADDR_def layout)
  finally show ?thesis using t(1,2) by blast
qed

end
