(* ===== verification/Fork_Spec.thy ===== *)
theory Fork_Spec
  imports User_Spec
begin

text \<open>
  Copy-on-write fork: what one call of \<open>duppage\<close>, the loop of \<open>fork\<close> over all pages, the rest of
  \<open>fork\<close> in the parent, and the page-fault handler do to the address spaces.  After the loop
  parent and child read the same bytes and neither can write any page; a write faults, and the
  handler replaces the page by a private copy.
\<close>

subsection \<open>One page\<close>

text \<open>The entry with which a page is shared: copy-on-write when it could be written.\<close>

definition is_cow :: "u32 \<Rightarrow> bool" where
  "is_cow p \<longleftrightarrow> p AND PTE_W \<noteq> 0 \<or> p AND PTE_COW \<noteq> 0"

definition cow_perm :: "u32 \<Rightarrow> u32" where
  "cow_perm p = (if is_cow p then PTE_COW OR PTE_U OR PTE_P else PTE_U OR PTE_P)"

definition cow_entry :: "u32 \<Rightarrow> u32" where
  "cow_entry p = page2pa (frame p) OR cow_perm p OR PTE_P"

lemma cow_perm_flags:
  "cow_perm p < 4096" "cow_perm p AND (PTE_U OR PTE_P) = PTE_U OR PTE_P" "cow_perm p AND PTE_W = 0"
  by (simp_all add: cow_perm_def layout)

lemma page_of_number: "aligned 4096 va \<Longrightarrow> PGNUM va * PGSIZE = va"
  by (simp add: word_unat_eq_iff unat_word_ariths unat_PGNUM aligned_def)

lemma mapped_Data:
  assumes "ready s c xs role" "d \<in> spaces s" "va < UTOP" "pte_of s d va AND PTE_P \<noteq> 0"
  shows "role (frame (pte_of s d va)) = Data"
  using assms by (intro mapped_page(1)) (auto simp: ready_def)

lemma duppage_eq:
  assumes "running s c" "aligned 4096 (env_pgdir (envs s c) - KERNBASE)"
    and "aligned 4096 va" "va < UTOP" "p = pte_of s (env_pgdir (envs s c)) va" "p AND PTE_P \<noteq> 0"
  shows "duppage w envid (PGNUM va) s =
    (if is_cow p then
       kbind (usys_page_map w 0 va envid va (cow_perm p)) (\<lambda>r. if sint r < 0 then user_panic ''2''
       else kbind (usys_page_map w 0 va 0 va (cow_perm p)) (\<lambda>r. if sint r < 0 then user_panic ''3'' else kret 0)) s
     else kbind (usys_page_map w 0 va envid va (cow_perm p)) (\<lambda>_. kret 0) s)"
proof -
  have "has_table s (env_pgdir (envs s c)) va"
    using pte_of_no_table [OF below_UTOP [OF assms(4)]] assms(5,6) by fastforce
  from uvpt_Ret [OF assms(1,2,4) this] have "uvpt (PGNUM va) s = Ret p s" by (simp add: assms(5))
  note read = this
  have cp: "cow_perm p = (if is_cow p then PTE_COW OR PTE_U OR PTE_P else PTE_U OR PTE_P)"
    by (simp add: cow_perm_def)
  show ?thesis
    unfolding cp using read
    by (cases "p AND PTE_W = 0"; cases "p AND PTE_COW = 0")
      (simp_all only: duppage_def Let_def page_of_number [OF assms(3)] kbind_Ret [where m = "uvpt (PGNUM va)", OF read] kbind_assoc kbind_prim kbind_if
        is_cow_def simp_thms if_True if_False not_False_eq_True)
qed

text \<open>After \<open>duppage\<close> the child maps the page, neither can write it, and nothing else has changed.\<close>

lemma duppage_step:
  assumes rd: "ready s c xs role" and found: "found_env s c envid = Some e"
    and ne: "env_pgdir (envs s e) \<noteq> env_pgdir (envs s c)"
    and va: "aligned 4096 va" "va < UTOP"
    and p: "p = pte_of s (env_pgdir (envs s c)) va" "p AND PTE_P \<noteq> 0"
    and absent: "pte_of s (env_pgdir (envs s e)) va AND PTE_P = 0"
    and refs: "unat (pp_ref (pages s (frame p))) < 65534"
    and mem: "has_table s (env_pgdir (envs s e)) va \<or> xs \<noteq> []"
  obtains t ys r where "duppage w envid (PGNUM va) s = Ret 0 t" "ready t c ys r" "same_run s t"
    "\<And>d va'. d \<in> spaces s \<Longrightarrow> va' < UTOP \<Longrightarrow> pte_of t d va' =
      (if PGNUM va' = PGNUM va \<and> (d = env_pgdir (envs s e) \<or> d = env_pgdir (envs s c) \<and> is_cow p)
       then cow_entry p else pte_of s d va')"
    "has_table t (env_pgdir (envs s e)) va"
    "\<And>va'. PDX va' \<noteq> PDX va \<Longrightarrow> pde_of t (env_pgdir (envs s e)) va' = pde_of s (env_pgdir (envs s e)) va'"
    "length xs \<le> length ys + (if has_table s (env_pgdir (envs s e)) va then 0 else 1)"
    "\<And>d va' a. d \<in> spaces s \<Longrightarrow> va' < UTOP \<Longrightarrow> pte_of s d va' AND PTE_P \<noteq> 0 \<Longrightarrow>
      frame a = frame (pte_of s d va') \<Longrightarrow> pmem t a = pmem s a"
    "\<And>d va'. d \<in> spaces s \<Longrightarrow> va' < UTOP \<Longrightarrow> pte_of s d va' AND PTE_P \<noteq> 0 \<Longrightarrow>
      unat (pp_ref (pages t (frame (pte_of s d va')))) \<le> unat (pp_ref (pages s (frame (pte_of s d va')))) +
        (if frame (pte_of s d va') = frame p then 1 else 0)"
    "\<And>d. d \<in> spaces s \<Longrightarrow> self_map s d \<Longrightarrow> self_map t d"
    "free_counts s xs t ys"
proof -
  let ?D = "spaces s" and ?d = "env_pgdir (envs s c)" and ?d' = "env_pgdir (envs s e)"
  have run: "running s c" "live s c" using rd by (auto simp: ready_def running_def)
  note dc = ready_space [OF rd run(2)] and de = ready_space [OF rd found_live [OF found run(2)]]
  note eq = duppage_eq [OF run(1) dc(3) va p, of w envid]
  have "pp_ref (pages s (frame p)) \<noteq> - 1" using refs by (auto simp: unat_max_u16)
  from usys_page_map_step [where w = w, OF rd found va va p cow_perm_flags(1,2) [of p] _ this mem] cow_perm_flags(3)
  obtain t ys r where t: "usys_page_map w 0 va envid va (cow_perm p) s = Ret 0 t"
    "inserted s ?D xs role ?d' (frame p) va (cow_perm p) t ys r" "same_run s t" "ready t c ys r" by auto
  note i = insertedD [OF t(2)] and st = same_run_facts [OF t(3)]
  have pt: "pte_of t d va' = (if PGNUM va' = PGNUM va \<and> d = ?d' then cow_entry p else pte_of s d va')"
    if "d \<in> ?D" "va' < UTOP" for d va'
    using i(10) [OF that] by (simp add: cow_entry_def)
  have keep: "pte_of t d va' = pte_of s d va'" if "d \<in> ?D" "va' < UTOP" "pte_of s d va' AND PTE_P \<noteq> 0" for d va'
    using pt [OF that(1,2)] that(3) absent pte_page_cong [of va' va s ?d'] by auto
  have data: "pmem t a = pmem s a" if "d \<in> ?D" "va' < UTOP" "pte_of s d va' AND PTE_P \<noteq> 0" "frame a = frame (pte_of s d va')" for d va' a
    using i(5) mapped_Data [OF rd that(1-3)] that(4) by simp
  have rt: "unat (pp_ref (pages t (frame (pte_of s d va')))) \<le> unat (pp_ref (pages s (frame (pte_of s d va')))) +
        (if frame (pte_of s d va') = frame p then 1 else 0)"
    if "d \<in> ?D" "va' < UTOP" "pte_of s d va' AND PTE_P \<noteq> 0" for d va'
    using i(12) [OF mapped_Data [OF rd that]] by (auto split: if_splits)
  show ?thesis
  proof (cases "is_cow p")
    case False
    show ?thesis
    proof (rule that)
      show "duppage w envid (PGNUM va) s = Ret 0 t" using eq t(1) False by (simp add: kbind_Ret kret_def)
      show "pde_of t ?d' va' = pde_of s ?d' va'" if "PDX va' \<noteq> PDX va" for va' using i(6) [of va'] that by simp
      show "self_map t d" if "d \<in> ?D" "self_map s d" for d by (rule self_map_inserted [OF that(2) t(2) that(1) va(2)])
    qed (use t(3,4) i(4,9,13) pt False data rt in auto)
  next
    case True
    have pc: "p = pte_of t (env_pgdir (envs t c)) va" using keep [OF dc(1) va(2)] p st(1) by simp
    have self: "found_env t c 0 = Some c" by (simp add: found_env_def)
    have "unat (pp_ref (pages t (frame p))) \<noteq> 65535" using rt [OF dc(1) va(2)] p refs by auto
    then have r1: "pp_ref (pages t (frame p)) \<noteq> - 1" by (auto simp: unat_max_u16)
    have tab: "has_table t ?d va" using pte_of_no_table [OF below_UTOP [OF va(2)], of t ?d] pc p(2) st(1) by fastforce
    from usys_page_map_step [where w = w, OF t(4) self va va pc p(2) cow_perm_flags(1,2) [of p] _ r1] cow_perm_flags(3) tab st(1,3)
    obtain u zs r' where u: "usys_page_map w 0 va 0 va (cow_perm p) t = Ret 0 u"
      "inserted t ?D ys r ?d (frame p) va (cow_perm p) u zs r'" "same_run t u" "ready u c zs r'" by auto
    note j = insertedD [OF u(2)]
    have rD: "r (frame (pte_of s d va')) = Data" if "d \<in> ?D" "va' < UTOP" "pte_of s d va' AND PTE_P \<noteq> 0" for d va'
      using mapped_Data [OF t(4), of d va'] keep [OF that] that st(3) by simp
    show ?thesis
    proof (rule that)
      show "duppage w envid (PGNUM va) s = Ret 0 u" using eq t(1) u(1) True by (simp add: kbind_Ret kret_def)
      show "ready u c zs r'" "same_run s u" using u(4) same_run_trans [OF t(3) u(3)] by blast+
      show "pte_of u d va' = (if PGNUM va' = PGNUM va \<and> (d = ?d' \<or> d = ?d \<and> is_cow p) then cow_entry p else pte_of s d va')"
        if "d \<in> ?D" "va' < UTOP" for d va'
        using j(10) [OF that] pt [OF that] True by (auto simp: cow_entry_def)
      show "has_table u ?d' va" using i(4) j(11) [OF de(1) ne] by (simp add: has_table_def)
      show "pde_of u ?d' va' = pde_of s ?d' va'" if "PDX va' \<noteq> PDX va" for va'
        using i(6) [of va'] j(11) [OF de(1) ne] that by simp
      show "length xs \<le> length zs + (if has_table s ?d' va then 0 else 1)" using i(9) j(9) tab by simp
      show "pmem u a = pmem s a" if "d \<in> ?D" "va' < UTOP" "pte_of s d va' AND PTE_P \<noteq> 0" "frame a = frame (pte_of s d va')" for d va' a
        using j(5) [of a] rD [OF that(1-3)] data [OF that] that(4) by simp
      show "unat (pp_ref (pages u (frame (pte_of s d va')))) \<le> unat (pp_ref (pages s (frame (pte_of s d va')))) +
          (if frame (pte_of s d va') = frame p then 1 else 0)"
        if "d \<in> ?D" "va' < UTOP" "pte_of s d va' AND PTE_P \<noteq> 0" for d va'
        using j(12) [OF rD [OF that]] rt [OF that] pc p(2) st(1) by (auto split: if_splits)
      show "self_map u d" if "d \<in> ?D" "self_map s d" for d
        using self_map_inserted [OF self_map_inserted [OF that(2) t(2) that(1) va(2)] u(2) that(1) va(2)] .
      show "free_counts s xs u zs" by (rule free_counts_trans [OF i(13) j(13)])
    qed
  qed
qed

subsection \<open>All pages\<close>

text \<open>The state \<open>t\<close> after \<open>n\<close> pages have been shared, seen from the state \<open>s\<close> before.\<close>

definition forked :: "kstate \<Rightarrow> nat \<Rightarrow> nat \<Rightarrow> nat \<Rightarrow> kstate \<Rightarrow> bool" where
  "forked s c e n t \<longleftrightarrow> same_run s t \<and>
     (\<forall>d va. d \<in> spaces s \<longrightarrow> va < UTOP \<longrightarrow> pte_of t d va =
        (if frame va < n \<and> shared s (env_pgdir (envs s c)) va \<and>
            (d = env_pgdir (envs s e) \<or> d = env_pgdir (envs s c) \<and> is_cow (pte_of s (env_pgdir (envs s c)) va))
         then cow_entry (pte_of s (env_pgdir (envs s c)) va) else pte_of s d va)) \<and>
     (\<forall>d va a. d \<in> spaces s \<longrightarrow> va < UTOP \<longrightarrow> pte_of s d va AND PTE_P \<noteq> 0 \<longrightarrow>
        frame a = frame (pte_of s d va) \<longrightarrow> pmem t a = pmem s a)"

text \<open>The page tables a space lacks for the pages in \<open>A\<close>, and the pages of a frame that have been shared.\<close>

definition missing :: "u32 set \<Rightarrow> kstate \<Rightarrow> u32 \<Rightarrow> u32 set" where
  "missing A s d = {PDX va |va. va \<in> A \<and> \<not> has_table s d va}"

definition user_pages :: "kstate \<Rightarrow> u32 \<Rightarrow> u32 set" where
  "user_pages s d = {va. va < USTACKTOP \<and> shared s d va}"

definition shared_at :: "kstate \<Rightarrow> u32 \<Rightarrow> nat \<Rightarrow> nat \<Rightarrow> u32 set" where
  "shared_at s d n f = {va. va < UTOP \<and> aligned 4096 va \<and> frame va < n \<and> shared s d va \<and> frame (pte_of s d va) = f}"

lemma has_table_PDX_cong: "PDX va = PDX va' \<Longrightarrow> has_table s d va = has_table s d va'"
  by (simp add: has_table_def pde_of_def)

lemma missing_step:
  assumes "has_table t d va" "\<And>va'. PDX va' \<noteq> PDX va \<Longrightarrow> pde_of t d va' = pde_of s d va'" "va \<in> A"
  shows "missing A t d = missing A s d - {PDX va}"
    and "has_table s d va \<Longrightarrow> missing A t d = missing A s d"
    and "\<not> has_table s d va \<Longrightarrow> PDX va \<in> missing A s d"
proof -
  have other: "has_table t d va' = has_table s d va'" if "PDX va' \<noteq> PDX va" for va'
    using assms(2) [OF that] by (simp add: has_table_def)
  have here: "has_table t d va'" if "PDX va' = PDX va" for va'
    using has_table_PDX_cong [OF that, of t d] assms(1) by simp
  show m: "missing A t d = missing A s d - {PDX va}"
  proof (intro equalityI subsetI)
    fix x assume "x \<in> missing A t d"
    then obtain va' where x: "x = PDX va'" "va' \<in> A" "\<not> has_table t d va'" unfolding missing_def by blast
    then have "PDX va' \<noteq> PDX va" using here by blast
    moreover from this have "\<not> has_table s d va'" using other [of va'] x(3) by simp
    ultimately show "x \<in> missing A s d - {PDX va}" using x(1,2) unfolding missing_def by auto
  next
    fix x assume "x \<in> missing A s d - {PDX va}"
    then obtain va' where x: "x = PDX va'" "va' \<in> A" "\<not> has_table s d va'" "PDX va' \<noteq> PDX va"
      unfolding missing_def by blast
    then have "\<not> has_table t d va'" using other [of va'] by simp
    with x(1,2) show "x \<in> missing A t d" unfolding missing_def by auto
  qed
  show "missing A t d = missing A s d" if tab: "has_table s d va"
  proof -
    have "has_table s d va'" if "PDX va' = PDX va" for va'
      using has_table_PDX_cong [OF that, of s d] tab by simp
    then have "PDX va \<notin> missing A s d" unfolding missing_def by fastforce
    then show ?thesis using m by simp
  qed
  show "PDX va \<in> missing A s d" if "\<not> has_table s d va"
    using that assms(3) unfolding missing_def by blast
qed

lemma shared_at_step:
  assumes "va < UTOP" "aligned 4096 va" "frame va = n" "shared s d va"
  shows "card (shared_at s d (Suc n) (frame (pte_of s d va))) = Suc (card (shared_at s d n (frame (pte_of s d va))))"
    and "f \<noteq> frame (pte_of s d va) \<Longrightarrow> shared_at s d (Suc n) f = shared_at s d n f"
proof -
  have one: "va' = va" if "frame va' = n" "aligned 4096 va'" for va'
    using frame_eq_iff [OF that(2) assms(2)] that(1) assms(3) by simp
  have s: "shared_at s d (Suc n) f =
      (if f = frame (pte_of s d va) then insert va (shared_at s d n f) else shared_at s d n f)" for f
  proof (rule set_eqI)
    fix va'
    show "va' \<in> shared_at s d (Suc n) f \<longleftrightarrow>
        va' \<in> (if f = frame (pte_of s d va) then insert va (shared_at s d n f) else shared_at s d n f)"
      using one [of va'] assms by (cases "va' = va") (auto simp: shared_at_def less_Suc_eq)
  qed
  then show "f \<noteq> frame (pte_of s d va) \<Longrightarrow> shared_at s d (Suc n) f = shared_at s d n f" by simp
  have "finite (shared_at s d n f)" for f by (rule finite_subset [OF subset_UNIV]) simp
  moreover have "va \<notin> shared_at s d n f" for f using assms(3) by (simp add: shared_at_def)
  ultimately show "card (shared_at s d (Suc n) (frame (pte_of s d va))) = Suc (card (shared_at s d n (frame (pte_of s d va))))"
    using s by simp
qed

lemma shared_at_card:
  assumes "mem_inv s D xs role" "d \<in> D" "role f = Data"
  shows "card (shared_at s d n f) \<le> unat (pp_ref (pages s f))"
proof -
  have "(\<lambda>va. (d, va)) ` shared_at s d n f \<subseteq> mapped s D f"
    using assms(2) by (auto simp: shared_at_def mapped_def shared_def)
  then have "card (shared_at s d n f) \<le> card (mapped s D f)"
    by (metis card_image card_mono finite_mapped inj_onI prod.inject)
  also have "\<dots> \<le> unat (pp_ref (pages s f))" using mem_invD(5) [OF assms(1,3)] .
  finally show ?thesis .
qed

text \<open>The invariant of the loop: there is a free page for every page table that is missing.\<close>

definition fork_inv :: "kstate \<Rightarrow> nat \<Rightarrow> nat \<Rightarrow> nat \<Rightarrow> kstate \<Rightarrow> bool" where
  "fork_inv s c e n t \<longleftrightarrow> forked s c e n t \<and>
     (\<exists>ys r. ready t c ys r \<and>
        card (missing (user_pages s (env_pgdir (envs s c))) t (env_pgdir (envs s e))) + 2 \<le> length ys \<and>
        (\<forall>g \<in> set ys. unat (pp_ref (pages t g)) \<le> 32767)) \<and>
     (\<forall>x \<in> spaces s. self_map s x \<longrightarrow> self_map t x) \<and>
     (\<forall>d va. d \<in> spaces s \<longrightarrow> va < UTOP \<longrightarrow> pte_of s d va AND PTE_P \<noteq> 0 \<longrightarrow>
        unat (pp_ref (pages t (frame (pte_of s d va)))) \<le> unat (pp_ref (pages s (frame (pte_of s d va)))) +
          card (shared_at s (env_pgdir (envs s c)) n (frame (pte_of s d va))))"

definition fork_ok :: "kstate \<Rightarrow> nat \<Rightarrow> nat \<Rightarrow> u32 \<Rightarrow> nat list \<Rightarrow> (nat \<Rightarrow> role) \<Rightarrow> bool" where
  "fork_ok s c e envid xs role \<longleftrightarrow> ready s c xs role \<and> found_env s c envid = Some e \<and>
     env_pgdir (envs s e) \<noteq> env_pgdir (envs s c) \<and>
     (\<forall>va. va < USTACKTOP \<longrightarrow> pte_of s (env_pgdir (envs s e)) va AND PTE_P = 0) \<and>
     self_map s (env_pgdir (envs s e)) \<and>
     card (missing (user_pages s (env_pgdir (envs s c))) s (env_pgdir (envs s e))) + 2 \<le> length xs \<and> (\<forall>f. unat (pp_ref (pages s f)) \<le> 32767)"

lemma fork_okD:
  assumes "fork_ok s c e envid xs role"
  shows "ready s c xs role" "found_env s c envid = Some e" "env_pgdir (envs s e) \<noteq> env_pgdir (envs s c)"
    "\<And>va. va < USTACKTOP \<Longrightarrow> pte_of s (env_pgdir (envs s e)) va AND PTE_P = 0"
    "card (missing (user_pages s (env_pgdir (envs s c))) s (env_pgdir (envs s e))) + 2 \<le> length xs" "\<And>f. unat (pp_ref (pages s f)) \<le> 32767"
    "live s c" "live s e" "env_pgdir (envs s c) \<in> spaces s" "env_pgdir (envs s e) \<in> spaces s"
    "mem_inv s (spaces s) xs role" "self_map s (env_pgdir (envs s e))"
proof -
  show rd: "ready s c xs role" and f: "found_env s c envid = Some e" "env_pgdir (envs s e) \<noteq> env_pgdir (envs s c)"
    "\<And>va. va < USTACKTOP \<Longrightarrow> pte_of s (env_pgdir (envs s e)) va AND PTE_P = 0"
    "card (missing (user_pages s (env_pgdir (envs s c))) s (env_pgdir (envs s e))) + 2 \<le> length xs" "\<And>f. unat (pp_ref (pages s f)) \<le> 32767"
    "self_map s (env_pgdir (envs s e))"
    using assms by (simp_all add: fork_ok_def)
  show c: "live s c" and "mem_inv s (spaces s) xs role" using rd by (auto simp: ready_def running_def)
  show e: "live s e" using found_live [OF f(1) c] .
  show "env_pgdir (envs s c) \<in> spaces s" "env_pgdir (envs s e) \<in> spaces s"
    using ready_space(1) [OF rd c] ready_space(1) [OF rd e] .
qed

lemma forkedD:
  assumes "forked s c e n t"
  shows "same_run s t"
    "\<And>d va. d \<in> spaces s \<Longrightarrow> va < UTOP \<Longrightarrow> pte_of t d va =
        (if frame va < n \<and> shared s (env_pgdir (envs s c)) va \<and>
            (d = env_pgdir (envs s e) \<or> d = env_pgdir (envs s c) \<and> is_cow (pte_of s (env_pgdir (envs s c)) va))
         then cow_entry (pte_of s (env_pgdir (envs s c)) va) else pte_of s d va)"
    "\<And>d va a. d \<in> spaces s \<Longrightarrow> va < UTOP \<Longrightarrow> pte_of s d va AND PTE_P \<noteq> 0 \<Longrightarrow>
        frame a = frame (pte_of s d va) \<Longrightarrow> pmem t a = pmem s a"
  using assms unfolding forked_def by blast+

lemma frame_cow_entry:
  assumes "ready s c xs role" "d \<in> spaces s" "va < UTOP" "pte_of s d va AND PTE_P \<noteq> 0"
  shows "frame (cow_entry (pte_of s d va)) = frame (pte_of s d va)"
  using assms mapped_page(3) [of s "spaces s" xs role d va]
  by (auto simp: cow_entry_def ready_def intro: frame_entry cow_perm_flags(1))

lemma cow_entry_present: "cow_entry p AND PTE_P \<noteq> 0"
  by (simp add: cow_entry_def)

text \<open>What was mapped before is still mapped, to the same frame.\<close>

lemma forked_keeps:
  assumes ok: "fork_ok s c e envid xs role" and fk: "forked s c e n t"
    and n: "n \<le> unat USTACKTOP div 4096" and va: "d \<in> spaces s" "va < UTOP" "pte_of s d va AND PTE_P \<noteq> 0"
  shows "pte_of t d va AND PTE_P \<noteq> 0" "frame (pte_of t d va) = frame (pte_of s d va)"
proof -
  note k = fork_okD [OF ok] and f = forkedD(2) [OF fk va(1,2)]
  let ?p = "pte_of s (env_pgdir (envs s c)) va"
  have "va < USTACKTOP" if "frame va < n" using that n by (simp add: word_less_nat_alt frame_def layout)
  then have "d \<noteq> env_pgdir (envs s e)" if "frame va < n" using k(4) [of va] va(3) that by auto
  then have "pte_of t d va = pte_of s d va \<or>
      d = env_pgdir (envs s c) \<and> pte_of t d va = cow_entry (pte_of s d va)"
    using f by auto
  then show "pte_of t d va AND PTE_P \<noteq> 0" "frame (pte_of t d va) = frame (pte_of s d va)"
    using va(3) cow_entry_present frame_cow_entry [OF k(1) va] by auto
qed

lemma fork_page:
  assumes "n < unat USTACKTOP div 4096"
  defines "va \<equiv> of_nat n * PGSIZE"
  shows "unat va = 4096 * n" "aligned 4096 va" "va < UTOP" "va < USTACKTOP" "frame va = n"
proof -
  have n: "n < 977918" using assms(1) by (simp add: layout)
  then show u: "unat va = 4096 * n" unfolding va_def by (simp add: unat_word_ariths unat_of_nat_u32)
  then show "aligned 4096 va" "frame va = n" by (simp_all add: aligned_def frame_def)
  show "va < UTOP" "va < USTACKTOP" using n u by (simp_all add: word_less_nat_alt layout)
qed

text \<open>One round on a page that is not shared changes nothing.\<close>

lemma fork_step_skip:
  assumes ok: "fork_ok s c e envid xs role" and inv: "fork_inv s c e n t"
    and n: "n < unat USTACKTOP div 4096"
    and ns: "\<not> shared s (env_pgdir (envs s c)) (of_nat n * PGSIZE)"
  shows "fork_inv s c e (Suc n) t"
proof -
  note pg = fork_page [OF n]
  let ?va = "of_nat n * PGSIZE :: u32" and ?d = "env_pgdir (envs s c)"
  have nsh: "\<not> shared s ?d va" if "frame va = n" for va
  proof -
    have "PGNUM va = PGNUM ?va" using that pg(5) by (simp add: word_unat_eq_iff unat_PGNUM frame_def)
    then show ?thesis using ns pte_page_cong [of va ?va s ?d] by (simp add: shared_def)
  qed
  then have "(frame va < Suc n \<and> shared s ?d va \<and> X) = (frame va < n \<and> shared s ?d va \<and> X)" for va X
    by (auto simp: less_Suc_eq)
  then have "forked s c e (Suc n) t = forked s c e n t" by (simp only: forked_def)
  moreover have "shared_at s ?d (Suc n) f = shared_at s ?d n f" for f
    using nsh unfolding shared_at_def less_Suc_eq by blast
  ultimately have "fork_inv s c e (Suc n) t = fork_inv s c e n t" unfolding fork_inv_def by presburger
  then show ?thesis using inv by simp
qed

lemma fork_inv_refs:
  assumes ok: "fork_ok s c e envid xs role" and inv: "fork_inv s c e n t"
    and va: "va < UTOP" "aligned 4096 va" "frame va = n" "shared s (env_pgdir (envs s c)) va"
  shows "unat (pp_ref (pages t (frame (pte_of s (env_pgdir (envs s c)) va)))) < 65534"
proof -
  note k = fork_okD [OF ok]
  let ?d = "env_pgdir (envs s c)"
  let ?f = "frame (pte_of s ?d va)"
  have p: "pte_of s ?d va AND PTE_P \<noteq> 0" using va(4) by (simp add: shared_def)
  have "Suc (card (shared_at s ?d n ?f)) = card (shared_at s ?d (Suc n) ?f)"
    using shared_at_step(1) [OF va] by simp
  also have "\<dots> \<le> unat (pp_ref (pages s ?f))"
    by (rule shared_at_card [OF k(11,9) mapped_Data [OF k(1,9) va(1) p]])
  finally have "card (shared_at s ?d n ?f) < 32767" using k(6) [of ?f] by linarith
  moreover have "unat (pp_ref (pages t ?f)) \<le> unat (pp_ref (pages s ?f)) + card (shared_at s ?d n ?f)"
    using inv k(9) va(1) p unfolding fork_inv_def by blast
  ultimately show ?thesis using k(6) [of ?f] by linarith
qed

text \<open>One round on a shared page.\<close>

lemma fork_step_share:
  assumes ok: "fork_ok s c e envid xs role" and inv: "fork_inv s c e n t"
    and n: "n < unat USTACKTOP div 4096" and va: "va = of_nat n * PGSIZE"
    and sh: "shared s (env_pgdir (envs s c)) va"
  shows "\<exists>u. duppage w envid (PGNUM va) t = Ret 0 u \<and> fork_inv s c e (Suc n) u"
proof -
  note k = fork_okD [OF ok] and pg = fork_page [OF n, folded va]
  let ?d = "env_pgdir (envs s c)" and ?d' = "env_pgdir (envs s e)"
  let ?A = "user_pages s ?d"
  have vA: "va \<in> ?A" using pg(4) sh by (simp add: user_pages_def)
  have fk: "forked s c e n t" using inv by (simp add: fork_inv_def)
  note f = forkedD [OF fk] and st = same_run_facts [OF forkedD(1) [OF fk]]
  obtain ys r where t: "ready t c ys r" "card (missing ?A t ?d') + 2 \<le> length ys"
      "\<forall>g \<in> set ys. unat (pp_ref (pages t g)) \<le> 32767" using inv unfolding fork_inv_def by blast
  have same: "pte_of t d va = pte_of s d va" if "d \<in> spaces s" for d using f(2) [OF that pg(3)] pg(5) by simp
  define p where "p = pte_of s ?d va"
  have p: "p = pte_of t (env_pgdir (envs t c)) va" "p AND PTE_P \<noteq> 0"
    using same [OF k(9)] sh st(1) by (simp_all add: p_def shared_def)
  have absent: "pte_of t (env_pgdir (envs t e)) va AND PTE_P = 0" using same [OF k(10)] k(4) [OF pg(4)] st(1) by simp
  have found: "found_env t c envid = Some e" using k(2) st(6) by simp
  have ne: "env_pgdir (envs t e) \<noteq> env_pgdir (envs t c)" using k(3) st(1) by simp
  have refs: "unat (pp_ref (pages t (frame p))) < 65534"
    unfolding p_def by (rule fork_inv_refs [OF ok inv pg(3,2,5) sh])
  have mem: "has_table t (env_pgdir (envs t e)) va \<or> ys \<noteq> []" using t(2) by auto
  obtain u zs r' where u: "duppage w envid (PGNUM va) t = Ret 0 u" "ready u c zs r'" "same_run t u"
    and pu: "\<And>d va'. d \<in> spaces s \<Longrightarrow> va' < UTOP \<Longrightarrow> pte_of u d va' =
      (if PGNUM va' = PGNUM va \<and> (d = ?d' \<or> d = ?d \<and> is_cow p) then cow_entry p else pte_of t d va')"
    and tu: "has_table u ?d' va" "\<And>va'. PDX va' \<noteq> PDX va \<Longrightarrow> pde_of u ?d' va' = pde_of t ?d' va'"
      "length ys \<le> length zs + (if has_table t ?d' va then 0 else 1)"
    and du: "\<And>d va' a. d \<in> spaces s \<Longrightarrow> va' < UTOP \<Longrightarrow> pte_of t d va' AND PTE_P \<noteq> 0 \<Longrightarrow>
      frame a = frame (pte_of t d va') \<Longrightarrow> pmem u a = pmem t a"
    and ru: "\<And>d va'. d \<in> spaces s \<Longrightarrow> va' < UTOP \<Longrightarrow> pte_of t d va' AND PTE_P \<noteq> 0 \<Longrightarrow>
      unat (pp_ref (pages u (frame (pte_of t d va')))) \<le> unat (pp_ref (pages t (frame (pte_of t d va')))) +
        (if frame (pte_of t d va') = frame p then 1 else 0)"
    and mu: "\<And>d. d \<in> spaces s \<Longrightarrow> self_map t d \<Longrightarrow> self_map u d"
    and fu: "free_counts t ys u zs"
    by (rule duppage_step [where w = w, OF t(1) found ne pg(2,3) p absent refs mem, unfolded st(1,3)])
      (rule that; assumption)
  have number: "frame va' = n \<longleftrightarrow> PGNUM va' = PGNUM va" for va'
    using pg(5) by (auto simp: word_unat_eq_iff unat_PGNUM frame_def)
  have same_p: "pte_of s ?d va' = p" if "frame va' = n" for va'
    using that number [of va'] pte_page_cong [of va' va s ?d] by (simp add: p_def)
  have keep: "pte_of t d va' AND PTE_P \<noteq> 0" "frame (pte_of t d va') = frame (pte_of s d va')"
    if "d \<in> spaces s" "va' < UTOP" "pte_of s d va' AND PTE_P \<noteq> 0" for d va'
    using forked_keeps [OF ok fk _ that] n by simp_all
  have "same_run s u" by (rule same_run_trans [OF f(1) u(3)])
  moreover have "pte_of u d va' = (if frame va' < Suc n \<and> shared s ?d va' \<and>
      (d = ?d' \<or> d = ?d \<and> is_cow (pte_of s ?d va')) then cow_entry (pte_of s ?d va') else pte_of s d va')"
    if "d \<in> spaces s" "va' < UTOP" for d va'
  proof (cases "frame va' = n")
    case True
    then have "shared s ?d va'" using same_p [OF True] sh by (simp add: shared_def p_def)
    then show ?thesis
      using pu [OF that] f(2) [OF that] True number [of va'] same_p [OF True] by simp
  next
    case False
    then have "frame va' < Suc n \<longleftrightarrow> frame va' < n" by auto
    then show ?thesis using pu [OF that] f(2) [OF that] False number [of va'] by simp
  qed
  moreover have "pmem u a = pmem s a"
    if "d \<in> spaces s" "va' < UTOP" "pte_of s d va' AND PTE_P \<noteq> 0" "frame a = frame (pte_of s d va')" for d va' a
    using du [OF that(1,2) keep(1) [OF that(1-3)]] keep(2) [OF that(1-3)] f(3) [OF that] that(4) by simp
  ultimately have "forked s c e (Suc n) u" unfolding forked_def by blast
  moreover have "card (missing ?A u ?d') + 2 \<le> length zs"
  proof (cases "has_table t ?d' va")
    case True
    then show ?thesis using missing_step(2) [OF tu(1,2) vA] t(2) tu(3) by simp
  next
    case False
    have "finite (missing ?A t ?d')" by (rule finite_subset [OF subset_UNIV]) simp
    note fin = this
    have ms: "missing ?A u ?d' = missing ?A t ?d' - {PDX va}" "PDX va \<in> missing ?A t ?d'"
      using missing_step(1,3) [OF tu(1,2) vA] False by simp_all
    have "card (missing ?A u ?d') < card (missing ?A t ?d')"
      using card_Diff1_less [OF fin ms(2)] by (simp only: ms(1))
    then show ?thesis using t(2) tu(3) False by simp
  qed
  moreover have "unat (pp_ref (pages u (frame (pte_of s d va')))) \<le> unat (pp_ref (pages s (frame (pte_of s d va')))) +
      card (shared_at s ?d (Suc n) (frame (pte_of s d va')))"
    if v: "d \<in> spaces s" "va' < UTOP" "pte_of s d va' AND PTE_P \<noteq> 0" for d va'
  proof -
    let ?f = "frame (pte_of s d va')"
    have "unat (pp_ref (pages u ?f)) \<le> unat (pp_ref (pages t ?f)) + (if ?f = frame p then 1 else 0)"
      using ru [OF v(1,2) keep(1) [OF v]] keep(2) [OF v] by simp
    moreover have "unat (pp_ref (pages t ?f)) \<le> unat (pp_ref (pages s ?f)) + card (shared_at s ?d n ?f)"
      using inv v unfolding fork_inv_def by blast
    moreover have "card (shared_at s ?d (Suc n) ?f) = card (shared_at s ?d n ?f) + (if ?f = frame p then 1 else 0)"
      using shared_at_step [OF pg(3,2,5) sh] by (cases "?f = frame p") (simp_all add: p_def)
    ultimately show ?thesis by linarith
  qed
  moreover have "\<forall>x \<in> spaces s. self_map s x \<longrightarrow> self_map u x" using mu inv unfolding fork_inv_def by blast
  moreover have "\<forall>g \<in> set zs. unat (pp_ref (pages u g)) \<le> 32767"
    using fu t(3) by (auto simp: free_counts_def)
  ultimately have "fork_inv s c e (Suc n) u" unfolding fork_inv_def using u(2) by blast
  with u(1) show ?thesis by blast
qed

lemma dup_one_run:
  assumes ok: "fork_ok s c e envid xs role" and inv: "fork_inv s c e n t"
    and n: "n < unat USTACKTOP div 4096"
  shows "\<exists>u. dup_one w envid (of_nat n * PGSIZE) t = Ret () u \<and> fork_inv s c e (Suc n) u"
proof -
  note k = fork_okD [OF ok] and pg = fork_page [OF n]
  let ?va = "of_nat n * PGSIZE :: u32" and ?d = "env_pgdir (envs s c)"
  have fk: "forked s c e n t" using inv by (simp add: fork_inv_def)
  note st = same_run_facts [OF forkedD(1) [OF fk]]
  obtain ys r where t: "ready t c ys r" using inv unfolding fork_inv_def by blast
  then have "running t c" "live t c" by (auto simp: ready_def running_def)
  from user_page_Ret [OF this(1) ready_space(3) [OF t this(2)] pg(3)]
  have "user_page ?va t = Ret (shared s ?d ?va) t"
    using forkedD(2) [OF fk k(9) pg(3)] pg(5) st(1) by (simp add: shared_def)
  then have run: "dup_one w envid ?va t = (if shared s ?d ?va
      then kbind (duppage w envid (PGNUM ?va)) (\<lambda>_. kret ()) t else Ret () t)"
    by (simp add: dup_one_def kbind_Ret kret_def)
  show ?thesis
  proof (cases "shared s ?d ?va")
    case True
    from fork_step_share [where w = w, OF ok inv n refl True] obtain u where
      "duppage w envid (PGNUM ?va) t = Ret 0 u" "fork_inv s c e (Suc n) u" by blast
    with run True show ?thesis by (simp add: kbind_Ret kret_def)
  next
    case False
    with run fork_step_skip [OF ok inv n False] show ?thesis by simp
  qed
qed

lemma map_prefix: "map f [0..<m] = us @ x # vs \<Longrightarrow> length us < m \<and> x = f (length us)"
proof -
  assume eq: "map f [0..<m] = us @ x # vs"
  have "m = length (us @ x # vs)" using arg_cong [OF eq, of length] by simp
  then have m: "length us < m" by simp
  have "map f [0..<m] ! length us = x" by (simp only: eq nth_append_length)
  with m show ?thesis by simp
qed

lemma dup_pages_run:
  assumes ok: "fork_ok s c e envid xs role"
  shows "\<exists>t. dup_pages w envid s = Ret () t \<and> fork_inv s c e (unat USTACKTOP div 4096) t"
proof -
  note k = fork_okD [OF ok]
  have "forked s c e 0 s" by (simp add: forked_def same_run_refl)
  then have "fork_inv s c e 0 s" using k(1,5,6,12) unfolding fork_inv_def by auto
  then have "\<exists>t. dup_pages w envid s = Ret () t \<and>
      fork_inv s c e (length (map (\<lambda>i. of_nat i * PGSIZE :: u32) [0..<unat USTACKTOP div 4096])) t"
    unfolding dup_pages_def
    by (intro kfor_run [where I = "\<lambda>us. fork_inv s c e (length us)"])
      (use dup_one_run [OF ok] in \<open>auto dest!: map_prefix\<close>)
  then show ?thesis by simp
qed

subsection \<open>Parent and child see the same memory\<close>

lemma cow_entry_flags:
  "cow_entry p AND PTE_P \<noteq> 0" "cow_entry p AND PTE_U \<noteq> 0" "cow_entry p AND PTE_W = 0"
proof -
  have "cow_entry p AND m = (cow_perm p OR PTE_P) AND m" if "m < 4096" for m
    using page_flags [OF that, of "frame p" "cow_perm p OR PTE_P"] by (simp add: cow_entry_def or.assoc)
  then show "cow_entry p AND PTE_P \<noteq> 0" "cow_entry p AND PTE_U \<noteq> 0" "cow_entry p AND PTE_W = 0"
    by (simp_all add: cow_perm_def layout)
qed

lemma last_page: "frame va < unat USTACKTOP div 4096 \<longleftrightarrow> va < USTACKTOP"
proof
  assume "frame va < unat USTACKTOP div 4096"
  then have "unat va div 4096 < 977918" by (simp add: frame_def layout)
  then show "va < USTACKTOP" by (simp add: word_less_nat_alt layout div_less_iff_less_mult)
next
  assume "va < USTACKTOP"
  then have "unat va < 977918 * 4096" by (simp add: word_less_nat_alt layout)
  then have "unat va div 4096 < 977918" by (simp add: less_mult_imp_div_less)
  then show "frame va < unat USTACKTOP div 4096" by (simp add: frame_def layout)
qed

lemma fork_view:
  assumes ok: "fork_ok s c e envid xs role" and fk: "fork_inv s c e (unat USTACKTOP div 4096) t"
    and va: "va < USTACKTOP"
  defines "d \<equiv> env_pgdir (envs s c)" and "d' \<equiv> env_pgdir (envs s e)"
  shows "shared t d' va = shared s d va" "shared t d va = shared s d va"
    "shared s d va \<Longrightarrow> frame (pte_of t d' va) = frame (pte_of s d va)"
    "shared s d va \<Longrightarrow> frame (pte_of t d va) = frame (pte_of s d va)"
    "shared s d va \<Longrightarrow> pte_of t d' va AND PTE_W = 0" "shared s d va \<Longrightarrow> pte_of t d va AND PTE_W = 0"
proof -
  note k = fork_okD [OF ok, folded d_def d'_def]
  have f: "forked s c e (unat USTACKTOP div 4096) t" using fk by (simp add: fork_inv_def)
  have u: "va < UTOP" using va by (simp add: word_less_nat_alt layout)
  note fd = forkedD(2) [OF f k(9) u, folded d_def d'_def, unfolded last_page]
    and fd' = forkedD(2) [OF f k(10) u, folded d_def d'_def, unfolded last_page]
  have child: "pte_of t d' va = (if shared s d va then cow_entry (pte_of s d va) else pte_of s d' va)"
    using fd' va by simp
  have parent: "pte_of t d va =
      (if shared s d va \<and> is_cow (pte_of s d va) then cow_entry (pte_of s d va) else pte_of s d va)"
    using fd va k(3) by auto
  have ns: "\<not> shared s d' va" using k(4) [OF va] by (simp add: shared_def)
  show "shared t d' va = shared s d va" using child ns cow_entry_flags by (auto simp: shared_def)
  show "shared t d va = shared s d va" using parent cow_entry_flags by (auto simp: shared_def)
  have fr: "frame (cow_entry (pte_of s d va)) = frame (pte_of s d va)" if "shared s d va"
    using frame_cow_entry [OF k(1,9) u] that by (simp add: shared_def)
  show "frame (pte_of t d' va) = frame (pte_of s d va)" "frame (pte_of t d va) = frame (pte_of s d va)"
      "pte_of t d' va AND PTE_W = 0" "pte_of t d va AND PTE_W = 0" if "shared s d va"
    using that child parent fr cow_entry_flags(3) by (auto simp: is_cow_def)
qed

lemma fork_inv_spaces:
  assumes ok: "fork_ok s c e envid xs role" and fk: "fork_inv s c e n t"
  shows "self_map t (env_pgdir (envs s c))" "self_map t (env_pgdir (envs s e))"
    "self_map s (env_pgdir (envs s c))" "self_map s (env_pgdir (envs s e))"
    "aligned 4096 (env_pgdir (envs s c) - KERNBASE)" "aligned 4096 (env_pgdir (envs s e) - KERNBASE)"
    "same_run s t" "e \<noteq> c"
proof -
  note k = fork_okD [OF ok]
  obtain ys r where "ready t c ys r" using fk unfolding fork_inv_def by blast
  then have r: "running t c" by (simp add: ready_def)
  show same: "same_run s t" using fk by (simp add: fork_inv_def forked_def)
  show "self_map t (env_pgdir (envs s c))" "self_map t (env_pgdir (envs s e))"
    using r k(10,12) fk same_run_facts(1) [OF same] unfolding running_def fork_inv_def by auto
  show "self_map s (env_pgdir (envs s c))" "self_map s (env_pgdir (envs s e))"
    using k(1,12) by (simp_all add: ready_def running_def)
  show "aligned 4096 (env_pgdir (envs s c) - KERNBASE)" "aligned 4096 (env_pgdir (envs s e) - KERNBASE)"
    using ready_space(3) [OF k(1)] k(7,8) by simp_all
  show "e \<noteq> c" using k(3) by auto
qed

text \<open>After the loop both read below \<open>USTACKTOP\<close> what the parent read before, and neither can
  write there.\<close>

lemma dup_pages_view:
  assumes ok: "fork_ok s c e envid xs role" and fk: "fork_inv s c e (unat USTACKTOP div 4096) t"
    and va: "va < USTACKTOP"
  defines "d \<equiv> env_pgdir (envs s c)" and "d' \<equiv> env_pgdir (envs s e)"
  shows "user_byte t d' va = user_byte s d va" "user_byte t d va = user_byte s d va"
    "\<not> user_writable t d' va" "\<not> user_writable t d va"
proof -
  note k = fork_okD [OF ok, folded d_def d'_def] and v = fork_view [OF ok fk va, folded d_def d'_def]
    and sp = fork_inv_spaces [OF ok fk, folded d_def d'_def]
  have f: "forked s c e (unat USTACKTOP div 4096) t" using fk by (simp add: fork_inv_def)
  have u: "va < UTOP" using va by (simp add: word_less_nat_alt layout)
  have data: "pmem t a = pmem s a" if "shared s d va" "frame a = frame (pte_of s d va)" for a
    using forkedD(3) [OF f k(9) u] that by (simp add: shared_def)
  show "user_byte t d' va = user_byte s d va" "user_byte t d va = user_byte s d va"
    by (rule user_byte_transfer; use sp u v data in simp)+
  show "\<not> user_writable t d' va" "\<not> user_writable t d va"
    using user_writable_pte [OF sp(6), of t va] user_writable_pte [OF sp(5), of t va] v by (auto simp: shared_def)
qed

subsection \<open>The parent's side of fork\<close>

lemma stack_page: "UXSTACKTOP - PGSIZE < UTOP" "aligned 4096 (UXSTACKTOP - PGSIZE)"
    "PGNUM va = PGNUM (UXSTACKTOP - PGSIZE) \<longleftrightarrow> UXSTACKTOP - PGSIZE \<le> va \<and> va < UXSTACKTOP"
proof -
  show "UXSTACKTOP - PGSIZE < UTOP" "aligned 4096 (UXSTACKTOP - PGSIZE)" by (simp_all add: layout aligned_def)
  have "PGNUM va = PGNUM (UXSTACKTOP - PGSIZE) \<longleftrightarrow> unat va div 4096 = 977919"
    by (simp add: word_unat_eq_iff unat_PGNUM layout)
  also have "\<dots> \<longleftrightarrow> 977919 \<le> unat va div 4096 \<and> unat va div 4096 < 977920" by auto
  also have "\<dots> \<longleftrightarrow> 4005556224 \<le> unat va \<and> unat va < 4005560320"
    using less_eq_div_iff_mult_less_eq [of 4096 977919 "unat va"] div_less_iff_less_mult [of 4096 "unat va" 977920] by simp
  also have "\<dots> \<longleftrightarrow> UXSTACKTOP - PGSIZE \<le> va \<and> va < UXSTACKTOP"
    by (simp add: word_le_nat_alt word_less_nat_alt layout)
  finally show "PGNUM va = PGNUM (UXSTACKTOP - PGSIZE) \<longleftrightarrow> UXSTACKTOP - PGSIZE \<le> va \<and> va < UXSTACKTOP" .
qed

text \<open>A page that is as it was is seen as it was.\<close>

lemma user_byte_kept:
  assumes "ready s c xs role" "d \<in> spaces s" "aligned 4096 (d - KERNBASE)" "self_map s d" "self_map t d" "va < UTOP"
    and "pte_of t d va = pte_of s d va"
    and "\<And>a. pte_of s d va AND PTE_P \<noteq> 0 \<Longrightarrow> frame a = frame (pte_of s d va) \<Longrightarrow> pmem t a = pmem s a"
  shows "user_byte t d va = user_byte s d va"
  by (rule user_byte_transfer) (use assms in \<open>auto simp: shared_def\<close>)

text \<open>The exception stack of the child.\<close>

lemma fork_stack:
  assumes ok: "fork_ok s c e envid xs role" and fk: "fork_inv s c e (unat USTACKTOP div 4096) t"
  defines "d' \<equiv> env_pgdir (envs s e)"
  shows "\<exists>u ys r. usys_page_alloc w envid (UXSTACKTOP - PGSIZE) (PTE_U OR PTE_W OR PTE_P) t = Ret 0 u \<and>
    ready u c ys r \<and> same_run t u \<and> (\<forall>x \<in> spaces s. self_map t x \<longrightarrow> self_map u x) \<and>
    (\<forall>x va. x \<in> spaces s \<longrightarrow> va < UTOP \<longrightarrow> \<not> (x = d' \<and> UXSTACKTOP - PGSIZE \<le> va) \<longrightarrow>
       self_map t x \<longrightarrow> user_byte u x va = user_byte t x va \<and> pte_of u x va = pte_of t x va) \<and>
    (\<forall>va. UXSTACKTOP - PGSIZE \<le> va \<and> va < UXSTACKTOP \<longrightarrow> user_byte u d' va = Some 0 \<and> user_writable u d' va)"
proof -
  note sp = fork_inv_spaces [OF ok fk, folded d'_def] and k = fork_okD [OF ok, folded d'_def]
  note sm = same_run_facts [OF sp(7)]
  let ?v = "UXSTACKTOP - PGSIZE :: u32" and ?perm = "PTE_U OR PTE_W OR PTE_P"
  obtain ys r where t: "ready t c ys r" "2 \<le> length ys" "\<forall>g \<in> set ys. unat (pp_ref (pages t g)) \<le> 32767"
    using fk unfolding fork_inv_def by (metis add_leD2)
  then obtain q zs where q: "ys = q # zs" "zs \<noteq> []" by (metis Suc_le_length_iff length_0_conv numeral_2_eq_2 Suc_n_not_le_n zero_less_Suc list.size(3) not_less_eq_eq le0)
  have rd: "ready t c (q # zs) r" and refs: "unat (pp_ref (pages t q)) < 65534" using t q by auto
  have found: "found_env t c envid = Some e" using k(2) sm(6) by simp
  obtain u ys' r' where u: "usys_page_alloc w envid ?v ?perm t = Ret 0 u" "ready u c ys' r'" "same_run t u"
    and pte: "\<And>x va'. x \<in> spaces t \<Longrightarrow> va' < UTOP \<Longrightarrow> pte_of u x va' =
      (if x = env_pgdir (envs t e) \<and> PGNUM va' = PGNUM ?v then page2pa q OR ?perm OR PTE_P else pte_of t x va')"
    and data: "\<And>x va' a. x \<in> spaces t \<Longrightarrow> va' < UTOP \<Longrightarrow> pte_of t x va' AND PTE_P \<noteq> 0 \<Longrightarrow>
      frame a = frame (pte_of t x va') \<Longrightarrow> frame a \<noteq> q \<and> pmem u a = pmem t a"
    and zero: "\<And>a. frame a = q \<Longrightarrow> pmem u a = 0"
    and self: "\<And>x. x \<in> spaces t \<Longrightarrow> self_map t x \<Longrightarrow> self_map u x" and q16: "q < 65536"
    by (rule usys_page_alloc_view [where w = w, OF rd found stack_page(1) _ _ refs, of ?perm]) (use q in \<open>simp_all add: layout\<close>)
  have p: "perm < 4096" "?perm OR PTE_P < 4096" if "perm = ?perm" for perm :: u32 using that by (simp_all add: layout)
  have kept: "user_byte u x va = user_byte t x va \<and> pte_of u x va = pte_of t x va"
    if x: "x \<in> spaces s" "va < UTOP" "\<not> (x = d' \<and> ?v \<le> va)" "self_map t x" for x va
  proof -
    have xt: "x \<in> spaces t" using x(1) sm(3) by simp
    have same: "pte_of u x va = pte_of t x va"
      using pte [OF xt x(2)] x(3) stack_page(3) [of va] sm(1) by (auto simp: d'_def)
    have al: "aligned 4096 (x - KERNBASE)"
      using frames_okD(1) [OF mem_invD(4)] rd xt by (auto simp: ready_def)
    have "user_byte u x va = user_byte t x va"
      by (rule user_byte_kept [OF rd xt al x(4) self [OF xt x(4)] x(2) same]) (use data [OF xt x(2)] in blast)
    with same show ?thesis by blast
  qed
  have stack: "user_byte u d' va = Some 0 \<and> user_writable u d' va" if "?v \<le> va \<and> va < UXSTACKTOP" for va
  proof -
    have va: "va < UTOP" using that by (simp add: layout)
    have dt: "d' \<in> spaces t" using k(10) sm(3) by simp
    have e: "pte_of u d' va = page2pa q OR (?perm OR PTE_P)"
      using pte [OF dt va] stack_page(3) [of va] that sm(1) by (simp add: d'_def or.assoc)
    have fl: "pte_of u d' va AND m = (?perm OR PTE_P) AND m" if "m < 4096" for m
      unfolding e by (rule page_flags [OF that])
    have sh: "shared u d' va" and wr: "pte_of u d' va AND PTE_W \<noteq> 0"
      using fl [of PTE_P] fl [of PTE_U] fl [of PTE_W] by (simp_all add: shared_def layout)
    have um: "self_map u d'" using self [OF dt] sp(2) by simp
    have "frame (pte_of u d' va) = q" unfolding e
      using frame_entry [OF q16, of ?perm] by (simp add: layout or.assoc)
    then have "user_byte u d' va = Some 0"
      using user_byte_eq [OF sp(6) um va] sh zero frame_in_page by simp
    moreover have "user_writable u d' va"
      using user_writable_iff [OF sp(6) um va] sh wr by simp
    ultimately show ?thesis by simp
  qed
  show ?thesis
    using u kept stack self sm(3) by blast
qed

lemma usys_env_set:
  assumes "running s c" "found_env s c envid = Some e" "e \<noteq> c"
  shows "usys_env_set_pgfault_upcall w envid func s =
      Ret 0 (upd_env e (\<lambda>env. env\<lparr>env_pgfault_upcall := func\<rparr>) s)"
    and "usys_env_set_status w envid ENV_RUNNABLE s =
      Ret 0 (upd_env e (\<lambda>env. env\<lparr>env_status := ENV_RUNNABLE\<rparr>) s)"
proof -
  have c: "curenv s = Some c" "env_status (envs s c) = ENV_RUNNING" using assms(1) by (auto simp: running_def)
  note w = with_env_checked [OF c(1), of envid]
  show "usys_env_set_pgfault_upcall w envid func s =
      Ret 0 (upd_env e (\<lambda>env. env\<lparr>env_pgfault_upcall := func\<rparr>) s)"
    unfolding usys_env_set_pgfault_upcall_def
    by (rule usyscall_Ret [OF c(1)])
      (use c(2) assms(2,3) in \<open>simp_all add: syscall_def sys_env_set_pgfault_upcall_def w kbind_Ret kret_def\<close>)
  show "usys_env_set_status w envid ENV_RUNNABLE s =
      Ret 0 (upd_env e (\<lambda>env. env\<lparr>env_status := ENV_RUNNABLE\<rparr>) s)"
    unfolding usys_env_set_status_def
    by (rule usyscall_Ret [OF c(1)])
      (use c(2) assms(2,3) in \<open>simp_all add: syscall_def sys_env_set_status_def w kbind_Ret kret_def\<close>)
qed

lemma running_upd_env:
  assumes "running s c" "e \<noteq> c"
  shows "running (upd_env e g s) c"
proof -
  have pm: "pmem (upd_env e g s) = pmem s" by simp
  show ?thesis
    using assms by (simp add: running_def self_map_def has_table_def vspace_cong [OF pm] live_def)
qed

lemma found_env_upd_env:
  "found_env s c envid = Some e \<Longrightarrow> e \<noteq> c \<Longrightarrow> env_status (g (envs s e)) \<noteq> ENV_FREE \<Longrightarrow> env_id (g (envs s e)) = env_id (envs s e) \<Longrightarrow>
    env_parent_id (g (envs s e)) = env_parent_id (envs s e) \<Longrightarrow> found_env (upd_env e g s) c envid = Some e"
  by (auto simp: found_env_def split: if_splits)

text \<open>The bytes of all address spaces after the loop: the loop writes none of them.\<close>

lemma dup_pages_others:
  assumes ok: "fork_ok s c e envid xs role" and fk: "fork_inv s c e n t"
    and x: "x \<in> spaces s" "x \<noteq> env_pgdir (envs s e)" "self_map s x" "va < UTOP"
  shows "user_byte t x va = user_byte s x va"
proof -
  note k = fork_okD [OF ok]
  have f: "forked s c e n t" using fk by (simp add: fork_inv_def)
  have al: "aligned 4096 (x - KERNBASE)" using frames_okD(1) [OF mem_invD(4) [OF k(11) x(1)]] .
  have sm: "self_map t x" using fk x(1,3) unfolding fork_inv_def by blast
  have "pte_of t x va = pte_of s x va \<or>
      shared s x va \<and> pte_of t x va = cow_entry (pte_of s x va)"
    using forkedD(2) [OF f x(1,4)] x(2) by auto
  then have "shared t x va = shared s x va" "shared s x va \<Longrightarrow> frame (pte_of t x va) = frame (pte_of s x va)"
    using cow_entry_flags frame_cow_entry [OF k(1) x(1,4)] by (auto simp: shared_def)
  then show ?thesis
    by (rule user_byte_transfer [OF al x(3) al sm x(4)])
      (use forkedD(3) [OF f x(1,4)] in \<open>auto simp: shared_def\<close>)
qed

text \<open>The steps of the parent, in order.\<close>

lemma fork_parent_run:
  assumes ok: "fork_ok s c e envid xs role"
  obtains t u where "fork_inv s c e (unat USTACKTOP div 4096) t" "same_run s u" "isolated u"
    "fork_parent w im envid s = Ret envid (upd_env e (\<lambda>env. env\<lparr>env_status := ENV_RUNNABLE\<rparr>)
       (upd_env e (\<lambda>env. env\<lparr>env_pgfault_upcall := sym_pgfault_upcall im\<rparr>) u))"
    "\<And>x va. x \<in> spaces s \<Longrightarrow> va < UTOP \<Longrightarrow> \<not> (x = env_pgdir (envs s e) \<and> UXSTACKTOP - PGSIZE \<le> va) \<Longrightarrow>
       self_map s x \<Longrightarrow> user_byte u x va = user_byte t x va \<and> pte_of u x va = pte_of t x va"
    "\<And>va. UXSTACKTOP - PGSIZE \<le> va \<Longrightarrow> va < UXSTACKTOP \<Longrightarrow>
       user_byte u (env_pgdir (envs s e)) va = Some 0 \<and> user_writable u (env_pgdir (envs s e)) va"
proof -
  note k = fork_okD [OF ok]
  let ?g = "\<lambda>env. env\<lparr>env_pgfault_upcall := sym_pgfault_upcall im\<rparr>"
  obtain t where t: "dup_pages w envid s = Ret () t" "fork_inv s c e (unat USTACKTOP div 4096) t"
    using dup_pages_run [OF ok] by blast
  note sp = fork_inv_spaces [OF ok t(2)]
  obtain u ys r where u: "usys_page_alloc w envid (UXSTACKTOP - PGSIZE) (PTE_U OR PTE_W OR PTE_P) t = Ret 0 u"
    "ready u c ys r" "same_run t u"
    and v: "\<forall>x va. x \<in> spaces s \<longrightarrow> va < UTOP \<longrightarrow> \<not> (x = env_pgdir (envs s e) \<and> UXSTACKTOP - PGSIZE \<le> va) \<longrightarrow>
       self_map t x \<longrightarrow> user_byte u x va = user_byte t x va \<and> pte_of u x va = pte_of t x va"
    and st: "\<forall>va. UXSTACKTOP - PGSIZE \<le> va \<and> va < UXSTACKTOP \<longrightarrow>
       user_byte u (env_pgdir (envs s e)) va = Some 0 \<and> user_writable u (env_pgdir (envs s e)) va"
    using fork_stack [OF ok t(2)] by blast
  have su: "same_run s u" by (rule same_run_trans [OF sp(7) u(3)])
  note sm = same_run_facts [OF su]
  have run: "running u c" "isolated u" using u(2) by (auto simp: ready_def isolated_def)
  have found: "found_env u c envid = Some e" using k(2) sm(6) by simp
  have found2: "found_env (upd_env e ?g u) c envid = Some e"
    using found_env_upd_env [OF found sp(8), of ?g] k(8) sm(1) by (simp add: live_def)
  have "fork_parent w im envid s = Ret envid (upd_env e (\<lambda>env. env\<lparr>env_status := ENV_RUNNABLE\<rparr>) (upd_env e ?g u))"
    using t(1) u(1) usys_env_set(1) [OF run(1) found sp(8)]
      usys_env_set(2) [OF running_upd_env [OF run(1) sp(8)] found2 sp(8)]
    by (simp add: fork_parent_def kbind_Ret kret_def)
  moreover have "self_map t x" if "x \<in> spaces s" "self_map s x" for x
    using t(2) that unfolding fork_inv_def by blast
  ultimately show ?thesis using that [OF t(2) su run(2)] v st by blast
qed

text \<open>What \<open>fork\<close> does with the child once it exists: it returns, and then the child reads below
  \<open>USTACKTOP\<close> the same bytes as the parent, neither can write there, so that both copies stay as
  they are until a fault gives one of them a copy of its own; all other address spaces read the
  same bytes as before; the child has a fresh exception stack and is runnable; memory is isolated.
  There must be a free page for every page table the child needs, and two more.\<close>

lemma fork_copies:
  assumes "fork_ok s c e envid xs role"
  shows "\<exists>v. fork_parent w im envid s = Ret envid v \<and> isolated v \<and>
    (\<forall>va. va < USTACKTOP \<longrightarrow>
       user_byte v (env_pgdir (envs s e)) va = user_byte s (env_pgdir (envs s c)) va \<and>
       \<not> user_writable v (env_pgdir (envs s e)) va \<and> \<not> user_writable v (env_pgdir (envs s c)) va) \<and>
    (\<forall>x va. x \<in> spaces s \<and> x \<noteq> env_pgdir (envs s e) \<and> self_map s x \<and> va < UTOP \<longrightarrow>
       user_byte v x va = user_byte s x va) \<and>
    (\<forall>va. UXSTACKTOP - PGSIZE \<le> va \<and> va < UXSTACKTOP \<longrightarrow>
       user_byte v (env_pgdir (envs s e)) va = Some 0 \<and> user_writable v (env_pgdir (envs s e)) va) \<and>
    envs v = (envs s)(e := (envs s e)\<lparr>env_pgfault_upcall := sym_pgfault_upcall im, env_status := ENV_RUNNABLE\<rparr>)"
proof -
  note k = fork_okD [OF assms]
  let ?d = "env_pgdir (envs s c)" and ?d' = "env_pgdir (envs s e)"
  let ?g = "\<lambda>env. env\<lparr>env_pgfault_upcall := sym_pgfault_upcall im\<rparr>" and ?h = "\<lambda>env. env\<lparr>env_status := ENV_RUNNABLE\<rparr>"
  obtain t u where t: "fork_inv s c e (unat USTACKTOP div 4096) t" and u: "same_run s u" "isolated u"
    and run: "fork_parent w im envid s = Ret envid (upd_env e ?h (upd_env e ?g u))"
    and kept: "\<And>x va. x \<in> spaces s \<Longrightarrow> va < UTOP \<Longrightarrow> \<not> (x = ?d' \<and> UXSTACKTOP - PGSIZE \<le> va) \<Longrightarrow>
       self_map s x \<Longrightarrow> user_byte u x va = user_byte t x va \<and> pte_of u x va = pte_of t x va"
    and stack: "\<And>va. UXSTACKTOP - PGSIZE \<le> va \<Longrightarrow> va < UXSTACKTOP \<Longrightarrow> user_byte u ?d' va = Some 0 \<and> user_writable u ?d' va"
    using fork_parent_run [OF assms] by metis
  note sp = fork_inv_spaces [OF assms t] and sm = same_run_facts [OF u(1)]
  have "live u e" using k(8) sm(5) by simp
  then have iso: "isolated (upd_env e ?h (upd_env e ?g u))"
    by (intro isolated_upd_env u(2)) (simp_all add: live_def)
  have below: "user_byte u ?d' va = user_byte s ?d va \<and> \<not> user_writable u ?d' va \<and> \<not> user_writable u ?d va"
    if va: "va < USTACKTOP" for va
  proof -
    have l: "va < UTOP" "\<not> UXSTACKTOP - PGSIZE \<le> va" using va by (simp_all add: word_less_nat_alt word_le_nat_alt layout)
    note c = kept [OF k(10) l(1) _ sp(4)] and p = kept [OF k(9) l(1) _ sp(3)] and v = fork_view [OF assms t va]
    have "pte_of u ?d' va AND PTE_W = 0 \<or> \<not> shared u ?d' va" "pte_of u ?d va AND PTE_W = 0 \<or> \<not> shared u ?d va"
      using c p l(2) v by (auto simp: shared_def)
    then have "\<not> user_writable u ?d' va \<and> \<not> user_writable u ?d va"
      using user_writable_pte [OF sp(6), of u va] user_writable_pte [OF sp(5), of u va] by (auto simp: shared_def)
    then show ?thesis using c l(2) dup_pages_view(1) [OF assms t va] by simp
  qed
  have others: "user_byte u x va = user_byte s x va" if "x \<in> spaces s" "x \<noteq> ?d'" "self_map s x" "va < UTOP" for x va
    using kept [OF that(1,4) _ that(3)] dup_pages_others [OF assms t that] that(2) by simp
  have "envs (upd_env e ?h (upd_env e ?g u)) =
      (envs s)(e := (envs s e)\<lparr>env_pgfault_upcall := sym_pgfault_upcall im, env_status := ENV_RUNNABLE\<rparr>)"
    using sm(1) by (simp add: fun_eq_iff)
  then show ?thesis
    using run iso below others stack by (intro exI [of _ "upd_env e ?h (upd_env e ?g u)"]) simp
qed

end
