(* ===== verification/Fork_Sample.thy ===== *)
theory Fork_Sample
  imports Fork_Spec
begin

text \<open>
  A machine on which a user program runs: environment 0 is running, its directory maps itself at
  \<open>UVPT\<close>, the page at \<open>UTEXT\<close> is page 7 with the given flags, and pages 4, 3, 2 and 1 are free.
  The user page holds a fault address and an error code at its bytes 16 to 23.
\<close>

primrec put_slots :: "(u32 \<times> u32 \<times> u32) list \<Rightarrow> memory" where
  "put_slots [] = (\<lambda>_. 0)"
| "put_slots (e # es) = store32 (put_slots es) (fst e + 4 * fst (snd e)) (snd (snd e))"

lemma load_put_slots:
  assumes "\<forall>(b, x, v) \<in> set es. aligned 4096 b \<and> unat x < 1024" "aligned 4096 c" "unat y < 1024"
  shows "load32 (put_slots es) (c + 4 * y) =
    (case find (\<lambda>(b, x, v). b = c \<and> x = y) es of None \<Rightarrow> 0 | Some (b, x, v) \<Rightarrow> v)"
  using assms(1)
proof (induction es)
  case (Cons e es)
  obtain b x v where e: "e = (b, x, v)" by (cases e)
  then have "aligned 4096 b" "unat x < 1024" using Cons.prems by auto
  from load_store_slot [OF this assms(2,3)] Cons e show ?case by auto
qed simp

definition user_memory :: "u32 \<Rightarrow> memory" where
  "user_memory e = put_slots [(0x5000, 2, 0x6007), (0x5000, 0x3BD, 0x5005), (0x6000, 0, e),
     (0x7000, 4, 0x800020), (0x7000, 5, 2)]"

definition paged_machine :: "u32 \<Rightarrow> kstate" where
  "paged_machine e = (set_curenv (Some 0) small_machine)\<lparr>pmem := user_memory e, kern_pgdir := 0xF0009000,
     pages := (\<lambda>i. \<lparr>pp_link = (if i = 4 then Some 3 else if i = 3 then Some 2 else if i = 2 then Some 1 else None),
                  pp_ref = (if i \<in> {1, 2, 3, 4} then 0 else 1)\<rparr>),
     envs := (\<lambda>i. (envs small_machine i)\<lparr>env_status := (if i = 0 then ENV_RUNNING else ENV_FREE)\<rparr>)\<rparr>"

lemma paged_machine_fields [simp]:
  "pmem (paged_machine e) = user_memory e" "kern_pgdir (paged_machine e) = 0xF0009000" "npages (paged_machine e) = 64"
  "pp_link (pages (paged_machine e) i) = (if i = 4 then Some 3 else if i = 3 then Some 2 else if i = 2 then Some 1 else None)"
  "pp_ref (pages (paged_machine e) i) = (if i \<in> {1, 2, 3, 4} then 0 else 1)" "page_free_list (paged_machine e) = Some 4"
  "env_status (envs (paged_machine e) i) = (if i = 0 then ENV_RUNNING else ENV_FREE)"
  "env_pgdir (envs (paged_machine e) i) = (if i = 0 then sample_pgdir else 0)" "env_free_list (paged_machine e) = Some 1"
  "curenv (paged_machine e) = Some 0" "cr3 (paged_machine e) = (\<lambda>_. 0x5000)" "thiscpu (paged_machine e) = 0"
  "env_id (envs (paged_machine e) i) = (if i = 0 then 0x1000 else 0)"
  by (simp_all add: paged_machine_def curenv_def) (simp_all add: set_curenv_def small_machine_def)

lemma user_memory_slots:
  assumes "unat y < 1024"
  shows "load32 (user_memory e) (0x5000 + 4 * y) = (if y = 0x3BD then 0x5005 else if y = 2 then 0x6007 else 0)"
    "load32 (user_memory e) (0x6000 + 4 * y) = (if y = 0 then e else 0)"
    "load32 (user_memory e) (0x7000 + 4 * y) = (if y = 5 then 2 else if y = 4 then 0x800020 else 0)"
    "load32 (user_memory e) (0x9000 + 4 * y) = 0"
proof -
  have al: "aligned 4096 0x5000" "aligned 4096 0x6000" "aligned 4096 0x7000" "aligned 4096 0x9000"
    by (simp_all add: aligned_def)
  note l = load_put_slots [OF _ _ assms]
  show "load32 (user_memory e) (0x5000 + 4 * y) = (if y = 0x3BD then 0x5005 else if y = 2 then 0x6007 else 0)"
    "load32 (user_memory e) (0x6000 + 4 * y) = (if y = 0 then e else 0)"
    "load32 (user_memory e) (0x7000 + 4 * y) = (if y = 5 then 2 else if y = 4 then 0x800020 else 0)"
    "load32 (user_memory e) (0x9000 + 4 * y) = 0"
    unfolding user_memory_def by (subst l; auto simp: al)+
qed

lemma paged_machine_vm:
  "pde_of (paged_machine e) sample_pgdir va = (if PDX va = 0x3BD then 0x5005 else if PDX va = 2 then 0x6007 else 0)"
  "PDX va \<noteq> PDX UVPT \<Longrightarrow> pte_of (paged_machine e) sample_pgdir va = (if PDX va = 2 \<and> PTX va = 0 then e else 0)"
  "pde_of (paged_machine e) 0xF0009000 va = 0" "pte_of (paged_machine e) 0xF0009000 va = 0"
proof -
  show p: "pde_of (paged_machine e) sample_pgdir va = (if PDX va = 0x3BD then 0x5005 else if PDX va = 2 then 0x6007 else 0)" for va
    using user_memory_slots(1) [OF PDX_less, of e va] by (simp add: pde_of_def layout)
  show "pte_of (paged_machine e) sample_pgdir va = (if PDX va = 2 \<and> PTX va = 0 then e else 0)" if "PDX va \<noteq> PDX UVPT"
    using user_memory_slots(2) [OF PTX_less, of e va] that p [of va] by (auto simp: pte_of_def layout PTE_ADDR_def)
  show k: "pde_of (paged_machine e) 0xF0009000 va = 0"
    using user_memory_slots(4) [OF PDX_less, of e va] by (simp add: pde_of_def layout)
  show "pte_of (paged_machine e) 0xF0009000 va = 0" using k by (simp add: pte_of_def)
qed

lemma page_of_7:
  assumes "e = 0x7007 \<or> e = 0x7805"
  shows "frame e = 7" "e AND PTE_P \<noteq> 0" "e AND PTE_U \<noteq> 0" "e AND 0xFFF \<noteq> 0"
  using assms by (auto simp: frame_def layout)

lemma user_page_va: "PDX va = 2 \<Longrightarrow> va < UTOP" "PDX va = 2 \<Longrightarrow> va < USTACKTOP"
proof -
  assume "PDX va = 2"
  from arg_cong [OF this, of unat] have "unat va div 4194304 = 2" by (simp add: unat_PDX)
  then have "unat va < 12582912" by simp
  then show "va < UTOP" "va < USTACKTOP" by (simp_all add: word_less_nat_alt layout)
qed

lemma only_page:
  assumes "aligned 4096 va" "PDX va = 2" "PTX va = 0"
  shows "va = 0x800000"
proof -
  have "PGNUM va = PGNUM 0x800000" using assms by (simp add: same_page_iff)
  then have "frame va = frame 0x800000" using unat_PGNUM [of va] unat_PGNUM [of "0x800000"] by (simp add: frame_def)
  then show ?thesis using frame_eq_iff [of va "0x800000"] assms(1) by (simp add: aligned_def)
qed

lemma paged_machine_spaces: "user_spaces (paged_machine e) = {sample_pgdir}" "live (paged_machine e) i \<longleftrightarrow> i = 0"
  by (auto simp: user_spaces_def live_def layout)

lemma paged_machine_ready:
  assumes e: "e = 0x7007 \<or> e = 0x7805"
  shows "ready (paged_machine e) 0 [4, 3, 2, 1] machine_role"
proof -
  let ?s = "paged_machine e" and ?D = "{0xF0009000, sample_pgdir}"
  have low: "pte_of ?s sample_pgdir va = (if PDX va = 2 \<and> PTX va = 0 then e else 0)" if "va < 0xEEC00000" for va
    using paged_machine_vm(2) [of va e] below_UTOP [of va] that by (simp add: layout)
  note v = paged_machine_vm(1,3,4) low and f = page_of_7 [OF e]
  have a: "aligned 4096 0x5000" "aligned 4096 0x9000" by (simp_all add: aligned_def)
  have fr: "frame 0x5000 = 5" "frame 0x9000 = 9" "frame 0x6007 = 6" "frame 0x5005 = 5"
    by (simp_all add: frame_def)
  have one: "frames_ok ?s sample_pgdir machine_role"
    using a fr f user_page_va by (auto simp: frames_ok_def has_table_def v machine_role_def table_role_def layout split: if_splits)
  have two: "frames_ok ?s 0xF0009000 machine_role"
    using a fr by (auto simp: frames_ok_def has_table_def v machine_role_def layout)
  have "mapped ?s ?D 7 \<subseteq> {(sample_pgdir, 0x800000)}"
    using only_page f by (auto simp: mapped_def v layout split: if_splits)
  from card_mono [OF _ this] have "card (mapped ?s ?D 7) \<le> 1" by simp
  moreover have "free_list ?s [4, 3, 2, 1]" by (simp add: free_list_def)
  ultimately have "mem_inv ?s ?D [4, 3, 2, 1] machine_role"
    using one two by (auto simp: mem_inv_def mem_ok_def machine_role_def)
  moreover have "kernel_clean ?s" by (simp add: kernel_clean_def paged_machine_spaces v)
  moreover have "self_map ?s sample_pgdir"
    by (auto simp: self_map_def v has_table_def user_table_def layout)
  then have "running ?s 0" by (simp add: running_def paged_machine_spaces layout)
  ultimately show ?thesis by (simp add: ready_def paged_machine_spaces)
qed

definition user_image :: uimage where
  "user_image = \<lparr>sym_pgfault_handler = 0x800100, sym_pgfault_upcall = 0x800200, sym_pgfault = 0x800300,
     sym_thisenv = 0x800104, sym_binaryname = 0x800108, sym_csa = 0x80010C\<rparr>"

lemma paged_machine_byte:
  assumes "e = 0x7007 \<or> e = 0x7805"
  shows "user_byte (paged_machine e) sample_pgdir 0x800010 = Some 0x20"
proof -
  have al: "aligned 4096 (sample_pgdir - KERNBASE)" by (simp add: aligned_def layout)
  have self: "self_map (paged_machine e) sample_pgdir"
    using paged_machine_ready [OF assms] by (simp add: ready_def running_def)
  have u: "0x800010 < UTOP" by (simp add: layout)
  have p: "pte_of (paged_machine e) sample_pgdir 0x800010 = e"
    using paged_machine_vm(2) [of "0x800010" e] by (simp add: PDX_def PTX_def layout)
  have b: "user_memory e 0x7010 = 0x20"
    by (simp add: user_memory_def store32_def)
  show ?thesis
    using assms b by (auto simp: user_byte_eq [OF al self u] shared_def p PTE_ADDR_def PGOFF_def layout)
qed

lemma paged_machine_pages: "PDX ` user_pages (paged_machine e) sample_pgdir \<subseteq> {2}"
proof -
  have "PDX va = 2" if "va < USTACKTOP" "shared (paged_machine e) sample_pgdir va" for va
    using that paged_machine_vm(2) [of va e] below_UTOP [of va]
    by (auto simp: shared_def layout word_less_nat_alt split: if_splits)
  then show ?thesis by (auto simp: user_pages_def)
qed

end
