(* ===== verification/Fork_Total.thy ===== *)
theory Fork_Total
  imports Fork_Sample
begin

text \<open>
  The whole of \<open>fork\<close> after the page-fault handler is installed: \<open>sys_exofork\<close> makes an
  environment with an empty address space, and the parent then fills it.
\<close>

subsection \<open>The child before it has memory\<close>

definition child_env :: "kstate \<Rightarrow> nat \<Rightarrow> nat \<Rightarrow> nat \<Rightarrow> Env" where
  "child_env s c e p = (envs s e)\<lparr>env_pgdir := page2pa p + KERNBASE, env_id := next_env_id (env_id (envs s e)) e,
     env_parent_id := env_id (envs s c), env_type := ENV_TYPE_USER, env_status := ENV_NOT_RUNNABLE, env_runs := 0,
     env_tf := (env_tf (envs s c))\<lparr>tf_regs := (tf_regs (env_tf (envs s c)))\<lparr>reg_eax := 0\<rparr>\<rparr>,
     env_pgfault_upcall := 0, env_ipc_recving := False\<rparr>"

lemma sys_exofork_state:
  assumes "vm_ready s p xs" "env_free_list s = Some e" "curenv s = Some c" "e \<noteq> c"
  obtains t where "sys_exofork s = Ret (next_env_id (env_id (envs s e)) e) t"
    "envs t = (envs s)(e := child_env s c e p)" "pmem t = pmem (vm_state e p s)" "pages t = pages (vm_state e p s)"
    "page_free_list t = page_free_list (vm_state e p s)" "npages t = npages s" "kern_pgdir t = kern_pgdir s"
    "cr3 t = cr3 s" "thiscpu t = thiscpu s" "curenv t = curenv s"
proof -
  let ?a = "alloc_env_state (env_id (envs s c)) e p s"
  obtain k where a: "env_alloc (env_id (envs s c)) s = Ret (0, Some e) (?a\<lparr>cons := k\<rparr>)"
    using env_alloc_Ret [OF assms(1,2)] by blast
  let ?b = "upd_env e (\<lambda>env. env\<lparr>env_tf := env_tf (envs s c), env_status := ENV_NOT_RUNNABLE\<rparr>) (?a\<lparr>cons := k\<rparr>)"
  let ?t = "upd_env e (\<lambda>env. env\<lparr>env_tf :=
     (env_tf env)\<lparr>tf_regs := (tf_regs (env_tf env))\<lparr>reg_eax := 0\<rparr>\<rparr>\<rparr>) ?b"
  have envs: "envs ?a = (envs s)(e := born (env_id (envs s c)) e ((envs s e)\<lparr>env_pgdir := page2pa p + KERNBASE\<rparr>))"
    by (simp add: alloc_env_state_def)
  have r: "sys_exofork s = Ret (env_id (envs ?t e)) ?t"
    using assms(3,4) a envs by (simp add: sys_exofork_def the_curenv_def kbind_Ret kget_def)
  have et: "envs ?t = (envs s)(e := child_env s c e p)"
    using envs by (simp add: child_env_def born_def fun_eq_iff)
  have "env_id (envs ?t e) = next_env_id (env_id (envs s e)) e" unfolding et by (simp add: child_env_def)
  with r have r: "sys_exofork s = Ret (next_env_id (env_id (envs s e)) e) ?t" by (simp only:)
  show ?thesis
    by (rule that [OF r et])
      (simp_all add: alloc_env_state_def take_free_env_def upd_env_def vm_state_def Let_def alloc_state_def
        take_free_page_def upd_page_def curenv_def)
qed

lemma child_env_fields [simp]:
  "env_pgdir (child_env s c e p) = page2pa p + KERNBASE" "env_status (child_env s c e p) = ENV_NOT_RUNNABLE"
  "env_id (child_env s c e p) = next_env_id (env_id (envs s e)) e" "env_parent_id (child_env s c e p) = env_id (envs s c)"
  by (simp_all add: child_env_def)

text \<open>The new address space beside the old ones.\<close>

definition new_space :: "kstate \<Rightarrow> kstate \<Rightarrow> nat \<Rightarrow> bool" where
  "new_space s t p \<longleftrightarrow> (let n = page2pa p + KERNBASE in
     user_spaces t = insert n (user_spaces s) \<and> kern_pgdir t = kern_pgdir s \<and> n \<notin> spaces s \<and> self_map t n \<and>
     (\<forall>va. va < UTOP \<longrightarrow> \<not> has_table t n va \<and> pte_of t n va = 0) \<and>
     (\<forall>d va. d \<in> spaces s \<longrightarrow> pde_of t d va = pde_of s d va) \<and>
     (\<forall>d va. d \<in> spaces s \<longrightarrow> va < UTOP \<longrightarrow> pte_of t d va = pte_of s d va) \<and>
     (\<forall>a. frame a \<noteq> p \<longrightarrow> pmem t a = pmem s a))"

lemma new_spaceD:
  assumes "new_space s t p"
  defines "n \<equiv> page2pa p + KERNBASE"
  shows "spaces t = insert n (spaces s)" "n \<notin> spaces s" "self_map t n"
    "\<And>va. va < UTOP \<Longrightarrow> \<not> has_table t n va" "\<And>va. va < UTOP \<Longrightarrow> pte_of t n va = 0"
    "\<And>d va. d \<in> spaces s \<Longrightarrow> pde_of t d va = pde_of s d va"
    "\<And>d va. d \<in> spaces s \<Longrightarrow> va < UTOP \<Longrightarrow> pte_of t d va = pte_of s d va"
    "\<And>a. frame a \<noteq> p \<Longrightarrow> pmem t a = pmem s a"
    "user_spaces t = insert n (user_spaces s)" "kern_pgdir t = kern_pgdir s"
proof -
  note u = assms(1) [unfolded new_space_def Let_def, folded n_def]
  show us: "user_spaces t = insert n (user_spaces s)" "kern_pgdir t = kern_pgdir s" using u by blast+
  show "spaces t = insert n (spaces s)" unfolding us by blast
qed (use assms(1) in \<open>unfold new_space_def Let_def n_def, blast\<close>)+

lemma vm_state_new_space:
  assumes inv: "mem_inv s (spaces s) (p # xs) role" and clean: "kernel_clean s" and e: "e < NENV" "env_status (envs s e) = ENV_FREE"
    and v: "env_pgdir v = page2pa p + KERNBASE" "env_status v \<noteq> ENV_FREE"
    and envs: "envs t = (envs s)(e := v)" and pm: "pmem t = pmem (vm_state e p s)"
    and k: "kern_pgdir t = kern_pgdir s"
  shows "new_space s t p"
proof -
  let ?n = "page2pa p + KERNBASE" and ?v = "vm_state e p s"
  have kd: "kern_pgdir s \<in> spaces s" by simp
  note m = mem_inv_vm_state [OF inv kd clean]
  have us: "user_spaces t = insert ?n (user_spaces s)"
  proof -
    have "{i. live t i} = insert e {i. live s i}"
      using e v unfolding envs live_def by auto
    moreover have "e \<notin> {i. live s i}" using e by (simp add: live_def)
    ultimately show ?thesis unfolding user_spaces_def envs using v(1) by (auto simp: image_def)
  qed
  have vp: "pde_of t d va = pde_of ?v d va" "pte_of t d va = pte_of ?v d va" for d va
    by (simp_all add: vspace_cong [OF pm])
  have pde: "pde_of t ?n va = (if PDX va = PDX UVPT then page2pa p OR PTE_P OR PTE_U else pde_of s (kern_pgdir s) va)"
    for va using pde_vm_state [OF m(6), of e va] by (simp add: vp)
  have none: "\<not> has_table t ?n va" if "va < UTOP" for va
    using pde [of va] clean that below_UTOP [OF that] by (simp add: has_table_def kernel_clean_def)
  have "pte_of t ?n va = 0" if "va < UTOP" for va
    using none [OF that] below_UTOP [OF that] by (rule pte_of_no_table [rotated])
  moreover have "self_map t ?n" using pde [of UVPT] none by (simp add: self_map_def)
  moreover have "pmem t a = pmem s a" if "frame a \<noteq> p" for a
    using m(4) [of e] that pm by (simp add: same_except_def)
  ultimately show ?thesis
    using m(2) m(3,5) [where e = e] none vp us k unfolding new_space_def Let_def by simp
qed

lemma user_page_counts: "card (missing A s d) \<le> card (PDX ` A)"
  by (rule card_mono) (auto simp: missing_def)

text \<open>\<open>sys_exofork\<close> as the parent sees it.\<close>

lemma exofork_run:
  assumes rd: "ready s c (p # xs) role" and e: "env_free_list s = Some e" "e < NENV" "env_status (envs s e) = ENV_FREE"
  obtains t where "usys_exofork w s = Ret (next_env_id (env_id (envs s e)) e) t" "new_space s t p"
    "ready t c xs (role(p := Directory (page2pa p + KERNBASE)))" "envs t = (envs s)(e := child_env s c e p)"
    "pages t = (pages s)(p := (pages s p)\<lparr>pp_ref := pp_ref (pages s p) + 1\<rparr>)" "curenv t = Some c" "e \<noteq> c"
proof -
  let ?id = "next_env_id (env_id (envs s e)) e" and ?n = "page2pa p + KERNBASE" and ?v = "vm_state e p s"
  have inv: "mem_inv s (spaces s) (p # xs) role" and clean: "kernel_clean s" and run: "running s c"
    using rd by (auto simp: ready_def)
  have c: "curenv s = Some c" "live s c" "env_status (envs s c) = ENV_RUNNING" "self_map s (env_pgdir (envs s c))"
      "cr3 s (thiscpu s) = env_pgdir (envs s c) - KERNBASE"
    using run by (auto simp: running_def)
  have ec: "e \<noteq> c" using e(3) c(2) by (auto simp: live_def)
  have kd: "kern_pgdir s \<in> spaces s" by simp
  note m = mem_inv_vm_state [OF inv kd clean]
  obtain t where t: "sys_exofork s = Ret ?id t" "envs t = (envs s)(e := child_env s c e p)" "pmem t = pmem ?v"
    "pages t = pages ?v" "page_free_list t = page_free_list ?v" "npages t = npages s" "kern_pgdir t = kern_pgdir s"
    "cr3 t = cr3 s" "thiscpu t = thiscpu s" "curenv t = curenv s"
    by (rule sys_exofork_state [OF m(6) e(1) c(1) ec])
  have call: "usys_exofork w s = Ret ?id t"
    unfolding usys_exofork_def
    by (rule int_syscall_Ret [OF c(1)]) (use t(1,2) c(3) ec in \<open>simp_all add: syscall_def layout\<close>)
  have new: "new_space s t p" by (rule vm_state_new_space [OF inv clean e(2,3) _ _ t(2,3,7)]) simp_all
  note n = new_spaceD [OF new]
  have "mem_inv t (spaces t) xs (role(p := Directory ?n))"
    unfolding n(1) using m(1) [of e] mem_inv_depends [of t ?v] t(3-6) by simp
  moreover have "kernel_clean t"
    using clean n(2,9,10) n(6) [OF kd] unfolding kernel_clean_def by auto
  moreover have "running t c"
  proof -
    have "env_pgdir (envs s c) \<in> spaces s" using ready_space(1) [OF rd c(2)] .
    then have "self_map t (env_pgdir (envs s c))" using c(4) n(6) by (simp add: self_map_def has_table_def)
    then show ?thesis using c t(2,8-10) ec by (simp add: running_def live_def)
  qed
  ultimately have rd': "ready t c xs (role(p := Directory ?n))" by (simp add: ready_def)
  have pg: "pages t = (pages s)(p := (pages s p)\<lparr>pp_ref := pp_ref (pages s p) + 1\<rparr>)"
    using t(4) by (simp add: fun_eq_iff)
  show ?thesis
    by (rule that [OF call new rd' t(2) pg _ ec]) (use t(10) c(1) in simp)
qed

text \<open>A new address space changes nothing of what the others read.\<close>

lemma new_space_bytes:
  assumes rd: "ready s c (p # xs) role" and new: "new_space s t p" and x: "x \<in> spaces s" "self_map s x" and va: "va < UTOP"
  shows "self_map t x" "user_byte t x va = user_byte s x va"
proof -
  note n = new_spaceD [OF new]
  have inv: "mem_inv s (spaces s) (p # xs) role" using rd by (simp add: ready_def)
  show self: "self_map t x" using x n(6) [OF x(1)] by (simp add: self_map_def has_table_def)
  have data: "pmem t a = pmem s a" if "pte_of s x va AND PTE_P \<noteq> 0" "frame a = frame (pte_of s x va)" for a
  proof (rule n(8))
    have "role (frame (pte_of s x va)) = Data" by (rule mapped_page(1) [OF inv x(1) va that(1)])
    moreover have "role p = Free" using mem_invD(3) [OF inv] by simp
    ultimately show "frame a \<noteq> p" using that(2) by force
  qed
  show "user_byte t x va = user_byte s x va"
    by (rule user_byte_kept [OF rd x(1) frames_okD(1) [OF mem_invD(4) [OF inv x(1)]] x(2) self va n(7) [OF x(1) va] data])
qed

lemma exofork_fork_ok:
  assumes rd: "ready s c (p # xs) role" and new: "new_space s t p"
    and rt: "ready t c xs r" and envs: "envs t = (envs s)(e := child_env s c e p)" and e: "e < NENV" "e \<noteq> c"
    and pages: "pages t = (pages s)(p := (pages s p)\<lparr>pp_ref := pp_ref (pages s p) + 1\<rparr>)"
    and mem: "card (PDX ` user_pages s (env_pgdir (envs s c))) + 2 \<le> length xs" and refs: "\<forall>f. unat (pp_ref (pages s f)) < 32767"
  shows "fork_ok t c e (next_env_id (env_id (envs s e)) e) xs r"
proof -
  let ?id = "next_env_id (env_id (envs s e)) e" and ?n = "page2pa p + KERNBASE" and ?d = "env_pgdir (envs s c)"
  note n = new_spaceD [OF new] and id = next_env_id_facts [OF e(1), of "env_id (envs s e)"]
  have lc: "live s c" using rd by (auto simp: ready_def running_def)
  have d: "?d \<in> spaces s" by (rule ready_space(1) [OF rd lc])
  have "?id \<noteq> 0" using id by auto
  then have found: "found_env t c ?id = Some e" using id e(2) envs by (simp add: found_env_def)
  have "user_pages t ?d = user_pages s ?d"
  proof -
    have "shared t ?d va = shared s ?d va" if "va < USTACKTOP" for va
      using n(7) [OF d, of va] that by (simp add: shared_def word_less_nat_alt layout)
    then show ?thesis by (auto simp: user_pages_def)
  qed
  then have room: "card (missing (user_pages t ?d) t ?n) + 2 \<le> length xs"
    using user_page_counts [of "user_pages s ?d" t ?n] mem by simp
  have none: "pte_of t ?n va AND PTE_P = 0" if "va < USTACKTOP" for va
    using n(5) [of va] that by (simp add: word_less_nat_alt layout)
  have low: "unat (pp_ref (pages t f)) \<le> 32767" for f
  proof (cases "f = p")
    case True
    have "unat (pp_ref (pages s p) + 1) \<le> unat (pp_ref (pages s p)) + 1" by (simp add: unat_word_ariths)
    then show ?thesis using True pages refs [rule_format, of p] by simp
  next
    case False
    then show ?thesis using pages refs [rule_format, of f] by simp
  qed
  have "?n \<noteq> ?d"
  proof
    assume eq: "?n = ?d"
    show False using n(2) d unfolding eq by (rule notE)
  qed
  then show ?thesis
    using rt found n(3) room none low e(2) envs by (simp add: fork_ok_def)
qed

text \<open>C1. Copy-on-write fork, from the call that makes the child to the return in the parent: it returns
  the identifier of the child, and then the child reads below \<open>USTACKTOP\<close> the bytes the parent had, neither
  can write there, so that both keep them until a fault gives one a copy of its own; every address
  space reads what it read before; the child has a fresh writable exception stack and is runnable
  with the registers of the parent and 0 as the result; memory is isolated.  There must be a free
  page for the directory, one for every page table the child needs, and two more.\<close>

theorem fork_duplicates:
  assumes "ready s c (p # xs) role" "env_free_list s = Some e" "e < NENV" "env_status (envs s e) = ENV_FREE"
    and "card (PDX ` user_pages s (env_pgdir (envs s c))) + 2 \<le> length xs" "\<forall>f. unat (pp_ref (pages s f)) < 32767"
  defines "parent \<equiv> env_pgdir (envs s c)" and "child \<equiv> page2pa p + KERNBASE" and "envid \<equiv> next_env_id (env_id (envs s e)) e"
  shows "\<exists>v. kbind (usys_exofork w) (fork_from w im) s = Ret envid v \<and> 0 < sint envid \<and> isolated v \<and>
    (\<forall>va. va < USTACKTOP \<longrightarrow> user_byte v child va = user_byte s parent va \<and>
       \<not> user_writable v child va \<and> \<not> user_writable v parent va) \<and>
    (\<forall>x va. x \<in> spaces s \<and> self_map s x \<and> va < UTOP \<longrightarrow> user_byte v x va = user_byte s x va) \<and>
    (\<forall>va. UXSTACKTOP - PGSIZE \<le> va \<and> va < UXSTACKTOP \<longrightarrow> user_byte v child va = Some 0 \<and> user_writable v child va) \<and>
    envs v = (envs s)(e := (child_env s c e p)\<lparr>env_pgfault_upcall := sym_pgfault_upcall im, env_status := ENV_RUNNABLE\<rparr>)"
proof -
  obtain t where t: "usys_exofork w s = Ret envid t" "new_space s t p" "ready t c xs (role(p := Directory child))"
    "envs t = (envs s)(e := child_env s c e p)"
    "pages t = (pages s)(p := (pages s p)\<lparr>pp_ref := pp_ref (pages s p) + 1\<rparr>)" "curenv t = Some c" "e \<noteq> c"
    unfolding envid_def child_def by (rule exofork_run [where w = w, OF assms(1-4)])
  have ok: "fork_ok t c e envid xs (role(p := Directory child))"
    unfolding envid_def by (rule exofork_fork_ok [OF assms(1) t(2,3,4) assms(3) t(7,5) assms(5,6)])
  have id: "0 < sint envid" using next_env_id_facts [OF assms(3)] by (simp add: envid_def)
  note n = new_spaceD [OF t(2)] and bytes = new_space_bytes [OF assms(1) t(2)]
  have pt: "env_pgdir (envs t c) = parent" "env_pgdir (envs t e) = child" "envs t e = child_env s c e p"
    using t(4,7) by (simp_all add: parent_def child_def)
  from assms(1) have run: "live s c" "self_map s parent" by (auto simp: ready_def running_def parent_def)
  have par: "parent \<in> spaces s" using ready_space(1) [OF assms(1) run(1)] by (simp add: parent_def)
  obtain v where v: "fork_parent w im envid t = Ret envid v" "isolated v"
    and below: "\<forall>va. va < USTACKTOP \<longrightarrow> user_byte v child va = user_byte t parent va \<and>
       \<not> user_writable v child va \<and> \<not> user_writable v parent va"
    and others: "\<forall>x va. x \<in> spaces t \<and> x \<noteq> child \<and> self_map t x \<and> va < UTOP \<longrightarrow> user_byte v x va = user_byte t x va"
    and stack: "\<forall>va. UXSTACKTOP - PGSIZE \<le> va \<and> va < UXSTACKTOP \<longrightarrow> user_byte v child va = Some 0 \<and> user_writable v child va"
    and envs: "envs v = (envs t)(e := (child_env s c e p)\<lparr>env_pgfault_upcall := sym_pgfault_upcall im, env_status := ENV_RUNNABLE\<rparr>)"
    using fork_copies [where w = w and im = im, OF ok] unfolding pt(1,2) unfolding pt(3) by (elim exE conjE) (rule that)
  have call: "kbind (usys_exofork w) (fork_from w im) s = Ret envid v"
    using t(1) v(1) id by (auto simp: kbind_Ret fork_from_def)
  have old: "user_byte v x va = user_byte s x va" if "x \<in> spaces s" "self_map s x" "va < UTOP" for x va
  proof -
    have "x \<noteq> child" using that(1) n(2) by (auto simp: child_def)
    moreover have "x \<in> spaces t" unfolding n(1) using that(1) by (rule insertI2)
    ultimately have "user_byte v x va = user_byte t x va" using others bytes(1) [OF that] that(3) by simp
    with bytes(2) [OF that] show ?thesis by (simp only:)
  qed
  have same: "user_byte v child va = user_byte s parent va \<and> \<not> user_writable v child va \<and> \<not> user_writable v parent va"
    if "va < USTACKTOP" for va
    using below bytes(2) [OF par run(2), of va] that by (simp add: word_less_nat_alt layout)
  have "envs v = (envs s)(e := (child_env s c e p)\<lparr>env_pgfault_upcall := sym_pgfault_upcall im, env_status := ENV_RUNNABLE\<rparr>)"
    using envs t(4) by (simp add: fun_eq_iff)
  with call id v(2) same old stack show ?thesis by (intro exI [of _ v]) simp
qed

lemma fork_duplicates_witness:
  "\<exists>v. kbind (usys_exofork (\<lambda>_. None)) (fork_from (\<lambda>_. None) user_image) (paged_machine 0x7007) =
      Ret (next_env_id 0 1) v \<and> isolated v \<and> user_byte v 0xF0004000 0x800010 = Some 0x20 \<and>
      user_byte v sample_pgdir 0x800010 = Some 0x20 \<and> \<not> user_writable v sample_pgdir 0x800010"
proof -
  let ?s = "paged_machine 0x7007"
  have rd: "ready ?s 0 [4, 3, 2, 1] machine_role" by (rule paged_machine_ready) simp
  have room: "card (PDX ` user_pages ?s (env_pgdir (envs ?s 0))) + 2 \<le> length [3, 2, 1 :: nat]"
    using card_mono [OF _ paged_machine_pages, of "0x7007"] by simp
  have byte: "user_byte ?s sample_pgdir 0x800010 = Some 0x20" by (rule paged_machine_byte) simp
  have par: "sample_pgdir \<in> spaces ?s" "self_map ?s sample_pgdir"
    using rd by (auto simp: paged_machine_spaces ready_def running_def)
  have e: "env_pgdir (envs ?s 0) = sample_pgdir" "page2pa 4 + KERNBASE = 0xF0004000" "env_id (envs ?s 1) = 0"
    by (simp_all add: page2pa_def layout)
  have u: "0x800010 < USTACKTOP" "0x800010 < UTOP" by (simp_all add: layout)
  have h: "env_free_list ?s = Some 1" "1 < NENV" "env_status (envs ?s 1) = ENV_FREE" "\<forall>f. unat (pp_ref (pages ?s f)) < 32767"
    by simp_all
  from fork_duplicates [where w = "\<lambda>_. None" and im = user_image, OF rd h(1-3) room h(4), unfolded e]
  obtain v where v: "kbind (usys_exofork (\<lambda>_. None)) (fork_from (\<lambda>_. None) user_image) ?s = Ret (next_env_id 0 1) v" "isolated v"
    and b: "\<forall>va. va < USTACKTOP \<longrightarrow> user_byte v 0xF0004000 va = user_byte ?s sample_pgdir va \<and>
       \<not> user_writable v 0xF0004000 va \<and> \<not> user_writable v sample_pgdir va"
    and o: "\<forall>x va. x \<in> spaces ?s \<and> self_map ?s x \<and> va < UTOP \<longrightarrow> user_byte v x va = user_byte ?s x va"
    by (elim exE conjE) (rule that)
  show ?thesis using v b [rule_format, OF u(1)] o [rule_format, OF conjI, OF par(1) conjI, OF par(2) u(2)] byte
    by (intro exI [of _ v]) simp
qed

end
