(* ===== verification/Load_Space.thy ===== *)
theory Load_Space
  imports Fork_Total Kernel_Space Test_Space
begin

text \<open>
  Memory while a program is loaded: \<open>region_alloc\<close>, \<open>memset\<close> and \<open>memcpy\<close> through the page directory of the
  new environment, and the segments of an executable.
\<close>

subsection \<open>Memory while a program is loaded\<close>

text \<open>\<open>page_alloc\<close> without \<open>ALLOC_ZERO\<close>: a free page becomes a data page that is mapped nowhere.\<close>

lemma alloc_state_0_fields [simp]:
  "pmem (alloc_state 0 q s) = pmem s" "npages (alloc_state 0 q s) = npages s" "outside (alloc_state 0 q s) = outside s"
  "pp_ref (pages (alloc_state 0 q s) i) = pp_ref (pages s i)"
  by (simp_all add: alloc_state_def take_free_page_def upd_page_def outside_def Let_def)

lemma mem_inv_alloc_0:
  assumes inv: "mem_inv s D (q # xs) role"
  shows "mem_inv (alloc_state 0 q s) D xs (role(q := Data))" "role q = Free"
proof -
  let ?t = "alloc_state 0 q s"
  note i = mem_invD [OF inv]
  show q: "role q = Free" using i(3) by simp
  have v: "pde_of ?t d va = pde_of s d va" "pte_of ?t d va = pte_of s d va" for d va
    by (simp_all add: vspace_cong [of ?t s])
  have m: "mapped ?t D f = mapped s D f" for f by (simp add: mapped_def v)
  have "frames_ok ?t d (role(q := Data))" if "d \<in> D" for d
  proof (rule frames_okI [OF i(4) [OF that]])
    show "(role(q := Data)) (frame (d - KERNBASE)) = role (frame (d - KERNBASE))"
      using frames_okD(3) [OF i(4) [OF that]] q by auto
    show "(role(q := Data)) (frame (pde_of s d va)) = role (frame (pde_of s d va))" if "has_table s d va" for va
      using frames_okD(5) [OF i(4) [OF \<open>d \<in> D\<close>] that] q by auto
  qed (simp_all add: v)
  moreover have "q \<notin> set xs" using free_list_distinct [OF i(2)] by simp
  moreover have "free_list ?t xs" using alloc_state_free_list [of s q xs 0] i(1,2) by simp
  moreover have "mem_ok ?t" using i(1) by (simp add: mem_ok_def)
  ultimately show "mem_inv ?t D xs (role(q := Data))"
    using i mapped_free [OF inv, of q] q m by (auto simp: mem_inv_def)
qed

text \<open>The pages \<open>A\<close> of the directory \<open>d\<close> are mapped, to the frames \<open>F\<close>; the frames \<open>I\<close> are not written.\<close>

definition loading ::
  "kstate \<Rightarrow> u32 \<Rightarrow> nat set \<Rightarrow> u32 set \<Rightarrow> (u32 \<Rightarrow> nat) \<Rightarrow> kstate \<Rightarrow> nat list \<Rightarrow> (nat \<Rightarrow> role) \<Rightarrow> bool" where
  "loading k d I A F t xs role \<longleftrightarrow>
     mem_inv t (spaces k) xs role \<and> outside t = outside k \<and> self_map t d \<and>
     (\<forall>f \<in> I. role f = Data) \<and> (\<forall>a. frame a \<in> I \<longrightarrow> pmem t a = pmem k a) \<and>
     inj_on F A \<and> F ` A \<inter> I = {} \<and> (\<forall>n \<in> A. role (F n) = Data \<and> F n < 65536) \<and>
     (\<forall>va. va < UTOP \<longrightarrow> pte_of t d va = (if PGNUM va \<in> A then page2pa (F (PGNUM va)) OR (PTE_W OR PTE_U) OR PTE_P else 0)) \<and>
     (\<forall>x va. x \<in> spaces k \<longrightarrow> x \<noteq> d \<longrightarrow> pde_of t x va = pde_of k x va) \<and>
     (\<forall>x va. x \<in> spaces k \<longrightarrow> x \<noteq> d \<longrightarrow> va < UTOP \<longrightarrow> pte_of t x va = pte_of k x va) \<and>
     (\<forall>g \<in> set xs. unat (pp_ref (pages t g)) < 65534)"

lemma loadingD:
  assumes "loading k d I A F t xs role"
  shows "mem_inv t (spaces k) xs role" "outside t = outside k" "self_map t d"
    "\<And>f. f \<in> I \<Longrightarrow> role f = Data" "\<And>a. frame a \<in> I \<Longrightarrow> pmem t a = pmem k a"
    "inj_on F A" "F ` A \<inter> I = {}" "\<And>n. n \<in> A \<Longrightarrow> role (F n) = Data" "\<And>n. n \<in> A \<Longrightarrow> F n < 65536"
    "\<And>va. va < UTOP \<Longrightarrow> pte_of t d va = (if PGNUM va \<in> A then page2pa (F (PGNUM va)) OR (PTE_W OR PTE_U) OR PTE_P else 0)"
    "\<And>x va. x \<in> spaces k \<Longrightarrow> x \<noteq> d \<Longrightarrow> pde_of t x va = pde_of k x va"
    "\<And>x va. x \<in> spaces k \<Longrightarrow> x \<noteq> d \<Longrightarrow> va < UTOP \<Longrightarrow> pte_of t x va = pte_of k x va"
    "\<And>g. g \<in> set xs \<Longrightarrow> unat (pp_ref (pages t g)) < 65534"
proof -
  show "mem_inv t (spaces k) xs role" "outside t = outside k" "self_map t d" "inj_on F A" "F ` A \<inter> I = {}"
    using assms unfolding loading_def by - (elim conjE, assumption)+
  have c: "\<forall>f \<in> I. role f = Data" "\<forall>a. frame a \<in> I \<longrightarrow> pmem t a = pmem k a" "\<forall>n \<in> A. role (F n) = Data \<and> F n < 65536"
    "\<forall>va. va < UTOP \<longrightarrow> pte_of t d va = (if PGNUM va \<in> A then page2pa (F (PGNUM va)) OR (PTE_W OR PTE_U) OR PTE_P else 0)"
    "\<forall>x va. x \<in> spaces k \<longrightarrow> x \<noteq> d \<longrightarrow> pde_of t x va = pde_of k x va"
    "\<forall>x va. x \<in> spaces k \<longrightarrow> x \<noteq> d \<longrightarrow> va < UTOP \<longrightarrow> pte_of t x va = pte_of k x va"
    "\<forall>g \<in> set xs. unat (pp_ref (pages t g)) < 65534"
    using assms unfolding loading_def by - (elim conjE, assumption)+
  show "role f = Data" if "f \<in> I" for f by (rule bspec [OF c(1) that])
  show "pmem t a = pmem k a" if "frame a \<in> I" for a by (rule c(2) [THEN spec, THEN mp, OF that])
  show "role (F n) = Data" "F n < 65536" if "n \<in> A" for n using bspec [OF c(3) that] by simp_all
  show "pte_of t d va = (if PGNUM va \<in> A then page2pa (F (PGNUM va)) OR (PTE_W OR PTE_U) OR PTE_P else 0)" if "va < UTOP" for va
    by (rule c(4) [THEN spec, THEN mp, OF that])
  show "pde_of t x va = pde_of k x va" if "x \<in> spaces k" "x \<noteq> d" for x va
    by (rule c(5) [THEN spec, THEN spec, THEN mp, THEN mp, OF that])
  show "pte_of t x va = pte_of k x va" if "x \<in> spaces k" "x \<noteq> d" "va < UTOP" for x va
    by (rule c(6) [THEN spec, THEN spec, THEN mp, THEN mp, THEN mp, OF that])
  show "unat (pp_ref (pages t g)) < 65534" if "g \<in> set xs" for g by (rule bspec [OF c(7) that])
qed

lemma load_flags:
  "(page2pa f OR (PTE_W OR PTE_U) OR PTE_P) AND PTE_P \<noteq> 0" "(page2pa f OR (PTE_W OR PTE_U) OR PTE_P) AND PTE_U \<noteq> 0"
  "(page2pa f OR (PTE_W OR PTE_U) OR PTE_P) AND PTE_W \<noteq> 0" "PTE_ADDR (page2pa f OR (PTE_W OR PTE_U) OR PTE_P) = page2pa f"
proof -
  have "bit ((page2pa f OR (PTE_W OR PTE_U) OR PTE_P) AND PTE_P) 0" "bit ((page2pa f OR (PTE_W OR PTE_U) OR PTE_P) AND PTE_U) 2"
      "bit ((page2pa f OR (PTE_W OR PTE_U) OR PTE_P) AND PTE_W) 1" by (simp_all add: bit_simps layout)
  then show "(page2pa f OR (PTE_W OR PTE_U) OR PTE_P) AND PTE_P \<noteq> 0" "(page2pa f OR (PTE_W OR PTE_U) OR PTE_P) AND PTE_U \<noteq> 0"
    "(page2pa f OR (PTE_W OR PTE_U) OR PTE_P) AND PTE_W \<noteq> 0" by auto
  show "PTE_ADDR (page2pa f OR (PTE_W OR PTE_U) OR PTE_P) = page2pa f"
    unfolding or.assoc by (rule PTE_ADDR_or) (simp_all add: layout)
qed

text \<open>What the new environment will read.\<close>

lemma loading_byte:
  assumes "loading k d I A F t xs role" "d \<in> spaces k" "va < UTOP"
  shows "user_byte t d va = (if PGNUM va \<in> A then Some (pmem t (page2pa (F (PGNUM va)) OR PGOFF va)) else None)"
proof -
  note l = loadingD [OF assms(1)]
  have a: "aligned 4096 (d - KERNBASE)" using frames_okD(1) [OF mem_invD(4) [OF l(1) assms(2)]] .
  show ?thesis using l(10) [OF assms(3)] by (simp add: user_byte_eq [OF a l(3) assms(3)] shared_def load_flags)
qed

lemma load_page:
  assumes l: "loading k d I A F t (q # xs) role" and d: "d \<in> spaces k" and va: "va < UTOP" "PGNUM va \<notin> A" and mem: "xs \<noteq> []"
  shows "\<exists>u ys r. page_insert d q va (PTE_W OR PTE_U) (alloc_state 0 q t) = Ret 0 u \<and>
    loading k d I (insert (PGNUM va) A) (F(PGNUM va := q)) u ys r \<and> length (q # xs) \<le> length ys + 2 \<and>
    (\<forall>x. x < UTOP \<longrightarrow> PGNUM x \<in> A \<longrightarrow> user_byte u d x = user_byte t d x)"
proof -
  note i = loadingD [OF l]
  let ?a = "alloc_state 0 q t" and ?D = "spaces k" and ?r = "role(q := Data)"
  note a = mem_inv_alloc_0 [OF i(1)]
  have v: "pde_of ?a x y = pde_of t x y" "pte_of ?a x y = pte_of t x y" for x y
    by (simp_all add: vspace_cong [of ?a t])
  have q: "q < unat (npages t)" "q < 65536" using vm_ok_page_facts [OF mem_inv_vm_ok [OF i(1) d]] by auto
  have "unat (pp_ref (pages t q)) < 65534" using i(13) by simp
  then have ref: "pp_ref (pages ?a q) \<noteq> - 1" by (auto simp: unat_max_u16)
  have perm: "frame (page2pa q OR (PTE_W OR PTE_U) OR PTE_P) = q"
    by (rule frame_entry [OF q(2)]) (simp add: layout)
  obtain u ys r where u: "page_insert d q va (PTE_W OR PTE_U) ?a = Ret 0 u"
    and ins: "inserted ?a ?D xs ?r d q va (PTE_W OR PTE_U) u ys r"
    using page_insert_inserted [OF a(1) d va(1) _ _ perm ref] q(1) mem by auto
  note j = insertedD [OF ins]
  have no: "pte_of ?a d va AND PTE_P = 0" using i(10) [OF va(1)] va(2) by (simp add: v)
  note keep = j(14) [OF no]
  have qA: "q \<notin> F ` A" "q \<notin> I" using a(2) i(4,8) by auto
  have data: "pmem u x = pmem t x" if "role (frame x) = Data" for x using j(5) [of x] that a(2) by (cases "frame x = q") auto
  have "outside u = outside ?a" using keeps_Ret [OF keeps_page_insert [of ?a d q va "PTE_W OR PTE_U"], of ?a 0 u] u by simp
  then have out: "outside u = outside k" using i(2) by simp
  have new: "loading k d I (insert (PGNUM va) A) (F(PGNUM va := q)) u ys r"
    unfolding loading_def
  proof (intro conjI ballI allI impI)
    have "self_map ?a d" using i(3) by (simp add: self_map_def has_table_def v)
    then show "self_map u d" by (rule self_map_inserted [OF _ ins d va(1)])
    show "r f = Data" if "f \<in> I" for f using keep [of f] i(4) [OF that] by simp
    show "pmem u x = pmem k x" if "frame x \<in> I" for x using data [OF i(4) [OF that]] i(5) [OF that] by simp
    show "inj_on (F(PGNUM va := q)) (insert (PGNUM va) A)" using i(6) qA va(2) by (auto simp: inj_on_def)
    show "(F(PGNUM va := q)) ` insert (PGNUM va) A \<inter> I = {}" using i(7) qA va(2) by auto
    show "r ((F(PGNUM va := q)) n) = Data" "(F(PGNUM va := q)) n < 65536" if "n \<in> insert (PGNUM va) A" for n
      using that j(3) keep [of "F n"] i(8,9) [of n] q(2) by (auto split: if_splits)
    show "pte_of u d x = (if PGNUM x \<in> insert (PGNUM va) A then page2pa ((F(PGNUM va := q)) (PGNUM x)) OR (PTE_W OR PTE_U) OR PTE_P else 0)"
      if "x < UTOP" for x using j(10) [OF d that] i(10) [OF that] by (simp add: v)
    show "pde_of u x y = pde_of k x y" if "x \<in> ?D" "x \<noteq> d" for x y using j(11) [OF that, of y] i(11) [OF that, of y] by (simp add: v)
    show "pte_of u x y = pte_of k x y" if "x \<in> ?D" "x \<noteq> d" "y < UTOP" for x y
      using j(10) [OF that(1,3)] i(12) [OF that] that(2) by (simp add: v)
    show "unat (pp_ref (pages u g)) < 65534" if "g \<in> set ys" for g
      using j(13) that i(13) [of g] unfolding free_counts_def by fastforce
  qed (use j(1) out in simp_all)
  have d': "PGNUM va \<noteq> n" if "n \<in> A" for n using that va(2) by auto
  have "user_byte u d x = user_byte t d x" if x: "x < UTOP" "PGNUM x \<in> A" for x
  proof -
    have "frame (page2pa (F (PGNUM x)) OR PGOFF x) = F (PGNUM x)"
      using frame_in_page [of "page2pa (F (PGNUM x))" x] PTE_ADDR_or [OF aligned_page2pa, of 0 "F (PGNUM x)"] i(9) [OF x(2)]
      by (simp add: frame_def unat_page2pa)
    then have "pmem u (page2pa (F (PGNUM x)) OR PGOFF x) = pmem t (page2pa (F (PGNUM x)) OR PGOFF x)"
      using data i(8) [OF x(2)] by simp
    then show ?thesis using x d' [OF x(2)] by (simp add: loading_byte [OF new d x(1)] loading_byte [OF l d x(1)])
  qed
  moreover have "length (q # xs) \<le> length ys + 2" using j(9) by (simp split: if_splits)
  ultimately show ?thesis using u new by blast
qed

subsection \<open>The pages of a segment\<close>

definition page_range :: "nat \<Rightarrow> nat \<Rightarrow> u32 set" where
  "page_range i n = {p. i \<le> 4096 * unat p \<and> 4096 * unat p < n}"

definition page_count :: "nat \<Rightarrow> nat \<Rightarrow> nat" where
  "page_count i n = (n - i + 4095) div 4096"

lemma page_count_step: "i < n \<Longrightarrow> page_count i n = Suc (page_count (i + 4096) n)"
  by (cases "i + 4096 \<le> n") (simp_all add: page_count_def div_nat_eqI le_div_geq)

lemma page_range_empty: "n \<le> i \<Longrightarrow> page_range i n = {}"
  by (auto simp: page_range_def)

lemma page_range_step:
  assumes "4096 dvd i" "i < n" "n \<le> 4294967296"
  shows "page_range i n = insert (PGNUM (of_nat i)) (page_range (i + 4096) n)" "PGNUM (of_nat i :: u32) \<notin> page_range (i + 4096) n"
proof -
  obtain m where m: "i = 4096 * m" using assms(1) by (rule dvdE)
  have "unat (of_nat i :: u32) = i" using assms(2,3) by (intro unat_of_nat_u32) simp
  then have u: "unat (PGNUM (of_nat i :: u32)) = m" by (simp add: unat_PGNUM m)
  have e: "p = PGNUM (of_nat i) \<longleftrightarrow> unat p = m" for p :: u32 unfolding word_unat_eq_iff u ..
  have nats: "4096 * m \<le> 4096 * x \<and> 4096 * x < n \<longleftrightarrow> x = m \<or> 4096 * m + 4096 \<le> 4096 * x \<and> 4096 * x < n" if "4096 * m < n" for x :: nat
    using that by (cases x m rule: linorder_cases) linarith+
  have "p \<in> page_range i n \<longleftrightarrow> p = PGNUM (of_nat i) \<or> p \<in> page_range (i + 4096) n" for p
    unfolding page_range_def mem_Collect_eq e unfolding m by (rule nats) (use assms(2) m in simp)
  then show "page_range i n = insert (PGNUM (of_nat i)) (page_range (i + 4096) n)" by blast
  show "PGNUM (of_nat i :: u32) \<notin> page_range (i + 4096) n"
    unfolding page_range_def mem_Collect_eq u unfolding m by simp
qed

lemma outside_fields:
  assumes "outside t = outside k"
  shows "envs t = envs k" "thiscpu t = thiscpu k" "cr3 t = cr3 k" "kern_pgdir t = kern_pgdir k" "npages t = npages k" "env_free_list t = env_free_list k"
  using assms by (simp_all add: outside_def)

lemma run_region_alloc_loop:
  assumes "loading k d I A F t xs role" and d: "d \<in> spaces k" "env_pgdir (envs k e) = d"
    and "4096 dvd i" "n \<le> unat UTOP" "page_range i n \<inter> A = {}" "2 * (page_count i n) \<le> length xs"
  shows "\<exists>u ys r F'. region_alloc_loop e i n t = Ret () u \<and> loading k d I (A \<union> page_range i n) F' u ys r \<and>
    length xs \<le> length ys + 2 * (page_count i n) \<and>
    (\<forall>x. x < UTOP \<longrightarrow> PGNUM x \<in> A \<longrightarrow> user_byte u d x = user_byte t d x)"
  using assms(1,4-)
proof (induction "n - i" arbitrary: i t xs A F role rule: less_induct)
  case less
  note l = less.prems(1)
  show ?case
  proof (cases "i < n")
    case False
    then show ?thesis using l by (auto simp: region_alloc_loop.simps [of e i n] kret_def page_range_empty intro!: exI [of _ xs])
  next
    case True
    let ?m = "page_count (i + 4096) n"
    note step = page_count_step [OF True]
    obtain q ys where xs: "xs = q # ys" "ys \<noteq> []" using less.prems(5) step by (cases xs; cases "tl xs") auto
    have n: "unat UTOP = 4005560320" by (simp add: layout)
    have i: "unat (of_nat i :: u32) = i" using True less.prems(3) n by (intro unat_of_nat_u32) simp
    have va: "(of_nat i :: u32) < UTOP" using True less.prems(3) i by (simp add: word_less_nat_alt)
    have N: "n \<le> 4294967296" using less.prems(3) n by simp
    note pr = page_range_step [OF less.prems(2) True N]
    have new: "PGNUM (of_nat i) \<notin> A" using pr(1) less.prems(4) by blast
    note iv = loadingD(1) [OF l [unfolded xs(1)]]
    have al: "page_alloc 0 t = Ret (Some q) (alloc_state 0 q t)" by (rule page_alloc_Some [OF mem_invD(2,1) [OF iv]])
    have eq: "env_pgdir (envs (alloc_state 0 q t) e) = d"
      using d(2) outside_fields(1) [of "alloc_state 0 q t" k] loadingD(2) [OF l] by simp
    obtain u zs r where u: "page_insert d q (of_nat i) (PTE_W OR PTE_U) (alloc_state 0 q t) = Ret 0 u"
      "loading k d I (insert (PGNUM (of_nat i)) A) (F(PGNUM (of_nat i) := q)) u zs r" "length (q # ys) \<le> length zs + 2"
      "\<forall>x. x < UTOP \<longrightarrow> PGNUM x \<in> A \<longrightarrow> user_byte u d x = user_byte t d x"
      using load_page [OF l [unfolded xs(1)] d(1) va new xs(2)] by blast
    have "\<exists>w ws r F'. region_alloc_loop e (i + 4096) n u = Ret () w \<and>
        loading k d I (insert (PGNUM (of_nat i)) A \<union> page_range (i + 4096) n) F' w ws r \<and> length zs \<le> length ws + 2 * ?m \<and>
        (\<forall>x. x < UTOP \<longrightarrow> PGNUM x \<in> insert (PGNUM (of_nat i)) A \<longrightarrow> user_byte w d x = user_byte u d x)"
    proof (rule less.hyps [OF _ u(2)])
      show "n - (i + 4096) < n - i" using True by simp
      show "4096 dvd i + 4096" using less.prems(2) by simp
      show "page_range (i + 4096) n \<inter> insert (PGNUM (of_nat i)) A = {}" using pr less.prems(4) by blast
      show "2 * ?m \<le> length zs" using less.prems(5) step u(3) xs(1) by simp
    qed (rule less.prems)
    then obtain w ws r' F' where w: "region_alloc_loop e (i + 4096) n u = Ret () w"
        "loading k d I (insert (PGNUM (of_nat i)) A \<union> page_range (i + 4096) n) F' w ws r'" "length zs \<le> length ws + 2 * ?m"
        "\<forall>x. x < UTOP \<longrightarrow> PGNUM x \<in> insert (PGNUM (of_nat i)) A \<longrightarrow> user_byte w d x = user_byte u d x" by blast
    have "region_alloc_loop e i n t = Ret () w"
      using True al eq u(1) w(1) by (subst region_alloc_loop.simps) (simp add: kbind_def kget_def)
    moreover have "insert (PGNUM (of_nat i)) A \<union> page_range (i + 4096) n = A \<union> page_range i n" using pr(1) by blast
    moreover have "length xs \<le> length ws + 2 * (page_count i n)" using u(3) w(3) step xs(1) by simp
    ultimately show ?thesis using w(2,4) u(4) by auto
  qed
qed

subsection \<open>Writing the segment\<close>

lemma address_parts: "unat x = 4096 * unat (PGNUM x) + unat (PGOFF x)"
  by (simp add: unat_PGNUM unat_PGOFF)

lemma same_address: "PGNUM x = PGNUM y \<Longrightarrow> PGOFF x = PGOFF y \<Longrightarrow> x = y"
  by (metis address_parts word_unat_eq_iff)

lemma frame_of_byte: "f < 65536 \<Longrightarrow> frame (page2pa f OR PGOFF x) = f"
  using frame_in_page [of "page2pa f" x] PTE_ADDR_or [OF aligned_page2pa, of 0 f] by (simp add: frame_def unat_page2pa)

lemma byte_address_inj:
  assumes "inj_on F A" "PGNUM x \<in> A" "PGNUM y \<in> A" "F (PGNUM x) < 65536" "F (PGNUM y) < 65536"
  shows "page2pa (F (PGNUM x)) OR PGOFF x = page2pa (F (PGNUM y)) OR PGOFF y \<longleftrightarrow> x = y"
proof
  assume eq: "page2pa (F (PGNUM x)) OR PGOFF x = page2pa (F (PGNUM y)) OR PGOFF y"
  have o: "page2pa f OR PGOFF z = page2pa f + PGOFF z" for f z
    by (rule or_offset) (simp_all add: unat_PGOFF)
  have f: "F (PGNUM x) = F (PGNUM y)"
    using arg_cong [OF eq, of frame] unfolding frame_of_byte [OF assms(4)] frame_of_byte [OF assms(5)] .
  then have "PGNUM x = PGNUM y" using assms(1-3) by (simp add: inj_on_eq_iff)
  moreover have "PGOFF x = PGOFF y" using eq unfolding o f by simp
  ultimately show "x = y" by (rule same_address)
qed simp

lemma loading_store:
  assumes l: "loading k d I A F t xs role" and d: "d \<in> spaces k" "cr3 k (thiscpu k) = d - KERNBASE" and va: "va < UTOP" "PGNUM va \<in> A"
  shows "\<exists>u. vstore8 va b t = Ret () u \<and> loading k d I A F u xs role \<and>
    (\<forall>x. x < UTOP \<longrightarrow> user_byte u d x = (if x = va then Some b else user_byte t d x))"
proof -
  note i = loadingD [OF l]
  have al: "aligned 4096 (d - KERNBASE)" using frames_okD(1) [OF mem_invD(4) [OF i(1) d(1)]] .
  let ?f = "F (PGNUM va)"
  let ?pa = "page2pa ?f OR PGOFF va"
  let ?u = "t\<lparr>pmem := (pmem t)(?pa := b)\<rparr>"
  have fp: "frame ?pa = ?f" by (rule frame_of_byte [OF i(9) [OF va(2)]])
  have c: "cr3 t (thiscpu t) = d - KERNBASE" using outside_fields [OF i(2)] d(2) by simp
  note hw = hw_is_pgdir [OF c al, of va]
  have pte: "pte_of t d va = page2pa ?f OR (PTE_W OR PTE_U) OR PTE_P" using i(10) [OF va(1)] va(2) by simp
  have "has_table t d va"
  proof (rule ccontr)
    assume "\<not> has_table t d va"
    then have "pte_of t d va = 0" by (rule pte_of_no_table [OF below_UTOP [OF va(1)]])
    with load_flags(1) [of ?f] show False unfolding pte by simp
  qed
  then have "pde_of t d va AND PTE_P \<noteq> 0" "pde_of t d va AND PTE_W \<noteq> 0"
    using i(3) va(1) by (auto simp: has_table_def self_map_def user_table_def)
  then have "translate t False True va = Some ?pa"
    using hw pte by (simp add: translate_hw access_ok_def load_flags)
  then have run: "vstore8 va b t = Ret () ?u" by (simp add: vstore8_def)
  have same: "same_except t ?u {?f}" unfolding same_except_def using fp by auto
  have Data: "role ?f = Data" by (rule i(8) [OF va(2)])
  have v: "pde_of ?u x y = pde_of t x y" "PDX y \<noteq> PDX UVPT \<Longrightarrow> pte_of ?u x y = pte_of t x y" if "x \<in> spaces k" for x y
    using vspace_same [OF mem_invD(4) [OF i(1) that] same] Data by auto
  have new: "loading k d I A F ?u xs role"
    unfolding loading_def
  proof (intro conjI ballI allI impI)
    show "mem_inv ?u (spaces k) xs role"
      by (rule mem_inv_cong [OF i(1)]) (use mem_invD(1-3) [OF i(1)] v below_UTOP in \<open>auto simp: mem_ok_def free_list_def\<close>)
    show "self_map ?u d" using i(3) v [OF d(1)] by (simp add: self_map_def has_table_def)
    show "pmem ?u x = pmem k x" if "frame x \<in> I" for x
    proof -
      have "frame x \<noteq> ?f" using that i(7) va(2) by auto
      then show ?thesis using i(5) [OF that] fp by auto
    qed
    show "pte_of ?u d x = (if PGNUM x \<in> A then page2pa (F (PGNUM x)) OR (PTE_W OR PTE_U) OR PTE_P else 0)" if "x < UTOP" for x
      using i(10) [OF that] v(2) [OF d(1) below_UTOP [OF that]] by simp
    show "pte_of ?u x y = pte_of k x y" if "x \<in> spaces k" "x \<noteq> d" "y < UTOP" for x y
      using i(12) [OF that] v(2) [OF that(1) below_UTOP [OF that(3)]] by simp
  qed (use i v(1) in simp_all)
  have "user_byte ?u d x = (if x = va then Some b else user_byte t d x)" if x: "x < UTOP" for x
  proof (cases "PGNUM x \<in> A")
    case True
    then show ?thesis
      using byte_address_inj [OF i(6) True va(2) i(9) [OF True] i(9) [OF va(2)]]
      by (simp add: loading_byte [OF new d(1) x] loading_byte [OF l d(1) x])
  next
    case False
    then have "x \<noteq> va" using va(2) by auto
    with False show ?thesis by (simp add: loading_byte [OF new d(1) x] loading_byte [OF l d(1) x])
  qed
  with run new show ?thesis by blast
qed

definition in_range :: "u32 \<Rightarrow> nat \<Rightarrow> u32 \<Rightarrow> bool" where
  "in_range va n x \<longleftrightarrow> unat va \<le> unat x \<and> unat x < unat va + n"

lemma in_range_step:
  assumes "unat va + Suc n \<le> unat UTOP"
  shows "in_range va (Suc n) x \<longleftrightarrow> x = va \<or> in_range (va + 1) n x" "unat (va + 1) = Suc (unat va)" "\<not> in_range (va + 1) n va"
proof -
  have "unat UTOP = 4005560320" by (simp add: layout)
  then show u: "unat (va + 1) = Suc (unat va)" using assms by (simp add: unat_add_no_wrap)
  show "in_range va (Suc n) x \<longleftrightarrow> x = va \<or> in_range (va + 1) n x"
    unfolding in_range_def u word_unat_eq_iff by auto
  show "\<not> in_range (va + 1) n va" by (simp add: in_range_def u)
qed

lemma run_vmemset:
  assumes "loading k d I A F t xs role" and d: "d \<in> spaces k" "cr3 k (thiscpu k) = d - KERNBASE"
    and "unat va + n \<le> unat UTOP" "\<And>x. in_range va n x \<Longrightarrow> PGNUM x \<in> A"
  shows "\<exists>u. vmemset n va c t = Ret () u \<and> loading k d I A F u xs role \<and>
    (\<forall>x. x < UTOP \<longrightarrow> user_byte u d x = (if in_range va n x then Some c else user_byte t d x))"
  using assms(1,4,5)
proof (induction n arbitrary: va t)
  case 0
  then show ?case by (auto simp: kret_def in_range_def)
next
  case (Suc n)
  note r = in_range_step [OF Suc.prems(2)]
  have va: "va < UTOP" "PGNUM va \<in> A" using Suc.prems(2,3) r(1) by (auto simp: word_less_nat_alt)
  obtain u where u: "vstore8 va c t = Ret () u" "loading k d I A F u xs role"
      "\<forall>x. x < UTOP \<longrightarrow> user_byte u d x = (if x = va then Some c else user_byte t d x)"
    using loading_store [OF Suc.prems(1) d va] by blast
  obtain w where w: "vmemset n (va + 1) c u = Ret () w" "loading k d I A F w xs role"
      "\<forall>x. x < UTOP \<longrightarrow> user_byte w d x = (if in_range (va + 1) n x then Some c else user_byte u d x)"
    using Suc.IH [OF u(2), of "va + 1"] Suc.prems(2,3) r(1,2) by auto
  have "vmemset (Suc n) va c t = Ret () w" using u(1) w(1) by (simp add: kbind_def)
  then show ?case using u(3) w(2,3) r(1) by auto
qed

lemma run_vmemcpy:
  assumes "loading k d I A F t xs role" and d: "d \<in> spaces k" "cr3 k (thiscpu k) = d - KERNBASE"
    and "unat va + n \<le> unat UTOP" "\<And>x. in_range va n x \<Longrightarrow> PGNUM x \<in> A"
    and "KERNBASE \<le> p" "unat p + n \<le> 4294967296" "\<And>y. in_range p n y \<Longrightarrow> frame (y - KERNBASE) \<in> I"
  shows "\<exists>u. vmemcpy n va p t = Ret () u \<and> loading k d I A F u xs role \<and>
    (\<forall>x. x < UTOP \<longrightarrow> user_byte u d x = (if in_range va n x then Some (pmem k (p + (x - va) - KERNBASE)) else user_byte t d x))"
  using assms(1,4-)
proof (induction n arbitrary: va p t)
  case 0
  then show ?case by (auto simp: kret_def in_range_def)
next
  case (Suc n)
  note r = in_range_step [OF Suc.prems(2)]
  have va: "va < UTOP" "PGNUM va \<in> A" using Suc.prems(2,3) r(1) by (auto simp: word_less_nat_alt)
  have "frame (p - KERNBASE) \<in> I" using Suc.prems(6) [of p] by (simp add: in_range_def)
  then have b: "kload8 p t = Ret (pmem k (p - KERNBASE)) t"
    using Suc.prems(4) loadingD(5) [OF Suc.prems(1)] by (simp add: kload8_def not_less [symmetric])
  obtain u where u: "vstore8 va (pmem k (p - KERNBASE)) t = Ret () u" "loading k d I A F u xs role"
      "\<forall>x. x < UTOP \<longrightarrow> user_byte u d x = (if x = va then Some (pmem k (p - KERNBASE)) else user_byte t d x)"
    using loading_store [OF Suc.prems(1) d va] by blast
  have "\<exists>w. vmemcpy n (va + 1) (p + 1) u = Ret () w \<and> loading k d I A F w xs role \<and>
      (\<forall>x. x < UTOP \<longrightarrow> user_byte w d x = (if in_range (va + 1) n x then Some (pmem k (p + 1 + (x - (va + 1)) - KERNBASE)) else user_byte u d x))"
  proof (cases "n = 0")
    case True
    then show ?thesis using u(2) by (auto simp: kret_def in_range_def)
  next
    case False
    then have p1: "unat (p + 1) = Suc (unat p)" using Suc.prems(5) by (simp add: unat_add_no_wrap)
    show ?thesis
    proof (rule Suc.IH [OF u(2)])
      show "KERNBASE \<le> p + 1" using Suc.prems(4) p1 by (simp add: word_le_nat_alt)
      show "frame (y - KERNBASE) \<in> I" if "in_range (p + 1) n y" for y
        using that Suc.prems(6) [of y] p1 by (simp add: in_range_def)
    qed (use Suc.prems r p1 in auto)
  qed
  then obtain w where w: "vmemcpy n (va + 1) (p + 1) u = Ret () w" "loading k d I A F w xs role"
      "\<forall>x. x < UTOP \<longrightarrow> user_byte w d x = (if in_range (va + 1) n x then Some (pmem k (p + 1 + (x - (va + 1)) - KERNBASE)) else user_byte u d x)"
    by blast
  have "vmemcpy (Suc n) va p t = Ret () w" using b u(1) w(1) by (simp add: kbind_def)
  moreover have "p + 1 + (x - (va + 1)) - KERNBASE = p + (x - va) - KERNBASE" for x by (simp add: algebra_simps)
  ultimately show ?case using u(3) w(2,3) r(1,3) by auto
qed

subsection \<open>Programs\<close>

definition elf_header :: "kstate \<Rightarrow> u32 \<Rightarrow> Elf" where
  "elf_header s p = \<lparr>e_magic = load32 (pmem s) (p - KERNBASE), e_entry = load32 (pmem s) (p + 24 - KERNBASE),
     e_phoff = load32 (pmem s) (p + 28 - KERNBASE), e_phnum = ucast (load32 (pmem s) (p + 44 - KERNBASE))\<rparr>"

definition program_header :: "kstate \<Rightarrow> u32 \<Rightarrow> Proghdr" where
  "program_header s p = \<lparr>p_type = load32 (pmem s) (p - KERNBASE), p_offset = load32 (pmem s) (p + 4 - KERNBASE),
     p_va = load32 (pmem s) (p + 8 - KERNBASE), p_filesz = load32 (pmem s) (p + 16 - KERNBASE),
     p_memsz = load32 (pmem s) (p + 20 - KERNBASE)\<rparr>"

definition header_at :: "kstate \<Rightarrow> u32 \<Rightarrow> nat \<Rightarrow> u32" where
  "header_at s binary i = binary + e_phoff (elf_header s binary) + sizeof_Proghdr * of_nat i"

definition segment :: "kstate \<Rightarrow> u32 \<Rightarrow> nat \<Rightarrow> Proghdr" where
  "segment s binary i = program_header s (header_at s binary i)"

text \<open>\<open>n\<close> bytes from \<open>p\<close> on are inside the image, which has \<open>sz\<close> bytes.\<close>

definition inside :: "u32 \<Rightarrow> nat \<Rightarrow> u32 \<Rightarrow> nat \<Rightarrow> bool" where
  "inside binary sz p n \<longleftrightarrow> KERNBASE \<le> binary \<and> unat binary + sz \<le> 4294967296 \<and> unat binary \<le> unat p \<and> unat p + n \<le> unat binary + sz"

definition image_frames :: "u32 \<Rightarrow> nat \<Rightarrow> nat set" where
  "image_frames binary sz = {frame (y - KERNBASE) | y. in_range binary sz y}"

lemma inside_byte:
  assumes "inside binary sz p n" "j < n"
  shows "unat (p + of_nat j) = unat p + j" "frame (p + of_nat j - KERNBASE) \<in> image_frames binary sz" "KERNBASE \<le> p + of_nat j"
proof -
  have "unat (of_nat j :: u32) = j" using assms by (intro unat_of_nat_u32) (simp add: inside_def)
  then show u: "unat (p + of_nat j) = unat p + j" using assms by (subst unat_add_no_wrap) (simp_all add: inside_def)
  then have "in_range binary sz (p + of_nat j)" using assms by (simp add: inside_def in_range_def)
  then show "frame (p + of_nat j - KERNBASE) \<in> image_frames binary sz" by (auto simp: image_frames_def)
  show "KERNBASE \<le> p + of_nat j" using assms u by (simp add: inside_def word_le_nat_alt)
qed

lemma load_image:
  assumes m: "\<forall>a. frame a \<in> image_frames binary sz \<longrightarrow> pmem t a = pmem k a" and i: "inside binary sz p n" "j + 4 \<le> n"
  shows "load32 (pmem t) (p + of_nat j - KERNBASE) = load32 (pmem k) (p + of_nat j - KERNBASE)"
proof (rule load32_cong)
  fix x :: u32 assume x: "unat x < 4"
  have eq: "p + of_nat (j + unat x) - KERNBASE = p + of_nat j - KERNBASE + x" by (simp add: algebra_simps)
  show "pmem t (p + of_nat j - KERNBASE + x) = pmem k (p + of_nat j - KERNBASE + x)"
    using m inside_byte(2) [OF i(1), of "j + unat x"] x i(2) unfolding eq by simp
qed

lemma kload_image:
  assumes l: "loading k d I A F t xs role" and I: "image_frames binary sz \<subseteq> I" and i: "inside binary sz p n" "j + 4 \<le> n"
  shows "kload (p + of_nat j) t = Ret (load32 (pmem k) (p + of_nat j - KERNBASE)) t"
proof -
  have "\<forall>a. frame a \<in> image_frames binary sz \<longrightarrow> pmem t a = pmem k a" using loadingD(5) [OF l] I by blast
  from load_image [OF this i] show ?thesis
    using inside_byte(3) [OF i(1), of j] i(2) by (simp add: kload_def not_less [symmetric])
qed

lemma run_read_elf:
  assumes "loading k d I A F t xs role" "image_frames binary sz \<subseteq> I" "inside binary sz binary 48"
  shows "read_elf binary t = Ret (elf_header k binary) t"
  using kload_image [OF assms, of 0] kload_image [OF assms, of 24] kload_image [OF assms, of 28] kload_image [OF assms, of 44]
  by (simp add: read_elf_def elf_header_def kbind_def kret_def)

lemma run_read_proghdr:
  assumes "loading k d I A F t xs role" "image_frames binary sz \<subseteq> I" "inside binary sz p 32"
  shows "read_proghdr p t = Ret (program_header k p) t"
  using kload_image [OF assms, of 0] kload_image [OF assms, of 4] kload_image [OF assms, of 8] kload_image [OF assms, of 16] kload_image [OF assms, of 20]
  by (simp add: read_proghdr_def program_header_def kbind_def kret_def)

subsection \<open>Loading the segments\<close>

definition pages_of :: "u32 \<Rightarrow> u32 \<Rightarrow> u32 set" where
  "pages_of va len = page_range (unat (ROUNDDOWN va PGSIZE)) (unat (ROUNDUP (va + len) PGSIZE))"

definition count_of :: "u32 \<Rightarrow> u32 \<Rightarrow> nat" where
  "count_of va len = page_count (unat (ROUNDDOWN va PGSIZE)) (unat (ROUNDUP (va + len) PGSIZE))"

lemma segment_end:
  assumes "unat va + unat len \<le> unat UTOP"
  shows "unat (va + len) = unat va + unat len" "unat (va + len) \<le> unat (ROUNDUP (va + len) PGSIZE)" "unat (ROUNDUP (va + len) PGSIZE) \<le> unat UTOP"
proof -
  have U: "unat UTOP = 4096 * 977920" by (simp add: layout)
  show u: "unat (va + len) = unat va + unat len" using assms U by (subst unat_add_no_wrap) simp_all
  have "unat (va + len) + 4096 \<le> 4294967296" using assms u U by simp
  note r = unat_ROUNDUP [OF this]
  show "unat (va + len) \<le> unat (ROUNDUP (va + len) PGSIZE)" by (rule r)
  obtain m where m: "unat (ROUNDUP (va + len) PGSIZE) = 4096 * m" using r(3) unfolding aligned_def by (rule dvdE)
  have "4096 * m < 4096 * 977921" using r(2) m u assms U by linarith
  then have "m < 977921" by simp
  then show "unat (ROUNDUP (va + len) PGSIZE) \<le> unat UTOP" unfolding m U by simp
qed

lemma pages_of_byte:
  assumes "unat va + unat len \<le> unat UTOP" "in_range va (unat len) x"
  shows "PGNUM x \<in> pages_of va len"
proof -
  have "unat (ROUNDDOWN va PGSIZE) \<le> 4096 * (unat va div 4096)" by (simp add: unat_ROUNDDOWN minus_mod_eq_mult_div)
  moreover have "unat va div 4096 \<le> unat x div 4096" using assms(2) by (intro div_le_mono) (simp add: in_range_def)
  moreover have "4096 * (unat x div 4096) \<le> unat x" by simp
  moreover have "unat x < unat (ROUNDUP (va + len) PGSIZE)" using assms(2) segment_end [OF assms(1)] by (simp add: in_range_def)
  ultimately show ?thesis unfolding pages_of_def page_range_def unat_PGNUM mem_Collect_eq by linarith
qed

lemma run_region_alloc:
  assumes "loading k d I A F t xs role" and d: "d \<in> spaces k" "env_pgdir (envs k e) = d"
    and "unat va + unat len \<le> unat UTOP" "pages_of va len \<inter> A = {}" "2 * count_of va len \<le> length xs"
  shows "\<exists>u ys r F'. region_alloc e va len t = Ret () u \<and> loading k d I (A \<union> pages_of va len) F' u ys r \<and>
    length xs \<le> length ys + 2 * count_of va len \<and> (\<forall>x. x < UTOP \<longrightarrow> PGNUM x \<in> A \<longrightarrow> user_byte u d x = user_byte t d x)"
  unfolding region_alloc_def pages_of_def count_of_def
proof (rule run_region_alloc_loop [OF assms(1-3)])
  show "4096 dvd unat (ROUNDDOWN va PGSIZE)" by (simp add: unat_ROUNDDOWN minus_mod_eq_mult_div)
  show "unat (ROUNDUP (va + len) PGSIZE) \<le> unat UTOP" by (rule segment_end [OF assms(4)])
qed (use assms(5,6) in \<open>simp_all add: pages_of_def count_of_def\<close>)

text \<open>The byte that a segment has at an address.\<close>

definition segment_byte :: "kstate \<Rightarrow> u32 \<Rightarrow> Proghdr \<Rightarrow> u32 \<Rightarrow> u8" where
  "segment_byte s binary h x =
     (if unat (x - p_va h) < unat (p_filesz h) then pmem s (binary + p_offset h + (x - p_va h) - KERNBASE) else 0)"

abbreviation (input) loadable :: "Proghdr \<Rightarrow> bool" where
  "loadable h \<equiv> p_type h = ELF_PROG_LOAD"

definition segment_ok :: "u32 \<Rightarrow> nat \<Rightarrow> Proghdr \<Rightarrow> bool" where
  "segment_ok binary sz h \<longleftrightarrow> inside binary sz (binary + p_offset h) (unat (p_filesz h)) \<and> unat (p_filesz h) \<le> unat (p_memsz h) \<and>
     unat (p_va h) + unat (p_memsz h) \<le> unat (USTACKTOP - PGSIZE)"

lemma run_load_segment:
  assumes l: "loading k d I A F t xs role" and d: "d \<in> spaces k" "env_pgdir (envs k e) = d" "cr3 k (thiscpu k) = d - KERNBASE"
    and I: "image_frames binary sz \<subseteq> I" and p: "inside binary sz p 32" and h: "program_header k p = h"
    and ok: "loadable h \<Longrightarrow> segment_ok binary sz h" "loadable h \<Longrightarrow> pages_of (p_va h) (p_memsz h) \<inter> A = {}"
      "loadable h \<Longrightarrow> 2 * count_of (p_va h) (p_memsz h) \<le> length xs"
  shows "\<exists>u ys r F'. load_segment e binary p t = Ret () u \<and>
    loading k d I (A \<union> (if loadable h then pages_of (p_va h) (p_memsz h) else {})) F' u ys r \<and>
    length xs \<le> length ys + (if loadable h then 2 * count_of (p_va h) (p_memsz h) else 0) \<and>
    (\<forall>x. x < UTOP \<longrightarrow> PGNUM x \<in> A \<longrightarrow> user_byte u d x = user_byte t d x) \<and>
    (loadable h \<longrightarrow> (\<forall>x. in_range (p_va h) (unat (p_memsz h)) x \<longrightarrow> user_byte u d x = Some (segment_byte k binary h x)))"
proof (cases "loadable h")
  case False
  then have "load_segment e binary p t = Ret () t"
    using run_read_proghdr [OF l I p] h by (simp add: load_segment_def kbind_def kret_def kwhen_def)
  then show ?thesis using l False by auto
next
  case True
  let ?va = "p_va h" and ?m = "p_memsz h" and ?f = "p_filesz h"
  have o: "inside binary sz (binary + p_offset h) (unat ?f)" "unat ?f \<le> unat ?m" "unat ?va + unat ?m \<le> unat (USTACKTOP - PGSIZE)"
    using ok(1) [OF True] by (simp_all add: segment_ok_def)
  then have U: "unat ?va + unat ?m \<le> unat UTOP" "unat ?va + unat ?f \<le> unat UTOP" by (simp_all add: layout)
  note b = pages_of_byte [OF U(1)]
  obtain u ys r F' where u: "region_alloc e ?va ?m t = Ret () u" "loading k d I (A \<union> pages_of ?va ?m) F' u ys r"
      "length xs \<le> length ys + 2 * count_of ?va ?m" "\<forall>x. x < UTOP \<longrightarrow> PGNUM x \<in> A \<longrightarrow> user_byte u d x = user_byte t d x"
    using run_region_alloc [OF l d(1,2) U(1) ok(2,3) [OF True]] by blast
  obtain v where v: "vmemset (unat ?m) ?va 0 u = Ret () v" "loading k d I (A \<union> pages_of ?va ?m) F' v ys r"
      "\<forall>x. x < UTOP \<longrightarrow> user_byte v d x = (if in_range ?va (unat ?m) x then Some 0 else user_byte u d x)"
    using run_vmemset [OF u(2) d(1,3) U(1), of 0] b by blast
  have "\<exists>w. vmemcpy (unat ?f) ?va (binary + p_offset h) v = Ret () w \<and> loading k d I (A \<union> pages_of ?va ?m) F' w ys r \<and>
      (\<forall>x. x < UTOP \<longrightarrow> user_byte w d x = (if in_range ?va (unat ?f) x
         then Some (pmem k (binary + p_offset h + (x - ?va) - KERNBASE)) else user_byte v d x))"
  proof (rule run_vmemcpy [OF v(2) d(1,3) U(2)])
    show "PGNUM x \<in> A \<union> pages_of ?va ?m" if "in_range ?va (unat ?f) x" for x
      using b [of x] that o(2) by (simp add: in_range_def)
    show "KERNBASE \<le> binary + p_offset h" "unat (binary + p_offset h) + unat ?f \<le> 4294967296"
      using o(1) by (simp_all add: inside_def word_le_nat_alt)
    show "frame (y - KERNBASE) \<in> I" if "in_range (binary + p_offset h) (unat ?f) y" for y
      using that o(1) by (intro subsetD [OF I]) (auto simp: image_frames_def in_range_def inside_def)
  qed
  then obtain w where w: "vmemcpy (unat ?f) ?va (binary + p_offset h) v = Ret () w" "loading k d I (A \<union> pages_of ?va ?m) F' w ys r"
      "\<forall>x. x < UTOP \<longrightarrow> user_byte w d x = (if in_range ?va (unat ?f) x
         then Some (pmem k (binary + p_offset h + (x - ?va) - KERNBASE)) else user_byte v d x)" by blast
  have "load_segment e binary p t = Ret () w"
    using run_read_proghdr [OF l I p] h True u(1) v(1) w(1) by (simp add: load_segment_def kbind_def kwhen_def)
  moreover have "user_byte w d x = Some (segment_byte k binary h x)" if x: "in_range ?va (unat ?m) x" for x
  proof -
    have "unat x < unat UTOP" using x U(1) by (simp add: in_range_def)
    moreover have "unat (x - ?va) = unat x - unat ?va" using x by (simp add: in_range_def unat_sub word_le_nat_alt)
    then have "in_range ?va (unat ?f) x \<longleftrightarrow> unat (x - ?va) < unat ?f" using x by (auto simp: in_range_def)
    ultimately show ?thesis using w(3) v(3) x by (simp add: segment_byte_def word_less_nat_alt)
  qed
  moreover have "user_byte w d x = user_byte t d x" if x: "x < UTOP" "PGNUM x \<in> A" for x
  proof -
    have "\<not> in_range ?va (unat ?m) x" using b [of x] x(2) ok(2) [OF True] by blast
    moreover from this have "\<not> in_range ?va (unat ?f) x" using o(2) by (auto simp: in_range_def)
    ultimately show ?thesis using w(3) v(3) u(4) x by simp
  qed
  ultimately show ?thesis using True u(3) w(2) by auto
qed

end
