(* ===== verification/Load_Spec.thy ===== *)
theory Load_Spec
  imports Load_Space
begin

text \<open>
  Loading a program: \<open>load_icode\<close> puts the segments of an executable into the address space of a new
  environment, and \<open>env_create\<close> makes that environment.
\<close>

subsection \<open>The segments of a program\<close>

definition segment_pages :: "kstate \<Rightarrow> u32 \<Rightarrow> nat \<Rightarrow> u32 set" where
  "segment_pages s binary i = (let h = segment s binary i in if loadable h then pages_of (p_va h) (p_memsz h) else {})"

definition segment_count :: "kstate \<Rightarrow> u32 \<Rightarrow> nat \<Rightarrow> nat" where
  "segment_count s binary i = (let h = segment s binary i in if loadable h then count_of (p_va h) (p_memsz h) else 0)"

abbreviation (input) segments :: "kstate \<Rightarrow> u32 \<Rightarrow> nat" where
  "segments s binary \<equiv> unat (e_phnum (elf_header s binary))"

text \<open>An executable of \<open>sz\<close> bytes at \<open>binary\<close>: no two segments touch the same page, and none reaches the stack.\<close>

definition program_ok :: "kstate \<Rightarrow> u32 \<Rightarrow> nat \<Rightarrow> bool" where
  "program_ok s binary sz \<longleftrightarrow>
     inside binary sz binary 48 \<and> e_magic (elf_header s binary) = ELF_MAGIC \<and>
     (\<forall>i < segments s binary. inside binary sz (header_at s binary i) 32 \<and>
        (loadable (segment s binary i) \<longrightarrow> segment_ok binary sz (segment s binary i))) \<and>
     (\<forall>i j. i < j \<longrightarrow> j < segments s binary \<longrightarrow> segment_pages s binary i \<inter> segment_pages s binary j = {})"

text \<open>The bytes that the program has in memory.\<close>

definition program_loaded :: "kstate \<Rightarrow> u32 \<Rightarrow> nat \<Rightarrow> kstate \<Rightarrow> u32 \<Rightarrow> bool" where
  "program_loaded s binary n t d \<longleftrightarrow>
     (\<forall>i < n. loadable (segment s binary i) \<longrightarrow>
        (\<forall>x. in_range (p_va (segment s binary i)) (unat (p_memsz (segment s binary i))) x \<longrightarrow>
           user_byte t d x = Some (segment_byte s binary (segment s binary i) x)))"

lemma run_segments:
  assumes l: "loading k d I {} F t xs role" and d: "d \<in> spaces k" "env_pgdir (envs k e) = d" "cr3 k (thiscpu k) = d - KERNBASE"
    and I: "image_frames binary sz \<subseteq> I" and ok: "program_ok k binary sz"
    and n: "n \<le> segments k binary" "2 * (\<Sum>i < n. segment_count k binary i) \<le> length xs"
  shows "\<exists>u ys r F'. kfor [0..<n] (\<lambda>i. load_segment e binary (header_at k binary i)) t = Ret () u \<and>
    loading k d I (\<Union>i < n. segment_pages k binary i) F' u ys r \<and>
    length xs \<le> length ys + 2 * (\<Sum>i < n. segment_count k binary i) \<and> program_loaded k binary n u d"
  using n
proof (induction n)
  case 0
  then show ?case using l by (auto simp: kret_def program_loaded_def)
next
  case (Suc n)
  let ?h = "segment k binary n" and ?A = "\<Union>i < n. segment_pages k binary i"
  have s: "inside binary sz (header_at k binary n) 32" "loadable ?h \<Longrightarrow> segment_ok binary sz ?h"
    using ok Suc.prems(1) by (simp_all add: program_ok_def)
  have "segment_pages k binary i \<inter> segment_pages k binary n = {}" if "i < n" for i
    using ok that Suc.prems(1) by (simp add: program_ok_def)
  then have dis: "?A \<inter> segment_pages k binary n = {}" by blast
  obtain u ys r F' where u: "kfor [0..<n] (\<lambda>i. load_segment e binary (header_at k binary i)) t = Ret () u"
      "loading k d I ?A F' u ys r" "length xs \<le> length ys + 2 * (\<Sum>i < n. segment_count k binary i)" "program_loaded k binary n u d"
    using Suc by auto
  have "\<exists>w ws r G. load_segment e binary (header_at k binary n) u = Ret () w \<and>
    loading k d I (?A \<union> (if loadable ?h then pages_of (p_va ?h) (p_memsz ?h) else {})) G w ws r \<and>
    length ys \<le> length ws + (if loadable ?h then 2 * count_of (p_va ?h) (p_memsz ?h) else 0) \<and>
    (\<forall>x. x < UTOP \<longrightarrow> PGNUM x \<in> ?A \<longrightarrow> user_byte w d x = user_byte u d x) \<and>
    (loadable ?h \<longrightarrow> (\<forall>x. in_range (p_va ?h) (unat (p_memsz ?h)) x \<longrightarrow> user_byte w d x = Some (segment_byte k binary ?h x)))"
  proof (rule run_load_segment [OF u(2) d I s(1)])
    show "program_header k (header_at k binary n) = ?h" by (simp add: segment_def)
    show "pages_of (p_va ?h) (p_memsz ?h) \<inter> ?A = {}" if "loadable ?h" using dis that by (auto simp: segment_pages_def Let_def)
    show "2 * count_of (p_va ?h) (p_memsz ?h) \<le> length ys" if "loadable ?h"
      using Suc.prems(2) u(3) that by (simp add: segment_count_def Let_def)
  qed (rule s(2))
  then obtain w ws r' G where w: "load_segment e binary (header_at k binary n) u = Ret () w"
      "loading k d I (?A \<union> (if loadable ?h then pages_of (p_va ?h) (p_memsz ?h) else {})) G w ws r'"
      "length ys \<le> length ws + (if loadable ?h then 2 * count_of (p_va ?h) (p_memsz ?h) else 0)"
      "\<forall>x. x < UTOP \<longrightarrow> PGNUM x \<in> ?A \<longrightarrow> user_byte w d x = user_byte u d x"
      "loadable ?h \<longrightarrow> (\<forall>x. in_range (p_va ?h) (unat (p_memsz ?h)) x \<longrightarrow> user_byte w d x = Some (segment_byte k binary ?h x))"
    by blast
  have "?A \<union> (if loadable ?h then pages_of (p_va ?h) (p_memsz ?h) else {}) = (\<Union>i < Suc n. segment_pages k binary i)"
    by (auto simp: segment_pages_def Let_def lessThan_Suc)
  then have A: "loading k d I (\<Union>i < Suc n. segment_pages k binary i) G w ws r'" using w(2) by simp
  have "kfor [0..<Suc n] (\<lambda>i. load_segment e binary (header_at k binary i)) t = Ret () w"
    using u(1) w(1) by (simp add: kfor_append kbind_def kret_def)
  moreover have "program_loaded k binary (Suc n) w d"
    unfolding program_loaded_def
  proof (intro allI impI)
    fix i x assume i: "i < Suc n" "loadable (segment k binary i)" and x: "in_range (p_va (segment k binary i)) (unat (p_memsz (segment k binary i))) x"
    show "user_byte w d x = Some (segment_byte k binary (segment k binary i) x)"
    proof (cases "i = n")
      case True
      then show ?thesis using w(5) i(2) x by blast
    next
      case False
      then have i': "i < n" using i(1) by simp
      have so: "segment_ok binary sz (segment k binary i)" using ok i(2) i' Suc.prems(1) by (simp add: program_ok_def)
      then have U: "unat (p_va (segment k binary i)) + unat (p_memsz (segment k binary i)) \<le> unat UTOP" by (simp add: segment_ok_def layout)
      have "PGNUM x \<in> ?A" using pages_of_byte [OF U x] i' i(2) by (auto simp: segment_pages_def Let_def)
      moreover have "x < UTOP" using x U by (simp add: in_range_def word_less_nat_alt)
      ultimately show ?thesis using w(4) u(4) i' i(2) x by (simp add: program_loaded_def)
    qed
  qed
  moreover have "length xs \<le> length ws + 2 * (\<Sum>i < Suc n. segment_count k binary i)"
    using u(3) w(3) by (simp add: segment_count_def Let_def split: if_splits)
  ultimately show ?case using A by blast
qed

subsection \<open>The whole of \<open>load_icode\<close>\<close>

lemma loading_rebase:
  assumes l: "loading k d I A F u xs role" and m: "pmem s = pmem u" "npages s = npages u" "pages s = pages u" "page_free_list s = page_free_list u"
    and sp: "user_spaces s = user_spaces k" "kern_pgdir s = kern_pgdir k"
  shows "loading s d I A F s xs role"
proof -
  note i = loadingD [OF l] and v = vspace_cong [OF m(1)]
  show ?thesis
    unfolding loading_def sp
  proof (intro conjI ballI allI impI)
    show "mem_inv s (insert (kern_pgdir k) (user_spaces k)) xs role" using i(1) mem_inv_depends [OF m] by simp
    show "self_map s d" using i(3) by (simp add: self_map_def v)
    show "pte_of s d va = (if PGNUM va \<in> A then page2pa (F (PGNUM va)) OR (PTE_W OR PTE_U) OR PTE_P else 0)" if "va < UTOP" for va
      using i(10) [OF that] by (simp add: v)
    show "unat (pp_ref (pages s g)) < 65534" if "g \<in> set xs" for g using i(13) [OF that] by (simp add: m)
  qed (use i(4,6-9) in simp_all)
qed

text \<open>Frames that the kernel does not use for free pages and tables can be seen as data.\<close>

definition apart :: "kstate \<Rightarrow> nat set \<Rightarrow> bool" where
  "apart s J \<longleftrightarrow> (\<forall>xs. free_list s xs \<longrightarrow> J \<inter> set xs = {}) \<and>
     (\<forall>d \<in> spaces s. frame (d - KERNBASE) \<notin> J \<and> (\<forall>va. has_table s d va \<longrightarrow> frame (pde_of s d va) \<notin> J))"

lemma mem_inv_apart:
  assumes inv: "mem_inv s (spaces s) xs role" and J: "apart s J"
  shows "mem_inv s (spaces s) xs (\<lambda>f. if f \<in> J then Data else role f)"
proof -
  note i = mem_invD [OF inv]
  have x: "J \<inter> set xs = {}" using J i(2) unfolding apart_def by blast
  have t: "frame (d - KERNBASE) \<notin> J" "has_table s d va \<Longrightarrow> frame (pde_of s d va) \<notin> J" if "d \<in> spaces s" for d va
    using J that unfolding apart_def by blast+
  have "frames_ok s d (\<lambda>f. if f \<in> J then Data else role f)" if "d \<in> spaces s" for d
    by (rule frames_okI [OF i(4) [OF that]]) (use t [OF that] in simp_all)
  moreover have "card (mapped s (spaces s) f) \<le> unat (pp_ref (pages s f))" if "f \<in> J \<or> role f = Data" for f
    using i(5) [of f] mapped_free [OF inv, of f] by (cases "role f = Data") simp_all
  ultimately show ?thesis using i(1-3) x by (auto simp: mem_inv_def)
qed

abbreviation (input) stack_page :: u32 where "stack_page \<equiv> USTACKTOP - PGSIZE"

lemma segment_below_stack:
  assumes "segment_ok binary sz h"
  shows "pages_of (p_va h) (p_memsz h) \<inter> pages_of stack_page PGSIZE = {}"
proof -
  let ?va = "p_va h" and ?len = "p_memsz h"
  have S: "unat stack_page = 4096 * 977917" by (simp add: layout)
  have le: "unat ?va + unat ?len \<le> unat stack_page" using assms by (simp add: segment_ok_def)
  then have u: "unat (?va + ?len) = unat ?va + unat ?len" using S by (subst unat_add_no_wrap) simp_all
  have "unat (?va + ?len) + 4096 \<le> 4294967296" using le u S by simp
  note r = unat_ROUNDUP [OF this]
  obtain m where m: "unat (ROUNDUP (?va + ?len) PGSIZE) = 4096 * m" using r(3) unfolding aligned_def by (rule dvdE)
  have "4096 * m < 4096 * 977918" using r(2) m u le S by linarith
  then have "m < 977918" by simp
  then have e: "unat (ROUNDUP (?va + ?len) PGSIZE) \<le> unat stack_page" unfolding m S by simp
  have "unat (ROUNDDOWN stack_page PGSIZE) = unat stack_page" unfolding unat_ROUNDDOWN by (simp add: layout)
  with e show ?thesis unfolding pages_of_def page_range_def by fastforce
qed

text \<open>An address space into which a program can be loaded: nothing is mapped below \<open>UTOP\<close>.\<close>

definition fresh_space :: "kstate \<Rightarrow> nat \<Rightarrow> nat list \<Rightarrow> (nat \<Rightarrow> role) \<Rightarrow> bool" where
  "fresh_space s e xs role \<longleftrightarrow> (let d = env_pgdir (envs s e) in
     mem_inv s (spaces s) xs role \<and> kernel_clean s \<and> live s e \<and> self_map s d \<and> (\<forall>va. va < UTOP \<longrightarrow> pte_of s d va = 0) \<and>
     KERNBASE \<le> d \<and> KERNBASE \<le> kern_pgdir s \<and> (\<forall>g \<in> set xs. unat (pp_ref (pages s g)) < 65534))"

definition pages_needed :: "kstate \<Rightarrow> u32 \<Rightarrow> nat" where
  "pages_needed s binary = 2 * (\<Sum>i < segments s binary. segment_count s binary i) + 2"

lemma stack_count: "count_of stack_page PGSIZE = 1"
  by (simp add: count_of_def page_count_def ROUNDUP_def ROUNDDOWN_def layout)

lemma stack_end: "unat stack_page + unat PGSIZE \<le> unat UTOP"
  by (simp add: layout)

text \<open>The result, beside the environment itself: its memory, and that of the others.\<close>

definition program_in_memory :: "kstate \<Rightarrow> nat \<Rightarrow> u32 \<Rightarrow> kstate \<Rightarrow> bool" where
  "program_in_memory s e binary t \<longleftrightarrow> (let d = env_pgdir (envs t e) in
     program_loaded s binary (segments s binary) t d \<and>
     (\<forall>x. in_range stack_page 4096 x \<longrightarrow> user_writable t d x) \<and>
     (\<forall>x. x < UTOP \<longrightarrow> PGNUM x \<notin> (\<Union>i < segments s binary. segment_pages s binary i) \<union> pages_of stack_page PGSIZE \<longrightarrow>
        user_byte t d x = None))"

lemma run_load_icode:
  assumes f: "fresh_space s e xs role" and ok: "program_ok s binary sz" and J: "apart s (image_frames binary sz)"
    and n: "pages_needed s binary \<le> length xs"
  shows "\<exists>t ys r. load_icode e binary s = Ret () t \<and> mem_inv t (spaces t) ys r \<and> kernel_clean t \<and>
    envs t = (envs s)(e := (envs s e)\<lparr>env_tf := (env_tf (envs s e))\<lparr>tf_eip := e_entry (elf_header s binary)\<rparr>\<rparr>) \<and>
    program_in_memory s e binary t \<and> cr3 t (thiscpu t) = kern_pgdir s - KERNBASE \<and> kern_pgdir t = kern_pgdir s \<and>
    (\<forall>x va. x \<in> spaces s \<longrightarrow> x \<noteq> env_pgdir (envs s e) \<longrightarrow> self_map s x \<longrightarrow> va < UTOP \<longrightarrow> user_byte t x va = user_byte s x va)"
proof -
  let ?d = "env_pgdir (envs s e)" and ?N = "segments s binary"
  let ?A = "\<Union>i < ?N. segment_pages s binary i" and ?S = "pages_of stack_page PGSIZE"
  have inv0: "mem_inv s (spaces s) xs role" and clean: "kernel_clean s" and live: "live s e" and self: "self_map s ?d"
    and empty: "\<And>va. va < UTOP \<Longrightarrow> pte_of s ?d va = 0" and kb: "KERNBASE \<le> ?d" "KERNBASE \<le> kern_pgdir s"
    and refs: "\<And>g. g \<in> set xs \<Longrightarrow> unat (pp_ref (pages s g)) < 65534"
    using f unfolding fresh_space_def Let_def by blast+
  have du: "?d \<in> user_spaces s" by (rule live_space [OF live])
  then have dk: "?d \<noteq> kern_pgdir s" using clean unfolding kernel_clean_def by metis
  define role' where "role' f = (if f \<in> image_frames binary sz then Data else role f)" for f
  define I where "I = {f. role' f = Data}"
  have inv: "mem_inv s (spaces s) xs role'" unfolding role'_def by (rule mem_inv_apart [OF inv0 J])
  have IJ: "image_frames binary sz \<subseteq> I" by (auto simp: I_def role'_def)
  let ?s1 = "hw (Lcr3 (?d - KERNBASE)) (s\<lparr>cr3 := (cr3 s)(thiscpu s := ?d - KERNBASE)\<rparr>)"
  have sp1: "user_spaces ?s1 = user_spaces s" "kern_pgdir ?s1 = kern_pgdir s" by (simp_all add: user_spaces_def live_def hw_def)
  have l0: "loading s ?d I {} (\<lambda>_. 0) s xs role'"
    unfolding loading_def using inv self empty refs by (simp add: I_def)
  have l1: "loading ?s1 ?d I {} (\<lambda>_. 0) ?s1 xs role'"
    by (rule loading_rebase [OF l0]) (use sp1 in \<open>simp_all add: hw_def\<close>)
  have hdr: "elf_header ?s1 binary = elf_header s binary" "segment ?s1 = segment s" "segment_byte ?s1 = segment_byte s" "header_at ?s1 = header_at s"
    by (intro ext | simp add: elf_header_def segment_def program_header_def segment_byte_def header_at_def hw_def)+
  have sg: "segment_pages ?s1 = segment_pages s" "segment_count ?s1 = segment_count s"
    by (intro ext, simp add: segment_pages_def segment_count_def hdr)+
  have ok1: "program_ok ?s1 binary sz" using ok by (simp add: program_ok_def hdr sg)
  have d1: "?d \<in> spaces ?s1" "env_pgdir (envs ?s1 e) = ?d" "cr3 ?s1 (thiscpu ?s1) = ?d - KERNBASE"
    using du sp1 by (simp_all add: hw_def)
  obtain u ys r F where u: "kfor [0..<?N] (\<lambda>i. load_segment e binary (header_at s binary i)) ?s1 = Ret () u"
      "loading ?s1 ?d I ?A F u ys r" "length xs \<le> length ys + 2 * (\<Sum>i < ?N. segment_count s binary i)" "program_loaded s binary ?N u ?d"
    using run_segments [OF l1 d1 IJ ok1, of ?N] n unfolding hdr sg program_loaded_def pages_needed_def by auto
  note i = loadingD [OF u(2)] and o = outside_fields [OF loadingD(2) [OF u(2)]]
  let ?g = "\<lambda>env. env\<lparr>env_tf := (env_tf env)\<lparr>tf_eip := e_entry (elf_header s binary)\<rparr>\<rparr>"
  define s2 where "s2 = upd_env e ?g (hw (Lcr3 (kern_pgdir s - KERNBASE)) (u\<lparr>cr3 := (cr3 u)(thiscpu u := kern_pgdir s - KERNBASE)\<rparr>))"
  have e2: "envs s2 = (envs s)(e := ?g (envs s e))" "kern_pgdir s2 = kern_pgdir s" "cr3 s2 (thiscpu s2) = kern_pgdir s - KERNBASE"
    "pmem s2 = pmem u" "npages s2 = npages u" "pages s2 = pages u" "page_free_list s2 = page_free_list u"
    using o(1,4) by (simp_all add: s2_def hw_def upd_env_def)
  have "env_pgdir (envs s2 x) = env_pgdir (envs s x)" "live s2 x = live s x" for x by (simp_all add: e2(1) live_def)
  then have sp2: "user_spaces s2 = user_spaces s" by (simp add: user_spaces_def)
  have l2: "loading s2 ?d I ?A F s2 ys r"
    by (rule loading_rebase [OF u(2) e2(4-7)]) (use sp1 sp2 e2(2) in simp_all)
  have d2: "?d \<in> spaces s2" "env_pgdir (envs s2 e) = ?d" using du sp2 by (simp_all add: e2(1))
  have dis: "?S \<inter> ?A = {}"
  proof -
    have "segment_pages s binary i \<inter> ?S = {}" if "i < ?N" for i
      using segment_below_stack [of binary sz "segment s binary i"] ok that by (simp add: program_ok_def segment_pages_def Let_def)
    then show ?thesis by blast
  qed
  have len: "2 * count_of stack_page PGSIZE \<le> length ys" using n u(3) unfolding pages_needed_def stack_count by linarith
  obtain t zs r' F' where t: "region_alloc e stack_page PGSIZE s2 = Ret () t" "loading s2 ?d I (?A \<union> ?S) F' t zs r'"
      "\<forall>x. x < UTOP \<longrightarrow> PGNUM x \<in> ?A \<longrightarrow> user_byte t ?d x = user_byte s2 ?d x"
    using run_region_alloc [OF l2 d2 stack_end dis len] by blast
  note j = loadingD [OF t(2)] and q = outside_fields [OF loadingD(2) [OF t(2)]]
  have run: "load_icode e binary s = Ret () t"
  proof -
    have "inside binary sz binary 48" using ok by (simp add: program_ok_def)
    then have h: "read_elf binary s = Ret (elf_header s binary) s" by (rule run_read_elf [OF l0 IJ])
    have m: "e_magic (elf_header s binary) = ELF_MAGIC" using ok by (simp add: program_ok_def)
    have nk: "\<not> ?d < KERNBASE" "\<not> kern_pgdir s < KERNBASE" using kb by (simp_all add: not_less)
    have c: "kern_pgdir u = kern_pgdir s" using o(4) by (simp add: hw_def)
    show ?thesis
      using h m u(1) [unfolded header_at_def] nk c t(1) unfolding s2_def
      by (simp add: load_icode_def kbind_def kget_def kmod_def PADDR_def lcr3_def kassert_def kret_def Let_def)
  qed
  have sp: "spaces t = spaces s" using q(1,4) sp2 e2(2) by (simp add: user_spaces_def live_def)
  have "mem_inv t (spaces t) zs r'" using j(1) sp sp2 e2(2) by simp
  have pm1: "pmem ?s1 = pmem s" by (simp add: hw_def)
  note v1 = vspace_cong [OF pm1]
  have keep: "user_byte t ?d x = user_byte u ?d x" if "x < UTOP" "PGNUM x \<in> ?A" for x
    using t(3) that loading_byte [OF l2 d2(1) that(1)] loading_byte [OF u(2) d1(1) that(1)] e2(4) by simp
  have mem: "mem_inv t (spaces t) zs r'" using j(1) sp sp2 e2(2) by simp
  have envs: "envs t = (envs s)(e := ?g (envs s e))" using q(1) e2(1) by simp
  have al: "aligned 4096 (x - KERNBASE)" if "x \<in> spaces s" for x
    by (rule frames_okD(1) [OF mem_invD(4) [OF inv that]])
  have pg: "env_pgdir (envs t e) = ?d" by (simp add: envs)
  have prog: "program_in_memory s e binary t"
    unfolding program_in_memory_def Let_def pg
  proof (intro conjI allI impI)
    show "program_loaded s binary ?N t ?d"
      unfolding program_loaded_def
    proof (intro allI impI)
      fix i x assume x: "i < ?N" "loadable (segment s binary i)" "in_range (p_va (segment s binary i)) (unat (p_memsz (segment s binary i))) x"
      have "segment_ok binary sz (segment s binary i)" using ok x(1,2) by (simp add: program_ok_def)
      then have U: "unat (p_va (segment s binary i)) + unat (p_memsz (segment s binary i)) \<le> unat UTOP"
        by (simp add: segment_ok_def layout)
      with pages_of_byte [OF U x(3)] have "PGNUM x \<in> ?A" "x < UTOP" using x by (auto simp: segment_pages_def Let_def in_range_def word_less_nat_alt)
      then show "user_byte t ?d x = Some (segment_byte s binary (segment s binary i) x)"
        using keep u(4) x by (simp add: program_loaded_def)
    qed
    show "user_writable t ?d x" if "in_range stack_page 4096 x" for x
    proof -
      have "PGNUM x \<in> ?S" by (rule pages_of_byte [OF stack_end]) (use that in simp)
      moreover have "x < UTOP" using that by (simp add: in_range_def word_less_nat_alt layout)
      ultimately show ?thesis using j(10) [of x] al du j(3) by (simp add: user_writable_iff shared_def load_flags)
    qed
    show "user_byte t ?d x = None" if "x < UTOP" "PGNUM x \<notin> ?A \<union> ?S" for x
      using loading_byte [OF t(2) d2(1) that(1)] that(2) by simp
  qed
  have others: "user_byte t x va = user_byte s x va" if x: "x \<in> spaces s" "x \<noteq> ?d" "self_map s x" "va < UTOP" for x va
  proof -
    have x': "x \<in> spaces s2" "x \<in> spaces ?s1" using x(1) sp1 sp2 e2(2) by simp_all
    have eq: "pde_of t x y = pde_of s x y" "y < UTOP \<Longrightarrow> pte_of t x y = pte_of s x y" for y
      using j(11) [OF x'(1) x(2), of y] j(12) [OF x'(1) x(2), of y] i(11) [OF x'(2) x(2), of y] i(12) [OF x'(2) x(2), of y]
      unfolding vspace_cong [OF e2(4)] v1 by simp_all
    show ?thesis
    proof (rule user_byte_transfer [OF al [OF x(1)] x(3) al [OF x(1)] _ x(4)])
      show "self_map t x" using x(3) by (simp add: self_map_def has_table_def eq)
      show "pmem t a = pmem s a" if "shared s x va" "frame a = frame (pte_of s x va)" for a
      proof -
        have "role' (frame a) = Data" using mapped_page(1) [OF inv x(1,4)] that by (simp add: shared_def)
        then have "frame a \<in> I" by (simp add: I_def)
        then show ?thesis using j(5) [of a] i(5) [of a] e2(4) by (simp add: hw_def)
      qed
    qed (use eq(2) [OF x(4)] in \<open>simp_all add: shared_def\<close>)
  qed
  have "kernel_clean t"
  proof -
    have "pde_of t (kern_pgdir s) va = pde_of s (kern_pgdir s) va" for va
      using j(11) [of "kern_pgdir s" va] i(11) [of "kern_pgdir s" va] dk e2(2) sp1
      unfolding vspace_cong [OF e2(4)] v1 by simp
    moreover have "kern_pgdir t = kern_pgdir s" "user_spaces t = user_spaces s" using q(1,4) sp2 e2(2) by (simp_all add: user_spaces_def live_def)
    ultimately show ?thesis using clean by (simp add: kernel_clean_def)
  qed
  then show ?thesis using run mem envs prog others q(2-4) e2(2,3)
    by (intro exI [of _ t] exI [of _ zs] exI [of _ r'] conjI) simp_all
qed

subsection \<open>A new environment with a program\<close>

text \<open>The program does not change while its bytes do not.\<close>

lemma program_cong:
  assumes m: "\<forall>a. frame a \<in> image_frames binary sz \<longrightarrow> pmem t a = pmem s a" and ok: "program_ok s binary sz"
  shows "elf_header t binary = elf_header s binary"
    "\<And>i. i < segments s binary \<Longrightarrow> segment t binary i = segment s binary i"
    "\<And>i x. i < segments s binary \<Longrightarrow> loadable (segment s binary i) \<Longrightarrow>
       segment_byte t binary (segment s binary i) x = segment_byte s binary (segment s binary i) x"
    "program_ok t binary sz" "pages_needed t binary = pages_needed s binary"
    "\<And>i. i < segments s binary \<Longrightarrow> segment_pages t binary i = segment_pages s binary i"
proof -
  have h: "inside binary sz binary 48" using ok by (simp add: program_ok_def)
  note l = load_image [OF m]
  show e: "elf_header t binary = elf_header s binary"
    using l [OF h, of 0] l [OF h, of 24] l [OF h, of 28] l [OF h, of 44] by (simp add: elf_header_def)
  then have a: "header_at t binary = header_at s binary" by (intro ext) (simp add: header_at_def)
  show g: "segment t binary i = segment s binary i" if "i < segments s binary" for i
  proof -
    have "inside binary sz (header_at s binary i) 32" using ok that by (simp add: program_ok_def)
    note q = l [OF this]
    show ?thesis using q [of 0] q [of 4] q [of 8] q [of 16] q [of 20] by (simp add: segment_def program_header_def a)
  qed
  show sp: "segment_pages t binary i = segment_pages s binary i" if "i < segments s binary" for i
    by (simp add: segment_pages_def g [OF that])
  have sc: "segment_count t binary i = segment_count s binary i" if "i < segments s binary" for i
    by (simp add: segment_count_def g [OF that])
  show "segment_byte t binary (segment s binary i) x = segment_byte s binary (segment s binary i) x"
    if i: "i < segments s binary" "loadable (segment s binary i)" for i x
  proof (cases "unat (x - p_va (segment s binary i)) < unat (p_filesz (segment s binary i))")
    case True
    let ?h = "segment s binary i"
    have "inside binary sz (binary + p_offset ?h) (unat (p_filesz ?h))" using ok i by (simp add: program_ok_def segment_ok_def)
    from inside_byte(2) [OF this True] m show ?thesis by (simp add: segment_byte_def)
  qed (simp add: segment_byte_def)
  show "pages_needed t binary = pages_needed s binary" by (simp add: pages_needed_def e sc)
  show "program_ok t binary sz"
    using ok unfolding program_ok_def e a by (simp add: g sp)
qed

text \<open>C5. \<open>env_create\<close> makes an environment whose memory is the program: every segment has the bytes of the
  file at its addresses and zeros after them, the stack page is there and can be written, nothing else is mapped, the
  environment starts at the entry point, the others notice nothing, and memory stays isolated.\<close>

theorem env_create_loads:
  assumes iso: "isolated s" "KERNBASE \<le> kern_pgdir s" and ok: "program_ok s binary sz" and J: "apart s (image_frames binary sz)"
    and free: "free_list s xs" "pages_needed s binary + 1 \<le> length xs" "\<forall>g \<in> set xs. unat (pp_ref (pages s g)) < 65534"
    and e: "env_free_list s = Some e" "e < NENV" "env_status (envs s e) = ENV_FREE"
  shows "\<exists>t. env_create binary ty s = Ret () t \<and> isolated t \<and>
    env_status (envs t e) = ENV_RUNNABLE \<and> env_id (envs t e) = next_env_id (env_id (envs s e)) e \<and>
    env_tf (envs t e) = new_tf\<lparr>tf_eip := e_entry (elf_header s binary)\<rparr> \<and> program_in_memory s e binary t \<and>
    (\<forall>j. j \<noteq> e \<longrightarrow> envs t j = envs s j) \<and> cr3 t (thiscpu t) = kern_pgdir s - KERNBASE \<and>
    (\<forall>j va. live s j \<longrightarrow> self_map s (env_pgdir (envs s j)) \<longrightarrow> va < UTOP \<longrightarrow>
       user_byte t (env_pgdir (envs s j)) va = user_byte s (env_pgdir (envs s j)) va)"
proof -
  obtain ys role where "mem_inv s (spaces s) ys role" and clean: "kernel_clean s"
    using iso(1) by (auto simp: isolated_def)
  moreover from this have "ys = xs" using free(1) by (blast intro: free_list_unique dest: mem_invD(2))
  moreover obtain p zs where xs: "xs = p # zs" using free(2) by (cases xs) auto
  ultimately have inv: "mem_inv s (spaces s) (p # zs) role" by simp
  have kd: "kern_pgdir s \<in> spaces s" by simp
  note m = mem_inv_vm_state [OF inv kd clean]
  let ?n = "page2pa p + KERNBASE" and ?v = "vm_state e p s"
  obtain c where c: "env_alloc 0 s = Ret (0, Some e) ((alloc_env_state 0 e p s)\<lparr>cons := c\<rparr>)"
    using env_alloc_Ret [OF m(6) e(1)] by blast
  define t where "t = (alloc_env_state 0 e p s)\<lparr>cons := c\<rparr>"
  have t: "envs t = (envs s)(e := born 0 e ((envs s e)\<lparr>env_pgdir := ?n\<rparr>))" "pmem t = pmem ?v" "kern_pgdir t = kern_pgdir s"
      "pages t = pages ?v" "page_free_list t = page_free_list ?v" "npages t = npages ?v"
    by (simp_all add: t_def alloc_env_state_def page_free_list_take)
  have new: "new_space s t p"
    by (rule vm_state_new_space [OF inv clean e(2,3) _ _ t(1-3)]) (simp_all add: born_def)
  note n = new_spaceD [OF new]
  have pJ: "p \<notin> image_frames binary sz" using J free(1) xs unfolding apart_def by auto
  have same: "\<forall>a. frame a \<in> image_frames binary sz \<longrightarrow> pmem t a = pmem s a"
  proof (intro allI impI)
    show "pmem t a = pmem s a" if "frame a \<in> image_frames binary sz" for a by (rule n(8)) (use that pJ in blast)
  qed
  note prog = program_cong [OF same ok]
  have en: "env_pgdir (envs t e) = ?n" by (simp add: t(1) born_def)
  have p: "p < 65536" using vm_ok_page_facts(5) [OF mem_inv_vm_ok [OF inv kd]] .
  have "\<not> ?n < KERNBASE" by (rule kva_ge) (use p in \<open>simp add: unat_page2pa\<close>)
  then have kn: "KERNBASE \<le> ?n" by (simp only: not_less)
  have pz: "p \<notin> set zs" using free_list_distinct [OF free(1)] xs by simp
  let ?r = "role(p := Directory ?n)"
  have inv': "mem_inv t (spaces t) zs ?r" unfolding n(1) using m(1) [of e] mem_inv_depends [of t ?v] t(2,4-6) by simp
  have clean': "kernel_clean t" using clean n(2,9,10) n(6) [OF kd] unfolding kernel_clean_def by auto
  have "fresh_space t e zs ?r"
    unfolding fresh_space_def Let_def en
    using inv' clean' e(2) n(3,5) kn iso(2) free(3) pz t(3,4) by (auto simp: live_def t(1) born_def xs)
  moreover have "apart t (image_frames binary sz)"
  proof -
    have "ws = zs" if "free_list t ws" for ws using that mem_invD(2) [OF inv'] by (rule free_list_unique)
    moreover have "image_frames binary sz \<inter> set zs = {}" using J free(1) xs unfolding apart_def by fastforce
    moreover have old: "frame (d - KERNBASE) \<notin> image_frames binary sz" "has_table s d va \<Longrightarrow> frame (pde_of s d va) \<notin> image_frames binary sz"
      if "d \<in> spaces s" for d va using J that unfolding apart_def by blast+
    moreover have "frame (?n - KERNBASE) = p" using p by (simp add: frame_page2pa)
    moreover have "frame (pde_of t ?n va) \<notin> image_frames binary sz" if "has_table t ?n va" for va
    proof -
      have ne: "PDX va \<noteq> PDX UVPT" using that by (simp add: has_table_def)
      then have eq: "pde_of t ?n va = pde_of s (kern_pgdir s) va"
        using pde_vm_state [OF m(6), of e va] unfolding vspace_cong [OF t(2)] by simp
      then have "has_table s (kern_pgdir s) va" using that by (simp add: has_table_def)
      then show ?thesis using old(2) [OF kd] eq by simp
    qed
    ultimately show ?thesis
      unfolding apart_def n(1) using pJ n(6) by (auto simp: has_table_def)
  qed
  moreover have "pages_needed t binary \<le> length zs" using free(2) xs prog(5) by simp
  ultimately obtain u ys' r where u: "load_icode e binary t = Ret () u" "mem_inv u (spaces u) ys' r" "kernel_clean u"
    "envs u = (envs t)(e := (envs t e)\<lparr>env_tf := (env_tf (envs t e))\<lparr>tf_eip := e_entry (elf_header t binary)\<rparr>\<rparr>)"
    "program_in_memory t e binary u" "cr3 u (thiscpu u) = kern_pgdir t - KERNBASE"
    "\<forall>x va. x \<in> spaces t \<longrightarrow> x \<noteq> env_pgdir (envs t e) \<longrightarrow> self_map t x \<longrightarrow> va < UTOP \<longrightarrow> user_byte u x va = user_byte t x va"
    using run_load_icode [OF _ prog(4)] by blast
  have run: "env_create binary ty s = Ret () u" using c u(1) by (simp add: env_create_def kbind_def t_def)
  have eu: "envs u j = (if j = e then (envs t e)\<lparr>env_tf := new_tf\<lparr>tf_eip := e_entry (elf_header s binary)\<rparr>\<rparr> else envs s j)" for j
    using u(4) prog(1) by (simp add: t(1) born_def)
  have loaded: "program_in_memory s e binary u"
  proof -
    have "program_loaded s binary (segments s binary) u d" if "program_loaded t binary (segments s binary) u d" for d
      using that unfolding program_loaded_def by (simp add: prog(2) prog(3))
    moreover have "(\<Union>i < segments s binary. segment_pages t binary i) = (\<Union>i < segments s binary. segment_pages s binary i)"
      using prog(6) by simp
    ultimately show ?thesis using u(5) unfolding program_in_memory_def Let_def prog(1) by simp
  qed
  have others: "user_byte u d va = user_byte s d va" if d: "d \<in> user_spaces s" "self_map s d" "va < UTOP" for d va
  proof -
    have ds: "d \<in> spaces s" "d \<noteq> ?n" using d(1) n(2) by auto
    have al: "aligned 4096 (d - KERNBASE)" by (rule frames_okD(1) [OF mem_invD(4) [OF inv ds(1)]])
    have self: "self_map t d" using d(2) n(6) [OF ds(1)] by (simp add: self_map_def has_table_def)
    have "user_byte t d va = user_byte s d va"
    proof (rule user_byte_transfer [OF al d(2) al self d(3)])
      show "pmem t a = pmem s a" if "shared s d va" "frame a = frame (pte_of s d va)" for a
      proof (rule n(8))
        have "role (frame a) = Data" using mapped_page(1) [OF inv ds(1) d(3)] that by (simp add: shared_def)
        then show "frame a \<noteq> p" using m(7) by auto
      qed
    qed (use n(7) [OF ds(1) d(3)] in \<open>simp_all add: shared_def\<close>)
    moreover have "user_byte u d va = user_byte t d va" using u(7) ds self d(3) n(1) en by auto
    ultimately show ?thesis by simp
  qed
  show ?thesis
  proof (intro exI [of _ u] conjI allI impI)
    show "isolated u" using u(2,3) unfolding isolated_def by blast
    show "user_byte u (env_pgdir (envs s j)) va = user_byte s (env_pgdir (envs s j)) va"
      if "live s j" "self_map s (env_pgdir (envs s j))" "va < UTOP" for j va
      by (rule others [OF live_space [OF that(1)] that(2,3)])
  qed (use run eu loaded u(6) t(3) in \<open>simp_all add: t(1) born_def\<close>)
qed

subsection \<open>A machine with a program in its kernel image\<close>

text \<open>At the address 0xF0020000: the header, one program header behind it, and four bytes for the address
  0x800020, where eight bytes are wanted.\<close>

definition program_memory :: memory where
  "program_memory = put_slots [(0x20000, 0, ELF_MAGIC), (0x20000, 6, 0x800020), (0x20000, 7, 52), (0x20000, 11, 1),
     (0x20000, 13, 1), (0x20000, 14, 84), (0x20000, 15, 0x800020), (0x20000, 17, 4), (0x20000, 18, 8),
     (0x20000, 21, 0x12345678), (0x5000, 958, 0x6007), (0x5000, 957, 0x5005)]"

definition program_machine :: kstate where
  "program_machine = fresh_machine\<lparr>pmem := program_memory\<rparr>"

lemma program_machine_fields [simp]:
  "npages program_machine = 256" "kern_pgdir program_machine = sample_pgdir" "page_free_list program_machine = Some 169"
  "pages program_machine = pages fresh_machine" "pmem program_machine = program_memory" "env_free_list program_machine = Some 1"
  "env_status (envs program_machine i) = ENV_FREE" "env_id (envs program_machine i) = 0"
  by (simp_all add: program_machine_def) (simp_all add: fresh_machine_def small_machine_def zero_env_def)

lemma program_memory_slots:
  assumes "unat y < 1024"
  shows "load32 program_memory (0x5000 + 4 * y) = (if y = 958 then 0x6007 else if y = 957 then 0x5005 else 0)"
    "load32 program_memory (0x6000 + 4 * y) = 0"
    "load32 program_memory (0x20000 + 4 * y) = (if y = 0 then ELF_MAGIC else if y = 6 then 0x800020 else if y = 7 then 52
       else if y = 11 then 1 else if y = 13 then 1 else if y = 14 then 84 else if y = 15 then 0x800020 else if y = 17 then 4
       else if y = 18 then 8 else if y = 21 then 0x12345678 else 0)"
proof -
  have al: "aligned 4096 0x5000" "aligned 4096 0x6000" "aligned 4096 0x20000" by (simp_all add: aligned_def)
  note l = load_put_slots [OF _ _ assms]
  show "load32 program_memory (0x5000 + 4 * y) = (if y = 958 then 0x6007 else if y = 957 then 0x5005 else 0)"
    "load32 program_memory (0x6000 + 4 * y) = 0"
    "load32 program_memory (0x20000 + 4 * y) = (if y = 0 then ELF_MAGIC else if y = 6 then 0x800020 else if y = 7 then 52
       else if y = 11 then 1 else if y = 13 then 1 else if y = 14 then 84 else if y = 15 then 0x800020 else if y = 17 then 4
       else if y = 18 then 8 else if y = 21 then 0x12345678 else 0)"
    unfolding program_memory_def using al by (subst l; simp)+
qed

lemma program_machine_pde: "pde_of program_machine sample_pgdir x = pde_of fresh_machine sample_pgdir x"
  unfolding fresh_machine_pde using program_memory_slots(1) [OF PDX_less, of x] by (simp add: pde_of_def layout)

lemma program_machine_vm: "vm_ok program_machine sample_pgdir (rev [100..<170])"
proof -
  have v: "vm_ok fresh_machine sample_pgdir (rev [100..<170])" using fresh_machine_ready unfolding mem_ready_def fresh_machine_fields by blast
  have ht: "has_table program_machine sample_pgdir x = has_table fresh_machine sample_pgdir x" for x
    by (simp add: has_table_def program_machine_pde)
  show ?thesis
    using v unfolding vm_ok_def mem_ok_def free_list_def wf_pgdir_def tables_not_free_def ht program_machine_pde program_machine_fields fresh_machine_fields .
qed

lemma program_machine_isolated: "isolated program_machine"
proof (rule isolated_start)
  show "vm_ok program_machine (kern_pgdir program_machine) (rev [100..<170])" using program_machine_vm by simp
  show "pde_of program_machine (kern_pgdir program_machine) x AND PTE_P = 0" if "x < UTOP" for x
  proof -
    have P: "PDX UVPT = 957" "PDX MMIOBASE = 958" by (simp_all add: PDX_def layout)
    show ?thesis using UTOP_not_special [OF that] unfolding P by (simp add: program_machine_pde fresh_machine_pde)
  qed
qed simp

lemma program_image: "image_frames 0xF0020000 88 \<subseteq> {32}"
proof
  fix f assume "f \<in> image_frames 0xF0020000 88"
  then obtain y where y: "f = frame (y - KERNBASE)" "4026662912 \<le> unat y" "unat y < 4026663000"
    by (auto simp: image_frames_def in_range_def)
  have "unat (y - KERNBASE) = unat y - 4026531840" using y(2) by (simp add: unat_sub word_le_nat_alt layout)
  then have "unat (y - KERNBASE) div 4096 = 32" using y(2,3) by (intro div_nat_eqI) simp_all
  then show "f \<in> {32}" by (simp add: y(1) frame_def)
qed

lemma program_headers:
  "elf_header program_machine 0xF0020000 = \<lparr>e_magic = ELF_MAGIC, e_entry = 0x800020, e_phoff = 52, e_phnum = 1\<rparr>"
  "segment program_machine 0xF0020000 0 = \<lparr>p_type = 1, p_offset = 84, p_va = 0x800020, p_filesz = 4, p_memsz = 8\<rparr>"
proof -
  note l = program_memory_slots(3)
  show e: "elf_header program_machine 0xF0020000 = \<lparr>e_magic = ELF_MAGIC, e_entry = 0x800020, e_phoff = 52, e_phnum = 1\<rparr>"
    using l [of 0] l [of 6] l [of 7] l [of 11] by (simp add: elf_header_def layout)
  show "segment program_machine 0xF0020000 0 = \<lparr>p_type = 1, p_offset = 84, p_va = 0x800020, p_filesz = 4, p_memsz = 8\<rparr>"
    using l [of 13] l [of 14] l [of 15] l [of 17] l [of 18] by (simp add: segment_def header_at_def program_header_def e layout)
qed

lemma program_machine_program: "program_ok program_machine 0xF0020000 88" "pages_needed program_machine 0xF0020000 = 4"
proof -
  show "program_ok program_machine 0xF0020000 88"
    unfolding program_ok_def by (simp add: program_headers header_at_def segment_ok_def inside_def layout)
  have "count_of 0x800020 8 = 1" by (simp add: count_of_def page_count_def ROUNDUP_def ROUNDDOWN_def)
  then show "pages_needed program_machine 0xF0020000 = 4"
    by (simp add: pages_needed_def program_headers segment_count_def)
qed

lemma program_machine_apart: "apart program_machine (image_frames 0xF0020000 88)"
proof -
  have u: "user_spaces program_machine = {}" by (auto simp: user_spaces_def live_def)
  have fl: "xs = rev [100..<170]" if "free_list program_machine xs" for xs
    using that program_machine_vm unfolding vm_ok_def by (blast intro: free_list_unique)
  have "frame (pde_of program_machine sample_pgdir va) \<noteq> 32" for va
    by (simp add: program_machine_pde fresh_machine_pde frame_def)
  moreover have "32 \<notin> set (rev [100..<170::nat])" by (simp del: upt_rec_numeral)
  moreover have "frame (sample_pgdir - KERNBASE) \<noteq> 32" by (simp add: frame_def layout)
  ultimately show ?thesis using program_image fl u unfolding apart_def by fastforce
qed

lemma env_create_loads_witness:
  "\<exists>t. env_create 0xF0020000 ENV_TYPE_USER program_machine = Ret () t \<and> isolated t \<and>
    tf_eip (env_tf (envs t 1)) = 0x800020 \<and> user_byte t (env_pgdir (envs t 1)) 0x800021 = Some 0x56 \<and>
    user_byte t (env_pgdir (envs t 1)) 0x800024 = Some 0"
proof -
  have fl: "free_list program_machine (rev [100..<170])" using program_machine_vm by (simp add: vm_ok_def)
  have refs: "\<forall>g \<in> set (rev [100..<170]). unat (pp_ref (pages program_machine g)) < 65534"
    by (simp add: fresh_machine_def del: upt_rec_numeral)
  have kb: "KERNBASE \<le> kern_pgdir program_machine" by (simp add: layout)
  have len: "pages_needed program_machine 0xF0020000 + 1 \<le> length (rev [100..<170])"
    unfolding program_machine_program(2) by simp
  obtain t where t: "env_create 0xF0020000 ENV_TYPE_USER program_machine = Ret () t" "isolated t"
    "env_tf (envs t 1) = new_tf\<lparr>tf_eip := e_entry (elf_header program_machine 0xF0020000)\<rparr>"
    "program_in_memory program_machine 1 0xF0020000 t"
    using env_create_loads [where ty = ENV_TYPE_USER and e = 1,
        OF program_machine_isolated kb program_machine_program(1) program_machine_apart fl len refs] by auto
  let ?d = "env_pgdir (envs t 1)"
  have l: "user_byte t ?d x = Some (segment_byte program_machine 0xF0020000 (segment program_machine 0xF0020000 0) x)"
    if "in_range 0x800020 8 x" for x
    using t(4) that unfolding program_in_memory_def program_loaded_def Let_def by (simp add: program_headers)
  have "segment_byte program_machine 0xF0020000 (segment program_machine 0xF0020000 0) 0x800021 = 0x56"
    by (simp add: segment_byte_def program_headers program_memory_def store32_def layout)
  moreover have "segment_byte program_machine 0xF0020000 (segment program_machine 0xF0020000 0) 0x800024 = 0"
    by (simp add: segment_byte_def program_headers)
  ultimately show ?thesis
    using t(1-3) l [of "0x800021"] l [of "0x800024"] by (intro exI [of _ t]) (simp add: in_range_def program_headers)
qed

end
