(* ===== verification/Trap_Print.thy ===== *)
theory Trap_Print
  imports Lapic
begin

text \<open>
  Printing a trap frame: \<open>trapname\<close>, \<open>print_trapframe\<close> and \<open>print_regs\<close> of kern/trap.c.  A
  trap frame in the kernel is a value together with the address it lies at.
\<close>

abbreviation (input) T_DIVIDE :: u32 where "T_DIVIDE \<equiv> 0"
abbreviation (input) T_BRKPT :: u32 where "T_BRKPT \<equiv> 3"
abbreviation (input) T_PGFLT :: u32 where "T_PGFLT \<equiv> 14"
abbreviation (input) T_SYSCALL :: u32 where "T_SYSCALL \<equiv> 48"

definition excnames :: "string list" where
  "excnames = [''Divide error'', ''Debug'', ''Non-Maskable Interrupt'', ''Breakpoint'',
     ''Overflow'', ''BOUND Range Exceeded'', ''Invalid Opcode'', ''Device Not Available'',
     ''Double Fault'', ''Coprocessor Segment Overrun'', ''Invalid TSS'',
     ''Segment Not Present'', ''Stack Fault'', ''General Protection'', ''Page Fault'',
     ''(unknown trap)'', ''x87 FPU Floating-Point Error'', ''Alignment Check'',
     ''Machine-Check'', ''SIMD Floating-Point Exception'']"

text \<open>The comparison with the size of the array is unsigned.\<close>

definition trapname :: "u32 \<Rightarrow> string" where
  "trapname trapno =
     (if unat trapno < length excnames then excnames ! unat trapno
      else if trapno = T_SYSCALL then ''System call''
      else if sint IRQ_BASE \<le> sint trapno \<and> sint trapno < sint (IRQ_BASE + 16) then ''Hardware Interrupt''
      else ''(unknown trap)'')"

definition print_regs :: "PushRegs \<Rightarrow> unit kernel" where
  "print_regs regs =
     kbind (kprintf (''  edi  0x%08x'' @ newline) [Word32 (reg_edi regs)]) (\<lambda>_.
     kbind (kprintf (''  esi  0x%08x'' @ newline) [Word32 (reg_esi regs)]) (\<lambda>_.
     kbind (kprintf (''  ebp  0x%08x'' @ newline) [Word32 (reg_ebp regs)]) (\<lambda>_.
     kbind (kprintf (''  oesp 0x%08x'' @ newline) [Word32 (reg_oesp regs)]) (\<lambda>_.
     kbind (kprintf (''  ebx  0x%08x'' @ newline) [Word32 (reg_ebx regs)]) (\<lambda>_.
     kbind (kprintf (''  edx  0x%08x'' @ newline) [Word32 (reg_edx regs)]) (\<lambda>_.
     kbind (kprintf (''  ecx  0x%08x'' @ newline) [Word32 (reg_ecx regs)]) (\<lambda>_.
     kprintf (''  eax  0x%08x'' @ newline) [Word32 (reg_eax regs)])))))))"

text \<open>\<open>tfp\<close> is the address of the trap frame \<open>tf\<close>.\<close>

definition print_trapframe :: "u32 \<Rightarrow> Trapframe \<Rightarrow> unit kernel" where
  "print_trapframe tfp tf =
     kbind cpunum (\<lambda>cpu.
     kbind (kprintf (''TRAP frame at %p from CPU %d'' @ newline) [Word32 tfp, Word32 cpu]) (\<lambda>_.
     kbind (print_regs (tf_regs tf)) (\<lambda>_.
     kbind (kprintf (''  es   0x----%04x'' @ newline) [Word32 (ucast (tf_es tf))]) (\<lambda>_.
     kbind (kprintf (''  ds   0x----%04x'' @ newline) [Word32 (ucast (tf_ds tf))]) (\<lambda>_.
     kbind (kprintf (''  trap 0x%08x %s'' @ newline)
              [Word32 (tf_trapno tf), Cstr (Some (trapname (tf_trapno tf)))]) (\<lambda>_.
     kbind (kget (\<lambda>s. (tfp = last_tf s \<and> tf_trapno tf = T_PGFLT, cr2 s))) (\<lambda>(show_cr2, va).
     kbind (kwhen show_cr2 (kprintf (''  cr2  0x%08x'' @ newline) [Word32 va])) (\<lambda>_.
     kbind (kprintf ''  err  0x%08x'' [Word32 (tf_err tf)]) (\<lambda>_.
     kbind
       (if tf_trapno tf = T_PGFLT then
          kprintf ('' [%s, %s, %s]'' @ newline)
            [Cstr (Some (if tf_err tf AND 4 \<noteq> 0 then ''user'' else ''kernel'')),
             Cstr (Some (if tf_err tf AND 2 \<noteq> 0 then ''write'' else ''read'')),
             Cstr (Some (if tf_err tf AND 1 \<noteq> 0 then ''protection'' else ''not-present''))]
        else kprintf newline []) (\<lambda>_.
     kbind (kprintf (''  eip  0x%08x'' @ newline) [Word32 (tf_eip tf)]) (\<lambda>_.
     kbind (kprintf (''  cs   0x----%04x'' @ newline) [Word32 (ucast (tf_cs tf))]) (\<lambda>_.
     kbind (kprintf (''  flag 0x%08x'' @ newline) [Word32 (tf_eflags tf)]) (\<lambda>_.
     kwhen (tf_cs tf AND 3 \<noteq> 0)
       (kbind (kprintf (''  esp  0x%08x'' @ newline) [Word32 (tf_esp tf)]) (\<lambda>_.
        kprintf (''  ss   0x----%04x'' @ newline) [Word32 (ucast (tf_ss tf))])))))))))))))))"

end
