(* ===== verification/Monitor.thy ===== *)
theory Monitor
  imports Kdebug Trap_Print
begin

text \<open>
  The kernel monitor: kern/monitor.c.  The command line is the buffer of \<open>readline\<close>, a function
  from offsets to bytes in which a zero byte ends every line; a pointer into it is an offset.
  A null pointer or an uninitialised one is \<open>None\<close>, and using it a page fault in the kernel.
\<close>

abbreviation (input) MAXARGS :: nat where "MAXARGS \<equiv> 16"

subsection \<open>Backtraces\<close>

text \<open>The words of a stack frame are read through the page directory in force.  Nothing the
  loop does changes memory, so a chain of more than \<open>2^32\<close> frames never ends.\<close>

definition stack_word :: "u32 \<Rightarrow> u32 kernel" where
  "stack_word a = kread (\<lambda>s. vword s a)"

definition print_frame :: "u32 \<Rightarrow> u32 kernel" where
  "print_frame ebp =
     kbind (stack_word (ebp + 4)) (\<lambda>eip.
     kbind (kprintf ''ebp %x  eip %x  args'' [Word32 ebp, Word32 eip]) (\<lambda>_.
     kbind (kfor [2..<7] (\<lambda>i.
       kbind (stack_word (ebp + 4 * of_nat i)) (\<lambda>a. kprintf '' %08.x'' [Word32 a]))) (\<lambda>_.
     kbind (kprintf newline []) (\<lambda>_.
     kret eip))))"

primrec backtrace_loop :: "nat \<Rightarrow> (u32 \<Rightarrow> unit kernel) \<Rightarrow> u32 \<Rightarrow> unit kernel" where
  "backtrace_loop 0 info ebp = kleave Spin"
| "backtrace_loop (Suc n) info ebp =
     (if ebp = 0 then kret ()
      else
        kbind (print_frame ebp) (\<lambda>eip.
        kbind (info eip) (\<lambda>_.
        kbind (stack_word ebp) (backtrace_loop n info))))"

definition mon_backtrace :: "u32 kernel" where
  "mon_backtrace =
     kbind (kprintf (''Stack backtrace:'' @ newline) []) (\<lambda>_.
     kbind (kget (\<lambda>s. frame_pointer (image s))) (\<lambda>ebp.
     kbind (backtrace_loop (2 ^ 32) (\<lambda>_. kret ()) ebp) (\<lambda>_.
     kret 0)))"

definition print_debuginfo :: "u32 \<Rightarrow> unit kernel" where
  "print_debuginfo eip =
     kbind (debuginfo_eip eip) (\<lambda>(_, info).
     kbind (cptr_string (2 ^ 32) (eip_file info)) (\<lambda>file.
     kbind (cptr_string (unat (eip_fn_namelen info)) (eip_fn_name info)) (\<lambda>fn.
     kprintf ([CHR 0x09] @ ''%s:%d: %.*s+%d'' @ newline)
       [Cstr (Some file), Word32 (eip_line info), Word32 (eip_fn_namelen info), Cstr (Some fn),
        Word32 (eip - eip_fn_addr info)])))"

definition csa_backtrace :: "u32 kernel" where
  "csa_backtrace =
     kbind (kprintf (''Stack backtrace:'' @ newline) []) (\<lambda>_.
     kbind (kget (\<lambda>s. frame_pointer (image s))) (\<lambda>ebp.
     kbind (backtrace_loop (2 ^ 32) print_debuginfo ebp) (\<lambda>_.
     kret 0)))"

subsection \<open>The command table\<close>

datatype command = Help | Kerninfo | Mon_backtrace | Csa_backtrace | Showmappings | Setm | Showvm

definition commands :: "(string \<times> string \<times> command) list" where
  "commands =
     [(''help'', ''Display this list of commands'', Help),
      (''kerninfo'', ''Display information about the kernel'', Kerninfo),
      (''mon_backtrace'', ''mon_backtrace'', Mon_backtrace),
      (''csa_backtrace'', ''csa_backtrace'', Csa_backtrace),
      (''cb'', ''csa_backtrace'', Csa_backtrace),
      (''showmappings'', ''showmappings'', Showmappings),
      (''sw'', ''showmappings'', Showmappings),
      (''setm'', ''setm'', Setm),
      (''showvm'', ''showvm'', Showvm)]"

definition mon_help :: "u32 kernel" where
  "mon_help =
     kbind (kfor commands (\<lambda>(name, desc, _).
       kprintf (''%s - %s'' @ newline) [Cstr (Some name), Cstr (Some desc)])) (\<lambda>_.
     kret 0)"

definition mon_kerninfo :: "u32 kernel" where
  "mon_kerninfo =
     kbind (kget image) (\<lambda>img.
     kbind (kprintf (''Special kernel symbols:'' @ newline) []) (\<lambda>_.
     kbind (kprintf (''  _start                  %08x (phys)'' @ newline) [Word32 (sym_start img)]) (\<lambda>_.
     kbind (kprintf (''  entry  %08x (virt)  %08x (phys)'' @ newline)
              [Word32 (sym_entry img), Word32 (sym_entry img - KERNBASE)]) (\<lambda>_.
     kbind (kprintf (''  etext  %08x (virt)  %08x (phys)'' @ newline)
              [Word32 (sym_etext img), Word32 (sym_etext img - KERNBASE)]) (\<lambda>_.
     kbind (kprintf (''  edata  %08x (virt)  %08x (phys)'' @ newline)
              [Word32 (sym_edata img), Word32 (sym_edata img - KERNBASE)]) (\<lambda>_.
     kbind (kprintf (''  end    %08x (virt)  %08x (phys)'' @ newline)
              [Word32 (sym_end img), Word32 (sym_end img - KERNBASE)]) (\<lambda>_.
     kbind (kprintf (''Kernel executable memory footprint: %dKB'' @ newline)
              [Word32 (ROUNDUP (sym_end img - sym_entry img) 1024 div 1024)]) (\<lambda>_.
     kret 0))))))))"

subsection \<open>Arguments\<close>

definition whitespace :: "u8 \<Rightarrow> bool" where
  "whitespace b \<longleftrightarrow> b = 0x09 \<or> b = 0x0D \<or> b = 0x0A \<or> b = 0x20"

text \<open>The two scanning loops of \<open>runcmd\<close>, within the 1024 bytes of the buffer.\<close>

function gobble :: "(nat \<Rightarrow> u8) \<Rightarrow> nat \<Rightarrow> (nat \<Rightarrow> u8) \<times> nat" where
  "gobble b i =
     (if i < BUFLEN \<and> b i \<noteq> 0 \<and> whitespace (b i) then gobble (b(i := 0)) (i + 1) else (b, i))"
  by pat_completeness auto
termination by (relation "measure (\<lambda>(b, i). BUFLEN - i)") auto

function skip_arg :: "(nat \<Rightarrow> u8) \<Rightarrow> nat \<Rightarrow> nat" where
  "skip_arg b i = (if i < BUFLEN \<and> b i \<noteq> 0 \<and> \<not> whitespace (b i) then skip_arg b (i + 1) else i)"
  by pat_completeness auto
termination by (relation "measure (\<lambda>(b, i). BUFLEN - i)") auto

declare gobble.simps [simp del]
declare skip_arg.simps [simp del]

text \<open>The offsets of the arguments, with room for \<open>k\<close> more; \<open>None\<close> when there are too many.\<close>

primrec parse_args :: "nat \<Rightarrow> (nat \<Rightarrow> u8) \<Rightarrow> nat \<Rightarrow> (nat \<Rightarrow> u8) \<times> nat list option" where
  "parse_args 0 b i =
     (case gobble b i of (b', j) \<Rightarrow> (b', if j \<ge> BUFLEN \<or> b' j = 0 then Some [] else None))"
| "parse_args (Suc k) b i =
     (case gobble b i of (b', j) \<Rightarrow>
        if j \<ge> BUFLEN \<or> b' j = 0 then (b', Some [])
        else
          (case parse_args k b' (skip_arg b' j) of
             (b'', None) \<Rightarrow> (b'', None)
           | (b'', Some args) \<Rightarrow> (b'', Some (j # args))))"

definition buf_string :: "(nat \<Rightarrow> u8) \<Rightarrow> nat \<Rightarrow> string" where
  "buf_string b i = map (\<lambda>x. char_of (unat x)) (takeWhile (\<lambda>x. x \<noteq> 0) (map b [i..<BUFLEN]))"

text \<open>A hexadecimal number after two skipped characters; the loop overwrites the letters.  The
  loop runs to a zero byte, here at most to the end of the buffer.\<close>

definition xtoi_digit :: "u8 \<Rightarrow> u8" where
  "xtoi_digit c = (if sint c \<ge> 97 then c - 97 + 48 + 10 else c)"

function xtoi_loop :: "(nat \<Rightarrow> u8) \<Rightarrow> nat \<Rightarrow> u32 \<Rightarrow> (nat \<Rightarrow> u8) \<times> u32" where
  "xtoi_loop b i res =
     (if i < BUFLEN \<and> b i \<noteq> 0 then
        let d = xtoi_digit (b i)
        in xtoi_loop (b(i := d)) (i + 1) (res * 16 + scast d - 48)
      else (b, res))"
  by pat_completeness auto
termination by (relation "measure (\<lambda>(b, i, res). BUFLEN - i)") auto

declare xtoi_loop.simps [simp del]

definition xtoi :: "nat option \<Rightarrow> u32 kernel" where
  "xtoi p =
     (case p of
        None \<Rightarrow> kpanic ''Kernel page fault!''
      | Some i \<Rightarrow> kio (\<lambda>c. case xtoi_loop (line_buf c) (i + 2) 0 of (b, v) \<Rightarrow> (v, c\<lparr>line_buf := b\<rparr>)))"

text \<open>\<open>argv[i]\<close>: a null pointer at \<open>argc\<close>, uninitialised after it.\<close>

definition argv_at :: "nat list \<Rightarrow> nat \<Rightarrow> nat option" where
  "argv_at argv i = (if i < length argv then Some (argv ! i) else None)"

subsection \<open>Inspecting memory\<close>

definition pprint :: "u32 \<Rightarrow> unit kernel" where
  "pprint pte =
     kbind (kload pte) (\<lambda>e.
     kprintf (''PTE_P: %x, PTE_W: %x, PTE_U: %x'' @ newline)
       [Word32 (e AND PTE_P), Word32 (e AND PTE_W), Word32 (e AND PTE_U)])"

text \<open>After \<open>2^20\<close> rounds the address is back at its start, so the loop does not end.\<close>

primrec showmappings_loop :: "nat \<Rightarrow> u32 \<Rightarrow> u32 \<Rightarrow> unit kernel" where
  "showmappings_loop 0 begin_addr end_addr =
     (if begin_addr \<le> end_addr then kleave Spin else kret ())"
| "showmappings_loop (Suc n) begin_addr end_addr =
     (if begin_addr \<le> end_addr then
        kbind (kget kern_pgdir) (\<lambda>kpd.
        kbind (pgdir_walk kpd begin_addr True) (\<lambda>pte.
        if pte = 0 then kpanic ''boot_map_region panic, out of memory''
        else
          kbind (kload pte) (\<lambda>e.
          kbind
            (if e AND PTE_P \<noteq> 0 then
               kbind (kprintf ''page %x with '' [Word32 begin_addr]) (\<lambda>_. pprint pte)
             else kprintf (''page not exist: %x'' @ newline) [Word32 begin_addr]) (\<lambda>_.
          showmappings_loop n (begin_addr + PGSIZE) end_addr))))
      else kret ())"

definition showmappings :: "nat list \<Rightarrow> u32 kernel" where
  "showmappings argv =
     (if length argv = 1 then
        kbind (kprintf (''Usage: showmappings 0xbegin_addr 0xend_addr'' @ newline) []) (\<lambda>_. kret 0)
      else
        kbind (xtoi (argv_at argv 1)) (\<lambda>begin_addr.
        kbind (xtoi (argv_at argv 2)) (\<lambda>end_addr.
        kbind (kprintf (''begin: %x, end: %x'' @ newline) [Word32 begin_addr, Word32 end_addr]) (\<lambda>_.
        kbind (showmappings_loop (2 ^ 20) begin_addr end_addr) (\<lambda>_.
        kret 0)))))"

text \<open>The first character of an argument.\<close>

definition arg_char :: "nat option \<Rightarrow> u8 kernel" where
  "arg_char p = (case p of None \<Rightarrow> kpanic ''Kernel page fault!'' | Some i \<Rightarrow> kget (\<lambda>s. line_buf (cons s) i))"

definition setm :: "nat list \<Rightarrow> u32 kernel" where
  "setm argv =
     (if length argv = 1 then
        kbind (kprintf (''Usage: setm 0xaddr [0|1 :clear or set] [P|W|U]'' @ newline) []) (\<lambda>_. kret 0)
      else
        kbind (xtoi (argv_at argv 1)) (\<lambda>addr.
        kbind (kget kern_pgdir) (\<lambda>kpd.
        kbind (pgdir_walk kpd addr True) (\<lambda>pte.
        kbind (kprintf ''%x before setm: '' [Word32 addr]) (\<lambda>_.
        kbind (pprint pte) (\<lambda>_.
        kbind (arg_char (argv_at argv 3)) (\<lambda>which.
        let perm = (if which = of_char (CHR ''U'') then PTE_U
                    else if which = of_char (CHR ''W'') then PTE_W
                    else if which = of_char (CHR ''P'') then PTE_P else 0) in
        kbind (arg_char (argv_at argv 2)) (\<lambda>op.
        kbind (kload pte) (\<lambda>e.
        kbind (kstore pte (if op = of_char (CHR ''0'') then e AND NOT perm else e OR perm)) (\<lambda>_.
        kbind (kprintf ''%x after  setm: '' [Word32 addr]) (\<lambda>_.
        kbind (pprint pte) (\<lambda>_.
        kret 0))))))))))))"

definition showvm :: "nat list \<Rightarrow> u32 kernel" where
  "showvm argv =
     (if length argv = 1 then
        kbind (kprintf (''Usage: showvm 0xaddr 0xn'' @ newline) []) (\<lambda>_. kret 0)
      else
        kbind (xtoi (argv_at argv 1)) (\<lambda>addr.
        kbind (xtoi (argv_at argv 2)) (\<lambda>n.
        kbind (kfor [0..<unat n] (\<lambda>i.
          kbind (stack_word (addr + 4 * of_nat i)) (\<lambda>v.
          kprintf (''VM at %x is %x'' @ newline) [Word32 (addr + 4 * of_nat i), Word32 v]))) (\<lambda>_.
        kret 0))))"

subsection \<open>The command interpreter\<close>

definition run_command :: "command \<Rightarrow> nat list \<Rightarrow> u32 kernel" where
  "run_command cmd argv =
     (case cmd of
        Help \<Rightarrow> mon_help
      | Kerninfo \<Rightarrow> mon_kerninfo
      | Mon_backtrace \<Rightarrow> mon_backtrace
      | Csa_backtrace \<Rightarrow> csa_backtrace
      | Showmappings \<Rightarrow> showmappings argv
      | Setm \<Rightarrow> setm argv
      | Showvm \<Rightarrow> showvm argv)"

definition runcmd :: "u32 kernel" where
  "runcmd =
     kbind (kio (\<lambda>c. case parse_args (MAXARGS - 1) (line_buf c) 0 of
       (b, r) \<Rightarrow> (r, c\<lparr>line_buf := b\<rparr>))) (\<lambda>r. case r of
       None \<Rightarrow> kbind (kprintf (''Too many arguments (max %d)'' @ newline) [Word32 (of_nat MAXARGS)]) (\<lambda>_. kret 0)
     | Some [] \<Rightarrow> kret 0
     | Some (a # args) \<Rightarrow>
         kbind (kget (\<lambda>s. buf_string (line_buf (cons s)) a)) (\<lambda>name.
         case map_of commands name of
           Some (_, cmd) \<Rightarrow> run_command cmd (a # args)
         | None \<Rightarrow>
             kbind (kprintf (''Unknown command '' @ [CHR 0x27] @ ''%s'' @ [CHR 0x27] @ newline)
               [Cstr (Some name)]) (\<lambda>_. kret 0)))"

text \<open>The loop of \<open>monitor\<close>, followed for \<open>n\<close> command lines.\<close>

primrec monitor_loop :: "nat \<Rightarrow> unit kernel" where
  "monitor_loop 0 = kleave Monitor_loop"
| "monitor_loop (Suc n) =
     kbind (kwait (readline (Some ''K> ''))) (\<lambda>line.
     if line then
       kbind (runcmd) (\<lambda>r. if sint r < 0 then kret () else monitor_loop n)
     else monitor_loop n)"

definition monitor :: "nat \<Rightarrow> (u32 \<times> Trapframe) option \<Rightarrow> unit kernel" where
  "monitor n tf =
     kbind (kprintf (''Welcome to the JOS kernel monitor!'' @ newline) []) (\<lambda>_.
     kbind (kprintf (''Type '' @ [CHR 0x27] @ ''help'' @ [CHR 0x27] @ '' for a list of commands.'' @ newline) []) (\<lambda>_.
     kbind (kprintf (''%m%s'' @ newline @ ''%m%s'' @ newline @ ''%m%s'' @ newline)
       [Word32 0x0100, Cstr (Some ''blue''), Word32 0x0200, Cstr (Some ''green''),
        Word32 0x0400, Cstr (Some ''red'')]) (\<lambda>_.
     kbind (case tf of None \<Rightarrow> kret () | Some (tfp, t) \<Rightarrow> print_trapframe tfp t) (\<lambda>_.
     monitor_loop n))))"

end
