(* ===== verification/Trap.thy ===== *)
theory Trap
  imports Syscall Monitor
begin

text \<open>
  Traps: kern/trap.c.  A trap frame is the one of an environment, or one on the kernel stack;
  the entry code of kern/trapentry.S, which saves the registers and calls \<open>trap\<close>, is the
  caller, and the table \<open>funs\<close> of its entry points is a parameter.
\<close>

subsection \<open>The interrupt descriptor table\<close>

definition set_gate :: "nat \<Rightarrow> Gatedesc \<Rightarrow> kstate \<Rightarrow> kstate" where
  "set_gate i g s = s\<lparr>idt := (idt s)(i := g)\<rparr>"

text \<open>The three kinds of gates: the exceptions, the system call, the hardware interrupts.\<close>

definition exception_gate :: "(nat \<Rightarrow> u32) \<Rightarrow> nat \<Rightarrow> kstate \<Rightarrow> kstate" where
  "exception_gate funs i =
     (if i = 3 then set_gate i (SETGATE False GD_KT (funs i) 3)
      else if i \<noteq> 2 \<and> i \<noteq> 15 then set_gate i (SETGATE False GD_KT (funs i) 0)
      else id)"

abbreviation (input) sizeof_Taskstate :: u32 where "sizeof_Taskstate \<equiv> 104"

definition trap_init_percpu :: "unit kernel" where
  "trap_init_percpu =
     kbind (kget (\<lambda>s. cpu_id (cpus s (thiscpu s)))) (\<lambda>cid.
     kbind (kmod (\<lambda>s. s\<lparr>cpus := (cpus s)(thiscpu s := cpus s (thiscpu s)\<lparr>cpu_ts :=
       (cpu_ts (cpus s (thiscpu s)))\<lparr>ts_esp0 := KSTACKTOP - ucast cid * (KSTKSIZE + KSTKGAP),
         ts_ss0 := GD_KD\<rparr>\<rparr>)\<rparr>)) (\<lambda>_.
     kbind (kmod (\<lambda>s. s\<lparr>gdt := (gdt s)(5 + unat cid :=
       SEG16 STS_T32A (cpus_kva s + sizeof_CpuInfo * of_nat (thiscpu s) + 12) sizeof_Taskstate 0)\<rparr>)) (\<lambda>_.
     kbind (kmod (\<lambda>s. s\<lparr>gdt := (gdt s)(5 + unat cid := gdt s (5 + unat cid)\<lparr>sd_s := 0\<rparr>)\<rparr>)) (\<lambda>_.
     kbind (kmod (hw (Ltr (GD_TSS0 + 8 * ucast cid)))) (\<lambda>_.
     kmod (hw Lidt))))))"

definition trap_init :: "(nat \<Rightarrow> u32) \<Rightarrow> unit kernel" where
  "trap_init funs =
     kbind (kmod (fold (exception_gate funs) [0..<17])) (\<lambda>_.
     kbind (kmod (set_gate 48 (SETGATE False GD_KT (funs 48) 3))) (\<lambda>_.
     kbind (kmod (fold (\<lambda>i. set_gate (32 + i) (SETGATE False GD_KT (funs (32 + i)) 0)) [0..<16])) (\<lambda>_.
     trap_init_percpu)))"

subsection \<open>Trap frames\<close>

datatype tfloc =
    Env_frame nat
  | Stack_frame u32 Trapframe

definition tf_addr :: "tfloc \<Rightarrow> kstate \<Rightarrow> u32" where
  "tf_addr l s = (case l of Env_frame e \<Rightarrow> envs_kva s + sizeof_Env * of_nat e | Stack_frame a t \<Rightarrow> a)"

definition tf_at :: "tfloc \<Rightarrow> kstate \<Rightarrow> Trapframe" where
  "tf_at l s = (case l of Env_frame e \<Rightarrow> env_tf (envs s e) | Stack_frame a t \<Rightarrow> t)"

definition print_tf :: "tfloc \<Rightarrow> unit kernel" where
  "print_tf l = kbind (kget (\<lambda>s. (tf_addr l s, tf_at l s))) (\<lambda>(a, t). print_trapframe a t)"

text \<open>A store to \<open>reg_eax\<close> of a frame on the kernel stack, to which the kernel never returns,
  has no effect that could be seen.\<close>

definition set_tf_eax :: "tfloc \<Rightarrow> u32 \<Rightarrow> kstate \<Rightarrow> kstate" where
  "set_tf_eax l v =
     (case l of
        Env_frame e \<Rightarrow> upd_env e (\<lambda>env. env\<lparr>env_tf :=
          (env_tf env)\<lparr>tf_regs := (tf_regs (env_tf env))\<lparr>reg_eax := v\<rparr>\<rparr>\<rparr>)
      | Stack_frame a t \<Rightarrow> id)"

subsection \<open>Page faults\<close>

abbreviation (input) sizeof_UTrapframe :: u32 where "sizeof_UTrapframe \<equiv> 52"

definition utf_place :: "u32 \<Rightarrow> u32" where
  "utf_place esp =
     (if UXSTACKTOP - PGSIZE \<le> esp \<and> esp \<le> UXSTACKTOP - 1 then esp - sizeof_UTrapframe - 4
      else UXSTACKTOP - sizeof_UTrapframe)"

text \<open>The words of a \<open>UTrapframe\<close> in the order of its fields.\<close>

definition utf_of :: "u32 \<Rightarrow> Trapframe \<Rightarrow> UTrapframe" where
  "utf_of fault_va tf = \<lparr>utf_fault_va = fault_va, utf_err = tf_err tf, utf_regs = tf_regs tf,
     utf_eip = tf_eip tf, utf_eflags = tf_eflags tf, utf_esp = tf_esp tf\<rparr>"

definition utf_words :: "UTrapframe \<Rightarrow> u32 list" where
  "utf_words u = (let r = utf_regs u in
     [utf_fault_va u, utf_err u, reg_edi r, reg_esi r, reg_ebp r, reg_oesp r, reg_ebx r,
      reg_edx r, reg_ecx r, reg_eax r, utf_eip u, utf_eflags u, utf_esp u])"

primrec vstore_words :: "u32 \<Rightarrow> u32 list \<Rightarrow> unit kernel" where
  "vstore_words va [] = kret ()"
| "vstore_words va (w # ws) = kbind (vstore32 va w) (\<lambda>_. vstore_words (va + 4) ws)"

definition page_fault_handler :: "tfloc \<Rightarrow> unit kernel" where
  "page_fault_handler l =
     kbind (kget (\<lambda>s. (cr2 s, tf_at l s))) (\<lambda>(fault_va, tf).
     kbind (kwhen (tf_cs tf AND 3 = 0) (kbind (print_tf l) (\<lambda>_. kpanic ''Kernel page fault!''))) (\<lambda>_.
     kbind the_curenv (\<lambda>c.
     kbind (kget (\<lambda>s. env_pgfault_upcall (envs s c))) (\<lambda>upcall.
     kbind (kwhen (upcall \<noteq> 0)
       (let utf_addr = utf_place (tf_esp tf) in
        kbind (user_mem_assert c utf_addr sizeof_UTrapframe PTE_W) (\<lambda>_.
        kbind (vstore_words utf_addr (utf_words (utf_of fault_va tf))) (\<lambda>_.
        kbind the_curenv (\<lambda>c.
        kbind (kmod (upd_env c (\<lambda>env. env\<lparr>env_tf :=
          (env_tf env)\<lparr>tf_eip := env_pgfault_upcall env, tf_esp := utf_addr\<rparr>\<rparr>))) (\<lambda>_.
        env_run c)))))) (\<lambda>_.
     kbind (kget (\<lambda>s. env_id (envs s c))) (\<lambda>eid.
     kbind (kprintf (''[%08x] user fault va %08x ip %08x'' @ newline)
       [Word32 eid, Word32 fault_va, Word32 (tf_eip tf)]) (\<lambda>_.
     kbind (print_tf l) (\<lambda>_.
     env_destroy c))))))))"

subsection \<open>Dispatch\<close>

definition trap_dispatch :: "nat \<Rightarrow> tfloc \<Rightarrow> unit kernel" where
  "trap_dispatch n l =
     kbind (kget (\<lambda>s. tf_at l s)) (\<lambda>tf.
     if tf_trapno tf = T_PGFLT then page_fault_handler l
     else if tf_trapno tf = T_BRKPT then
       kbind (kget (\<lambda>s. tf_addr l s)) (\<lambda>a. monitor n (Some (a, tf)))
     else if tf_trapno tf = T_SYSCALL then
       (let r = tf_regs tf in
        kbind (syscall (reg_eax r) (reg_edx r) (reg_ecx r) (reg_ebx r) (reg_edi r) (reg_esi r)) (\<lambda>v.
        kmod (set_tf_eax l v)))
     else if tf_trapno tf = IRQ_BASE + IRQ_SPURIOUS then
       kbind (kprintf (''Spurious interrupt on irq 7'' @ newline) []) (\<lambda>_. print_tf l)
     else if tf_trapno tf = IRQ_BASE + IRQ_TIMER then
       kbind lapic_eoi (\<lambda>_. sched_yield)
     else
       kbind (print_tf l) (\<lambda>_.
       if tf_cs tf = GD_KT then kpanic ''unhandled trap in kernel''
       else kbind the_curenv env_destroy))"

text \<open>\<open>eflags\<close> is the flags register on entry; \<open>a\<close> is the address of the frame \<open>t\<close> on the
  stack.  A set \<open>panicstr\<close> halts the CPU with interrupts disabled.\<close>

definition trap_entry :: "u32 \<Rightarrow> unit kernel" where
  "trap_entry eflags =
     kbind (kget panicstr) (\<lambda>p.
     kbind (kwhen (p \<noteq> None) (kleave Cpu_halt)) (\<lambda>_.
     kbind (kget (\<lambda>s. cpu_status (cpus s (thiscpu s)))) (\<lambda>old.
     kbind (kmod (\<lambda>s. s\<lparr>cpus := (cpus s)(thiscpu s := cpus s (thiscpu s)\<lparr>cpu_status := CPU_STARTED\<rparr>)\<rparr>)) (\<lambda>_.
     kbind (kwhen (old = CPU_HALTED) lock_kernel) (\<lambda>_.
     kassert (eflags AND FL_IF = 0) ''assertion failed: !(read_eflags() & FL_IF)'')))))"

definition trap_from_user :: "Trapframe \<Rightarrow> nat kernel" where
  "trap_from_user t =
     kbind lock_kernel (\<lambda>_.
     kbind (kget curenv) (\<lambda>cur.
     kbind (kassert (cur \<noteq> None) ''assertion failed: curenv'') (\<lambda>_.
     kbind the_curenv (\<lambda>c.
     kbind (kget (\<lambda>s. env_status (envs s c) = ENV_DYING)) (\<lambda>dying.
     kbind (kwhen dying
       (kbind (env_free c) (\<lambda>_.
        kbind (kmod (set_curenv None)) (\<lambda>_.
        sched_yield)))) (\<lambda>_.
     kbind the_curenv (\<lambda>c.
     kbind (kmod (upd_env c (\<lambda>env. env\<lparr>env_tf := t\<rparr>))) (\<lambda>_.
     kret c))))))))"

definition trap :: "nat \<Rightarrow> u32 \<Rightarrow> u32 \<Rightarrow> Trapframe \<Rightarrow> unit kernel" where
  "trap n eflags a t =
     kbind (trap_entry eflags) (\<lambda>_.
     kbind (if tf_cs t AND 3 = 3 then kbind (trap_from_user t) (\<lambda>c. kret (Env_frame c))
            else kret (Stack_frame a t)) (\<lambda>l.
     kbind (kmod (\<lambda>s. s\<lparr>last_tf := tf_addr l s\<rparr>)) (\<lambda>_.
     kbind (trap_dispatch n l) (\<lambda>_.
     kbind (kget (\<lambda>s. case curenv s of Some c \<Rightarrow> if env_status (envs s c) = ENV_RUNNING then Some c else None
                      | None \<Rightarrow> None)) (\<lambda>run.
     case run of Some c \<Rightarrow> env_run c | None \<Rightarrow> sched_yield)))))"

end
