(* ===== verification/Exit_Spec.thy ===== *)
theory Exit_Spec
  imports Trap Sched_Spec
begin

text \<open>
  How the kernel is left.  Every path of the kernel that ends in user mode or in a halted CPU
  goes through \<open>env_pop_tf\<close> or \<open>sched_halt\<close>; the rules below carry what these two establish
  through the system calls, the monitor and the trap handler, so that it holds of every trap.
\<close>

subsection \<open>What holds at an exit\<close>

definition lock_free :: "kstate \<Rightarrow> bool" where
  "lock_free s \<longleftrightarrow> locked (kernel_lock s) = 0 \<and> lk_cpu (kernel_lock s) = None"

text \<open>A resumed environment is the current one of its CPU, is recorded as running there, and
  finds the lock free.  A halted CPU has no environment, is marked as halted, runs on the
  kernel's page directory and has released the lock; only after a panic it keeps what it has.\<close>

definition exit_ok :: "kexit \<Rightarrow> kstate \<Rightarrow> bool" where
  "exit_ok e s = (case e of
      To_user n \<Rightarrow> curenv s = Some n \<and> env_cpunum (envs s n) = of_nat (thiscpu s) \<and> lock_free s
    | Cpu_halt \<Rightarrow> panicstr s \<noteq> None \<or>
        (curenv s = None \<and> cpu_status (cpus s (thiscpu s)) = CPU_HALTED \<and>
         cr3 s (thiscpu s) + KERNBASE = kern_pgdir s \<and> lock_free s)
    | Monitor_loop \<Rightarrow> True
    | Spin \<Rightarrow> True)"

lemma exit_ok_simps [simp]: "exit_ok Monitor_loop s" "exit_ok Spin s"
  by (simp_all add: exit_ok_def)

lemma lock_kernel_exits [exits_intro]: "exits exit_ok lock_kernel"
  by (rule exitsI) (simp add: lock_kernel_def split: lock_result.splits)


text \<open>Primitive accesses leave the kernel only to wait for a device.\<close>

lemma exits_access [exits_intro]:
  "exits exit_ok (kload p)" "exits exit_ok (kstore p v)" "exits exit_ok (kmemset p c n)"
  "exits exit_ok (kmemcpy d p n)" "exits exit_ok (PADDR p)" "exits exit_ok (KADDR p)"
  "exits exit_ok (pa2page p)" "exits exit_ok the_curenv" "exits exit_ok (kio h)"
  "exits exit_ok (kdev k)" "exits exit_ok (kwait w)" "exits exit_ok (kprintf fmt ap)"
  "exits exit_ok (vload8 a)" "exits exit_ok (vstore8 a b)" "exits exit_ok (kread r)"
  "exits exit_ok (lapicr i)" "exits exit_ok (lcr3 pa)"
  by (auto intro!: exitsI simp: kload_def kstore_def kmemset_def kmemcpy_def PADDR_def KADDR_def
      pa2page_def the_curenv_def kio_def kdev_def kwait_def kprintf_Ret vload8_def vstore8_def
      kread_def lapicr_def lcr3_def kmod_def
      split: if_splits option.splits prod.splits)

lemma exits_spin [exits_intro]: "exits exit_ok (kleave Spin)" "exits exit_ok (kleave Monitor_loop)"
  by (rule exits_leave; simp)+

lemma exits_list [exits_intro]:
  "exits Q m \<Longrightarrow> (\<And>x ys. exits Q (f x ys)) \<Longrightarrow> exits Q (case l of [] \<Rightarrow> m | x # ys \<Rightarrow> f x ys)"
  by (cases l) auto


subsection \<open>Memory, printing and debug information\<close>

lemma exits_page2kva [exits_intro]: "exits exit_ok (page2kva i)"
  unfolding page2kva_def by (intro exits_intro)

lemma exits_page_free [exits_intro]: "exits exit_ok (page_free i)" "exits exit_ok (page_incref i)"
  unfolding page_free_def page_incref_def by (intro exits_intro)+

lemma exits_page_alloc [exits_intro]: "exits exit_ok (page_alloc fl)" "exits exit_ok (page_decref i)"
  unfolding page_alloc_def page_decref_def by (intro exits_intro)+

lemma exits_pgdir_walk [exits_intro]: "exits exit_ok (pgdir_walk pgdir va create)"
  unfolding pgdir_walk_def by (intro exits_intro)

lemma exits_page_lookup [exits_intro]:
  "exits exit_ok (page_lookup pgdir va)" "exits exit_ok (tlb_invalidate pgdir va)"
  unfolding page_lookup_def tlb_invalidate_def by (intro exits_intro)+

lemma exits_page_remove [exits_intro]: "exits exit_ok (page_remove pgdir va)"
  unfolding page_remove_def by (intro exits_intro)

lemma exits_page_insert [exits_intro]: "exits exit_ok (page_insert pgdir pp va perm)"
  unfolding page_insert_def by (intro exits_intro)

lemma exits_user_mem_check_loop: "exits exit_ok (user_mem_check_loop pgdir va perm i end')"
proof (induction pgdir va perm i end' rule: user_mem_check_loop.induct)
  case (1 pgdir va perm i end')
  then show ?case by (subst user_mem_check_loop.simps) (intro exits_intro)
qed

lemma exits_user_mem_check [exits_intro]: "exits exit_ok (user_mem_check e va n perm)"
  unfolding user_mem_check_def by (intro exits_intro exits_user_mem_check_loop)

lemma exits_vstore_words [exits_intro]: "exits exit_ok (vstore_words va ws)"
proof (induction ws arbitrary: va)
  case (Cons w ws)
  show ?case unfolding vstore_words.simps vstore32_def by (intro exits_intro Cons.IH)
qed (simp add: exits_intro)

lemma exits_strings [exits_intro]:
  "exits exit_ok (colon_offset n p q)" "exits exit_ok (vstring n p)"
proof (induction n arbitrary: p q)
  case (Suc n)
  { case 1 show ?case unfolding colon_offset.simps by (intro exits_intro Suc.IH) }
  { case 2 show ?case unfolding vstring.simps by (intro exits_intro Suc.IH) }
qed (simp_all add: exits_intro)

lemma exits_cptr [exits_intro]: "exits exit_ok (strfind_colon c)" "exits exit_ok (cptr_string n c)"
  unfolding strfind_colon_def cptr_string_def by (cases c; simp; intro exits_intro)+

lemma exits_debuginfo [exits_intro]: "exits exit_ok (debuginfo_eip a)"
  unfolding debuginfo_eip_def find_tables_def find_function_def by (intro exits_intro)

lemma exits_lapic [exits_intro]: "exits exit_ok cpunum" "exits exit_ok (lapicw i v)"
  unfolding lapicw_def cpunum_def by (intro exits_intro)+

lemma exits_print_trapframe [exits_intro]: "exits exit_ok (print_trapframe a t)"
  unfolding print_trapframe_def print_regs_def by (intro exits_intro)

lemma exits_lapic_eoi [exits_intro]: "exits exit_ok lapic_eoi"
  unfolding lapic_eoi_def by (intro exits_intro)

lemma exits_print_pcs [exits_intro]: "exits exit_ok (print_pcs pcs)"
proof (induction pcs)
  case (Cons pc pcs)
  show ?case unfolding print_pcs.simps by (intro exits_intro Cons.IH)
qed (simp add: exits_intro)

lemma exits_report_unlock [exits_intro]: "exits exit_ok report_unlock"
  unfolding report_unlock_def by (intro exits_intro)

subsection \<open>The two ways out\<close>

lemma exits_unlock_kernel [exits_intro]: "exits exit_ok unlock_kernel"
proof (rule exitsI)
  fix s e t assume u: "unlock_kernel s = Leave e t"
  show "exit_ok e t"
  proof (cases "spin_unlock (thiscpu s) (kernel_lock s)")
    case (Lock_panic msg)
    have "exits exit_ok (kbind report_unlock (\<lambda>_. kpanic msg :: unit kernel))"
      by (intro exits_intro)
    with u Lock_panic show ?thesis by (auto simp: unlock_kernel_def dest: exitsD)
  qed (use u in \<open>simp_all add: unlock_kernel_def\<close>)
qed

lemma unlock_kernel_Ret:
  "unlock_kernel s = Ret () t \<Longrightarrow> lock_free t \<and> t = s\<lparr>kernel_lock := kernel_lock t\<rparr>"
  by (auto simp: unlock_kernel_def spin_unlock_def lock_free_def kbind_eq_Ret kprim
      split: lock_result.splits if_splits)

lemma env_pop_tf_exit:
  assumes "env_pop_tf e s = Leave x t" "curenv s = Some e"
  shows "exit_ok x t"
proof -
  let ?s = "upd_env e (\<lambda>env. env\<lparr>env_cpunum := of_nat (thiscpu s)\<rparr>) s"
  have "kbind unlock_kernel (\<lambda>_. kleave (To_user e) :: unit kernel) ?s = Leave x t"
    using assms by (simp add: env_pop_tf_def the_curenv_def kbind_Ret)
  then consider "unlock_kernel ?s = Leave x t"
    | u where "unlock_kernel ?s = Ret () u" "x = To_user e" "t = u"
    by (auto simp: kbind_eq_Leave kleave_def)
  then show ?thesis
  proof cases
    case 1
    then show ?thesis by (rule exitsD [OF exits_unlock_kernel])
  next
    case 2
    from unlock_kernel_Ret [OF 2(1)] obtain l where u: "lock_free u" "u = ?s\<lparr>kernel_lock := l\<rparr>"
      by blast
    then have "envs u = envs ?s" "thiscpu u = thiscpu ?s" "curenv u = curenv ?s"
      by (simp_all add: curenv_def)
    with 2 u(1) assms(2) show ?thesis by (simp add: exit_ok_def)
  qed
qed

text \<open>The switch of the address space in \<open>env_run\<close>.\<close>

definition switch_env :: "nat option \<Rightarrow> nat \<Rightarrow> unit kernel" where
  "switch_env c e =
     kbind (case c of
         None \<Rightarrow> kret ()
       | Some d \<Rightarrow> kmod (\<lambda>s. if env_status (envs s d) = ENV_RUNNING
                            then upd_env d (\<lambda>env. env\<lparr>env_status := ENV_RUNNABLE\<rparr>) s else s)) (\<lambda>_.
     kbind (kmod (set_curenv (Some e))) (\<lambda>_.
     kbind (kmod (upd_env e (\<lambda>env. env\<lparr>env_status := ENV_RUNNING, env_runs := env_runs env + 1\<rparr>))) (\<lambda>_.
     kbind (kget (\<lambda>s. env_pgdir (envs s e))) (\<lambda>pgdir.
     kbind (PADDR pgdir) lcr3))))"

lemma env_run_switch:
  "env_run e s = (if curenv s = Some e then env_pop_tf e s
     else kbind (switch_env (curenv s) e) (\<lambda>_. env_pop_tf e) s)"
  unfolding env_run_def switch_env_def kbind_prim(4) kbind_kwhen by simp

lemma exits_switch_env: "exits exit_ok (switch_env c e)"
  unfolding switch_env_def by (intro exits_intro)

lemma switch_env_Ret: "switch_env c e s = Ret () u \<Longrightarrow> curenv u = Some e"
  by (auto simp: switch_env_def kbind_eq_Ret kprim PADDR_def lcr3_def curenv_def hw_def
      set_curenv_def upd_env_def split: if_splits option.splits)

lemma exits_env_run [exits_intro]: "exits exit_ok (env_run e)"
proof (rule exitsI)
  fix s x t assume run: "env_run e s = Leave x t"
  show "exit_ok x t"
  proof (cases "curenv s = Some e")
    case True
    with run show ?thesis by (simp add: env_run_switch env_pop_tf_exit)
  next
    case False
    with run consider "switch_env (curenv s) e s = Leave x t"
      | u where "switch_env (curenv s) e s = Ret () u" "env_pop_tf e u = Leave x t"
      by (auto simp: env_run_switch kbind_eq_Leave)
    then show ?thesis
      by cases (blast dest: exitsD [OF exits_switch_env], blast dest: switch_env_Ret intro: env_pop_tf_exit)
  qed
qed

text \<open>The last steps of \<open>sched_halt\<close>, from the reset of \<open>curenv\<close> on.\<close>

definition halt_cpu :: "unit kernel" where
  "halt_cpu =
     kbind (kmod (set_curenv None)) (\<lambda>_.
     kbind (kget kern_pgdir) (\<lambda>kpd.
     kbind (PADDR kpd) (\<lambda>pa.
     kbind (lcr3 pa) (\<lambda>_.
     kbind (kmod (\<lambda>s. s\<lparr>cpus := (cpus s)(thiscpu s := cpus s (thiscpu s)\<lparr>cpu_status := CPU_HALTED\<rparr>)\<rparr>)) (\<lambda>_.
     kbind unlock_kernel (\<lambda>_.
     kleave Cpu_halt))))))"

lemma exits_halt_cpu [exits_intro]: "exits exit_ok halt_cpu"
proof (rule exitsI)
  fix s x t assume halt: "halt_cpu s = Leave x t"
  let ?a = "set_curenv None s" and ?pa = "kern_pgdir s - KERNBASE"
  let ?b = "hw (Lcr3 ?pa) (?a\<lparr>cr3 := (cr3 ?a)(thiscpu ?a := ?pa)\<rparr>)"
  let ?c = "?b\<lparr>cpus := (cpus ?b)(thiscpu ?b := cpus ?b (thiscpu ?b)\<lparr>cpu_status := CPU_HALTED\<rparr>)\<rparr>"
  from halt have "kbind unlock_kernel (\<lambda>_. kleave Cpu_halt :: unit kernel) ?c = Leave x t"
    by (simp add: halt_cpu_def kbind_def [of "PADDR p" for p] PADDR_def lcr3_def split: if_splits)
  then consider "unlock_kernel ?c = Leave x t"
    | u where "unlock_kernel ?c = Ret () u" "x = Cpu_halt" "t = u"
    by (auto simp: kbind_eq_Leave kleave_def)
  then show "exit_ok x t"
  proof cases
    case 1
    then show ?thesis by (rule exitsD [OF exits_unlock_kernel])
  next
    case 2
    from unlock_kernel_Ret [OF 2(1)] obtain l where u: "lock_free u" "u = ?c\<lparr>kernel_lock := l\<rparr>"
      by blast
    then have "curenv u = None" "cpu_status (cpus u (thiscpu u)) = CPU_HALTED"
        "cr3 u (thiscpu u) + KERNBASE = kern_pgdir u"
      by (simp_all add: curenv_def set_curenv_def hw_def)
    with 2 u(1) show ?thesis by (simp add: exit_ok_def)
  qed
qed

lemma exits_sched_halt [exits_intro]: "exits exit_ok sched_halt"
  unfolding sched_halt_def halt_cpu_def [symmetric] by (intro exits_intro)

lemma exits_sched_yield [exits_intro]: "exits exit_ok sched_yield"
  unfolding sched_yield_def by (intro exits_intro)

subsection \<open>System calls\<close>

lemma exits_env_setup [exits_intro]: "exits exit_ok (env_setup_vm e)" "exits exit_ok (envid2env i chk)"
  unfolding env_setup_vm_def envid2env_def by (intro exits_intro)+

lemma exits_env_alloc [exits_intro]: "exits exit_ok (env_alloc p)"
  unfolding env_alloc_def by (intro exits_intro)

lemma exits_free_pte [exits_intro]: "exits exit_ok (free_pte e d p i)"
  unfolding free_pte_def by (intro exits_intro)

lemma exits_free_pde [exits_intro]: "exits exit_ok (free_pde e i)"
  unfolding free_pde_def by (intro exits_intro)

lemma exits_env_free [exits_intro]: "exits exit_ok (env_free e)"
  unfolding env_free_def by (intro exits_intro)

lemma exits_env_destroy [exits_intro]: "exits exit_ok (env_destroy e)"
  unfolding env_destroy_def by (intro exits_intro)

lemma exits_user_mem_assert [exits_intro]: "exits exit_ok (user_mem_assert e va n perm)"
  unfolding user_mem_assert_def by (intro exits_intro)

lemma exits_print_user_string: "exits exit_ok (print_user_string n p prec)"
proof (induction n arbitrary: p prec)
  case (Suc n)
  show ?case unfolding print_user_string.simps by (intro exits_intro Suc.IH)
qed (simp add: exits_intro)

lemma exits_with_env [exits_intro]: "(\<And>e. exits exit_ok (f e)) \<Longrightarrow> exits exit_ok (with_env i chk f)"
  unfolding with_env_def by (intro exits_intro) auto

lemmas syscall_defs = sys_cputs_def cprintf_user_def sys_cgetc_def sys_getenvid_def sys_env_destroy_def
  sys_yield_def sys_exofork_def sys_page_alloc_def sys_page_map_def sys_page_unmap_def
  sys_env_set_status_def sys_env_set_pgfault_upcall_def sys_ipc_try_send_def ipc_send_page_def
  sys_ipc_recv_def sys_change_pr_def

lemma exits_syscall [exits_intro]: "exits exit_ok (syscall n a1 a2 a3 a4 a5)"
  unfolding syscall_def syscall_defs by (intro exits_intro exits_print_user_string)

subsection \<open>The monitor\<close>

lemma exits_print_frame [exits_intro]: "exits exit_ok (print_frame ebp)" "exits exit_ok (stack_word a)"
  unfolding print_frame_def stack_word_def by (intro exits_intro)+

lemma exits_backtrace_loop:
  assumes "\<And>a. exits exit_ok (info a)"
  shows "exits exit_ok (backtrace_loop n info ebp)"
proof (induction n arbitrary: ebp)
  case (Suc n)
  show ?case unfolding backtrace_loop.simps by (intro exits_intro assms Suc.IH)
qed (simp add: exits_intro)

lemma exits_arguments [exits_intro]: "exits exit_ok (xtoi p)" "exits exit_ok (arg_char p)"
  "exits exit_ok (pprint pte)"
  unfolding xtoi_def arg_char_def pprint_def by (intro exits_intro)+

lemma exits_showmappings_loop: "exits exit_ok (showmappings_loop n a b)"
proof (induction n arbitrary: a)
  case (Suc n)
  show ?case unfolding showmappings_loop.simps by (intro exits_intro Suc.IH)
qed (simp add: exits_intro)

lemma exits_print_debuginfo: "exits exit_ok (print_debuginfo a)"
  unfolding print_debuginfo_def by (intro exits_intro)

lemma exits_run_command [exits_intro]: "exits exit_ok (run_command cmd argv)"
  unfolding run_command_def mon_help_def mon_kerninfo_def mon_backtrace_def csa_backtrace_def
    showmappings_def setm_def showvm_def
  by (cases cmd; simp only: command.case;
    intro exits_intro exits_backtrace_loop exits_showmappings_loop exits_print_debuginfo)

lemma exits_runcmd [exits_intro]: "exits exit_ok runcmd"
  unfolding runcmd_def by (intro exits_intro)

lemma exits_monitor_loop: "exits exit_ok (monitor_loop n)"
proof (induction n)
  case (Suc n)
  show ?case unfolding monitor_loop.simps by (intro exits_intro Suc.IH)
qed (simp add: exits_intro)

lemma exits_monitor [exits_intro]: "exits exit_ok (monitor n tf)"
  unfolding monitor_def by (intro exits_intro exits_monitor_loop)

subsection \<open>Traps\<close>

lemma exits_print_tf [exits_intro]: "exits exit_ok (print_tf l)"
  unfolding print_tf_def by (intro exits_intro)

lemma exits_page_fault_handler [exits_intro]: "exits exit_ok (page_fault_handler l)"
  unfolding page_fault_handler_def by (intro exits_intro)

lemma exits_trap_dispatch [exits_intro]: "exits exit_ok (trap_dispatch n l)"
  unfolding trap_dispatch_def by (intro exits_intro)

lemma exits_trap_entry [exits_intro]: "exits exit_ok (trap_entry eflags)"
proof (rule exitsI)
  fix s x t assume entry: "trap_entry eflags s = Leave x t"
  show "exit_ok x t"
  proof (cases "panicstr s")
    case None
    let ?m = "kbind (kget (\<lambda>s. cpu_status (cpus s (thiscpu s)))) (\<lambda>old.
      kbind (kmod (\<lambda>s. s\<lparr>cpus := (cpus s)(thiscpu s := cpus s (thiscpu s)\<lparr>cpu_status := CPU_STARTED\<rparr>)\<rparr>)) (\<lambda>_.
      kbind (kwhen (old = CPU_HALTED) lock_kernel) (\<lambda>_.
      kassert (eflags AND FL_IF = 0) ''assertion failed: !(read_eflags() & FL_IF)'')))"
    from entry None have "?m s = Leave x t" by (simp add: trap_entry_def)
    moreover have "exits exit_ok ?m" by (intro exits_intro)
    ultimately show ?thesis by (blast dest: exitsD)
  next
    case (Some msg)
    with entry show ?thesis by (auto simp: trap_entry_def exit_ok_def)
  qed
qed

lemma exits_trap_from_user [exits_intro]: "exits exit_ok (trap_from_user t)"
  unfolding trap_from_user_def by (intro exits_intro)

lemma exits_trap: "exits exit_ok (trap n eflags a t)"
  unfolding trap_def by (intro exits_intro)

lemma noreturn_trap [noreturn_intro]: "noreturn (trap n eflags a t)"
  unfolding trap_def by (intro noreturn_intro)

end
