(* ===== verification/Trap_Spec.thy ===== *)
theory Trap_Spec
  imports Exit_Spec Vmem_Spec
begin

text \<open>
  What a trap does from end to end: how the kernel is left after any trap, how a system call
  returns its result to the environment that made it, where the frame of a user page fault is
  put, and which gates the user may call.
\<close>

subsection \<open>From the trap gate to the handler\<close>

text \<open>The state in which \<open>trap\<close> dispatches a trap of the environment \<open>c\<close>.\<close>

definition lock_taken :: "kstate \<Rightarrow> spinlock" where
  "lock_taken s = (kernel_lock s)\<lparr>locked := 1, lk_cpu := Some (thiscpu s), lk_pcs := caller_pcs s (thiscpu s)\<rparr>"

definition entered :: "nat \<Rightarrow> Trapframe \<Rightarrow> kstate \<Rightarrow> kstate" where
  "entered c t s =
     (upd_env c (\<lambda>env. env\<lparr>env_tf := t\<rparr>)
       (s\<lparr>cpus := (cpus s)(thiscpu s := cpus s (thiscpu s)\<lparr>cpu_status := CPU_STARTED\<rparr>),
          kernel_lock := lock_taken s\<rparr>))
       \<lparr>last_tf := envs_kva s + sizeof_Env * of_nat c\<rparr>"

text \<open>A trap from user mode is taken by a CPU that runs the environment \<open>c\<close>, with interrupts
  disabled by the gate; the lock is free and nobody has panicked.\<close>

definition user_trap :: "kstate \<Rightarrow> nat \<Rightarrow> u32 \<Rightarrow> Trapframe \<Rightarrow> bool" where
  "user_trap s c eflags t \<longleftrightarrow> curenv s = Some c \<and> env_status (envs s c) = ENV_RUNNING \<and>
     cpu_status (cpus s (thiscpu s)) = CPU_STARTED \<and> lock_free s \<and> panicstr s = None \<and>
     eflags AND FL_IF = 0 \<and> tf_cs t AND 3 = 3"

lemma entered_simps [simp]:
  "curenv (entered c t s) = curenv s"
  "envs (entered c t s) j = (if j = c then (envs s c)\<lparr>env_tf := t\<rparr> else envs s j)"
  "thiscpu (entered c t s) = thiscpu s" "kernel_lock (entered c t s) = lock_taken s"
  "kern_pgdir (entered c t s) = kern_pgdir s" "pmem (entered c t s) = pmem s"
  "npages (entered c t s) = npages s" "pages (entered c t s) = pages s"
  "page_free_list (entered c t s) = page_free_list s" "cr3 (entered c t s) = cr3 s"
  "cr2 (entered c t s) = cr2 s" "cr0 (entered c t s) = cr0 s" "hwlog (entered c t s) = hwlog s"
  by (simp_all add: entered_def curenv_def upd_env_def)

lemma trap_enter:
  assumes "user_trap s c eflags t"
  shows "trap n eflags a t s =
    kbind (trap_dispatch n (Env_frame c)) (\<lambda>_.
    kbind (kget (\<lambda>s. case curenv s of Some c \<Rightarrow> if env_status (envs s c) = ENV_RUNNING then Some c else None
                     | None \<Rightarrow> None)) (\<lambda>run.
    case run of Some c \<Rightarrow> env_run c | None \<Rightarrow> sched_yield)) (entered c t s)"
proof -
  let ?s = "s\<lparr>cpus := (cpus s)(thiscpu s := cpus s (thiscpu s)\<lparr>cpu_status := CPU_STARTED\<rparr>)\<rparr>"
  let ?l = "?s\<lparr>kernel_lock := lock_taken s\<rparr>"
  have entry: "trap_entry eflags s = Ret () ?s"
    using assms by (simp add: trap_entry_def user_trap_def kassert_def kret_def)
  have lock: "lock_kernel ?s = Ret () ?l"
    using assms by (simp add: lock_kernel_def spin_lock_def holding_def user_trap_def lock_free_def lock_taken_def)
  have cur: "curenv ?l = Some c" "env_status (envs ?l c) = ENV_RUNNING"
    using assms by (simp_all add: user_trap_def curenv_def)
  have user: "trap_from_user t ?s = Ret c (upd_env c (\<lambda>env. env\<lparr>env_tf := t\<rparr>) ?l)"
    using cur lock by (simp add: trap_from_user_def kbind_Ret the_curenv_def kret_def)
  show ?thesis
    using assms entry user
    by (simp add: trap_def kbind_Ret user_trap_def tf_addr_def entered_def upd_env_def)
qed

lemma trap_dispatch_syscall:
  assumes "tf_at l s = t" "tf_trapno t = T_SYSCALL"
    and "syscall (reg_eax (tf_regs t)) (reg_edx (tf_regs t)) (reg_ecx (tf_regs t))
      (reg_ebx (tf_regs t)) (reg_edi (tf_regs t)) (reg_esi (tf_regs t)) s = Ret v s'"
  shows "trap_dispatch n l s = Ret () (set_tf_eax l v s')"
  using assms by (simp add: trap_dispatch_def Let_def kbind_Ret kmod_def)

text \<open>The last steps of a return to the current environment.\<close>

lemma env_run_current:
  assumes "curenv s = Some c" "holding (thiscpu s) (kernel_lock s)"
  shows "env_run c s = Leave (To_user c) ((upd_env c (\<lambda>env. env\<lparr>env_cpunum := of_nat (thiscpu s)\<rparr>) s)
    \<lparr>kernel_lock := (kernel_lock s)\<lparr>locked := 0, lk_cpu := None, lk_pcs := (lk_pcs (kernel_lock s))[0 := 0]\<rparr>\<rparr>)"
  using assms
  by (simp add: env_run_switch env_pop_tf_def the_curenv_def kbind_Ret unlock_kernel_def spin_unlock_def kleave_def)

lemma trap_syscall_ret:
  assumes "user_trap s c eflags t" "tf_trapno t = T_SYSCALL"
    and "syscall (reg_eax (tf_regs t)) (reg_edx (tf_regs t)) (reg_ecx (tf_regs t))
      (reg_ebx (tf_regs t)) (reg_edi (tf_regs t)) (reg_esi (tf_regs t)) (entered c t s) = Ret v s'"
    and "curenv s' = Some c" "env_status (envs s' c) = ENV_RUNNING" "holding (thiscpu s') (kernel_lock s')"
  shows "\<exists>u. trap n eflags a t s = Leave (To_user c) u \<and>
    env_tf (envs u c) = (env_tf (envs s' c))\<lparr>tf_regs := (tf_regs (env_tf (envs s' c)))\<lparr>reg_eax := v\<rparr>\<rparr> \<and>
    (\<forall>j. j \<noteq> c \<longrightarrow> envs u j = envs s' j) \<and> pmem u = pmem s' \<and> locked (kernel_lock u) = 0"
proof -
  let ?s = "set_tf_eax (Env_frame c) v s'"
  have "trap_dispatch n (Env_frame c) (entered c t s) = Ret () ?s"
    by (rule trap_dispatch_syscall [OF _ assms(2,3)]) (simp add: tf_at_def)
  moreover have "curenv ?s = Some c" "env_status (envs ?s c) = ENV_RUNNING" "holding (thiscpu ?s) (kernel_lock ?s)"
    using assms(4-6) by (simp_all add: set_tf_eax_def)
  ultimately show ?thesis
    unfolding trap_enter [OF assms(1)]
    by (simp add: kbind_Ret env_run_current) (simp add: set_tf_eax_def)
qed

subsection \<open>A machine in user mode\<close>

text \<open>Environment 0 of the sample machine in user mode, and a frame of \<open>sys_getenvid\<close>.\<close>

definition user_machine :: kstate where
  "user_machine = (upd_env 0 (\<lambda>e. e\<lparr>env_status := ENV_RUNNING\<rparr>) (set_curenv (Some 0) small_machine))
     \<lparr>kernel_lock := \<lparr>locked = 0, lk_name = ''kernel_lock'', lk_cpu = None, lk_pcs = replicate 10 0\<rparr>\<rparr>"

definition getenvid_frame :: Trapframe where
  "getenvid_frame = zero_tf\<lparr>tf_trapno := T_SYSCALL, tf_cs := 0x1b,
     tf_regs := zero_regs\<lparr>reg_eax := SYS_getenvid, reg_ebx := 77\<rparr>\<rparr>"

lemma user_machine_trap: "tf_cs t AND 3 = 3 \<Longrightarrow> user_trap user_machine 0 0 t"
  by (simp add: user_trap_def user_machine_def lock_free_def small_machine_def curenv_def set_curenv_def upd_env_def)

lemma getenvid_entered:
  "syscall SYS_getenvid 0 0 77 0 0 (entered 0 getenvid_frame user_machine) =
    Ret 0x1000 (entered 0 getenvid_frame user_machine)"
proof -
  have "curenv user_machine = Some 0" "env_id (envs user_machine 0) = 0x1000"
    by (simp_all add: user_machine_def small_machine_def curenv_def set_curenv_def upd_env_def)
  then show ?thesis by (simp add: syscall_def sys_getenvid_def the_curenv_def kbind_Ret kget_def)
qed

lemma getenvid_frame_facts:
  "tf_trapno getenvid_frame = T_SYSCALL" "tf_cs getenvid_frame AND 3 = 3"
  "tf_regs getenvid_frame = zero_regs\<lparr>reg_eax := SYS_getenvid, reg_ebx := 77\<rparr>"
  by (simp_all add: getenvid_frame_def zero_tf_def)

lemma getenvid_returns:
  defines "s \<equiv> entered 0 getenvid_frame user_machine"
  shows "syscall (reg_eax (tf_regs getenvid_frame)) (reg_edx (tf_regs getenvid_frame))
      (reg_ecx (tf_regs getenvid_frame)) (reg_ebx (tf_regs getenvid_frame))
      (reg_edi (tf_regs getenvid_frame)) (reg_esi (tf_regs getenvid_frame)) s = Ret 0x1000 s"
    and "curenv s = Some 0" and "env_status (envs s 0) = ENV_RUNNING"
    and "holding (thiscpu s) (kernel_lock s)"
  using getenvid_entered user_machine_trap [OF getenvid_frame_facts(2)]
  unfolding s_def
  by (simp_all add: getenvid_frame_facts zero_regs_def user_trap_def holding_def lock_taken_def)

lemma trap_getenvid:
  "\<exists>u. trap n 0 a getenvid_frame user_machine = Leave (To_user 0) u"
  using trap_syscall_ret [OF user_machine_trap [OF getenvid_frame_facts(2)] getenvid_frame_facts(1)
      getenvid_returns] by blast



text \<open>C8. A trap never returns to the code that saved the frame, whatever the frame, the flags and
  the state.  It ends in user mode, in the environment that is the current one of the CPU and
  with the big kernel lock released; or with the CPU halted, again without the lock, with no
  current environment and on the kernel's own page directory; or, when the kernel has panicked
  before, halted at once; or in a loop inside the kernel.\<close>

theorem trap_exits:
  "case trap n eflags a t s of
     Ret x u \<Rightarrow> False
   | Panic msg u \<Rightarrow> True
   | Leave (To_user e) u \<Rightarrow> cpu_env (cpus u (thiscpu u)) = Some e \<and>
       env_cpunum (envs u e) = of_nat (thiscpu u) \<and>
       locked (kernel_lock u) = 0 \<and> lk_cpu (kernel_lock u) = None
   | Leave Cpu_halt u \<Rightarrow> panicstr u \<noteq> None \<or>
       (cpu_env (cpus u (thiscpu u)) = None \<and> cpu_status (cpus u (thiscpu u)) = CPU_HALTED \<and>
        cr3 u (thiscpu u) + KERNBASE = kern_pgdir u \<and>
        locked (kernel_lock u) = 0 \<and> lk_cpu (kernel_lock u) = None)
   | Leave Monitor_loop u \<Rightarrow> True
   | Leave Spin u \<Rightarrow> True"
proof (cases "trap n eflags a t s")
  case (Leave x u)
  with exitsD [OF exits_trap Leave] show ?thesis
    by (cases x) (auto simp: exit_ok_def curenv_def lock_free_def)
qed (use noreturnD [OF noreturn_trap, of n eflags a t s] in auto)


lemma trap_exits_witness:
  "\<exists>u. trap 1 0 0 getenvid_frame user_machine = Leave (To_user 0) u \<and>
    cpu_env (cpus u (thiscpu u)) = Some 0 \<and> locked (kernel_lock u) = 0"
  using trap_exits [of 1 0 0 getenvid_frame user_machine] trap_getenvid [of 1 0] by auto

subsection \<open>The gates\<close>

definition gate_vector :: "nat \<Rightarrow> bool" where
  "gate_vector v \<longleftrightarrow> v < 17 \<and> v \<noteq> 2 \<and> v \<noteq> 15 \<or> 32 \<le> v \<and> v \<le> 48"

definition user_vector :: "nat \<Rightarrow> bool" where
  "user_vector v \<longleftrightarrow> v = 3 \<or> v = 48"

lemma idt_set_gate [simp]: "idt (set_gate i g s) v = (if v = i then g else idt s v)"
  by (simp add: set_gate_def)

lemma idt_exception_gate:
  "idt (exception_gate funs i s) v =
    (if v = i \<and> i \<noteq> 2 \<and> i \<noteq> 15 then SETGATE False GD_KT (funs i) (if i = 3 then 3 else 0) else idt s v)"
  by (cases "i = 3"; cases "i = 2"; cases "i = 15"; simp add: exception_gate_def)

lemma idt_exceptions:
  "idt (fold (exception_gate funs) [0..<n] s) v =
    (if v < n \<and> v \<noteq> 2 \<and> v \<noteq> 15 then SETGATE False GD_KT (funs v) (if v = 3 then 3 else 0) else idt s v)"
proof (induction n)
  case (Suc n)
  have "fold (exception_gate funs) [0..<Suc n] s = exception_gate funs n (fold (exception_gate funs) [0..<n] s)"
    by simp
  moreover have "idt (fold (exception_gate funs) [0..<n] s) n = idt s n" if "v = n"
    using Suc.IH that by simp
  ultimately show ?case
    by (cases "v = n") (simp_all only: idt_exception_gate Suc.IH, auto)
qed simp

lemma idt_interrupts:
  "idt (fold (\<lambda>i. set_gate (k + i) (SETGATE False GD_KT (funs (k + i)) 0)) [0..<n] s) v =
    (if k \<le> v \<and> v < k + n then SETGATE False GD_KT (funs v) 0 else idt s v)"
proof (induction n)
  case (Suc n)
  show ?case using Suc.IH by (cases "v = k + n") auto
qed auto

lemma trap_init_percpu_Ret: "\<exists>u. trap_init_percpu s = Ret () u \<and> idt u = idt s"
  by (simp add: trap_init_percpu_def kmod_def hw_def)

text \<open>\<open>trap_init\<close> installs an interrupt gate to the kernel's entry point for every exception but
  the two reserved ones, for the sixteen hardware interrupts and for the system call, and
  changes no other gate.  A program may raise only the breakpoint and the system call itself.\<close>

theorem trap_init_gates:
  "\<exists>u. trap_init funs s = Ret () u \<and>
    (\<forall>v. if gate_vector v
         then idt u v = SETGATE False GD_KT (funs v) (if user_vector v then 3 else 0) \<and>
           gate_offset (idt u v) = funs v
         else idt u v = idt s v)"
proof -
  let ?t = "fold (\<lambda>i. set_gate (32 + i) (SETGATE False GD_KT (funs (32 + i)) 0)) [0..<16]
    (set_gate 48 (SETGATE False GD_KT (funs 48) 3) (fold (exception_gate funs) [0..<17] s))"
  obtain u where u: "trap_init_percpu ?t = Ret () u" "idt u = idt ?t"
    using trap_init_percpu_Ret by blast
  then have "trap_init funs s = Ret () u"
    by (simp add: trap_init_def del: upt.simps upt_rec_numeral)
  moreover have "idt u v = (if gate_vector v
      then SETGATE False GD_KT (funs v) (if user_vector v then 3 else 0) else idt s v)" for v
  proof -
    consider "v < 17" | "17 \<le> v" "v < 32" | "32 \<le> v" "v < 48" | "v = 48" | "48 < v" by linarith
    then show ?thesis
      unfolding u(2) idt_interrupts idt_set_gate idt_exceptions gate_vector_def user_vector_def
      by cases simp_all
  qed
  ultimately show ?thesis by (simp add: gate_offset_SETGATE)
qed


subsection \<open>User page faults\<close>

lemma vstore_words_page:
  assumes "page_at s True va f" "unat k + 4 * length ws \<le> 4096"
  shows "vstore_words (va + k) ws s = Ret () (s\<lparr>pmem := store_words (pmem s) (page2pa f + k) ws\<rparr>)"
  using assms
proof (induction ws arbitrary: s k)
  case (Cons w ws)
  let ?s = "s\<lparr>pmem := store32 (pmem s) (page2pa f + k) w\<rparr>"
  have k: "unat k + 4 \<le> 4096" using Cons.prems(2) by simp
  have "unat (k + 4) + 4 * length ws \<le> 4096"
    using Cons.prems(2) k by (subst unat_add_no_wrap) simp_all
  then have "vstore_words (va + (k + 4)) ws ?s =
      Ret () (?s\<lparr>pmem := store_words (pmem ?s) (page2pa f + (k + 4)) ws\<rparr>)"
    by (intro Cons.IH vstore32_page(2) [OF Cons.prems(1) k])
  then show ?case
    using vstore32_page(1) [OF Cons.prems(1) k, of w] by (simp add: kbind_Ret add.assoc)
qed (simp add: kret_def)

text \<open>The environment \<open>c\<close> has an exception stack in the frame \<open>f\<close>, in the address space that is
  in force.\<close>

definition exception_stack :: "kstate \<Rightarrow> nat \<Rightarrow> nat \<Rightarrow> bool" where
  "exception_stack s c f \<longleftrightarrow>
     tables_in_memory s (env_pgdir (envs s c)) \<and>
     cr3 s (thiscpu s) = env_pgdir (envs s c) - KERNBASE \<and>
     page_at s True (UXSTACKTOP - PGSIZE) f \<and>
     user_page_ok s (env_pgdir (envs s c)) (PTE_W OR PTE_U) (UXSTACKTOP - PGSIZE)"

lemma length_utf_words [simp]: "length (utf_words u) = 13"
  by (simp add: utf_words_def Let_def)

lemma sint_0_u32: "\<not> sint (0 :: u32) < 0"
  by simp

lemma utf_place_fits:
  assumes "UXSTACKTOP - PGSIZE \<le> utf_place esp"
  shows "unat (utf_place esp - (UXSTACKTOP - PGSIZE)) + 52 \<le> 4096"
proof (cases "UXSTACKTOP - PGSIZE \<le> esp \<and> esp \<le> UXSTACKTOP - 1")
  case True
  then have "unat (esp - 56) = unat esp - 56"
    by (simp add: unat_sub word_le_nat_alt layout)
  with True assms show ?thesis
    by (simp add: utf_place_def unat_sub word_le_nat_alt layout) linarith
next
  case False
  then show ?thesis unfolding utf_place_def if_not_P [OF False] by (simp add: layout)
qed

text \<open>C15. A user fault of an environment with a handler enters the handler on the exception stack:
  the thirteen words of the frame lie at the place \<open>utf_place\<close> gives, below an interrupted
  handler's own frame with one word left free, and the lock is released.\<close>

theorem page_fault_upcall:
  assumes "curenv s = Some c" "tf_cs (env_tf (envs s c)) AND 3 \<noteq> 0" "env_pgfault_upcall (envs s c) \<noteq> 0"
    and "exception_stack s c f" "UXSTACKTOP - PGSIZE \<le> utf_place (tf_esp (env_tf (envs s c)))"
    and "holding (thiscpu s) (kernel_lock s)"
  shows "\<exists>u. page_fault_handler (Env_frame c) s = Leave (To_user c) u \<and>
    env_tf (envs u c) = (env_tf (envs s c))\<lparr>tf_eip := env_pgfault_upcall (envs s c),
      tf_esp := utf_place (tf_esp (env_tf (envs s c)))\<rparr> \<and>
    (\<forall>i < 13. load32 (pmem u) (page2pa f + (utf_place (tf_esp (env_tf (envs s c))) - (UXSTACKTOP - PGSIZE)) + 4 * of_nat i) =
       utf_words (utf_of (cr2 s) (env_tf (envs s c))) ! i) \<and>
    (\<forall>j. j \<noteq> c \<longrightarrow> envs u j = envs s j) \<and> locked (kernel_lock u) = 0"
proof -
  let ?tf = "env_tf (envs s c)" and ?b = "UXSTACKTOP - PGSIZE"
  let ?p = "utf_place (tf_esp ?tf)" and ?ws = "utf_words (utf_of (cr2 s) ?tf)"
  define k where "k = ?p - ?b"
  have p: "?p = ?b + k" by (simp add: k_def)
  have k: "unat k + 52 \<le> 4096"
    using utf_place_fits [OF assms(5)] by (simp add: k_def)
  let ?s1 = "s\<lparr>pmem := store_words (pmem s) (page2pa f + k) ?ws\<rparr>"
  let ?s2 = "upd_env c (\<lambda>env. env\<lparr>env_tf := (env_tf env)\<lparr>tf_eip := env_pgfault_upcall env, tf_esp := ?p\<rparr>\<rparr>) ?s1"
  have page: "page_at s True ?b f" using assms(4) by (simp add: exception_stack_def)
  have "user_mem_check c (?b + k) (of_nat 52) (PTE_W OR PTE_U) s = Ret 0 s"
    using assms(4) k page by (intro user_mem_check_page) (simp_all add: exception_stack_def page_at_def layout)
  then have check: "user_mem_assert c ?p sizeof_UTrapframe PTE_W s = Ret () s"
    unfolding p by (simp add: user_mem_assert_def kbind_Ret kwhen_def kret_def)
  have words: "vstore_words ?p ?ws s = Ret () ?s1"
    unfolding p using k by (intro vstore_words_page [OF page]) simp
  have cur: "curenv ?s1 = Some c" "curenv ?s2 = Some c"
    using assms(1) by (simp_all add: curenv_def)
  have "page_fault_handler (Env_frame c) s = env_run c ?s2"
    using assms(1-3) check words cur
    by (simp add: page_fault_handler_def kbind_Ret the_curenv_def tf_at_def Let_def
        noreturn_kbind [OF noreturn_env_run])
  moreover have "holding (thiscpu ?s2) (kernel_lock ?s2)" using assms(6) by simp
  moreover have "load32 (pmem ?s2) (page2pa f + k + 4 * of_nat i) = ?ws ! i" if "i < 13" for i
    using that by (simp add: load32_store_words)
  ultimately show ?thesis
    unfolding k_def [symmetric] by (simp add: env_run_current [OF cur(2)])
qed

text \<open>The sample machine with the exception stack of environment 0 on page 7, its fault handler
  at \<open>0x800020\<close>, and a fault on its normal stack.\<close>

definition fault_machine :: kstate where
  "fault_machine = (upd_env 0 (\<lambda>e. e\<lparr>env_status := ENV_RUNNING, env_pgfault_upcall := 0x800020,
      env_tf := zero_tf\<lparr>tf_trapno := T_PGFLT, tf_cs := 0x1b, tf_eip := 0x800100, tf_esp := 0xEEBFDF00\<rparr>\<rparr>)
      (set_curenv (Some 0) small_machine))
    \<lparr>pmem := store32 (store32 (\<lambda>_. 0) (0x5000 + 4 * 954) 0x6007) (0x6000 + 4 * 1023) 0x7007,
     cr2 := 0xDEADBEEF\<rparr>"

lemma fault_machine_tables:
  "pde_of fault_machine sample_pgdir va = (if PDX va = 954 then 0x6007 else 0)"
  "pte_of fault_machine sample_pgdir va = (if PDX va = 954 \<and> PTX va = 1023 then 0x7007 else 0)"
proof -
  have a: "aligned 4096 0x5000" "aligned 4096 0x6000" by (simp_all add: aligned_def)
  show d: "pde_of fault_machine sample_pgdir va = (if PDX va = 954 then 0x6007 else 0)"
    using a load_store_slot [of "0x5000" 954 "0x5000" "PDX va"]
      load_store_slot [of "0x6000" 1023 "0x5000" "PDX va"]
    by (simp add: pde_of_def fault_machine_def layout PDX_less)
  show "pte_of fault_machine sample_pgdir va = (if PDX va = 954 \<and> PTX va = 1023 then 0x7007 else 0)"
    using a load_store_slot [of "0x5000" 954 "0x6000" "PTX va"]
      load_store_slot [of "0x6000" 1023 "0x6000" "PTX va"]
    by (simp add: pte_of_def d, simp add: fault_machine_def layout PTX_less)
qed

lemma fault_machine_stack: "exception_stack fault_machine 0 7"
proof -
  have f: "env_pgdir (envs fault_machine 0) = sample_pgdir" "cr3 fault_machine (thiscpu fault_machine) = 0x5000"
      "npages fault_machine = 64" "cr0 fault_machine = 0x80000011"
    by (simp_all add: fault_machine_def small_machine_def set_curenv_def upd_env_def)
  have a: "aligned 4096 (sample_pgdir - KERNBASE)" by (simp add: aligned_def layout)
  have c: "cr3 fault_machine (thiscpu fault_machine) = sample_pgdir - KERNBASE"
    by (simp add: f layout)
  have pd: "hw_pgdir fault_machine = 0x5000"
    by (simp add: hw_pgdir_def f PTE_ADDR_def)
  have b: "PDX (UXSTACKTOP - PGSIZE) = 954" "PTX (UXSTACKTOP - PGSIZE) = 1023"
    by (simp_all add: PDX_def PTX_def layout)
  have hw: "hw_pde fault_machine (UXSTACKTOP - PGSIZE) = 0x6007" "hw_pte fault_machine (UXSTACKTOP - PGSIZE) = 0x7007"
    using hw_is_pgdir [OF c a, of "UXSTACKTOP - PGSIZE"] b
    by (simp_all add: fault_machine_tables layout)
  have "mem_ok fault_machine" by (simp add: mem_ok_def f)
  then have "tables_in_memory fault_machine sample_pgdir"
    using a by (auto simp: tables_in_memory_def f fault_machine_tables frame_def layout)
  moreover have "page_at fault_machine True (UXSTACKTOP - PGSIZE) 7"
    by (simp add: page_at_def hw pd access_ok_def f page2pa_def frame_def)
      (simp add: aligned_def layout)
  moreover have "user_page_ok fault_machine sample_pgdir (PTE_W OR PTE_U) (UXSTACKTOP - PGSIZE)"
    using b by (simp add: user_page_ok_def fault_machine_tables layout)
  ultimately show ?thesis using c f by (simp add: exception_stack_def)
qed

lemma page_fault_upcall_witness:
  "\<exists>u. page_fault_handler (Env_frame 0) fault_machine = Leave (To_user 0) u \<and>
    tf_eip (env_tf (envs u 0)) = 0x800020 \<and> tf_esp (env_tf (envs u 0)) = 0xEEBFFFCC \<and>
    load32 (pmem u) 0x7FCC = 0xDEADBEEF"
proof -
  have f: "curenv fault_machine = Some 0" "tf_cs (env_tf (envs fault_machine 0)) AND 3 \<noteq> 0"
      "env_pgfault_upcall (envs fault_machine 0) = 0x800020" "tf_esp (env_tf (envs fault_machine 0)) = 0xEEBFDF00"
      "holding (thiscpu fault_machine) (kernel_lock fault_machine)" "cr2 fault_machine = 0xDEADBEEF"
    by (simp_all add: fault_machine_def small_machine_def curenv_def set_curenv_def upd_env_def holding_def)
  have p: "utf_place 0xEEBFDF00 = 0xEEBFFFCC" by (simp add: utf_place_def layout)
  have "UXSTACKTOP - PGSIZE \<le> utf_place (tf_esp (env_tf (envs fault_machine 0)))"
    unfolding f p by (simp add: layout)
  moreover have "env_pgfault_upcall (envs fault_machine 0) \<noteq> 0" by (simp add: f)
  ultimately obtain u where u: "page_fault_handler (Env_frame 0) fault_machine = Leave (To_user 0) u"
      "env_tf (envs u 0) = (env_tf (envs fault_machine 0))\<lparr>tf_eip := 0x800020, tf_esp := 0xEEBFFFCC\<rparr>"
      "\<forall>i < 13. load32 (pmem u) (page2pa 7 + (0xEEBFFFCC - (UXSTACKTOP - PGSIZE)) + 4 * of_nat i) =
         utf_words (utf_of 0xDEADBEEF (env_tf (envs fault_machine 0))) ! i"
    using page_fault_upcall [OF f(1,2) _ fault_machine_stack _ f(5)] unfolding f p by blast
  from u(3) [rule_format, of 0] have "load32 (pmem u) 0x7FCC = 0xDEADBEEF"
    by (simp add: page2pa_def layout utf_words_def utf_of_def Let_def)
  with u(1,2) show ?thesis by simp
qed


end
