(* ===== verification/Pgfault_Spec.thy ===== *)
theory Pgfault_Spec
  imports Fork_Sample
begin

text \<open>
  User code that writes memory: a store into a data page keeps all address spaces, \<open>memcpy\<close>
  copies a page, and the page-fault handler of lib/fork.c gives the faulting environment its own
  copy of the page.
\<close>

subsection \<open>Stores into data pages\<close>

lemma ready_data_write:
  assumes rd: "ready s c xs role" and f: "role f = Data" and t: "t = s\<lparr>pmem := m\<rparr>" and same: "same_except s t {f}"
  shows "ready t c xs role" "same_run s t"
    "\<And>d va. d \<in> spaces s \<Longrightarrow> pde_of t d va = pde_of s d va"
    "\<And>d va. d \<in> spaces s \<Longrightarrow> va < UTOP \<Longrightarrow> pte_of t d va = pte_of s d va"
    "\<And>d. d \<in> spaces s \<Longrightarrow> self_map s d \<Longrightarrow> self_map t d"
proof -
  have inv: "mem_inv s (spaces s) xs role" and clean: "kernel_clean s" and run: "running s c"
    using rd by (auto simp: ready_def)
  note i = mem_invD [OF inv]
  have v: "pde_of t d va = pde_of s d va" "PDX va \<noteq> PDX UVPT \<Longrightarrow> pte_of t d va = pte_of s d va"
    if "d \<in> spaces s" for d va
    using vspace_same [OF i(4) [OF that] same] f by (auto simp: table_role_def)
  show pde: "\<And>d va. d \<in> spaces s \<Longrightarrow> pde_of t d va = pde_of s d va" by (rule v)
  show pte: "\<And>d va. d \<in> spaces s \<Longrightarrow> va < UTOP \<Longrightarrow> pte_of t d va = pte_of s d va" using v(2) below_UTOP by blast
  show sm: "self_map t d" if "d \<in> spaces s" "self_map s d" for d
    using that pde by (simp add: self_map_def has_table_def)
  show run': "same_run s t" using t pde by (simp add: same_run_def same_kernel_def curenv_def)
  note sr = same_run_facts [OF run']
  have "frames_ok t d role" if "d \<in> spaces s" for d
    by (rule frames_okI [OF i(4) [OF that]]) (use t pde pte that in auto)
  moreover have "mapped t (spaces s) g = mapped s (spaces s) g" for g by (rule mapped_cong) (rule pte)
  ultimately have "mem_inv t (spaces s) xs role"
    using inv t by (simp add: mem_inv_def mem_ok_def free_list_def)
  moreover have "env_pgdir (envs s c) \<in> spaces s" using run by (simp add: running_def live_space)
  then have "running t c"
    using run sm sr(1,2,5) t by (simp add: running_def)
  ultimately show "ready t c xs role" using clean sr(3,4) by (simp add: ready_def)
qed

subsection \<open>Copying a page\<close>

lemma running_in_space: "running s c \<Longrightarrow> in_space (env_pgdir (envs s c)) s = s"
proof -
  assume "running s c"
  then have "(cr3 s)(thiscpu s := env_pgdir (envs s c) - KERNBASE) = cr3 s" by (simp add: running_def fun_upd_idem)
  then show ?thesis by (simp add: in_space_def)
qed

text \<open>A page of the running environment that user code may read, or also write.\<close>

definition open_page :: "kstate \<Rightarrow> u32 \<Rightarrow> bool \<Rightarrow> u32 \<Rightarrow> bool" where
  "open_page s d wr va \<longleftrightarrow> aligned 4096 va \<and> va < UTOP \<and> shared s d va \<and> (wr \<longrightarrow> pte_of s d va AND PTE_W \<noteq> 0)"

lemma open_page_access:
  assumes rd: "ready s c xs role" and p: "open_page s (env_pgdir (envs s c)) wr va" and k: "unat k < 4096"
  shows "translate s True wr (va + k) = Some (PTE_ADDR (pte_of s (env_pgdir (envs s c)) va) + k)"
proof -
  let ?d = "env_pgdir (envs s c)"
  have run: "running s c" "live s c" "self_map s ?d" using rd by (auto simp: ready_def running_def)
  have al: "aligned 4096 (?d - KERNBASE)" by (rule ready_space(3) [OF rd run(2)])
  have va: "aligned 4096 va" "va < UTOP" "shared s ?d va" "wr \<longrightarrow> pte_of s ?d va AND PTE_W \<noteq> 0"
    using p by (auto simp: open_page_def)
  have tab: "has_table s ?d va"
    using va(3) pte_of_no_table [OF below_UTOP [OF va(2)]] by (fastforce simp: shared_def)
  then have pde: "pde_of s ?d va AND PTE_P \<noteq> 0" "pde_of s ?d va AND PTE_U \<noteq> 0" "pde_of s ?d va AND PTE_W \<noteq> 0"
    using run(3) va(2) by (auto simp: has_table_def self_map_def user_table_def)
  note hw = in_space_hw [OF al, of s va, unfolded running_in_space [OF run(1)]]
  have pte: "hw_pte s va = pte_of s ?d va" by (rule hw(2) [OF pde(1)])
  have "access_ok s True wr (hw_pde s va)" "access_ok s True wr (hw_pte s va)"
    using pde va(3,4) unfolding hw(1) pte by (auto simp: access_ok_def shared_def)
  from translate_page [OF va(1) k this] show ?thesis unfolding pte .
qed

text \<open>The state after some bytes of the page \<open>f\<close> have been copied to the page \<open>q\<close>.\<close>

definition copying :: "kstate \<Rightarrow> nat \<Rightarrow> u32 \<Rightarrow> u32 \<Rightarrow> u32 set \<Rightarrow> kstate \<Rightarrow> bool" where
  "copying s q dst src K t \<longleftrightarrow> t = s\<lparr>pmem := pmem t\<rparr> \<and> same_except s t {q} \<and>
     (\<forall>k \<in> K. pmem t (dst + k) = pmem s (src + k))"

lemma copying_step:
  assumes rd: "ready s c xs role" and q: "role q = Data" and cp: "copying s q dst src K t"
    and d: "open_page s (env_pgdir (envs s c)) True dva" "dst = PTE_ADDR (pte_of s (env_pgdir (envs s c)) dva)" "frame dst = q"
    and p: "open_page s (env_pgdir (envs s c)) False sva" "src = PTE_ADDR (pte_of s (env_pgdir (envs s c)) sva)" "frame src \<noteq> q"
    and k: "unat k < 4096"
  shows "\<exists>u. kbind (uload8 (sva + k)) (\<lambda>b. ustore8 (dva + k) b) t = Ret () u \<and> copying s q dst src (insert k K) u"
proof -
  let ?d = "env_pgdir (envs s c)"
  have t: "t = s\<lparr>pmem := pmem t\<rparr>" "same_except s t {q}" and copied: "\<forall>k \<in> K. pmem t (dst + k) = pmem s (src + k)"
    using cp by (auto simp: copying_def)
  note w = ready_data_write [OF rd q t]
  have d': "?d \<in> spaces s" using rd by (simp add: ready_def running_def live_space)
  have e: "env_pgdir (envs t c) = ?d" using same_run_facts(1) [OF w(2)] by simp
  have pte: "pte_of t ?d va = pte_of s ?d va" if "va < UTOP" for va using w(4) [OF d' that] .
  have o: "open_page t ?d True dva" "open_page t ?d False sva"
    using d(1) p(1) pte by (auto simp: open_page_def shared_def)
  have tr: "translate t True True (dva + k) = Some (dst + k)" "translate t True False (sva + k) = Some (src + k)"
    using open_page_access [OF w(1), unfolded e, OF o(1) k] open_page_access [OF w(1), unfolded e, OF o(2) k] pte d p
    by (simp_all add: open_page_def)
  have al: "aligned 4096 dst" "aligned 4096 src" unfolding d(2) p(2) by simp_all
  have fr: "frame (dst + k) = q" "frame (src + k) \<noteq> q"
    using d(3) p(3) aligned_add_div [OF al(1), of k] aligned_add_div [OF al(2), of k] k by (simp_all add: frame_def)
  let ?b = "pmem t (src + k)" and ?u = "t\<lparr>pmem := (pmem t)(dst + k := pmem t (src + k))\<rparr>"
  have b: "?b = pmem s (src + k)" using t(2) fr(2) by (simp add: same_except_def)
  have "kbind (uload8 (sva + k)) (\<lambda>b. ustore8 (dva + k) b) t = Ret () ?u"
    using tr by (simp add: kbind_def uload8_def ustore8_def)
  moreover have "same_except s ?u {q}" using t(2) fr(1) by (auto simp: same_except_def)
  moreover have "?u = s\<lparr>pmem := pmem ?u\<rparr>" by (subst t(1)) simp
  moreover have "\<forall>j \<in> insert k K. pmem ?u (dst + j) = pmem s (src + j)" using copied b by auto
  ultimately show ?thesis unfolding copying_def by (intro exI [of _ ?u]) (simp only: simp_thms)
qed

lemma set_offsets: "n \<le> 4096 \<Longrightarrow> set (map of_nat [0..<n]) = {k :: u32. unat k < n}"
proof -
  assume n: "n \<le> 4096"
  have "k \<in> of_nat ` {0..<n}" if "unat k < n" for k :: u32
    using that by (intro image_eqI [of _ _ "unat k"]) simp_all
  moreover have "unat (of_nat i :: u32) = i" if "i < n" for i
    using that n by (simp add: unat_of_nat)
  ultimately show ?thesis by auto
qed

lemma umemcpy_page:
  assumes rd: "ready s c xs role" and q: "role q = Data" and n: "n \<le> 4096"
    and d: "open_page s (env_pgdir (envs s c)) True dva" "dst = PTE_ADDR (pte_of s (env_pgdir (envs s c)) dva)" "frame dst = q"
    and p: "open_page s (env_pgdir (envs s c)) False sva" "src = PTE_ADDR (pte_of s (env_pgdir (envs s c)) sva)" "frame src \<noteq> q"
  shows "\<exists>t. umemcpy dva sva n s = Ret () t \<and> copying s q dst src {k. unat k < n} t"
proof -
  have "\<exists>t. kfor offs (\<lambda>k. kbind (uload8 (sva + k)) (\<lambda>b. ustore8 (dva + k) b)) s = Ret () t \<and> copying s q dst src (set offs) t"
    if offs: "set offs = {k. unat k < n}" for offs
  proof (rule kfor_run [where I = "\<lambda>us t. copying s q dst src (set us) t"])
    show "copying s q dst src (set []) s" by (simp add: copying_def same_except_def)
  next
    fix us x vs t
    assume o: "offs = us @ x # vs" and c: "copying s q dst src (set us) t"
    from o have "x \<in> set offs" by simp
    then have "unat x < 4096" using offs n by simp
    from copying_step [OF rd q c d p this]
    show "\<exists>u. kbind (uload8 (sva + x)) (\<lambda>b. ustore8 (dva + x) b) t = Ret () u \<and> copying s q dst src (set (us @ [x])) u"
      by simp
  qed
  moreover note set_offsets [OF n]
  ultimately show ?thesis by (simp only: umemcpy_def Let_def set_rev split: if_splits) (metis set_rev)
qed

subsection \<open>Unmapping a page of one's own\<close>

lemma usys_page_unmap_step:
  assumes rd: "ready s c xs role" and va: "aligned 4096 va" "va < UTOP"
    and p: "pte_of s (env_pgdir (envs s c)) va AND PTE_P \<noteq> 0"
  obtains t ys r where "usys_page_unmap w 0 va s = Ret 0 t" "ready t c ys r" "same_run s t"
    "\<And>d va'. d \<in> spaces s \<Longrightarrow> va' < UTOP \<Longrightarrow> pte_of t d va' =
      (if d = env_pgdir (envs s c) \<and> PGNUM va' = PGNUM va then 0 else pte_of s d va')"
    "\<And>a. role (frame a) = Data \<Longrightarrow> pmem t a = pmem s a"
    "\<And>d. d \<in> spaces s \<Longrightarrow> self_map s d \<Longrightarrow> self_map t d"
    "length xs \<le> length ys" "free_counts s xs t ys" "\<And>g. role g = Data \<Longrightarrow> g \<noteq> frame (pte_of s (env_pgdir (envs s c)) va) \<Longrightarrow> r g = Data"
proof -
  let ?d = "env_pgdir (envs s c)" let ?t = "remove_state ?d va s"
  have inv: "mem_inv s (spaces s) xs role" and clean: "kernel_clean s" and run: "running s c"
    using rd by (auto simp: ready_def)
  have c: "curenv s = Some c" "live s c" "env_status (envs s c) = ENV_RUNNING" "self_map s ?d"
      "cr3 s (thiscpu s) = ?d - KERNBASE"
    using run by (auto simp: running_def)
  have d: "?d \<in> spaces s" by (rule ready_space(1) [OF rd c(2)])
  have wf: "mem_ok s" "wf_pgdir s ?d" using mem_inv_vm_ok [OF inv d] by (auto simp: vm_ok_def)
  note rm = mem_inv_remove [OF inv d va(2) p]
  obtain ys r where yr: "mem_inv ?t (spaces s) ys r" "set xs \<subseteq> set ys" "\<forall>g. g \<noteq> frame (pte_of s ?d va) \<longrightarrow> r g = role g"
    "\<forall>g \<in> set ys. g \<in> set xs \<or> pp_ref (pages ?t g) = 0"
    using rm(1) by blast
  have len: "length xs \<le> length ys"
    by (rule length_le_subset [OF free_list_distinct [OF mem_invD(2) [OF inv]] yr(2)])
  have counts: "free_counts s xs ?t ys"
  proof -
    have "pp_ref (pages ?t g) = pp_ref (pages s g)" if "g \<in> set xs" for g
    proof -
      have "role g = Free" using mem_invD(3) [OF inv] that by simp
      then have "g \<noteq> frame (pte_of s ?d va)" using mapped_page(1) [OF inv d va(2) p] by auto
      then show ?thesis by (simp add: remove_state_def tlb_state_def decref_state_def Let_def put_free_page_def set_pte_def upd_page_def hw_def)
    qed
    then show ?thesis using yr(4) by (auto simp: free_counts_def)
  qed
  have keepr: "r g = Data" if "role g = Data" "g \<noteq> frame (pte_of s ?d va)" for g using yr(3) that by simp
  have tab: "has_table s ?d va" using p pte_of_no_table [OF below_UTOP [OF va(2)], of s ?d] by fastforce
  have "page_remove ?d va s = Ret () ?t"
    by (rule page_remove_present [OF wf tab p mapped_page(2) [OF inv d va(2) p]])
  moreover have "found_env s c 0 = Some c" by (simp add: found_env_def)
  ultimately have call: "sys_page_unmap 0 va s = Ret 0 ?t"
    using va by (simp add: sys_page_unmap_def with_env_checked [OF c(1)] kbind_Ret kret_def not_le round_page_iff)
  have pde: "pde_of ?t x va' = pde_of s x va'" if "x \<in> spaces s" for x va' using rm(3) [OF that] by blast
  have "same_kernel s ?t"
    using rm(3) [of "kern_pgdir s"] by (auto simp: same_kernel_def) (simp_all add: remove_state_def)
  moreover have "cr3 ?t = cr3 s" "thiscpu ?t = thiscpu s"
    by (simp_all add: remove_state_def tlb_state_def decref_state_def Let_def put_free_page_def set_pte_def upd_page_def hw_def)
  ultimately have same: "same_run s ?t" by (simp add: same_run_def)
  note sm = same_run_facts [OF same]
  have self: "self_map ?t x" if "x \<in> spaces s" "self_map s x" for x
    using that pde by (simp add: self_map_def has_table_def)
  have "running ?t c"
    using c self [OF d c(4)] sm(1,2,5) same by (simp add: running_def same_run_def)
  then have rd': "ready ?t c ys r" using yr(1) clean sm(3,4) by (simp add: ready_def)
  have call2: "usys_page_unmap w 0 va s = Ret 0 ?t"
    unfolding usys_page_unmap_def
    by (rule usyscall_Ret [OF c(1)]) (use call c(3) sm(1) in \<open>simp_all add: syscall_def\<close>)
  have data: "pmem ?t a = pmem s a" if "role (frame a) = Data" for a
  proof -
    have "role (frame (pde_of s ?d va)) = table_role ?d va" by (rule frames_okD(5) [OF mem_invD(4) [OF inv d] tab])
    then have "frame a \<noteq> frame (pde_of s ?d va)" using that by (auto simp: table_role_def split: if_splits)
    then show ?thesis using rm(5) by (simp add: same_except_def)
  qed
  have pte: "pte_of ?t x va' = (if x = ?d \<and> PGNUM va' = PGNUM va then 0 else pte_of s x va')"
    if "x \<in> spaces s" "va' < UTOP" for x va'
    using rm(3) [OF that(1), of va'] below_UTOP [OF that(2)] by blast
  show ?thesis by (rule that [OF call2 rd' same pte data self len counts keepr])
qed

subsection \<open>The page-fault handler\<close>

abbreviation (input) temp_perm :: u32 where "temp_perm \<equiv> PTE_W OR PTE_U OR PTE_P"

definition temp_entry :: "nat \<Rightarrow> u32" where
  "temp_entry q = page2pa q OR temp_perm OR PTE_P"

lemma temp_entry_flags [simp]:
  "temp_entry q AND PTE_P \<noteq> 0" "temp_entry q AND PTE_U \<noteq> 0" "temp_entry q AND PTE_W \<noteq> 0"
proof -
  have "temp_entry q AND m = (temp_perm OR PTE_P) AND m" if "m < 4096" for m
    unfolding temp_entry_def by (simp only: or.assoc page_flags [OF that])
  from this [of PTE_P] this [of PTE_U] this [of PTE_W]
  show "temp_entry q AND PTE_P \<noteq> 0" "temp_entry q AND PTE_U \<noteq> 0" "temp_entry q AND PTE_W \<noteq> 0"
    by (simp_all add: layout)
qed

lemma temp_entry_page:
  assumes "q < 65536"
  shows "frame (temp_entry q) = q" "PTE_ADDR (temp_entry q) = page2pa q"
proof -
  show "frame (temp_entry q) = q" unfolding temp_entry_def by (rule frame_entry [OF assms]) (simp add: layout)
  then show "PTE_ADDR (temp_entry q) = page2pa q" by (simp flip: page2pa_frame)
qed

text \<open>A fault the handler accepts, and the resources it needs.\<close>

definition cow_page :: "kstate \<Rightarrow> u32 \<Rightarrow> u32 \<Rightarrow> bool" where
  "cow_page s d addr \<longleftrightarrow> addr < UTOP \<and> shared s d addr \<and> pte_of s d addr AND PTE_COW \<noteq> 0 \<and> PGNUM addr \<noteq> PGNUM PFTEMP"

lemma cow_fault_Ret:
  assumes rd: "ready s c xs role" and p: "cow_page s (env_pgdir (envs s c)) addr" and err: "err AND FEC_WR \<noteq> 0"
  shows "cow_fault err addr s = Ret True s"
proof -
  let ?d = "env_pgdir (envs s c)"
  have run: "running s c" "live s c" using rd by (auto simp: ready_def running_def)
  have al: "aligned 4096 (?d - KERNBASE)" by (rule ready_space(3) [OF rd run(2)])
  have a: "addr < UTOP" "pte_of s ?d addr AND PTE_P \<noteq> 0" "pte_of s ?d addr AND PTE_COW \<noteq> 0"
    using p by (auto simp: cow_page_def shared_def)
  have tab: "has_table s ?d addr"
    using a(2) pte_of_no_table [OF below_UTOP [OF a(1)], of s ?d] by fastforce
  show ?thesis
    using uvpd_Ret [OF run(1) al, of addr] uvpt_Ret [OF run(1) al a(1) tab] tab a err
    by (simp add: cow_fault_def kbind_Ret kret_def has_table_def)
qed

lemma pgfault_copy:
  assumes rd: "ready s c (q # xs) role" and p: "cow_page s d addr" and d: "d = env_pgdir (envs s c)"
    and refs: "pp_ref (pages s q) = 0" and mem: "has_table s d PFTEMP \<or> xs \<noteq> []"
  obtains u t ys r where "usys_page_alloc w 0 PFTEMP temp_perm s = Ret 0 u"
    "umemcpy PFTEMP (ROUNDDOWN addr PGSIZE) 4096 u = Ret () t" "ready t c ys r" "same_run s t"
    "\<And>x va. x \<in> spaces s \<Longrightarrow> va < UTOP \<Longrightarrow> pte_of t x va =
      (if x = d \<and> PGNUM va = PGNUM PFTEMP then temp_entry q else pte_of s x va)"
    "\<And>x va a. x \<in> spaces s \<Longrightarrow> va < UTOP \<Longrightarrow> pte_of s x va AND PTE_P \<noteq> 0 \<Longrightarrow>
      frame a = frame (pte_of s x va) \<Longrightarrow> frame a \<noteq> q \<and> pmem t a = pmem s a"
    "\<And>k. unat k < 4096 \<Longrightarrow> pmem t (page2pa q + k) = pmem s (PTE_ADDR (pte_of s d addr) + k)"
    "\<And>x. x \<in> spaces s \<Longrightarrow> self_map s x \<Longrightarrow> self_map t x" "q < 65536" "pp_ref (pages t q) \<noteq> - 1"
proof -
  let ?a = "ROUNDDOWN addr PGSIZE"
  have pf: "PFTEMP < UTOP" "aligned 4096 PFTEMP" by (simp_all add: layout aligned_def)
  have pa: "addr < UTOP" "shared s d addr" "PGNUM addr \<noteq> PGNUM PFTEMP" using p by (auto simp: cow_page_def)
  have ds: "d \<in> spaces s" using rd by (simp add: d ready_def running_def live_space)
  have found: "found_env s c 0 = Some c" by (simp add: found_env_def)
  obtain u ys r where u: "usys_page_alloc w 0 PFTEMP temp_perm s = Ret 0 u" "ready u c ys r" "same_run s u"
    and pte: "\<And>x va'. x \<in> spaces s \<Longrightarrow> va' < UTOP \<Longrightarrow> pte_of u x va' =
      (if x = env_pgdir (envs s c) \<and> PGNUM va' = PGNUM PFTEMP then page2pa q OR temp_perm OR PTE_P else pte_of s x va')"
    and data: "\<And>x va' a. x \<in> spaces s \<Longrightarrow> va' < UTOP \<Longrightarrow> pte_of s x va' AND PTE_P \<noteq> 0 \<Longrightarrow>
      frame a = frame (pte_of s x va') \<Longrightarrow> frame a \<noteq> q \<and> pmem u a = pmem s a"
    and self: "\<And>x. x \<in> spaces s \<Longrightarrow> self_map s x \<Longrightarrow> self_map u x" and q: "q < 65536"
    and ref: "pp_ref (pages s q) = 0 \<Longrightarrow> unat (pp_ref (pages u q)) \<le> 2"
    by (rule usys_page_alloc_view [where w = w, OF rd found pf(1), of temp_perm]) (use refs mem d in \<open>simp_all add: layout\<close>)
  note pte = pte [folded d temp_entry_def] and sm = same_run_facts [OF u(3)]
  have du: "d = env_pgdir (envs u c)" using d sm(1) by simp
  note pg = page_of_facts(1,2) [of addr] page_of_facts(3) [OF pa(1)]
  have old: "pte_of u d ?a = pte_of s d addr" using pte [OF ds pg(3)] pa(3) pg(2) pte_page_cong [OF pg(2)] by simp
  have new: "pte_of u d PFTEMP = temp_entry q" using pte [OF ds pf(1)] by simp
  have src: "open_page u d False ?a" using pg pa(2) old by (simp add: open_page_def shared_def)
  have dst: "open_page u d True PFTEMP" using pf new by (simp add: open_page_def shared_def)
  have fr: "frame (PTE_ADDR (pte_of u d PFTEMP)) = q" "frame (PTE_ADDR (pte_of u d ?a)) \<noteq> q"
    using new temp_entry_page(1) [OF q] data [OF ds pa(1)] pa(2) old by (auto simp: shared_def frame_PTE_ADDR)
  have role: "r q = Data"
  proof -
    have "mem_inv u (spaces u) ys r" using u(2) by (simp add: ready_def)
    from mapped_page(1) [OF this, of d PFTEMP] show ?thesis
      using ds sm(3) pf(1) new temp_entry_page(1) [OF q] by simp
  qed
  obtain t where t: "umemcpy PFTEMP ?a 4096 u = Ret () t" "copying u q (PTE_ADDR (pte_of u d PFTEMP)) (PTE_ADDR (pte_of u d ?a)) {k. unat k < 4096} t"
    using umemcpy_page [OF u(2) role order.refl, folded du, OF dst refl fr(1) src refl fr(2)] by blast
  have tt: "t = u\<lparr>pmem := pmem t\<rparr>" "same_except u t {q}" using t(2) by (auto simp: copying_def)
  note w = ready_data_write [OF u(2) role tt]
  have copied: "pmem t (page2pa q + k) = pmem s (PTE_ADDR (pte_of s d addr) + k)" if "unat k < 4096" for k
  proof -
    let ?b = "PTE_ADDR (pte_of s d addr) + k"
    have "frame ?b = frame (pte_of s d addr)"
      using aligned_add_div [OF aligned_PTE_ADDR, of k "pte_of s d addr"] that frame_PTE_ADDR [of "pte_of s d addr"]
      by (simp add: frame_def)
    then have "pmem u ?b = pmem s ?b" using data [OF ds pa(1)] pa(2) by (simp add: shared_def)
    then show ?thesis using t(2) that new old temp_entry_page(2) [OF q] by (simp add: copying_def)
  qed
  have pte': "pte_of t x va = (if x = d \<and> PGNUM va = PGNUM PFTEMP then temp_entry q else pte_of s x va)"
    if "x \<in> spaces s" "va < UTOP" for x va
    using w(4) [of x va] pte [OF that] that sm(3) by simp
  have data': "frame a \<noteq> q \<and> pmem t a = pmem s a"
    if "x \<in> spaces s" "va < UTOP" "pte_of s x va AND PTE_P \<noteq> 0" "frame a = frame (pte_of s x va)" for x va a
    using data [OF that] tt(2) by (auto simp: same_except_def)
  have self': "self_map t x" if "x \<in> spaces s" "self_map s x" for x using w(5) [of x] self [OF that] that(1) sm(3) by simp
  have "pages t = pages u" by (subst tt(1)) simp
  then have ref': "pp_ref (pages t q) \<noteq> - 1" using ref [OF refs] by (auto simp: unat_max_u16)
  show ?thesis
    by (rule that [OF u(1) t(1) w(1) same_run_trans [OF u(3) w(2)] pte' data' copied self' q ref'])
qed

text \<open>The new page is moved to the faulting address.\<close>

lemma pgfault_move:
  assumes rd: "ready t c ys r" and d: "d = env_pgdir (envs t c)" and va: "aligned 4096 va" "va < UTOP" "PGNUM va \<noteq> PGNUM PFTEMP"
    and temp: "pte_of t d PFTEMP = temp_entry q" and tab: "has_table t d va" and q: "q < 65536" and refs: "pp_ref (pages t q) \<noteq> - 1"
  obtains u v zs r' where "usys_page_map w 0 PFTEMP 0 va temp_perm t = Ret 0 u" "usys_page_unmap w 0 PFTEMP u = Ret 0 v"
    "ready v c zs r'" "same_run t v"
    "\<And>x va'. x \<in> spaces t \<Longrightarrow> va' < UTOP \<Longrightarrow> pte_of v x va' =
      (if x = d \<and> PGNUM va' = PGNUM PFTEMP then 0 else if x = d \<and> PGNUM va' = PGNUM va then temp_entry q else pte_of t x va')"
    "\<And>x va' a. x \<in> spaces t \<Longrightarrow> va' < UTOP \<Longrightarrow> pte_of v x va' AND PTE_P \<noteq> 0 \<Longrightarrow> pte_of t x va' AND PTE_P \<noteq> 0 \<Longrightarrow>
      pte_of v x va' = pte_of t x va' \<Longrightarrow> frame a = frame (pte_of t x va') \<Longrightarrow> pmem v a = pmem t a"
    "\<And>a. frame a = q \<Longrightarrow> pmem v a = pmem t a"
    "\<And>x. x \<in> spaces t \<Longrightarrow> self_map t x \<Longrightarrow> self_map v x"
proof -
  have pf: "PFTEMP < UTOP" "aligned 4096 PFTEMP" by (simp_all add: layout aligned_def)
  have inv: "mem_inv t (spaces t) ys r" using rd by (simp add: ready_def)
  have ds: "d \<in> spaces t" using rd by (simp add: d ready_def running_def live_space)
  have found: "found_env t c 0 = Some c" by (simp add: found_env_def)
  have fq: "frame (pte_of t d PFTEMP) = q" using temp temp_entry_page(1) [OF q] by simp
  have perm: "temp_perm < 4096" "temp_perm AND (PTE_U OR PTE_P) = PTE_U OR PTE_P" by (simp_all add: layout)
  from usys_page_map_step [where w = w, OF rd found pf(2,1) va(1,2) refl, folded d, OF _ perm]
  obtain u zs r1 where u: "usys_page_map w 0 PFTEMP 0 va temp_perm t = Ret 0 u"
    "inserted t (spaces t) ys r d q va temp_perm u zs r1" "same_run t u" "ready u c zs r1"
    using temp fq refs tab by auto
  note i = insertedD [OF u(2)] and sm = same_run_facts [OF u(3)]
  have du: "d = env_pgdir (envs u c)" using d sm(1) by simp
  have pu: "pte_of u d PFTEMP = temp_entry q" using i(10) [OF ds pf(1)] va(3) temp by simp
  have pu': "pte_of u (env_pgdir (envs u c)) PFTEMP AND PTE_P \<noteq> 0" using pu du by simp
  obtain v ws r2 where v: "usys_page_unmap w 0 PFTEMP u = Ret 0 v" "ready v c ws r2" "same_run u v"
    and pte: "\<And>x va'. x \<in> spaces u \<Longrightarrow> va' < UTOP \<Longrightarrow> pte_of v x va' =
      (if x = env_pgdir (envs u c) \<and> PGNUM va' = PGNUM PFTEMP then 0 else pte_of u x va')"
    and data: "\<And>a. r1 (frame a) = Data \<Longrightarrow> pmem v a = pmem u a"
    and self: "\<And>x. x \<in> spaces u \<Longrightarrow> self_map u x \<Longrightarrow> self_map v x"
    by (rule usys_page_unmap_step [where w = w, OF u(4) pf(2,1) pu']) (rule that; assumption)
  have pte': "pte_of v x va' = (if x = d \<and> PGNUM va' = PGNUM PFTEMP then 0
      else if x = d \<and> PGNUM va' = PGNUM va then temp_entry q else pte_of t x va')" if "x \<in> spaces t" "va' < UTOP" for x va'
    using pte [folded du, of x va'] i(10) [OF that, folded temp_entry_def] that sm(3) by (simp only:)
  have rq: "r q = Data" using mapped_page(1) [OF inv ds pf(1)] fq temp by simp
  have q': "pmem v a = pmem t a" if "frame a = q" for a using data [of a] i(3) i(5) [of a] that rq by simp
  have data': "pmem v a = pmem t a" if "x \<in> spaces t" "va' < UTOP" "pte_of v x va' AND PTE_P \<noteq> 0" "pte_of t x va' AND PTE_P \<noteq> 0"
      "pte_of v x va' = pte_of t x va'" "frame a = frame (pte_of t x va')" for x va' a
  proof -
    have n: "\<not> (x = d \<and> PGNUM va' = PGNUM PFTEMP)" using that(3) pte' [OF that(1,2)] by auto
    have "pte_of v x va' = pte_of u x va'" using pte [folded du, of x va'] that(1,2) sm(3) by (simp only: n if_False)
    with that(5) have e: "pte_of u x va' = pte_of t x va'" by (simp only:)
    have "mem_inv u (spaces u) zs r1" using u(4) by (simp add: ready_def)
    from mapped_page(1) [OF this, of x va'] have "r1 (frame a) = Data" using that(1,2,4,6) sm(3) e by simp
    moreover have "r (frame a) = Data" using mapped_page(1) [OF inv that(1,2,4)] that(6) by simp
    ultimately show ?thesis using data [of a] i(5) [of a] by simp
  qed
  have self': "self_map v x" if "x \<in> spaces t" "self_map t x" for x
    using self [of x] self_map_inserted [OF that(2) u(2) that(1) va(2)] that(1) sm(3) by simp
  show ?thesis
    by (rule that [OF u(1) v(1,2) same_run_trans [OF u(3) v(3)] pte' data' q' self'])
qed

text \<open>The bytes of the page at its new frame.\<close>

lemma same_page_UTOP: "PGNUM va = PGNUM addr \<Longrightarrow> addr < UTOP \<Longrightarrow> va < UTOP"
proof -
  assume "PGNUM va = PGNUM addr" "addr < UTOP"
  then have "unat va div 4096 = unat addr div 4096" "unat addr < 977920 * 4096"
    by (simp_all add: word_less_nat_alt layout flip: unat_PGNUM)
  then have "unat va < 977920 * 4096"
    using div_less_iff_less_mult [of 4096 "unat va" 977920] div_less_iff_less_mult [of 4096 "unat addr" 977920] by simp
  then show "va < UTOP" by (simp add: word_less_nat_alt layout)
qed

lemma if_through:
  "a = (if A then p else if B then q else b) \<Longrightarrow> b = (if A then r else e) \<Longrightarrow> a = (if A then p else if B then q else e)"
  by simp

lemma copied_page_byte:
  assumes "aligned 4096 (d - KERNBASE)" "self_map s d" "self_map t d" "PGNUM va = PGNUM addr" "va < UTOP"
    and "shared s d addr" "pte_of t d va = temp_entry q" "q < 65536"
    and "\<And>k. unat k < 4096 \<Longrightarrow> pmem t (page2pa q + k) = pmem s (PTE_ADDR (pte_of s d addr) + k)"
  shows "user_byte t d va = user_byte s d va" "user_writable t d va"
proof -
  have e: "pte_of s d va = pte_of s d addr" using assms(4) by (rule pte_page_cong)
  have sh: "shared s d va" "shared t d va" using assms(6,7) e by (simp_all add: shared_def)
  have k: "unat (PGOFF va) < 4096" by (simp add: unat_PGOFF)
  show "user_byte t d va = user_byte s d va"
    using sh assms(7) assms(9) [OF k] e temp_entry_page(2) [OF assms(8)] k
    by (simp add: user_byte_eq [OF assms(1,2,5)] user_byte_eq [OF assms(1,3,5)] or_offset)
  show "user_writable t d va" using sh assms(7) by (simp add: user_writable_iff [OF assms(1,3,5)])
qed

lemma paged_machine_read:
  assumes "e = 0x7007 \<or> e = 0x7805" "unat k + 4 \<le> 4096"
  shows "uload32 (0x800000 + k) (paged_machine e) = Ret (load32 (user_memory e) (0x7000 + k)) (paged_machine e)"
proof -
  let ?s = "paged_machine e"
  have run: "running ?s 0" using paged_machine_ready [OF assms(1)] by (simp add: ready_def)
  have al: "aligned 4096 (sample_pgdir - KERNBASE)" "aligned 4096 0x800000" by (simp_all add: aligned_def layout)
  have i: "in_space sample_pgdir ?s = ?s" using running_in_space [OF run] by simp
  have pde: "hw_pde ?s 0x800000 = 0x6007"
    using in_space_hw(1) [OF al(1), of ?s "0x800000"] paged_machine_vm(1) [of e "0x800000"] by (simp add: i)
  have pte: "hw_pte ?s 0x800000 = e"
    using in_space_hw(2) [OF al(1), of ?s "0x800000"] paged_machine_vm(1,2) [of "0x800000" e] paged_machine_vm(1) [of e "0x800000"]
    by (simp add: i layout)
  have "access_ok ?s True False (hw_pde ?s 0x800000)" "access_ok ?s True False (hw_pte ?s 0x800000)"
    unfolding pde pte using assms(1) by (auto simp: access_ok_def layout)
  moreover have "PTE_ADDR e = 0x7000" using assms(1) by (auto simp: PTE_ADDR_def)
  ultimately show ?thesis using uload32_page [OF al(2) assms(2), of ?s] by (simp add: pte)
qed

text \<open>C2. The page-fault handler of \<open>fork\<close>: after a write fault on a copy-on-write page it returns, and
  the page of the fault is then on the frame \<open>q\<close>, which was free, reads the same bytes as before and can be
  written; no other address, of this or another environment, is on that frame; everything else
  below \<open>UTOP\<close> reads what it read before, except that the temporary page is unmapped; memory is isolated.\<close>

theorem pgfault_private_copy:
  assumes "ready s c (q # xs) role" "uload32 utf s = Ret addr s" "uload32 (utf + 4) s = Ret err s"
    and "err AND FEC_WR \<noteq> 0" "cow_page s (env_pgdir (envs s c)) addr" "pp_ref (pages s q) = 0"
    and "has_table s (env_pgdir (envs s c)) PFTEMP \<or> xs \<noteq> []"
  defines "d \<equiv> env_pgdir (envs s c)"
  shows "\<exists>t. pgfault w utf s = Ret () t \<and> isolated t \<and> envs t = envs s \<and>
    (\<forall>va. PGNUM va = PGNUM addr \<longrightarrow> frame (pte_of t d va) = q \<and> user_byte t d va = user_byte s d va \<and> user_writable t d va) \<and>
    (\<forall>x va. x \<in> spaces s \<and> va < UTOP \<and> pte_of t x va AND PTE_P \<noteq> 0 \<and> frame (pte_of t x va) = q \<longrightarrow>
       x = d \<and> PGNUM va = PGNUM addr) \<and>
    (\<forall>x va. x \<in> spaces s \<and> self_map s x \<and> va < UTOP \<and> \<not> (x = d \<and> PGNUM va = PGNUM PFTEMP) \<longrightarrow>
       user_byte t x va = user_byte s x va)"
proof -
  let ?a = "ROUNDDOWN addr PGSIZE"
  have pa: "addr < UTOP" "shared s d addr" "PGNUM addr \<noteq> PGNUM PFTEMP" using assms(5) by (auto simp: cow_page_def d_def)
  note pg = page_of_facts(1,2) [of addr] page_of_facts(3) [OF pa(1)]
  have ds: "d \<in> spaces s" "self_map s d" using assms(1) by (auto simp: d_def ready_def running_def live_space)
  obtain t1 t2 ys r where t1: "usys_page_alloc w 0 PFTEMP temp_perm s = Ret 0 t1"
    and t2: "umemcpy PFTEMP ?a 4096 t1 = Ret () t2" "ready t2 c ys r" "same_run s t2"
    and pte2: "\<And>x va. x \<in> spaces s \<Longrightarrow> va < UTOP \<Longrightarrow> pte_of t2 x va =
      (if x = d \<and> PGNUM va = PGNUM PFTEMP then temp_entry q else pte_of s x va)"
    and data2: "\<And>x va a. x \<in> spaces s \<Longrightarrow> va < UTOP \<Longrightarrow> pte_of s x va AND PTE_P \<noteq> 0 \<Longrightarrow>
      frame a = frame (pte_of s x va) \<Longrightarrow> frame a \<noteq> q \<and> pmem t2 a = pmem s a"
    and copied: "\<And>k. unat k < 4096 \<Longrightarrow> pmem t2 (page2pa q + k) = pmem s (PTE_ADDR (pte_of s d addr) + k)"
    and self2: "\<And>x. x \<in> spaces s \<Longrightarrow> self_map s x \<Longrightarrow> self_map t2 x" and q: "q < 65536" "pp_ref (pages t2 q) \<noteq> - 1"
    by (rule pgfault_copy [where w = w, OF assms(1,5) refl assms(6,7), folded d_def]) (rule that; assumption)
  note sm = same_run_facts [OF t2(3)]
  have d2: "d = env_pgdir (envs t2 c)" using sm(1) by (simp add: d_def)
  have pf: "PFTEMP < UTOP" by (simp add: layout)
  have temp: "pte_of t2 d PFTEMP = temp_entry q" using pte2 [OF ds(1) pf] by simp
  have old: "pte_of t2 d ?a = pte_of s d addr" using pte2 [OF ds(1) pg(3)] pa(3) pg(2) pte_page_cong [OF pg(2)] by simp
  have tab: "has_table t2 d ?a"
    using old pa(2) pte_of_no_table [OF below_UTOP [OF pg(3)], of t2 d] by (fastforce simp: shared_def)
  have na: "PGNUM ?a \<noteq> PGNUM PFTEMP" using pa(3) pg(2) by simp
  obtain t3 t zs r' where t3: "usys_page_map w 0 PFTEMP 0 ?a temp_perm t2 = Ret 0 t3"
    and t: "usys_page_unmap w 0 PFTEMP t3 = Ret 0 t" "ready t c zs r'" "same_run t2 t"
    and pte: "\<And>x va. x \<in> spaces t2 \<Longrightarrow> va < UTOP \<Longrightarrow> pte_of t x va =
      (if x = d \<and> PGNUM va = PGNUM PFTEMP then 0 else if x = d \<and> PGNUM va = PGNUM ?a then temp_entry q else pte_of t2 x va)"
    and data: "\<And>x va a. x \<in> spaces t2 \<Longrightarrow> va < UTOP \<Longrightarrow> pte_of t x va AND PTE_P \<noteq> 0 \<Longrightarrow> pte_of t2 x va AND PTE_P \<noteq> 0 \<Longrightarrow>
      pte_of t x va = pte_of t2 x va \<Longrightarrow> frame a = frame (pte_of t2 x va) \<Longrightarrow> pmem t a = pmem t2 a"
    and dataq: "\<And>a. frame a = q \<Longrightarrow> pmem t a = pmem t2 a"
    and self: "\<And>x. x \<in> spaces t2 \<Longrightarrow> self_map t2 x \<Longrightarrow> self_map t x"
    by (rule pgfault_move [where w = w, OF t2(2) d2 pg(1,3) na temp tab q]) (rule that; assumption)
  have call: "pgfault w utf s = Ret () t"
    using assms(2,3) cow_fault_Ret [OF assms(1,5,4)] t1 t2(1) t3 t(1) by (simp add: pgfault_def kbind_Ret kret_def Let_def)
  have P: "pte_of t x va = (if x = d \<and> PGNUM va = PGNUM PFTEMP then 0 else if x = d \<and> PGNUM va = PGNUM addr then temp_entry q
      else pte_of s x va)" if "x \<in> spaces s" "va < UTOP" for x va
  proof -
    have x: "x \<in> spaces t2" using that(1) sm(3) by (simp only:)
    show ?thesis by (rule if_through [OF pte [OF x that(2), unfolded pg(2)] pte2 [OF that]])
  qed
  have al: "aligned 4096 (x - KERNBASE)" if "x \<in> spaces s" for x
    using frames_okD(1) [OF mem_invD(4)] assms(1) that by (auto simp: ready_def)
  have sf: "self_map t x" if "x \<in> spaces s" "self_map s x" for x using self [of x] self2 [OF that] that(1) sm(3) by simp
  have moved: "frame (pte_of t d va) = q" "user_byte t d va = user_byte s d va" "user_writable t d va"
    if g: "PGNUM va = PGNUM addr" for va
  proof -
    have u: "va < UTOP" by (rule same_page_UTOP [OF g pa(1)])
    have e: "pte_of t d va = temp_entry q" using P [OF ds(1) u] g pa(3) by simp
    show "frame (pte_of t d va) = q" using e temp_entry_page(1) [OF q(1)] by simp
    have cp: "pmem t (page2pa q + k) = pmem s (PTE_ADDR (pte_of s d addr) + k)" if "unat k < 4096" for k
    proof -
      have "frame (page2pa q + k) = q"
        using aligned_add_div [OF aligned_page2pa, of k q] that q(1) by (simp add: frame_def unat_page2pa)
      then show ?thesis using dataq copied [OF that] by simp
    qed
    from copied_page_byte [OF al [OF ds(1)] ds(2) sf [OF ds] g u pa(2) e q(1) cp]
    show "user_byte t d va = user_byte s d va" "user_writable t d va" by simp_all
  qed
  have alone: "x = d \<and> PGNUM va = PGNUM addr"
    if "x \<in> spaces s" "va < UTOP" "pte_of t x va AND PTE_P \<noteq> 0" "frame (pte_of t x va) = q" for x va
  proof (rule ccontr)
    assume "\<not> (x = d \<and> PGNUM va = PGNUM addr)"
    then have "pte_of t x va = pte_of s x va" using P [OF that(1,2)] that(3) by (auto split: if_splits)
    with data2 [OF that(1,2)] that(3,4) show False by auto
  qed
  have kept: "user_byte t x va = user_byte s x va"
    if x: "x \<in> spaces s" "self_map s x" "va < UTOP" "\<not> (x = d \<and> PGNUM va = PGNUM PFTEMP)" for x va
  proof (cases "x = d \<and> PGNUM va = PGNUM addr")
    case False
    have e: "pte_of t x va = pte_of s x va" "pte_of t2 x va = pte_of s x va"
      using P [OF x(1,3)] pte2 [OF x(1,3)] x(4) False by (simp_all only: if_False)
    have "pmem t a = pmem s a" if a: "pte_of s x va AND PTE_P \<noteq> 0" "frame a = frame (pte_of s x va)" for a
      using data [of x va a] data2 [OF x(1,3) a] a e x(1,3) sm(3) by simp
    then show ?thesis by (intro user_byte_kept [OF assms(1) x(1) al [OF x(1)] x(2) sf [OF x(1,2)] x(3) e(1)])
  qed (use moved in auto)
  have iso: "isolated t" "envs t = envs s"
    using t(2) same_run_facts(1) [OF t(3)] sm(1) by (auto simp: ready_def isolated_def)
  show ?thesis
  proof (intro exI [of _ t] conjI call iso)
    show "\<forall>va. PGNUM va = PGNUM addr \<longrightarrow> frame (pte_of t d va) = q \<and> user_byte t d va = user_byte s d va \<and> user_writable t d va"
      using moved by blast
    show "\<forall>x va. x \<in> spaces s \<and> va < UTOP \<and> pte_of t x va AND PTE_P \<noteq> 0 \<and> frame (pte_of t x va) = q \<longrightarrow>
       x = d \<and> PGNUM va = PGNUM addr"
      by (intro allI impI, elim conjE) (rule alone)
    show "\<forall>x va. x \<in> spaces s \<and> self_map s x \<and> va < UTOP \<and> \<not> (x = d \<and> PGNUM va = PGNUM PFTEMP) \<longrightarrow>
       user_byte t x va = user_byte s x va"
      by (intro allI impI, elim conjE) (rule kept)
  qed
qed

lemma pgfault_private_copy_witness:
  "\<exists>t. pgfault (\<lambda>_. None) 0x800010 (paged_machine 0x7805) = Ret () t \<and> isolated t \<and>
     user_byte t sample_pgdir 0x800010 = Some 0x20 \<and> user_writable t sample_pgdir 0x800010 \<and>
     frame (pte_of t sample_pgdir 0x800010) = 4 \<and> \<not> user_writable (paged_machine 0x7805) sample_pgdir 0x800010"
proof -
  let ?s = "paged_machine 0x7805"
  have rd: "ready ?s 0 [4, 3, 2, 1] machine_role" by (rule paged_machine_ready) simp
  have e: "env_pgdir (envs ?s 0) = sample_pgdir" by simp
  have pte: "pte_of ?s sample_pgdir va = 0x7805" if "PDX va = 2" "PTX va = 0" for va
    using paged_machine_vm(2) [of va "0x7805"] that by simp
  have x: "PDX 0x800020 = 2" "PTX 0x800020 = 0" "PDX 0x800010 = 2" "PTX 0x800010 = 0" by (simp_all add: PDX_def PTX_def)
  have cow: "cow_page ?s (env_pgdir (envs ?s 0)) 0x800020"
    using pte [OF x(1,2)] by (simp add: cow_page_def shared_def layout PGNUM_def)
  have read: "uload32 0x800010 ?s = Ret 0x800020 ?s" "uload32 (0x800010 + 4) ?s = Ret 2 ?s"
    using paged_machine_read [of "0x7805" "0x10"] paged_machine_read [of "0x7805" "0x14"]
      user_memory_slots(3) [of 4 "0x7805"] user_memory_slots(3) [of 5 "0x7805"] by simp_all
  have g: "PGNUM 0x800010 = PGNUM 0x800020" by (simp add: PGNUM_def)
  have w: "\<not> user_writable ?s sample_pgdir 0x800010"
    using user_writable_pte(1) [of sample_pgdir ?s "0x800010"] pte [OF x(3,4)] by (auto simp: layout aligned_def)
  from pgfault_private_copy [where w = "\<lambda>_. None", OF rd read _ cow, unfolded e]
  obtain t where t: "pgfault (\<lambda>_. None) 0x800010 ?s = Ret () t" "isolated t"
    and m: "\<forall>va. PGNUM va = PGNUM 0x800020 \<longrightarrow> frame (pte_of t sample_pgdir va) = 4 \<and>
      user_byte t sample_pgdir va = user_byte ?s sample_pgdir va \<and> user_writable t sample_pgdir va"
    by (simp add: layout) blast
  have "user_byte ?s sample_pgdir 0x800010 = Some 0x20" by (rule paged_machine_byte) simp
  with t m g w show ?thesis by (intro exI [of _ t]) simp
qed

end
