(* ===== verification/User_Programs.thy ===== *)
theory User_Programs
  imports User_Lib
begin

text \<open>
  The programs of user/, as code over the user library: what \<open>umain\<close> and the functions beside it
  do when an environment runs them.  As in the library, local variables are not in the modelled
  memory, unless their address is passed on: then the address is an argument (\<open>b\<close> is the buffer
  of \<open>cprintf\<close>, \<open>who\<close> the variable that \<open>ipc_recv\<close> fills).  The endless loops and the attempts of
  \<open>ipc_send\<close> are followed for a number of rounds.  An access that faults ends the run: what
  happens then is the page-fault handling of the kernel.
\<close>

text \<open>A field of \<open>envs[i]\<close>, read through the mapping at \<open>UENVS\<close>.\<close>

definition envs_field :: "nat \<Rightarrow> (Env \<Rightarrow> 'a) \<Rightarrow> 'a kernel" where
  "envs_field i g = kget (\<lambda>s. g (envs s i))"

text \<open>\<open>cprintf\<close> as a statement.\<close>

definition uprint :: "world \<Rightarrow> uimage \<Rightarrow> u32 \<Rightarrow> string \<Rightarrow> varg list \<Rightarrow> unit kernel" where
  "uprint w im b fmt ap = kbind (user_cprintf w im b fmt ap) (\<lambda>_. kret ())"

text \<open>A system call whose failure makes the program panic.\<close>

definition or_panic :: "string \<Rightarrow> u32 kernel \<Rightarrow> unit kernel" where
  "or_panic msg m = kbind m (\<lambda>r. if sint r < 0 then user_panic msg else kret ())"

text \<open>A loop without an end, followed for \<open>n\<close> rounds.\<close>

primrec rounds :: "nat \<Rightarrow> unit kernel \<Rightarrow> unit kernel" where
  "rounds 0 m = kleave Spin"
| "rounds (Suc n) m = kbind m (\<lambda>_. rounds n m)"

subsection \<open>Greeting and yielding (user/hello.c, user/yield.c, user/idle.c, user/spin.c)\<close>

text \<open>The child of \<open>hello\<close> does not fork any more.\<close>

definition hello_child :: "world \<Rightarrow> uimage \<Rightarrow> u32 \<Rightarrow> u32 \<Rightarrow> unit kernel" where
  "hello_child w im b i =
     kbind (uprint w im b (''child %x is now living!'' @ newline) [Word32 i]) (\<lambda>_.
     kfor [0..<5] (\<lambda>j. kbind (uprint w im b (''child %x is yielding!'' @ newline) [Word32 i]) (\<lambda>_. usys_yield w)))"

primrec hello_loop :: "nat \<Rightarrow> world \<Rightarrow> uimage \<Rightarrow> u32 \<Rightarrow> u32 \<Rightarrow> unit kernel" where
  "hello_loop 0 w im b i = kret ()"
| "hello_loop (Suc n) w im b i =
     kbind (pfork w im i) (\<lambda>pid. if pid = 0 then hello_child w im b i else hello_loop n w im b (i + 1))"

definition hello_main :: "world \<Rightarrow> uimage \<Rightarrow> u32 \<Rightarrow> unit kernel" where
  "hello_main w im b = hello_loop 5 w im b 1"

definition yield_main :: "world \<Rightarrow> uimage \<Rightarrow> u32 \<Rightarrow> unit kernel" where
  "yield_main w im b =
     kbind (thisenv_field im env_id) (\<lambda>id.
     kbind (uprint w im b (''Hello, I am environment %08x.'' @ newline) [Word32 id]) (\<lambda>_.
     kbind (kfor [0..<5] (\<lambda>i.
       kbind (usys_yield w) (\<lambda>_.
       kbind (thisenv_field im env_id) (\<lambda>id.
       uprint w im b (''Back in environment %08x, iteration %d.'' @ newline) [Word32 id, Word32 (of_nat i)])))) (\<lambda>_.
     kbind (thisenv_field im env_id) (\<lambda>id.
     uprint w im b (''All done in environment %08x.'' @ newline) [Word32 id]))))"

text \<open>The string the name points to is at the address \<open>name\<close>.\<close>

definition idle_main :: "nat \<Rightarrow> world \<Rightarrow> uimage \<Rightarrow> u32 \<Rightarrow> unit kernel" where
  "idle_main n w im name = kbind (ustore32 (sym_binaryname im) name) (\<lambda>_. rounds n (usys_yield w))"

definition spin_main :: "world \<Rightarrow> uimage \<Rightarrow> u32 \<Rightarrow> unit kernel" where
  "spin_main w im b =
     kbind (uprint w im b (''I am the parent.  Forking the child...'' @ newline) []) (\<lambda>_.
     kbind (fork w im) (\<lambda>env.
     kbind (if env = 0 then
         kbind (uprint w im b (''I am the child.  Spinning...'' @ newline) []) (\<lambda>_. kleave Spin)
       else kret ()) (\<lambda>_.
     kbind (uprint w im b (''I am the parent.  Running the child...'' @ newline) []) (\<lambda>_.
     kbind (kfor [0..<8] (\<lambda>i. usys_yield w)) (\<lambda>_.
     kbind (uprint w im b (''I am the parent.  Killing the child...'' @ newline) []) (\<lambda>_.
     kbind (usys_env_destroy w env) (\<lambda>_. kret ())))))))"

subsection \<open>Fork by copying (user/dumbfork.c)\<close>

definition dumb_duppage :: "world \<Rightarrow> u32 \<Rightarrow> u32 \<Rightarrow> unit kernel" where
  "dumb_duppage w dstenv addr =
     kbind (or_panic ''sys_page_alloc: %e'' (usys_page_alloc w dstenv addr (PTE_P OR PTE_U OR PTE_W))) (\<lambda>_.
     kbind (or_panic ''sys_page_map: %e'' (usys_page_map w dstenv addr 0 UTEMP (PTE_P OR PTE_U OR PTE_W))) (\<lambda>_.
     kbind (umemcpy UTEMP addr 4096) (\<lambda>_.
     or_panic ''sys_page_unmap: %e'' (usys_page_unmap w 0 UTEMP))))"

text \<open>The pages of the loop, from \<open>UTEXT\<close> to the \<open>image_end\<close> of the program, the linker symbol.\<close>

definition image_pages :: "u32 \<Rightarrow> u32 list" where
  "image_pages image_end = map (\<lambda>i. UTEXT + of_nat i * PGSIZE) [0..<(unat image_end - unat UTEXT + 4095) div 4096]"

text \<open>What the parent does with the child; \<open>p\<close> is the address of the local variable \<open>addr\<close>.\<close>

definition dumb_copy :: "world \<Rightarrow> u32 \<Rightarrow> u32 \<Rightarrow> u32 \<Rightarrow> u32 kernel" where
  "dumb_copy w envid image_end p =
     kbind (kfor (image_pages image_end) (dumb_duppage w envid)) (\<lambda>_.
     kbind (dumb_duppage w envid (ROUNDDOWN p PGSIZE)) (\<lambda>_.
     kbind (or_panic ''sys_env_set_status: %e'' (usys_env_set_status w envid ENV_RUNNABLE)) (\<lambda>_.
     kret envid)))"

definition dumbfork :: "world \<Rightarrow> uimage \<Rightarrow> u32 \<Rightarrow> u32 \<Rightarrow> u32 \<Rightarrow> u32 kernel" where
  "dumbfork w im b image_end p =
     kbind (usys_exofork w) (\<lambda>envid.
     kbind (uprint w im b (''envid: %x'' @ newline) [Word32 envid]) (\<lambda>_.
     if sint envid < 0 then user_panic ''sys_exofork: %e''
     else if envid = 0 then kbind (set_thisenv w im) (\<lambda>_. kret 0)
     else kbind (uprint w im b (''parent'' @ newline) []) (\<lambda>_. dumb_copy w envid image_end p)))"

definition dumbfork_main :: "world \<Rightarrow> uimage \<Rightarrow> u32 \<Rightarrow> u32 \<Rightarrow> u32 \<Rightarrow> unit kernel" where
  "dumbfork_main w im b image_end p =
     kbind (dumbfork w im b image_end p) (\<lambda>who.
     kbind (uprint w im b (''who am i: %x'' @ newline) [Word32 who]) (\<lambda>_.
     kfor [0..<(if who \<noteq> 0 then 10 else 20)] (\<lambda>i.
       kbind (uprint w im b (''%d: I am the %s!'' @ newline)
         [Word32 (of_nat i), Cstr (Some (if who \<noteq> 0 then ''parent'' else ''child''))]) (\<lambda>_. usys_yield w))))"

subsection \<open>Messages (user/pingpong.c, user/pingpongs.c, user/fairness.c)\<close>

primrec pingpong_loop :: "nat \<Rightarrow> world \<Rightarrow> uimage \<Rightarrow> u32 \<Rightarrow> u32 \<Rightarrow> unit kernel" where
  "pingpong_loop 0 w im b who = kleave Spin"
| "pingpong_loop (Suc n) w im b who =
     kbind (ipc_recv w im who 0 0) (\<lambda>i.
     kbind (usys_getenvid w) (\<lambda>id.
     kbind (uload32 who) (\<lambda>from.
     kbind (uprint w im b (''%x got %d from %x'' @ newline) [Word32 id, Word32 i, Word32 from]) (\<lambda>_.
     if i = 10 then kret ()
     else
       kbind (uload32 who) (\<lambda>to_env.
       kbind (ipc_send n w to_env (i + 1) 0 0) (\<lambda>_.
       if i + 1 = 10 then kret () else pingpong_loop n w im b who))))))"

definition pingpong_main :: "nat \<Rightarrow> world \<Rightarrow> uimage \<Rightarrow> u32 \<Rightarrow> u32 \<Rightarrow> unit kernel" where
  "pingpong_main n w im b who =
     kbind (fork w im) (\<lambda>r.
     kbind (ustore32 who r) (\<lambda>_.
     kbind (if r \<noteq> 0 then
         kbind (usys_getenvid w) (\<lambda>id.
         kbind (uprint w im b (''send 0 from %x to %x'' @ newline) [Word32 id, Word32 r]) (\<lambda>_.
         kbind (uload32 who) (\<lambda>to_env. ipc_send n w to_env 0 0 0)))
       else kret ()) (\<lambda>_.
     pingpong_loop n w im b who)))"

text \<open>The counter of \<open>pingpongs\<close> is the global \<open>val\<close>, at the address \<open>v\<close>.\<close>

primrec pingpongs_loop :: "nat \<Rightarrow> world \<Rightarrow> uimage \<Rightarrow> u32 \<Rightarrow> u32 \<Rightarrow> u32 \<Rightarrow> unit kernel" where
  "pingpongs_loop 0 w im b who v = kleave Spin"
| "pingpongs_loop (Suc n) w im b who v =
     kbind (ipc_recv w im who 0 0) (\<lambda>_.
     kbind (usys_getenvid w) (\<lambda>id.
     kbind (uload32 v) (\<lambda>x.
     kbind (uload32 who) (\<lambda>from.
     kbind (uload32 (sym_thisenv im)) (\<lambda>this.
     kbind (thisenv_field im env_id) (\<lambda>tid.
     kbind (uprint w im b (''%x got %d from %x (thisenv is %p %x)'' @ newline)
       [Word32 id, Word32 x, Word32 from, Word32 this, Word32 tid]) (\<lambda>_.
     kbind (uload32 v) (\<lambda>x.
     if x = 10 then kret ()
     else
       kbind (ustore32 v (x + 1)) (\<lambda>_.
       kbind (uload32 who) (\<lambda>to_env.
       kbind (ipc_send n w to_env 0 0 0) (\<lambda>_.
       kbind (uload32 v) (\<lambda>x.
       if x = 10 then kret () else pingpongs_loop n w im b who v))))))))))))"

definition pingpongs_main :: "nat \<Rightarrow> world \<Rightarrow> uimage \<Rightarrow> u32 \<Rightarrow> u32 \<Rightarrow> u32 \<Rightarrow> unit kernel" where
  "pingpongs_main n w im b who v =
     kbind sfork (\<lambda>r.
     kbind (ustore32 who r) (\<lambda>_.
     kbind (if r \<noteq> 0 then
         kbind (usys_getenvid w) (\<lambda>id.
         kbind (uload32 (sym_thisenv im)) (\<lambda>this.
         kbind (uprint w im b (''i am %08x; thisenv is %p'' @ newline) [Word32 id, Word32 this]) (\<lambda>_.
         kbind (usys_getenvid w) (\<lambda>id.
         kbind (uload32 who) (\<lambda>to_env.
         kbind (uprint w im b (''send 0 from %x to %x'' @ newline) [Word32 id, Word32 to_env]) (\<lambda>_.
         kbind (uload32 who) (\<lambda>to_env. ipc_send n w to_env 0 0 0)))))))
       else kret ()) (\<lambda>_.
     pingpongs_loop n w im b who v)))"

definition fairness_main :: "nat \<Rightarrow> world \<Rightarrow> uimage \<Rightarrow> u32 \<Rightarrow> u32 \<Rightarrow> unit kernel" where
  "fairness_main n w im b who =
     kbind (usys_getenvid w) (\<lambda>id.
     kbind (uload32 (sym_thisenv im)) (\<lambda>this.
     if this = UENVS + sizeof_Env then
       rounds n (kbind (ipc_recv w im who 0 0) (\<lambda>_. kbind (uload32 who) (\<lambda>from.
         uprint w im b (''%x recv from %x'' @ newline) [Word32 id, Word32 from])))
     else
       kbind (envs_field 1 env_id) (\<lambda>to_env.
       kbind (uprint w im b (''%x loop sending to %x'' @ newline) [Word32 id, Word32 to_env]) (\<lambda>_.
       rounds n (kbind (envs_field 1 env_id) (\<lambda>to_env. ipc_send n w to_env 0 0 0))))))"

subsection \<open>A sieve of processes (user/primes.c)\<close>

text \<open>The C remainder, which traps when the divisor is 0 and for the one quotient out of range.\<close>

definition divides :: "u32 \<Rightarrow> u32 \<Rightarrow> bool kernel" where
  "divides p i = (if p = 0 \<or> p = - 1 \<and> i = 0x80000000 then kpanic ''Divide error'' else kret (sint p dvd sint i))"

text \<open>What a filter does with a number: it passes on what its prime does not divide.\<close>

definition sieve_one :: "nat \<Rightarrow> world \<Rightarrow> uimage \<Rightarrow> u32 \<Rightarrow> u32 \<Rightarrow> u32 \<Rightarrow> unit kernel" where
  "sieve_one n w im who right p =
     kbind (ipc_recv w im who 0 0) (\<lambda>i.
     kbind (divides p i) (\<lambda>b. if \<not> b then ipc_send n w right i 0 0 else kret ()))"

text \<open>The child starts again at the top, with the next prime.\<close>

primrec primeproc :: "nat \<Rightarrow> world \<Rightarrow> uimage \<Rightarrow> u32 \<Rightarrow> u32 \<Rightarrow> unit kernel" where
  "primeproc 0 w im b who = kleave Spin"
| "primeproc (Suc n) w im b who =
     kbind (ipc_recv w im who 0 0) (\<lambda>p.
     kbind (thisenv_field im env_cpunum) (\<lambda>cpu.
     kbind (uprint w im b ''CPU %d: %d '' [Word32 cpu, Word32 p]) (\<lambda>_.
     kbind (fork w im) (\<lambda>id.
     if sint id < 0 then user_panic ''fork: %e''
     else if id = 0 then primeproc n w im b who
     else rounds n (sieve_one n w im who id p)))))"

primrec feed :: "nat \<Rightarrow> world \<Rightarrow> u32 \<Rightarrow> u32 \<Rightarrow> unit kernel" where
  "feed 0 w right i = kleave Spin"
| "feed (Suc n) w right i = kbind (ipc_send n w right i 0 0) (\<lambda>_. feed n w right (i + 1))"

definition primes_main :: "nat \<Rightarrow> world \<Rightarrow> uimage \<Rightarrow> u32 \<Rightarrow> u32 \<Rightarrow> unit kernel" where
  "primes_main n w im b who =
     kbind (fork w im) (\<lambda>id.
     if sint id < 0 then user_panic ''fork: %e''
     else kbind (if id = 0 then primeproc n w im b who else kret ()) (\<lambda>_. feed n w id 2))"

subsection \<open>Many processes (user/forktree.c, user/stresssched.c)\<close>

text \<open>
  The buffer \<open>nxt\<close> has room for \<open>DEPTH\<close> characters and the end of the string, which \<open>snprintf\<close>
  respects.  The two functions call each other; \<open>n\<close> bounds the depth of the calls.
\<close>

abbreviation (input) DEPTH :: nat where "DEPTH \<equiv> 3"

definition forkchild :: "(string \<Rightarrow> unit kernel) \<Rightarrow> world \<Rightarrow> uimage \<Rightarrow> string \<Rightarrow> char \<Rightarrow> unit kernel" where
  "forkchild tree w im cur branch =
     (if length cur \<ge> DEPTH then kret ()
      else
        let nxt = take DEPTH (cur @ [branch]) in
        kbind (fork w im) (\<lambda>r. if r = 0 then kbind (tree nxt) (\<lambda>_. user_exit w) else kret ()))"

primrec forktree :: "nat \<Rightarrow> world \<Rightarrow> uimage \<Rightarrow> u32 \<Rightarrow> string \<Rightarrow> unit kernel" where
  "forktree 0 w im b cur = kleave Spin"
| "forktree (Suc n) w im b cur =
     kbind (usys_getenvid w) (\<lambda>id.
     kbind (uprint w im b (''%04x: I am '' @ [CHR 0x27] @ ''%s'' @ [CHR 0x27] @ newline) [Word32 id, Cstr (Some cur)]) (\<lambda>_.
     kbind (forkchild (forktree n w im b) w im cur CHR ''0'') (\<lambda>_.
     forkchild (forktree n w im b) w im cur CHR ''1'')))"

definition forktree_main :: "world \<Rightarrow> uimage \<Rightarrow> u32 \<Rightarrow> unit kernel" where
  "forktree_main w im b = forktree (Suc DEPTH) w im b []"

text \<open>The loop that forks is left by the children; \<open>i = 20\<close> in the parent alone.\<close>

primrec stress_fork :: "nat \<Rightarrow> world \<Rightarrow> uimage \<Rightarrow> bool kernel" where
  "stress_fork 0 w im = kret True"
| "stress_fork (Suc n) w im = kbind (fork w im) (\<lambda>r. if r = 0 then kret False else stress_fork n w im)"

text \<open>The \<open>counter\<close>, at the address \<open>v\<close>, is volatile: every round loads and stores it.\<close>

definition stresssched_main :: "world \<Rightarrow> uimage \<Rightarrow> u32 \<Rightarrow> u32 \<Rightarrow> unit kernel" where
  "stresssched_main w im b v =
     kbind (usys_getenvid w) (\<lambda>par.
     kbind (stress_fork 20 w im) (\<lambda>root.
     if root then usys_yield w
     else
       kbind (envs_field (ENVX par) env_status) (\<lambda>st.
       kbind (if st \<noteq> ENV_FREE then kleave Spin else kret ()) (\<lambda>_.
       kbind (kfor [0..<10] (\<lambda>i. kbind (usys_yield w) (\<lambda>_.
         kfor [0..<10000] (\<lambda>j. kbind (uload32 v) (\<lambda>x. ustore32 v (x + 1)))))) (\<lambda>_.
       kbind (uload32 v) (\<lambda>x.
       if x \<noteq> 10 * 10000 then user_panic ''ran on two CPUs at once (counter is %d)''
       else
         kbind (thisenv_field im env_id) (\<lambda>id.
         kbind (thisenv_field im env_cpunum) (\<lambda>cpu.
         uprint w im b (''[%08x] stresssched on CPU %d'' @ newline) [Word32 id, Word32 cpu]))))))))"

subsection \<open>Bad system calls (user/buggyhello.c, user/buggyhello2.c, user/evilhello.c)\<close>

definition buggyhello_main :: "world \<Rightarrow> unit kernel" where
  "buggyhello_main w = usys_cputs w 1 1"

text \<open>The global pointer \<open>hello\<close> is at the address \<open>h\<close>.\<close>

definition buggyhello2_main :: "world \<Rightarrow> u32 \<Rightarrow> unit kernel" where
  "buggyhello2_main w h = kbind (uload32 h) (\<lambda>p. usys_cputs w p (1024 * 1024))"

definition evilhello_main :: "world \<Rightarrow> unit kernel" where
  "evilhello_main w = usys_cputs w 0xF010000C 100"

subsection \<open>Faults (user/divzero.c, user/fault*.c)\<close>

text \<open>The global \<open>zero\<close> is at the address \<open>z\<close>.\<close>

definition divzero_main :: "world \<Rightarrow> uimage \<Rightarrow> u32 \<Rightarrow> u32 \<Rightarrow> unit kernel" where
  "divzero_main w im b z =
     kbind (ustore32 z 0) (\<lambda>_.
     kbind (uload32 z) (\<lambda>x.
     if x = 0 then kpanic ''Divide error''
     else uprint w im b (''1/0 is %08x!'' @ newline) [Word32 (if x = 1 \<or> x = - 1 then x else 0)]))"

definition faultread_main :: "world \<Rightarrow> uimage \<Rightarrow> u32 \<Rightarrow> unit kernel" where
  "faultread_main w im b =
     kbind (uload32 0) (\<lambda>x. uprint w im b (''I read %08x from location 0!'' @ newline) [Word32 x])"

definition faultreadkernel_main :: "world \<Rightarrow> uimage \<Rightarrow> u32 \<Rightarrow> unit kernel" where
  "faultreadkernel_main w im b =
     kbind (uload32 0xF0100000) (\<lambda>x. uprint w im b (''I read %08x from location 0xf0100000!'' @ newline) [Word32 x])"

definition faultwrite_main :: "unit kernel" where
  "faultwrite_main = ustore32 0 0"

definition faultwritekernel_main :: "unit kernel" where
  "faultwritekernel_main = ustore32 0xF0100000 0"

definition faultnostack_main :: "world \<Rightarrow> uimage \<Rightarrow> unit kernel" where
  "faultnostack_main w im =
     kbind (usys_env_set_pgfault_upcall w 0 (sym_pgfault_upcall im)) (\<lambda>_. ustore32 0 0)"

definition faultbadhandler_main :: "world \<Rightarrow> unit kernel" where
  "faultbadhandler_main w =
     kbind (usys_page_alloc w 0 (UXSTACKTOP - PGSIZE) (PTE_P OR PTE_U OR PTE_W)) (\<lambda>_.
     kbind (usys_env_set_pgfault_upcall w 0 0xDEADBEEF) (\<lambda>_. ustore32 0 0))"

definition faultevilhandler_main :: "world \<Rightarrow> unit kernel" where
  "faultevilhandler_main w =
     kbind (usys_page_alloc w 0 (UXSTACKTOP - PGSIZE) (PTE_P OR PTE_U OR PTE_W)) (\<lambda>_.
     kbind (usys_env_set_pgfault_upcall w 0 0xF0100020) (\<lambda>_. ustore32 0 0))"

text \<open>A handler gets the address \<open>utf\<close> of the frame; the address of its own code is \<open>h\<close>.\<close>

definition faultdie_handler :: "world \<Rightarrow> uimage \<Rightarrow> u32 \<Rightarrow> u32 \<Rightarrow> unit kernel" where
  "faultdie_handler w im b utf =
     kbind (uload32 utf) (\<lambda>addr.
     kbind (uload32 (utf + 4)) (\<lambda>err.
     kbind (uprint w im b (''i faulted at va %x, err %x'' @ newline) [Word32 addr, Word32 (err AND 7)]) (\<lambda>_.
     kbind (usys_getenvid w) (\<lambda>id.
     kbind (usys_env_destroy w id) (\<lambda>_. kret ())))))"

definition faultdie_main :: "world \<Rightarrow> uimage \<Rightarrow> u32 \<Rightarrow> unit kernel" where
  "faultdie_main w im h = kbind (set_pgfault_handler w im h) (\<lambda>_. ustore32 0xDEADBEEF 0)"

text \<open>\<open>snprintf\<close> of the user library, which prints to memory; \<open>q\<close> is where the next character goes.\<close>

primrec user_sprint :: "uimage \<Rightarrow> u32 \<Rightarrow> pevent list \<Rightarrow> u32 \<Rightarrow> u32 kernel" where
  "user_sprint im lim [] q = kret q"
| "user_sprint im lim (ev # evs) q =
     (case ev of
       Putch ch \<Rightarrow> if q < lim then kbind (ustore8 q (ucast ch)) (\<lambda>_. user_sprint im lim evs (q + 1))
         else user_sprint im lim evs q
     | Set_csa v \<Rightarrow> kbind (ustore32 (sym_csa im) v) (\<lambda>_. user_sprint im lim evs q))"

definition user_snprintf :: "uimage \<Rightarrow> u32 \<Rightarrow> u32 \<Rightarrow> string \<Rightarrow> varg list \<Rightarrow> unit kernel" where
  "user_snprintf im p n fmt ap =
     (if p = 0 \<or> sint n < 1 then kret ()
      else case vprintfmt fmt ap of
        None \<Rightarrow> kpanic ''undefined argument''
      | Some evs \<Rightarrow> kbind (user_sprint im (p + n - 1) evs p) (\<lambda>q. ustore8 q 0))"

definition faultalloc_handler :: "world \<Rightarrow> uimage \<Rightarrow> u32 \<Rightarrow> u32 \<Rightarrow> unit kernel" where
  "faultalloc_handler w im b utf =
     kbind (uload32 utf) (\<lambda>addr.
     kbind (uprint w im b (''fault %x'' @ newline) [Word32 addr]) (\<lambda>_.
     kbind (or_panic ''allocating at %x in page fault handler: %e''
       (usys_page_alloc w 0 (ROUNDDOWN addr PGSIZE) (PTE_P OR PTE_U OR PTE_W))) (\<lambda>_.
     user_snprintf im addr 100 ''this string was faulted in at %x'' [Word32 addr])))"

text \<open>A string of the program's memory, up to its terminator.\<close>

primrec ustring :: "nat \<Rightarrow> u32 \<Rightarrow> string kernel" where
  "ustring 0 p = kleave Spin"
| "ustring (Suc n) p = kbind (uload8 p) (\<lambda>c. if c = 0 then kret []
     else kbind (ustring n (p + 1)) (\<lambda>cs. kret (char_of (unat c) # cs)))"

definition faultalloc_main :: "nat \<Rightarrow> world \<Rightarrow> uimage \<Rightarrow> u32 \<Rightarrow> u32 \<Rightarrow> unit kernel" where
  "faultalloc_main n w im b h =
     kbind (set_pgfault_handler w im h) (\<lambda>_.
     kbind (ustring n 0xDEADBEEF) (\<lambda>x.
     kbind (uprint w im b (''%s'' @ newline) [Cstr (Some x)]) (\<lambda>_.
     kbind (ustring n 0xCAFEBFFE) (\<lambda>x.
     uprint w im b (''%s'' @ newline) [Cstr (Some x)]))))"

text \<open>\<open>faultallocbad\<close> has the handler of \<open>faultalloc\<close>, but the access is made by the kernel.\<close>

definition faultallocbad_main :: "world \<Rightarrow> uimage \<Rightarrow> u32 \<Rightarrow> unit kernel" where
  "faultallocbad_main w im h = kbind (set_pgfault_handler w im h) (\<lambda>_. usys_cputs w 0xDEADBEEF 4)"

subsection \<open>A large array (user/testbss.c)\<close>

text \<open>The global \<open>bigarray\<close> is at the address \<open>a\<close>.\<close>

abbreviation (input) ARRAYSIZE :: nat where "ARRAYSIZE \<equiv> 1024 * 1024"

definition check_array :: "u32 \<Rightarrow> (nat \<Rightarrow> u32) \<Rightarrow> string \<Rightarrow> unit kernel" where
  "check_array a v msg = kfor [0..<ARRAYSIZE] (\<lambda>i.
     kbind (uload32 (a + 4 * of_nat i)) (\<lambda>x. if x \<noteq> v i then user_panic msg else kret ()))"

definition testbss_main :: "world \<Rightarrow> uimage \<Rightarrow> u32 \<Rightarrow> u32 \<Rightarrow> unit kernel" where
  "testbss_main w im b a =
     kbind (uprint w im b (''Making sure bss works right...'' @ newline) []) (\<lambda>_.
     kbind (check_array a (\<lambda>i. 0) (''bigarray[%d] isn'' @ [CHR 0x27] @ ''t cleared!'' @ newline)) (\<lambda>_.
     kbind (kfor [0..<ARRAYSIZE] (\<lambda>i. ustore32 (a + 4 * of_nat i) (of_nat i))) (\<lambda>_.
     kbind (check_array a of_nat (''bigarray[%d] didn'' @ [CHR 0x27] @ ''t hold its value!'' @ newline)) (\<lambda>_.
     kbind (uprint w im b (''Yes, good.  Now doing a wild write off the end...'' @ newline) []) (\<lambda>_.
     kbind (ustore32 (a + 4 * (of_nat ARRAYSIZE + 1024)) 0) (\<lambda>_.
     user_panic ''SHOULD HAVE TRAPPED!!!''))))))"

end
