(* ===== verification/Dumbfork_Spec.thy ===== *)
theory Dumbfork_Spec
  imports Pgfault_Spec Fork_Total User_Programs
begin

text \<open>
  Fork by copying (user/dumbfork.c): one call of \<open>duppage\<close> gives the child a page of its own with
  the bytes of the parent's page, and the loop over the pages of the program does so for all of them.
\<close>

subsection \<open>Steps\<close>

lemma dumb_perm: "PTE_P OR PTE_U OR PTE_W = temp_perm" "temp_perm < 4096" "temp_perm AND (PTE_U OR PTE_P) = PTE_U OR PTE_P"
  by (simp_all add: layout)

lemma temp_page: "UTEMP < UTOP" "aligned 4096 UTEMP"
  by (simp_all add: layout aligned_def)

text \<open>A page copied within the running address space.\<close>

lemma umemcpy_whole_page:
  assumes rd: "ready s c xs role" and q: "role q = Data"
    and d: "open_page s (env_pgdir (envs s c)) True dva" "frame (pte_of s (env_pgdir (envs s c)) dva) = q"
    and p: "open_page s (env_pgdir (envs s c)) False sva" "frame (pte_of s (env_pgdir (envs s c)) sva) \<noteq> q"
  obtains t where "umemcpy dva sva 4096 s = Ret () t" "ready t c xs role" "same_run s t" "pages t = pages s"
    "\<And>x va. x \<in> spaces s \<Longrightarrow> va < UTOP \<Longrightarrow> pte_of t x va = pte_of s x va"
    "\<And>x. x \<in> spaces s \<Longrightarrow> self_map s x \<Longrightarrow> self_map t x"
    "\<And>a. frame a \<noteq> q \<Longrightarrow> pmem t a = pmem s a"
    "\<And>k. unat k < 4096 \<Longrightarrow> pmem t (page2pa q + k) = pmem s (PTE_ADDR (pte_of s (env_pgdir (envs s c)) sva) + k)"
proof -
  let ?d = "env_pgdir (envs s c)"
  have fr: "frame (PTE_ADDR (pte_of s ?d dva)) = q" "frame (PTE_ADDR (pte_of s ?d sva)) \<noteq> q"
    using d(2) p(2) by (simp_all add: frame_PTE_ADDR)
  obtain t where t: "umemcpy dva sva 4096 s = Ret () t"
      "copying s q (PTE_ADDR (pte_of s ?d dva)) (PTE_ADDR (pte_of s ?d sva)) {k. unat k < 4096} t"
    using umemcpy_page [OF rd q order.refl d(1) refl fr(1) p(1) refl fr(2)] by blast
  have tt: "t = s\<lparr>pmem := pmem t\<rparr>" "same_except s t {q}"
    and cp: "\<forall>k \<in> {k. unat k < 4096}. pmem t (PTE_ADDR (pte_of s ?d dva) + k) = pmem s (PTE_ADDR (pte_of s ?d sva) + k)"
    using t(2) unfolding copying_def by blast+
  note w = ready_data_write [OF rd q tt]
  have pg: "pages t = pages s" by (subst tt(1)) simp
  have "page2pa q = PTE_ADDR (pte_of s ?d dva)" using page2pa_frame [of "pte_of s ?d dva"] d(2) by simp
  then have cp': "pmem t (page2pa q + k) = pmem s (PTE_ADDR (pte_of s ?d sva) + k)" if "unat k < 4096" for k
    using cp that by simp
  have other: "pmem t a = pmem s a" if "frame a \<noteq> q" for a using tt(2) that by (simp add: same_except_def)
  show ?thesis by (rule that [OF t(1) w(1,2) pg w(4,5) other cp'])
qed

text \<open>One page: the child gets a new page, which the parent maps at \<open>UTEMP\<close> to fill it.\<close>

lemma dumb_fill:
  assumes rd: "ready s c (q # xs) role" and found: "found_env s c envid = Some e"
    and d: "d = env_pgdir (envs s c)" "d' = env_pgdir (envs s e)" "d \<noteq> d'"
    and va: "aligned 4096 va" "va < UTOP" "PGNUM va \<noteq> PGNUM UTEMP" "shared s d va"
    and room: "2 \<le> length xs" and refs: "\<forall>g \<in> set (q # xs). pp_ref (pages s g) = 0"
  obtains u v t ys r where "usys_page_alloc w envid va temp_perm s = Ret 0 u" "usys_page_map w envid va 0 UTEMP temp_perm u = Ret 0 v"
    "umemcpy UTEMP va 4096 v = Ret () t" "ready t c ys r" "same_run s t"
    "\<And>x va'. x \<in> spaces s \<Longrightarrow> va' < UTOP \<Longrightarrow> pte_of t x va' =
      (if x = d \<and> PGNUM va' = PGNUM UTEMP \<or> x = d' \<and> PGNUM va' = PGNUM va then temp_entry q else pte_of s x va')"
    "\<And>x va' a. x \<in> spaces s \<Longrightarrow> va' < UTOP \<Longrightarrow> pte_of s x va' AND PTE_P \<noteq> 0 \<Longrightarrow>
      pte_of t x va' = pte_of s x va' \<Longrightarrow> frame a = frame (pte_of s x va') \<Longrightarrow> frame a \<noteq> q \<and> pmem t a = pmem s a"
    "\<And>k. unat k < 4096 \<Longrightarrow> pmem t (page2pa q + k) = pmem s (PTE_ADDR (pte_of s d va) + k)"
    "\<And>x. x \<in> spaces s \<Longrightarrow> self_map s x \<Longrightarrow> self_map t x"
    "q < 65536" "length xs \<le> length ys + 2" "\<forall>g \<in> set ys. pp_ref (pages t g) = 0"
proof -
  have lc: "live s c" using rd by (auto simp: ready_def running_def)
  have ds: "d \<in> spaces s" "d' \<in> spaces s"
    using ready_space(1) [OF rd lc] ready_space(1) [OF rd found_live [OF found lc]] d by simp_all
  have q0: "pp_ref (pages s q) = 0" "unat (pp_ref (pages s q)) < 65534" using refs by simp_all
  have mem: "has_table s (env_pgdir (envs s e)) va \<or> xs \<noteq> []" using room by auto
  obtain u ys r where u: "usys_page_alloc w envid va temp_perm s = Ret 0 u" "ready u c ys r" "same_run s u"
    and pte: "\<And>x va'. x \<in> spaces s \<Longrightarrow> va' < UTOP \<Longrightarrow> pte_of u x va' =
      (if x = env_pgdir (envs s e) \<and> PGNUM va' = PGNUM va then page2pa q OR temp_perm OR PTE_P else pte_of s x va')"
    and data: "\<And>x va' a. x \<in> spaces s \<Longrightarrow> va' < UTOP \<Longrightarrow> pte_of s x va' AND PTE_P \<noteq> 0 \<Longrightarrow>
      frame a = frame (pte_of s x va') \<Longrightarrow> frame a \<noteq> q \<and> pmem u a = pmem s a"
    and self: "\<And>x. x \<in> spaces s \<Longrightarrow> self_map s x \<Longrightarrow> self_map u x" and q: "q < 65536"
    and ref: "pp_ref (pages s q) = 0 \<Longrightarrow> unat (pp_ref (pages u q)) \<le> 2"
    and len: "length xs \<le> Suc (length ys)" and fc: "free_counts s xs u ys"
    by (rule usys_page_alloc_view [where w = w, OF rd found va(2) dumb_perm(2,3) q0(2) mem]) (rule that; assumption)
  note pte = pte [folded d(2) temp_entry_def] and sm = same_run_facts [OF u(3)]
  have du: "d = env_pgdir (envs u c)" "d' = env_pgdir (envs u e)" using d sm(1) by simp_all
  have found_u: "found_env u c envid = Some e" using found sm(6) by simp
  have new: "pte_of u d' va = temp_entry q" using pte [OF ds(2) va(2)] by simp
  have fq: "frame (temp_entry q) = q" by (rule temp_entry_page(1) [OF q])
  have rq: "pp_ref (pages u q) \<noteq> - 1" using ref [OF q0(1)] by (auto simp: unat_max_u16)
  have "ys \<noteq> []" using room len by auto
  then have memu: "has_table u (env_pgdir (envs u c)) UTEMP \<or> ys \<noteq> []" by simp
  from usys_page_map_any [where w = w, OF u(2) found_u found_self va(1,2) temp_page(2,1) refl, folded du, OF _ dumb_perm(2,3)]
  obtain v zs r1 where v: "usys_page_map w envid va 0 UTEMP temp_perm u = Ret 0 v"
    "inserted u (spaces u) ys r d q UTEMP temp_perm v zs r1" "same_run u v" "ready v c zs r1"
    using new fq rq memu du by auto
  note i = insertedD [OF v(2)] and sv = same_run_facts [OF v(3)]
  have dv: "d = env_pgdir (envs v c)" using du sv(1) by simp
  have ptev: "pte_of v x va' = (if x = d \<and> PGNUM va' = PGNUM UTEMP \<or> x = d' \<and> PGNUM va' = PGNUM va then temp_entry q
      else pte_of s x va')" if "x \<in> spaces s" "va' < UTOP" for x va'
    using i(10) [of x va', folded temp_entry_def] pte [OF that] that sm(3) d(3) by (auto split: if_splits)
  have old: "pte_of v d va = pte_of s d va" using ptev [OF ds(1) va(2)] va(3) d(3) by simp
  have tmp: "pte_of v d UTEMP = temp_entry q" using ptev [OF ds(1) temp_page(1)] by simp
  have datav: "frame a \<noteq> q \<and> pmem v a = pmem s a"
    if x: "x \<in> spaces s" "va' < UTOP" "pte_of s x va' AND PTE_P \<noteq> 0" "pte_of v x va' = pte_of s x va'" "frame a = frame (pte_of s x va')" for x va' a
  proof -
    have n: "frame a \<noteq> q" "pmem u a = pmem s a" using data [OF x(1-3,5)] by simp_all
    have "\<not> (x = d' \<and> PGNUM va' = PGNUM va)" using ptev [OF x(1,2)] x(4,5) n(1) fq by (auto split: if_splits)
    then have e: "pte_of u x va' = pte_of s x va'" using pte [OF x(1,2)] by (auto split: if_splits)
    have "r (frame (pte_of u x va')) = Data"
      by (rule mapped_Data [OF u(2)]) (use x e sm(3) in simp_all)
    then show ?thesis using i(5) [of a] e x(5) n by simp
  qed
  have src: "open_page v d False va" using va old by (simp add: open_page_def shared_def)
  have dst: "open_page v d True UTEMP" using temp_page tmp by (simp add: open_page_def shared_def)
  have ft: "frame (pte_of v d UTEMP) = q" using tmp fq by simp
  have fs: "frame (pte_of v d va) \<noteq> q" using data [OF ds(1) va(2) _ refl] va(4) old by (auto simp: shared_def)
  obtain t where t: "umemcpy UTEMP va 4096 v = Ret () t" "ready t c zs r1" "same_run v t" "pages t = pages v"
    and ptet: "\<And>x va. x \<in> spaces v \<Longrightarrow> va < UTOP \<Longrightarrow> pte_of t x va = pte_of v x va"
    and selft: "\<And>x. x \<in> spaces v \<Longrightarrow> self_map v x \<Longrightarrow> self_map t x"
    and other: "\<And>a. frame a \<noteq> q \<Longrightarrow> pmem t a = pmem v a"
    and cp: "\<And>k. unat k < 4096 \<Longrightarrow> pmem t (page2pa q + k) = pmem v (PTE_ADDR (pte_of v d va) + k)"
    by (rule umemcpy_whole_page [OF v(4) i(3), folded dv, OF dst ft src fs]) (rule that; assumption)
  have sp: "spaces v = spaces s" using sv(3) sm(3) by (simp only:)
  have P: "pte_of t x va' = (if x = d \<and> PGNUM va' = PGNUM UTEMP \<or> x = d' \<and> PGNUM va' = PGNUM va then temp_entry q
      else pte_of s x va')" if "x \<in> spaces s" "va' < UTOP" for x va'
    using ptet [of x va'] ptev [OF that] that sp by simp
  have D: "frame a \<noteq> q \<and> pmem t a = pmem s a"
    if "x \<in> spaces s" "va' < UTOP" "pte_of s x va' AND PTE_P \<noteq> 0" "pte_of t x va' = pte_of s x va'" "frame a = frame (pte_of s x va')" for x va' a
  proof -
    have "pte_of v x va' = pte_of s x va'" using ptet [of x va'] that sp by simp
    from datav [OF that(1-3) this that(5)] show ?thesis using other [of a] by simp
  qed
  have C: "pmem t (page2pa q + k) = pmem s (PTE_ADDR (pte_of s d va) + k)" if "unat k < 4096" for k
  proof -
    let ?b = "PTE_ADDR (pte_of s d va) + k"
    have "frame ?b = frame (pte_of s d va)"
      using aligned_add_div [OF aligned_PTE_ADDR, of k "pte_of s d va"] that frame_PTE_ADDR [of "pte_of s d va"]
      by (simp add: frame_def)
    then have "pmem v ?b = pmem s ?b" using datav [OF ds(1) va(2) _ old] va(4) by (simp add: shared_def)
    then show ?thesis using cp [OF that] old by simp
  qed
  have S: "self_map t x" if "x \<in> spaces s" "self_map s x" for x
  proof -
    have "self_map v x" by (rule self_map_inserted [OF self [OF that] v(2) _ temp_page(1)]) (use that(1) sm(3) in simp)
    then show ?thesis using selft [of x] that(1) sp by simp
  qed
  have L: "length xs \<le> length zs + 2" using len i(9) by (auto split: if_splits)
  have "free_counts s xs v zs" by (rule free_counts_trans [OF fc i(13)])
  then have R: "\<forall>g \<in> set zs. pp_ref (pages t g) = 0" using refs t(4) by (auto simp: free_counts_def)
  show ?thesis
    by (rule that [OF u(1) v(1) t(1,2) same_run_trans [OF same_run_trans [OF u(3) v(3)] t(3)] P D C S q L R])
qed

text \<open>A page that no other address, of this or another address space, shares.\<close>

definition private_page :: "kstate \<Rightarrow> u32 \<Rightarrow> u32 \<Rightarrow> bool" where
  "private_page s d va \<longleftrightarrow> (\<forall>x va'. x \<in> spaces s \<longrightarrow> va' < UTOP \<longrightarrow> pte_of s x va' AND PTE_P \<noteq> 0 \<longrightarrow>
     frame (pte_of s x va') = frame (pte_of s d va) \<longrightarrow> x = d \<and> PGNUM va' = PGNUM va)"

lemma private_pageD:
  assumes "private_page s d va" "x \<in> spaces s" "va' < UTOP" "pte_of s x va' AND PTE_P \<noteq> 0"
    and "frame (pte_of s x va') = frame (pte_of s d va)"
  shows "x = d \<and> PGNUM va' = PGNUM va"
  by (rule assms(1) [unfolded private_page_def, rule_format, OF assms(2-5)])

text \<open>What one call does, as the address spaces read: the child has a page of its own with the bytes of
  the parent's, the parent has nothing at \<open>UTEMP\<close>, and the rest is as before.\<close>

definition page_duplicated :: "kstate \<Rightarrow> u32 \<Rightarrow> u32 \<Rightarrow> u32 \<Rightarrow> kstate \<Rightarrow> bool" where
  "page_duplicated s d d' va t \<longleftrightarrow>
     (\<forall>va'. PGNUM va' = PGNUM va \<longrightarrow> user_byte t d' va' = user_byte s d va' \<and> user_writable t d' va') \<and>
     private_page t d' va \<and> (\<forall>va'. PGNUM va' = PGNUM UTEMP \<longrightarrow> pte_of t d va' = 0) \<and>
     (\<forall>x va'. x \<in> spaces s \<longrightarrow> va' < UTOP \<longrightarrow> \<not> (x = d \<and> PGNUM va' = PGNUM UTEMP) \<longrightarrow>
        \<not> (x = d' \<and> PGNUM va' = PGNUM va) \<longrightarrow>
        pte_of t x va' = pte_of s x va' \<and> (self_map s x \<longrightarrow> user_byte t x va' = user_byte s x va'))"

lemma space_aligned: "ready s c xs role \<Longrightarrow> d \<in> spaces s \<Longrightarrow> aligned 4096 (d - KERNBASE)"
  using frames_okD(1) [OF mem_invD(4)] by (auto simp: ready_def)

lemma frame_page2pa_add: "q < 65536 \<Longrightarrow> unat k < 4096 \<Longrightarrow> frame (page2pa q + k) = q"
  using aligned_add_div [OF aligned_page2pa, of k q] by (simp add: frame_def unat_page2pa)

lemma dumb_page:
  assumes rd: "ready s c (q # xs) role" and found: "found_env s c envid = Some e"
    and d: "d = env_pgdir (envs s c)" "d' = env_pgdir (envs s e)" "d \<noteq> d'" and sd: "self_map s d'"
    and va: "aligned 4096 va" "va < UTOP" "PGNUM va \<noteq> PGNUM UTEMP" "shared s d va"
    and room: "2 \<le> length xs" and refs: "\<forall>g \<in> set (q # xs). pp_ref (pages s g) = 0"
  obtains t ys r where "dumb_duppage w envid va s = Ret () t" "ready t c ys r" "same_run s t"
    "page_duplicated s d d' va t" "\<And>x. x \<in> spaces s \<Longrightarrow> self_map s x \<Longrightarrow> self_map t x"
    "length xs \<le> length ys + 2" "\<forall>g \<in> set ys. pp_ref (pages t g) = 0"
proof -
  have lc: "live s c" "self_map s d" using rd d(1) by (auto simp: ready_def running_def)
  have ds: "d \<in> spaces s" "d' \<in> spaces s"
    using ready_space(1) [OF rd lc(1)] ready_space(1) [OF rd found_live [OF found lc(1)]] d by simp_all
  note al = space_aligned [OF rd]
  obtain u v z zs r1 where u: "usys_page_alloc w envid va temp_perm s = Ret 0 u" "usys_page_map w envid va 0 UTEMP temp_perm u = Ret 0 v"
    "umemcpy UTEMP va 4096 v = Ret () z" "ready z c zs r1" "same_run s z"
    and P: "\<And>x va'. x \<in> spaces s \<Longrightarrow> va' < UTOP \<Longrightarrow> pte_of z x va' =
      (if x = d \<and> PGNUM va' = PGNUM UTEMP \<or> x = d' \<and> PGNUM va' = PGNUM va then temp_entry q else pte_of s x va')"
    and D: "\<And>x va' a. x \<in> spaces s \<Longrightarrow> va' < UTOP \<Longrightarrow> pte_of s x va' AND PTE_P \<noteq> 0 \<Longrightarrow>
      pte_of z x va' = pte_of s x va' \<Longrightarrow> frame a = frame (pte_of s x va') \<Longrightarrow> frame a \<noteq> q \<and> pmem z a = pmem s a"
    and C: "\<And>k. unat k < 4096 \<Longrightarrow> pmem z (page2pa q + k) = pmem s (PTE_ADDR (pte_of s d va) + k)"
    and S: "\<And>x. x \<in> spaces s \<Longrightarrow> self_map s x \<Longrightarrow> self_map z x"
    and q: "q < 65536" and L: "length xs \<le> length zs + 2" and R: "\<forall>g \<in> set zs. pp_ref (pages z g) = 0"
    by (rule dumb_fill [where w = w, OF rd found d va room refs]) (rule that; assumption)
  note sm = same_run_facts [OF u(5)]
  have dz: "d = env_pgdir (envs z c)" using d(1) sm(1) by simp
  have tmp: "pte_of z d UTEMP = temp_entry q" using P [OF ds(1) temp_page(1)] by simp
  then have pz: "pte_of z (env_pgdir (envs z c)) UTEMP AND PTE_P \<noteq> 0" using dz by simp
  obtain t ys r where t: "usys_page_unmap w 0 UTEMP z = Ret 0 t" "ready t c ys r" "same_run z t"
    and pte: "\<And>x va'. x \<in> spaces z \<Longrightarrow> va' < UTOP \<Longrightarrow> pte_of t x va' =
      (if x = env_pgdir (envs z c) \<and> PGNUM va' = PGNUM UTEMP then 0 else pte_of z x va')"
    and data: "\<And>a. r1 (frame a) = Data \<Longrightarrow> pmem t a = pmem z a"
    and self: "\<And>x. x \<in> spaces z \<Longrightarrow> self_map z x \<Longrightarrow> self_map t x"
    and len: "length zs \<le> length ys" and fc: "free_counts z zs t ys"
    by (rule usys_page_unmap_step [where w = w, OF u(4) temp_page(2,1) pz]) (rule that; assumption)
  have call: "dumb_duppage w envid va s = Ret () t"
    unfolding dumb_duppage_def dumb_perm(1) or_panic_def
    using u(1-3) t(1) by (simp add: kbind_def kret_def)
  have E: "pte_of t x va' = (if x = d \<and> PGNUM va' = PGNUM UTEMP then 0 else if x = d' \<and> PGNUM va' = PGNUM va then temp_entry q
      else pte_of s x va')" if "x \<in> spaces s" "va' < UTOP" for x va'
  proof -
    have x: "x \<in> spaces z" using that(1) sm(3) by (simp only:)
    note a = pte [folded dz, OF x that(2)] and b = P [OF that]
    show ?thesis unfolding a b by (simp only: simp_thms split: if_split) blast
  qed
  have S': "self_map t x" if "x \<in> spaces s" "self_map s x" for x using self [of x] S [OF that] that(1) sm(3) by simp
  have rq: "r1 q = Data"
    using mapped_Data [OF u(4), of d UTEMP] ds(1) sm(3) temp_page(1) tmp temp_entry_page(1) [OF q] by simp
  have cp: "pmem t (page2pa q + k) = pmem s (PTE_ADDR (pte_of s d va) + k)" if "unat k < 4096" for k
    using data [of "page2pa q + k"] frame_page2pa_add [OF q that] rq C [OF that] by simp
  have child: "user_byte t d' va' = user_byte s d va'" "user_writable t d' va'" if g: "PGNUM va' = PGNUM va" for va'
  proof -
    have l: "va' < UTOP" by (rule same_page_UTOP [OF g va(2)])
    have e: "pte_of t d' va' = temp_entry q" using E [OF ds(2) l] g va(3) d(3) by simp
    have e': "pte_of s d va' = pte_of s d va" using g by (rule pte_page_cong)
    have sh: "shared s d va'" "shared t d' va'" using va(4) e e' by (simp_all add: shared_def)
    have k: "unat (PGOFF va') < 4096" by (simp add: unat_PGOFF)
    show "user_byte t d' va' = user_byte s d va'"
      using sh e cp [OF k] e' temp_entry_page(2) [OF q] k
      by (simp add: user_byte_eq [OF al [OF ds(1)] lc(2) l] user_byte_eq [OF al [OF ds(2)] S' [OF ds(2) sd] l] or_offset)
    show "user_writable t d' va'" using sh e by (simp add: user_writable_iff [OF al [OF ds(2)] S' [OF ds(2) sd] l])
  qed
  have gone: "pte_of t d va' = 0" if g: "PGNUM va' = PGNUM UTEMP" for va'
    using E [OF ds(1) same_page_UTOP [OF g temp_page(1)]] g by simp
  have kept: "pte_of t x va' = pte_of s x va' \<and> (self_map s x \<longrightarrow> user_byte t x va' = user_byte s x va')"
    if x: "x \<in> spaces s" "va' < UTOP" "\<not> (x = d \<and> PGNUM va' = PGNUM UTEMP)" "\<not> (x = d' \<and> PGNUM va' = PGNUM va)" for x va'
  proof -
    have e: "pte_of t x va' = pte_of s x va'" "pte_of z x va' = pte_of s x va'"
      using E [OF x(1,2)] P [OF x(1,2)] x(3,4) by (simp_all only: simp_thms if_False)
    have m: "pmem t a = pmem s a" if "pte_of s x va' AND PTE_P \<noteq> 0" "frame a = frame (pte_of s x va')" for a
    proof -
      have "r1 (frame a) = Data"
        using mapped_Data [OF u(4), of x va'] x(1,2) e(2) that sm(3) by simp
      then show ?thesis using data [of a] D [OF x(1,2) that(1) e(2) that(2)] by simp
    qed
    show ?thesis using e(1) user_byte_kept [OF rd x(1) al [OF x(1)] _ S' [OF x(1)] x(2) e(1) m] by blast
  qed
  have own: "private_page t d' va"
    unfolding private_page_def
  proof (intro allI impI, rule ccontr)
    fix x va'
    assume x: "x \<in> spaces t" "va' < UTOP" "pte_of t x va' AND PTE_P \<noteq> 0" "frame (pte_of t x va') = frame (pte_of t d' va)"
      "\<not> (x = d' \<and> PGNUM va' = PGNUM va)"
    have xs: "x \<in> spaces s" using x(1) same_run_facts(3) [OF t(3)] sm(3) by (simp only:)
    have "\<not> (x = d \<and> PGNUM va' = PGNUM UTEMP)" using x(3) gone [of va'] by auto
    with x(5) have e: "pte_of t x va' = pte_of s x va'" "pte_of z x va' = pte_of s x va'"
      using E [OF xs x(2)] P [OF xs x(2)] by (simp_all only: simp_thms if_False)
    have "frame (pte_of t d' va) = q" using E [OF ds(2) va(2)] va(3) d(3) temp_entry_page(1) [OF q] by simp
    then show False using D [OF xs x(2) _ e(2) refl] x(3,4) e(1) by simp
  qed
  have dup: "page_duplicated s d d' va t"
    unfolding page_duplicated_def using child own gone kept by blast
  have len': "length xs \<le> length ys + 2" using L len by simp
  have refs': "\<forall>g \<in> set ys. pp_ref (pages t g) = 0" using fc R by (auto simp: free_counts_def)
  show ?thesis by (rule that [OF call t(2) same_run_trans [OF u(5) t(3)] dup S' len' refs'])
qed

lemma page_duplicatedD:
  assumes "page_duplicated s d d' va t"
  shows "\<And>va'. PGNUM va' = PGNUM va \<Longrightarrow> user_byte t d' va' = user_byte s d va'"
    "\<And>va'. PGNUM va' = PGNUM va \<Longrightarrow> user_writable t d' va'"
    "private_page t d' va" "\<And>va'. PGNUM va' = PGNUM UTEMP \<Longrightarrow> pte_of t d va' = 0"
    "\<And>x va'. x \<in> spaces s \<Longrightarrow> self_map s x \<Longrightarrow> va' < UTOP \<Longrightarrow> \<not> (x = d \<and> PGNUM va' = PGNUM UTEMP) \<Longrightarrow>
        \<not> (x = d' \<and> PGNUM va' = PGNUM va) \<Longrightarrow> user_byte t x va' = user_byte s x va'"
    "\<And>x va'. x \<in> spaces s \<Longrightarrow> va' < UTOP \<Longrightarrow> \<not> (x = d \<and> PGNUM va' = PGNUM UTEMP) \<Longrightarrow>
        \<not> (x = d' \<and> PGNUM va' = PGNUM va) \<Longrightarrow> pte_of t x va' = pte_of s x va'"
  using assms unfolding page_duplicated_def by blast+

subsection \<open>All pages of the program\<close>

text \<open>The pages in \<open>A\<close> have been copied.\<close>

definition pages_duplicated :: "kstate \<Rightarrow> u32 \<Rightarrow> u32 \<Rightarrow> u32 set \<Rightarrow> kstate \<Rightarrow> bool" where
  "pages_duplicated s d d' A t \<longleftrightarrow>
     (\<forall>va va'. va \<in> A \<longrightarrow> PGNUM va' = PGNUM va \<longrightarrow>
        user_byte t d' va' = user_byte s d va' \<and> user_writable t d' va' \<and> private_page t d' va') \<and>
     (\<forall>x va'. x \<in> spaces s \<longrightarrow> va' < UTOP \<longrightarrow> \<not> (x = d \<and> PGNUM va' = PGNUM UTEMP) \<longrightarrow>
        \<not> (x = d' \<and> PGNUM va' \<in> PGNUM ` A) \<longrightarrow>
        pte_of t x va' = pte_of s x va' \<and> (self_map s x \<longrightarrow> user_byte t x va' = user_byte s x va'))"

lemma pages_duplicatedD:
  assumes "pages_duplicated s d d' A t"
  shows "\<And>va va'. va \<in> A \<Longrightarrow> PGNUM va' = PGNUM va \<Longrightarrow> user_byte t d' va' = user_byte s d va'"
    "\<And>va va'. va \<in> A \<Longrightarrow> PGNUM va' = PGNUM va \<Longrightarrow> user_writable t d' va'"
    "\<And>va va'. va \<in> A \<Longrightarrow> PGNUM va' = PGNUM va \<Longrightarrow> private_page t d' va'"
    "\<And>x va'. x \<in> spaces s \<Longrightarrow> self_map s x \<Longrightarrow> va' < UTOP \<Longrightarrow> \<not> (x = d \<and> PGNUM va' = PGNUM UTEMP) \<Longrightarrow>
        \<not> (x = d' \<and> PGNUM va' \<in> PGNUM ` A) \<Longrightarrow> user_byte t x va' = user_byte s x va'"
    "\<And>x va'. x \<in> spaces s \<Longrightarrow> va' < UTOP \<Longrightarrow> \<not> (x = d \<and> PGNUM va' = PGNUM UTEMP) \<Longrightarrow>
        \<not> (x = d' \<and> PGNUM va' \<in> PGNUM ` A) \<Longrightarrow> pte_of t x va' = pte_of s x va'"
  using assms unfolding pages_duplicated_def by blast+

lemma private_page_cong:
  assumes "private_page s d va" "PGNUM va' = PGNUM va"
  shows "private_page s d va'"
  using assms pte_page_cong [OF assms(2), of s d] unfolding private_page_def by simp

text \<open>A page that was private before the next one was copied still is.\<close>

lemma private_page_kept:
  assumes t: "private_page t d' va" and dup: "page_duplicated t d d' va1 u" and sp: "spaces u = spaces t"
    and new: "PGNUM va1 \<noteq> PGNUM va" and dd: "d \<noteq> d'" "d' \<in> spaces t" and va: "va < UTOP"
    and p: "pte_of u d' va AND PTE_P \<noteq> 0"
  shows "private_page u d' va"
  unfolding private_page_def
proof (intro allI impI)
  note D = page_duplicatedD [OF dup]
  fix x va'
  assume x: "x \<in> spaces u" "va' < UTOP" "pte_of u x va' AND PTE_P \<noteq> 0" "frame (pte_of u x va') = frame (pte_of u d' va)"
  have xt: "x \<in> spaces t" using x(1) sp by (simp only:)
  have e: "pte_of u d' va = pte_of t d' va" by (rule D(6) [OF dd(2) va]) (use new dd(1) in auto)
  have a: "\<not> (x = d \<and> PGNUM va' = PGNUM UTEMP)" using D(4) [of va'] x(3) by auto
  show "x = d' \<and> PGNUM va' = PGNUM va"
  proof (cases "x = d' \<and> PGNUM va' = PGNUM va1")
    case True
    have "pte_of u d' va' = pte_of u d' va1" by (rule pte_page_cong) (use True in simp)
    then have "frame (pte_of u d' va) = frame (pte_of u d' va1)" using True x(4) by simp
    from private_pageD [OF D(3) _ va p this] have "PGNUM va = PGNUM va1" using dd(2) sp by blast
    then show ?thesis using new by simp
  next
    case False
    have "pte_of u x va' = pte_of t x va'" by (rule D(6) [OF xt x(2) a False])
    with private_pageD [OF t xt x(2)] x(3,4) e show ?thesis by simp
  qed
qed

text \<open>The parent \<open>c\<close>, its child \<open>e\<close> and the pages to be copied.\<close>

definition dumb_ok :: "kstate \<Rightarrow> nat \<Rightarrow> nat \<Rightarrow> u32 \<Rightarrow> nat list \<Rightarrow> (nat \<Rightarrow> role) \<Rightarrow> u32 set \<Rightarrow> bool" where
  "dumb_ok s c e envid xs role A \<longleftrightarrow> ready s c xs role \<and> found_env s c envid = Some e \<and> e \<noteq> c \<and>
     env_pgdir (envs s c) \<noteq> env_pgdir (envs s e) \<and> self_map s (env_pgdir (envs s e)) \<and>
     (\<forall>va \<in> A. aligned 4096 va \<and> va < UTOP \<and> PGNUM va \<noteq> PGNUM UTEMP \<and> shared s (env_pgdir (envs s c)) va) \<and>
     (\<forall>g \<in> set xs. pp_ref (pages s g) = 0)"

definition dumb_inv :: "kstate \<Rightarrow> nat \<Rightarrow> nat \<Rightarrow> nat \<Rightarrow> u32 list \<Rightarrow> kstate \<Rightarrow> bool" where
  "dumb_inv s c e n us t \<longleftrightarrow> (\<exists>ys r. ready t c ys r \<and> same_run s t \<and> n \<le> length ys + 3 * length us \<and>
     (\<forall>g \<in> set ys. pp_ref (pages t g) = 0) \<and> (\<forall>x \<in> spaces s. self_map s x \<longrightarrow> self_map t x) \<and>
     pages_duplicated s (env_pgdir (envs s c)) (env_pgdir (envs s e)) (set us) t)"

lemma dumb_inv_start: "dumb_ok s c e envid xs role A \<Longrightarrow> dumb_inv s c e (length xs) [] s"
  unfolding dumb_ok_def dumb_inv_def by (intro exI [of _ xs] exI [of _ role]) (simp add: same_run_refl pages_duplicated_def)

lemma pages_duplicated_step:
  assumes t: "pages_duplicated s d d' A t" and dup: "page_duplicated t d d' va u"
    and sp: "spaces t = spaces s" "spaces u = spaces t" and al: "aligned 4096 (d' - KERNBASE)"
    and sm: "\<And>x. x \<in> spaces s \<Longrightarrow> self_map s x \<Longrightarrow> self_map t x" "self_map t d'" "self_map u d'"
    and d: "d \<in> spaces s" "d' \<in> spaces s" "d \<noteq> d'" "self_map s d"
    and A: "\<forall>va \<in> A. va < UTOP" and va: "va < UTOP" "PGNUM va \<noteq> PGNUM UTEMP"
  shows "pages_duplicated s d d' (insert va A) u"
proof -
  note T = pages_duplicatedD [OF t] and D = page_duplicatedD [OF dup]
  have copied: "user_byte u d' va' = user_byte s d va' \<and> user_writable u d' va' \<and> private_page u d' va'"
    if "va0 \<in> insert va A" "PGNUM va' = PGNUM va0" for va0 va'
  proof (cases "PGNUM va' = PGNUM va")
    case True
    have l: "va' < UTOP" by (rule same_page_UTOP [OF True va(1)])
    have "user_byte t d va' = user_byte s d va'" by (rule T(4) [OF d(1,4) l]) (use True va(2) d(3) in auto)
    then show ?thesis using D(1,2) True private_page_cong [OF D(3) True] by simp
  next
    case False
    have a: "va0 \<in> A" using that False by auto
    have l: "va' < UTOP" by (rule same_page_UTOP [OF that(2)]) (use A a in blast)
    have dt: "d' \<in> spaces t" using d(2) sp(1) by (simp only:)
    have b: "user_byte u d' va' = user_byte t d' va'" by (rule D(5) [OF dt sm(2) l]) (use False d(3) in auto)
    have p: "pte_of u d' va' = pte_of t d' va'" by (rule D(6) [OF dt l]) (use False d(3) in auto)
    have w: "user_writable u d' va'"
      using T(2) [OF a that(2)] p by (simp add: user_writable_iff [OF al sm(2) l] user_writable_iff [OF al sm(3) l] shared_def)
    then have "pte_of u d' va' AND PTE_P \<noteq> 0" by (simp add: user_writable_iff [OF al sm(3) l] shared_def)
    from private_page_kept [OF T(3) [OF a that(2)] dup sp(2) _ d(3) dt l this] False
    show ?thesis using b T(1) [OF a that(2)] w by simp
  qed
  have kept: "pte_of u x va' = pte_of s x va' \<and> (self_map s x \<longrightarrow> user_byte u x va' = user_byte s x va')"
    if x: "x \<in> spaces s" "va' < UTOP" "\<not> (x = d \<and> PGNUM va' = PGNUM UTEMP)" "\<not> (x = d' \<and> PGNUM va' \<in> PGNUM ` insert va A)" for x va'
  proof -
    have n: "\<not> (x = d' \<and> PGNUM va' \<in> PGNUM ` A)" "\<not> (x = d' \<and> PGNUM va' = PGNUM va)" using x(4) by auto
    have xt: "x \<in> spaces t" using x(1) sp(1) by (simp only:)
    show ?thesis
      using T(5) [OF x(1-3) n(1)] T(4) [OF x(1) _ x(2,3) n(1)] D(6) [OF xt x(2,3) n(2)] D(5) [OF xt sm(1) [OF x(1)] x(2,3) n(2)]
      by simp
  qed
  show ?thesis unfolding pages_duplicated_def using copied kept by blast
qed

lemma dumb_round:
  assumes ok: "dumb_ok s c e envid xs role A" and inv: "dumb_inv s c e (length xs) us t"
    and va: "va \<in> A" "set us \<subseteq> A" and room: "3 * Suc (length us) \<le> length xs"
  shows "\<exists>u. dumb_duppage w envid va t = Ret () u \<and> dumb_inv s c e (length xs) (us @ [va]) u"
proof -
  let ?d = "env_pgdir (envs s c)" and ?d' = "env_pgdir (envs s e)"
  have k: "ready s c xs role" "found_env s c envid = Some e" "?d \<noteq> ?d'" "self_map s ?d'"
    and A: "\<forall>va \<in> A. aligned 4096 va \<and> va < UTOP \<and> PGNUM va \<noteq> PGNUM UTEMP \<and> shared s ?d va"
    using ok by (auto simp: dumb_ok_def)
  obtain ys r where t: "ready t c ys r" "same_run s t" "length xs \<le> length ys + 3 * length us" "\<forall>g \<in> set ys. pp_ref (pages t g) = 0"
    and sm: "\<forall>x \<in> spaces s. self_map s x \<longrightarrow> self_map t x" and dup: "pages_duplicated s ?d ?d' (set us) t"
    using inv unfolding dumb_inv_def by blast
  have "3 \<le> length ys" using room t(3) by simp
  then obtain q zs where q: "ys = q # zs" "2 \<le> length zs" by (cases ys) auto
  have lc: "live s c" "self_map s ?d" using k(1) by (auto simp: ready_def running_def)
  have ds: "?d \<in> spaces s" "?d' \<in> spaces s"
    using ready_space(1) [OF k(1) lc(1)] ready_space(1) [OF k(1) found_live [OF k(2) lc(1)]] by simp_all
  note st = same_run_facts [OF t(2)]
  have dt: "?d = env_pgdir (envs t c)" "?d' = env_pgdir (envs t e)" using st(1) by simp_all
  have found: "found_env t c envid = Some e" using k(2) st(6) by simp
  have a: "aligned 4096 va" "va < UTOP" "PGNUM va \<noteq> PGNUM UTEMP" "shared s ?d va" using A va(1) by blast+
  have sh: "shared t ?d va"
    using pages_duplicatedD(5) [OF dup ds(1) a(2)] a(3,4) k(3) by (simp add: shared_def)
  have smt: "self_map t ?d'" using sm ds(2) k(4) by blast
  obtain u ws r' where u: "dumb_duppage w envid va t = Ret () u" "ready u c ws r'" "same_run t u"
    and pd: "page_duplicated t ?d ?d' va u" and su: "\<And>x. x \<in> spaces t \<Longrightarrow> self_map t x \<Longrightarrow> self_map u x"
    and len: "length zs \<le> length ws + 2" and refs: "\<forall>g \<in> set ws. pp_ref (pages u g) = 0"
    by (rule dumb_page [where w = w, OF t(1) [unfolded q(1)] found dt k(3) smt a(1-3) sh q(2) t(4) [unfolded q(1)]]) (rule that; assumption)
  have smu: "self_map u x" if "x \<in> spaces s" "self_map s x" for x
    using su [of x] sm that st(3) by blast
  have "pages_duplicated s ?d ?d' (insert va (set us)) u"
    by (rule pages_duplicated_step [OF dup pd st(3) same_run_facts(3) [OF u(3)] space_aligned [OF k(1) ds(2)] _ smt smu [OF ds(2) k(4)] ds k(3) lc(2) _ a(2,3)])
      (use sm A va(2) in blast)+
  then have "dumb_inv s c e (length xs) (us @ [va]) u"
    unfolding dumb_inv_def using u(2) same_run_trans [OF t(2) u(3)] t(3) len refs smu q
    by (intro exI [of _ ws] exI [of _ r']) simp
  with u(1) show ?thesis by blast
qed

lemma image_pages_run:
  assumes ok: "dumb_ok s c e envid xs role A" and A: "set vas \<subseteq> A" and room: "3 * length vas \<le> length xs"
  shows "\<exists>t. kfor vas (dumb_duppage w envid) s = Ret () t \<and> dumb_inv s c e (length xs) vas t"
proof (rule kfor_run [where I = "dumb_inv s c e (length xs)"])
  show "dumb_inv s c e (length xs) [] s" by (rule dumb_inv_start [OF ok])
next
  fix us va vs t assume v: "vas = us @ va # vs" and inv: "dumb_inv s c e (length xs) us t"
  show "\<exists>u. dumb_duppage w envid va t = Ret () u \<and> dumb_inv s c e (length xs) (us @ [va]) u"
    by (rule dumb_round [OF ok inv]) (use v A room in auto)
qed

text \<open>The pages that \<open>dumbfork\<close> copies: those of the program and that of the stack.\<close>

definition dumb_pages :: "u32 \<Rightarrow> u32 \<Rightarrow> u32 list" where
  "dumb_pages image_end p = image_pages image_end @ [ROUNDDOWN p PGSIZE]"

lemma dumb_copy_all:
  "dumb_copy w envid image_end p = kbind (kfor (dumb_pages image_end p) (dumb_duppage w envid)) (\<lambda>_.
     kbind (or_panic ''sys_env_set_status: %e'' (usys_env_set_status w envid ENV_RUNNABLE)) (\<lambda>_. kret envid))"
proof -
  have "kbind (kret ()) f = f ()" for f :: "unit \<Rightarrow> u32 kernel" by (simp add: fun_eq_iff)
  then show ?thesis by (simp add: dumb_copy_def dumb_pages_def kfor_append kbind_assoc)
qed

lemma private_page_upd_env:
  assumes "spaces (upd_env e g s) = spaces s"
  shows "private_page (upd_env e g s) d va = private_page s d va"
proof -
  have pm: "pmem (upd_env e g s) = pmem s" by simp
  show ?thesis unfolding private_page_def assms vspace_cong [OF pm] ..
qed

text \<open>C6. Fork by copying: what \<open>dumbfork\<close> does with the child it has made returns the identifier of the
  child, which is then runnable and has, for every page of the program and the page of the stack, a
  writable page with the same bytes that no other address of any environment shares; at every other
  address of every environment, the temporary page of the parent excepted, the same bytes are read as
  before; memory stays isolated.  Three free pages for each page that is copied are enough.\<close>

theorem dumb_copy_duplicates:
  assumes "dumb_ok s c e envid xs role (set (dumb_pages image_end p))" "3 * length (dumb_pages image_end p) \<le> length xs"
  defines "parent \<equiv> env_pgdir (envs s c)" and "child \<equiv> env_pgdir (envs s e)"
  shows "\<exists>v. dumb_copy w envid image_end p s = Ret envid v \<and> isolated v \<and>
    (\<forall>va \<in> set (dumb_pages image_end p). \<forall>va'. PGNUM va' = PGNUM va \<longrightarrow>
       user_byte v child va' = user_byte s parent va' \<and> user_writable v child va' \<and> private_page v child va') \<and>
    (\<forall>x va'. x \<in> spaces s \<and> self_map s x \<and> va' < UTOP \<and> \<not> (x = parent \<and> PGNUM va' = PGNUM UTEMP) \<and>
       \<not> (x = child \<and> PGNUM va' \<in> PGNUM ` set (dumb_pages image_end p)) \<longrightarrow> user_byte v x va' = user_byte s x va') \<and>
    envs v = (envs s)(e := (envs s e)\<lparr>env_status := ENV_RUNNABLE\<rparr>)"
proof -
  let ?P = "dumb_pages image_end p" and ?h = "\<lambda>env. env\<lparr>env_status := ENV_RUNNABLE\<rparr>"
  have k: "found_env s c envid = Some e" "e \<noteq> c" "ready s c xs role" using assms(1) by (auto simp: dumb_ok_def)
  obtain t where t: "kfor ?P (dumb_duppage w envid) s = Ret () t" "dumb_inv s c e (length xs) ?P t"
    using image_pages_run [OF assms(1) order.refl assms(2)] by blast
  obtain ys r where r: "ready t c ys r" "same_run s t" and dup: "pages_duplicated s parent child (set ?P) t"
    using t(2) unfolding dumb_inv_def parent_def child_def by blast
  note sm = same_run_facts [OF r(2)] and D = pages_duplicatedD [OF dup]
  let ?v = "upd_env e ?h t"
  have found: "found_env t c envid = Some e" using k(1) sm(6) by simp
  have run: "running t c" "isolated t" using r(1) by (auto simp: ready_def isolated_def)
  have le: "live t e" using found_live [OF found] run(1) by (simp add: running_def)
  have call: "dumb_copy w envid image_end p s = Ret envid ?v"
    using t(1) usys_env_set(2) [OF run(1) found k(2), of w]
    by (simp add: dumb_copy_all or_panic_def kbind_def kret_def)
  have iso: "isolated ?v" using le by (intro isolated_upd_env run(2)) (simp_all add: live_def)
  have us: "spaces ?v = spaces t" using le by (auto simp: user_spaces_def live_def)
  have own: "private_page ?v child va = private_page t child va" for va by (rule private_page_upd_env [OF us])
  have envs: "envs ?v = (envs s)(e := (envs s e)\<lparr>env_status := ENV_RUNNABLE\<rparr>)" using sm(1) by (simp add: fun_eq_iff)
  show ?thesis
  proof (intro exI [of _ ?v] conjI call iso envs)
    show "\<forall>va \<in> set ?P. \<forall>va'. PGNUM va' = PGNUM va \<longrightarrow>
       user_byte ?v child va' = user_byte s parent va' \<and> user_writable ?v child va' \<and> private_page ?v child va'"
      using D(1-3) own by simp
    show "\<forall>x va'. x \<in> spaces s \<and> self_map s x \<and> va' < UTOP \<and> \<not> (x = parent \<and> PGNUM va' = PGNUM UTEMP) \<and>
       \<not> (x = child \<and> PGNUM va' \<in> PGNUM ` set ?P) \<longrightarrow> user_byte ?v x va' = user_byte s x va'"
      using D(4) by simp
  qed
qed

text \<open>The machine of the other theorems with more free pages.\<close>

definition roomy_machine :: kstate where
  "roomy_machine = (paged_machine 0x7007)\<lparr>page_free_list := Some 17,
     pages := (\<lambda>i. \<lparr>pp_link = (if 11 < i \<and> i \<le> 17 then Some (i - 1) else None), pp_ref = (if i = 7 then 1 else 0)\<rparr>)\<rparr>"

abbreviation (input) roomy_list :: "nat list" where "roomy_list \<equiv> [17, 16, 15, 14, 13, 12, 11]"

lemma roomy_machine_fields [simp]:
  "pmem roomy_machine = pmem (paged_machine 0x7007)" "npages roomy_machine = 64" "kern_pgdir roomy_machine = 0xF0009000"
  "envs roomy_machine = envs (paged_machine 0x7007)" "env_free_list roomy_machine = Some 1"
  "cr3 roomy_machine = (\<lambda>_. 0x5000)" "thiscpu roomy_machine = 0" "curenv roomy_machine = Some 0"
  "pp_ref (pages roomy_machine i) = (if i = 7 then 1 else 0)"
  by (simp_all add: roomy_machine_def curenv_def) (simp_all add: paged_machine_def set_curenv_def small_machine_def)

lemma roomy_machine_ready: "ready roomy_machine 0 roomy_list machine_role"
proof -
  let ?p = "paged_machine 0x7007"
  have r: "ready ?p 0 [4, 3, 2, 1] machine_role" by (rule paged_machine_ready) simp
  have pm: "pmem roomy_machine = pmem ?p" by (rule roomy_machine_fields)
  have sp: "spaces roomy_machine = spaces ?p" by (simp add: user_spaces_def live_def)
  have "mem_inv roomy_machine (spaces ?p) roomy_list machine_role"
  proof (rule mem_inv_cong)
    show "mem_inv ?p (spaces ?p) [4, 3, 2, 1] machine_role" using r by (simp add: ready_def)
    show "free_list roomy_machine roomy_list" by (simp add: free_list_def roomy_machine_def)
    show "machine_role f = Free" if "f \<in> set roomy_list" for f using that by (auto simp: machine_role_def)
    show "pp_ref (pages ?p f) \<le> pp_ref (pages roomy_machine f)" if "machine_role f = Data" for f
      using that by (simp add: machine_role_def split: if_splits)
  qed (simp_all add: mem_ok_def vspace_cong [OF pm])
  moreover have "kernel_clean roomy_machine" "running roomy_machine 0"
    using r by (simp_all add: ready_def kernel_clean_def running_def live_def self_map_def has_table_def user_spaces_def vspace_cong [OF pm])
  ultimately show ?thesis unfolding sp [symmetric] by (simp add: ready_def)
qed

lemma dumb_copy_duplicates_witness:
  "\<exists>t v. usys_exofork (\<lambda>_. None) roomy_machine = Ret (next_env_id 0 1) t \<and>
     dumb_copy (\<lambda>_. None) (next_env_id 0 1) 0x800100 0x800F00 t = Ret (next_env_id 0 1) v \<and> isolated v \<and>
     user_byte v 0xF0011000 0x800010 = Some 0x20 \<and> user_writable v 0xF0011000 0x800010 \<and>
     user_byte v sample_pgdir 0x800010 = Some 0x20 \<and> env_status (envs v 1) = ENV_RUNNABLE"
proof -
  let ?s = "roomy_machine" and ?id = "next_env_id 0 1" and ?n = "0xF0011000 :: u32"
  have rd: "ready ?s 0 (17 # [16, 15, 14, 13, 12, 11]) machine_role" by (rule roomy_machine_ready)
  have h: "env_free_list ?s = Some 1" "1 < NENV" "env_status (envs ?s 1) = ENV_FREE" by simp_all
  have e: "env_pgdir (envs ?s 0) = sample_pgdir" "page2pa 17 + KERNBASE = ?n" "env_id (envs ?s 1) = 0"
    by (simp_all add: page2pa_def layout)
  obtain t where t: "usys_exofork (\<lambda>_. None) ?s = Ret ?id t" "new_space ?s t 17"
    "ready t 0 [16, 15, 14, 13, 12, 11] (machine_role(17 := Directory ?n))" "envs t = (envs ?s)(1 := child_env ?s 0 1 17)"
    "pages t = (pages ?s)(17 := (pages ?s 17)\<lparr>pp_ref := pp_ref (pages ?s 17) + 1\<rparr>)"
    using exofork_run [where w = "\<lambda>_. None", OF rd h] unfolding e by metis
  note n = new_spaceD [OF t(2), unfolded e(2)]
  have par: "sample_pgdir \<in> spaces ?s" "self_map ?s sample_pgdir"
    using rd by (auto simp: ready_def running_def user_spaces_def live_def)
  have pgs: "set (dumb_pages 0x800100 0x800F00) = {0x800000}" "length (dumb_pages 0x800100 0x800F00) = 2"
    by (simp_all add: dumb_pages_def image_pages_def ROUNDDOWN_def layout)
  have found: "found_env t 0 ?id = Some 1"
    using next_env_id_facts [OF h(2), of 0] t(4) e(3) by (auto simp: found_env_def)
  have dirs: "env_pgdir (envs t 0) = sample_pgdir" "env_pgdir (envs t 1) = ?n" using t(4) e(1,2) by simp_all
  have pm: "pmem ?s = pmem (paged_machine 0x7007)" by simp
  have u: "0x800000 < UTOP" "0x800010 < UTOP" by (simp_all add: layout)
  have "pte_of ?s sample_pgdir 0x800000 = 0x7007"
    using paged_machine_vm(2) [of "0x800000" "0x7007"] by (simp add: vspace_cong [OF pm] PDX_def PTX_def layout)
  then have sh: "shared t sample_pgdir 0x800000" using n(7) [OF par(1) u(1)] by (simp add: shared_def layout)
  have ok: "dumb_ok t 0 1 ?id [16, 15, 14, 13, 12, 11] (machine_role(17 := Directory ?n)) (set (dumb_pages 0x800100 0x800F00))"
    unfolding dumb_ok_def pgs dirs using t(3,5) found n(3) sh u(1) by (simp add: aligned_def PGNUM_def layout)
  have b0: "user_byte ?s sample_pgdir 0x800010 = user_byte (paged_machine 0x7007) sample_pgdir 0x800010"
    by (simp add: user_byte_def translate_def in_space_def access_ok_def Let_def)
  have b: "user_byte t sample_pgdir 0x800010 = Some 0x20"
    using new_space_bytes(2) [OF rd t(2) par u(2)] b0 paged_machine_byte [of "0x7007"] by simp
  have g: "PGNUM 0x800010 = PGNUM 0x800000" by (simp add: PGNUM_def)
  have kept: "sample_pgdir \<in> spaces t \<and> self_map t sample_pgdir"
    using n(1) par new_space_bytes(1) [OF rd t(2) par u(2)] by blast
  have len: "3 * 2 \<le> length [16, 15, 14, 13, 12, 11 :: nat]" by simp
  from dumb_copy_duplicates [where w = "\<lambda>_. None", OF ok, unfolded dirs pgs, OF len]
  obtain v where v: "dumb_copy (\<lambda>_. None) ?id 0x800100 0x800F00 t = Ret ?id v" "isolated v"
    and c: "\<forall>va \<in> {0x800000}. \<forall>va'. PGNUM va' = PGNUM va \<longrightarrow>
       user_byte v ?n va' = user_byte t sample_pgdir va' \<and> user_writable v ?n va' \<and> private_page v ?n va'"
    and o: "\<forall>x va'. x \<in> spaces t \<and> self_map t x \<and> va' < UTOP \<and> \<not> (x = sample_pgdir \<and> PGNUM va' = PGNUM UTEMP) \<and>
       \<not> (x = ?n \<and> PGNUM va' \<in> PGNUM ` {0x800000}) \<longrightarrow> user_byte v x va' = user_byte t x va'"
    and envs: "envs v = (envs t)(1 := (envs t 1)\<lparr>env_status := ENV_RUNNABLE\<rparr>)"
    by (elim exE conjE) (rule that)
  have "user_byte v sample_pgdir 0x800010 = user_byte t sample_pgdir 0x800010"
    by (rule o [rule_format]) (use kept u(2) in \<open>simp add: PGNUM_def layout\<close>)
  with t(1) v c [rule_format, of "0x800000" "0x800010"] b g envs show ?thesis
    by (intro exI [of _ t] exI [of _ v]) simp
qed

end
