(* ===== verification/Boot.thy ===== *)
theory Boot
  imports Mmu
begin

text \<open>
  The boot loader, boot/main.c: it reads the kernel image from the first disk through the ports of
  the disk controller and jumps to its entry point.  The controller answers as one that
  reads sectors by their number: after the command a string of double words is the contents of
  the sector.  The contents of the disk and the successive answers of the status port are
  fields of the state that no operation changes.
\<close>

subsection \<open>The machine at boot\<close>

record boot =
  bmem :: memory
  disk :: "nat \<Rightarrow> u8"
  status :: "nat \<Rightarrow> u8"
  status_time :: nat
  disk_regs :: "u16 \<Rightarrow> u8"
  data_pos :: nat \<comment> \<open>where on the disk the next double word comes from\<close>
  port_words :: "(u16 \<times> u16) list"

definition SECTSIZE :: u32 where "SECTSIZE = 512"
definition ELFHDR :: u32 where "ELFHDR = 0x10000"

text \<open>The sector number in the registers, 28 bits of it.\<close>

definition sector_number :: "(u16 \<Rightarrow> u8) \<Rightarrow> nat" where
  "sector_number r = unat (r 0x1F3) + 256 * unat (r 0x1F4) + 65536 * unat (r 0x1F5) + 16777216 * (unat (r 0x1F6) mod 16)"

definition disk_inb :: "boot \<Rightarrow> u8 \<times> boot" where
  "disk_inb b = (status b (status_time b), b\<lparr>status_time := status_time b + 1\<rparr>)"

definition disk_outb :: "u16 \<Rightarrow> u8 \<Rightarrow> boot \<Rightarrow> boot" where
  "disk_outb port v b =
     (let b = b\<lparr>disk_regs := (disk_regs b)(port := v)\<rparr>
      in if port = 0x1F7 \<and> v = 0x20 then b\<lparr>data_pos := 512 * sector_number (disk_regs b)\<rparr> else b)"

definition disk_insl :: "u32 \<Rightarrow> nat \<Rightarrow> boot \<Rightarrow> boot" where
  "disk_insl dst n b =
     b\<lparr>bmem := (\<lambda>a. if unat (a - dst) < 4 * n then disk b (data_pos b + unat (a - dst)) else bmem b a),
       data_pos := data_pos b + 4 * n\<rparr>"

definition boot_outw :: "u16 \<Rightarrow> u16 \<Rightarrow> boot \<Rightarrow> boot" where
  "boot_outw port v b = b\<lparr>port_words := (port, v) # port_words b\<rparr>"

subsection \<open>The loader\<close>

text \<open>A loop that does not end is \<open>None\<close>.\<close>

partial_function (option) waitdisk :: "boot \<Rightarrow> boot option" where
  "waitdisk b = (case disk_inb b of (v, b) \<Rightarrow> if v AND 0xC0 \<noteq> 0x40 then waitdisk b else Some b)"

definition readsect :: "u32 \<Rightarrow> u32 \<Rightarrow> boot \<Rightarrow> boot option" where
  "readsect dst offset b =
     Option.bind (waitdisk b) (\<lambda>b.
       let b = disk_outb 0x1F2 1 b;
           b = disk_outb 0x1F3 (ucast offset) b;
           b = disk_outb 0x1F4 (ucast (drop_bit 8 offset)) b;
           b = disk_outb 0x1F5 (ucast (drop_bit 16 offset)) b;
           b = disk_outb 0x1F6 (ucast (drop_bit 24 offset OR 0xE0)) b;
           b = disk_outb 0x1F7 0x20 b
       in Option.bind (waitdisk b) (\<lambda>b. Some (disk_insl dst (unat (SECTSIZE div 4)) b)))"

partial_function (option) readseg_loop :: "u32 \<Rightarrow> u32 \<Rightarrow> u32 \<Rightarrow> boot \<Rightarrow> boot option" where
  "readseg_loop pa end_pa offset b =
     (if pa < end_pa
      then Option.bind (readsect pa offset b) (readseg_loop (pa + SECTSIZE) end_pa (offset + 1))
      else Some b)"

definition readseg :: "u32 \<Rightarrow> u32 \<Rightarrow> u32 \<Rightarrow> boot \<Rightarrow> boot option" where
  "readseg pa count offset b =
     (let end_pa = pa + count;
          pa = pa AND NOT (SECTSIZE - 1);
          offset = offset div SECTSIZE + 1
      in readseg_loop pa end_pa offset b)"

text \<open>The program headers are read from memory one after the other.\<close>

partial_function (option) load_segments :: "u32 \<Rightarrow> u32 \<Rightarrow> boot \<Rightarrow> boot option" where
  "load_segments ph eph b =
     (if ph < eph
      then Option.bind (readseg (load32 (bmem b) (ph + 12)) (load32 (bmem b) (ph + 20)) (load32 (bmem b) (ph + 4)) b)
        (load_segments (ph + sizeof_Proghdr) eph)
      else Some b)"

definition load16 :: "memory \<Rightarrow> u32 \<Rightarrow> u16" where
  "load16 m a = ucast (m a) OR push_bit 8 (ucast (m (a + 1)))"

datatype boot_end =
    Enter u32 \<comment> \<open>the jump to the entry point\<close>
  | Bad_image

definition bootmain :: "boot \<Rightarrow> (boot_end \<times> boot) option" where
  "bootmain b =
     Option.bind (readseg ELFHDR (SECTSIZE * 8) 0 b) (\<lambda>b.
     if load32 (bmem b) ELFHDR \<noteq> ELF_MAGIC then
       Some (Bad_image, boot_outw 0x8A00 0x8E00 (boot_outw 0x8A00 0x8A00 b))
     else
       let ph = ELFHDR + load32 (bmem b) (ELFHDR + 28);
           eph = ph + sizeof_Proghdr * ucast (load16 (bmem b) (ELFHDR + 44))
       in Option.bind (load_segments ph eph b) (\<lambda>b.
          Some (Enter (load32 (bmem b) (ELFHDR + 24)), b)))"

subsection \<open>Reading a sector\<close>

text \<open>The drive is ready again some time after any moment.\<close>

definition gets_ready :: "(nat \<Rightarrow> u8) \<Rightarrow> bool" where
  "gets_ready st \<longleftrightarrow> (\<forall>t. \<exists>k. st (t + k) AND 0xC0 = 0x40)"

lemma waitdisk_Some:
  assumes "status b (status_time b + k) AND 0xC0 = 0x40"
  shows "\<exists>t. waitdisk b = Some (b\<lparr>status_time := t\<rparr>)"
  using assms
proof (induction k arbitrary: b)
  case 0
  then show ?case by (subst waitdisk.simps) (auto simp: disk_inb_def)
next
  case (Suc k)
  let ?b = "b\<lparr>status_time := status_time b + 1\<rparr>"
  have "\<exists>t. waitdisk ?b = Some (?b\<lparr>status_time := t\<rparr>)" using Suc.IH [of ?b] Suc.prems by simp
  then show ?case by (subst waitdisk.simps) (auto simp: disk_inb_def)
qed

lemma waitdisk_ready: "gets_ready (status b) \<Longrightarrow> \<exists>t. waitdisk b = Some (b\<lparr>status_time := t\<rparr>)"
  unfolding gets_ready_def using waitdisk_Some by blast

lemma bytes_sum: "256 * a + r0 = N \<Longrightarrow> 256 * b + r1 = a \<Longrightarrow> 256 * c + r2 = b \<Longrightarrow>
    r0 + 256 * r1 + 65536 * r2 + 16777216 * c = (N :: nat)"
  by linarith

text \<open>The four bytes of a sector number below \<open>2 ^ 28\<close> survive the registers.\<close>

lemma sector_number_bytes:
  assumes "unat n < 2 ^ 28"
  shows "unat (ucast n :: u8) + 256 * unat (ucast (drop_bit 8 n) :: u8) + 65536 * unat (ucast (drop_bit 16 n) :: u8) +
    16777216 * (unat (ucast (drop_bit 24 n OR 0xE0) :: u8) mod 16) = unat (n :: u32)"
proof -
  let ?N = "unat n"
  have low: "unat (ucast x :: u8) = unat x mod 256" for x :: u32
    using unsigned_ucast_eq [where ?'c = 8 and ?'a = nat and w = x] by (simp add: take_bit_eq_mod)
  have shift: "unat (drop_bit k n) = ?N div 2 ^ k" for k
    using unat_drop_bit_eq [of k n] by (simp add: take_bit_eq_mod drop_bit_eq_div)
  let ?h = "drop_bit 24 n"
  have "take_bit 4 (unat (?h OR 0xE0)) = take_bit 4 (unat ?h)" by (simp add: unsigned_or_eq)
  then have "unat (?h OR 0xE0) mod 16 = unat ?h mod 16" by (simp add: take_bit_eq_mod)
  then have "unat (ucast (?h OR 0xE0) :: u8) mod 16 = unat ?h mod 16" unfolding low by (simp add: mod_mod_cancel)
  also have "\<dots> = ?N div 16777216" unfolding shift using assms by (simp add: less_mult_imp_div_less)
  finally have top: "unat (ucast (?h OR 0xE0) :: u8) mod 16 = ?N div 16777216" .
  have "256 * (?N div 256) + ?N mod 256 = ?N" "256 * (?N div 65536) + ?N div 256 mod 256 = ?N div 256"
    "256 * (?N div 16777216) + ?N div 65536 mod 256 = ?N div 65536"
    using mult_div_mod_eq [of 256 "?N div 256"] mult_div_mod_eq [of 256 "?N div 65536"]
    by (simp_all flip: div_mult2_eq)
  moreover have "unat (drop_bit 8 n) = ?N div 256" "unat (drop_bit 16 n) = ?N div 65536" by (simp_all add: shift)
  ultimately show ?thesis unfolding top unfolding low by (simp only: bytes_sum)
qed

text \<open>A sector is copied to memory.\<close>

lemma readsect_Some:
  assumes "gets_ready (status b)" "unat off < 2 ^ 28"
  shows "\<exists>c. readsect dst off b = Some c \<and> disk c = disk b \<and> status c = status b \<and>
    bmem c = (\<lambda>a. if unat (a - dst) < 512 then disk b (512 * unat off + unat (a - dst)) else bmem b a)"
proof -
  obtain t where t: "waitdisk b = Some (b\<lparr>status_time := t\<rparr>)" using waitdisk_ready [OF assms(1)] by blast
  define c where "c = disk_outb 0x1F7 0x20 (disk_outb 0x1F6 (ucast (drop_bit 24 off OR 0xE0)) (disk_outb 0x1F5 (ucast (drop_bit 16 off))
    (disk_outb 0x1F4 (ucast (drop_bit 8 off)) (disk_outb 0x1F3 (ucast off) (disk_outb 0x1F2 1 (b\<lparr>status_time := t\<rparr>))))))"
  have f: "disk c = disk b" "status c = status b" "bmem c = bmem b" "data_pos c = 512 * unat off"
    using sector_number_bytes [OF assms(2)] by (simp_all add: c_def disk_outb_def Let_def sector_number_def)
  obtain u where u: "waitdisk c = Some (c\<lparr>status_time := u\<rparr>)" using waitdisk_ready [of c] assms(1) f(2) by auto
  have n: "unat (SECTSIZE div 4) = 128" by (simp add: SECTSIZE_def)
  have "readsect dst off b = Some (disk_insl dst 128 (c\<lparr>status_time := u\<rparr>))"
    using t u unfolding readsect_def n c_def by (simp add: Let_def)
  then show ?thesis
    using f by (intro exI [of _ "disk_insl dst 128 (c\<lparr>status_time := u\<rparr>)"]) (simp add: disk_insl_def fun_eq_iff)
qed

subsection \<open>Reading a segment\<close>

text \<open>The state after the bytes of the disk from \<open>p\<close> on have been read to the \<open>n\<close> bytes from \<open>a\<close> on.\<close>

definition read_to :: "boot \<Rightarrow> nat \<Rightarrow> nat \<Rightarrow> nat \<Rightarrow> boot \<Rightarrow> bool" where
  "read_to b a n p c \<longleftrightarrow> disk c = disk b \<and> status c = status b \<and>
     bmem c = (\<lambda>x. if a \<le> unat x \<and> unat x < a + n then disk b (p + (unat x - a)) else bmem b x)"

lemma readseg_loop_Some:
  assumes "gets_ready (status b)" "unat end_pa \<le> unat pa + 512 * n" "n = 0 \<or> unat pa + 512 * (n - 1) < unat end_pa"
    and "unat pa + 512 * n < 2 ^ 32" "unat off + n \<le> 2 ^ 28"
  shows "\<exists>c. readseg_loop pa end_pa off b = Some c \<and> read_to b (unat pa) (512 * n) (512 * unat off) c"
  using assms
proof (induction n arbitrary: pa off b)
  case 0
  then show ?case by (subst readseg_loop.simps) (auto simp: read_to_def word_less_nat_alt fun_eq_iff)
next
  case (Suc n)
  have lt: "pa < end_pa" using Suc.prems(3) by (auto simp: word_less_nat_alt)
  have off: "unat off < 2 ^ 28" using Suc.prems(5) by simp
  obtain c where c: "readsect pa off b = Some c" "disk c = disk b" "status c = status b"
    and m: "bmem c = (\<lambda>a. if unat (a - pa) < 512 then disk b (512 * unat off + unat (a - pa)) else bmem b a)"
    using readsect_Some [OF Suc.prems(1) off] by blast
  have pa: "unat (pa + SECTSIZE) = unat pa + 512" using Suc.prems(4) by (simp add: SECTSIZE_def unat_word_ariths)
  have o: "unat (off + 1) = unat off + 1" using off by (simp add: unat_word_ariths)
  obtain d where d: "readseg_loop (pa + SECTSIZE) end_pa (off + 1) c = Some d"
    "read_to c (unat pa + 512) (512 * n) (512 + 512 * unat off) d"
    using Suc.IH [of c "pa + SECTSIZE" "off + 1"] Suc.prems c(3) unfolding pa o by (cases n) auto
  have sub: "unat (x - pa) < 512 \<longleftrightarrow> unat pa \<le> unat x \<and> unat x < unat pa + 512"
    "unat pa \<le> unat x \<Longrightarrow> unat (x - pa) = unat x - unat pa" for x
    using Suc.prems(4) by (auto simp: unat_sub_if_size word_size)
  have "readseg_loop pa end_pa off b = Some d" using lt c(1) d(1) by (subst readseg_loop.simps) simp
  moreover have "read_to b (unat pa) (512 * Suc n) (512 * unat off) d"
    using d(2) c(2,3) m sub by (auto simp: read_to_def fun_eq_iff)
  ultimately show ?case by blast
qed

text \<open>A range rounded out to sectors.\<close>

definition sector_start :: "u32 \<Rightarrow> nat" where
  "sector_start pa = unat pa - unat pa mod 512"

definition sector_end :: "u32 \<Rightarrow> u32 \<Rightarrow> nat" where
  "sector_end pa count = (unat pa + unat count + 511) div 512 * 512"

lemma unat_sector: "unat (pa AND NOT (SECTSIZE - 1)) = sector_start pa"
proof -
  have "SECTSIZE - 1 = mask 9" by (simp add: SECTSIZE_def mask_eq_exp_minus_1)
  moreover have "(pa AND mask 9) AND (pa AND NOT (mask 9)) = 0" "(pa AND mask 9) OR (pa AND NOT (mask 9)) = pa"
    by (auto intro!: bit_eqI simp: bit_simps)
  then have "(pa AND mask 9) + (pa AND NOT (mask 9)) = pa"
    using word_plus_and_or [of "pa AND mask 9" "pa AND NOT (mask 9)"] by simp
  ultimately have "pa AND NOT (SECTSIZE - 1) = pa - take_bit 9 pa"
    by (simp add: take_bit_eq_mask eq_diff_eq add.commute)
  moreover have "unat (take_bit 9 pa) = unat pa mod 512"
  proof -
    have "unat (take_bit 9 pa) = take_bit 9 (unat pa)" by (rule unsigned_take_bit_eq)
    then show ?thesis by (simp add: take_bit_eq_mod)
  qed
  moreover have "take_bit 9 pa \<le> pa" using calculation(2) by (simp add: word_le_nat_alt)
  ultimately show ?thesis by (simp add: sector_start_def unat_sub)
qed

lemma sector_arith:
  fixes A C :: nat
  obtains n where "(A + C + 511) div 512 * 512 = A - A mod 512 + 512 * n" "A + C \<le> A - A mod 512 + 512 * n"
    "n = 0 \<or> A - A mod 512 + 512 * (n - 1) < A + C" "A - A mod 512 + 512 * n \<le> A + C + 511"
proof -
  define q r n where "q = A div 512" and "r = A mod 512" and "n = (r + C + 511) div 512"
  have A: "A = 512 * q + r" "A - A mod 512 = 512 * q" by (simp_all add: q_def r_def minus_mod_eq_mult_div)
  have "(A + C + 511) div 512 = q + n" unfolding A(1) n_def by (simp add: add.assoc)
  then have e: "(A + C + 511) div 512 * 512 = 512 * q + 512 * n" by simp
  have "512 * n + (r + C + 511) mod 512 = r + C + 511" unfolding n_def by (rule mult_div_mod_eq)
  moreover have "(r + C + 511) mod 512 < 512" by (rule mod_less_divisor) simp
  ultimately have n: "512 * n \<le> r + C + 511" "r + C + 511 < 512 * n + 512" by linarith+
  show ?thesis
  proof (rule that [of n]; unfold A(2) e)
    show "A + C \<le> 512 * q + 512 * n" "512 * q + 512 * n \<le> A + C + 511" using n A(1) by linarith+
    show "n = 0 \<or> 512 * q + 512 * (n - 1) < A + C"
    proof (cases n)
      case (Suc m)
      with n A(1) show ?thesis by simp
    qed simp
  qed (rule refl)
qed

lemma sector_bounds:
  "sector_start pa \<le> unat pa" "unat pa + unat count \<le> sector_end pa count" "sector_start pa \<le> sector_end pa count"
proof -
  show s: "sector_start pa \<le> unat pa" by (simp add: sector_start_def)
  show e: "unat pa + unat count \<le> sector_end pa count"
    by (rule sector_arith [of "unat pa" "unat count"]) (simp add: sector_end_def)
  from s e show "sector_start pa \<le> sector_end pa count" by linarith
qed

text \<open>The segment is read where it belongs when its address and its offset agree within a
  sector; nothing outside its sectors changes.\<close>

lemma readseg_Some:
  assumes "gets_ready (status b)" "unat pa + unat count + 511 < 2 ^ 32"
  shows "\<exists>c. readseg pa count off b = Some c \<and>
    read_to b (sector_start pa) (sector_end pa count - sector_start pa) (512 + unat off - unat off mod 512) c"
proof -
  obtain n where ar: "sector_end pa count = sector_start pa + 512 * n" "unat pa + unat count \<le> sector_start pa + 512 * n"
    "n = 0 \<or> sector_start pa + 512 * (n - 1) < unat pa + unat count" "sector_start pa + 512 * n \<le> unat pa + unat count + 511"
    using sector_arith [of "unat pa" "unat count"] unfolding sector_end_def sector_start_def by metis
  have u: "unat (pa + count) = unat pa + unat count" using assms(2) by (simp add: unat_add_no_wrap)
  have o: "unat (off div SECTSIZE + 1) = unat off div 512 + 1" "unat off div 512 < 8388608"
  proof -
    show "unat off div 512 < 8388608" using unsigned_less [of off] by (simp add: less_mult_imp_div_less)
    then show "unat (off div SECTSIZE + 1) = unat off div 512 + 1"
      by (simp add: SECTSIZE_def unat_word_ariths unat_div)
  qed
  have n: "n \<le> 8388608" using ar(4) assms(2) by simp
  have "\<exists>c. readseg_loop (pa AND NOT (SECTSIZE - 1)) (pa + count) (off div SECTSIZE + 1) b = Some c \<and>
     read_to b (unat (pa AND NOT (SECTSIZE - 1))) (512 * n) (512 * unat (off div SECTSIZE + 1)) c"
  proof (rule readseg_loop_Some [OF assms(1)])
    show "unat (pa + count) \<le> unat (pa AND NOT (SECTSIZE - 1)) + 512 * n" using ar(2) by (simp only: u unat_sector)
    show "n = 0 \<or> unat (pa AND NOT (SECTSIZE - 1)) + 512 * (n - 1) < unat (pa + count)" using ar(3) by (simp only: u unat_sector)
    show "unat (pa AND NOT (SECTSIZE - 1)) + 512 * n < 2 ^ 32" unfolding unat_sector using ar(4) assms(2) by linarith
    show "unat (off div SECTSIZE + 1) + n \<le> 2 ^ 28" unfolding o(1) using o(2) n by simp
  qed
  moreover have "512 * (unat off div 512 + 1) = 512 + unat off - unat off mod 512"
    using minus_mod_eq_mult_div [of "unat off" 512] mod_less_eq_dividend [of "unat off" 512] by simp
  ultimately show ?thesis by (simp add: readseg_def Let_def ar(1) unat_sector o(1))
qed

text \<open>\<open>readseg\<close> returns, and when the physical address and the offset agree within a sector, the bytes
  asked for are those of the image, which begins at the second sector of the disk; only bytes of the
  sectors that the range touches change.\<close>

theorem readseg_loads:
  assumes "gets_ready (status b)" "unat pa + unat count + 511 < 2 ^ 32" "unat pa mod 512 = unat off mod 512"
  shows "\<exists>c. readseg pa count off b = Some c \<and> disk c = disk b \<and> status c = status b \<and>
    (\<forall>k < unat count. bmem c (pa + of_nat k) = disk b (512 + unat off + k)) \<and>
    (\<forall>x. unat x < sector_start pa \<or> sector_end pa count \<le> unat x \<longrightarrow> bmem c x = bmem b x)"
proof -
  obtain c where c: "readseg pa count off b = Some c"
    "read_to b (sector_start pa) (sector_end pa count - sector_start pa) (512 + unat off - unat off mod 512) c"
    using readseg_Some [OF assms(1,2)] by blast
  note le = sector_bounds(1) [of pa] sector_bounds(2,3) [where pa = pa and count = count]
  have "bmem c (pa + of_nat k) = disk b (512 + unat off + k)" if k: "k < unat count" for k
  proof -
    have u: "unat (pa + of_nat k) = unat pa + k"
      using k assms(2) by (simp add: unat_word_ariths unat_of_nat)
    have "512 + unat off - unat off mod 512 + (unat pa + k - sector_start pa) = 512 + unat off + k"
      using assms(3) mod_less_eq_dividend [of "unat off" 512] mod_less_eq_dividend [of "unat pa" 512]
      unfolding sector_start_def by linarith
    then show ?thesis using c(2) le k by (simp add: read_to_def u)
  qed
  moreover have "bmem c x = bmem b x" if "unat x < sector_start pa \<or> sector_end pa count \<le> unat x" for x
    using c(2) that le(3) by (auto simp: read_to_def)
  ultimately show ?thesis using c by (auto simp: read_to_def)
qed

subsection \<open>The kernel image\<close>

text \<open>The header and the program headers in the image.\<close>

definition image32 :: "(nat \<Rightarrow> u8) \<Rightarrow> nat \<Rightarrow> u32" where
  "image32 d k = load32 (\<lambda>a. d (512 + unat a)) (of_nat k)"

definition e_phnum :: "(nat \<Rightarrow> u8) \<Rightarrow> nat" where
  "e_phnum d = unat (load16 (\<lambda>a. d (512 + unat a)) 44)"

definition e_phoff :: "(nat \<Rightarrow> u8) \<Rightarrow> nat" where
  "e_phoff d = unat (image32 d 28)"

definition seg_pa :: "(nat \<Rightarrow> u8) \<Rightarrow> nat \<Rightarrow> u32" where
  "seg_pa d j = image32 d (e_phoff d + 32 * j + 12)"

definition seg_memsz :: "(nat \<Rightarrow> u8) \<Rightarrow> nat \<Rightarrow> u32" where
  "seg_memsz d j = image32 d (e_phoff d + 32 * j + 20)"

definition seg_offset :: "(nat \<Rightarrow> u8) \<Rightarrow> nat \<Rightarrow> u32" where
  "seg_offset d j = image32 d (e_phoff d + 32 * j + 4)"

text \<open>The headers fit into the first page, no segment is read over them or over an earlier
  segment, and addresses and offsets agree within a sector.\<close>

definition good_segment :: "(nat \<Rightarrow> u8) \<Rightarrow> nat \<Rightarrow> bool" where
  "good_segment d j \<longleftrightarrow>
     unat (seg_pa d j) + unat (seg_memsz d j) + 511 < 2 ^ 32 \<and> unat (seg_pa d j) mod 512 = unat (seg_offset d j) mod 512 \<and>
     (sector_end (seg_pa d j) (seg_memsz d j) \<le> 65536 \<or> 69632 \<le> sector_start (seg_pa d j)) \<and>
     (\<forall>i < j. unat (seg_pa d i) + unat (seg_memsz d i) \<le> sector_start (seg_pa d j) \<or>
        sector_end (seg_pa d j) (seg_memsz d j) \<le> unat (seg_pa d i))"

definition good_image :: "(nat \<Rightarrow> u8) \<Rightarrow> bool" where
  "good_image d \<longleftrightarrow> image32 d 0 = ELF_MAGIC \<and> e_phoff d + 32 * e_phnum d \<le> 4096 \<and> (\<forall>j < e_phnum d. good_segment d j)"

definition header_at :: "(nat \<Rightarrow> u8) \<Rightarrow> memory \<Rightarrow> bool" where
  "header_at d m \<longleftrightarrow> (\<forall>k < 4096. m (ELFHDR + of_nat k) = d (512 + k))"

definition loaded :: "(nat \<Rightarrow> u8) \<Rightarrow> memory \<Rightarrow> nat \<Rightarrow> bool" where
  "loaded d m j \<longleftrightarrow> (\<forall>k < unat (seg_memsz d j). m (seg_pa d j + of_nat k) = d (512 + unat (seg_offset d j) + k))"

lemma header_less: "a < b \<Longrightarrow> b \<le> 4096 \<Longrightarrow> ELFHDR + of_nat a < ELFHDR + of_nat b"
  by (simp add: ELFHDR_def word_less_nat_alt unat_word_ariths unat_of_nat)

lemma header_load:
  assumes "header_at d m" "k + 4 \<le> 4096"
  shows "load32 m (ELFHDR + of_nat k) = image32 d k"
proof -
  have m: "m (ELFHDR + of_nat k + of_nat i) = d (512 + (k + i))" if "i < 4" for i
    using assms that by (simp add: header_at_def add.assoc flip: of_nat_add)
  have u: "unat (of_nat k + of_nat i :: u32) = k + i" if "i < 4" for i
    using assms(2) that by (simp add: unat_of_nat flip: of_nat_add)
  show ?thesis
    using m [of 0] m [of 1] m [of 2] m [of 3] u [of 0] u [of 1] u [of 2] u [of 3]
    by (simp add: load32_def image32_def add.assoc)
qed

lemma header_phnum: "header_at d m \<Longrightarrow> unat (load16 m (ELFHDR + 44)) = e_phnum d"
proof -
  assume h: "header_at d m"
  have "m (ELFHDR + 44) = d (512 + 44)" "m (ELFHDR + 44 + 1) = d (512 + 45)"
    using h [unfolded header_at_def, rule_format, of 44] h [unfolded header_at_def, rule_format, of 45] by (simp_all add: add.assoc)
  then show ?thesis by (simp add: load16_def e_phnum_def)
qed

text \<open>One segment is read: the headers and the segments before it stay.\<close>

lemma load_segment:
  assumes "gets_ready (status b)" "good_image (disk b)" "j < e_phnum (disk b)" "header_at (disk b) (bmem b)"
    and "\<forall>i < j. loaded (disk b) (bmem b) i"
  shows "\<exists>c. readseg (seg_pa (disk b) j) (seg_memsz (disk b) j) (seg_offset (disk b) j) b = Some c \<and> disk c = disk b \<and>
    status c = status b \<and> header_at (disk b) (bmem c) \<and> (\<forall>i < Suc j. loaded (disk b) (bmem c) i)"
proof -
  let ?d = "disk b" let ?a = "sector_start (seg_pa ?d j)" and ?e = "sector_end (seg_pa ?d j) (seg_memsz ?d j)"
  have g: "good_segment ?d i" if "i \<le> j" for i using assms(2,3) that by (simp add: good_image_def)
  note gj = g [OF order.refl, unfolded good_segment_def]
  obtain c where c: "readseg (seg_pa ?d j) (seg_memsz ?d j) (seg_offset ?d j) b = Some c" "disk c = ?d" "status c = status b"
    and new: "\<forall>k < unat (seg_memsz ?d j). bmem c (seg_pa ?d j + of_nat k) = ?d (512 + unat (seg_offset ?d j) + k)"
    and old: "\<And>x. unat x < ?a \<or> ?e \<le> unat x \<Longrightarrow> bmem c x = bmem b x"
    using readseg_loads [OF assms(1), of "seg_pa ?d j" "seg_memsz ?d j" "seg_offset ?d j"] gj by blast
  have "header_at ?d (bmem c)"
    unfolding header_at_def
  proof (intro allI impI)
    fix k :: nat assume k: "k < 4096"
    have "unat (ELFHDR + of_nat k) = 65536 + k" using k by (simp add: ELFHDR_def unat_word_ariths unat_of_nat)
    then have "bmem c (ELFHDR + of_nat k) = bmem b (ELFHDR + of_nat k)" using gj k by (intro old) auto
    then show "bmem c (ELFHDR + of_nat k) = ?d (512 + k)" using assms(4) k by (simp add: header_at_def)
  qed
  moreover have "loaded ?d (bmem c) i" if i: "i < Suc j" for i
  proof (cases "i = j")
    case False
    then have lt: "i < j" using i by simp
    have "bmem c (seg_pa ?d i + of_nat k) = ?d (512 + unat (seg_offset ?d i) + k)" if k: "k < unat (seg_memsz ?d i)" for k
    proof -
      have "unat (seg_pa ?d i + of_nat k) = unat (seg_pa ?d i) + k"
        using k g [of i] lt by (simp add: good_segment_def unat_word_ariths unat_of_nat)
      then have "bmem c (seg_pa ?d i + of_nat k) = bmem b (seg_pa ?d i + of_nat k)" using gj k lt by (intro old) auto
      then show ?thesis using assms(5) lt k by (simp add: loaded_def)
    qed
    then show ?thesis by (simp add: loaded_def)
  qed (use new in \<open>simp add: loaded_def\<close>)
  ultimately show ?thesis using c by blast
qed

lemma load_segments_Some:
  assumes "gets_ready (status b)" "good_image (disk b)" "j + n = e_phnum (disk b)" "header_at (disk b) (bmem b)"
    and "\<forall>i < j. loaded (disk b) (bmem b) i"
  shows "\<exists>c. load_segments (ELFHDR + of_nat (e_phoff (disk b) + 32 * j)) (ELFHDR + of_nat (e_phoff (disk b) + 32 * e_phnum (disk b))) b
      = Some c \<and> header_at (disk b) (bmem c) \<and> (\<forall>i < e_phnum (disk b). loaded (disk b) (bmem c) i)"
  using assms
proof (induction n arbitrary: j b)
  case 0
  then show ?case by (subst load_segments.simps) simp
next
  case (Suc n)
  let ?d = "disk b" let ?o = "e_phoff ?d + 32 * j" and ?ph = "ELFHDR + of_nat (e_phoff ?d + 32 * j)"
  let ?eph = "ELFHDR + of_nat (e_phoff ?d + 32 * e_phnum ?d)"
  have j: "j < e_phnum ?d" and fit: "e_phoff ?d + 32 * e_phnum ?d \<le> 4096" using Suc.prems(2,3) by (simp_all add: good_image_def)
  have lt: "?ph < ?eph" by (rule header_less) (use j fit in simp_all)
  have f: "load32 (bmem b) (?ph + of_nat i) = image32 ?d (?o + i)" if "i \<le> 28" for i
  proof -
    have "load32 (bmem b) (ELFHDR + of_nat (?o + i)) = image32 ?d (?o + i)"
      by (rule header_load [OF Suc.prems(4)]) (use j fit that in linarith)
    then show ?thesis by (simp add: add.assoc)
  qed
  have fields: "load32 (bmem b) (?ph + 12) = seg_pa ?d j" "load32 (bmem b) (?ph + 20) = seg_memsz ?d j"
    "load32 (bmem b) (?ph + 4) = seg_offset ?d j"
    using f [of 12] f [of 20] f [of 4] by (simp_all add: seg_pa_def seg_memsz_def seg_offset_def)
  obtain c where c: "readseg (seg_pa ?d j) (seg_memsz ?d j) (seg_offset ?d j) b = Some c" "disk c = ?d" "status c = status b"
    "header_at ?d (bmem c)" "\<forall>i < Suc j. loaded ?d (bmem c) i"
    using load_segment [OF Suc.prems(1,2) j Suc.prems(4,5)] by blast
  have nx: "?ph + sizeof_Proghdr = ELFHDR + of_nat (e_phoff ?d + 32 * Suc j)" by simp
  have "load_segments ?ph ?eph b = load_segments (?ph + sizeof_Proghdr) ?eph c"
    using lt c(1) by (subst load_segments.simps) (simp only: fields if_True bind.bind_lunit)
  then show ?case using Suc.IH [of c "Suc j"] Suc.prems(1-3) c unfolding nx by simp
qed

lemma first_page:
  assumes "gets_ready (status b)"
  shows "\<exists>c. readseg ELFHDR (SECTSIZE * 8) 0 b = Some c \<and> disk c = disk b \<and> status c = status b \<and> header_at (disk b) (bmem c)"
proof -
  have n: "unat ELFHDR = 65536" "unat (SECTSIZE * 8) = 4096" by (simp_all add: ELFHDR_def SECTSIZE_def)
  obtain c where c: "readseg ELFHDR (SECTSIZE * 8) 0 b = Some c" "disk c = disk b" "status c = status b"
    "\<forall>k < unat (SECTSIZE * 8). bmem c (ELFHDR + of_nat k) = disk b (512 + unat (0 :: u32) + k)"
    using readseg_loads [OF assms, of ELFHDR "SECTSIZE * 8" 0] n by auto
  then show ?thesis using n(2) by (auto simp: header_at_def)
qed

lemma header_count:
  assumes "header_at d m"
  shows "(ucast (load16 m (ELFHDR + 44)) :: u32) = of_nat (e_phnum d)"
proof -
  let ?w = "load16 m (ELFHDR + 44)"
  have "unat (ucast ?w :: u32) = take_bit 32 (unat ?w)" by (rule trans [OF unsigned_ucast_eq]) simp
  also have "\<dots> = unat ?w"
  proof -
    have "unat ?w < 2 ^ LENGTH(16)" by (rule unsigned_less)
    then show ?thesis by (simp add: take_bit_eq_mod)
  qed
  finally have "unat (ucast ?w :: u32) = e_phnum d" using header_phnum [OF assms] by simp
  from arg_cong [OF this, of "of_nat :: nat \<Rightarrow> u32"] show ?thesis by (simp only: of_nat_unat ucast_id)
qed

lemma bootmain_bad:
  assumes "gets_ready (status b)" "image32 (disk b) 0 \<noteq> ELF_MAGIC"
  shows "\<exists>c. bootmain b = Some (Bad_image, c)"
proof -
  obtain c where c: "readseg ELFHDR (SECTSIZE * 8) 0 b = Some c" "header_at (disk b) (bmem c)"
    using first_page [OF assms(1)] by blast
  then show ?thesis using assms(2) header_load [OF c(2), of 0] by (simp add: bootmain_def)
qed

text \<open>C30. The boot loader: from a disk that holds a well-formed image it enters the kernel at the entry point
  of the image, with every byte of every segment at its physical address.\<close>

theorem bootmain_loads:
  assumes "gets_ready (status b)" "good_image (disk b)"
  shows "\<exists>c. bootmain b = Some (Enter (image32 (disk b) 24), c) \<and>
    (\<forall>j < e_phnum (disk b). \<forall>k < unat (seg_memsz (disk b) j).
       bmem c (seg_pa (disk b) j + of_nat k) = disk b (512 + unat (seg_offset (disk b) j) + k))"
proof -
  let ?d = "disk b"
  obtain c where c: "readseg ELFHDR (SECTSIZE * 8) 0 b = Some c" "disk c = ?d" "status c = status b" "header_at ?d (bmem c)"
    using first_page [OF assms(1)] by blast
  have m: "load32 (bmem c) ELFHDR = image32 ?d 0" "load32 (bmem c) (ELFHDR + 28) = image32 ?d 28"
    using header_load [OF c(4), of 0] header_load [OF c(4), of 28] by simp_all
  have ph: "ELFHDR + image32 ?d 28 = ELFHDR + of_nat (e_phoff ?d + 32 * 0)" by (simp add: e_phoff_def)
  have eph: "ELFHDR + image32 ?d 28 + sizeof_Proghdr * of_nat (e_phnum ?d) = ELFHDR + of_nat (e_phoff ?d + 32 * e_phnum ?d)"
    by (simp add: e_phoff_def)
  obtain e where e: "load_segments (ELFHDR + of_nat (e_phoff ?d + 32 * 0)) (ELFHDR + of_nat (e_phoff ?d + 32 * e_phnum ?d)) c = Some e"
    "header_at ?d (bmem e)" "\<forall>j < e_phnum ?d. loaded ?d (bmem e) j"
    using load_segments_Some [of c 0 "e_phnum ?d"] assms c by auto
  have entry: "load32 (bmem e) (ELFHDR + 24) = image32 ?d 24" using header_load [OF e(2), of 24] by simp
  have "load_segments (ELFHDR + image32 ?d 28) (ELFHDR + image32 ?d 28 + sizeof_Proghdr * of_nat (e_phnum ?d)) c = Some e"
    unfolding eph unfolding ph by (rule e(1))
  then have "bootmain b = Some (Enter (image32 ?d 24), e)"
    using c(1) m assms(2) entry by (simp add: bootmain_def Let_def header_count [OF c(4)] good_image_def)
  with e(3) show ?thesis by (auto simp: loaded_def)
qed

subsection \<open>A sample disk\<close>

text \<open>The image has one segment of eight bytes, for the physical address \<open>0x100000\<close>.\<close>

definition sample_disk :: "nat \<Rightarrow> u8" where
  "sample_disk = (\<lambda>_. 0)(512 := 0x7F, 513 := 0x45, 514 := 0x4C, 515 := 0x46, 536 := 0x0C, 538 := 0x10,
     540 := 52, 556 := 1, 569 := 0x10, 578 := 0x10, 584 := 8, 4608 := 0xFA, 4615 := 0xF4)"

definition sample_boot :: boot where
  "sample_boot = \<lparr>bmem = (\<lambda>_. 0), disk = sample_disk, status = (\<lambda>t. if t mod 3 = 0 then 0x40 else 0x80), status_time = 1,
     disk_regs = (\<lambda>_. 0), data_pos = 0, port_words = []\<rparr>"

lemma sample_image_fields:
  "image32 sample_disk 0 = ELF_MAGIC" "e_phoff sample_disk = 52" "e_phnum sample_disk = 1" "image32 sample_disk 24 = 0x10000C"
  "seg_pa sample_disk 0 = 0x100000" "seg_memsz sample_disk 0 = 8" "seg_offset sample_disk 0 = 0x1000"
proof -
  show p: "e_phoff sample_disk = 52" by (simp add: e_phoff_def image32_def load32_def sample_disk_def)
  show "image32 sample_disk 0 = ELF_MAGIC" "image32 sample_disk 24 = 0x10000C"
    by (simp_all add: image32_def load32_def sample_disk_def)
  show "e_phnum sample_disk = 1" by (simp add: e_phnum_def load16_def sample_disk_def)
  show "seg_pa sample_disk 0 = 0x100000" "seg_memsz sample_disk 0 = 8" "seg_offset sample_disk 0 = 0x1000"
    unfolding seg_pa_def seg_memsz_def seg_offset_def p by (simp_all add: image32_def load32_def sample_disk_def)
qed

lemma sample_boot_ready: "gets_ready (status sample_boot)"
  unfolding gets_ready_def
proof
  fix t :: nat
  have "(t + (3 - t mod 3)) mod 3 = 0" by presburger
  then show "\<exists>k. status sample_boot (t + k) AND 0xC0 = 0x40"
    by (intro exI [of _ "3 - t mod 3"]) (simp add: sample_boot_def)
qed

lemma readseg_loads_witness:
  "\<exists>c. readseg 0x100004 4 0x1004 sample_boot = Some c \<and> bmem c 0x100007 = 0xF4"
proof -
  obtain c where c: "readseg 0x100004 4 0x1004 sample_boot = Some c"
    and m: "\<forall>k < unat (4 :: u32). bmem c (0x100004 + of_nat k) = disk sample_boot (512 + unat (0x1004 :: u32) + k)"
    using readseg_loads [OF sample_boot_ready, of "0x100004" 4 "0x1004"] by auto
  from m have "bmem c 0x100007 = disk sample_boot 4615" by (auto dest: spec [of _ 3])
  with c show ?thesis by (simp add: sample_boot_def sample_disk_def)
qed

lemma bootmain_loads_witness:
  "\<exists>c. bootmain sample_boot = Some (Enter 0x10000C, c) \<and> bmem c 0x100007 = 0xF4"
proof -
  have d: "disk sample_boot = sample_disk" by (simp add: sample_boot_def)
  have "good_image sample_disk"
    by (simp add: good_image_def good_segment_def sample_image_fields sector_start_def)
  then obtain c where c: "bootmain sample_boot = Some (Enter 0x10000C, c)"
    and m: "\<forall>j < 1. \<forall>k < unat (seg_memsz sample_disk j). bmem c (seg_pa sample_disk j + of_nat k) = sample_disk (512 + unat (seg_offset sample_disk j) + k)"
    using bootmain_loads [OF sample_boot_ready] unfolding d by (auto simp: sample_image_fields)
  from m have "bmem c 0x100007 = sample_disk 4615" by (auto simp: sample_image_fields dest: spec [of _ 7])
  with c show ?thesis by (simp add: sample_disk_def)
qed

end
