(* ===== verification/Mpconfig.thy ===== *)
theory Mpconfig
  imports Lapic
begin

text \<open>
  The search for the multiprocessor tables of the BIOS: kern/mpconfig.c.  A structure of the
  tables is the kernel address it lies at; its fields are read at their offsets.
\<close>

abbreviation (input) sizeof_mp :: u32 where "sizeof_mp \<equiv> 16"
abbreviation (input) sizeof_mpconf :: u32 where "sizeof_mpconf \<equiv> 44"
abbreviation (input) sizeof_mpproc :: u32 where "sizeof_mpproc \<equiv> 20"
abbreviation (input) MPPROC_BOOT :: u8 where "MPPROC_BOOT \<equiv> 0x02"
abbreviation (input) MPPROC :: u8 where "MPPROC \<equiv> 0x00"
abbreviation (input) MPBUS :: u8 where "MPBUS \<equiv> 0x01"
abbreviation (input) MPIOAPIC :: u8 where "MPIOAPIC \<equiv> 0x02"
abbreviation (input) MPIOINTR :: u8 where "MPIOINTR \<equiv> 0x03"
abbreviation (input) MPLINTR :: u8 where "MPLINTR \<equiv> 0x04"

definition kload16 :: "u32 \<Rightarrow> u16 kernel" where
  "kload16 p =
     kbind (kload8 p) (\<lambda>lo. kbind (kload8 (p + 1)) (\<lambda>hi.
     kret (ucast lo OR push_bit 8 (ucast hi))))"

text \<open>\<open>memcmp\<close> of kernel memory with a constant string, as the test of its result against 0.\<close>

primrec kbytes_are :: "u32 \<Rightarrow> string \<Rightarrow> bool kernel" where
  "kbytes_are p [] = kret True"
| "kbytes_are p (c # cs) =
     kbind (kload8 p) (\<lambda>b. if b = of_char c then kbytes_are (p + 1) cs else kret False)"

primrec sum_loop :: "nat \<Rightarrow> u32 \<Rightarrow> u32 \<Rightarrow> u32 kernel" where
  "sum_loop 0 addr acc = kret acc"
| "sum_loop (Suc n) addr acc =
     kbind (kload8 addr) (\<lambda>b. sum_loop n (addr + 1) (acc + ucast b))"

definition sum :: "u32 \<Rightarrow> u32 \<Rightarrow> u8 kernel" where
  "sum addr len = kbind (sum_loop (nat (sint len)) addr 0) (\<lambda>v. kret (ucast v))"

text \<open>The search reads the structures in steps of their size; \<open>n\<close> is the number of steps.\<close>

primrec mpsearch_loop :: "nat \<Rightarrow> u32 \<Rightarrow> u32 option kernel" where
  "mpsearch_loop 0 mp = kret None"
| "mpsearch_loop (Suc n) mp =
     kbind (kbytes_are mp ''_MP_'') (\<lambda>sig.
     kbind (if sig then kbind (sum mp sizeof_mp) (\<lambda>v. kret (v = 0)) else kret False) (\<lambda>found.
     if found then kret (Some mp) else mpsearch_loop n (mp + sizeof_mp)))"

definition mpsearch1 :: "u32 \<Rightarrow> u32 \<Rightarrow> u32 option kernel" where
  "mpsearch1 a len =
     kbind (KADDR a) (\<lambda>mp.
     kbind (KADDR (a + len)) (\<lambda>ends.
     mpsearch_loop ((unat ends - unat mp + 15) div 16) mp))"

definition mpsearch :: "u32 option kernel" where
  "mpsearch =
     kbind (KADDR (push_bit 4 0x40)) (\<lambda>bda.
     kbind (kload16 (bda + 0x0E)) (\<lambda>ebda.
     kbind
       (if ebda \<noteq> 0 then mpsearch1 (push_bit 4 (ucast ebda)) 1024
        else
          kbind (kload16 (bda + 0x13)) (\<lambda>kb.
          mpsearch1 (ucast kb * 1024 - 1024) 1024)) (\<lambda>mp.
     if mp \<noteq> None then kret mp else mpsearch1 0xF0000 0x10000)))"

text \<open>\<open>mpconfig\<close> returns the configuration table and the pointer structure.\<close>

definition mpconfig :: "(u32 \<times> u32) option kernel" where
  "mpconfig =
     kbind mpsearch (\<lambda>r. case r of
       None \<Rightarrow> kret None
     | Some mp \<Rightarrow>
         kbind (kload (mp + 4)) (\<lambda>physaddr.
         kbind (kload8 (mp + 11)) (\<lambda>type.
         if physaddr = 0 \<or> type \<noteq> 0 then
           kbind (kprintf (''SMP: Default configurations not implemented'' @ newline) []) (\<lambda>_. kret None)
         else
           kbind (KADDR physaddr) (\<lambda>conf.
           kbind (kbytes_are conf ''PCMP'') (\<lambda>sig.
           if \<not> sig then
             kbind (kprintf (''SMP: Incorrect MP configuration table signature'' @ newline) []) (\<lambda>_. kret None)
           else
             kbind (kload16 (conf + 4)) (\<lambda>length.
             kbind (sum conf (ucast length)) (\<lambda>checksum.
             if checksum \<noteq> 0 then
               kbind (kprintf (''SMP: Bad MP configuration checksum'' @ newline) []) (\<lambda>_. kret None)
             else
               kbind (kload8 (conf + 6)) (\<lambda>version.
               if version \<noteq> 1 \<and> version \<noteq> 4 then
                 kbind (kprintf (''SMP: Unsupported MP version %d'' @ newline) [Word32 (ucast version)])
                   (\<lambda>_. kret None)
               else
                 kbind (kload16 (conf + 40)) (\<lambda>xlength.
                 kbind (sum (conf + ucast length) (ucast xlength)) (\<lambda>xsum.
                 kbind (kload8 (conf + 42)) (\<lambda>xchecksum.
                 if xsum \<noteq> xchecksum then
                   kbind (kprintf (''SMP: Bad MP configuration extended checksum'' @ newline) [])
                     (\<lambda>_. kret None)
                 else kret (Some (conf, mp)))))))))))))"

text \<open>The loop over the entries of the table; \<open>n\<close> entries are left.\<close>

definition mp_cpu :: "u32 \<Rightarrow> unit kernel" where
  "mp_cpu proc =
     kbind (kload8 (proc + 3)) (\<lambda>flags.
     kbind (kwhen (flags AND MPPROC_BOOT \<noteq> 0) (kmod (\<lambda>s. s\<lparr>bootcpu := unat (ncpu s)\<rparr>))) (\<lambda>_.
     kbind (kget ncpu) (\<lambda>n.
     if sint n < int NCPU then
       kmod (\<lambda>s. s\<lparr>cpus := (cpus s)(unat n := cpus s (unat n)\<lparr>cpu_id := ucast n\<rparr>), ncpu := n + 1\<rparr>)
     else
       kbind (kload8 (proc + 1)) (\<lambda>apicid.
       kprintf (''SMP: too many CPUs, CPU %d disabled'' @ newline) [Word32 (ucast apicid)]))))"

primrec mp_entries :: "nat \<Rightarrow> u32 \<Rightarrow> unit kernel" where
  "mp_entries 0 p = kret ()"
| "mp_entries (Suc n) p =
     kbind (kload8 p) (\<lambda>type.
     if type = MPPROC then kbind (mp_cpu p) (\<lambda>_. mp_entries n (p + sizeof_mpproc))
     else if type = MPBUS \<or> type = MPIOAPIC \<or> type = MPIOINTR \<or> type = MPLINTR
       then mp_entries n (p + 8)
     else
       kbind (kprintf (''mpinit: unknown config type %x'' @ newline) [Word32 (ucast type)]) (\<lambda>_.
       kmod (\<lambda>s. s\<lparr>ismp := False\<rparr>)))"

definition mp_init :: "unit kernel" where
  "mp_init =
     kbind (kmod (\<lambda>s. s\<lparr>bootcpu := 0\<rparr>)) (\<lambda>_.
     kbind mpconfig (\<lambda>r. case r of
       None \<Rightarrow> kret ()
     | Some (conf, mp) \<Rightarrow>
         kbind (kload (conf + 36)) (\<lambda>addr.
         kbind (kmod (\<lambda>s. s\<lparr>ismp := True, lapicaddr := addr\<rparr>)) (\<lambda>_.
         kbind (kload16 (conf + 34)) (\<lambda>entry.
         kbind (mp_entries (unat entry) (conf + sizeof_mpconf)) (\<lambda>_.
         kbind (kmod (\<lambda>s. s\<lparr>cpus := (cpus s)(bootcpu s := cpus s (bootcpu s)\<lparr>cpu_status := CPU_STARTED\<rparr>)\<rparr>)) (\<lambda>_.
         kbind (kget ismp) (\<lambda>mp_ok.
         if \<not> mp_ok then
           kbind (kmod (\<lambda>s. s\<lparr>ncpu := 1, lapicaddr := 0\<rparr>)) (\<lambda>_.
           kprintf (''SMP: configuration not found, SMP disabled'' @ newline) [])
         else
           kbind (kget (\<lambda>s. (cpu_id (cpus s (bootcpu s)), ncpu s))) (\<lambda>(bid, n).
           kbind (kprintf (''SMP: CPU %d found %d CPU(s)'' @ newline) [Word32 (ucast bid), Word32 n]) (\<lambda>_.
           kbind (kload8 (mp + 12)) (\<lambda>imcrp.
           kwhen (imcrp \<noteq> 0)
             (kbind (kprintf (''SMP: Setting IMCR to switch from PIC mode to symmetric I/O mode'' @ newline) []) (\<lambda>_.
              kbind (kdev (outb 0x22 0x70)) (\<lambda>_.
              kbind (kio (inb 0x23)) (\<lambda>v.
              kdev (outb 0x23 (v OR 1)))))))))))))))))"

end
