(* ===== verification/Kern_Init.thy ===== *)
theory Kern_Init
  imports Mem_Init Trap Mpconfig
begin

text \<open>
  kern/init.c: the start of the kernel on the boot CPU and on the others, and what happens after a
  panic.  The boot CPU runs \<open>i386_init\<close>.  Another CPU enters through the assembly of
  kern/mpentry.S and runs \<open>mp_main\<close>; while the boot CPU waits for it, it runs as far as it sets
  its status, and waits for the big kernel lock after that.
\<close>

subsection \<open>Panics and warnings (kern/init.c)\<close>

text \<open>\<open>while (1) monitor(NULL)\<close>: the loop is followed for as many entries of the monitor as \<open>ns\<close> has
  elements, each for that number of command lines.\<close>

primrec monitor_forever :: "nat list \<Rightarrow> unit kernel" where
  "monitor_forever [] = kleave Monitor_loop"
| "monitor_forever (n # ns) = kbind (monitor n None) (\<lambda>_. monitor_forever ns)"

text \<open>\<open>_panic\<close>, where \<open>kpanic\<close> stands for a call of it that ends the run.\<close>

definition panic_run :: "nat list \<Rightarrow> string \<Rightarrow> u32 \<Rightarrow> string \<Rightarrow> varg list \<Rightarrow> unit kernel" where
  "panic_run ns file line fmt ap =
     kbind (kget panicstr) (\<lambda>p.
     kbind
       (if p \<noteq> None then kret ()
        else
          kbind (kmod (\<lambda>s. s\<lparr>panicstr := Some fmt\<rparr>)) (\<lambda>_.
          kbind cpunum (\<lambda>cpu.
          kbind (kprintf ''kernel panic on CPU %d at %s:%d: '' [Word32 cpu, Cstr (Some file), Word32 line]) (\<lambda>_.
          kbind (kprintf fmt ap) (\<lambda>_.
          kprintf newline []))))) (\<lambda>_.
     monitor_forever ns))"

definition warn_run :: "string \<Rightarrow> u32 \<Rightarrow> string \<Rightarrow> varg list \<Rightarrow> unit kernel" where
  "warn_run file line fmt ap =
     kbind (kprintf ''kernel warning at %s:%d: '' [Cstr (Some file), Word32 line]) (\<lambda>_.
     kbind (kprintf fmt ap) (\<lambda>_.
     kprintf newline []))"

lemma sint_dec: "0 < sint (x :: u32) \<Longrightarrow> sint (x - 1) = sint x - 1"
proof -
  assume "0 < sint x"
  moreover have "sint x < 2 ^ 31" using sint_lt [of x] by simp
  moreover have "sint (x - 1) = signed_take_bit 31 (sint x - 1)"
    using sint_word_ariths(2) [of x 1] by simp
  ultimately show ?thesis by (simp add: signed_take_bit_int_eq_self)
qed

function test_backtrace :: "u32 \<Rightarrow> unit kernel" where
  "test_backtrace x =
     kbind (kprintf (''entering test_backtrace %d'' @ newline) [Word32 x]) (\<lambda>_.
     kbind (if 0 < sint x then test_backtrace (x - 1) else kbind mon_backtrace (\<lambda>_. kret ())) (\<lambda>_.
     kprintf (''leaving test_backtrace %d'' @ newline) [Word32 x]))"
  by pat_completeness auto
termination by (relation "measure (\<lambda>x. nat (sint x))") (simp_all add: sint_dec)

declare test_backtrace.simps [simp del]

subsection \<open>The other CPUs\<close>

definition mp_main_setup :: "unit kernel" where
  "mp_main_setup =
     kbind (kget kern_pgdir) (\<lambda>kpd.
     kbind (PADDR kpd) (\<lambda>pa.
     kbind (lcr3 pa) (\<lambda>_.
     kbind cpunum (\<lambda>cpu.
     kbind (kprintf (''SMP: CPU %d starting'' @ newline) [Word32 cpu]) (\<lambda>_.
     kbind lapic_init (\<lambda>_.
     kbind env_init_percpu (\<lambda>_.
     kbind trap_init_percpu (\<lambda>_.
     kmod (\<lambda>s. s\<lparr>cpus := (cpus s)(thiscpu s := cpus s (thiscpu s)\<lparr>cpu_status := CPU_STARTED\<rparr>)\<rparr>)))))))))"

definition mp_main :: "unit kernel" where
  "mp_main =
     kbind mp_main_setup (\<lambda>_.
     kbind lock_kernel (\<lambda>_.
     sched_yield))"

text \<open>CPU \<open>c\<close> runs \<open>m\<close> while this one waits.\<close>

definition on_cpu :: "nat \<Rightarrow> 'a kernel \<Rightarrow> 'a kernel" where
  "on_cpu c m s =
     (case m (s\<lparr>thiscpu := c\<rparr>) of
        Ret x t \<Rightarrow> Ret x (t\<lparr>thiscpu := thiscpu s\<rparr>)
      | Panic e t \<Rightarrow> Panic e t
      | Leave e t \<Rightarrow> Leave e t)"

definition wait_started :: "nat \<Rightarrow> unit kernel" where
  "wait_started c =
     kbind (kget (\<lambda>s. cpu_status (cpus s c))) (\<lambda>st.
     if st = CPU_STARTED then kret ()
     else
       kbind (on_cpu c mp_main_setup) (\<lambda>_.
       kbind (kget (\<lambda>s. cpu_status (cpus s c))) (\<lambda>st.
       if st = CPU_STARTED then kret () else kleave Spin)))"

definition boot_ap :: "ksymbols \<Rightarrow> u32 \<Rightarrow> nat \<Rightarrow> unit kernel" where
  "boot_ap syms code c =
     kbind (kprintf (''c: %x'' @ newline @ newline) [Word32 (of_nat c)]) (\<lambda>_.
     kbind cpunum (\<lambda>me.
     if of_nat c = me then kret ()
     else
       kbind (kmod (\<lambda>s. s\<lparr>mpentry_kstack := sym_percpu_kstacks syms + of_nat c * KSTKSIZE + KSTKSIZE\<rparr>)) (\<lambda>_.
       kbind (kget mpentry_kstack) (\<lambda>st.
       kbind (kprintf (''mpentry_kstack: %x'' @ newline) [Word32 st]) (\<lambda>_.
       kbind (kprintf (''code: %x'' @ newline) [Word32 code]) (\<lambda>_.
       kbind (kget (\<lambda>s. cpu_id (cpus s c))) (\<lambda>cid.
       kbind (PADDR code) (\<lambda>pa.
       kbind (lapic_startap cid pa) (\<lambda>_.
       kbind (kget (\<lambda>s. cpu_status (cpus s c))) (\<lambda>st.
       kbind (kprintf (''c->cpu_status: %x'' @ newline) [Word32 st]) (\<lambda>_.
       kbind (wait_started c) (\<lambda>_.
       kprintf (''cpu %x started'' @ newline) [Word32 (of_nat c)]))))))))))))"

definition boot_aps :: "ksymbols \<Rightarrow> unit kernel" where
  "boot_aps syms =
     (let size = sym_mpentry_end syms - sym_mpentry_start syms in
      kbind (KADDR MPENTRY_PADDR) (\<lambda>code.
      kbind (kmemcpy code (sym_mpentry_start syms) (unat size)) (\<lambda>_.
      kbind (kprintf (''code size: %x'' @ newline) [Word32 size]) (\<lambda>_.
      kbind (kprintf (''code addr: %x, mpentry_start addr: %x'' @ newline)
        [Word32 code, Word32 (sym_mpentry_start syms)]) (\<lambda>_.
      kbind (kget cpus_kva) (\<lambda>c.
      kbind (kprintf (''boot_aps:cpus: %x'' @ newline) [Word32 c]) (\<lambda>_.
      kbind (kget ncpu) (\<lambda>n.
      kbind (kprintf (''ncpu: %x, CpuInfo size: %x'' @ newline) [Word32 n, Word32 sizeof_CpuInfo]) (\<lambda>_.
      kfor [0..<unat n] (boot_ap syms code))))))))))"

subsection \<open>The boot CPU\<close>

definition null_gate :: Gatedesc where
  "null_gate = \<lparr>gd_off_15_0 = 0, gd_sel = 0, gd_args = 0, gd_rsv1 = 0, gd_type = 0, gd_s = 0, gd_dpl = 0,
     gd_p = 0, gd_off_31_16 = 0\<rparr>"

text \<open>The variables of the model that lie in the BSS section: \<open>memset(edata, 0, end - edata)\<close>.\<close>

definition clear_bss :: "kstate \<Rightarrow> kstate" where
  "clear_bss s = s\<lparr>npages := 0, npages_basemem := 0, kern_pgdir := 0, pages_kva := 0, page_free_list := None,
     nextfree := 0, user_mem_check_addr := 0, envs_kva := 0, env_free_list := None, idt := (\<lambda>_. null_gate),
     cpus := (\<lambda>_. \<lparr>cpu_id = 0, cpu_status = CPU_UNUSED, cpu_env = None, cpu_ts = zero_ts\<rparr>),
     last_tf := 0, bootcpu := 0, ismp := False, ncpu := 0, lapicaddr := 0, lapic := 0, mpentry_kstack := 0,
     panicstr := None,
     cons := (cons s)\<lparr>csa := 0, serial_exists := False, addr_6845 := 0, crt_buf := 0, crt_pos := 0, didinit := False,
       kbd_shift := 0, cons_buf := (\<lambda>_. 0), cons_rpos := 0, cons_wpos := 0, line_buf := (\<lambda>_. 0)\<rparr>\<rparr>"

definition kernel_cons_init :: "u16 \<Rightarrow> unit kernel" where
  "kernel_cons_init probe = kwait (\<lambda>c. map_option (Pair ()) (cons_init probe c))"

text \<open>The handlers in \<open>funs\<close> are those of kern/trapentry.S; \<open>probe\<close> is what the display answers.\<close>

definition i386_init :: "ksymbols \<Rightarrow> (nat \<Rightarrow> u32) \<Rightarrow> u16 \<Rightarrow> unit kernel" where
  "i386_init syms funs probe =
     kbind (kget image) (\<lambda>im.
     kbind (kmemset (sym_edata im) 0 (unat (sym_end im - sym_edata im))) (\<lambda>_.
     kbind (kmod clear_bss) (\<lambda>_.
     kbind (kernel_cons_init probe) (\<lambda>_.
     kbind (kprintf (''6828 decimal is %o octal!'' @ newline) [Word32 6828]) (\<lambda>_.
     kbind (mem_init syms) (\<lambda>_.
     kbind env_init (\<lambda>_.
     kbind (trap_init funs) (\<lambda>_.
     kbind mp_init (\<lambda>_.
     kbind lapic_init (\<lambda>_.
     kbind (kdev pic_init) (\<lambda>_.
     kbind lock_kernel (\<lambda>_.
     kbind (boot_aps syms) (\<lambda>_.
     kbind (env_create (sym_user_yield syms) ENV_TYPE_USER) (\<lambda>_.
     kbind (env_create (sym_user_yield syms) ENV_TYPE_USER) (\<lambda>_.
     kbind (env_create (sym_user_yield syms) ENV_TYPE_USER) (\<lambda>_.
     sched_yield))))))))))))))))"

end
