(* ===== verification/Init_Spec.thy ===== *)
theory Init_Spec
  imports Kern_Init Exit_Spec
begin

text \<open>
  How the start of the kernel ends: the boot CPU and every other CPU leave it through the scheduler,
  with the lock released, as every trap does.
\<close>

subsection \<open>Memory management\<close>

lemma exits_linkptr [exits_intro]: "exits exit_ok (put_link p v l)"
  unfolding put_link_def by (cases p) (simp_all, (intro exits_intro)+)

lemma exits_for_links [exits_intro]: "(\<And>i. exits exit_ok (body i)) \<Longrightarrow> exits exit_ok (for_links n body p)"
  by (induction n arbitrary: p) (simp_all, (intro exits_intro; simp)+)

lemma exits_split_loop [exits_intro]: "exits exit_ok (split_pages n lim p l)"
  by (induction n arbitrary: p l) (simp_all add: Let_def, (intro exits_intro; simp)+)

lemma exits_check_free_page [exits_intro]: "exits exit_ok (check_free_page a i)"
  unfolding check_free_page_def by (intro exits_intro)

lemma exits_count_free [exits_intro]: "exits exit_ok (count_free n a p c)"
  by (induction n arbitrary: p c) (simp_all, (intro exits_intro; simp)+)

lemma exits_count_links [exits_intro]: "exits exit_ok (count_links n p)"
  by (induction n arbitrary: p) (simp_all, (intro exits_intro; simp)+)

lemma exits_boot_alloc [exits_intro]: "exits exit_ok (boot_alloc a n)" "exits exit_ok (kload8 p)"
  unfolding boot_alloc_def by ((intro exits_intro)+, rule exitsI, simp add: kload8_def split: if_splits)

lemma exits_free_list [exits_intro]: "exits exit_ok (check_page_free_list low)"
  unfolding check_page_free_list_def low_pages_first_def for_free_pages_def Let_def by (intro exits_intro)

lemma exits_page_tests [exits_intro]:
  "exits exit_ok (must_alloc f)" "exits exit_ok no_free_page" "exits exit_ok (set_free_list fl)"
  "exits exit_ok (check_in_memory i)"
  unfolding must_alloc_def no_free_page_def set_free_list_def check_in_memory_def by (intro exits_intro)+

lemma exits_three_pages [exits_intro]: "exits exit_ok three_pages" "exits exit_ok (free_three i j k)" "exits exit_ok (check_alloc_zero i)"
  unfolding three_pages_def free_three_def check_alloc_zero_def by (intro exits_intro)+

lemma exits_check_page_alloc [exits_intro]: "exits exit_ok check_page_alloc"
  unfolding check_page_alloc_def free_page_count_def by (intro exits_intro)

lemma exits_boot_map [exits_intro]: "exits exit_ok (boot_map_region d va sz pa perm)" "exits exit_ok (mmio_map_region pa sz)"
  "exits exit_ok (check_va2pa d va)"
proof -
  have loop: "exits exit_ok (boot_map_loop n d va pa perm)" for n d va pa perm
    by (induction n arbitrary: va pa) (simp_all, (intro exits_intro; simp)+)
  show map: "exits exit_ok (boot_map_region d va sz pa perm)" for d va sz pa perm
    unfolding boot_map_region_def by (intro exits_intro loop)
  show "exits exit_ok (mmio_map_region pa sz)"
    unfolding mmio_map_region_def Let_def by (intro exits_intro map)
  show "exits exit_ok (check_va2pa d va)" unfolding check_va2pa_def by (intro exits_intro)
qed

lemma exits_assertions [exits_intro]:
  "exits exit_ok (maps_to d va pa)" "exits exit_ok (has_refs i r)" "exits exit_ok (inserts d i va perm)"
  "exits exit_ok (insert_fails d i va perm)" "exits exit_ok (entry_flags d va P)" "exits exit_ok (table_is d n i)"
  "exits exit_ok (alloc_gives i)" "exits exit_ok (set_refs i r)" "exits exit_ok (clear_entry d va)"
  unfolding maps_to_def has_refs_def inserts_def insert_fails_def entry_flags_def table_is_def alloc_gives_def
    set_refs_def clear_entry_def
  by (intro exits_intro)+

lemma exits_check_page [exits_intro]: "exits exit_ok check_page"
  unfolding check_page_def check_page_insert_def check_page_perm_def check_page_remove_def check_page_walk_def check_mmio_def Let_def
  by (intro exits_intro)

lemma exits_check_range [exits_intro]: "exits exit_ok (check_range n d va pa)" "exits exit_ok (check_unmapped n d va)"
proof -
  show "exits exit_ok (check_range n d va pa)"
    by (induction n arbitrary: va pa) (simp_all, (intro exits_intro; simp)+)
  show "exits exit_ok (check_unmapped n d va)"
    by (induction n arbitrary: va) (simp_all, (intro exits_intro; simp)+)
qed

lemma exits_check_kern_pgdir [exits_intro]: "exits exit_ok (check_kern_pgdir p)"
  unfolding check_kern_pgdir_def check_stack_def check_pde_def Let_def by (intro exits_intro)

lemma exits_mem_init_maps [exits_intro]: "exits exit_ok (mem_init_maps syms)"
proof -
  have "exits exit_ok (mem_init_mp_loop n p)" for n p
  proof (induction n)
    case (Suc n)
    then show ?case unfolding mem_init_mp_loop.simps Let_def by (intro exits_intro)
  qed (simp, intro exits_intro)
  then show ?thesis unfolding mem_init_maps_def mem_init_mp_def by (intro exits_intro)
qed

lemma exits_vmem [exits_intro]: "exits exit_ok (vload32 va)" "exits exit_ok (vstore32 va v)"
  unfolding vload32_def vstore32_def by (intro exits_intro)+

lemma exits_mem_init [exits_intro]: "exits exit_ok (mem_init syms)"
  unfolding mem_init_def mem_init_arrays_def i386_detect_memory_def nvram_read_def page_init_def mem_init_switch_def mem_init_cr0_def
    check_page_installed_pgdir_def Let_def
  by (intro exits_intro)

subsection \<open>The processors\<close>

lemma exits_mp_init [exits_intro]: "exits exit_ok mp_init"
proof -
  have l16: "exits exit_ok (kload16 p)" for p
    unfolding kload16_def by (intro exits_intro)
  have bytes: "exits exit_ok (kbytes_are p cs)" for p cs
    by (induction cs arbitrary: p) (simp_all, (intro exits_intro; simp)+)
  have sl: "exits exit_ok (sum_loop n p r)" for n p r
    by (induction n arbitrary: p r) (simp_all, (intro exits_intro; simp)+)
  have sum: "exits exit_ok (Mpconfig.sum p n)" for p n unfolding Mpconfig.sum_def by (intro exits_intro sl)
  have search: "exits exit_ok (mpsearch_loop n p)" for n p
    by (induction n arbitrary: p) (simp_all, (intro exits_intro bytes sum; simp)+)
  have cpu: "exits exit_ok (mp_cpu p)" for p unfolding mp_cpu_def by (intro exits_intro)
  have entries: "exits exit_ok (mp_entries n p)" for n p
    by (induction n arbitrary: p) (simp_all, (intro exits_intro cpu; simp)+)
  show ?thesis
    unfolding mp_init_def mpconfig_def mpsearch_def mpsearch1_def Let_def
    by (intro exits_intro l16 bytes sum search entries)
qed

lemma exits_lapic_init [exits_intro]: "exits exit_ok lapic_init" "exits exit_ok (lapic_startap i a)"
proof -
  have d: "exits exit_ok lapic_delivered" by (rule exitsI) (simp add: lapic_delivered_def split: option.splits)
  show "exits exit_ok lapic_init" unfolding lapic_init_def by (intro exits_intro d)
  have s: "exits exit_ok (kstore16 p v)" for p v by (rule exitsI) (simp add: kstore16_def split: if_splits)
  show "exits exit_ok (lapic_startap i a)" unfolding lapic_startap_def by (intro exits_intro s)
qed

lemma exits_percpu [exits_intro]: "exits exit_ok env_init_percpu" "exits exit_ok trap_init_percpu" "exits exit_ok env_init"
  "exits exit_ok (trap_init funs)"
  unfolding env_init_def env_init_percpu_def trap_init_def trap_init_percpu_def by (intro exits_intro)+

lemma exits_mp_main_setup [exits_intro]: "exits exit_ok mp_main_setup"
  unfolding mp_main_setup_def by (intro exits_intro)

lemma exits_on_cpu [exits_intro]: "exits exit_ok m \<Longrightarrow> exits exit_ok (on_cpu c m)"
  by (auto simp: exits_def on_cpu_def split: kres.splits)

lemma exits_boot_aps [exits_intro]: "exits exit_ok (boot_aps syms)"
  unfolding boot_aps_def boot_ap_def wait_started_def Let_def by (intro exits_intro)

lemma exits_region_alloc_loop: "exits exit_ok (region_alloc_loop e i n)"
proof (induction e i n rule: region_alloc_loop.induct)
  case step: (1 e i n)
  have "exits exit_ok (region_alloc_loop e (i + 4096) n)" if "i < n" using step that by blast
  then show ?case unfolding region_alloc_loop.simps [of e i n] by (intro exits_intro)
qed

lemma exits_vmem_loops: "exits exit_ok (vmemset n va c)" "exits exit_ok (vmemcpy n va p)"
proof -
  show "exits exit_ok (vmemset n va c)" by (induction n arbitrary: va) (simp_all, (intro exits_intro; simp)+)
  show "exits exit_ok (vmemcpy n va p)" by (induction n arbitrary: va p) (simp_all, (intro exits_intro; simp)+)
qed

lemma exits_env_create [exits_intro]: "exits exit_ok (env_create b ty)"
  unfolding env_create_def load_icode_def load_segment_def region_alloc_def read_elf_def read_proghdr_def Let_def
  by (intro exits_intro exits_region_alloc_loop exits_vmem_loops)

lemma exits_start: "exits exit_ok (i386_init syms funs probe)" "exits exit_ok mp_main"
  unfolding i386_init_def kernel_cons_init_def mp_main_def by (intro exits_intro)+

lemma noreturn_start: "noreturn (i386_init syms funs probe)" "noreturn mp_main"
  unfolding i386_init_def mp_main_def by (intro noreturn_intro)+


text \<open>A machine whose lock is free.\<close>

definition open_machine :: kstate where
  "open_machine = small_machine\<lparr>kernel_lock := (kernel_lock small_machine)\<lparr>locked := 0, lk_cpu := None\<rparr>\<rparr>"

lemma open_machine_setup:
  "\<exists>u. mp_main_setup open_machine = Ret () u \<and> envs u = envs small_machine \<and> curenv u = None \<and>
    kernel_lock u = kernel_lock open_machine \<and> thiscpu u = 0"
  by (simp add: mp_main_setup_def open_machine_def small_machine_def kbind_Ret PADDR_def layout lcr3_def cpunum_def lapic_init_def
      env_init_percpu_def trap_init_percpu_def hw_def curenv_def kprim kprintf_Ret)


end
