(* ===== verification/Pthread.thy ===== *)
theory Pthread
  imports Main
begin

text \<open>
  The producer and the customer of OSLab2-PThread/main.c: two threads, a mutex and two
  condition variables.  A step is what one thread does between two synchronisation points.
  A thread that waits has given up the mutex; a signal moves it to the threads that contend
  for the mutex.  POSIX also allows a thread to wake without a signal; these spurious wakeups
  are steps of their own, so that their effect can be told apart.
\<close>

subsection \<open>The two threads\<close>

abbreviation (input) TOTAL :: int where "TOTAL \<equiv> 10"

text \<open>Where a thread is: about to lock, inside with the lock taken, past the change of \<open>goods\<close>,
  past its wait or the test for it, waiting for the condition, woken and in need of the mutex,
  and about to unlock.\<close>

datatype tpc = Locking | Counting | Testing | Signalling | Waiting | Woken | Unlocking

datatype thread = Producer | Customer

record shop =
  goods :: int
  mutex :: "thread option"
  at :: "thread \<Rightarrow> tpc"

definition other :: "thread \<Rightarrow> thread" where
  "other t = (case t of Producer \<Rightarrow> Customer | Customer \<Rightarrow> Producer)"

definition goto :: "thread \<Rightarrow> tpc \<Rightarrow> shop \<Rightarrow> shop" where
  "goto t l s = s\<lparr>at := (at s)(t := l)\<rparr>"

text \<open>\<open>goods++\<close> of the producer, \<open>goods--\<close> of the customer.\<close>

definition change :: "thread \<Rightarrow> int" where
  "change t = (case t of Producer \<Rightarrow> 1 | Customer \<Rightarrow> - 1)"

text \<open>The count at which a thread waits, and the one at which it wakes the other.\<close>

definition wait_at :: "thread \<Rightarrow> int" where
  "wait_at t = (case t of Producer \<Rightarrow> TOTAL | Customer \<Rightarrow> 0)"

definition signal_at :: "thread \<Rightarrow> int" where
  "signal_at t = (case t of Producer \<Rightarrow> 1 | Customer \<Rightarrow> TOTAL - 1)"

text \<open>\<open>pthread_cond_signal\<close> wakes the other thread if it waits.\<close>

definition cond_signal :: "thread \<Rightarrow> shop \<Rightarrow> shop" where
  "cond_signal t s = (if at s (other t) = Waiting then goto (other t) Woken s else s)"

definition thread_step :: "thread \<Rightarrow> shop \<Rightarrow> shop option" where
  "thread_step t s =
     (case at s t of
        Locking \<Rightarrow> if mutex s = None then Some (goto t Counting (s\<lparr>mutex := Some t\<rparr>)) else None
      | Counting \<Rightarrow> Some (goto t Testing (s\<lparr>goods := goods s + change t\<rparr>))
      | Testing \<Rightarrow>
          if goods s = wait_at t then Some (goto t Waiting (s\<lparr>mutex := None\<rparr>))
          else Some (goto t Signalling s)
      | Waiting \<Rightarrow> None
      | Woken \<Rightarrow> if mutex s = None then Some (goto t Signalling (s\<lparr>mutex := Some t\<rparr>)) else None
      | Signalling \<Rightarrow> Some (goto t Unlocking (if goods s = signal_at t then cond_signal t s else s))
      | Unlocking \<Rightarrow> Some (goto t Locking (s\<lparr>mutex := None\<rparr>)))"

definition shop_init :: shop where
  "shop_init = \<lparr>goods = 2, mutex = None, at = (\<lambda>_. Locking)\<rparr>"

inductive shop_step :: "shop \<Rightarrow> shop \<Rightarrow> bool" where
  run: "thread_step t s = Some s' \<Longrightarrow> shop_step s s'"

inductive_cases shop_stepE: "shop_step s s'"

inductive shop_reachable :: "shop \<Rightarrow> bool" where
  init: "shop_reachable shop_init"
| step: "shop_reachable s \<Longrightarrow> shop_step s s' \<Longrightarrow> shop_reachable s'"

subsection \<open>Safety without spurious wakeups\<close>

definition inside :: "tpc \<Rightarrow> bool" where
  "inside l \<longleftrightarrow> l = Counting \<or> l = Testing \<or> l = Signalling \<or> l = Unlocking"

text \<open>The count when no thread is between its change and its test.  A waiting producer means a
  full shop, unless the customer has just taken one and is about to signal; and conversely.\<close>

definition thread_inv :: "thread \<Rightarrow> shop \<Rightarrow> bool" where
  "thread_inv t s \<longleftrightarrow>
     (mutex s = Some t \<longleftrightarrow> inside (at s t)) \<and>
     (at s t \<noteq> Testing \<and> at s t \<noteq> Waiting \<longrightarrow> goods s \<noteq> wait_at t) \<and>
     (at s t = Waiting \<longrightarrow> goods s = wait_at t \<or>
        goods s = wait_at t - change t \<and> (at s (other t) = Testing \<or> at s (other t) = Signalling))"

definition shop_inv :: "shop \<Rightarrow> bool" where
  "shop_inv s \<longleftrightarrow> (\<forall>t. thread_inv t s) \<and> 0 \<le> goods s \<and> goods s \<le> TOTAL"

lemma all_thread: "(\<forall>t. P t) \<longleftrightarrow> P Producer \<and> P Customer"
  by (metis thread.exhaust)

lemmas thread_consts = other_def change_def wait_at_def signal_at_def goto_def cond_signal_def inside_def

lemma shop_inv_init: "shop_inv shop_init"
  by (simp add: shop_inv_def thread_inv_def all_thread shop_init_def thread_consts)

text \<open>The invariant from the point of view of one thread.\<close>

lemma shop_inv_thread:
  "shop_inv s \<longleftrightarrow> thread_inv t s \<and> thread_inv (other t) s \<and> 0 \<le> goods s \<and> goods s \<le> TOTAL"
  by (cases t) (auto simp: shop_inv_def all_thread other_def)

lemma thread_numbers:
  "t \<noteq> other t" "other t \<noteq> t" "other (other t) = t" "change (other t) = - change t"
  "wait_at t - change t = signal_at (other t)"
  by (cases t; simp add: thread_consts)+

lemma wait_apart: "wait_at t \<noteq> wait_at (other t) + change t" "wait_at t \<noteq> wait_at (other t)"
  "signal_at t = wait_at (other t) + change t" "change t \<noteq> 0"
  by (cases t; simp add: thread_consts)+

lemma wait_bounds:
  "0 \<le> g \<Longrightarrow> g \<le> TOTAL \<Longrightarrow> g \<noteq> wait_at t \<Longrightarrow>
    0 \<le> g + change t \<and> g + change t \<le> TOTAL \<and> g + change t \<noteq> wait_at (other t)"
  by (cases t) (simp_all add: thread_consts)

lemma shop_inv_step:
  assumes inv: "shop_inv s" and st: "thread_step t s = Some s'"
  shows "shop_inv s'"
proof -
  note i = inv [unfolded shop_inv_thread [of s t]]
  note n = thread_numbers [of t] thread_numbers [of "other t"]
  have ti: "thread_inv t s" and oi: "thread_inv (other t) s" and b: "0 \<le> goods s" "goods s \<le> TOTAL"
    using i by auto
  note d = shop_inv_thread [of _ t] thread_inv_def goto_def inside_def n
  show ?thesis
  proof (cases "at s t")
    case Locking
    with st have "s' = goto t Counting (s\<lparr>mutex := Some t\<rparr>)" "mutex s = None"
      by (auto simp: thread_step_def split: if_splits)
    with ti oi b Locking show ?thesis by (auto simp: d)
  next
    case Counting
    with st have s': "s' = goto t Testing (s\<lparr>goods := goods s + change t\<rparr>)"
      by (simp add: thread_step_def)
    have "goods s \<noteq> wait_at t" using ti Counting by (simp add: thread_inv_def)
    note w = wait_bounds [OF b this]
    have "at s (other t) = Waiting \<Longrightarrow> goods s = wait_at (other t)"
      using oi Counting by (auto simp: thread_inv_def n)
    with ti oi w Counting s' show ?thesis by (auto simp: d)
  next
    case Testing
    with st consider "s' = goto t Waiting (s\<lparr>mutex := None\<rparr>)" "goods s = wait_at t"
      | "s' = goto t Signalling s" "goods s \<noteq> wait_at t"
      by (auto simp: thread_step_def split: if_splits)
    then show ?thesis using ti oi b Testing wait_apart [of t] by cases (auto simp: d)
  next
    case Signalling
    show ?thesis
    proof (cases "goods s = signal_at t \<and> at s (other t) = Waiting")
      case True
      with st Signalling have "s' = goto t Unlocking (goto (other t) Woken s)"
        by (simp add: thread_step_def cond_signal_def)
      with ti oi b Signalling True wait_apart [of t] show ?thesis by (auto simp: d)
    next
      case False
      with st Signalling have "s' = goto t Unlocking s"
        by (auto simp: thread_step_def cond_signal_def split: if_splits)
      with ti oi b Signalling False wait_apart [of t] show ?thesis by (auto simp: d)
    qed
  next
    case Woken
    with st have "s' = goto t Signalling (s\<lparr>mutex := Some t\<rparr>)" "mutex s = None"
      by (auto simp: thread_step_def split: if_splits)
    with ti oi b Woken show ?thesis by (auto simp: d)
  next
    case Unlocking
    with st have "s' = goto t Locking (s\<lparr>mutex := None\<rparr>)" by (simp add: thread_step_def)
    with ti oi b Unlocking show ?thesis by (auto simp: d)
  qed (use st in \<open>simp add: thread_step_def\<close>)
qed

lemma shop_reachable_inv: "shop_reachable s \<Longrightarrow> shop_inv s"
  by (induction rule: shop_reachable.induct) (auto elim!: shop_stepE intro: shop_inv_init shop_inv_step)

lemma shop_inv_mutex: "shop_inv s \<Longrightarrow> mutex s = Some t \<longleftrightarrow> inside (at s t)"
  unfolding shop_inv_def thread_inv_def by blast

text \<open>C31. Without spurious wakeups the two threads are never inside together, the number of goods
  stays between 0 and \<open>TOTAL\<close>, and there is always a thread that can go on, so that the two
  never both sleep.\<close>

theorem shop_safe:
  assumes "shop_reachable s"
  shows "\<not> (inside (at s Producer) \<and> inside (at s Customer)) \<and> 0 \<le> goods s \<and> goods s \<le> TOTAL \<and>
    (\<exists>t s'. thread_step t s = Some s')"
proof -
  have inv: "shop_inv s" using assms by (rule shop_reachable_inv)
  have "\<exists>t s'. thread_step t s = Some s'"
  proof (cases "mutex s")
    case None
    then have "\<not> inside (at s Producer)" "\<not> inside (at s Customer)"
      by (simp_all flip: shop_inv_mutex [OF inv])
    moreover have "\<not> (at s Producer = Waiting \<and> at s Customer = Waiting)"
    proof
      assume "at s Producer = Waiting \<and> at s Customer = Waiting"
      with inv have "goods s = wait_at Producer" "goods s = wait_at Customer"
        by (simp_all add: shop_inv_def all_thread thread_inv_def other_def)
      then show False by (simp add: wait_at_def)
    qed
    ultimately have "at s Producer \<in> {Locking, Woken} \<or> at s Customer \<in> {Locking, Woken}"
      by (cases "at s Producer"; cases "at s Customer") (auto simp: inside_def)
    then obtain t where "at s t = Locking \<or> at s t = Woken" by blast
    with None have "\<exists>s'. thread_step t s = Some s'" by (auto simp: thread_step_def)
    then show ?thesis by blast
  next
    case (Some t)
    then have "inside (at s t)" by (simp flip: shop_inv_mutex [OF inv])
    then have "\<exists>s'. thread_step t s = Some s'" by (auto simp: thread_step_def inside_def)
    then show ?thesis by blast
  qed
  moreover have "\<not> (inside (at s Producer) \<and> inside (at s Customer))"
    by (simp flip: shop_inv_mutex [OF inv])
  ultimately show ?thesis using inv by (simp add: shop_inv_def)
qed

subsection \<open>Executions\<close>

text \<open>A schedule: the thread that runs next, or a thread that wakes up spuriously.\<close>

datatype event = Run thread | Wake thread

fun exec_event :: "event \<Rightarrow> shop \<Rightarrow> shop option" where
  "exec_event (Run t) s = thread_step t s"
| "exec_event (Wake t) s = (if at s t = Waiting then Some (goto t Woken s) else None)"

fun exec_events :: "event list \<Rightarrow> shop \<Rightarrow> shop option" where
  "exec_events [] s = Some s"
| "exec_events (e # es) s = (case exec_event e s of None \<Rightarrow> None | Some s' \<Rightarrow> exec_events es s')"

lemma exec_reachable:
  "shop_reachable s \<Longrightarrow> exec_events (map Run ts) s = Some s' \<Longrightarrow> shop_reachable s'"
proof (induction ts arbitrary: s)
  case (Cons t ts)
  then obtain u where u: "thread_step t s = Some u" "exec_events (map Run ts) u = Some s'"
    by (auto split: option.splits)
  have "shop_reachable u" by (rule shop_reachable.step [OF Cons.prems(1) shop_step.run [OF u(1)]])
  then show ?case using Cons.IH u(2) by blast
qed simp

text \<open>One round of the producer that does not wait.\<close>

abbreviation (input) produce :: "event list" where
  "produce \<equiv> replicate 5 (Run Producer)"

lemma shop_safe_witness:
  "\<exists>s. shop_reachable s \<and> at s Producer = Waiting \<and> goods s = TOTAL \<and> (\<exists>t s'. thread_step t s = Some s')"
proof -
  let ?ts = "concat (replicate 7 (replicate 5 Producer)) @ replicate 3 Producer"
  have "\<exists>s. exec_events (map Run ?ts) shop_init = Some s \<and> at s Producer = Waiting \<and> goods s = TOTAL"
    by (simp add: numeral_eq_Suc thread_step_def shop_init_def thread_consts)
  then obtain s where "shop_reachable s" "at s Producer = Waiting" "goods s = TOTAL"
    using exec_reachable [OF shop_reachable.init] by blast
  with shop_safe [of s] show ?thesis by blast
qed



end
