(* ===== verification/Minishell.thy ===== *)
theory Minishell
  imports Cstring
begin

text \<open>
  The shell of OSLab3-MiniShell/main.c.  The command line is edited in place, so that \<open>merge\<close>
  and \<open>splitCommand\<close> work on the byte memory of Cstring; a pointer 0 is \<open>NULL\<close>.  What the
  operating system answers (\<open>chdir\<close>, \<open>execv\<close>) is a parameter; what the shell asks of it is a
  list of actions.  An access outside an array or through \<open>NULL\<close> is a fault of its own.
\<close>

subsection \<open>The command line\<close>

abbreviation (input) LEN :: nat where "LEN \<equiv> 128"
abbreviation (input) SHOR :: nat where "SHOR \<equiv> 16"

text \<open>\<open>merge\<close>: the inner loop goes to the last of several blanks.\<close>

partial_function (option) merge_skip :: "memory \<Rightarrow> u32 \<Rightarrow> u32 option" where
  "merge_skip m s = (if m s = 0x20 \<and> m (s + 1) = 0x20 then merge_skip m (s + 1) else Some s)"

partial_function (option) merge_loop :: "memory \<Rightarrow> u32 \<Rightarrow> u32 \<Rightarrow> memory option" where
  "merge_loop m s p =
     (if m s \<noteq> 0 then Option.bind (merge_skip m s) (\<lambda>s. merge_loop (m(p := m s)) (s + 1) (p + 1))
      else Some (m(p := 0)))"

definition merge :: "memory \<Rightarrow> u32 \<Rightarrow> memory option" where
  "merge m s = merge_loop m s s"

text \<open>\<open>strtok\<close> of the C library keeps in \<open>saved\<close> where the next token starts; it returns the
  memory, the new \<open>saved\<close> and the token.\<close>

partial_function (option) skip_seps :: "memory \<Rightarrow> u8 list \<Rightarrow> u32 \<Rightarrow> u32 option" where
  "skip_seps m seps s = (if m s \<noteq> 0 \<and> m s \<in> set seps then skip_seps m seps (s + 1) else Some s)"

partial_function (option) skip_word :: "memory \<Rightarrow> u8 list \<Rightarrow> u32 \<Rightarrow> u32 option" where
  "skip_word m seps s = (if m s \<noteq> 0 \<and> m s \<notin> set seps then skip_word m seps (s + 1) else Some s)"

definition strtok :: "memory \<Rightarrow> u32 \<Rightarrow> u32 \<Rightarrow> u8 list \<Rightarrow> (memory \<times> u32 \<times> u32) option" where
  "strtok m saved str seps =
     Option.bind (skip_seps m seps (if str \<noteq> 0 then str else saved)) (\<lambda>s.
       if m s = 0 then Some (m, s, 0)
       else Option.bind (skip_word m seps s) (\<lambda>e.
         if m e = 0 then Some (m, e, s) else Some (m(e := 0), e + 1, s)))"

datatype fault = Overrun | Null_pointer

partial_function (option) split_loop ::
  "memory \<Rightarrow> u32 \<Rightarrow> u8 list \<Rightarrow> u32 \<Rightarrow> u32 list \<Rightarrow> nat \<Rightarrow>
    (fault + memory \<times> u32 \<times> u32 list \<times> nat) option" where
  "split_loop m saved seps token result count =
     (if token \<noteq> 0 then
        if count < length result then
          Option.bind (strtok m saved 0 seps) (\<lambda>(m, saved, token').
            split_loop m saved seps token' (result[count := token]) (count + 1))
        else Some (Inl Overrun)
      else Some (Inr (m, saved, result, count)))"

text \<open>\<open>splitCommand\<close> stores the tokens in the array \<open>result\<close> and returns how many there were.\<close>

definition splitCommand ::
  "memory \<Rightarrow> u32 \<Rightarrow> u32 \<Rightarrow> u8 list \<Rightarrow> u32 list \<Rightarrow> (fault + memory \<times> u32 \<times> u32 list \<times> nat) option" where
  "splitCommand m saved str seps result =
     Option.bind (strtok m saved str seps) (\<lambda>(m, saved, token).
       split_loop m saved seps token result 0)"

subsection \<open>Commands\<close>

datatype act =
    Chdir u32
  | Getcwd
  | Say string
  | Exec "u8 list" "u32 list"
  | Pipe
  | Dup bool
  | Fork "fault + act list"
  | Wait
  | Exit

text \<open>The system: whether \<open>chdir\<close> on the string at a pointer, and \<open>execv\<close>, succeed.\<close>

record os =
  chdir_ok :: "memory \<Rightarrow> u32 \<Rightarrow> bool"
  execv_ok :: "memory \<Rightarrow> u8 list \<Rightarrow> u32 list \<Rightarrow> bool"

definition bytes_at :: "memory \<Rightarrow> u32 \<Rightarrow> u32 \<Rightarrow> u8 list" where
  "bytes_at m p n = map (\<lambda>i. m (p + of_nat i)) [0..<unat n]"

text \<open>\<open>execute\<close> has room for 64 bytes of path, and \<open>execv\<close> reads the arguments up to a \<open>NULL\<close>.\<close>

definition bin :: "u8 list" where
  "bin = [0x2F, 0x62, 0x69, 0x6E, 0x2F]"

definition execute :: "os \<Rightarrow> memory \<Rightarrow> u32 list \<Rightarrow> (fault + act list) option" where
  "execute os m cmds =
     (if cmds ! 0 = 0 then Some (Inl Null_pointer)
      else Option.bind (strlen m (cmds ! 0)) (\<lambda>n.
        if 64 \<le> length bin + unat n then Some (Inl Overrun)
        else if 0 \<notin> set cmds then Some (Inl Overrun)
        else let path = bin @ bytes_at m (cmds ! 0) n; argv = takeWhile (\<lambda>p. p \<noteq> 0) cmds
          in Some (Inr (Exec path argv #
            (if execv_ok os m path argv then [] else [Say ''Wrong Command!'', Exit])))))"

text \<open>\<open>strcmp\<close> with a literal returns 0 exactly when the bytes are those of the literal.\<close>

definition lit_exit :: "u8 list" where "lit_exit = [0x65, 0x78, 0x69, 0x74]"
definition lit_cd :: "u8 list" where "lit_cd = [0x63, 0x64]"
definition lit_pwd :: "u8 list" where "lit_pwd = [0x70, 0x77, 0x64]"

text \<open>\<open>fatherCommand\<close> returns its result and what it does; \<open>exit\<close> does not return.\<close>

definition fatherCommand :: "os \<Rightarrow> memory \<Rightarrow> u32 list \<Rightarrow> fault + bool \<times> act list" where
  "fatherCommand os m cmds =
     (if cmds ! 0 = 0 then Inl Null_pointer
      else if cstr m (cmds ! 0) lit_exit then Inr (True, [Exit])
      else if cstr m (cmds ! 0) lit_cd then
        Inr (True, Chdir (cmds ! 1) #
          (if cmds ! 1 \<noteq> 0 \<and> chdir_ok os m (cmds ! 1) then [Getcwd, Say ''Dir is:''] else [Say ''Error path!'']))
      else if cstr m (cmds ! 0) lit_pwd then Inr (True, [Getcwd, Say ''Dir is:''])
      else Inr (False, []))"

definition prefix_acts :: "act list \<Rightarrow> fault + act list \<Rightarrow> fault + act list" where
  "prefix_acts as r = (case r of Inl e \<Rightarrow> Inl e | Inr bs \<Rightarrow> Inr (as @ bs))"

text \<open>\<open>excutePipe\<close>: the child writes into the pipe, its parent reads from it.\<close>

definition excutePipe :: "os \<Rightarrow> memory \<Rightarrow> u32 list \<Rightarrow> u32 list \<Rightarrow> (fault + act list) option" where
  "excutePipe os m cmds1 cmds2 =
     Option.bind (execute os m cmds1) (\<lambda>child.
     Option.bind (execute os m cmds2) (\<lambda>self.
       Some (prefix_acts [Pipe, Fork (prefix_acts [Dup True] child), Dup False] self)))"

subsection \<open>The main loop\<close>

text \<open>\<open>gets\<close>: the line with a zero byte, without regard to the size of the array; at the end of the
  input the array stays as it was.\<close>

primrec store_bytes :: "memory \<Rightarrow> u32 \<Rightarrow> u8 list \<Rightarrow> memory" where
  "store_bytes m p [] = m"
| "store_bytes m p (b # bs) = store_bytes (m(p := b)) (p + 1) bs"

definition gets :: "memory \<Rightarrow> u32 \<Rightarrow> u8 list option \<Rightarrow> fault + memory" where
  "gets m str input =
     (case input of
        None \<Rightarrow> Inr m
      | Some line \<Rightarrow> if LEN \<le> length line then Inl Overrun else Inr (store_bytes m str (line @ [0])))"

definition and_then :: "(fault + 'a) option \<Rightarrow> ('a \<Rightarrow> (fault + 'b) option) \<Rightarrow> (fault + 'b) option" where
  "and_then r f = Option.bind r (\<lambda>x. case x of Inl e \<Rightarrow> Some (Inl e) | Inr a \<Rightarrow> f a)"

definition run_line :: "os \<Rightarrow> memory \<Rightarrow> bool \<Rightarrow> u32 list \<Rightarrow> u32 list \<Rightarrow> (fault + act list) option" where
  "run_line os m isPipe cmds cmds2 =
     and_then (Some (fatherCommand os m cmds)) (\<lambda>(done_it, as).
       if done_it then Some (Inr (if as = [Exit] then as else as @ [Wait]))
       else Option.bind (if isPipe then excutePipe os m cmds cmds2 else execute os m cmds) (\<lambda>child.
         Some (Inr (as @ [Fork child, Wait]))))"

text \<open>One round: the new memory, what \<open>strtok\<close> has saved, and the actions.\<close>

definition shell_round ::
  "os \<Rightarrow> memory \<Rightarrow> u32 \<Rightarrow> u32 \<Rightarrow> u8 list option \<Rightarrow> (fault + memory \<times> u32 \<times> act list) option" where
  "shell_round os m saved str input =
     and_then (Some (gets m str input)) (\<lambda>m.
     Option.bind (merge m str) (\<lambda>m.
     and_then (splitCommand m saved str [0x7C] [0, 0]) (\<lambda>(m, saved, parts, _).
     and_then (splitCommand m saved (parts ! 0) [0x20] (replicate SHOR 0)) (\<lambda>(m, saved, cmds, _).
     and_then
       (if parts ! 1 \<noteq> 0 then splitCommand m saved (parts ! 1) [0x20] (replicate SHOR 0)
        else Some (Inr (m, saved, replicate SHOR 0, 0))) (\<lambda>(m, saved, cmds2, _).
     and_then (run_line os m (parts ! 1 \<noteq> 0) cmds cmds2) (\<lambda>as.
       Some (Inr (m, saved, as))))))))"

text \<open>\<open>main\<close> over the lines of the input, until \<open>exit\<close>.\<close>

primrec shell_main ::
  "os \<Rightarrow> u32 \<Rightarrow> u8 list option list \<Rightarrow> memory \<Rightarrow> u32 \<Rightarrow> (fault + act list) option" where
  "shell_main os str [] m saved = Some (Inr [])"
| "shell_main os str (l # ls) m saved =
     and_then (shell_round os m saved str l) (\<lambda>(m, saved, as).
       if as = [Exit] then Some (Inr as)
       else map_option (prefix_acts as) (shell_main os str ls m saved))"

subsection \<open>Strings in memory\<close>

abbreviation (input) no_wrap :: "u32 \<Rightarrow> nat \<Rightarrow> bool" where
  "no_wrap s n \<equiv> unat s + n < 4294967296"

lemma unat_step: "no_wrap s (Suc n) \<Longrightarrow> unat (s + 1) = Suc (unat s)"
  by (simp add: unat_add_no_wrap)

lemma unat_plus: "no_wrap s n \<Longrightarrow> unat (s + of_nat n) = unat s + n"
  by (simp add: unat_add_no_wrap unat_of_nat_u32)

text \<open>A string only depends on its own bytes.\<close>

lemma cstr_frame:
  "cstr m p xs \<Longrightarrow> no_wrap p (length xs) \<Longrightarrow>
    (\<And>a. unat p \<le> unat a \<Longrightarrow> unat a \<le> unat p + length xs \<Longrightarrow> m' a = m a) \<Longrightarrow> cstr m' p xs"
proof (induction xs arbitrary: p)
  case (Cons c xs)
  have "unat (p + 1) = Suc (unat p)" using Cons.prems(2) by (intro unat_step [of _ 0]) simp
  then have "cstr m' (p + 1) xs" using Cons.prems by (intro Cons.IH) simp_all
  with Cons.prems show ?case by simp
qed simp

lemma cstr_drop: "cstr m p (xs @ ys) \<Longrightarrow> cstr m (p + of_nat (length xs)) ys"
  by (induction xs arbitrary: p) (simp_all add: add.assoc [symmetric])

lemma cstr_cut:
  "cstr m p (xs @ ys) \<Longrightarrow> no_wrap p (length xs) \<Longrightarrow> cstr (m(p + of_nat (length xs) := 0)) p xs"
proof (induction xs arbitrary: p)
  case (Cons c xs)
  have "p \<noteq> p + of_nat (length (c # xs))"
    using unat_plus [OF Cons.prems(2)] by (metis add_cancel_left_right length_0_conv list.discI)
  with Cons.prems Cons.IH [of "p + 1"] unat_step [of p 0] show ?case by (simp add: add.assoc)
qed simp

subsection \<open>Merging blanks\<close>

fun collapse :: "u8 list \<Rightarrow> u8 list" where
  "collapse [] = []"
| "collapse [a] = [a]"
| "collapse (a # b # xs) =
     (if a = 0x20 \<and> b = 0x20 then collapse (b # xs) else a # collapse (b # xs))"

lemma merge_loop_end: "m s = 0 \<Longrightarrow> merge_loop m s p = Some (m(p := 0))"
  by (simp add: merge_loop.simps)

lemma merge_loop_twin:
  "m s = 0x20 \<Longrightarrow> m (s + 1) = 0x20 \<Longrightarrow> merge_loop m s p = merge_loop m (s + 1) p"
  by (simp add: merge_loop.simps [of m s] merge_loop.simps [of m "s + 1"] merge_skip.simps [of m s])

lemma merge_loop_char:
  "m s \<noteq> 0 \<Longrightarrow> \<not> (m s = 0x20 \<and> m (s + 1) = 0x20) \<Longrightarrow>
    merge_loop m s p = merge_loop (m(p := m s)) (s + 1) (p + 1)"
  unfolding merge_loop.simps [of m s] by (subst merge_skip.simps) auto

lemma merge_loop_cstr:
  "cstr m s xs \<Longrightarrow> p \<le> s \<Longrightarrow> no_wrap s (length xs) \<Longrightarrow>
    \<exists>m'. merge_loop m s p = Some m' \<and> cstr m' p (collapse xs) \<and>
      (\<forall>a. unat a < unat p \<or> unat s + length xs < unat a \<longrightarrow> m' a = m a)"
proof (induction xs arbitrary: m s p rule: collapse.induct)
  case (3 a b xs)
  note sp = unat_step [of s "length xs"] "3.prems"
  show ?case
  proof (cases "a = 0x20 \<and> b = 0x20")
    case True
    with sp have "\<exists>m'. merge_loop m (s + 1) p = Some m' \<and> cstr m' p (collapse (b # xs)) \<and>
      (\<forall>a. unat a < unat p \<or> unat (s + 1) + length (b # xs) < unat a \<longrightarrow> m' a = m a)"
      by (intro "3.IH"(1)) (simp_all add: word_le_nat_alt)
    with sp True show ?thesis by (simp add: merge_loop_twin)
  next
    case False
    let ?m = "m(p := a)"
    have p: "unat (p + 1) = Suc (unat p)" using sp by (intro unat_step [of _ 0]) (simp add: word_le_nat_alt)
    have *: "cstr ?m (s + 1) (b # xs)"
      by (rule cstr_frame [of m]) (use sp in \<open>auto simp: word_le_nat_alt\<close>)
    have "\<exists>m'. merge_loop ?m (s + 1) (p + 1) = Some m' \<and> cstr m' (p + 1) (collapse (b # xs)) \<and>
      (\<forall>a. unat a < unat (p + 1) \<or> unat (s + 1) + length (b # xs) < unat a \<longrightarrow> m' a = ?m a)"
      using False sp p by (intro "3.IH"(2) *) (simp_all add: word_le_nat_alt)
    then obtain m' where m': "merge_loop ?m (s + 1) (p + 1) = Some m'" "cstr m' (p + 1) (collapse (b # xs))"
      "\<And>a. unat a < unat (p + 1) \<or> unat (s + 1) + length (b # xs) < unat a \<Longrightarrow> m' a = ?m a" by blast
    have "m' p = a" using m'(3) [of p] p by simp
    moreover have "m' x = m x" if "unat x < unat p \<or> unat s + length (a # b # xs) < unat x" for x
      using m'(3) [of x] that sp p by (auto simp: word_le_nat_alt)
    moreover have "merge_loop m s p = Some m'"
      using False sp m'(1) merge_loop_char [of m s p] by simp
    ultimately show ?thesis using False m'(2) sp by auto
  qed
next
  case 1
  then show ?case by (simp add: merge_loop_end word_le_nat_alt)
next
  case (2 v)
  have p: "unat (p + 1) = Suc (unat p)"
    using 2 by (intro unat_step [of _ 0]) (simp add: word_le_nat_alt)
  have "s + 1 \<noteq> p" using 2 unat_step [of s 0] by (auto simp: word_le_nat_alt)
  then show ?case using 2 p unat_step [of s 0] merge_loop_char [of m s p]
    by (auto simp: merge_loop_end word_le_nat_alt)
qed

text \<open>\<open>merge\<close> leaves the line with each run of blanks made into one, in the place of the
  line and touching nothing outside it.\<close>

theorem merge_correct:
  assumes "cstr m s xs" and "no_wrap s (length xs)"
  shows "\<exists>m'. merge m s = Some m' \<and> cstr m' s (collapse xs) \<and>
    (\<forall>a. unat a < unat s \<or> unat s + length xs < unat a \<longrightarrow> m' a = m a)"
  unfolding merge_def using merge_loop_cstr [OF assms(1) order.refl assms(2)] .

subsection \<open>Words\<close>

text \<open>The pieces between separators, and the words: the pieces that are not empty.\<close>

primrec pieces :: "u8 list \<Rightarrow> u8 list \<Rightarrow> u8 list list" where
  "pieces seps [] = [[]]"
| "pieces seps (c # cs) =
     (if c \<in> set seps then [] # pieces seps cs
      else (c # hd (pieces seps cs)) # tl (pieces seps cs))"

definition words :: "u8 list \<Rightarrow> u8 list \<Rightarrow> u8 list list" where
  "words seps xs = filter (\<lambda>w. w \<noteq> []) (pieces seps xs)"

lemma pieces_nonempty [simp]: "pieces seps xs \<noteq> []"
  by (cases xs) auto

lemma pieces_append:
  "set w \<inter> set seps = {} \<Longrightarrow> pieces seps (w @ xs) = (w @ hd (pieces seps xs)) # tl (pieces seps xs)"
  by (induction w) auto

lemma words_seps: "set ss \<subseteq> set seps \<Longrightarrow> words seps (ss @ xs) = words seps xs"
  by (induction ss) (auto simp: words_def)

lemma words_Nil [simp]: "words seps [] = []"
  by (simp add: words_def)

lemma words_word:
  "w \<noteq> [] \<Longrightarrow> set w \<inter> set seps = {} \<Longrightarrow> xs = [] \<or> hd xs \<in> set seps \<Longrightarrow>
    words seps (w @ xs) = w # words seps xs"
  using pieces_append [of w seps xs] by (cases xs) (auto simp: words_def)

text \<open>The blanks that \<open>merge\<close> removes do not matter to the words.\<close>

lemma pieces_hd_cong: "c \<notin> set seps \<Longrightarrow> words seps xs = words seps ys \<Longrightarrow>
    hd (pieces seps xs) = hd (pieces seps ys) \<Longrightarrow> words seps (c # xs) = words seps (c # ys)"
  by (cases "pieces seps xs"; cases "pieces seps ys") (auto simp: words_def split: if_splits)

lemma words_collapse:
  "words [0x20] (collapse xs) = words [0x20] xs \<and> hd (pieces [0x20] (collapse xs)) = hd (pieces [0x20] xs)"
proof (induction xs rule: collapse.induct)
  case (3 a b xs)
  show ?case
  proof (cases "a = 0x20")
    case True
    with "3.IH" show ?thesis by (cases "b = 0x20") (auto simp: words_def)
  next
    case False
    with "3.IH"(2) show ?thesis using pieces_hd_cong [of a "[0x20]" "collapse (b # xs)" "b # xs"] by auto
  qed
qed auto

text \<open>A string without its leading separators starts with a word, or is empty.\<close>

lemma split_string:
  obtains ss where "xs = ss" "set ss \<subseteq> set seps"
  | ss w rest where "xs = ss @ w @ rest" "set ss \<subseteq> set seps" "w \<noteq> []" "set w \<inter> set seps = {}"
      "rest = [] \<or> hd rest \<in> set seps"
proof -
  let ?ss = "takeWhile (\<lambda>c. c \<in> set seps) xs" and ?ys = "dropWhile (\<lambda>c. c \<in> set seps) xs"
  let ?w = "takeWhile (\<lambda>c. c \<notin> set seps) ?ys" and ?rest = "dropWhile (\<lambda>c. c \<notin> set seps) ?ys"
  have ss: "set ?ss \<subseteq> set seps" by (auto dest: set_takeWhileD)
  show thesis
  proof (cases "?ys = []")
    case True
    then have "xs = ?ss" by (metis append.right_neutral takeWhile_dropWhile_id)
    then show ?thesis using ss that(1) by metis
  next
    case False
    then have "?w \<noteq> []" using hd_dropWhile [OF False] by (cases ?ys) auto
    moreover have "set ?w \<inter> set seps = {}" by (auto dest: set_takeWhileD)
    moreover have "?rest = [] \<or> hd ?rest \<in> set seps" using hd_dropWhile by fast
    ultimately show ?thesis using ss by (intro that(2) [of ?ss ?w ?rest]) simp_all
  qed
qed

subsection \<open>Splitting\<close>

lemma skip_seps_cstr:
  "cstr m s (ss @ xs) \<Longrightarrow> set ss \<subseteq> set seps \<Longrightarrow> xs = [] \<or> hd xs \<notin> set seps \<Longrightarrow>
    skip_seps m seps s = Some (s + of_nat (length ss))"
proof (induction ss arbitrary: s)
  case Nil
  then show ?case by (cases xs) (simp_all add: skip_seps.simps [of m seps s])
next
  case (Cons c ss)
  then show ?case using Cons.IH [of "s + 1"] by (simp add: skip_seps.simps [of m seps s] add.assoc)
qed

lemma skip_word_cstr:
  "cstr m s (w @ xs) \<Longrightarrow> set w \<inter> set seps = {} \<Longrightarrow> xs = [] \<or> hd xs \<in> set seps \<Longrightarrow>
    skip_word m seps s = Some (s + of_nat (length w))"
proof (induction w arbitrary: s)
  case Nil
  then show ?case by (cases xs) (simp_all add: skip_word.simps [of m seps s])
next
  case (Cons c w)
  then show ?case using Cons.IH [of "s + 1"] by (simp add: skip_word.simps [of m seps s] add.assoc)
qed

lemma strtok_none:
  assumes "cstr m s ss" "set ss \<subseteq> set seps" "(if str \<noteq> 0 then str else saved) = s"
  shows "strtok m saved str seps = Some (m, s + of_nat (length ss), 0)"
  using skip_seps_cstr [of m s ss "[]" seps] cstr_drop [of m s ss "[]"] assms by (simp add: strtok_def)

lemma strtok_word:
  assumes c: "cstr m s (ss @ w @ rest)" and "set ss \<subseteq> set seps" "w \<noteq> []" "set w \<inter> set seps = {}"
    "rest = [] \<or> hd rest \<in> set seps" and s: "(if str \<noteq> 0 then str else saved) = s"
    and t: "t = s + of_nat (length ss)" and e: "e = t + of_nat (length w)"
  shows "strtok m saved str seps = Some (if rest = [] then (m, e, t) else (m(e := 0), e + 1, t))"
proof -
  have "hd (w @ rest) \<notin> set seps" using assms(3,4) by (cases w) auto
  then have "skip_seps m seps s = Some t" using skip_seps_cstr [OF c assms(2)] t by simp
  moreover have ct: "cstr m t (w @ rest)" using cstr_drop [OF c] t by simp
  moreover have "skip_word m seps t = Some e" using skip_word_cstr [OF ct assms(4,5)] e by simp
  moreover have "cstr m e rest" using cstr_drop [OF ct] e by simp
  ultimately show ?thesis using s assms(3) by (cases rest; cases w) (auto simp: strtok_def)
qed

text \<open>What a call of \<open>splitCommand\<close> leaves: pointers to the words in the array, and the memory
  outside the string as it was.\<close>

definition split_done ::
  "memory \<Rightarrow> u8 list \<Rightarrow> u32 \<Rightarrow> u8 list \<Rightarrow> memory \<Rightarrow> u32 \<Rightarrow> u32 list \<Rightarrow> bool" where
  "split_done m seps s xs m' sv ps \<longleftrightarrow>
     list_all2 (\<lambda>p w. p \<noteq> 0 \<and> cstr m' p w \<and> unat p + length w \<le> unat s + length xs)
       ps (words seps xs) \<and>
     unat s \<le> unat sv \<and> unat sv \<le> unat s + length xs \<and> m' sv = 0 \<and>
     (\<forall>a. unat a < unat s \<or> unat s + length xs \<le> unat a \<longrightarrow> m' a = m a)"

abbreviation (input) filled :: "u32 list \<Rightarrow> nat \<Rightarrow> u32 list \<Rightarrow> u32 list" where
  "filled result n ps \<equiv> take n result @ ps @ drop (n + length ps) result"

abbreviation (input) split_from ::
  "memory \<Rightarrow> u32 \<Rightarrow> u32 \<Rightarrow> u8 list \<Rightarrow> u32 list \<Rightarrow> nat \<Rightarrow> (fault + memory \<times> u32 \<times> u32 list \<times> nat) option" where
  "split_from m saved str seps result n \<equiv>
     Option.bind (strtok m saved str seps) (\<lambda>(m, saved, token). split_loop m saved seps token result n)"

lemma split_loop_end: "split_loop m saved seps 0 result n = Some (Inr (m, saved, result, n))"
  by (simp add: split_loop.simps)

lemma split_loop_token:
  "token \<noteq> 0 \<Longrightarrow> n < length result \<Longrightarrow>
    split_loop m saved seps token result n = split_from m saved 0 seps (result[n := token]) (Suc n)"
  by (simp add: split_loop.simps [of m saved seps token])

lemma split_loop_full:
  "token \<noteq> 0 \<Longrightarrow> length result \<le> n \<Longrightarrow> split_loop m saved seps token result n = Some (Inl Overrun)"
  by (simp add: split_loop.simps)

lemma filled_cons:
  "n < length result \<Longrightarrow> filled (result[n := t]) (Suc n) ps = filled result n (t # ps)"
  by (simp add: take_Suc_conv_app_nth)

lemma split_from_correct:
  "cstr m s xs \<Longrightarrow> s \<noteq> 0 \<Longrightarrow> no_wrap s (length xs) \<Longrightarrow> n \<le> length result \<Longrightarrow>
    (if str \<noteq> 0 then str else saved) = s \<Longrightarrow>
    (if n + length (words seps xs) \<le> length result
     then \<exists>m' sv ps. split_from m saved str seps result n =
         Some (Inr (m', sv, filled result n ps, n + length ps)) \<and> split_done m seps s xs m' sv ps
     else split_from m saved str seps result n = Some (Inl Overrun))"
proof (induction "length xs" arbitrary: m s xs n result str saved rule: less_induct)
  case less
  consider ss where "xs = ss" "set ss \<subseteq> set seps"
    | ss w rest where "xs = ss @ w @ rest" "set ss \<subseteq> set seps" "w \<noteq> []" "set w \<inter> set seps = {}"
        "rest = [] \<or> hd rest \<in> set seps"
    by (rule split_string)
  then show ?case
  proof cases
    case 1
    have "words seps xs = []" using words_seps [OF 1(2), of "[]"] 1(1) by simp
    moreover have "m (s + of_nat (length xs)) = 0" using cstr_drop [of m s xs "[]"] less.prems(1) by simp
    moreover have "strtok m saved str seps = Some (m, s + of_nat (length xs), 0)"
      using strtok_none [of m s ss seps str saved] less.prems 1 by simp
    ultimately show ?thesis
      using less.prems by (simp add: split_loop_end split_done_def unat_plus)
  next
    case 2
    define t where "t = s + of_nat (length ss)"
    define e where "e = t + of_nat (length w)"
    have ut: "unat t = unat s + length ss" using less.prems(3) 2(1) by (simp add: t_def unat_plus)
    have ue: "unat e = unat s + length ss + length w" using less.prems(3) 2(1) ut by (simp add: e_def unat_plus)
    have t0: "t \<noteq> 0" using ut less.prems(2) by (auto simp: unat_eq_0 [symmetric])
    have ws: "words seps xs = w # words seps rest" using 2 by (simp add: words_seps words_word)
    have tok: "strtok m saved str seps = Some (if rest = [] then (m, e, t) else (m(e := 0), e + 1, t))"
      by (rule strtok_word [where s = s]) (use less.prems 2 t_def e_def in auto)
    have ct: "cstr m t (w @ rest)" using cstr_drop [of m s ss] less.prems(1) 2(1) by (simp add: t_def)
    show ?thesis
    proof (cases "n < length result")
      case False
      then show ?thesis using tok t0 ws less.prems(4) by (auto simp: split_loop_full)
    next
      case n: True
      show ?thesis
      proof (cases rest)
        case Nil
        have "split_from m e 0 seps (result[n := t]) (Suc n) = Some (Inr (m, e, result[n := t], Suc n))"
          using strtok_none [of m e "[]" seps 0 e] ct cstr_drop [of m t w "[]"] Nil
          by (simp add: split_loop_end e_def)
        moreover have "split_done m seps s xs m e [t]"
          using t0 ws Nil ct 2(1) ue ut cstr_drop [of m t w "[]"] by (simp add: split_done_def e_def [symmetric])
        moreover have "result[n := t] = filled result n [t]" using n by (simp add: upd_conv_take_nth_drop)
        ultimately have "split_from m saved str seps result n =
            Some (Inr (m, e, filled result n [t], n + length [t])) \<and> split_done m seps s xs m e [t]"
          using tok t0 n Nil by (simp add: split_loop_token)
        moreover have "(n + length (words seps xs) \<le> length result) = True" using ws n Nil by simp
        ultimately show ?thesis by (simp only: if_True) blast
      next
        case (Cons c rest')
        let ?m = "m(e := 0)"
        have ue1: "unat (e + 1) = Suc (unat e)" using ue less.prems(3) 2(1) Cons by (intro unat_step [of _ 0]) simp
        have len: "length xs = length ss + length w + Suc (length rest')" using 2(1) Cons by simp
        have "cstr m (e + 1) rest'" using cstr_drop [OF ct] Cons by (simp add: e_def)
        then have crest: "cstr ?m (e + 1) rest'"
          by (rule cstr_frame) (use ue1 ue less.prems(3) len in auto)
        have cw: "cstr ?m t w" unfolding e_def by (rule cstr_cut [OF ct]) (use ut less.prems(3) len in simp)
        have c: "words seps rest = words seps rest'"
          using 2(5) Cons by (simp add: words_def)
        have start: "split_from m saved str seps result n = split_from ?m (e + 1) 0 seps (result[n := t]) (Suc n)"
          using tok t0 n Cons by (simp add: split_loop_token)
        have e1: "e + 1 \<noteq> 0" using ue1 by (auto simp: unat_eq_0 [symmetric])
        have nw: "no_wrap (e + 1) (length rest')" using ue1 ue less.prems(3) len by simp
        note IH = less.hyps [of rest' ?m "e + 1" "Suc n" "result[n := t]" 0 "e + 1", OF _ crest e1 nw]
        show ?thesis
        proof (cases "Suc n + length (words seps rest') \<le> length result")
          case False
          then show ?thesis using IH n len start ws c by simp
        next
          case True
          then obtain m' sv ps where r: "split_from ?m (e + 1) 0 seps (result[n := t]) (Suc n) =
              Some (Inr (m', sv, filled (result[n := t]) (Suc n) ps, Suc n + length ps))"
            and d: "split_done ?m seps (e + 1) rest' m' sv ps"
            using IH n len by auto
          have same: "m' a = ?m a" if "unat a \<le> unat e \<or> unat s + length xs \<le> unat a" for a
            using d that ue ue1 len by (auto simp: split_done_def)
          have "cstr m' t w" by (rule cstr_frame [OF cw]) (use same ut ue less.prems(3) len in auto)
          moreover have "m' a = m a" if "unat a < unat s \<or> unat s + length xs \<le> unat a" for a
            using same [of a] that ue len by auto
          ultimately have "split_done m seps s xs m' sv (t # ps)"
            using d t0 ws c ue ue1 ut len unfolding split_done_def by (auto elim: list_all2_mono)
          moreover have "split_from m saved str seps result n =
              Some (Inr (m', sv, filled result n (t # ps), n + length (t # ps)))"
            unfolding start r filled_cons [OF n] by simp
          moreover have "(n + length (words seps xs) \<le> length result) = True" using True ws c by simp
          ultimately show ?thesis by (simp only: if_True) blast
        qed
      qed
    qed
  qed
qed

lemma splitCommand_words:
  assumes "cstr m s xs" and "s \<noteq> 0" and "no_wrap s (length xs)" and "(if str \<noteq> 0 then str else saved) = s"
  shows "(if length (words seps xs) \<le> length result
     then \<exists>m' sv ps. splitCommand m saved str seps result =
         Some (Inr (m', sv, ps @ drop (length ps) result, length ps)) \<and> split_done m seps s xs m' sv ps
     else splitCommand m saved str seps result = Some (Inl Overrun))"
  using split_from_correct [OF assms(1-3) _ assms(4), of 0 result seps]
  by (simp only: splitCommand_def add_0 take_0 append_Nil le0 True_implies_equals)

text \<open>\<open>splitCommand\<close> returns when the array has room for the words of the line: the array then
  holds pointers to them in order, followed by what it held before, and only the line has
  changed.  With more words it writes past the array.\<close>

theorem splitCommand_correct:
  assumes "cstr m s xs" and "s \<noteq> 0" and "no_wrap s (length xs)" and "(if str \<noteq> 0 then str else saved) = s"
  shows "(if length (words seps xs) \<le> length result
     then \<exists>m' sv ps. splitCommand m saved str seps result =
         Some (Inr (m', sv, ps @ drop (length ps) result, length ps)) \<and> split_done m seps s xs m' sv ps
     else splitCommand m saved str seps result = Some (Inl Overrun))"
  by (rule splitCommand_words [OF assms])

subsection \<open>The shell\<close>

lemma store_bytes_other: "unat a < unat p \<Longrightarrow> no_wrap p (length bs) \<Longrightarrow> store_bytes m p bs a = m a"
proof (induction bs arbitrary: m p)
  case (Cons b bs)
  have "unat (p + 1) = Suc (unat p)" using Cons.prems(2) by (intro unat_step [of _ 0]) simp
  with Cons show ?case by auto
qed simp

lemma cstr_store_bytes:
  "0 \<notin> set xs \<Longrightarrow> no_wrap p (Suc (length xs)) \<Longrightarrow> cstr (store_bytes m p (xs @ [0])) p xs"
proof (induction xs arbitrary: m p)
  case (Cons c xs)
  have "unat (p + 1) = Suc (unat p)" using Cons.prems(2) by (intro unat_step [of _ 0]) simp
  then show ?case using Cons by (simp add: store_bytes_other)
qed simp

lemma collapse_facts:
  "length (collapse xs) \<le> length xs \<and> (collapse xs = [] \<longleftrightarrow> xs = []) \<and> set (collapse xs) \<subseteq> set xs"
  by (induction xs rule: collapse.induct) auto

text \<open>After \<open>gets\<close> and \<open>merge\<close> the array holds the line with single blanks.\<close>

lemma read_line:
  assumes "0 \<notin> set line" and "length line < LEN" and "no_wrap str LEN"
  obtains m1 m2 where "gets m str (Some line) = Inr m1" "merge m1 str = Some m2" "cstr m2 str (collapse line)"
proof -
  let ?m1 = "store_bytes m str (line @ [0])"
  have "gets m str (Some line) = Inr ?m1" using assms(2) by (simp add: gets_def)
  moreover have "cstr ?m1 str line" using assms by (intro cstr_store_bytes) simp_all
  then obtain m2 where "merge ?m1 str = Some m2 \<and> cstr m2 str (collapse line)"
    using merge_loop_cstr [of ?m1 str line str] assms unfolding merge_def by auto
  ultimately show ?thesis using that by blast
qed

text \<open>Without a bar the line is one command.\<close>

lemma read_command:
  assumes "0 \<notin> set line" "length line < LEN" "str \<noteq> 0" "no_wrap str LEN" "0x7C \<notin> set line"
  obtains m1 m2 m3 sv p k where "gets m str (Some line) = Inr m1" "merge m1 str = Some m2"
    "splitCommand m2 saved str [0x7C] [0, 0] = Some (Inr (m3, sv, [p, 0], k))"
    "cstr m3 (if p \<noteq> 0 then p else sv) (collapse line)" "(if p \<noteq> 0 then p else sv) \<noteq> 0"
    "no_wrap (if p \<noteq> 0 then p else sv) (length (collapse line))"
proof -
  obtain m1 m2 where m: "gets m str (Some line) = Inr m1" "merge m1 str = Some m2" "cstr m2 str (collapse line)"
    using read_line [OF assms(1,2,4)] .
  have nw: "no_wrap str (length (collapse line))" using collapse_facts [of line] assms by simp
  have nb: "set (collapse line) \<inter> set [0x7C] = {}" using collapse_facts [of line] assms(5) by auto
  have w: "words [0x7C] (collapse line) = (if line = [] then [] else [collapse line])"
    using words_word [of "collapse line" "[0x7C]" "[]"] nb collapse_facts [of line] by auto
  note sp = splitCommand_words [OF m(3) assms(3) nw, of str saved "[0x7C]" "[0, 0]"]
  then obtain m3 sv ps where s: "splitCommand m2 saved str [0x7C] [0, 0] =
      Some (Inr (m3, sv, ps @ drop (length ps) [0, 0], length ps))"
    and d: "split_done m2 [0x7C] str (collapse line) m3 sv ps"
    using w assms(3) by (auto split: if_splits)
  show ?thesis
  proof (cases "line = []")
    case True
    then have "ps = []" "sv = str" "m3 sv = 0" using d w by (auto simp: split_done_def word_unat_eq_iff)
    then show ?thesis using that [OF m(1,2)] s True assms(3) nw by simp
  next
    case False
    then obtain p where "ps = [p]" "p \<noteq> 0" "cstr m3 p (collapse line)"
        "unat p + length (collapse line) \<le> unat str + length (collapse line)"
      using d w by (auto simp: split_done_def list_all2_Cons2)
    then show ?thesis using that [OF m(1,2)] s nw by simp
  qed
qed

lemma shell_round_command:
  assumes "0 \<notin> set line" "length line < LEN" "str \<noteq> 0" "no_wrap str LEN" "0x7C \<notin> set line"
  obtains m sv p s where
    "shell_round os m0 saved str (Some line) =
      and_then (splitCommand m sv p [0x20] (replicate SHOR 0)) (\<lambda>(m, saved, cmds, _).
      and_then (run_line os m False cmds (replicate SHOR 0)) (\<lambda>as. Some (Inr (m, saved, as))))"
    "if length (words [0x20] line) \<le> SHOR
     then \<exists>m' sv' ps. splitCommand m sv p [0x20] (replicate SHOR 0) =
         Some (Inr (m', sv', ps @ replicate (SHOR - length ps) 0, length ps)) \<and>
         list_all2 (\<lambda>p w. p \<noteq> 0 \<and> cstr m' p w) ps (words [0x20] line)
     else splitCommand m sv p [0x20] (replicate SHOR 0) = Some (Inl Overrun)"
proof -
  obtain m1 m2 m3 sv p k where l: "gets m0 str (Some line) = Inr m1" "merge m1 str = Some m2"
    "splitCommand m2 saved str [0x7C] [0, 0] = Some (Inr (m3, sv, [p, 0], k))"
    and c: "cstr m3 (if p \<noteq> 0 then p else sv) (collapse line)" "(if p \<noteq> 0 then p else sv) \<noteq> 0"
    "no_wrap (if p \<noteq> 0 then p else sv) (length (collapse line))"
    using read_command [OF assms] .
  have w: "words [0x20] (collapse line) = words [0x20] line" using words_collapse by blast
  have "shell_round os m0 saved str (Some line) =
      and_then (splitCommand m3 sv p [0x20] (replicate SHOR 0)) (\<lambda>(m, saved, cmds, _).
      and_then (run_line os m False cmds (replicate SHOR 0)) (\<lambda>as. Some (Inr (m, saved, as))))"
    using l by (simp add: shell_round_def and_then_def)
  moreover note splitCommand_words [OF c refl, of "[0x20]" "replicate SHOR 0",
      unfolded w split_done_def length_replicate drop_replicate]
  ultimately show ?thesis
    by (intro that [of m3 sv p]) (simp, fastforce elim: list_all2_mono split: if_splits)
qed

text \<open>C34. A line with no word makes the shell read through \<open>NULL\<close>; one with more words than the
  array holds makes it write past the array.\<close>

theorem shell_faults:
  assumes "0 \<notin> set line" "length line < LEN" "str \<noteq> 0" "no_wrap str LEN" "0x7C \<notin> set line"
  shows "(words [0x20] line = [] \<longrightarrow> shell_round os m saved str (Some line) = Some (Inl Null_pointer)) \<and>
    (SHOR < length (words [0x20] line) \<longrightarrow> shell_round os m saved str (Some line) = Some (Inl Overrun))"
proof -
  obtain m' sv p where r: "shell_round os m saved str (Some line) =
      and_then (splitCommand m' sv p [0x20] (replicate SHOR 0)) (\<lambda>(m, saved, cmds, _).
      and_then (run_line os m False cmds (replicate SHOR 0)) (\<lambda>as. Some (Inr (m, saved, as))))"
    and sp: "if length (words [0x20] line) \<le> SHOR
     then \<exists>m'' sv' ps. splitCommand m' sv p [0x20] (replicate SHOR 0) =
         Some (Inr (m'', sv', ps @ replicate (SHOR - length ps) 0, length ps)) \<and>
         list_all2 (\<lambda>p w. p \<noteq> 0 \<and> cstr m'' p w) ps (words [0x20] line)
     else splitCommand m' sv p [0x20] (replicate SHOR 0) = Some (Inl Overrun)"
    using shell_round_command [OF assms] .
  have "shell_round os m saved str (Some line) = Some (Inl Null_pointer)" if "words [0x20] line = []"
    using sp that unfolding r by (auto simp: and_then_def run_line_def fatherCommand_def)
  moreover have "shell_round os m saved str (Some line) = Some (Inl Overrun)"
    if "SHOR < length (words [0x20] line)"
    using sp that unfolding r by (auto simp: and_then_def)
  ultimately show ?thesis by blast
qed

text \<open>What \<open>execute\<close> does with the words of a command, and what the child of the shell does.\<close>

lemma bytes_at_cstr: "cstr m p xs \<Longrightarrow> n = of_nat (length xs) \<Longrightarrow> length xs < 4294967296 \<Longrightarrow> bytes_at m p n = xs"
proof -
  have "cstr m p xs \<Longrightarrow> map (\<lambda>i. m (p + of_nat i)) [0..<length xs] = xs"
  proof (induction xs arbitrary: p)
    case (Cons c xs)
    then have "map (\<lambda>i. m (p + 1 + of_nat i)) [0..<length xs] = xs" by simp
    moreover have "[0..<length (c # xs)] = 0 # map Suc [0..<length xs]"
      by (metis length_Cons map_Suc_upt upt_conv_Cons zero_less_Suc)
    ultimately show ?case using Cons.prems by (simp add: o_def add.assoc)
  qed simp
  then show "cstr m p xs \<Longrightarrow> n = of_nat (length xs) \<Longrightarrow> length xs < 4294967296 \<Longrightarrow> bytes_at m p n = xs"
    by (simp add: bytes_at_def unat_of_nat_u32)
qed

lemma execute_words:
  assumes "list_all2 (\<lambda>p w. p \<noteq> 0 \<and> cstr m p w) ps (w # ws)" and "length w < 59" and "length ps < n"
  shows "execute os m (ps @ replicate (n - length ps) 0) =
    Some (Inr (Exec (bin @ w) ps # (if execv_ok os m (bin @ w) ps then [] else [Say ''Wrong Command!'', Exit])))"
proof -
  obtain p ps' where ps: "ps = p # ps'" and p: "p \<noteq> 0" "cstr m p w"
    using assms(1) by (auto simp: list_all2_Cons2)
  have "\<forall>q \<in> set ps. q \<noteq> 0" using assms(1) by (auto simp: list_all2_conv_all_nth in_set_conv_nth)
  then have "takeWhile (\<lambda>p. p \<noteq> 0) (ps @ replicate (n - length ps) 0) = ps"
    using assms(3) by (simp add: takeWhile_append2 takeWhile_replicate)
  moreover have "0 \<in> set (ps @ replicate (n - length ps) 0)" using assms(3) by simp
  moreover have "(ps @ replicate (n - length ps) 0) ! 0 = p" by (simp add: ps)
  moreover have "bytes_at m p (of_nat (length w)) = w" using bytes_at_cstr [OF p(2) refl] assms(2) by simp
  ultimately show ?thesis
    using strlen_correct [OF p(2)] p(1) assms(2) by (simp add: execute_def bin_def unat_of_nat_u32 Let_def)
qed


subsection \<open>Instances\<close>

definition yes_os :: os where
  "yes_os = \<lparr>chdir_ok = \<lambda>_ _. True, execv_ok = \<lambda>_ _ _. True\<rparr>"

definition ls_line :: "u8 list" where
  "ls_line = [0x20, 0x6C, 0x73, 0x20, 0x20, 0x2D, 0x6C]"

lemma ls_words: "words [0x20] ls_line = [[0x6C, 0x73], [0x2D, 0x6C]]"
  by (simp add: ls_line_def words_def)

lemma merge_correct_witness:
  "\<exists>m. merge (store_bytes (\<lambda>_. 0) 0x1000 (ls_line @ [0])) 0x1000 = Some m \<and>
    cstr m 0x1000 [0x20, 0x6C, 0x73, 0x20, 0x2D, 0x6C]"
proof -
  have "cstr (store_bytes (\<lambda>_. 0) 0x1000 (ls_line @ [0])) 0x1000 ls_line"
    by (rule cstr_store_bytes) (simp_all add: ls_line_def)
  from merge_correct [OF this] show ?thesis by (auto simp: ls_line_def)
qed

lemma splitCommand_correct_witness:
  "\<exists>m' sv ps. splitCommand (store_bytes (\<lambda>_. 0) 0x1000 (ls_line @ [0])) 0 0x1000 [0x20] (replicate SHOR 0) =
      Some (Inr (m', sv, ps @ replicate (SHOR - length ps) 0, length ps)) \<and> length ps = 2"
proof -
  define m where "m = store_bytes (\<lambda>_. 0) 0x1000 (ls_line @ [0])"
  have "cstr m 0x1000 ls_line" unfolding m_def by (rule cstr_store_bytes) (simp_all add: ls_line_def)
  moreover have "length ls_line = 7" by (simp add: ls_line_def)
  ultimately obtain m' sv ps where *: "splitCommand m 0 0x1000 [0x20] (replicate SHOR 0) =
      Some (Inr (m', sv, ps @ replicate (SHOR - length ps) 0, length ps))"
    "split_done m [0x20] 0x1000 ls_line m' sv ps"
    using splitCommand_correct [of m "0x1000" ls_line "0x1000" 0 "[0x20]" "replicate SHOR 0"]
    by (auto simp: ls_words)
  have "length ps = 2" using *(2) by (auto simp: split_done_def ls_words dest: list_all2_lengthD)
  with *(1) show ?thesis unfolding m_def by blast
qed


lemma words_repeated:
  "words [0x20] (concat (replicate n [0x61, 0x20])) = replicate n [0x61] \<and>
    length (concat (replicate n [0x61 :: u8, 0x20])) = 2 * n \<and>
    set (concat (replicate n [0x61 :: u8, 0x20])) \<subseteq> {0x61, 0x20}"
  by (induction n) (auto simp: words_def)

lemma shell_faults_witness:
  "shell_round yes_os (\<lambda>_. 0) 0 0x1000 (Some []) = Some (Inl Null_pointer) \<and>
    shell_round yes_os (\<lambda>_. 0) 0 0x1000 (Some (concat (replicate 17 [0x61, 0x20]))) = Some (Inl Overrun)"
proof -
  let ?l = "concat (replicate 17 [0x61 :: u8, 0x20])"
  note w = words_repeated [of 17]
  have "0 \<notin> set ?l" "0x7C \<notin> set ?l" using w by auto
  moreover have "length ?l < LEN" using w by simp
  ultimately have "shell_round yes_os (\<lambda>_. 0) 0 0x1000 (Some ?l) = Some (Inl Overrun)"
    using shell_faults [of ?l "0x1000" yes_os "\<lambda>_. 0" 0] w by simp
  with shell_faults [of "[]" "0x1000" yes_os "\<lambda>_. 0" 0] show ?thesis by simp
qed

end
