(* ===== verification/Spec2Isabelle.thy ===== *)
theory Spec2Isabelle
  imports Mem_Init_Run Load_Spec Trap_Spec Dumbfork_Spec Boot Init_Spec Pthread Minishell
begin

text \<open>
  A verification library for the programs of this repository of operating-system homework: the
  JOS kernel in its last version (src/OSLab7-Mitjoslab4), the producer and customer of
  src/OSLab2-PThread/main.c and the shell of src/OSLab3-MiniShell/main.c.  The other directories
  hold earlier versions of the same kernel.

  \<^bold>\<open>The kernel and its parts.\<close>  A CPU enters the kernel through a trap.  \<open>trap\<close> (kern/trap.c)
  takes the big kernel lock, stores the frame in the current environment, dispatches on the
  trap number and leaves through \<open>env_run\<close> or \<open>sched_yield\<close>; the system calls (kern/syscall.c)
  work on the environments (kern/env.c) and their address spaces (kern/pmap.c); the scheduler
  (kern/sched.c) picks the next environment; the drivers (console, clock, interrupt controllers,
  local APIC) sit below, and the monitor (kern/monitor.c, kern/kdebug.c) beside.

  \<^bold>\<open>How the model corresponds to the code.\<close>  The kernel state is the record \<open>kstate\<close>
  (Kstate): one field per global variable, physical memory as a byte memory \<open>pmem\<close>, and the
  record \<open>console\<close> for the devices.  The arrays \<open>pages\<close>, \<open>envs\<close>, \<open>cpus\<close> are functions of an
  index, a pointer into them is an index and \<open>NULL\<close> is \<open>None\<close>.  Page directories and page tables
  are not abstracted: they lie in \<open>pmem\<close> as on the machine, and a kernel pointer is a 32-bit
  address that is dereferenced by \<open>kload\<close> and \<open>kstore\<close>, with a fault below \<open>KERNBASE\<close>.  Integers
  are words of the width of the C type.  A function of the kernel is a function of type
  \<open>'a kernel\<close>: it returns a value (\<open>Ret\<close>), panics (\<open>Panic\<close>), or does not return to its
  caller (\<open>Leave\<close>: to user mode, to the halted CPU, to the monitor, or into an endless loop).
  Every early return, assertion and panic of the source is a branch of its definition.  What the
  outside answers (a port, a register of the local APIC, a key, \<open>chdir\<close>, \<open>execv\<close>) is a stream
  or a function in the state.

  \<^bold>\<open>The theories\<close>, in the order in which they build on each other.

  \<^item> Prelude: words, byte memory with little-endian words, the outcome type and its rules,
    a locale of free pools (a linked list threaded through an array).
  \<^item> Mmu: inc/types.h, inc/mmu.h, inc/memlayout.h.
  \<^item> Cstring: lib/string.c.  Printfmt: lib/printfmt.c.
  \<^item> Devices, Console: kern/kclock.c, kern/picirq.c, kern/console.c, kern/printf.c, lib/readline.c;
    a locale of bounded queues, interpreted on the circular input buffer.
  \<^item> Spinlock, Klock: kern/spinlock.c and the step relation of all CPUs on a lock.
  \<^item> Kstate: inc/env.h, inc/trap.h, inc/error.h, kern/cpu.h, kern/pmap.h.  Sample: small
    machines on which the theorems are applied.
  \<^item> Page_Alloc, Page_Table, User_Mem: kern/pmap.c.  Vspace: the abstract specification of page
    tables.  Vmem, Vmem_Spec: accesses through the translation of the processor.
  \<^item> Env_Ops, Env_Spec: kern/env.c.  Sched, Sched_Spec: kern/sched.c and the exits of the kernel.
    Exit_Spec: every way out of the kernel.
  \<^item> Lapic, Mpconfig: kern/lapic.c, kern/mpconfig.c.  Trap_Print, Trap, Trap_Spec: kern/trap.c.
  \<^item> Kdebug, Monitor: kern/kdebug.c, kern/monitor.c.
  \<^item> Syscall, Syscall_Spec: kern/syscall.c.
  \<^item> Isolation, Isolation_Spec: the memory invariant of the whole kernel and its preservation.
  \<^item> User_Lib: the library that user programs are linked with, from the system-call stubs to \<open>fork\<close>
    and the messages.  User_Spec: what user code sees of memory.  Fork_Spec, Fork_Sample, Fork_Total:
    copy-on-write fork.  Pgfault_Spec: its page-fault handler.  User_Programs: the programs of user/;
    Dumbfork_Spec: the fork by copying of user/dumbfork.c.  Load_Space, Load_Spec: the loading of a
    program into a new environment (kern/env.c).
  \<^item> Mem_Init: \<open>mem_init\<close> with the self tests of kern/pmap.c.  Mem_Init_Spec, Kernel_Space: the
    address space it builds.  Test_Space, Self_Tests, List_Tests, Alloc_Tests, Installed_Test: total
    correctness of the self tests, over a description of memory (free list, directory, entries,
    reference counts) that every operation updates.  Mem_Init_Run: \<open>mem_init\<close> from its first
    statement to its last.  Kern_Init, Init_Spec: kern/init.c, and how the start of the kernel ends.
  \<^item> Boot: boot/main.c, on a machine of its own (memory and the disk controller).
  \<^item> Pthread, Minishell: the two other programs.

  \<^bold>\<open>What the theorems show.\<close>

  \<^item> Isolation.  A ghost map gives every frame one role (free, page directory, page table, kernel,
    data), and the invariant \<open>isolated\<close> says that free lists, reference counts and page tables
    agree with it.  Every system call that changes memory keeps it, and an access in user mode
    then reaches only data frames.  The hypotheses are that a caller uses permission bits within
    the flags and that no 16-bit reference count is about to wrap; both are needed, and the
    first is shown to be by a theorem.
  \<^item> The start.  \<open>mem_init\<close> returns on every machine with eight megabytes of memory or more: the
    allocations succeed, its self tests pass, the address space of the kernel is complete, and the
    invariant of isolation holds in it for the first time; the window at \<open>UPAGES\<close> shows user code more
    than the array of pages.  The start ends in the scheduler, on every CPU.
  \<^item> Address spaces.  \<open>pte_of\<close> reads a page table as a map from addresses to entries, and
    \<open>pgdir_walk\<close>, \<open>page_insert\<close>, \<open>page_remove\<close> update that map at one page; the system calls
    are refinements of operations on it.  \<open>user_mem_check\<close> accepts exactly the accessible
    ranges, but for ranges that wrap around the end of memory.
  \<^item> Environments.  The free list is a pool, an identifier that is no longer in use is refused, and
    a call changes no environment other than the caller, its children, and the receiver of a
    message.
  \<^item> Traps.  However the kernel is entered it is left with the lock free and the page directory
    of the environment it runs; a system call returns its result in \<open>eax\<close>; the frame of a page
    fault is where the handler of the user expects it.
  \<^item> Processes.  \<open>user_byte\<close> and \<open>user_writable\<close> are what user code can read and write in an address
    space.  \<open>fork\<close>, which runs as user code through many system calls, gives the child the bytes of
    the parent and leaves neither able to write them; the page-fault handler then gives the
    one that writes a copy of its own, which no other address space reaches.  \<open>dumbfork\<close>, a program,
    makes the same copies at once, through a page it maps in two address spaces.  \<open>env_create\<close> loads an
    executable with page-disjoint segments below the stack: the memory of the new environment is
    the program and nothing else.
  \<^item> Boot loader.  If the drive gets ready again after every command, the loader enters a well-formed
    kernel image with each of its segments in place.
  \<^item> Concurrency.  Mutual exclusion of the spin lock, for every interleaving of the CPUs; the
    stock of the producer and the customer stays in bounds if no wakeup is spurious, and does
    not otherwise.
  \<^item> Routines.  \<open>memmove\<close> moves overlapping blocks, \<open>strtol\<close> reads back what \<open>printnum\<close> prints,
    \<open>vsnprintf\<close> stays in its buffer, the line editor refines editing of a list, the binary
    search of the symbol tables ends with the best entry, a shell command runs with its words.

  Most theories that hold theorems about a component also apply each of them to a concrete
  machine, so that no hypothesis is empty.

  \<^bold>\<open>Bounds and fuel.\<close>  Loops whose length the code bounds are recursions on that bound
  (\<open>NENV\<close> environments, \<open>NCPU\<close> CPUs, 1024 entries of a table).  Loops over strings are partial
  functions or carry a fuel of \<open>2^32\<close>, by when a 32-bit pointer has met every address; running out
  of it is an endless loop.  The monitor is followed for a given number of command lines.  The
  predicate \<open>mem_ok\<close> states that memory has at most 65536 pages (256 MB), which is what can be
  mapped above \<open>KERNBASE\<close>; and \<open>translate\<close> reads page tables from memory, so that a stale TLB
  is not modelled (the invalidations of the kernel are recorded in \<open>hwlog\<close>).

  \<^bold>\<open>User code.\<close>  A function of the user library has the type of a kernel function: it runs on the
  kernel state in the current environment, reads and writes memory through the translation of the
  processor with user rights, and makes system calls by \<open>int_syscall\<close>, which runs \<open>syscall\<close> on the
  state.  When a call gives up the CPU, the parameter \<open>world\<close> says in which state the environment
  runs again.  Local variables and the stack frames of a function are not in the modelled memory;
  a local whose address is passed on (the buffer of \<open>vcprintf\<close>) has its address as an argument.
  \<open>panic\<close> ends the run.  The addresses of global variables are a parameter, \<open>uimage\<close>.  The loops of
  \<open>ipc_send\<close> and \<open>getchar\<close>, and the endless loops of the programs, are followed for a given
  number of rounds.  An access that faults ends the run.

  \<^bold>\<open>Not modelled.\<close>  The assembly (kern/entry.S, kern/trapentry.S, kern/mpentry.S, lib/entry.S,
  lib/pfentry.S, boot/boot.S): its effect on the state is what the C code relies on (for instance
  that \<open>trap\<close> gets the saved registers), stated where it is used.  Before \<open>mem_init\<close> loads its page
  directory the kernel runs on \<open>entry_pgdir\<close>, which maps four megabytes; the model lets it reach all
  of physical memory from the start.  A CPU that is being started runs, in \<open>boot_aps\<close>, as far as it
  sets its status, and not at the same time as the boot CPU.  Of the programs in user/ those in
  assembly (badsegment, breakpoint, softint, faultregs) and csatest, which does not link; the
  earlier versions of the kernel in OSLab1, OSLab4, OSLab5 and OSLab6, which are the same
  code with less in it, the tables that are data (kern/entrypgdir.c), and the files that tools
  generate (cmake-build-debug).
\<close>

end
